(* ===== verification/Machismo_Prelude.thy ===== *)
theory Machismo_Prelude
  imports Main "HOL-Library.Word" "HOL-Library.Signed_Division"
begin

text \<open>
  Shared ground of the development: the C integer types as words, the C remainder, the
  collections of simplification rules the component theories extend, and generic facts on
  options, lists and words that several components use.

  A nullable C pointer argument is an \<^typ>\<open>'a option\<close> with \<^const>\<open>None\<close> for NULL; an
  out-parameter is returned. A plain \<^verbatim>\<open>int\<close> whose value cannot overflow in the operation at
  hand is an \<^typ>\<open>int\<close>; every value whose width matters is a word.
\<close>

unbundle bit_operations_syntax

type_synonym u8 = "8 word"
type_synonym u16 = "16 word"
type_synonym u32 = "32 word"
type_synonym u64 = "64 word"

section \<open>Rule collections\<close>

named_theorems enc_defs \<open>definitions of the arm64 instruction encoders\<close>
named_theorems route_simps \<open>facts on the input routes and their bits\<close>
named_theorems menu_defs \<open>definitions of the native menu operations\<close>

section \<open>C arithmetic\<close>

text \<open>C truth values: an \<^verbatim>\<open>int\<close> is true when it is not zero; a comparison yields 0 or 1.\<close>

abbreviation c_true :: "int \<Rightarrow> bool" where
  "c_true x \<equiv> x \<noteq> 0"

definition of_c_bool :: "bool \<Rightarrow> int" where
  "of_c_bool b = (if b then 1 else 0)"

lemma of_c_bool_simps [simp]:
  "of_c_bool True = 1" "of_c_bool False = 0"
  "(of_c_bool b = 0) = (\<not> b)" "(of_c_bool b = 1) = b" "(0 = of_c_bool b) = (\<not> b)"
  by (auto simp: of_c_bool_def)

text \<open>The remainder of C truncates towards zero; adding the modulus once to a negative
  remainder gives the Euclidean one. This is the wrap-around idiom of the menu code.\<close>

lemma c_rem_wrap:
  fixes a m :: int
  assumes "0 < m"
  shows "(if a smod m < 0 then a smod m + m else a smod m) = a mod m"
proof -
  have eq: "a smod m = sgn a * (\<bar>a\<bar> mod m)"
    using assms by (simp add: signed_modulo_int_def)
  show ?thesis
  proof (cases "0 \<le> a")
    case True
    with assms show ?thesis by (cases "a = 0") (auto simp: eq not_less)
  next
    case False
    then have "a smod m = - ((- a) mod m)" by (simp add: eq)
    moreover have "a mod m = (if (- a) mod m = 0 then 0 else m - (- a) mod m)"
      using zmod_zminus1_eq_if [of "- a" m] by simp
    ultimately show ?thesis
      using pos_mod_bound [OF assms, of "- a"] pos_mod_sign [OF assms, of "- a"] by auto
  qed
qed

lemma c_rem_wrap_cases:
  fixes a m :: int
  assumes "0 < m"
  shows "a smod m < 0 \<Longrightarrow> a smod m + m = a mod m"
    and "\<not> a smod m < 0 \<Longrightarrow> a smod m = a mod m"
  using c_rem_wrap [OF assms, of a] by (simp_all split: if_splits)

section \<open>Operations that keep an invariant\<close>

text \<open>
  The contract the stateful components share: a family of operations, indexed by the event or
  call \<open>e\<close>, each of which keeps the component's invariant. Runs are folds over the sequence
  of events.
\<close>

locale step_invariant =
  fixes step :: "'e \<Rightarrow> 's \<Rightarrow> 's"
    and inv :: "'s \<Rightarrow> bool"
  assumes step_inv: "inv s \<Longrightarrow> inv (step e s)"
begin

lemma run_inv: "inv s \<Longrightarrow> inv (fold step es s)"
  by (induction es arbitrary: s) (auto intro: step_inv)

lemma every_prefix_inv:
  assumes "inv s"
  shows "inv (fold step (take n es) s)"
  using assms by (rule run_inv)

end

end
