(* ===== verification/Input_Context.thy ===== *)
theory Input_Context
  imports Machismo_Prelude
begin

text \<open>
  Model of \<^verbatim>\<open>src/src/ports/sword3/input_context.c\<close> and its header: the pure resolver that
  picks one winning input route out of the facts probed in one tick, and the tracker that
  numbers the lifecycles of the resolved context with a 64-bit generation.
\<close>

section \<open>Routes\<close>

datatype Sword3InputRoute =
    SWORD3_INPUT_ROUTE_NONE
  | SWORD3_INPUT_ROUTE_FIELD
  | SWORD3_INPUT_ROUTE_POINTER
  | SWORD3_INPUT_ROUTE_MENU_OPENING
  | SWORD3_INPUT_ROUTE_SYSTEM_MENU
  | SWORD3_INPUT_ROUTE_TITLE
  | SWORD3_INPUT_ROUTE_SHOP
  | SWORD3_INPUT_ROUTE_SAVE_LIST
  | SWORD3_INPUT_ROUTE_SAVE_LOAD
  | SWORD3_INPUT_ROUTE_BATTLE
  | SWORD3_INPUT_ROUTE_HOST_BATTLE
  | SWORD3_INPUT_ROUTE_HOST_MENU
  | SWORD3_INPUT_ROUTE_CAPTION
  | SWORD3_INPUT_ROUTE_HOST_CHEAT
  | SWORD3_INPUT_ROUTE_COUNT

text \<open>The enumerators count from zero.\<close>

fun route_value :: "Sword3InputRoute \<Rightarrow> nat" where
  "route_value SWORD3_INPUT_ROUTE_NONE = 0"
| "route_value SWORD3_INPUT_ROUTE_FIELD = 1"
| "route_value SWORD3_INPUT_ROUTE_POINTER = 2"
| "route_value SWORD3_INPUT_ROUTE_MENU_OPENING = 3"
| "route_value SWORD3_INPUT_ROUTE_SYSTEM_MENU = 4"
| "route_value SWORD3_INPUT_ROUTE_TITLE = 5"
| "route_value SWORD3_INPUT_ROUTE_SHOP = 6"
| "route_value SWORD3_INPUT_ROUTE_SAVE_LIST = 7"
| "route_value SWORD3_INPUT_ROUTE_SAVE_LOAD = 8"
| "route_value SWORD3_INPUT_ROUTE_BATTLE = 9"
| "route_value SWORD3_INPUT_ROUTE_HOST_BATTLE = 10"
| "route_value SWORD3_INPUT_ROUTE_HOST_MENU = 11"
| "route_value SWORD3_INPUT_ROUTE_CAPTION = 12"
| "route_value SWORD3_INPUT_ROUTE_HOST_CHEAT = 13"
| "route_value SWORD3_INPUT_ROUTE_COUNT = 14"

lemma route_value_inject [simp, route_simps]: "route_value r = route_value s \<longleftrightarrow> r = s"
  by (cases r; cases s) simp_all

lemma route_value_bound [simp]: "route_value r < 15"
  by (cases r) simp_all

text \<open>C orders an enumeration by its values.\<close>

instantiation Sword3InputRoute :: linorder
begin

definition less_eq_Sword3InputRoute :: "Sword3InputRoute \<Rightarrow> Sword3InputRoute \<Rightarrow> bool" where
  "r \<le> s \<longleftrightarrow> route_value r \<le> route_value s"

definition less_Sword3InputRoute :: "Sword3InputRoute \<Rightarrow> Sword3InputRoute \<Rightarrow> bool" where
  "r < s \<longleftrightarrow> route_value r < route_value s"

instance
  by standard (auto simp: less_eq_Sword3InputRoute_def less_Sword3InputRoute_def)

end

definition SWORD3_INPUT_ROUTE_BIT :: "Sword3InputRoute \<Rightarrow> u32" where
  "SWORD3_INPUT_ROUTE_BIT route = push_bit (route_value route) 1"

lemma bit_ROUTE_BIT [simp, route_simps]:
  "bit (SWORD3_INPUT_ROUTE_BIT r) n \<longleftrightarrow> n = route_value r"
proof -
  have "route_value r < 32" using route_value_bound [of r] by linarith
  then show ?thesis by (auto simp: SWORD3_INPUT_ROUTE_BIT_def bit_simps)
qed

text \<open>The test \<^verbatim>\<open>mask & SWORD3_INPUT_ROUTE_BIT(r)\<close> reads one bit.\<close>

lemma route_test [simp, route_simps]:
  "m AND SWORD3_INPUT_ROUTE_BIT r \<noteq> 0 \<longleftrightarrow> bit m (route_value r)"
proof
  assume "m AND SWORD3_INPUT_ROUTE_BIT r \<noteq> 0"
  then obtain n where "bit (m AND SWORD3_INPUT_ROUTE_BIT r) n"
    by (auto simp: bit_eq_iff)
  then show "bit m (route_value r)" by (auto simp: bit_and_iff)
next
  assume "bit m (route_value r)"
  then have "bit (m AND SWORD3_INPUT_ROUTE_BIT r) (route_value r)"
    by (simp add: bit_and_iff)
  then show "m AND SWORD3_INPUT_ROUTE_BIT r \<noteq> 0" by auto
qed

section \<open>Probe, context and tracker\<close>

record Sword3InputProbe =
  host_cheat :: int
  caption :: int
  host_menu :: int
  host_battle :: int
  battle :: int
  save_load :: int
  save_list :: int
  shop :: int
  title :: int
  system_menu :: int
  menu_opening :: int
  pointer :: int
  probe_map_id :: int
  probe_title_mode :: int
  probe_menu_page :: int
  probe_system_page :: int
  probe_system_level :: int
  probe_system_sub :: int
  probe_battle_menu :: int

record Sword3InputContext =
  route :: Sword3InputRoute
  candidates :: u32
  generation :: u64
  map_id :: int
  title_mode :: int
  menu_page :: int
  system_page :: int
  system_level :: int
  system_sub :: int
  battle_menu :: int

record Sword3InputContextTracker =
  current :: Sword3InputContext
  initialized :: int

definition zero_context :: Sword3InputContext where
  "zero_context = \<lparr> route = SWORD3_INPUT_ROUTE_NONE, candidates = 0, generation = 0,
     map_id = 0, title_mode = 0, menu_page = 0, system_page = 0, system_level = 0,
     system_sub = 0, battle_menu = 0 \<rparr>"

section \<open>Resolving\<close>

definition add_candidate :: "u32 \<Rightarrow> Sword3InputRoute \<Rightarrow> int \<Rightarrow> u32" where
  "add_candidate cands r active =
     (if c_true active then cands OR SWORD3_INPUT_ROUTE_BIT r else cands)"

definition priority :: "Sword3InputRoute list" where
  "priority = [SWORD3_INPUT_ROUTE_HOST_CHEAT, SWORD3_INPUT_ROUTE_CAPTION,
     SWORD3_INPUT_ROUTE_HOST_MENU, SWORD3_INPUT_ROUTE_HOST_BATTLE, SWORD3_INPUT_ROUTE_BATTLE,
     SWORD3_INPUT_ROUTE_SAVE_LOAD, SWORD3_INPUT_ROUTE_SAVE_LIST, SWORD3_INPUT_ROUTE_SHOP,
     SWORD3_INPUT_ROUTE_MENU_OPENING, SWORD3_INPUT_ROUTE_TITLE, SWORD3_INPUT_ROUTE_SYSTEM_MENU,
     SWORD3_INPUT_ROUTE_POINTER, SWORD3_INPUT_ROUTE_FIELD]"

fun first_candidate :: "u32 \<Rightarrow> Sword3InputRoute list \<Rightarrow> Sword3InputRoute" where
  "first_candidate cands [] = SWORD3_INPUT_ROUTE_NONE"
| "first_candidate cands (r # rs) =
     (if cands AND SWORD3_INPUT_ROUTE_BIT r \<noteq> 0 then r else first_candidate cands rs)"

definition choose_route :: "u32 \<Rightarrow> Sword3InputRoute" where
  "choose_route cands = first_candidate cands priority"

definition resolve_candidates :: "Sword3InputProbe \<Rightarrow> u32" where
  "resolve_candidates probe =
    (let c = 0;
         c = add_candidate c SWORD3_INPUT_ROUTE_HOST_CHEAT (host_cheat probe);
         c = add_candidate c SWORD3_INPUT_ROUTE_CAPTION (caption probe);
         c = add_candidate c SWORD3_INPUT_ROUTE_HOST_MENU (host_menu probe);
         c = add_candidate c SWORD3_INPUT_ROUTE_HOST_BATTLE (host_battle probe);
         c = add_candidate c SWORD3_INPUT_ROUTE_BATTLE (battle probe);
         c = add_candidate c SWORD3_INPUT_ROUTE_SAVE_LOAD (save_load probe);
         c = add_candidate c SWORD3_INPUT_ROUTE_SAVE_LIST (save_list probe);
         c = add_candidate c SWORD3_INPUT_ROUTE_SHOP (shop probe);
         c = add_candidate c SWORD3_INPUT_ROUTE_TITLE (title probe);
         c = add_candidate c SWORD3_INPUT_ROUTE_SYSTEM_MENU (system_menu probe);
         c = add_candidate c SWORD3_INPUT_ROUTE_MENU_OPENING (menu_opening probe);
         c = add_candidate c SWORD3_INPUT_ROUTE_POINTER (pointer probe)
     in add_candidate c SWORD3_INPUT_ROUTE_FIELD
          (of_c_bool (\<not> c_true (title probe) \<and> \<not> c_true (battle probe))))"

definition sword3_input_context_resolve :: "Sword3InputProbe option \<Rightarrow> Sword3InputContext" where
  "sword3_input_context_resolve probe_ptr =
    (case probe_ptr of
       None \<Rightarrow> zero_context
     | Some probe \<Rightarrow>
         let cands = resolve_candidates probe in
         zero_context \<lparr> route := choose_route cands, candidates := cands,
           map_id := probe_map_id probe, title_mode := probe_title_mode probe,
           menu_page := probe_menu_page probe, system_page := probe_system_page probe,
           system_level := probe_system_level probe, system_sub := probe_system_sub probe,
           battle_menu := probe_battle_menu probe \<rparr>)"

section \<open>Tracking the lifecycle\<close>

definition same_lifecycle :: "Sword3InputContext \<Rightarrow> Sword3InputContext \<Rightarrow> bool" where
  "same_lifecycle left right =
    (let title_routes = SWORD3_INPUT_ROUTE_BIT SWORD3_INPUT_ROUTE_TITLE OR
                        SWORD3_INPUT_ROUTE_BIT SWORD3_INPUT_ROUTE_SAVE_LOAD;
         save_routes = SWORD3_INPUT_ROUTE_BIT SWORD3_INPUT_ROUTE_SAVE_LOAD OR
                       SWORD3_INPUT_ROUTE_BIT SWORD3_INPUT_ROUTE_SAVE_LIST;
         battle_routes = SWORD3_INPUT_ROUTE_BIT SWORD3_INPUT_ROUTE_BATTLE OR
                         SWORD3_INPUT_ROUTE_BIT SWORD3_INPUT_ROUTE_HOST_BATTLE
     in if route left \<noteq> route right \<or> candidates left \<noteq> candidates right \<or>
           map_id left \<noteq> map_id right then False
        else let cands = candidates left in
          if cands AND title_routes \<noteq> 0 \<and> title_mode left \<noteq> title_mode right then False
          else if cands AND save_routes \<noteq> 0 \<and> menu_page left \<noteq> menu_page right then False
          else if cands AND battle_routes \<noteq> 0 \<and> battle_menu left \<noteq> battle_menu right then False
          else True)"

text \<open>
  The three arguments are pointers. The result is the returned \<^verbatim>\<open>int\<close>, the tracker after the
  call and the context written through the out-pointer.
\<close>

definition sword3_input_context_track ::
  "Sword3InputContextTracker option \<Rightarrow> Sword3InputProbe option \<Rightarrow> Sword3InputContext option \<Rightarrow>
   int \<times> Sword3InputContextTracker option \<times> Sword3InputContext option" where
  "sword3_input_context_track tracker_ptr probe_ptr context_ptr =
    (case (tracker_ptr, context_ptr) of
       (Some tracker, Some _) \<Rightarrow>
         let next0 = sword3_input_context_resolve probe_ptr;
             changed = (\<not> c_true (initialized tracker) \<or>
                        \<not> same_lifecycle (current tracker) next0);
             next1 =
               (if \<not> c_true (initialized tracker) then next0 \<lparr> generation := 1 \<rparr>
                else if changed then
                  let g = generation (current tracker) + 1 in
                  next0 \<lparr> generation := (if g = 0 then 1 else g) \<rparr>
                else next0 \<lparr> generation := generation (current tracker) \<rparr>);
             inited = (if \<not> c_true (initialized tracker) then 1 else initialized tracker)
         in (of_c_bool changed,
             Some (tracker \<lparr> current := next1, initialized := inited \<rparr>), Some next1)
     | _ \<Rightarrow> (0, tracker_ptr, context_ptr))"

fun sword3_input_route_name :: "Sword3InputRoute \<Rightarrow> string" where
  "sword3_input_route_name SWORD3_INPUT_ROUTE_NONE = ''none''"
| "sword3_input_route_name SWORD3_INPUT_ROUTE_FIELD = ''field''"
| "sword3_input_route_name SWORD3_INPUT_ROUTE_POINTER = ''pointer''"
| "sword3_input_route_name SWORD3_INPUT_ROUTE_MENU_OPENING = ''menu-opening''"
| "sword3_input_route_name SWORD3_INPUT_ROUTE_SYSTEM_MENU = ''system-menu''"
| "sword3_input_route_name SWORD3_INPUT_ROUTE_TITLE = ''title''"
| "sword3_input_route_name SWORD3_INPUT_ROUTE_SHOP = ''shop''"
| "sword3_input_route_name SWORD3_INPUT_ROUTE_SAVE_LIST = ''save-list''"
| "sword3_input_route_name SWORD3_INPUT_ROUTE_SAVE_LOAD = ''save-load''"
| "sword3_input_route_name SWORD3_INPUT_ROUTE_BATTLE = ''battle''"
| "sword3_input_route_name SWORD3_INPUT_ROUTE_HOST_BATTLE = ''host-battle''"
| "sword3_input_route_name SWORD3_INPUT_ROUTE_HOST_MENU = ''host-menu''"
| "sword3_input_route_name SWORD3_INPUT_ROUTE_CAPTION = ''caption''"
| "sword3_input_route_name SWORD3_INPUT_ROUTE_HOST_CHEAT = ''host-cheat''"
| "sword3_input_route_name SWORD3_INPUT_ROUTE_COUNT = ''invalid''"

section \<open>Which routes a probe activates\<close>

text \<open>The facts of a probe that make a route a candidate.\<close>

fun probe_active :: "Sword3InputProbe \<Rightarrow> Sword3InputRoute \<Rightarrow> bool" where
  "probe_active p SWORD3_INPUT_ROUTE_NONE = False"
| "probe_active p SWORD3_INPUT_ROUTE_FIELD = (title p = 0 \<and> battle p = 0)"
| "probe_active p SWORD3_INPUT_ROUTE_POINTER = (pointer p \<noteq> 0)"
| "probe_active p SWORD3_INPUT_ROUTE_MENU_OPENING = (menu_opening p \<noteq> 0)"
| "probe_active p SWORD3_INPUT_ROUTE_SYSTEM_MENU = (system_menu p \<noteq> 0)"
| "probe_active p SWORD3_INPUT_ROUTE_TITLE = (title p \<noteq> 0)"
| "probe_active p SWORD3_INPUT_ROUTE_SHOP = (shop p \<noteq> 0)"
| "probe_active p SWORD3_INPUT_ROUTE_SAVE_LIST = (save_list p \<noteq> 0)"
| "probe_active p SWORD3_INPUT_ROUTE_SAVE_LOAD = (save_load p \<noteq> 0)"
| "probe_active p SWORD3_INPUT_ROUTE_BATTLE = (battle p \<noteq> 0)"
| "probe_active p SWORD3_INPUT_ROUTE_HOST_BATTLE = (host_battle p \<noteq> 0)"
| "probe_active p SWORD3_INPUT_ROUTE_HOST_MENU = (host_menu p \<noteq> 0)"
| "probe_active p SWORD3_INPUT_ROUTE_CAPTION = (caption p \<noteq> 0)"
| "probe_active p SWORD3_INPUT_ROUTE_HOST_CHEAT = (host_cheat p \<noteq> 0)"
| "probe_active p SWORD3_INPUT_ROUTE_COUNT = False"

lemma bit_add_candidate [simp, route_simps]:
  "bit (add_candidate c r a) n \<longleftrightarrow> bit c n \<or> a \<noteq> 0 \<and> n = route_value r"
  by (auto simp: add_candidate_def bit_or_iff)

lemma bit_resolve_candidates [route_simps]:
  "bit (resolve_candidates p) (route_value r) \<longleftrightarrow> probe_active p r"
  by (cases r) (simp_all add: resolve_candidates_def Let_def)

lemma first_candidate_find:
  "first_candidate c rs = (case filter (\<lambda>r. bit c (route_value r)) rs of
     [] \<Rightarrow> SWORD3_INPUT_ROUTE_NONE | r # _ \<Rightarrow> r)"
  by (induction rs) simp_all

lemma some_priority_active: "filter (probe_active p) priority \<noteq> []"
  by (cases "title p = 0"; cases "battle p = 0") (simp_all add: priority_def)

lemma resolve_route:
  "route (sword3_input_context_resolve (Some p)) = hd (filter (probe_active p) priority)"
  using some_priority_active [of p]
  by (simp add: sword3_input_context_resolve_def Let_def choose_route_def first_candidate_find
        bit_resolve_candidates split: list.split)

lemma resolve_candidates_eq:
  "candidates (sword3_input_context_resolve (Some p)) = resolve_candidates p"
  by (simp add: sword3_input_context_resolve_def Let_def)

section \<open>Lifecycles\<close>

text \<open>\<^const>\<open>same_lifecycle\<close> ignores the generation and is an equivalence.\<close>

lemma same_lifecycle_generation [simp]:
  "same_lifecycle (c\<lparr>generation := g\<rparr>) d = same_lifecycle c d"
  "same_lifecycle c (d\<lparr>generation := g\<rparr>) = same_lifecycle c d"
  by (simp_all add: same_lifecycle_def)

lemma same_lifecycle_refl [simp]: "same_lifecycle c c"
  by (simp add: same_lifecycle_def)

lemma same_lifecycle_sym: "same_lifecycle c d \<Longrightarrow> same_lifecycle d c"
  by (auto simp: same_lifecycle_def Let_def split: if_splits)

lemma same_lifecycle_trans:
  "same_lifecycle c d \<Longrightarrow> same_lifecycle d e \<Longrightarrow> same_lifecycle c e"
  by (auto simp: same_lifecycle_def Let_def split: if_splits)

text \<open>One call on live pointers, as a state transformer, and the contexts of a run.\<close>

definition track_step ::
  "Sword3InputProbe option \<Rightarrow> Sword3InputContextTracker \<Rightarrow> Sword3InputContextTracker" where
  "track_step probe t =
     the (fst (snd (sword3_input_context_track (Some t) probe (Some zero_context))))"

definition zero_tracker :: Sword3InputContextTracker where
  "zero_tracker = \<lparr> current = zero_context, initialized = 0 \<rparr>"

fun track_contexts ::
  "Sword3InputContextTracker \<Rightarrow> Sword3InputProbe option list \<Rightarrow> Sword3InputContext list" where
  "track_contexts t [] = []"
| "track_contexts t (p # ps) =
     (let t' = track_step p t in current t' # track_contexts t' ps)"

definition next_generation :: "u64 \<Rightarrow> u64" where
  "next_generation g = (if g + 1 = 0 then 1 else g + 1)"

lemma next_generation_nonzero [simp]: "next_generation g \<noteq> 0"
  by (simp add: next_generation_def)

lemma next_generation_changes [simp]: "next_generation g \<noteq> g"
  by (auto simp: next_generation_def)

lemma track_live:
  "sword3_input_context_track (Some t) p (Some c) =
     (let n = sword3_input_context_resolve p;
          fresh = (initialized t = 0);
          changed = (fresh \<or> \<not> same_lifecycle (current t) n);
          g = (if fresh then 1 else if changed then next_generation (generation (current t))
               else generation (current t))
      in (of_c_bool changed,
          Some (t\<lparr>current := n\<lparr>generation := g\<rparr>, initialized := (if fresh then 1 else initialized t)\<rparr>),
          Some (n\<lparr>generation := g\<rparr>)))"
  by (simp add: sword3_input_context_track_def next_generation_def Let_def)

lemma track_step_eq:
  "track_step p t =
     (let n = sword3_input_context_resolve p;
          g = (if initialized t = 0 then 1
               else if same_lifecycle (current t) n then generation (current t)
               else next_generation (generation (current t)))
      in t\<lparr>current := n\<lparr>generation := g\<rparr>, initialized := (if initialized t = 0 then 1 else initialized t)\<rparr>)"
  by (simp add: track_step_def track_live Let_def)

definition tracker_inv :: "Sword3InputContextTracker \<Rightarrow> bool" where
  "tracker_inv t \<longleftrightarrow> (initialized t \<noteq> 0 \<longrightarrow> generation (current t) \<noteq> 0)"

interpretation tracker: step_invariant track_step tracker_inv
  by unfold_locales (auto simp: tracker_inv_def track_step_eq Let_def)

lemma track_step_initialized [simp]: "initialized (track_step p t) \<noteq> 0"
  by (simp add: track_step_eq Let_def)

lemma track_step_generation:
  assumes "initialized t \<noteq> 0"
  shows "generation (current (track_step p t)) = generation (current t) \<longleftrightarrow>
         same_lifecycle (current t) (current (track_step p t))"
  using assms by (simp add: track_step_eq Let_def)

lemma track_contexts_nth:
  assumes "i < length ps"
  shows "track_contexts t ps ! i = current (fold track_step (take (Suc i) ps) t)"
  using assms
proof (induction ps arbitrary: t i)
  case Nil
  then show ?case by simp
next
  case (Cons p ps)
  then show ?case by (cases i) (simp_all add: Let_def)
qed

lemma length_track_contexts [simp]: "length (track_contexts t ps) = length ps"
  by (induction ps arbitrary: t) (simp_all add: Let_def)

text \<open>The generation counts the lifecycle changes of a run.\<close>

definition changes_upto :: "Sword3InputContext list \<Rightarrow> nat \<Rightarrow> nat" where
  "changes_upto cs i = length (filter (\<lambda>j. \<not> same_lifecycle (cs ! j) (cs ! Suc j)) [0..<i])"

lemma changes_upto_Suc [simp]:
  "changes_upto cs (Suc i) =
     changes_upto cs i + (if same_lifecycle (cs ! i) (cs ! Suc i) then 0 else 1)"
  by (simp add: changes_upto_def)

lemma changes_upto_le: "changes_upto cs i \<le> i"
  using length_filter_le [of _ "[0..<i]"] by (simp add: changes_upto_def)

lemma unat_next_generation:
  assumes "unat g + 1 < 2 ^ 64"
  shows "unat (next_generation g) = unat g + 1"
proof -
  have "unat (g + 1) = unat g + 1" using assms by (simp add: unat_word_ariths)
  moreover from this have "g + 1 \<noteq> 0" by (metis add_is_0 one_neq_zero unat_0)
  ultimately show ?thesis by (simp add: next_generation_def)
qed

lemma track_contexts_Suc:
  assumes "Suc i < length ps"
  shows "\<exists>t'. initialized t' \<noteq> 0 \<and> track_contexts t ps ! i = current t' \<and>
              track_contexts t ps ! Suc i = current (track_step (ps ! Suc i) t')"
proof -
  let ?t = "fold track_step (take (Suc i) ps) t"
  have "take (Suc i) ps = take i ps @ [ps ! i]"
    using assms by (simp add: take_Suc_conv_app_nth)
  then have "initialized ?t \<noteq> 0" by simp
  moreover have "take (Suc (Suc i)) ps = take (Suc i) ps @ [ps ! Suc i]"
    using assms by (rule take_Suc_conv_app_nth)
  ultimately show ?thesis
    using assms by (intro exI [of _ ?t]) (simp add: track_contexts_nth)
qed

lemma track_contexts_head:
  assumes "ps \<noteq> []" and "initialized t = 0"
  shows "generation (track_contexts t ps ! 0) = 1"
  using assms by (cases ps) (simp_all add: Let_def track_step_eq)

section \<open>Properties\<close>

text \<open>For a non-NULL probe the resolved route is the first route, in priority order, that
  the probed facts activate. Some route is always active, so the route is never NONE, and the
  candidate mask holds exactly the active routes.\<close>

lemma resolve_highest_priority:
  "\<exists>rest. filter (probe_active p) priority =
             route (sword3_input_context_resolve (Some p)) # rest \<and>
          route (sword3_input_context_resolve (Some p)) \<noteq> SWORD3_INPUT_ROUTE_NONE \<and>
          {r. bit (candidates (sword3_input_context_resolve (Some p))) (route_value r)} =
            {r. probe_active p r}"
proof -
  have "filter (probe_active p) priority =
        route (sword3_input_context_resolve (Some p)) # tl (filter (probe_active p) priority)"
    using some_priority_active by (simp add: resolve_route)
  moreover from this have "route (sword3_input_context_resolve (Some p)) \<in> set priority"
    by (metis filter_is_subset list.set_intros(1) subsetD)
  moreover have "SWORD3_INPUT_ROUTE_NONE \<notin> set priority" by (simp add: priority_def)
  moreover have "{r. bit (candidates (sword3_input_context_resolve (Some p))) (route_value r)} =
                 {r. probe_active p r}"
    by (simp add: resolve_candidates_eq bit_resolve_candidates)
  ultimately show ?thesis by metis
qed

text \<open>From a zeroed tracker, the generation of the i-th tracked context is one more than
  the number of lifecycle changes before it, for every run shorter than \<open>2 ^ 64\<close> ticks. So
  two contexts of a run carry the same generation exactly when no change lies between them.\<close>

lemma track_generation_counts_changes:
  assumes "length ps < 2 ^ 64" and "i < length ps"
  shows "unat (generation (track_contexts zero_tracker ps ! i)) =
         1 + changes_upto (track_contexts zero_tracker ps) i"
  using assms(2)
proof (induction i)
  case 0
  then show ?case
    by (simp add: track_contexts_head zero_tracker_def changes_upto_def)
next
  case (Suc i)
  let ?cs = "track_contexts zero_tracker ps"
  obtain t' where t': "initialized t' \<noteq> 0" "?cs ! i = current t'"
      "?cs ! Suc i = current (track_step (ps ! Suc i) t')"
    using track_contexts_Suc [OF Suc.prems] by blast
  have IH: "unat (generation (current t')) = 1 + changes_upto ?cs i"
    using Suc t'(2) by simp
  have "unat (generation (current t')) + 1 < 2 ^ 64"
    using IH changes_upto_le [of ?cs i] Suc.prems assms(1) by simp
  then show ?case
    using t' IH by (simp add: track_step_eq Let_def unat_next_generation)
qed

theorem track_generation_counts_changes_witness:
  "unat (generation (track_contexts zero_tracker [None, None] ! 1)) =
     1 + changes_upto (track_contexts zero_tracker [None, None]) 1"
  using track_generation_counts_changes [of "[None, None]" 1] by simp

text \<open>on a tracker that has been initialised by an earlier call, one tick returns 1
  exactly when the lifecycle changed, keeps the generation exactly when it did not, and never
  hands out generation 0, even when the 64-bit counter wraps around.\<close>

lemma track_generation_step:
  assumes "initialized t \<noteq> 0" and "tracker_inv t"
  shows "\<exists>r t' c'. sword3_input_context_track (Some t) p (Some c) = (r, Some t', Some c') \<and>
           current t' = c' \<and> tracker_inv t' \<and> generation c' \<noteq> 0 \<and>
           r = of_c_bool (\<not> same_lifecycle (current t) c') \<and>
           (generation c' = generation (current t) \<longleftrightarrow> same_lifecycle (current t) c')"
  using assms by (cases "same_lifecycle (current t) (sword3_input_context_resolve p)")
    (simp_all add: track_live Let_def tracker_inv_def)

theorem track_generation_step_witness:
  "let t = \<lparr>current = zero_context\<lparr>generation := - 1\<rparr>, initialized = 1\<rparr>;
       p = \<lparr>host_cheat = 1, caption = 0, host_menu = 0, host_battle = 0, battle = 0,
            save_load = 0, save_list = 0, shop = 0, title = 0, system_menu = 0,
            menu_opening = 0, pointer = 0, probe_map_id = 7, probe_title_mode = 0,
            probe_menu_page = 0, probe_system_page = 0, probe_system_level = 0,
            probe_system_sub = 0, probe_battle_menu = 0\<rparr>
   in \<exists>r t' c'. sword3_input_context_track (Some t) (Some p) (Some zero_context) =
          (r, Some t', Some c') \<and> generation c' \<noteq> 0"
  using track_generation_step
    [of "\<lparr>current = zero_context\<lparr>generation := - 1\<rparr>, initialized = 1\<rparr>"]
  unfolding Let_def by (simp add: tracker_inv_def) blast

end
