(* ===== verification/Native_Menu.thy ===== *)
theory Native_Menu
  imports Machismo_Prelude
begin

text \<open>
  Model of \<^verbatim>\<open>src/src/ports/sword3/native_menu_input.c\<close>: the host-side focus machine over the
  tab strip and the page content of the guest's native menu. The guest's selected layer is an
  argument. Sums such as \<^verbatim>\<open>input->tab + delta\<close> are taken over the integers; with the tab index
  below 6 they stay in \<^verbatim>\<open>int\<close> for every \<^verbatim>\<open>delta\<close> up to \<^verbatim>\<open>INT_MAX - 5\<close>.
\<close>

definition SWORD3_NATIVE_MENU_MAX_TABS :: int where
  "SWORD3_NATIVE_MENU_MAX_TABS = 6"

datatype Sword3NativeMenuFocus =
    SWORD3_NATIVE_MENU_FOCUS_TABS
  | SWORD3_NATIVE_MENU_FOCUS_CONTENT

datatype Sword3NativeMenuBack =
    SWORD3_NATIVE_MENU_BACK_WITHIN_CONTENT
  | SWORD3_NATIVE_MENU_BACK_TO_TABS
  | SWORD3_NATIVE_MENU_BACK_CLOSE

record Sword3NativeMenuInput =
  focus :: Sword3NativeMenuFocus
  tab :: int
  tab_count :: int
  item_action :: int

section \<open>Operations\<close>

definition sword3_native_menu_input_reset ::
  "Sword3NativeMenuInput option \<Rightarrow> int \<Rightarrow> int \<Rightarrow> Sword3NativeMenuInput option" where
  [menu_defs]: "sword3_native_menu_input_reset input_ptr count0 tab0 =
    (case input_ptr of
       None \<Rightarrow> None
     | Some inp \<Rightarrow>
         let count = (if count0 < 1 \<or> count0 > SWORD3_NATIVE_MENU_MAX_TABS then 5 else count0);
             t = (if tab0 < 0 \<or> tab0 \<ge> count then 0 else tab0)
         in Some (inp \<lparr> focus := SWORD3_NATIVE_MENU_FOCUS_TABS, tab := t, tab_count := count,
                        item_action := 0 \<rparr>))"

definition sword3_native_menu_input_move_tab ::
  "Sword3NativeMenuInput option \<Rightarrow> int \<Rightarrow> int \<times> Sword3NativeMenuInput option" where
  [menu_defs]: "sword3_native_menu_input_move_tab input_ptr delta =
    (case input_ptr of
       None \<Rightarrow> (0, None)
     | Some inp \<Rightarrow>
         if focus inp \<noteq> SWORD3_NATIVE_MENU_FOCUS_TABS \<or> tab_count inp < 1 \<or>
            tab_count inp > SWORD3_NATIVE_MENU_MAX_TABS \<or> \<not> c_true delta
         then (0, Some inp)
         else
           let t0 = (tab inp + delta) smod tab_count inp;
               t = (if t0 < 0 then t0 + tab_count inp else t0)
           in if t = tab inp then (0, Some inp) else (1, Some (inp \<lparr> tab := t \<rparr>)))"

definition sword3_native_menu_input_activate ::
  "Sword3NativeMenuInput option \<Rightarrow> int \<times> Sword3NativeMenuInput option" where
  [menu_defs]: "sword3_native_menu_input_activate input_ptr =
    (case input_ptr of
       None \<Rightarrow> (-1, None)
     | Some inp \<Rightarrow>
         if focus inp \<noteq> SWORD3_NATIVE_MENU_FOCUS_TABS then (-1, Some inp)
         else (tab inp, Some (inp \<lparr> focus := SWORD3_NATIVE_MENU_FOCUS_CONTENT \<rparr>)))"

definition sword3_native_menu_input_move_item_action ::
  "Sword3NativeMenuInput option \<Rightarrow> int \<Rightarrow> int \<times> Sword3NativeMenuInput option" where
  [menu_defs]: "sword3_native_menu_input_move_item_action input_ptr delta =
    (case input_ptr of
       None \<Rightarrow> (0, None)
     | Some inp \<Rightarrow>
         if focus inp \<noteq> SWORD3_NATIVE_MENU_FOCUS_CONTENT \<or> tab inp \<noteq> 0 \<or> \<not> c_true delta
         then (0, Some inp)
         else
           let a0 = (item_action inp + delta) smod 3;
               a = (if a0 < 0 then a0 + 3 else a0)
           in if a = item_action inp then (0, Some inp)
              else (1, Some (inp \<lparr> item_action := a \<rparr>)))"

definition sword3_native_menu_input_back ::
  "Sword3NativeMenuInput option \<Rightarrow> int \<Rightarrow> Sword3NativeMenuBack \<times> Sword3NativeMenuInput option" where
  [menu_defs]: "sword3_native_menu_input_back input_ptr native_layer =
    (case input_ptr of
       None \<Rightarrow> (SWORD3_NATIVE_MENU_BACK_CLOSE, None)
     | Some inp \<Rightarrow>
         if focus inp = SWORD3_NATIVE_MENU_FOCUS_CONTENT then
           if native_layer > 2 then (SWORD3_NATIVE_MENU_BACK_WITHIN_CONTENT, Some inp)
           else (SWORD3_NATIVE_MENU_BACK_TO_TABS,
                 Some (inp \<lparr> focus := SWORD3_NATIVE_MENU_FOCUS_TABS \<rparr>))
         else (SWORD3_NATIVE_MENU_BACK_CLOSE, Some inp))"

section \<open>Invariant\<close>

definition menu_inv :: "Sword3NativeMenuInput \<Rightarrow> bool" where
  "menu_inv m \<longleftrightarrow> 1 \<le> tab_count m \<and> tab_count m \<le> SWORD3_NATIVE_MENU_MAX_TABS \<and>
     0 \<le> tab m \<and> tab m < tab_count m \<and> 0 \<le> item_action m \<and> item_action m < 3"

lemma menu_invD:
  "menu_inv m \<Longrightarrow> 0 < tab_count m"
  "menu_inv m \<Longrightarrow> tab m mod tab_count m = tab m"
  by (auto simp: menu_inv_def)

lemma add_mod_same_iff:
  fixes t d n :: int
  assumes "0 \<le> t" and "t < n"
  shows "(t + d) mod n = t \<longleftrightarrow> d mod n = 0"
proof -
  have "(t + d) mod n = t \<longleftrightarrow> (t + d) mod n = t mod n" using assms by simp
  also have "\<dots> \<longleftrightarrow> n dvd d" by (simp add: mod_eq_dvd_iff)
  finally show ?thesis by (simp add: dvd_eq_mod_eq_0)
qed

text \<open>On a well-formed menu the two movements are cyclic.\<close>

lemma move_tab_cyclic:
  assumes "menu_inv m"
  shows "sword3_native_menu_input_move_tab (Some m) d =
    (if focus m = SWORD3_NATIVE_MENU_FOCUS_TABS \<and> d mod tab_count m \<noteq> 0
     then (1, Some (m\<lparr>tab := (tab m + d) mod tab_count m\<rparr>)) else (0, Some m))"
proof (cases "focus m = SWORD3_NATIVE_MENU_FOCUS_TABS \<and> d \<noteq> 0")
  case True
  note wrap = c_rem_wrap_cases [OF menu_invD(1) [OF assms], of "tab m + d"]
  have "(tab m + d) mod tab_count m = tab m \<longleftrightarrow> d mod tab_count m = 0"
    using assms by (intro add_mod_same_iff) (simp_all add: menu_inv_def)
  then show ?thesis
    using True assms wrap
    by (auto simp: sword3_native_menu_input_move_tab_def Let_def menu_inv_def)
next
  case False
  then show ?thesis by (auto simp: sword3_native_menu_input_move_tab_def)
qed

lemma move_item_action_cyclic:
  assumes "menu_inv m"
  shows "sword3_native_menu_input_move_item_action (Some m) d =
    (if focus m = SWORD3_NATIVE_MENU_FOCUS_CONTENT \<and> tab m = 0 \<and> d mod 3 \<noteq> 0
     then (1, Some (m\<lparr>item_action := (item_action m + d) mod 3\<rparr>)) else (0, Some m))"
proof (cases "focus m = SWORD3_NATIVE_MENU_FOCUS_CONTENT \<and> tab m = 0 \<and> d \<noteq> 0")
  case True
  note wrap = c_rem_wrap_cases [of 3 "item_action m + d"]
  have "(item_action m + d) mod 3 = item_action m \<longleftrightarrow> d mod 3 = 0"
    using assms by (intro add_mod_same_iff) (simp_all add: menu_inv_def)
  then show ?thesis
    using True by (simp add: sword3_native_menu_input_move_item_action_def Let_def wrap)
next
  case False
  then show ?thesis by (auto simp: sword3_native_menu_input_move_item_action_def)
qed

section \<open>Sessions\<close>

datatype menu_event =
    MenuReset int int
  | MenuMoveTab int
  | MenuActivate
  | MenuMoveItemAction int
  | MenuBack int

fun menu_step :: "menu_event \<Rightarrow> Sword3NativeMenuInput \<Rightarrow> Sword3NativeMenuInput" where
  "menu_step (MenuReset n t) m = the (sword3_native_menu_input_reset (Some m) n t)"
| "menu_step (MenuMoveTab d) m = the (snd (sword3_native_menu_input_move_tab (Some m) d))"
| "menu_step MenuActivate m = the (snd (sword3_native_menu_input_activate (Some m)))"
| "menu_step (MenuMoveItemAction d) m =
     the (snd (sword3_native_menu_input_move_item_action (Some m) d))"
| "menu_step (MenuBack l) m = the (snd (sword3_native_menu_input_back (Some m) l))"

lemma menu_reset_inv: "menu_inv (menu_step (MenuReset n t) m)"
  by (simp add: menu_inv_def sword3_native_menu_input_reset_def SWORD3_NATIVE_MENU_MAX_TABS_def
        Let_def)

lemma menu_step_inv:
  assumes "menu_inv m"
  shows "menu_inv (menu_step e m)"
proof (cases e)
  case (MenuReset n t)
  then show ?thesis by (simp add: menu_reset_inv del: menu_step.simps)
next
  case (MenuMoveTab d)
  with assms show ?thesis by (simp add: move_tab_cyclic) (auto simp: menu_inv_def)
next
  case MenuActivate
  with assms show ?thesis by (auto simp: sword3_native_menu_input_activate_def menu_inv_def)
next
  case (MenuMoveItemAction d)
  with assms show ?thesis by (simp add: move_item_action_cyclic) (auto simp: menu_inv_def)
next
  case (MenuBack l)
  with assms show ?thesis by (auto simp: sword3_native_menu_input_back_def menu_inv_def)
qed

interpretation menu: step_invariant menu_step menu_inv
  by unfold_locales (rule menu_step_inv)

section \<open>Properties\<close>

text \<open>Whatever the arguments of the reset that starts a session and whatever sequence of
  operations follows, the tab index and the item action stay inside their ranges.\<close>

lemma menu_session_in_range:
  "menu_inv (fold menu_step es (menu_step (MenuReset n t) m))"
  by (rule menu.run_inv [OF menu_reset_inv])

text \<open>on a well-formed menu whose tab strip has the focus, moving by \<open>d\<close> is rotation of
  the tab index by \<open>d\<close> modulo the number of tabs, it returns 1 exactly when the selected tab
  changes, and moving back by \<open>- d\<close> restores the menu.\<close>

lemma menu_move_tab_rotates:
  assumes "menu_inv m" and "focus m = SWORD3_NATIVE_MENU_FOCUS_TABS"
  shows "sword3_native_menu_input_move_tab (Some m) d =
           (of_c_bool (d mod tab_count m \<noteq> 0), Some (m\<lparr>tab := (tab m + d) mod tab_count m\<rparr>)) \<and>
         menu_step (MenuMoveTab (- d)) (menu_step (MenuMoveTab d) m) = m"
proof -
  have eq: "sword3_native_menu_input_move_tab (Some m) d =
      (of_c_bool (d mod tab_count m \<noteq> 0), Some (m\<lparr>tab := (tab m + d) mod tab_count m\<rparr>))"
    if "menu_inv m" "focus m = SWORD3_NATIVE_MENU_FOCUS_TABS" for m d
  proof (cases "d mod tab_count m = 0")
    case True
    have "(tab m + d) mod tab_count m = tab m"
      using that True by (subst add_mod_same_iff) (simp_all add: menu_inv_def)
    with True that show ?thesis by (simp add: move_tab_cyclic)
  next
    case False
    with that show ?thesis by (simp add: move_tab_cyclic)
  qed
  let ?m = "m\<lparr>tab := (tab m + d) mod tab_count m\<rparr>"
  have step: "menu_step (MenuMoveTab d) m = ?m" using eq [OF assms] by simp
  have "menu_inv ?m" using menu_step_inv [OF assms(1), of "MenuMoveTab d"] step by simp
  then have "menu_step (MenuMoveTab (- d)) ?m =
      ?m\<lparr>tab := ((tab m + d) mod tab_count m - d) mod tab_count m\<rparr>"
    using eq [of ?m "- d"] assms(2) by simp
  also have "\<dots> = m" using assms(1) by (simp add: mod_diff_left_eq menu_invD)
  finally show ?thesis using eq [OF assms] step by simp
qed

theorem menu_move_tab_rotates_witness:
  "sword3_native_menu_input_move_tab
     (Some \<lparr>focus = SWORD3_NATIVE_MENU_FOCUS_TABS, tab = 1, tab_count = 5, item_action = 0\<rparr>) (- 3) =
   (1, Some \<lparr>focus = SWORD3_NATIVE_MENU_FOCUS_TABS, tab = 3, tab_count = 5, item_action = 0\<rparr>)"
  using menu_move_tab_rotates
    [of "\<lparr>focus = SWORD3_NATIVE_MENU_FOCUS_TABS, tab = 1, tab_count = 5, item_action = 0\<rparr>" "- 3"]
  by (simp add: menu_inv_def SWORD3_NATIVE_MENU_MAX_TABS_def)

text \<open>the Back protocol. From page content at the guest's base layer the first Back gives
  the focus to the tab strip and the second closes; deeper guest layers keep the Back to
  themselves and change nothing.\<close>

lemma menu_back_protocol:
  assumes "focus m = SWORD3_NATIVE_MENU_FOCUS_CONTENT"
  shows "sword3_native_menu_input_back (Some m) l =
      (if l > 2 then (SWORD3_NATIVE_MENU_BACK_WITHIN_CONTENT, Some m)
       else (SWORD3_NATIVE_MENU_BACK_TO_TABS, Some (m\<lparr>focus := SWORD3_NATIVE_MENU_FOCUS_TABS\<rparr>))) \<and>
    (l \<le> 2 \<longrightarrow> sword3_native_menu_input_back (snd (sword3_native_menu_input_back (Some m) l)) l' =
      (SWORD3_NATIVE_MENU_BACK_CLOSE, Some (m\<lparr>focus := SWORD3_NATIVE_MENU_FOCUS_TABS\<rparr>)))"
  using assms by (simp add: sword3_native_menu_input_back_def)

theorem menu_back_protocol_witness:
  "let m = \<lparr>focus = SWORD3_NATIVE_MENU_FOCUS_CONTENT, tab = 2, tab_count = 5, item_action = 1\<rparr> in
   sword3_native_menu_input_back (Some m) 2 =
     (SWORD3_NATIVE_MENU_BACK_TO_TABS, Some (m\<lparr>focus := SWORD3_NATIVE_MENU_FOCUS_TABS\<rparr>)) \<and>
   sword3_native_menu_input_back (Some (m\<lparr>focus := SWORD3_NATIVE_MENU_FOCUS_TABS\<rparr>)) 0 =
     (SWORD3_NATIVE_MENU_BACK_CLOSE, Some (m\<lparr>focus := SWORD3_NATIVE_MENU_FOCUS_TABS\<rparr>))"
  using menu_back_protocol
    [of "\<lparr>focus = SWORD3_NATIVE_MENU_FOCUS_CONTENT, tab = 2, tab_count = 5, item_action = 1\<rparr>" 2 0]
  unfolding Let_def by auto

end
