(* ===== verification/Guest_Memory.thy ===== *)
theory Guest_Memory
  imports Machismo_Prelude
begin

text \<open>
  Byte-addressed 64-bit memory, as the loader, the patchers and the emulated code see it: loads
  and stores of up to eight bytes in little-endian order, and ranges of addresses that wrap
  around like the addresses themselves.
\<close>

type_synonym mem = "u64 \<Rightarrow> u8"

fun load :: "mem \<Rightarrow> u64 \<Rightarrow> nat \<Rightarrow> u64" where
  "load m a 0 = 0"
| "load m a (Suc n) = ucast (m a) OR push_bit 8 (load m (a + 1) n)"

fun store :: "mem \<Rightarrow> u64 \<Rightarrow> nat \<Rightarrow> u64 \<Rightarrow> mem" where
  "store m a 0 v = m"
| "store m a (Suc n) v = (store m (a + 1) n (drop_bit 8 v))(a := ucast v)"

definition load32 :: "mem \<Rightarrow> u64 \<Rightarrow> u32" where
  "load32 m a = ucast (load m a 4)"

definition store32 :: "mem \<Rightarrow> u64 \<Rightarrow> u32 \<Rightarrow> mem" where
  "store32 m a v = store m a 4 (ucast v)"

section \<open>Ranges\<close>

lemma unat_minus_one_word: "unat (- 1 :: u64) = 2 ^ 64 - 1"
  by (simp add: unsigned_minus_1_eq_mask mask_eq_exp_minus_1)

text \<open>The \<open>n\<close> bytes from \<open>a\<close>, and two such ranges without a common byte.\<close>

definition in_range :: "u64 \<Rightarrow> u64 \<Rightarrow> nat \<Rightarrow> bool" where
  "in_range b a n \<longleftrightarrow> unat (b - a) < n"

definition disj :: "u64 \<Rightarrow> nat \<Rightarrow> u64 \<Rightarrow> nat \<Rightarrow> bool" where
  "disj a n b k \<longleftrightarrow> k \<le> unat (a - b) \<and> n \<le> unat (b - a)"

lemma disj_sym: "disj a n b k \<Longrightarrow> disj b k a n"
  by (simp add: disj_def)

lemma unat_minus_split:
  fixes x y z :: u64
  shows "unat (x - z) = (unat (x - y) + unat (y - z)) mod 2 ^ 64"
proof -
  have "x - z = (x - y) + (y - z)" by simp
  then show ?thesis by (simp only: unat_word_ariths) simp
qed

lemma unat_diff_sum:
  fixes a b :: u64
  assumes "a \<noteq> b"
  shows "unat (a - b) + unat (b - a) = 2 ^ 64"
proof -
  have "unat a \<noteq> unat b" using assms by (simp add: word_unat_eq_iff)
  moreover have "unat a < 2 ^ 64" "unat b < 2 ^ 64"
    using unsigned_less [of a] unsigned_less [of b] by simp_all
  ultimately show ?thesis by (simp add: unat_sub_if_size word_size)
qed

lemma disj_ranges:
  assumes "disj a n b k"
  shows "\<not> (in_range c a n \<and> in_range c b k)"
proof
  assume c: "in_range c a n \<and> in_range c b k"
  have ab: "k \<le> unat (a - b)" "n \<le> unat (b - a)" using assms by (simp_all add: disj_def)
  show False
  proof (cases "a = b")
    case True
    with ab c show False by (simp add: in_range_def)
  next
    case False
    note sum = unat_diff_sum [OF False]
    have "unat (c - b) = (unat (c - a) + unat (a - b)) mod 2 ^ 64"
      by (rule unat_minus_split)
    moreover have "unat (c - a) + unat (a - b) < 2 ^ 64"
      using c ab sum by (simp add: in_range_def)
    ultimately have "unat (c - b) = unat (c - a) + unat (a - b)" by simp
    with c ab show False by (simp add: in_range_def)
  qed
qed

lemma in_range_0 [simp]: "\<not> in_range b a 0"
  by (simp add: in_range_def)

lemma in_range_start [simp]: "in_range a a n \<longleftrightarrow> 0 < n"
  by (simp add: in_range_def)

lemma in_range_mono: "in_range b a n \<Longrightarrow> n \<le> k \<Longrightarrow> in_range b a k"
  by (simp add: in_range_def)

lemma in_range_step:
  assumes "n < 2 ^ 64"
  shows "in_range b (a + 1) n \<Longrightarrow> in_range b a (Suc n)"
    and "in_range b a (Suc n) \<Longrightarrow> b \<noteq> a \<Longrightarrow> in_range b (a + 1) n"
proof -
  have *: "unat (b - a) = (unat (b - (a + 1)) + 1) mod 2 ^ 64"
    using unat_minus_split [of b a "a + 1"] by simp
  {
    assume "in_range b (a + 1) n"
    then show "in_range b a (Suc n)"
      using * by (simp add: in_range_def) 
  next
    assume r: "in_range b a (Suc n)" and ne: "b \<noteq> a"
    have "unat (b - (a + 1)) = unat (b - a) - 1"
    proof -
      have "b - (a + 1) = (b - a) - 1" by simp
      moreover have "b - a \<noteq> 0" using ne by simp
      ultimately show ?thesis by (metis unat_minus_one)
    qed
    moreover have "0 < unat (b - a)" using ne by (simp add: unat_gt_0)
    ultimately show "in_range b (a + 1) n" using r by (simp add: in_range_def)
  }
qed

lemma in_range_sub:
  assumes "in_range b (a + of_nat k) n" and "k + n \<le> N" and "N < 2 ^ 64"
  shows "in_range b a N"
proof -
  have "unat (a + of_nat k - a) = k" using assms by (simp add: unat_of_nat)
  then have "unat (b - a) = (unat (b - (a + of_nat k)) + k) mod 2 ^ 64"
    using unat_minus_split [of b a "a + of_nat k"] by simp
  also have "\<dots> \<le> unat (b - (a + of_nat k)) + k" by simp
  finally show ?thesis using assms by (simp add: in_range_def)
qed

section \<open>Read over write\<close>

lemma store_outside:
  assumes "\<not> in_range b a n" and "n < 2 ^ 64"
  shows "store m a n v b = m b"
  using assms
proof (induction n arbitrary: a v)
  case 0
  then show ?case by simp
next
  case (Suc n)
  then have "\<not> in_range b (a + 1) n" using in_range_step(1) [of n b a] by auto
  moreover have "b \<noteq> a" using Suc.prems(1) by auto
  ultimately show ?case using Suc by simp
qed

lemma load_cong:
  assumes "\<And>b. in_range b a n \<Longrightarrow> m b = m' b" and "n < 2 ^ 64"
  shows "load m a n = load m' a n"
  using assms
proof (induction n arbitrary: a)
  case 0
  then show ?case by simp
next
  case (Suc n)
  have "load m (a + 1) n = load m' (a + 1) n"
    by (rule Suc.IH) (use Suc.prems in_range_step(1) [of n] in auto)
  moreover have "m a = m' a" using Suc.prems(1) by simp
  ultimately show ?case by simp
qed

lemma load_store_disj:
  assumes "disj a n b k" and "n < 2 ^ 64" and "k < 2 ^ 64"
  shows "load (store m b k v) a n = load m a n"
  by (rule load_cong) (use assms disj_ranges store_outside in auto)

lemma load_store_same_bits:
  assumes "n < 2 ^ 64"
  shows "load (store m a n v) a n = take_bit (8 * n) v"
  using assms
proof (induction n arbitrary: a v)
  case 0
  then show ?case by simp
next
  case (Suc n)
  let ?m = "store m (a + 1) n (drop_bit 8 v)"
  have "load (?m(a := ucast v)) (a + 1) n = load ?m (a + 1) n"
  proof (rule load_cong)
    fix b assume "in_range b (a + 1) n"
    then have "b \<noteq> a"
    proof (rule contrapos_pn)
      assume "b = a"
      then have "b - (a + 1) = - 1" by simp
      then have "unat (b - (a + 1)) = 2 ^ 64 - 1" by (simp only: unat_minus_one_word)
      then show "\<not> in_range b (a + 1) n" using Suc.prems by (simp add: in_range_def)
    qed
    then show "(?m(a := ucast v)) b = ?m b" by simp
  qed (use Suc.prems in simp)
  also have "\<dots> = take_bit (8 * n) (drop_bit 8 v)" using Suc by simp
  finally have "load (store m a (Suc n) v) a (Suc n) =
      ucast (ucast v :: u8) OR push_bit 8 (take_bit (8 * n) (drop_bit 8 v))" by simp
  also have "\<dots> = take_bit (8 * Suc n) v"
    by (rule bit_eqI) (auto simp: bit_simps)
  finally show ?case .
qed

lemma load_store_same:
  "load (store m a 8 v) a 8 = v"
  "load32 (store32 m a w) a = w"
  subgoal
    using load_store_same_bits [of 8 m a v] by (simp add: take_bit_word_eq_self)
  subgoal
    using load_store_same_bits [of 4 m a "ucast w"]
    by (simp add: load32_def store32_def) (rule bit_eqI, auto simp: bit_simps)
  done

lemma load_bound_bits: "take_bit (8 * n) (load m a n) = load m a n"
proof (induction n arbitrary: a)
  case 0
  then show ?case by simp
next
  case (Suc n)
  have "take_bit (8 * Suc n) (ucast (m a) OR push_bit 8 (load m (a + 1) n)) =
        ucast (m a) OR push_bit 8 (take_bit (8 * n) (load m (a + 1) n))"
    by (rule bit_eqI) (auto simp: bit_simps dest: bit_imp_le_length)
  then show ?case using Suc by simp
qed

lemma store_take_bit: "store m a n (take_bit (8 * n) v) = store m a n v"
proof (induction n arbitrary: a v)
  case 0
  then show ?case by simp
next
  case (Suc n)
  have "drop_bit 8 (take_bit (8 * Suc n) v) = take_bit (8 * n) (drop_bit 8 v)"
    by (simp add: drop_bit_take_bit)
  moreover have "(ucast (take_bit (8 * Suc n) v) :: u8) = ucast v"
    by (rule bit_eqI) (auto simp: bit_simps)
  ultimately show ?case using Suc by simp
qed

lemma load32_store32_disj:
  "disj a 4 b 4 \<Longrightarrow> load32 (store32 m b v) a = load32 m a"
  by (simp add: load32_def store32_def load_store_disj)

section \<open>Frames\<close>

text \<open>Two memories that agree outside some ranges.\<close>

definition same_outside :: "(u64 \<Rightarrow> bool) \<Rightarrow> mem \<Rightarrow> mem \<Rightarrow> bool" where
  "same_outside P m m' \<longleftrightarrow> (\<forall>b. \<not> P b \<longrightarrow> m' b = m b)"

lemma same_outside_trans:
  "same_outside P m m1 \<Longrightarrow> same_outside Q m1 m2 \<Longrightarrow> same_outside (\<lambda>b. P b \<or> Q b) m m2"
  by (simp add: same_outside_def)

lemma same_outside_refl [simp, intro]: "same_outside P m m"
  by (simp add: same_outside_def)

lemma same_outside_mono: "same_outside P m m' \<Longrightarrow> (\<And>b. P b \<Longrightarrow> Q b) \<Longrightarrow> same_outside Q m m'"
  by (auto simp: same_outside_def)

lemma same_outside_store32: "same_outside (\<lambda>b. in_range b a 4) m (store32 m a v)"
  by (simp add: same_outside_def store32_def store_outside)

lemma same_outside_load:
  assumes "same_outside P m m'" "\<And>b. in_range b a n \<Longrightarrow> \<not> P b" "n < 2 ^ 64"
  shows "load m' a n = load m a n"
  by (rule load_cong) (use assms in \<open>auto simp: same_outside_def\<close>)

lemma same_outside_load32:
  "same_outside P m m' \<Longrightarrow> (\<And>b. in_range b a 4 \<Longrightarrow> \<not> P b) \<Longrightarrow> load32 m' a = load32 m a"
  using same_outside_load [of P m m' a 4] by (simp add: load32_def)

lemma same_outside_store: "n < 2 ^ 64 \<Longrightarrow> same_outside (\<lambda>b. in_range b a n) m (store m a n v)"
  by (simp add: same_outside_def store_outside)

end
