(* ===== verification/Arm64_Enc.thy ===== *)
theory Arm64_Enc
  imports Machismo_Prelude
begin

text \<open>
  Model of \<^verbatim>\<open>src/src/arm64_enc.h\<close>: the branch encoders every code patcher shares and the range
  test that guards them. An \<^verbatim>\<open>int32_t\<close> or \<^verbatim>\<open>int64_t\<close> is held as its two's complement word and
  read with \<^const>\<open>sint\<close>. The second half is the bit-field calculus the instruction encoders
  need: five-bit register fields in a 32-bit instruction word.
\<close>

definition ENC_NOP :: u32 where "ENC_NOP = 0xD503201F"

definition ENC_RET :: u32 where "ENC_RET = 0xD65F03C0"

definition enc_b :: "u32 \<Rightarrow> u32" where
  [enc_defs]: "enc_b word_offset = 0x14000000 OR (word_offset AND 0x03FFFFFF)"

definition enc_bl :: "u32 \<Rightarrow> u32" where
  [enc_defs]: "enc_bl word_offset = 0x94000000 OR (word_offset AND 0x03FFFFFF)"

definition arm64_branch_in_range :: "u64 \<Rightarrow> bool" where
  "arm64_branch_in_range byte_offset =
    (if byte_offset AND 3 \<noteq> 0 then False
     else let word_offset = signed_drop_bit 2 byte_offset in
       sint word_offset \<ge> - (2 ^ 25) \<and> sint word_offset < 2 ^ 25)"

section \<open>What a branch instruction means\<close>

text \<open>The architecture's reading of an immediate branch: the opcode bit 31 tells \<open>BL\<close> from
  \<open>B\<close>, and the byte displacement is the signed 26-bit field times four.\<close>

definition is_branch_imm :: "u32 \<Rightarrow> bool" where
  "is_branch_imm i \<longleftrightarrow> i AND 0x7C000000 = 0x14000000"

definition branch_links :: "u32 \<Rightarrow> bool" where
  "branch_links i \<longleftrightarrow> bit i 31"

definition branch_displacement :: "u32 \<Rightarrow> int" where
  "branch_displacement i = 4 * signed_take_bit 25 (uint i)"

text \<open>The architecture's branch target from a given address.\<close>

definition branch_target :: "u64 \<Rightarrow> u32 \<Rightarrow> u64" where
  "branch_target pc i = pc + word_of_int (branch_displacement i)"

section \<open>Register fields\<close>

lemma less_32_bits:
  fixes r :: u32
  assumes "r < 32"
  shows "take_bit 5 r = r"
  using assms
  by (simp add: word_unat_eq_iff unat_mod take_bit_eq_mod word_less_nat_alt)

lemma less_32_bit:
  fixes r :: u32
  assumes "r < 32" and "bit r n"
  shows "n < 5"
  using assms(2) less_32_bits [OF assms(1)] by (metis bit_take_bit_iff)

lemma reg_and:
  fixes r k :: u32
  assumes "r < 32"
  shows "k AND 31 = 0 \<Longrightarrow> r AND k = 0" and "k AND 31 = 31 \<Longrightarrow> r AND k = r"
proof -
  have r: "r = r AND 31"
    using less_32_bits [OF assms] by (simp add: take_bit_eq_mask mask_eq_exp_minus_1)
  have "r AND k = r AND (k AND 31)"
    by (subst r) (simp add: ac_simps)
  then show "k AND 31 = 0 \<Longrightarrow> r AND k = 0" "k AND 31 = 31 \<Longrightarrow> r AND k = r"
    using r by simp_all
qed

lemma push_bit_and_right:
  fixes x k :: u32
  shows "push_bit n x AND k = push_bit n (x AND drop_bit n k)"
  by (rule bit_eqI) (auto simp: bit_simps)

lemma reg_drop_bit:
  fixes r :: u32
  assumes "r < 32" and "5 \<le> n"
  shows "drop_bit n r = 0"
proof (rule bit_eqI)
  fix i
  have "\<not> bit r (n + i)"
    using less_32_bit [OF assms(1), of "n + i"] assms(2) by auto
  then show "bit (drop_bit n r) i \<longleftrightarrow> bit (0 :: u32) i" by (simp add: bit_drop_bit_eq)
qed

lemma reg_drop_push:
  fixes r :: u32
  assumes "r < 32"
  shows "m + 5 \<le> n \<Longrightarrow> drop_bit n (push_bit m r) = 0"
    and "n \<le> m \<Longrightarrow> m + 5 \<le> 32 \<Longrightarrow> drop_bit n (push_bit m r) = push_bit (m - n) r"
proof -
  { assume mn: "m + 5 \<le> n"
    show "drop_bit n (push_bit m r) = 0"
    proof (rule bit_eqI)
      fix i
      have "\<not> bit r (n + i - m)"
        using less_32_bit [OF assms, of "n + i - m"] mn by auto
      then show "bit (drop_bit n (push_bit m r)) i \<longleftrightarrow> bit (0 :: u32) i"
        by (auto simp: bit_simps)
    qed }
  { assume mn: "n \<le> m" "m + 5 \<le> 32"
    show "drop_bit n (push_bit m r) = push_bit (m - n) r"
    proof (rule bit_eqI)
      fix i
      show "bit (drop_bit n (push_bit m r)) i \<longleftrightarrow> bit (push_bit (m - n) r) i"
      proof (cases "m \<le> n + i \<and> bit r (n + i - m)")
        case True
        then have "n + i - m < 5" using less_32_bit [OF assms] by blast
        with True mn show ?thesis by (auto simp: bit_simps add.commute)
      next
        case False
        with mn show ?thesis by (auto simp: bit_simps add.commute)
      qed
    qed }
qed

lemmas field_simps_enc =
  bit.conj_disj_distrib2 bit.conj_disj_distrib drop_bit_or push_bit_and_right
  reg_and reg_drop_bit reg_drop_push

section \<open>Branches\<close>

lemma enc_b_and_mask [simp]:
  "enc_b w AND 0x7C000000 = 0x14000000" "enc_bl w AND 0x7C000000 = 0x14000000"
  by (simp_all add: enc_defs bit.conj_disj_distrib2 and.assoc)

lemma branch_links_enc [simp]: "\<not> branch_links (enc_b w)" "branch_links (enc_bl w)"
  by (simp_all add: branch_links_def enc_defs bit_or_iff bit_and_iff)

lemma take_bit_enc:
  "take_bit 26 (enc_b w) = take_bit 26 w" "take_bit 26 (enc_bl w) = take_bit 26 w"
  by (simp_all add: enc_defs take_bit_or take_bit_eq_mask mask_eq_exp_minus_1
        bit.conj_disj_distrib2 and.assoc)

lemma signed_take_bit_uint_cong:
  assumes "take_bit 26 (v :: u32) = take_bit 26 w"
  shows "signed_take_bit 25 (uint v) = signed_take_bit 25 (uint w)"
proof -
  have "take_bit 26 (uint v) = take_bit 26 (uint w)"
    using assms by (metis unsigned_take_bit_eq)
  then show ?thesis by (simp add: signed_take_bit_eq_iff_take_bit_eq)
qed

lemma branch_displacement_enc:
  "branch_displacement (enc_b w) = 4 * signed_take_bit 25 (uint w)"
  "branch_displacement (enc_bl w) = 4 * signed_take_bit 25 (uint w)"
  unfolding branch_displacement_def
  using signed_take_bit_uint_cong [OF take_bit_enc(1)] signed_take_bit_uint_cong [OF take_bit_enc(2)]
  by simp_all

lemma in_range_word_offset:
  assumes "arm64_branch_in_range d"
  shows "4 * signed_take_bit 25 (uint (ucast (signed_drop_bit 2 d) :: u32)) = sint d"
proof -
  let ?w = "signed_drop_bit 2 d"
  have al: "d AND 3 = 0" and rng: "- (2 ^ 25) \<le> sint ?w" "sint ?w < 2 ^ 25"
    using assms by (auto simp: arm64_branch_in_range_def Let_def split: if_splits)
  have sw: "sint ?w = drop_bit 2 (sint d)" by (simp add: sint_signed_drop_bit_eq)
  have "take_bit 2 (sint d) = 0"
  proof -
    have "take_bit 2 d = 0" using al by (simp add: take_bit_eq_mask mask_eq_exp_minus_1)
    then have "take_bit 2 (uint d) = 0" by (metis unsigned_0 unsigned_take_bit_eq)
    then show ?thesis by (simp add: sint_uint take_bit_signed_take_bit)
  qed
  then have "sint d = 4 * sint ?w"
    using sw by (simp add: take_bit_eq_mod drop_bit_eq_div) presburger
  moreover have "signed_take_bit 25 (uint (ucast ?w :: u32)) = sint ?w"
  proof -
    have "take_bit 26 (uint (ucast ?w :: u32)) = take_bit 26 (sint ?w)"
      by (simp add: unsigned_ucast_eq sint_uint take_bit_signed_take_bit)
    then have "signed_take_bit 25 (uint (ucast ?w :: u32)) = signed_take_bit 25 (sint ?w)"
      by (simp add: signed_take_bit_eq_iff_take_bit_eq)
    also have "\<dots> = sint ?w" using rng by (simp add: signed_take_bit_int_eq_self)
    finally show ?thesis .
  qed
  ultimately show ?thesis by simp
qed

end
