(* ===== verification/Arm64_Machine.thy ===== *)
theory Arm64_Machine
  imports Guest_Memory Arm64_Enc
begin

text \<open>
  The architecture's meaning of the ARMv8.0 instructions the emulation islands are made of: the
  yardstick the emitted code is measured against, not code of the repository. A state holds the
  general registers, the stack pointer, the flags, the vector registers, the memory, the local
  exclusive monitor and the interference of other observers: each pending interference is what
  other cores do to the memory between a load-exclusive and the store-exclusive that fails
  because of it. Acquire and release only order memory accesses between observers and do not
  change the effect of one instruction.
\<close>

datatype insn =
    StrPre nat | LdrPost nat
  | MrsNzcv nat | MsrNzcv nat
  | Ldxr nat bool nat nat
  | Stxr nat bool nat nat nat
  | Add bool nat nat nat | Bic bool nat nat nat | Eor bool nat nat nat | Orr bool nat nat nat
  | Cmp bool nat nat
  | Csel bool nat nat nat nat
  | Sxtb nat nat | Sxth nat nat
  | Clrex
  | Cbnz nat int | Bcond nat int | Branch int
  | VBic nat nat nat | VEor nat nat nat | StrQPre nat | LdrQPost nat

section \<open>Decoding instruction words\<close>

definition fld :: "nat \<Rightarrow> u32 \<Rightarrow> nat" where
  "fld n i = unat (drop_bit n i AND 31)"

definition imm19 :: "u32 \<Rightarrow> int" where
  "imm19 i = signed_take_bit 18 (uint (drop_bit 5 i))"

definition decode :: "u32 \<Rightarrow> insn option" where
  "decode i =
    (if i AND 0xFC000000 = 0x14000000 then Some (Branch (signed_take_bit 25 (uint i)))
     else let k = i AND 0x3F000000; sf = bit i 31 in
     if k = 0x38000000 then
       (if i AND 0xFFFFFFE0 = 0xF81F0FE0 then Some (StrPre (fld 0 i))
        else if i AND 0xFFFFFFE0 = 0xF84107E0 then Some (LdrPost (fld 0 i)) else None)
     else if k = 0x15000000 then
       (if i AND 0xFFFFFFE0 = 0xD53B4200 then Some (MrsNzcv (fld 0 i))
        else if i AND 0xFFFFFFE0 = 0xD51B4200 then Some (MsrNzcv (fld 0 i))
        else if i = 0xD5033F5F then Some Clrex else None)
     else if k = 0x08000000 then
       (if i AND 0x3FE07C00 = 0x08407C00
        then Some (Ldxr (unat (drop_bit 30 i)) (bit i 15) (fld 0 i) (fld 5 i))
        else if i AND 0x3FE07C00 = 0x08007C00
        then Some (Stxr (unat (drop_bit 30 i)) (bit i 15) (fld 16 i) (fld 0 i) (fld 5 i))
        else None)
     else if k = 0x0B000000 then
       (if i AND 0x7FE0FC00 = 0x0B000000 then Some (Add sf (fld 0 i) (fld 5 i) (fld 16 i)) else None)
     else if k = 0x0A000000 then
       (if i AND 0x7FE0FC00 = 0x0A200000 then Some (Bic sf (fld 0 i) (fld 5 i) (fld 16 i))
        else if i AND 0x7FE0FC00 = 0x4A000000 then Some (Eor sf (fld 0 i) (fld 5 i) (fld 16 i))
        else None)
     else if k = 0x2A000000 then
       (if i AND 0x7FE0FC00 = 0x2A000000 then Some (Orr sf (fld 0 i) (fld 5 i) (fld 16 i)) else None)
     else if k = 0x2B000000 then
       (if i AND 0x7FE0FC1F = 0x6B00001F then Some (Cmp sf (fld 5 i) (fld 16 i)) else None)
     else if k = 0x1A000000 then
       (if i AND 0x7FE00C00 = 0x1A800000
        then Some (Csel sf (fld 0 i) (fld 5 i) (fld 16 i) (unat (drop_bit 12 i AND 15))) else None)
     else if k = 0x13000000 then
       (if i AND 0xFFFFFC00 = 0x13001C00 then Some (Sxtb (fld 0 i) (fld 5 i))
        else if i AND 0xFFFFFC00 = 0x13003C00 then Some (Sxth (fld 0 i) (fld 5 i)) else None)
     else if k = 0x35000000 then
       (if i AND 0xFF000000 = 0x35000000 then Some (Cbnz (fld 0 i) (imm19 i)) else None)
     else if k = 0x14000000 then
       (if i AND 0xFF000010 = 0x54000000 then Some (Bcond (unat (i AND 15)) (imm19 i)) else None)
     else if k = 0x0E000000 then
       (if i AND 0xFFE0FC00 = 0x4E601C00 then Some (VBic (fld 0 i) (fld 5 i) (fld 16 i)) else None)
     else if k = 0x2E000000 then
       (if i AND 0xFFE0FC00 = 0x6E201C00 then Some (VEor (fld 0 i) (fld 5 i) (fld 16 i)) else None)
     else if k = 0x3C000000 then
       (if i AND 0xFFFFFFE0 = 0x3C9F0FE0 then Some (StrQPre (fld 0 i))
        else if i AND 0xFFFFFFE0 = 0x3CC107E0 then Some (LdrQPost (fld 0 i)) else None)
     else None)"

section \<open>States\<close>

record arm =
  xr :: "nat \<Rightarrow> u64"
  sp :: u64
  nf :: bool
  zf :: bool
  cf :: bool
  vf :: bool
  vr :: "nat \<Rightarrow> 128 word"
  amem :: mem
  excl :: "(u64 \<times> nat) option"
  contention :: "(mem \<Rightarrow> mem) list"

text \<open>Register 31 reads as zero and ignores writes, except as a base, where it is the stack
  pointer. Writing a 32-bit result clears the upper half.\<close>

definition rx :: "arm \<Rightarrow> nat \<Rightarrow> u64" where
  "rx s r = (if r = 31 then 0 else xr s r)"

definition wx :: "nat \<Rightarrow> u64 \<Rightarrow> arm \<Rightarrow> arm" where
  "wx r v s = (if r = 31 then s else s\<lparr>xr := (xr s)(r := v)\<rparr>)"

definition base :: "arm \<Rightarrow> nat \<Rightarrow> u64" where
  "base s r = (if r = 31 then sp s else xr s r)"

definition opw :: "bool \<Rightarrow> u64 \<Rightarrow> u64" where
  "opw is64 v = (if is64 then v else take_bit 32 v)"

text \<open>Flags of a subtraction at either width, and the conditions on them.\<close>

definition sub_n :: "'a::len word \<Rightarrow> 'a word \<Rightarrow> bool" where
  "sub_n a b \<longleftrightarrow> sint (a - b) < 0"

definition sub_v :: "'a::len word \<Rightarrow> 'a word \<Rightarrow> bool" where
  "sub_v a b \<longleftrightarrow> sint (a - b) \<noteq> sint a - sint b"

definition set_sub_flags :: "'a::len word \<Rightarrow> 'a word \<Rightarrow> arm \<Rightarrow> arm" where
  "set_sub_flags a b s = s\<lparr>nf := sub_n a b, zf := (a = b), cf := (b \<le> a), vf := sub_v a b\<rparr>"

definition nzcv_word :: "arm \<Rightarrow> u64" where
  "nzcv_word s = (if nf s then push_bit 31 1 else 0) OR (if zf s then push_bit 30 1 else 0) OR
                 (if cf s then push_bit 29 1 else 0) OR (if vf s then push_bit 28 1 else 0)"

fun cond_holds :: "nat \<Rightarrow> arm \<Rightarrow> bool" where
  "cond_holds c s =
    (if c = 0 then zf s else if c = 1 then \<not> zf s else if c = 2 then cf s
     else if c = 3 then \<not> cf s else if c = 4 then nf s else if c = 5 then \<not> nf s
     else if c = 6 then vf s else if c = 7 then \<not> vf s
     else if c = 8 then cf s \<and> \<not> zf s else if c = 9 then \<not> (cf s \<and> \<not> zf s)
     else if c = 10 then nf s = vf s else if c = 11 then nf s \<noteq> vf s
     else if c = 12 then \<not> zf s \<and> nf s = vf s
     else if c = 13 then \<not> (\<not> zf s \<and> nf s = vf s) else True)"

declare cond_holds.simps [simp del]

section \<open>Straight-line instructions\<close>

fun sem :: "insn \<Rightarrow> arm \<Rightarrow> arm" where
  "sem (StrPre t) s = s\<lparr>sp := sp s - 16, amem := store (amem s) (sp s - 16) 8 (rx s t)\<rparr>"
| "sem (LdrPost t) s = (wx t (load (amem s) (sp s) 8) s)\<lparr>sp := sp s + 16\<rparr>"
| "sem (MrsNzcv t) s = wx t (nzcv_word s) s"
| "sem (MsrNzcv t) s = s\<lparr>nf := bit (rx s t) 31, zf := bit (rx s t) 30, cf := bit (rx s t) 29,
     vf := bit (rx s t) 28\<rparr>"
| "sem (Ldxr sz acq t n) s =
     (wx t (load (amem s) (base s n) (2 ^ sz)) s)\<lparr>excl := Some (base s n, 2 ^ sz)\<rparr>"
| "sem (Stxr sz rel st t n) s =
     (if excl s \<noteq> Some (base s n, 2 ^ sz) then (wx st 1 s)\<lparr>excl := None\<rparr>
      else case contention s of
        [] \<Rightarrow> (wx st 0 s)\<lparr>amem := store (amem s) (base s n) (2 ^ sz) (rx s t), excl := None\<rparr>
      | f # fs \<Rightarrow> (wx st 1 s)\<lparr>amem := f (amem s), contention := fs, excl := None\<rparr>)"
| "sem (Add w d n m) s = wx d (opw w (rx s n + rx s m)) s"
| "sem (Bic w d n m) s = wx d (opw w (rx s n AND NOT (rx s m))) s"
| "sem (Eor w d n m) s = wx d (opw w (rx s n XOR rx s m)) s"
| "sem (Orr w d n m) s = wx d (opw w (rx s n OR rx s m)) s"
| "sem (Cmp w n m) s =
     (if w then set_sub_flags (rx s n) (rx s m) s
      else set_sub_flags (ucast (rx s n) :: u32) (ucast (rx s m) :: u32) s)"
| "sem (Csel w d n m c) s = wx d (opw w (if cond_holds c s then rx s n else rx s m)) s"
| "sem (Sxtb d n) s = wx d (ucast (scast (ucast (rx s n) :: u8) :: u32)) s"
| "sem (Sxth d n) s = wx d (ucast (scast (ucast (rx s n) :: u16) :: u32)) s"
| "sem Clrex s = s\<lparr>excl := None\<rparr>"
| "sem (VBic d n m) s = s\<lparr>vr := (vr s)(d := vr s n AND NOT (vr s m))\<rparr>"
| "sem (VEor d n m) s = s\<lparr>vr := (vr s)(d := vr s n XOR vr s m)\<rparr>"
| "sem (StrQPre t) s = s\<lparr>sp := sp s - 16,
     amem := store (store (amem s) (sp s - 16) 8 (ucast (vr s t))) (sp s - 8) 8
       (ucast (drop_bit 64 (vr s t)))\<rparr>"
| "sem (LdrQPost t) s = s\<lparr>sp := sp s + 16,
     vr := (vr s)(t := ucast (load (amem s) (sp s) 8) OR
       push_bit 64 (ucast (load (amem s) (sp s + 8) 8)))\<rparr>"
| "sem (Cbnz t off) s = s"
| "sem (Bcond c off) s = s"
| "sem (Branch off) s = s"

section \<open>Control flow\<close>

text \<open>The index of the next instruction, counted from the start of the code.\<close>

fun next_index :: "insn \<Rightarrow> arm \<Rightarrow> int \<Rightarrow> int" where
  "next_index (Cbnz t off) s k = (if ucast (rx s t) \<noteq> (0 :: u32) then k + off else k + 1)"
| "next_index (Bcond c off) s k = (if cond_holds c s then k + off else k + 1)"
| "next_index (Branch off) s k = k + off"
| "next_index _ s k = k + 1"

text \<open>One step of the code \<open>P\<close>; outside of it nothing happens.\<close>

fun step :: "insn list \<Rightarrow> int \<times> arm \<Rightarrow> int \<times> arm" where
  "step P (k, s) =
     (if 0 \<le> k \<and> nat k < length P then (next_index (P ! nat k) s k, sem (P ! nat k) s) else (k, s))"

definition exec :: "insn list \<Rightarrow> nat \<Rightarrow> int \<times> arm \<Rightarrow> int \<times> arm" where
  "exec P n c = (step P ^^ n) c"

lemma exec_0 [simp]: "exec P 0 c = c"
  by (simp add: exec_def)

lemma exec_add: "exec P (m + n) c = exec P n (exec P m c)"
  by (simp add: exec_def funpow_add add.commute [of m n])

lemma exec_Suc: "exec P (Suc n) c = exec P n (step P c)"
  by (simp add: exec_def funpow_swap1)

fun straight :: "insn \<Rightarrow> bool" where
  "straight (Cbnz t off) = False"
| "straight (Bcond c off) = False"
| "straight (Branch off) = False"
| "straight _ = True"

lemma next_index_straight [simp]: "straight i \<Longrightarrow> next_index i s k = k + 1"
  by (cases i) simp_all

text \<open>A block of straight-line instructions inside the code runs to its end.\<close>

lemma exec_block:
  assumes "list_all straight B"
  shows "exec (A @ B @ C) (length B) (int (length A), s) =
         (int (length A + length B), fold sem B s)"
  using assms
proof (induction B arbitrary: A s)
  case Nil
  then show ?case by simp
next
  case (Cons i B)
  have "step (A @ (i # B) @ C) (int (length A), s) = (int (length (A @ [i])), sem i s)"
    using Cons.prems by simp
  moreover have "exec ((A @ [i]) @ B @ C) (length B) (int (length (A @ [i])), sem i s) =
      (int (length (A @ [i]) + length B), fold sem B (sem i s))"
    using Cons.prems by (intro Cons.IH) simp
  ultimately show ?case by (simp add: exec_Suc)
qed

text \<open>Reachability of a configuration, the form the island proofs compose.\<close>

definition runs :: "insn list \<Rightarrow> int \<times> arm \<Rightarrow> int \<times> arm \<Rightarrow> bool" where
  "runs P c d \<longleftrightarrow> (\<exists>n. exec P n c = d)"

lemma runs_refl [simp, intro]: "runs P c c"
  unfolding runs_def by (rule exI [of _ 0]) simp

lemma runs_trans: "runs P c d \<Longrightarrow> runs P d e \<Longrightarrow> runs P c e"
  unfolding runs_def by (metis exec_add)

lemma runs_step: "step P c = d \<Longrightarrow> runs P c d"
  unfolding runs_def by (rule exI [of _ "Suc 0"]) (simp add: exec_Suc)

lemma runs_block:
  assumes "P = A @ B @ C" and "list_all straight B" and "k = int (length A)"
  shows "runs P (k, s) (k + int (length B), fold sem B s)"
  unfolding runs_def assms by (rule exI [of _ "length B"]) (simp add: exec_block assms(2))

end
