(* ===== verification/Isa_Emul.thy ===== *)
theory Isa_Emul
  imports Arm64_Enc
begin

text \<open>
  Model of \<^verbatim>\<open>src/src/isa_emul.c\<close>: the decoder of the ARMv8.1 LSE atomics and of the ARMv8.2
  BCAX, the generator of the branch islands that emulate them, and the pass that replaces each
  such instruction of a code region by a branch to its island. Register numbers and the small
  \<^verbatim>\<open>int\<close> fields of the decoded instruction are the 32-bit words the C code shifts them in; an
  island is the list of words written from its start, and a code or pool position is its 64-bit
  address.
\<close>

section \<open>Instruction encoders\<close>

definition enc_cbnz_w :: "u32 \<Rightarrow> u32 \<Rightarrow> u32" where
  [enc_defs]: "enc_cbnz_w rt word_offset = 0x35000000 OR push_bit 5 (word_offset AND 0x7FFFF) OR rt"

definition enc_str_pre :: "u32 \<Rightarrow> u32" where
  [enc_defs]: "enc_str_pre rt = 0xF81F0FE0 OR rt"

definition enc_ldr_post :: "u32 \<Rightarrow> u32" where
  [enc_defs]: "enc_ldr_post rt = 0xF84107E0 OR rt"

definition enc_mrs_nzcv :: "u32 \<Rightarrow> u32" where
  [enc_defs]: "enc_mrs_nzcv rt = 0xD53B4200 OR rt"

definition enc_msr_nzcv :: "u32 \<Rightarrow> u32" where
  [enc_defs]: "enc_msr_nzcv rt = 0xD51B4200 OR rt"

definition enc_ldxr :: "u32 \<Rightarrow> u32 \<Rightarrow> u32 \<Rightarrow> u32 \<Rightarrow> u32" where
  [enc_defs]: "enc_ldxr sz acq rt rn =
    (let b = 0x08407C00; b = (if acq \<noteq> 0 then b OR push_bit 15 1 else b)
     in b OR push_bit 30 sz OR push_bit 5 rn OR rt)"

definition enc_stxr :: "u32 \<Rightarrow> u32 \<Rightarrow> u32 \<Rightarrow> u32 \<Rightarrow> u32 \<Rightarrow> u32" where
  [enc_defs]: "enc_stxr sz rel rs rt rn =
    (let b = 0x08007C00; b = (if rel \<noteq> 0 then b OR push_bit 15 1 else b)
     in b OR push_bit 30 sz OR push_bit 16 rs OR push_bit 5 rn OR rt)"

definition enc_add :: "bool \<Rightarrow> u32 \<Rightarrow> u32 \<Rightarrow> u32 \<Rightarrow> u32" where
  [enc_defs]: "enc_add is64 rd rn rm =
    (if is64 then 0x8B000000 else 0x0B000000) OR push_bit 16 rm OR push_bit 5 rn OR rd"

definition enc_bic :: "bool \<Rightarrow> u32 \<Rightarrow> u32 \<Rightarrow> u32 \<Rightarrow> u32" where
  [enc_defs]: "enc_bic is64 rd rn rm =
    (if is64 then 0x8A200000 else 0x0A200000) OR push_bit 16 rm OR push_bit 5 rn OR rd"

definition enc_eor :: "bool \<Rightarrow> u32 \<Rightarrow> u32 \<Rightarrow> u32 \<Rightarrow> u32" where
  [enc_defs]: "enc_eor is64 rd rn rm =
    (if is64 then 0xCA000000 else 0x4A000000) OR push_bit 16 rm OR push_bit 5 rn OR rd"

definition enc_orr :: "bool \<Rightarrow> u32 \<Rightarrow> u32 \<Rightarrow> u32 \<Rightarrow> u32" where
  [enc_defs]: "enc_orr is64 rd rn rm =
    (if is64 then 0xAA000000 else 0x2A000000) OR push_bit 16 rm OR push_bit 5 rn OR rd"

definition enc_cmp :: "bool \<Rightarrow> u32 \<Rightarrow> u32 \<Rightarrow> u32" where
  [enc_defs]: "enc_cmp is64 rn rm =
    (if is64 then 0xEB000000 else 0x6B000000) OR push_bit 16 rm OR push_bit 5 rn OR 31"

definition enc_csel :: "bool \<Rightarrow> u32 \<Rightarrow> u32 \<Rightarrow> u32 \<Rightarrow> u32 \<Rightarrow> u32" where
  [enc_defs]: "enc_csel is64 rd rn rm c =
    (if is64 then 0x9A800000 else 0x1A800000) OR push_bit 16 rm OR push_bit 12 c OR
    push_bit 5 rn OR rd"

definition enc_mov :: "bool \<Rightarrow> u32 \<Rightarrow> u32 \<Rightarrow> u32" where
  "enc_mov is64 rd rn = enc_orr is64 rd 31 rn"

definition enc_sxtb :: "u32 \<Rightarrow> u32 \<Rightarrow> u32" where
  [enc_defs]: "enc_sxtb rd rn = 0x13001C00 OR push_bit 5 rn OR rd"

definition enc_sxth :: "u32 \<Rightarrow> u32 \<Rightarrow> u32" where
  [enc_defs]: "enc_sxth rd rn = 0x13003C00 OR push_bit 5 rn OR rd"

definition COND_GT :: u32 where "COND_GT = 0xC"
definition COND_LT :: u32 where "COND_LT = 0xB"
definition COND_HI :: u32 where "COND_HI = 0x8"
definition COND_LO :: u32 where "COND_LO = 0x3"
definition COND_NE :: u32 where "COND_NE = 0x1"

definition enc_neon_bic :: "u32 \<Rightarrow> u32 \<Rightarrow> u32 \<Rightarrow> u32" where
  [enc_defs]: "enc_neon_bic vd vn vm = 0x4E601C00 OR push_bit 16 vm OR push_bit 5 vn OR vd"

definition enc_neon_eor :: "u32 \<Rightarrow> u32 \<Rightarrow> u32 \<Rightarrow> u32" where
  [enc_defs]: "enc_neon_eor vd vn vm = 0x6E201C00 OR push_bit 16 vm OR push_bit 5 vn OR vd"

definition enc_str_q_pre :: "u32 \<Rightarrow> u32" where
  [enc_defs]: "enc_str_q_pre vt = 0x3C9F0FE0 OR vt"

definition enc_ldr_q_post :: "u32 \<Rightarrow> u32" where
  [enc_defs]: "enc_ldr_q_post vt = 0x3CC107E0 OR vt"

section \<open>Scratch registers\<close>

definition mask_free :: "u32 \<Rightarrow> nat \<Rightarrow> bool" where
  "mask_free exclude_mask r \<longleftrightarrow> exclude_mask AND push_bit r 1 = 0"

definition pick_scratch :: "u32 \<Rightarrow> u32" where
  "pick_scratch exclude_mask =
    (case List.find (mask_free exclude_mask) (rev [9..<17]) of
       Some r \<Rightarrow> of_nat r
     | None \<Rightarrow>
         (case List.find (mask_free exclude_mask) [17..<29] of
            Some r \<Rightarrow> of_nat r
          | None \<Rightarrow> 8))"

section \<open>Decoding\<close>

datatype lse_op =
    LSE_LDADD | LSE_LDCLR | LSE_LDEOR | LSE_LDSET
  | LSE_LDSMAX | LSE_LDSMIN | LSE_LDUMAX | LSE_LDUMIN
  | LSE_SWP | LSE_CAS | LSE_NONE

record lse_decoded =
  d_op :: lse_op
  d_size :: u32
  d_acquire :: u32
  d_release :: u32
  d_rs :: u32
  d_rt :: u32
  d_rn :: u32

definition lse_opc :: "u32 \<Rightarrow> lse_op" where
  "lse_opc opc =
    (if opc = 0 then LSE_LDADD else if opc = 1 then LSE_LDCLR else if opc = 2 then LSE_LDEOR
     else if opc = 3 then LSE_LDSET else if opc = 4 then LSE_LDSMAX
     else if opc = 5 then LSE_LDSMIN else if opc = 6 then LSE_LDUMAX else LSE_LDUMIN)"

text \<open>\<^const>\<open>None\<close> is the return value 0.\<close>

definition decode_lse :: "u32 \<Rightarrow> lse_decoded option" where
  "decode_lse instr =
    (if instr AND 0x3F200C00 = 0x38200000 then
       let o3 = drop_bit 15 instr AND 1; opc = drop_bit 12 instr AND 7 in
       Some \<lparr> d_op = (if o3 = 1 then LSE_SWP else lse_opc opc),
              d_size = drop_bit 30 instr AND 3,
              d_acquire = drop_bit 23 instr AND 1,
              d_release = drop_bit 22 instr AND 1,
              d_rs = drop_bit 16 instr AND 0x1F,
              d_rt = instr AND 0x1F,
              d_rn = drop_bit 5 instr AND 0x1F \<rparr>
     else if instr AND 0x3FA07C00 = 0x08A07C00 then
       Some \<lparr> d_op = LSE_CAS,
              d_size = drop_bit 30 instr AND 3,
              d_acquire = drop_bit 23 instr AND 1,
              d_release = drop_bit 15 instr AND 1,
              d_rs = drop_bit 16 instr AND 0x1F,
              d_rt = instr AND 0x1F,
              d_rn = drop_bit 5 instr AND 0x1F \<rparr>
     else None)"

text \<open>The four vector registers of a BCAX: \<open>(vd, vn, vm, va)\<close>.\<close>

definition decode_bcax :: "u32 \<Rightarrow> (u32 \<times> u32 \<times> u32 \<times> u32) option" where
  "decode_bcax instr =
    (if instr AND 0xFFE08000 \<noteq> 0xCE200000 then None
     else Some (instr AND 0x1F, drop_bit 5 instr AND 0x1F, drop_bit 16 instr AND 0x1F,
                drop_bit 10 instr AND 0x1F))"

section \<open>Islands\<close>

text \<open>The branch back to the instruction after the patched one, at word \<open>n\<close> of the island: the
  difference of the two \<^verbatim>\<open>uint32_t\<close> pointers, cut to 32 bits.\<close>

definition ptr_diff :: "u64 \<Rightarrow> u64 \<Rightarrow> u64" where
  "ptr_diff p q = signed_drop_bit 2 (p - q)"

definition branch_back :: "u64 \<Rightarrow> u64 \<Rightarrow> nat \<Rightarrow> u32" where
  "branch_back island orig_addr n = enc_b (ucast (ptr_diff (orig_addr + 4) (island + 4 * of_nat n)))"

definition reg_bit :: "u32 \<Rightarrow> u32" where
  "reg_bit r = push_bit (unat r) 1"

definition emit_cas_island :: "lse_decoded \<Rightarrow> u64 \<Rightarrow> u64 \<Rightarrow> u32 list" where
  "emit_cas_island d island orig_addr =
    (let is_x = (d_size d = 3);
         m = reg_bit 31 OR reg_bit (d_rs d) OR reg_bit (d_rt d) OR reg_bit (d_rn d);
         s1 = pick_scratch m;
         s2 = pick_scratch (m OR reg_bit s1);
         ws = [enc_str_pre s1, enc_str_pre s2, enc_mrs_nzcv s1, enc_str_pre s1];
         loop_start = length ws;
         ws = ws @ [enc_ldxr (d_size d) (d_acquire d) s2 (d_rn d), enc_cmp is_x s2 (d_rs d),
                    0x54000000 OR push_bit 5 3 OR COND_NE,
                    enc_stxr (d_size d) (d_release d) s1 (d_rt d) (d_rn d)];
         ws = ws @ [enc_cbnz_w s1 (of_nat loop_start - of_nat (length ws))];
         ws = ws @ [0xD5033F5F];
         ws = ws @ (if d_rs d \<noteq> 31 then [enc_mov is_x (d_rs d) s2] else []);
         ws = ws @ [enc_ldr_post s1, enc_msr_nzcv s1, enc_ldr_post s2, enc_ldr_post s1]
     in ws @ [branch_back island orig_addr (length ws)])"

text \<open>The instructions between the load-exclusive and the store-exclusive.\<close>

definition emit_alu :: "lse_decoded \<Rightarrow> u32 \<Rightarrow> u32 \<Rightarrow> u32 \<Rightarrow> u32 list" where
  "emit_alu d load_reg new_val_reg status_reg =
    (let is_x = (d_size d = 3) in
     case d_op d of
       LSE_LDADD \<Rightarrow> [enc_add is_x new_val_reg load_reg (d_rs d)]
     | LSE_LDCLR \<Rightarrow> [enc_bic is_x new_val_reg load_reg (d_rs d)]
     | LSE_LDEOR \<Rightarrow> [enc_eor is_x new_val_reg load_reg (d_rs d)]
     | LSE_LDSET \<Rightarrow> [enc_orr is_x new_val_reg load_reg (d_rs d)]
     | LSE_SWP \<Rightarrow> [enc_mov is_x new_val_reg (d_rs d)]
     | LSE_CAS \<Rightarrow> []
     | LSE_NONE \<Rightarrow> []
     | _ \<Rightarrow>
         if d_op d = LSE_LDSMAX \<or> d_op d = LSE_LDSMIN then
           let t1 = new_val_reg; t2 = status_reg in
           (if d_size d < 2 then
              [if d_size d = 0 then enc_sxtb t1 load_reg else enc_sxth t1 load_reg,
               if d_size d = 0 then enc_sxtb t2 (d_rs d) else enc_sxth t2 (d_rs d),
               enc_cmp False t1 t2]
            else [enc_cmp is_x load_reg (d_rs d)]) @
           [enc_csel is_x new_val_reg (d_rs d) load_reg
              (if d_op d = LSE_LDSMAX then COND_LT else COND_GT)]
         else
           [enc_cmp is_x load_reg (d_rs d),
            enc_csel is_x new_val_reg (d_rs d) load_reg
              (if d_op d = LSE_LDUMAX then COND_LO else COND_HI)])"

definition emit_rmw_island :: "lse_decoded \<Rightarrow> u64 \<Rightarrow> u64 \<Rightarrow> u32 list" where
  "emit_rmw_island d island orig_addr =
    (let is_x = (d_size d = 3);
         m = reg_bit 31 OR reg_bit (d_rs d) OR reg_bit (d_rn d);
         m = (if d_rt d \<noteq> 31 then m OR reg_bit (d_rt d) else m);
         s1 = pick_scratch m;
         m = m OR reg_bit s1;
         s2 = pick_scratch m;
         m = m OR reg_bit s2;
         s3 = pick_scratch m;
         ws = [enc_str_pre s1, enc_str_pre s2, enc_str_pre s3, enc_mrs_nzcv s1, enc_str_pre s1];
         loop_start = length ws;
         ws = ws @ [enc_ldxr (d_size d) (d_acquire d) s1 (d_rn d)];
         ws = ws @ emit_alu d s1 s2 s3;
         ws = ws @ [enc_stxr (d_size d) (d_release d) s3 s2 (d_rn d)];
         ws = ws @ [enc_cbnz_w s3 (of_nat loop_start - of_nat (length ws))];
         ws = ws @ (if d_rt d \<noteq> 31 then [enc_mov is_x (d_rt d) s1] else []);
         ws = ws @ [enc_ldr_post s1, enc_msr_nzcv s1, enc_ldr_post s3, enc_ldr_post s2,
                    enc_ldr_post s1]
     in ws @ [branch_back island orig_addr (length ws)])"

definition emit_island :: "lse_decoded \<Rightarrow> u64 \<Rightarrow> u64 \<Rightarrow> u32 list" where
  "emit_island d island orig_addr =
    (if d_op d = LSE_CAS then emit_cas_island d island orig_addr
     else emit_rmw_island d island orig_addr)"

text \<open>The highest vector register that the BCAX does not name; 31 if there were none.\<close>

definition pick_vtmp :: "u32 \<Rightarrow> u32" where
  "pick_vtmp used =
    (case List.find (mask_free used) (rev [0..<32]) of Some r \<Rightarrow> of_nat r | None \<Rightarrow> 31)"

definition emit_bcax_island ::
  "u32 \<Rightarrow> u32 \<Rightarrow> u32 \<Rightarrow> u32 \<Rightarrow> u64 \<Rightarrow> u64 \<Rightarrow> u32 list" where
  "emit_bcax_island vd vn vm va island orig_addr =
    (let ws =
       (if va = vd then [enc_neon_bic vd vm vd, enc_neon_eor vd vn vd]
        else
          let used = reg_bit vd OR reg_bit vn OR reg_bit vm OR reg_bit va;
              vtmp = pick_vtmp used
          in [enc_str_q_pre vtmp, enc_neon_bic vtmp vm va, enc_neon_eor vd vn vtmp,
              enc_ldr_q_post vtmp])
     in ws @ [branch_back island orig_addr (length ws)])"

section \<open>The patching pass\<close>

text \<open>
  The pass over the code: position in the pool, the words written to the pool so far and the
  number of patched instructions. A \<^verbatim>\<open>break\<close> leaves the remaining words as they are.
\<close>

record emul_state =
  es_island :: u64
  es_pool :: "u32 list"
  es_patched :: nat

definition island_in_b_range :: "u64 \<Rightarrow> u64 \<Rightarrow> bool" where
  "island_in_b_range island pc =
    (let offset = ptr_diff island pc in
     \<not> (sint offset > 0x01FFFFFF \<or> sint offset < - 0x02000000))"

definition place_island :: "emul_state \<Rightarrow> u32 list \<Rightarrow> emul_state" where
  "place_island st ws =
     st \<lparr> es_island := es_island st + 4 * of_nat (length ws), es_pool := es_pool st @ ws,
          es_patched := es_patched st + 1 \<rparr>"

fun emul_loop :: "u64 \<Rightarrow> u64 \<Rightarrow> u32 list \<Rightarrow> emul_state \<Rightarrow> u32 list \<times> emul_state" where
  "emul_loop pool_end pc [] st = ([], st)"
| "emul_loop pool_end pc (w # code) st =
    (let keep = (let (code', st') = emul_loop pool_end (pc + 4) code st in (w # code', st')) in
     case decode_lse w of
       Some d \<Rightarrow>
         if es_island st + 4 * 24 > pool_end then (w # code, st)
         else if \<not> island_in_b_range (es_island st) pc then keep
         else
           let ws = emit_island d (es_island st) pc in
           if length ws = 0 then keep
           else
             let (code', st') = emul_loop pool_end (pc + 4) code (place_island st ws)
             in (enc_b (ucast (ptr_diff (es_island st) pc)) # code', st')
     | None \<Rightarrow>
         (case decode_bcax w of
            Some (vd, vn, vm, va) \<Rightarrow>
              if es_island st + 4 * 5 > pool_end then (w # code, st)
              else if \<not> island_in_b_range (es_island st) pc then keep
              else
                let ws = emit_bcax_island vd vn vm va (es_island st) pc;
                    (code', st') = emul_loop pool_end (pc + 4) code (place_island st ws)
                in (enc_b (ucast (ptr_diff (es_island st) pc)) # code', st')
          | None \<Rightarrow> keep))"

text \<open>The result: the code after the pass, the words written to the pool, the advanced pool
  pointer and the number of patched instructions.\<close>

definition isa_emul_patch :: "u64 \<Rightarrow> u32 list \<Rightarrow> u64 \<Rightarrow> u64 \<Rightarrow> u32 list \<times> u32 list \<times> u64 \<times> nat" where
  "isa_emul_patch code_addr code pool_ptr pool_end =
    (let (code', st) = emul_loop pool_end code_addr code
           \<lparr>es_island = pool_ptr, es_pool = [], es_patched = 0\<rparr>
     in (code', es_pool st, es_island st, es_patched st))"

end
