(* ===== verification/Island_Code.thy ===== *)
theory Island_Code
  imports Arm64_Machine Isa_Emul
begin

text \<open>
  The instruction words the island generator emits decode to the instructions it means, and the
  registers it picks as scratch are distinct from each other and from the operands.
\<close>

lemma drop_bit_30_small:
  fixes r :: u32
  assumes "r < 32"
  shows "drop_bit 30 r = 0" "drop_bit 30 (push_bit 5 r) = 0" "drop_bit 30 (push_bit 16 r) = 0"
  using assms by (simp_all add: reg_drop_bit reg_drop_push)

lemma bit_reg:
  fixes r :: u32
  assumes "r < 32"
  shows "5 \<le> n \<Longrightarrow> \<not> bit r n"
    and "m + 5 \<le> n \<or> n < m \<Longrightarrow> \<not> bit (push_bit m r) n"
  using less_32_bit [OF assms] by (fastforce simp: bit_simps)+

lemmas decode_simps =
  decode_def fld_def Let_def enc_defs enc_mov_def field_simps_enc bit_reg bit_or_iff
  
lemma decode_mem [simp]:
  assumes "rt < 32"
  shows "decode (enc_str_pre rt) = Some (StrPre (unat rt))"
    "decode (enc_ldr_post rt) = Some (LdrPost (unat rt))"
    "decode (enc_mrs_nzcv rt) = Some (MrsNzcv (unat rt))"
    "decode (enc_msr_nzcv rt) = Some (MsrNzcv (unat rt))"
  using assms by (simp_all add: decode_simps)

lemma decode_alu [simp]:
  assumes "rd < 32" "rn < 32" "rm < 32"
  shows "decode (enc_add w rd rn rm) = Some (Add w (unat rd) (unat rn) (unat rm))"
    "decode (enc_bic w rd rn rm) = Some (Bic w (unat rd) (unat rn) (unat rm))"
    "decode (enc_eor w rd rn rm) = Some (Eor w (unat rd) (unat rn) (unat rm))"
    "decode (enc_orr w rd rn rm) = Some (Orr w (unat rd) (unat rn) (unat rm))"
    "decode (enc_cmp w rn rm) = Some (Cmp w (unat rn) (unat rm))"
  using assms by (cases w; simp add: decode_simps)+


lemma decode_csel [simp]:
  assumes "rd < 32" "rn < 32" "rm < 32"
  shows "decode (enc_csel w rd rn rm COND_GT) = Some (Csel w (unat rd) (unat rn) (unat rm) 12)"
    "decode (enc_csel w rd rn rm COND_LT) = Some (Csel w (unat rd) (unat rn) (unat rm) 11)"
    "decode (enc_csel w rd rn rm COND_HI) = Some (Csel w (unat rd) (unat rn) (unat rm) 8)"
    "decode (enc_csel w rd rn rm COND_LO) = Some (Csel w (unat rd) (unat rn) (unat rm) 3)"
  using assms
  by (cases w; simp add: decode_simps COND_GT_def COND_LT_def COND_HI_def COND_LO_def)+

lemma decode_sxt [simp]:
  assumes "rd < 32" "rn < 32"
  shows "decode (enc_sxtb rd rn) = Some (Sxtb (unat rd) (unat rn))"
    "decode (enc_sxth rd rn) = Some (Sxth (unat rd) (unat rn))"
  using assms by (simp_all add: decode_simps)

lemma size_cases:
  fixes sz :: u32
  assumes "sz < 4"
  shows "sz = 0 \<or> sz = 1 \<or> sz = 2 \<or> sz = 3"
  using assms by unat_arith

lemma decode_exclusive [simp]:
  assumes "sz < 4" "rs < 32" "rt < 32" "rn < 32"
  shows "decode (enc_ldxr sz acq rt rn) = Some (Ldxr (unat sz) (acq \<noteq> 0) (unat rt) (unat rn))"
    "decode (enc_stxr sz acq rs rt rn) =
       Some (Stxr (unat sz) (acq \<noteq> 0) (unat rs) (unat rt) (unat rn))"
  using size_cases [OF assms(1)] assms(2-)
  by (elim disjE; cases "acq = 0"; simp add: decode_simps)+

lemma decode_neon [simp]:
  assumes "rd < 32" "rn < 32" "rm < 32"
  shows "decode (enc_neon_bic rd rn rm) = Some (VBic (unat rd) (unat rn) (unat rm))"
    "decode (enc_neon_eor rd rn rm) = Some (VEor (unat rd) (unat rn) (unat rm))"
    "decode (enc_str_q_pre rd) = Some (StrQPre (unat rd))"
    "decode (enc_ldr_q_post rd) = Some (LdrQPost (unat rd))"
  using assms by (simp_all add: decode_simps)

lemma decode_clrex [simp]: "decode 0xD5033F5F = Some Clrex"
  by (simp add: decode_simps)

lemma decode_bne [simp]: "decode (0x54000000 OR push_bit 5 3 OR COND_NE) = Some (Bcond 1 3)"
  by (simp add: decode_simps COND_NE_def imm19_def)

lemma decode_branch [simp]: "decode (enc_b w) = Some (Branch (signed_take_bit 25 (uint w)))"
proof -
  have "enc_b w AND 0xFC000000 = 0x14000000"
    by (simp add: enc_b_def bit.conj_disj_distrib2 and.assoc)
  moreover have "signed_take_bit 25 (uint (enc_b w)) = signed_take_bit 25 (uint w)"
    by (rule signed_take_bit_uint_cong) (rule take_bit_enc)
  ultimately show ?thesis by (simp add: decode_def)
qed

lemma decode_cbnz [simp]:
  assumes "rt < 32" 
  shows "decode (enc_cbnz_w rt (- 3)) = Some (Cbnz (unat rt) (- 3))"
   "decode (enc_cbnz_w rt (- 4)) = Some (Cbnz (unat rt) (- 4))"
   "decode (enc_cbnz_w rt (- 6)) = Some (Cbnz (unat rt) (- 6))"
  using assms by (simp_all add: decode_simps imm19_def)


section \<open>Scratch registers\<close>

lemma bit_reg_bit [simp]: "bit (reg_bit r) n \<longleftrightarrow> n = unat r \<and> n < 32"
  by (auto simp: reg_bit_def bit_simps)

lemma mask_free_bit:
  assumes "r < 32"
  shows "mask_free m r \<longleftrightarrow> \<not> bit m r"
proof -
  have "bit (m AND push_bit r 1) n \<longleftrightarrow> bit m r \<and> n = r" for n
    using assms by (auto simp: bit_simps)
  then show ?thesis unfolding mask_free_def bit_eq_iff [of _ "0 :: u32"] using assms by auto
qed

lemma find_SomeD: "List.find P xs = Some x \<Longrightarrow> P x \<and> x \<in> set xs"
  by (auto simp: find_Some_iff)

lemma pick_scratch_free:
  assumes "card {r. bit m r} < 20"
  shows "\<not> bit m (unat (pick_scratch m)) \<and> unat (pick_scratch m) \<in> {9..28}"
proof -
  have "\<exists>r \<in> {9..28}. \<not> bit m r"
  proof (rule ccontr)
    assume "\<not> ?thesis"
    then have "{9..28} \<subseteq> {r. bit m r}" by auto
    moreover have "finite {r. bit m r}"
      by (rule finite_subset [of _ "{..<32}"]) (auto dest: bit_imp_le_length)
    ultimately have "card {9..28 :: nat} \<le> card {r. bit m r}" by (rule card_mono [rotated])
    with assms show False by simp
  qed
  then obtain r where r: "r \<in> {9..28}" "\<not> bit m r" by blast
  show ?thesis
  proof (cases "List.find (mask_free m) (rev [9..<17])")
    case (Some q)
    then have "mask_free m q" "q \<in> {9..<17}"
      using find_SomeD [OF Some] by auto
    then show ?thesis using Some by (simp add: pick_scratch_def mask_free_bit unat_of_nat)
  next
    case None
    then have "\<forall>q \<in> {9..<17}. \<not> mask_free m q"
      unfolding find_None_iff set_rev set_upt by blast
    with r have "r \<in> {17..<29}" by (auto simp: mask_free_bit) 
    with r have "mask_free m r" "r \<in> {17..<29}" by (auto simp: mask_free_bit)
    then have "List.find (mask_free m) [17..<29] \<noteq> None"
      unfolding find_None_iff set_upt by blast
    then obtain q where q: "List.find (mask_free m) [17..<29] = Some q" by blast
    then have "mask_free m q" "q \<in> {17..<29}"
      using find_SomeD [OF q] by auto
    then show ?thesis using None q by (simp add: pick_scratch_def mask_free_bit unat_of_nat)
  qed
qed


text \<open>The registers an island may use: distinct from each other and from the operands.\<close>

definition free_regs :: "nat list \<Rightarrow> nat set \<Rightarrow> bool" where
  "free_regs ss used \<longleftrightarrow> distinct ss \<and> set ss \<subseteq> {9..28} - used"

lemma card_bits_or:
  fixes m :: u32
  shows "card {n. bit (m OR reg_bit r) n} \<le> Suc (card {n. bit m n})"
proof -
  have fin: "finite {n. bit m n}"
    by (rule finite_subset [of _ "{..<32}"]) (auto dest: bit_imp_le_length)
  have "{n. bit (m OR reg_bit r) n} \<subseteq> insert (unat r) {n. bit m n}"
    by (auto simp: bit_or_iff)
  then have "card {n. bit (m OR reg_bit r) n} \<le> card (insert (unat r) {n. bit m n})"
    using fin by (intro card_mono) simp_all
  also have "\<dots> \<le> Suc (card {n. bit m n})" by (rule card_insert_le_m1) simp_all
  finally show ?thesis .
qed

lemma card_reg_bit: "card {n. bit (reg_bit r) n} \<le> 1"
proof -
  have "{n. bit (reg_bit r) n} \<subseteq> {unat r}" by auto
  then show ?thesis using card_mono [of "{unat r}"] by fastforce
qed

lemma pick_two:
  assumes "card {r. bit m r} < 19"
  defines "s1 \<equiv> pick_scratch m"
  defines "s2 \<equiv> pick_scratch (m OR reg_bit s1)"
  shows "free_regs [unat s1, unat s2] {r. bit m r}"
proof -
  have 1: "\<not> bit m (unat s1)" "unat s1 \<in> {9..28}"
    using pick_scratch_free [of m] assms by auto
  have "card {r. bit (m OR reg_bit s1) r} < 20"
    using card_bits_or [of m s1] assms(1) by linarith
  then have "\<not> bit (m OR reg_bit s1) (unat s2)" "unat s2 \<in> {9..28}"
    using pick_scratch_free [of "m OR reg_bit s1"] assms(3) by auto
  with 1 show ?thesis by (auto simp: free_regs_def bit_or_iff)
qed

lemma pick_three:
  assumes "card {r. bit m r} < 18"
  defines "s1 \<equiv> pick_scratch m"
  defines "s2 \<equiv> pick_scratch (m OR reg_bit s1)"
  defines "s3 \<equiv> pick_scratch (m OR reg_bit s1 OR reg_bit s2)"
  shows "free_regs [unat s1, unat s2, unat s3] {r. bit m r}"
proof -
  have 1: "free_regs [unat s1, unat s2] {r. bit m r}"
    using pick_two [of m] assms by simp
  have "card {r. bit (m OR reg_bit s1 OR reg_bit s2) r} < 20"
    using card_bits_or [of m s1] card_bits_or [of "m OR reg_bit s1" s2] assms(1)
    by (simp add: or.assoc)
  then have "\<not> bit (m OR reg_bit s1 OR reg_bit s2) (unat s3)" "unat s3 \<in> {9..28}"
    using pick_scratch_free [of "m OR reg_bit s1 OR reg_bit s2"] assms(4) by (auto simp: or.assoc)
  with 1 show ?thesis by (auto simp: free_regs_def bit_or_iff)
qed

end
