(* ===== verification/Island_Correct.thy ===== *)
theory Island_Correct
  imports Island_Code
begin

text \<open>
  The parts of a read-modify-write island: what the architecture says an atomic computes, the
  flags a comparison leaves, the arithmetic between the exclusive load and store, the frame the
  island saves registers in, and the exclusive loop, which ends once the interference of other
  observers is used up.
\<close>

section \<open>What an atomic instruction does\<close>

definition signed_at :: "nat \<Rightarrow> u64 \<Rightarrow> int" where
  "signed_at w x = signed_take_bit (w - 1) (uint x)"

definition unsigned_at :: "nat \<Rightarrow> u64 \<Rightarrow> int" where
  "unsigned_at w x = take_bit w (uint x)"

text \<open>The new memory value of a \<open>w\<close>-bit atomic, from the old one and the source register.\<close>

definition lse_result :: "lse_op \<Rightarrow> nat \<Rightarrow> u64 \<Rightarrow> u64 \<Rightarrow> u64" where
  "lse_result p w old v = take_bit w
    (case p of
       LSE_LDADD \<Rightarrow> old + v
     | LSE_LDCLR \<Rightarrow> old AND NOT v
     | LSE_LDEOR \<Rightarrow> old XOR v
     | LSE_LDSET \<Rightarrow> old OR v
     | LSE_LDSMAX \<Rightarrow> (if signed_at w old < signed_at w v then v else old)
     | LSE_LDSMIN \<Rightarrow> (if signed_at w v < signed_at w old then v else old)
     | LSE_LDUMAX \<Rightarrow> (if unsigned_at w old < unsigned_at w v then v else old)
     | LSE_LDUMIN \<Rightarrow> (if unsigned_at w v < unsigned_at w old then v else old)
     | LSE_SWP \<Rightarrow> v
     | _ \<Rightarrow> old)"

section \<open>Flags\<close>

lemma sint_sub_cases:
  fixes a b :: "'a::len word"
  shows "(sint (a - b) < 0) \<noteq> (sint (a - b) \<noteq> sint a - sint b) \<longleftrightarrow> sint a < sint b"
proof -
  define L :: int where "L = 2 ^ (LENGTH('a) - 1)"
  define D where "D = sint a - sint b"
  have La: "- L \<le> sint a" "sint a < L" "- L \<le> sint b" "sint b < L"
    using sint_range_size [of a] sint_range_size [of b] by (auto simp: L_def word_size)
  have "sint (a - b) = signed_take_bit (LENGTH('a) - 1) D"
    by (simp add: D_def sint_word_ariths)
  moreover have "2 ^ LENGTH('a) = 2 * L" by (simp add: L_def flip: power_Suc)
  ultimately have eq: "sint (a - b) = (D + L) mod (2 * L) - L"
    by (simp add: signed_take_bit_eq_take_bit_shift take_bit_eq_mod L_def)
  have LD: "- (2 * L) < D" "D < 2 * L" "0 < L" using La by (auto simp: D_def L_def)
  consider "D < - L" | "- L \<le> D" "D < L" | "L \<le> D" by linarith
  then show ?thesis
  proof cases
    case 1
    have "(D + L) mod (2 * L) = (D + L + 2 * L) mod (2 * L)"
      by (simp only: mod_add_self2)
    also have "\<dots> = D + L + 2 * L" using 1 LD by (intro mod_pos_pos_trivial) linarith+
    finally show ?thesis using 1 LD by (simp add: eq D_def)
  next
    case 2
    then have "(D + L) mod (2 * L) = D + L" by (intro mod_pos_pos_trivial) linarith+
    then show ?thesis by (simp add: eq D_def)
  next
    case 3
    have "(D + L) mod (2 * L) = (D + L - 2 * L) mod (2 * L)"
      by (simp only: minus_mod_self2)
    also have "\<dots> = D + L - 2 * L" using 3 LD by (intro mod_pos_pos_trivial) linarith+
    finally show ?thesis using 3 LD by (simp add: eq D_def)
  qed
qed

lemma conds_after_sub [simp]:
  fixes a b :: "'a::len word"
  shows "cond_holds 11 (set_sub_flags a b s) \<longleftrightarrow> sint a < sint b"
    and "cond_holds 12 (set_sub_flags a b s) \<longleftrightarrow> sint b < sint a"
    and "cond_holds 3 (set_sub_flags a b s) \<longleftrightarrow> a < b"
    and "cond_holds 8 (set_sub_flags a b s) \<longleftrightarrow> b < a"
    and "cond_holds 1 (set_sub_flags a b s) \<longleftrightarrow> a \<noteq> b"
  using sint_sub_cases [of a b]
  by (auto simp: cond_holds.simps set_sub_flags_def sub_n_def sub_v_def not_le order.strict_iff_order
        dest: signed_word_eqI)

lemma set_sub_flags_frame [simp]:
  "xr (set_sub_flags a b s) = xr s" "sp (set_sub_flags a b s) = sp s"
  "vr (set_sub_flags a b s) = vr s" "amem (set_sub_flags a b s) = amem s"
  "excl (set_sub_flags a b s) = excl s" "contention (set_sub_flags a b s) = contention s"
  "rx (set_sub_flags a b s) r = rx s r"
  by (simp_all add: set_sub_flags_def rx_def)

lemma wx_frame [simp]:
  "sp (wx r v s) = sp s" "vr (wx r v s) = vr s" "amem (wx r v s) = amem s"
  "excl (wx r v s) = excl s" "contention (wx r v s) = contention s"
  "nf (wx r v s) = nf s" "zf (wx r v s) = zf s" "cf (wx r v s) = cf s" "vf (wx r v s) = vf s"
  by (simp_all add: wx_def)

lemma rx_upd [simp]:
  "rx (s\<lparr>sp := a\<rparr>) r = rx s r" "rx (s\<lparr>nf := b1\<rparr>) r = rx s r" "rx (s\<lparr>zf := b2\<rparr>) r = rx s r"
  "rx (s\<lparr>cf := b3\<rparr>) r = rx s r" "rx (s\<lparr>vf := b4\<rparr>) r = rx s r" "rx (s\<lparr>vr := v\<rparr>) r = rx s r"
  "rx (s\<lparr>amem := m\<rparr>) r = rx s r" "rx (s\<lparr>excl := e\<rparr>) r = rx s r"
  "rx (s\<lparr>contention := c\<rparr>) r = rx s r"
  by (simp_all add: rx_def)

lemma rx_wx: "rx (wx r v s) q = (if q = r \<and> r \<noteq> 31 then v else rx s q)"
  by (simp add: rx_def wx_def)

lemma xr_wx: "xr (wx r v s) q = (if q = r \<and> r \<noteq> 31 then v else xr s q)"
  by (simp add: wx_def)

section \<open>Widths\<close>

lemma sint_ucast_at:
  "sint (ucast x :: u32) = signed_at 32 x" "sint x = signed_at 64 x"
  "sint (ucast x :: u16) = signed_at 16 x" "sint (ucast x :: u8) = signed_at 8 x"
  by (simp_all add: signed_at_def sint_uint unsigned_ucast_eq signed_take_bit_take_bit)

lemma take_bit_uint_64 [simp]: "take_bit 64 (uint (x :: u64)) = uint x"
  using unsigned_less [of x, where ?'a = int] by (simp add: take_bit_int_eq_self)

lemma less_ucast_at:
  "(ucast x :: u32) < ucast y \<longleftrightarrow> unsigned_at 32 x < unsigned_at 32 y"
  "x < y \<longleftrightarrow> unsigned_at 64 x < unsigned_at 64 y"
  by (simp_all add: unsigned_at_def word_less_iff_unsigned [where ?'a = int] unsigned_ucast_eq)

lemma ucast_up_down [simp]: "ucast (ucast (y :: u32) :: u64) = y"
  by (rule bit_eqI) (simp add: bit_simps)

lemma sint_scast_up:
  "sint (scast (x :: u8) :: u32) = sint x" "sint (scast (z :: u16) :: u32) = sint z"
  using sint_ge [of x] sint_lt [of x] sint_ge [of z] sint_lt [of z]
  by (simp_all add: signed_scast_eq signed_take_bit_int_eq_self_iff)

lemma sint_sxt:
  "sint (ucast (ucast (scast (ucast x :: u8) :: u32) :: u64) :: u32) = signed_at 8 x"
  "sint (ucast (ucast (scast (ucast x :: u16) :: u32) :: u64) :: u32) = signed_at 16 x"
  by (simp_all only: ucast_up_down sint_scast_up sint_ucast_at)


section \<open>The arithmetic of the island\<close>

fun alu_prog :: "lse_op \<Rightarrow> nat \<Rightarrow> nat \<Rightarrow> nat \<Rightarrow> nat \<Rightarrow> nat \<Rightarrow> insn list" where
  "alu_prog LSE_LDADD sz s1 s2 s3 rs = [Add (sz = 3) s2 s1 rs]"
| "alu_prog LSE_LDCLR sz s1 s2 s3 rs = [Bic (sz = 3) s2 s1 rs]"
| "alu_prog LSE_LDEOR sz s1 s2 s3 rs = [Eor (sz = 3) s2 s1 rs]"
| "alu_prog LSE_LDSET sz s1 s2 s3 rs = [Orr (sz = 3) s2 s1 rs]"
| "alu_prog LSE_SWP sz s1 s2 s3 rs = [Orr (sz = 3) s2 31 rs]"
| "alu_prog LSE_LDSMAX sz s1 s2 s3 rs =
    (if sz = 0 then [Sxtb s2 s1, Sxtb s3 rs, Cmp False s2 s3]
     else if sz = 1 then [Sxth s2 s1, Sxth s3 rs, Cmp False s2 s3]
     else [Cmp (sz = 3) s1 rs]) @ [Csel (sz = 3) s2 rs s1 11]"
| "alu_prog LSE_LDSMIN sz s1 s2 s3 rs =
    (if sz = 0 then [Sxtb s2 s1, Sxtb s3 rs, Cmp False s2 s3]
     else if sz = 1 then [Sxth s2 s1, Sxth s3 rs, Cmp False s2 s3]
     else [Cmp (sz = 3) s1 rs]) @ [Csel (sz = 3) s2 rs s1 12]"
| "alu_prog LSE_LDUMAX sz s1 s2 s3 rs = [Cmp (sz = 3) s1 rs, Csel (sz = 3) s2 rs s1 3]"
| "alu_prog LSE_LDUMIN sz s1 s2 s3 rs = [Cmp (sz = 3) s1 rs, Csel (sz = 3) s2 rs s1 8]"
| "alu_prog _ sz s1 s2 s3 rs = []"

lemma straight_alu: "list_all straight (alu_prog p sz s1 s2 s3 rs)"
  by (cases p) auto

lemma decode_alu_prog:
  assumes "s1 < 32" "s2 < 32" "s3 < 32" "d_rs d < 32" "d_size d < 4"
  shows "map decode (emit_alu d s1 s2 s3) =
         map Some (alu_prog (d_op d) (unat (d_size d)) (unat s1) (unat s2) (unat s3) (unat (d_rs d)))"
  using size_cases [OF assms(5)] assms(1-4)
  by (cases "d_op d"; elim disjE) (simp_all add: emit_alu_def enc_mov_def Let_def)

text \<open>What the arithmetic may touch.\<close>

definition same_but :: "nat set \<Rightarrow> arm \<Rightarrow> arm \<Rightarrow> bool" where
  "same_but R s t \<longleftrightarrow> (\<forall>r. r \<notin> R \<longrightarrow> xr t r = xr s r) \<and> sp t = sp s \<and> vr t = vr s \<and>
     amem t = amem s \<and> excl t = excl s \<and> contention t = contention s"

lemma alu_frame:
  "same_but {s2, s3} t (fold sem (alu_prog p sz s1 s2 s3 rs) t)"
  by (cases p) (auto simp: same_but_def xr_wx)

lemma take_bit_opw:
  assumes "sz < (4 :: nat)"
  shows "take_bit (8 * 2 ^ sz) (opw (sz = 3) v) = take_bit (8 * 2 ^ sz) v"
proof -
  have "sz = 0 \<or> sz = 1 \<or> sz = 2 \<or> sz = 3" using assms by linarith
  then show ?thesis by (auto simp: opw_def)
qed

lemma sz_cases: "sz < (4 :: nat) \<Longrightarrow> sz = 0 \<or> sz = 1 \<or> sz = 2 \<or> sz = 3"
  by linarith

lemma alu_value_simple:
  assumes "sz < (4 :: nat)" and "s1 \<noteq> 31" "s2 \<noteq> 31"
    and "p \<in> {LSE_LDADD, LSE_LDCLR, LSE_LDEOR, LSE_LDSET, LSE_SWP}"
  shows "take_bit (8 * 2 ^ sz) (rx (fold sem (alu_prog p sz s1 s2 s3 rs) t) s2) =
         lse_result p (8 * 2 ^ sz) (xr t s1) (rx t rs)"
  using assms by (auto simp: rx_wx take_bit_opw lse_result_def rx_def [of t s1] rx_def [of t 31])

lemma alu_value_signed:
  assumes "sz < (4 :: nat)" and "s1 \<noteq> 31" "s2 \<noteq> 31" "s3 \<noteq> 31"
    and "s1 \<noteq> s2" "s1 \<noteq> s3" "s2 \<noteq> s3" "rs \<noteq> s2" "rs \<noteq> s3"
    and "p = LSE_LDSMAX \<or> p = LSE_LDSMIN"
  shows "take_bit (8 * 2 ^ sz) (rx (fold sem (alu_prog p sz s1 s2 s3 rs) t) s2) =
         lse_result p (8 * 2 ^ sz) (xr t s1) (rx t rs)"
proof -
  have s1: "rx t s1 = xr t s1" using assms by (simp add: rx_def)
  show ?thesis
    using sz_cases [OF assms(1)] assms(2-)
    by (elim disjE) (simp_all add: rx_wx s1 lse_result_def sint_ucast_at sint_scast_up opw_def
        if_distrib [of "take_bit _"])
qed

lemma alu_value_unsigned:
  assumes "sz < (4 :: nat)" and "s1 \<noteq> 31" "s2 \<noteq> 31"
    and "s1 \<noteq> s2" "rs \<noteq> s2"
    and old: "take_bit (8 * 2 ^ sz) (xr t s1) = xr t s1"
    and narrow: "sz < 2 \<Longrightarrow> take_bit 32 (rx t rs) = take_bit (8 * 2 ^ sz) (rx t rs)"
    and p: "p = LSE_LDUMAX \<or> p = LSE_LDUMIN"
  shows "take_bit (8 * 2 ^ sz) (rx (fold sem (alu_prog p sz s1 s2 s3 rs) t) s2) =
         lse_result p (8 * 2 ^ sz) (xr t s1) (rx t rs)"
proof -
  have s1: "rx t s1 = xr t s1" using assms by (simp add: rx_def)
  have cmp: "(ucast (xr t s1) :: u32) < ucast (rx t rs) \<longleftrightarrow>
      unsigned_at (8 * 2 ^ sz) (xr t s1) < unsigned_at (8 * 2 ^ sz) (rx t rs)"
    "(ucast (rx t rs) :: u32) < ucast (xr t s1) \<longleftrightarrow>
      unsigned_at (8 * 2 ^ sz) (rx t rs) < unsigned_at (8 * 2 ^ sz) (xr t s1)" if "sz < 3"
  proof -
    have "take_bit 32 (xr t s1) = take_bit (8 * 2 ^ sz) (xr t s1)"
    proof -
      have "take_bit 32 (take_bit (8 * 2 ^ sz) (xr t s1)) = take_bit (8 * 2 ^ sz) (xr t s1)"
        using sz_cases [OF assms(1)] that by (elim disjE) simp_all
      then show ?thesis by (simp add: old)
    qed
    moreover have "take_bit 32 (rx t rs) = take_bit (8 * 2 ^ sz) (rx t rs)"
      using narrow sz_cases [OF assms(1)] that by (cases "sz = 2") simp_all
    ultimately have "unsigned_at 32 (xr t s1) = unsigned_at (8 * 2 ^ sz) (xr t s1)"
      "unsigned_at 32 (rx t rs) = unsigned_at (8 * 2 ^ sz) (rx t rs)"
      by (simp_all add: unsigned_at_def flip: unsigned_take_bit_eq)
    then show "(ucast (xr t s1) :: u32) < ucast (rx t rs) \<longleftrightarrow>
      unsigned_at (8 * 2 ^ sz) (xr t s1) < unsigned_at (8 * 2 ^ sz) (rx t rs)"
    "(ucast (rx t rs) :: u32) < ucast (xr t s1) \<longleftrightarrow>
      unsigned_at (8 * 2 ^ sz) (rx t rs) < unsigned_at (8 * 2 ^ sz) (xr t s1)"
      by (simp_all add: less_ucast_at)
  qed
  show ?thesis
  proof (cases "sz = 3")
    case True
    with p assms(2-5) show ?thesis
      by (elim disjE) (simp_all add: rx_wx s1 lse_result_def less_ucast_at opw_def)
  next
    case False
    with assms(1) have "sz < 3" by simp
    moreover have "take_bit (8 * 2 ^ sz) (opw False v) = take_bit (8 * 2 ^ sz) v" for v
      using take_bit_opw [OF assms(1), of v] False by simp
    ultimately show ?thesis
      using p assms(1-5) False
      by (elim disjE) (simp_all add: rx_wx s1 lse_result_def cmp)
  qed
qed


lemma alu_value:
  assumes "sz < (4 :: nat)"
    and "distinct [s1, s2, s3]" "rs \<notin> {s1, s2, s3}" "31 \<notin> {s1, s2, s3}"
    and "p \<noteq> LSE_CAS" "p \<noteq> LSE_NONE"
    and "take_bit (8 * 2 ^ sz) (xr t s1) = xr t s1"
    and "p = LSE_LDUMAX \<or> p = LSE_LDUMIN \<Longrightarrow> sz < 2 \<Longrightarrow>
      take_bit 32 (rx t rs) = take_bit (8 * 2 ^ sz) (rx t rs)"
  shows "take_bit (8 * 2 ^ sz) (rx (fold sem (alu_prog p sz s1 s2 s3 rs) t) s2) =
         lse_result p (8 * 2 ^ sz) (xr t s1) (rx t rs)"
proof -
  consider "p \<in> {LSE_LDADD, LSE_LDCLR, LSE_LDEOR, LSE_LDSET, LSE_SWP}"
    | "p = LSE_LDSMAX \<or> p = LSE_LDSMIN" | "p = LSE_LDUMAX \<or> p = LSE_LDUMIN"
    using assms(5,6) by (cases p) auto
  then show ?thesis
  proof cases
    case 1
    then show ?thesis using assms by (intro alu_value_simple) simp_all
  next
    case 2
    then show ?thesis using assms by (intro alu_value_signed) simp_all
  next
    case 3
    then show ?thesis using assms by (intro alu_value_unsigned) simp_all
  qed
qed

section \<open>The island as a program\<close>

definition rmw_save :: "nat \<Rightarrow> nat \<Rightarrow> nat \<Rightarrow> insn list" where
  "rmw_save s1 s2 s3 = [StrPre s1, StrPre s2, StrPre s3, MrsNzcv s1, StrPre s1]"

definition rmw_restore :: "nat \<Rightarrow> nat \<Rightarrow> nat \<Rightarrow> insn list" where
  "rmw_restore s1 s2 s3 = [LdrPost s1, MsrNzcv s1, LdrPost s3, LdrPost s2, LdrPost s1]"

definition mov_to :: "nat \<Rightarrow> bool \<Rightarrow> nat \<Rightarrow> insn list" where
  "mov_to rd w rn = (if rd \<noteq> 31 then [Orr w rd 31 rn] else [])"

text \<open>The stack frame of an island: the saved registers and flags below the stack pointer.\<close>

definition saved :: "nat \<Rightarrow> nat \<Rightarrow> nat \<Rightarrow> arm \<Rightarrow> arm \<Rightarrow> bool" where
  "saved s1 s2 s3 s t \<longleftrightarrow> sp t = sp s - 64 \<and> vr t = vr s \<and>
     (\<forall>r. r \<notin> {s1, s2, s3} \<longrightarrow> xr t r = xr s r) \<and>
     load (amem t) (sp s - 64) 8 = nzcv_word s \<and> load (amem t) (sp s - 48) 8 = xr s s3 \<and>
     load (amem t) (sp s - 32) 8 = xr s s2 \<and> load (amem t) (sp s - 16) 8 = xr s s1"

lemma disj_numeral [simp]:
  "disj (p - numeral a) n (p - numeral b) k \<longleftrightarrow>
     k \<le> unat (numeral b - numeral a :: u64) \<and> n \<le> unat (numeral a - numeral b :: u64)"
  by (simp add: disj_def)

lemma nzcv_bits:
  "bit (nzcv_word s) 31 = nf s" "bit (nzcv_word s) 30 = zf s"
  "bit (nzcv_word s) 29 = cf s" "bit (nzcv_word s) 28 = vf s"
  by (simp_all add: nzcv_word_def bit_or_iff bit_simps)

lemma save_saved:
  assumes "distinct [s1, s2, s3]" "31 \<notin> {s1, s2, s3}"
  shows "saved s1 s2 s3 s (fold sem (rmw_save s1 s2 s3) s)"
  using assms
  by (simp add: saved_def rmw_save_def rx_wx xr_wx rx_def load_store_disj load_store_same nzcv_word_def
     unat_minus_one_word)


lemma in_frame:
  "in_range b (p - 16) 8 \<Longrightarrow> in_range b (p - 64) 64"
  "in_range b (p - 32) 8 \<Longrightarrow> in_range b (p - 64) 64"
  "in_range b (p - 48) 8 \<Longrightarrow> in_range b (p - 64) 64"
  "in_range b (p - 64) 8 \<Longrightarrow> in_range b (p - 64) 64"
  using in_range_sub [of b "p - 64" 48 8 64] in_range_sub [of b "p - 64" 32 8 64]
    in_range_sub [of b "p - 64" 16 8 64] in_range_sub [of b "p - 64" 0 8 64]
  by simp_all

lemma save_outside:
  assumes "\<not> in_range b (sp s - 64) 64"
  shows "amem (fold sem (rmw_save s1 s2 s3) s) b = amem s b"
proof -
  have "\<not> in_range b (sp s - 16) 8" "\<not> in_range b (sp s - 32) 8"
    "\<not> in_range b (sp s - 48) 8" "\<not> in_range b (sp s - 64) 8"
    using assms in_frame [of b "sp s"] by blast+
  then show ?thesis by (simp add: rmw_save_def store_outside)
qed

lemma save_frame:
  "contention (fold sem (rmw_save s1 s2 s3) s) = contention s"
  by (simp add: rmw_save_def)

lemma saved_cong:
  assumes "saved s1 s2 s3 s t"
    and "sp t' = sp t" "vr t' = vr t" "\<And>r. r \<notin> {s1, s2, s3} \<Longrightarrow> xr t' r = xr t r"
    and m: "\<And>b. in_range b (sp s - 64) 64 \<Longrightarrow> amem t' b = amem t b"
  shows "saved s1 s2 s3 s t'"
proof -
  have "load (amem t') (sp s - 16) 8 = load (amem t) (sp s - 16) 8"
    "load (amem t') (sp s - 32) 8 = load (amem t) (sp s - 32) 8"
    "load (amem t') (sp s - 48) 8 = load (amem t) (sp s - 48) 8"
    "load (amem t') (sp s - 64) 8 = load (amem t) (sp s - 64) 8"
    using m in_frame by (auto intro!: load_cong)
  with assms show ?thesis by (auto simp: saved_def)
qed

lemma restore_state:
  assumes "saved s1 s2 s3 s t" and "distinct [s1, s2, s3]" "31 \<notin> {s1, s2, s3}"
  shows "fold sem (rmw_restore s1 s2 s3) t =
    s\<lparr>amem := amem t, excl := excl t, contention := contention t\<rparr>"
proof -
  have "xr (fold sem (rmw_restore s1 s2 s3) t) = xr s"
    using assms by (auto simp: rmw_restore_def saved_def xr_wx add.commute fun_eq_iff)
  moreover have "sp t + 64 = sp s" using assms by (simp add: saved_def)
  ultimately show ?thesis
    using assms
    by (intro arm.equality) (simp_all add: rmw_restore_def saved_def nzcv_bits rx_wx add.commute)
qed


section \<open>The exclusive loop\<close>

text \<open>Other observers leave the frame of the island alone.\<close>

definition respects_frame :: "u64 \<Rightarrow> (mem \<Rightarrow> mem) list \<Rightarrow> bool" where
  "respects_frame p fs \<longleftrightarrow> (\<forall>f \<in> set fs. \<forall>m b. in_range b (p - 64) 64 \<longrightarrow> f m b = m b)"

definition interfere :: "(mem \<Rightarrow> mem) list \<Rightarrow> mem \<Rightarrow> mem" where
  "interfere fs m = fold (\<lambda>f. f) fs m"

definition rmw_body :: "lse_op \<Rightarrow> nat \<Rightarrow> bool \<Rightarrow> bool \<Rightarrow> nat \<Rightarrow> nat \<Rightarrow> nat \<Rightarrow> nat \<Rightarrow> nat \<Rightarrow> insn list" where
  "rmw_body p sz acq rel s1 s2 s3 rs rn =
     Ldxr sz acq s1 rn # alu_prog p sz s1 s2 s3 rs @ [Stxr sz rel s3 s2 rn]"

lemma size_lt: "sz < (4 :: nat) \<Longrightarrow> (2 :: nat) ^ sz < 2 ^ 64"
  by (rule power_strict_increasing) simp_all

lemma rmw_body_effect:
  fixes acq rel :: bool
  assumes sv: "saved s1 s2 s3 s t"
    and regs: "distinct [s1, s2, s3]" "{rs, rn} \<inter> {s1, s2, s3} = {}" "31 \<notin> {s1, s2, s3}" "rn \<noteq> 31"
    and p: "p \<noteq> LSE_CAS" "p \<noteq> LSE_NONE" and sz: "sz < (4 :: nat)"
    and narrow: "p = LSE_LDUMAX \<or> p = LSE_LDUMIN \<Longrightarrow> sz < 2 \<Longrightarrow>
      take_bit 32 (rx s rs) = take_bit (8 * 2 ^ sz) (rx s rs)"
    and apart: "disj (xr s rn) (2 ^ sz) (sp s - 64) 64"
    and env: "respects_frame (sp s) (contention t)"
  defines "t' \<equiv> fold sem (rmw_body p sz acq rel s1 s2 s3 rs rn) t"
  defines "old \<equiv> load (amem t) (xr s rn) (2 ^ sz)"
  shows "saved s1 s2 s3 s t' \<and> excl t' = None \<and>
    (case contention t of
       [] \<Rightarrow> xr t' s1 = old \<and> xr t' s3 = 0 \<and> contention t' = [] \<and>
         amem t' = store (amem t) (xr s rn) (2 ^ sz) (lse_result p (8 * 2 ^ sz) old (rx s rs))
     | f # fs \<Rightarrow> xr t' s3 = 1 \<and> contention t' = fs \<and> amem t' = f (amem t))"
proof -
  define t1 where "t1 = sem (Ldxr sz acq s1 rn) t"
  define t2 where "t2 = fold sem (alu_prog p sz s1 s2 s3 rs) t1"
  have t': "t' = sem (Stxr sz rel s3 s2 rn) t2"
    by (simp add: t'_def rmw_body_def t2_def t1_def)
  have base: "base t rn = xr s rn" using sv regs by (auto simp: base_def saved_def)
  have t1: "xr t1 s1 = old" "\<And>r. r \<noteq> s1 \<Longrightarrow> xr t1 r = xr t r" "sp t1 = sp t" "vr t1 = vr t"
    "amem t1 = amem t" "excl t1 = Some (xr s rn, 2 ^ sz)" "contention t1 = contention t"
    using regs by (simp_all add: t1_def base old_def xr_wx)
  have fr: "same_but {s2, s3} t1 t2" unfolding t2_def by (rule alu_frame)
  have rs: "rx t1 rs = rx s rs" using sv regs t1(2) by (auto simp: rx_def saved_def)
  have bits: "take_bit (8 * 2 ^ sz) (xr t1 s1) = xr t1 s1"
    unfolding t1 old_def by (rule load_bound_bits)
  have new: "take_bit (8 * 2 ^ sz) (rx t2 s2) = lse_result p (8 * 2 ^ sz) old (rx s rs)"
  proof -
    have "rs \<notin> {s1, s2, s3}" using regs(2) by auto
    then show ?thesis
      using alu_value [of sz s1 s2 s3 rs p t1] regs p sz narrow bits rs
      by (simp add: t2_def t1(1))
  qed
  have base2: "base t2 rn = xr s rn"
    using fr t1 regs sv by (auto simp: base_def same_but_def saved_def)
  have ex: "excl t2 = Some (base t2 rn, 2 ^ sz)" "contention t2 = contention t" "amem t2 = amem t"
    "sp t2 = sp t" "vr t2 = vr t" "xr t2 s1 = old" "\<And>r. r \<notin> {s1, s2, s3} \<Longrightarrow> xr t2 r = xr t r"
    using fr t1 base2 regs by (auto simp: same_but_def)
  have sv2: "saved s1 s2 s3 s t2"
    by (rule saved_cong [OF sv]) (use ex in auto)
  show ?thesis
  proof (cases "contention t")
    case Nil
    have "store (amem t) (xr s rn) (2 ^ sz) (rx t2 s2) =
        store (amem t) (xr s rn) (2 ^ sz) (lse_result p (8 * 2 ^ sz) old (rx s rs))"
      by (simp flip: new add: store_take_bit)
    then have t'': "t' = (wx s3 0 t2)\<lparr>amem := store (amem t) (xr s rn) (2 ^ sz)
        (lse_result p (8 * 2 ^ sz) old (rx s rs)), excl := None\<rparr>"
      using Nil by (simp add: t' ex base2)
    have "\<not> in_range b (xr s rn) (2 ^ sz)" if "in_range b (sp s - 64) 64" for b
      using that disj_ranges [OF apart] by blast
    then have "saved s1 s2 s3 s t'"
      using store_outside regs size_lt [OF sz]
      by (intro saved_cong [OF sv2]) (auto simp: t'' xr_wx ex)
    with Nil t'' ex regs show ?thesis by (auto simp: xr_wx)
  next
    case (Cons f fs)
    then have t'': "t' = (wx s3 1 t2)\<lparr>amem := f (amem t), contention := fs, excl := None\<rparr>"
      by (simp add: t' ex)
    have "saved s1 s2 s3 s t'"
      using env Cons by (intro saved_cong [OF sv2]) (auto simp: t'' xr_wx ex respects_frame_def)
    with Cons t'' regs show ?thesis by (auto simp: xr_wx)
  qed
qed

lemma straight_body: "list_all straight (rmw_body p sz acq rel s1 s2 s3 rs rn)"
  by (simp add: rmw_body_def straight_alu)

lemma respects_frame_Cons [simp]:
  "respects_frame p (f # fs) \<longleftrightarrow>
     (\<forall>m b. in_range b (p - 64) 64 \<longrightarrow> f m b = m b) \<and> respects_frame p fs"
  by (auto simp: respects_frame_def)

text \<open>The loop comes to an end once the interference is used up, and what it has then done is
  one atomic update of the interfered memory.\<close>

lemma rmw_loop:
  fixes acq rel :: bool
  assumes regs: "distinct [s1, s2, s3]" "{rs, rn} \<inter> {s1, s2, s3} = {}" "31 \<notin> {s1, s2, s3}" "rn \<noteq> 31"
    and p: "p \<noteq> LSE_CAS" "p \<noteq> LSE_NONE" and sz: "sz < (4 :: nat)"
    and narrow: "p = LSE_LDUMAX \<or> p = LSE_LDUMIN \<Longrightarrow> sz < 2 \<Longrightarrow>
      take_bit 32 (rx s rs) = take_bit (8 * 2 ^ sz) (rx s rs)"
    and apart: "disj (xr s rn) (2 ^ sz) (sp s - 64) 64"
    and P: "P = A @ rmw_body p sz acq rel s1 s2 s3 rs rn @ [Cbnz s3 (- int (length B))] @ C"
    and B: "B = rmw_body p sz acq rel s1 s2 s3 rs rn"
    and "saved s1 s2 s3 s t" "respects_frame (sp s) (contention t)"
    and "M = interfere (contention t) (amem t)"
  shows "\<exists>t'. runs P (int (length A), t) (int (length A + length B + 1), t') \<and>
    saved s1 s2 s3 s t' \<and> excl t' = None \<and> contention t' = [] \<and>
    xr t' s1 = load M (xr s rn) (2 ^ sz) \<and>
    amem t' = store M (xr s rn) (2 ^ sz)
      (lse_result p (8 * 2 ^ sz) (load M (xr s rn) (2 ^ sz)) (rx s rs))"
  using assms(12-14)
proof (induction "contention t" arbitrary: t)
  case Nil
  let ?t = "fold sem B t"
  have "runs P (int (length A), t) (int (length A) + int (length B), ?t)"
    by (rule runs_block [where A = A]) (use P B straight_body in auto)
  moreover have eff: "saved s1 s2 s3 s ?t" "excl ?t = None" "xr ?t s3 = 0" "contention ?t = []"
    "xr ?t s1 = load M (xr s rn) (2 ^ sz)"
    "amem ?t = store M (xr s rn) (2 ^ sz)
      (lse_result p (8 * 2 ^ sz) (load M (xr s rn) (2 ^ sz)) (rx s rs))"
    using rmw_body_effect [OF Nil.prems(1) regs p sz narrow apart Nil.prems(2), of acq rel]
      Nil by (simp_all add: B interfere_def flip: Nil.hyps)
  moreover have "step P (int (length A) + int (length B), ?t) = (int (length A + length B + 1), ?t)"
    using eff(3) regs by (simp add: P nth_append B nat_add_distrib rx_def)
  ultimately show ?case by (metis runs_step runs_trans)
next
  case (Cons f fs)
  let ?t = "fold sem B t"
  have "runs P (int (length A), t) (int (length A) + int (length B), ?t)"
    by (rule runs_block [where A = A]) (use P B straight_body in auto)
  moreover have eff: "saved s1 s2 s3 s ?t" "xr ?t s3 = 1" "contention ?t = fs"
    "amem ?t = f (amem t)"
    using rmw_body_effect [OF Cons.prems(1) regs p sz narrow apart Cons.prems(2), of acq rel]
    by (simp_all add: B flip: Cons.hyps(2))
  moreover have "step P (int (length A) + int (length B), ?t) = (int (length A), ?t)"
    using eff(2) regs by (simp add: P nth_append B nat_add_distrib rx_def)
  ultimately have "runs P (int (length A), t) (int (length A), ?t)"
    by (metis runs_step runs_trans)
  moreover have "\<exists>t'. runs P (int (length A), ?t) (int (length A + length B + 1), t') \<and>
    saved s1 s2 s3 s t' \<and> excl t' = None \<and> contention t' = [] \<and>
    xr t' s1 = load M (xr s rn) (2 ^ sz) \<and>
    amem t' = store M (xr s rn) (2 ^ sz)
      (lse_result p (8 * 2 ^ sz) (load M (xr s rn) (2 ^ sz)) (rx s rs))"
    using Cons.prems eff by (intro Cons.hyps(1)) (simp_all add: interfere_def flip: Cons.hyps(2))
  ultimately show ?case by (meson runs_trans)
qed

end
