(* ===== verification/Island_Rmw.thy ===== *)
theory Island_Rmw
  imports Island_Correct
begin

text \<open>
  The whole read-modify-write island: the words \<^verbatim>\<open>emit_island\<close> of \<^verbatim>\<open>src/src/isa_emul.c\<close> emits for
  every atomic but compare-and-swap are a program that performs the atomic and branches back.
\<close>

section \<open>The read-modify-write island\<close>

definition rmw_prog ::
  "lse_op \<Rightarrow> nat \<Rightarrow> bool \<Rightarrow> bool \<Rightarrow> nat \<Rightarrow> nat \<Rightarrow> nat \<Rightarrow> nat \<Rightarrow> nat \<Rightarrow> nat \<Rightarrow> int \<Rightarrow> insn list" where
  "rmw_prog p sz acq rel s1 s2 s3 rs rt rn off =
     rmw_save s1 s2 s3 @ rmw_body p sz acq rel s1 s2 s3 rs rn @
     [Cbnz s3 (- int (length (rmw_body p sz acq rel s1 s2 s3 rs rn)))] @
     mov_to rt (sz = 3) s1 @ rmw_restore s1 s2 s3 @ [Branch off]"

lemma straight_parts:
  "list_all straight (rmw_save s1 s2 s3)" "list_all straight (rmw_restore s1 s2 s3)"
  "list_all straight (mov_to rt w s1)"
  by (simp_all add: rmw_save_def rmw_restore_def mov_to_def)

lemma runs_block_at:
  assumes "P = A @ B @ C" and "list_all straight B"
  shows "runs P (int (length A), s) (int (length (A @ B)), fold sem B s)"
  using runs_block [OF assms refl, of s] by simp

lemma opw_load:
  assumes "sz < (4 :: nat)" and "take_bit (8 * 2 ^ sz) v = v"
  shows "opw (sz = 3) v = v"
proof -
  have "take_bit 32 v = v" if "sz \<noteq> 3"
  proof -
    have "take_bit 32 (take_bit (8 * 2 ^ sz) v) = take_bit (8 * 2 ^ sz) v"
      using sz_cases [OF assms(1)] that by (elim disjE) simp_all
    then show ?thesis by (simp add: assms(2))
  qed
  then show ?thesis by (simp add: opw_def)
qed

lemma mov_effect:
  assumes "opw w (xr t r) = xr t r" "r \<noteq> 31"
  shows "fold sem (mov_to q w r) t = wx q (xr t r) t"
  using assms by (simp add: mov_to_def rx_def wx_def)

lemma saved_wx:
  assumes "saved s1 s2 s3 s t" "q \<notin> {s1, s2, s3}"
  shows "saved s1 s2 s3 (wx q v s) (wx q v t)"
  using assms by (auto simp: saved_def xr_wx nzcv_word_def)

lemma epilogue:
  assumes "saved s1 s2 s3 s t" "distinct [s1, s2, s3]" "31 \<notin> {s1, s2, s3}" "q \<notin> {s1, s2, s3}"
    and "v = xr t r" "opw w v = v" "r \<noteq> 31"
  shows "fold sem (mov_to q w r @ rmw_restore s1 s2 s3) t =
    (wx q v s)\<lparr>amem := amem t, excl := excl t, contention := contention t\<rparr>"
  using assms restore_state [OF saved_wx [OF assms(1,4), of v] assms(2,3)]
  by (simp add: mov_effect)

lemma rmw_prog_runs:
  fixes acq rel :: bool and off :: int
  assumes regs: "distinct [s1, s2, s3]" "{rs, rn, rt} \<inter> {s1, s2, s3} = {}" "31 \<notin> {s1, s2, s3}" "rn \<noteq> 31"
    and p: "p \<noteq> LSE_CAS" "p \<noteq> LSE_NONE" and sz: "sz < (4 :: nat)"
    and narrow: "p = LSE_LDUMAX \<or> p = LSE_LDUMIN \<Longrightarrow> sz < 2 \<Longrightarrow>
      take_bit 32 (rx s rs) = take_bit (8 * 2 ^ sz) (rx s rs)"
    and apart: "disj (xr s rn) (2 ^ sz) (sp s - 64) 64"
    and env: "respects_frame (sp s) (contention s)"
  defines "P \<equiv> rmw_prog p sz acq rel s1 s2 s3 rs rt rn off"
  defines "M \<equiv> interfere (contention s) (amem (fold sem (rmw_save s1 s2 s3) s))"
  defines "old \<equiv> load M (xr s rn) (2 ^ sz)"
  shows "runs P (0, s) (int (length P - 1) + off, (wx rt old s)
    \<lparr>amem := store M (xr s rn) (2 ^ sz) (lse_result p (8 * 2 ^ sz) old (rx s rs)),
     excl := None, contention := []\<rparr>)"
proof -
  define S where "S = rmw_save s1 s2 s3"
  define B where "B = rmw_body p sz acq rel s1 s2 s3 rs rn"
  define E where "E = mov_to rt (sz = 3) s1 @ rmw_restore s1 s2 s3"
  have P: "P = S @ B @ [Cbnz s3 (- int (length B))] @ E @ [Branch off]"
    by (simp add: P_def rmw_prog_def S_def B_def E_def)
  let ?t = "fold sem S s"
  have init: "runs P (0, s) (int (length S), ?t)"
    using runs_block_at [of P "[]" S "B @ [Cbnz s3 (- int (length B))] @ E @ [Branch off]" s]
    by (simp add: P S_def straight_parts)
  have sv: "saved s1 s2 s3 s ?t" unfolding S_def by (rule save_saved [OF regs(1,3)])
  have ct: "contention ?t = contention s" unfolding S_def by (rule save_frame)
  have disjoint: "{rs, rn} \<inter> {s1, s2, s3} = {}" using regs(2) by auto
  have env': "respects_frame (sp s) (contention ?t)" using env by (simp add: ct)
  have M: "M = interfere (contention ?t) (amem ?t)" by (simp only: save_frame M_def S_def)
  obtain t' where t': "runs P (int (length S), ?t) (int (length S + length B + 1), t')"
    "saved s1 s2 s3 s t'" "excl t' = None" "contention t' = []" "xr t' s1 = old"
    "amem t' = store M (xr s rn) (2 ^ sz) (lse_result p (8 * 2 ^ sz) old (rx s rs))"
    using rmw_loop [OF regs(1) disjoint regs(3,4) p sz narrow apart P [unfolded B_def] refl sv env' M]
    unfolding B_def [symmetric] old_def by blast
  note init t'(1)
  moreover have "runs P (int (length S + length B + 1), t')
      (int (length S + length B + 1 + length E), fold sem E t')"
    using runs_block_at [of P "S @ B @ [Cbnz s3 (- int (length B))]" E "[Branch off]" t']
    by (simp add: P E_def straight_parts ac_simps)
  moreover have "runs P (int (length S + length B + 1 + length E), fold sem E t')
      (int (length P - 1) + off, fold sem E t')"
    by (rule runs_step) (simp add: P nth_append nat_add_distrib)
  ultimately have "runs P (0, s) (int (length P - 1) + off, fold sem E t')"
    by (meson runs_trans)
  moreover have "fold sem E t' = (wx rt old s)\<lparr>amem := amem t', excl := None, contention := []\<rparr>"
    unfolding E_def using t' regs opw_load [OF sz, of old] load_bound_bits [of "2 ^ sz" M]
    by (subst epilogue [OF t'(2) regs(1,3)]) (auto simp: old_def)
  ultimately show ?thesis using t'(6) by simp
qed

section \<open>The emitted words are that program\<close>

lemma length_alu:
  "length (alu_prog p sz s1 s2 s3 rs) =
    (case p of LSE_CAS \<Rightarrow> 0 | LSE_NONE \<Rightarrow> 0
     | LSE_LDSMAX \<Rightarrow> if sz < 2 then 4 else 2 | LSE_LDSMIN \<Rightarrow> if sz < 2 then 4 else 2
     | LSE_LDUMAX \<Rightarrow> 2 | LSE_LDUMIN \<Rightarrow> 2 | _ \<Rightarrow> 1)"
  by (cases p) auto

lemma length_emit_alu: "length (emit_alu d s1 s2 s3) =
    (case d_op d of LSE_CAS \<Rightarrow> 0 | LSE_NONE \<Rightarrow> 0
     | LSE_LDSMAX \<Rightarrow> if d_size d < 2 then 4 else 2 | LSE_LDSMIN \<Rightarrow> if d_size d < 2 then 4 else 2
     | LSE_LDUMAX \<Rightarrow> 2 | LSE_LDUMIN \<Rightarrow> 2 | _ \<Rightarrow> 1)"
  by (cases "d_op d") (simp_all add: emit_alu_def Let_def)

lemma length_emit_rmw:
  "length (emit_rmw_island d island orig) =
     length (emit_alu d 0 0 0) + (if d_rt d = 31 then 0 else 1) + 14"
  by (simp add: emit_rmw_island_def Let_def length_emit_alu)

lemma decode_loop_branch:
  assumes "rt < 32" and "d_op d \<noteq> LSE_CAS" "d_op d \<noteq> LSE_NONE"
  shows "decode (enc_cbnz_w rt (- 2 - of_nat (length (emit_alu d s1 s2 s3)))) =
    Some (Cbnz (unat rt) (- int (length (emit_alu d s1 s2 s3)) - 2))"
  using assms by (cases "d_op d") (simp_all add: length_emit_alu)

definition back_offset :: "u64 \<Rightarrow> u64 \<Rightarrow> nat \<Rightarrow> int" where
  "back_offset island orig n =
     signed_take_bit 25 (uint (ucast (ptr_diff (orig + 4) (island + 4 * of_nat n)) :: u32))"

lemma decode_branch_back [simp]:
  "decode (branch_back island orig n) = Some (Branch (back_offset island orig n))"
  by (simp add: branch_back_def back_offset_def)

text \<open>In range, the branch at word \<open>n\<close> of the island lands on the instruction after the
  patched one.\<close>

definition back_in_range :: "u64 \<Rightarrow> u64 \<Rightarrow> nat \<Rightarrow> bool" where
  "back_in_range island orig n = arm64_branch_in_range (orig + 4 - (island + 4 * of_nat n))"

lemma back_offset_lands:
  assumes "back_in_range island orig n"
  shows "island + 4 * word_of_int (int n + back_offset island orig n) = orig + 4"
proof -
  have "4 * back_offset island orig n = sint (orig + 4 - (island + 4 * of_nat n))"
    unfolding back_offset_def ptr_diff_def using assms
    by (intro in_range_word_offset) (simp add: back_in_range_def)
  then have "(word_of_int (4 * back_offset island orig n) :: u64) =
      orig + 4 - (island + 4 * of_nat n)" by simp
  then have "4 * (word_of_int (back_offset island orig n) :: u64) =
      orig + 4 - (island + 4 * of_nat n)" by simp
  then show ?thesis by (simp add: algebra_simps)
qed

definition lse_regs_ok :: "lse_decoded \<Rightarrow> bool" where
  "lse_regs_ok d \<longleftrightarrow> d_rs d < 32 \<and> d_rt d < 32 \<and> d_rn d < 32 \<and> d_size d < 4 \<and> d_op d \<noteq> LSE_NONE"

lemma and_less: "(x :: u32) AND 0x1F < 32" "(x :: u32) AND 3 < 4"
proof -
  have "x AND 0x1F = take_bit 5 x" "x AND 3 = take_bit 2 x"
    by (simp_all add: take_bit_eq_mask mask_eq_exp_minus_1)
  then show "x AND 0x1F < 32" "x AND 3 < 4"
    using take_bit_nat_less_exp [of 5 "unat x"] take_bit_nat_less_exp [of 2 "unat x"]
    by (simp_all add: word_less_nat_alt unsigned_take_bit_eq)
qed

lemma decode_lse_regs: "decode_lse w = Some d \<Longrightarrow> lse_regs_ok d"
  by (auto simp: decode_lse_def lse_regs_ok_def Let_def lse_opc_def and_less split: if_splits)

lemma decode_emit_rmw:
  assumes ok: "lse_regs_ok d" and cas: "d_op d \<noteq> LSE_CAS"
  obtains s1 s2 s3 where
    "free_regs [s1, s2, s3] {31, unat (d_rs d), unat (d_rt d), unat (d_rn d)}"
    "map decode (emit_rmw_island d island orig) =
     map Some (rmw_prog (d_op d) (unat (d_size d)) (d_acquire d \<noteq> 0) (d_release d \<noteq> 0) s1 s2 s3
       (unat (d_rs d)) (unat (d_rt d)) (unat (d_rn d))
       (back_offset island orig (length (emit_rmw_island d island orig) - 1)))"
proof -
  define m0 where "m0 = reg_bit 31 OR reg_bit (d_rs d) OR reg_bit (d_rn d)"
  define m where "m = (if d_rt d \<noteq> 31 then m0 OR reg_bit (d_rt d) else m0)"
  define s1 where "s1 = pick_scratch m"
  define s2 where "s2 = pick_scratch (m OR reg_bit s1)"
  define s3 where "s3 = pick_scratch ((m OR reg_bit s1) OR reg_bit s2)"
  have "card {r. bit m r} \<le> 4"
    using card_reg_bit [of 31] card_bits_or [of "reg_bit 31" "d_rs d"]
      card_bits_or [of "reg_bit 31 OR reg_bit (d_rs d)" "d_rn d"] card_bits_or [of m0 "d_rt d"]
    by (simp add: m_def m0_def or.assoc)
  then have fr: "free_regs [unat s1, unat s2, unat s3] {r. bit m r}"
    using pick_three [of m] by (simp add: s1_def s2_def s3_def or.assoc)
  have "{r. bit m r} = {31, unat (d_rs d), unat (d_rt d), unat (d_rn d)}"
    using ok by (auto simp: m_def m0_def bit_or_iff lse_regs_ok_def word_less_nat_alt)
  with fr have fr': "free_regs [unat s1, unat s2, unat s3] {31, unat (d_rs d), unat (d_rt d), unat (d_rn d)}"
    by simp
  have lt: "s1 < 32" "s2 < 32" "s3 < 32"
    using fr by (auto simp: free_regs_def word_less_nat_alt)
  have emit: "emit_rmw_island d island orig =
    (let ws = [enc_str_pre s1, enc_str_pre s2, enc_str_pre s3, enc_mrs_nzcv s1, enc_str_pre s1] @
       [enc_ldxr (d_size d) (d_acquire d) s1 (d_rn d)] @ emit_alu d s1 s2 s3 @
       [enc_stxr (d_size d) (d_release d) s3 s2 (d_rn d)] @
       [enc_cbnz_w s3 (- 2 - of_nat (length (emit_alu d s1 s2 s3)))] @
       (if d_rt d \<noteq> 31 then [enc_mov (d_size d = 3) (d_rt d) s1] else []) @
       [enc_ldr_post s1, enc_msr_nzcv s1, enc_ldr_post s3, enc_ldr_post s2, enc_ldr_post s1]
     in ws @ [branch_back island orig (length ws)])"
    unfolding emit_rmw_island_def Let_def m0_def [symmetric] m_def [symmetric]
      s1_def [symmetric] s2_def [symmetric] s3_def [symmetric] by simp
  have "d_size d = 3 \<longleftrightarrow> unat (d_size d) = 3" "d_rt d = 31 \<longleftrightarrow> unat (d_rt d) = 31"
    by (simp_all add: word_unat_eq_iff)
  moreover have "length (alu_prog (d_op d) (unat (d_size d)) (unat s1) (unat s2) (unat s3)
      (unat (d_rs d))) = length (emit_alu d s1 s2 s3)"
    using arg_cong [OF decode_alu_prog [of s1 s2 s3 d], of length] ok lt by (simp add: lse_regs_ok_def)
  ultimately have "map decode (emit_rmw_island d island orig) =
     map Some (rmw_prog (d_op d) (unat (d_size d)) (d_acquire d \<noteq> 0) (d_release d \<noteq> 0)
       (unat s1) (unat s2) (unat s3) (unat (d_rs d)) (unat (d_rt d)) (unat (d_rn d))
       (back_offset island orig (length (emit_rmw_island d island orig) - 1)))"
    using ok lt cas decode_alu_prog [of s1 s2 s3 d] decode_loop_branch [of s3 d s1 s2 s3]
    by (simp add: emit Let_def lse_regs_ok_def rmw_prog_def rmw_save_def rmw_restore_def
       rmw_body_def mov_to_def enc_mov_def)
  with fr' show ?thesis by (rule that)
qed

end
