(* ===== verification/Island_Cas.thy ===== *)
theory Island_Cas
  imports Island_Rmw
begin

text \<open>
  The compare-and-swap island: the words \<^verbatim>\<open>emit_cas_island\<close> emits perform the compare-and-swap
  and branch back.
\<close>

section \<open>The compare-and-swap island\<close>

definition cas_save :: "nat \<Rightarrow> nat \<Rightarrow> insn list" where
  "cas_save s1 s2 = [StrPre s1, StrPre s2, MrsNzcv s1, StrPre s1]"

definition cas_restore :: "nat \<Rightarrow> nat \<Rightarrow> insn list" where
  "cas_restore s1 s2 = [LdrPost s1, MsrNzcv s1, LdrPost s2, LdrPost s1]"

definition cas_loop :: "nat \<Rightarrow> bool \<Rightarrow> bool \<Rightarrow> nat \<Rightarrow> nat \<Rightarrow> nat \<Rightarrow> nat \<Rightarrow> nat \<Rightarrow> insn list" where
  "cas_loop sz acq rel s1 s2 rs rt rn =
     [Ldxr sz acq s2 rn, Cmp (sz = 3) s2 rs, Bcond 1 3, Stxr sz rel s1 rt rn, Cbnz s1 (- 4)]"

definition cas_prog ::
  "nat \<Rightarrow> bool \<Rightarrow> bool \<Rightarrow> nat \<Rightarrow> nat \<Rightarrow> nat \<Rightarrow> nat \<Rightarrow> nat \<Rightarrow> int \<Rightarrow> insn list" where
  "cas_prog sz acq rel s1 s2 rs rt rn off =
     cas_save s1 s2 @ cas_loop sz acq rel s1 s2 rs rt rn @
     (Clrex # mov_to rs (sz = 3) s2 @ cas_restore s1 s2) @ [Branch off]"

definition saved2 :: "nat \<Rightarrow> nat \<Rightarrow> arm \<Rightarrow> arm \<Rightarrow> bool" where
  "saved2 s1 s2 s t \<longleftrightarrow> sp t = sp s - 48 \<and> vr t = vr s \<and>
     (\<forall>r. r \<notin> {s1, s2} \<longrightarrow> xr t r = xr s r) \<and>
     load (amem t) (sp s - 48) 8 = nzcv_word s \<and>
     load (amem t) (sp s - 32) 8 = xr s s2 \<and> load (amem t) (sp s - 16) 8 = xr s s1"

lemma save2_saved:
  assumes "s1 \<noteq> s2" "31 \<notin> {s1, s2}"
  shows "saved2 s1 s2 s (fold sem (cas_save s1 s2) s)"
  using assms
  by (simp add: saved2_def cas_save_def rx_wx xr_wx rx_def load_store_disj load_store_same
     nzcv_word_def unat_minus_one_word)

lemma save2_outside:
  assumes "\<not> in_range b (sp s - 64) 64"
  shows "amem (fold sem (cas_save s1 s2) s) b = amem s b"
proof -
  have "\<not> in_range b (sp s - 16) 8" "\<not> in_range b (sp s - 32) 8" "\<not> in_range b (sp s - 48) 8"
    using assms in_frame [of b "sp s"] by blast+
  then show ?thesis by (simp add: cas_save_def store_outside)
qed

lemma save2_frame: "contention (fold sem (cas_save s1 s2) s) = contention s"
  by (simp add: cas_save_def)

lemma saved2_cong:
  assumes "saved2 s1 s2 s t"
    and "sp t' = sp t" "vr t' = vr t" "\<And>r. r \<notin> {s1, s2} \<Longrightarrow> xr t' r = xr t r"
    and m: "\<And>b. in_range b (sp s - 64) 64 \<Longrightarrow> amem t' b = amem t b"
  shows "saved2 s1 s2 s t'"
proof -
  have "load (amem t') (sp s - 16) 8 = load (amem t) (sp s - 16) 8"
    "load (amem t') (sp s - 32) 8 = load (amem t) (sp s - 32) 8"
    "load (amem t') (sp s - 48) 8 = load (amem t) (sp s - 48) 8"
    using m in_frame by (auto intro!: load_cong)
  with assms show ?thesis by (auto simp: saved2_def)
qed

lemma saved2_wx:
  assumes "saved2 s1 s2 s t" "q \<notin> {s1, s2}"
  shows "saved2 s1 s2 (wx q v s) (wx q v t)"
  using assms by (auto simp: saved2_def xr_wx nzcv_word_def)

lemma restore2_state:
  assumes "saved2 s1 s2 s t" and "s1 \<noteq> s2" "31 \<notin> {s1, s2}"
  shows "fold sem (cas_restore s1 s2) t =
    s\<lparr>amem := amem t, excl := excl t, contention := contention t\<rparr>"
proof -
  have "xr (fold sem (cas_restore s1 s2) t) = xr s"
    using assms by (auto simp: cas_restore_def saved2_def xr_wx add.commute fun_eq_iff)
  moreover have "sp t + 48 = sp s" using assms by (simp add: saved2_def)
  ultimately show ?thesis
    using assms
    by (intro arm.equality) (simp_all add: cas_restore_def saved2_def nzcv_bits rx_wx add.commute)
qed

lemma epilogue2:
  assumes "saved2 s1 s2 s t" "s1 \<noteq> s2" "31 \<notin> {s1, s2}" "q \<notin> {s1, s2}"
    and "v = xr t s2" "opw w v = v"
  shows "fold sem (Clrex # mov_to q w s2 @ cas_restore s1 s2) t =
    (wx q v s)\<lparr>amem := amem t, excl := None, contention := contention t\<rparr>"
proof -
  have "saved2 s1 s2 s (t\<lparr>excl := None\<rparr>)" by (rule saved2_cong [OF assms(1)]) simp_all
  then show ?thesis
    using assms restore2_state [OF saved2_wx [OF _ assms(4), of s "t\<lparr>excl := None\<rparr>" v] assms(2,3)]
    by (simp add: mov_effect)
qed

lemma cmp_widths:
  fixes a b :: u64
  assumes "sz < (4 :: nat)" and old: "take_bit (8 * 2 ^ sz) a = a"
    and narrow: "sz < 2 \<Longrightarrow> take_bit 32 b = take_bit (8 * 2 ^ sz) b"
  shows "sz = 3 \<Longrightarrow> a = b \<longleftrightarrow> a = take_bit (8 * 2 ^ sz) b"
    and "sz \<noteq> 3 \<Longrightarrow> (ucast a :: u32) = ucast b \<longleftrightarrow> a = take_bit (8 * 2 ^ sz) b"
proof -
  show "sz = 3 \<Longrightarrow> a = b \<longleftrightarrow> a = take_bit (8 * 2 ^ sz) b"
    using take_bit_word_eq_self [of 64 b] by simp
  assume "sz \<noteq> 3"
  then have "take_bit 32 b = take_bit (8 * 2 ^ sz) b"
    using narrow sz_cases [OF assms(1)] by (cases "sz = 2") auto
  moreover have "take_bit 32 a = a"
    using opw_load [OF assms(1) old] \<open>sz \<noteq> 3\<close> by (simp add: opw_def)
  moreover have "(ucast a :: u32) = ucast b \<longleftrightarrow> take_bit 32 a = take_bit 32 b"
    by (simp add: word_uint_eq_iff unsigned_ucast_eq unsigned_take_bit_eq)
  ultimately show "(ucast a :: u32) = ucast b \<longleftrightarrow> a = take_bit (8 * 2 ^ sz) b" by simp
qed

text \<open>The load and the comparison at the head of the loop.\<close>

lemma cas_head:
  fixes acq :: bool
  assumes regs: "s1 \<noteq> s2" "{rs, rn, rt} \<inter> {s1, s2} = {}" "31 \<notin> {s1, s2}" "rn \<noteq> 31"
    and sz: "sz < (4 :: nat)"
    and narrow: "sz < 2 \<Longrightarrow> take_bit 32 (rx s rs) = take_bit (8 * 2 ^ sz) (rx s rs)"
    and sv: "saved2 s1 s2 s t"
  defines "t1 \<equiv> fold sem [Ldxr sz acq s2 rn, Cmp (sz = 3) s2 rs] t"
  shows "saved2 s1 s2 s t1 \<and> xr t1 s2 = load (amem t) (xr s rn) (2 ^ sz) \<and>
    (cond_holds 1 t1 \<longleftrightarrow> xr t1 s2 \<noteq> take_bit (8 * 2 ^ sz) (rx s rs)) \<and>
    excl t1 = Some (base t1 rn, 2 ^ sz) \<and> base t1 rn = xr s rn \<and> rx t1 rt = rx s rt \<and>
    contention t1 = contention t \<and> amem t1 = amem t"
proof -
  define u where "u = sem (Ldxr sz acq s2 rn) t"
  have t1: "t1 = sem (Cmp (sz = 3) s2 rs) u" by (simp add: t1_def u_def)
  have base: "base t rn = xr s rn" using sv regs by (auto simp: base_def saved2_def)
  have u: "xr u s2 = load (amem t) (xr s rn) (2 ^ sz)" "\<And>r. r \<noteq> s2 \<Longrightarrow> xr u r = xr t r"
    "sp u = sp t" "vr u = vr t" "amem u = amem t" "excl u = Some (xr s rn, 2 ^ sz)"
    "contention u = contention t"
    using regs by (simp_all add: u_def base xr_wx)
  have fr: "xr t1 = xr u" "sp t1 = sp u" "vr t1 = vr u" "amem t1 = amem u" "excl t1 = excl u"
    "contention t1 = contention u" by (simp_all add: t1)
  have same: "xr u r = xr s r" if "r \<notin> {s1, s2}" for r
    using that u(2) sv by (simp add: saved2_def)
  have rd: "rx u s2 = load (amem t) (xr s rn) (2 ^ sz)" "rx u rs = rx s rs" "rx u rt = rx s rt"
    using regs u(1) same by (auto simp: rx_def)
  have "cond_holds 1 t1 \<longleftrightarrow>
      load (amem t) (xr s rn) (2 ^ sz) \<noteq> take_bit (8 * 2 ^ sz) (rx s rs)"
    using cmp_widths [OF sz load_bound_bits narrow, of "amem t" "xr s rn"]
    by (cases "sz = 3") (simp_all add: t1 rd del: One_nat_def)
  moreover have "saved2 s1 s2 s t1"
    by (rule saved2_cong [OF sv]) (simp_all add: fr u)
  moreover have "base t1 rn = xr s rn" using regs same by (auto simp: base_def fr)
  moreover have "rx t1 rt = rx u rt" by (simp add: rx_def fr)
  ultimately show ?thesis using rd(3) by (simp add: fr u)
qed

text \<open>The loop leaves on the first value that differs, or on the first exclusive store that
  goes through; \<open>fs\<close> is the interference it has seen until then.\<close>

lemma cas_loop_runs:
  fixes acq rel :: bool
  assumes regs: "s1 \<noteq> s2" "{rs, rn, rt} \<inter> {s1, s2} = {}" "31 \<notin> {s1, s2}" "rn \<noteq> 31"
    and sz: "sz < (4 :: nat)"
    and narrow: "sz < 2 \<Longrightarrow> take_bit 32 (rx s rs) = take_bit (8 * 2 ^ sz) (rx s rs)"
    and apart: "disj (xr s rn) (2 ^ sz) (sp s - 64) 64"
    and P: "P = A @ cas_loop sz acq rel s1 s2 rs rt rn @ C" "length A = 4"
    and "saved2 s1 s2 s t" "respects_frame (sp s) (contention t)"
  shows "\<exists>t' fs M. runs P (4, t) (9, t') \<and> saved2 s1 s2 s t' \<and>
    contention t = fs @ contention t' \<and> M = interfere fs (amem t) \<and>
    xr t' s2 = load M (xr s rn) (2 ^ sz) \<and>
    amem t' = (if xr t' s2 = take_bit (8 * 2 ^ sz) (rx s rs)
               then store M (xr s rn) (2 ^ sz) (rx s rt) else M)"
  using assms(10,11)
proof (induction "length (contention t)" arbitrary: t rule: less_induct)
  case less
  define t1 where "t1 = fold sem [Ldxr sz acq s2 rn, Cmp (sz = 3) s2 rs] t"
  have at: "P ! 6 = Bcond 1 3" "P ! 7 = Stxr sz rel s1 rt rn" "P ! 8 = Cbnz s1 (- 4)" "8 < length P"
    using P by (simp_all add: cas_loop_def nth_append)
  have hd: "saved2 s1 s2 s t1" "xr t1 s2 = load (amem t) (xr s rn) (2 ^ sz)"
    "cond_holds 1 t1 \<longleftrightarrow> xr t1 s2 \<noteq> take_bit (8 * 2 ^ sz) (rx s rs)"
    "excl t1 = Some (base t1 rn, 2 ^ sz)" "base t1 rn = xr s rn" "rx t1 rt = rx s rt"
    "contention t1 = contention t" "amem t1 = amem t"
    unfolding t1_def using cas_head [OF regs sz narrow less.prems(1), of acq] by blast+
  have r1: "runs P (4, t) (6, t1)"
    using runs_block_at [of P A "[Ldxr sz acq s2 rn, Cmp (sz = 3) s2 rs]" _ t] P
    by (simp add: cas_loop_def t1_def)
  show ?case
  proof (cases "cond_holds 1 t1")
    case True
    then have "step P (6, t1) = (9, t1)" using at by simp
    then have "runs P (4, t) (9, t1)" using r1 runs_step runs_trans by metis
    with True hd show ?thesis
      by (intro exI [of _ t1] exI [of _ "[]"]) (simp add: interfere_def)
  next
    case False
    define t2 where "t2 = sem (Stxr sz rel s1 rt rn) t1"
    from False have "step P (6, t1) = (7, t1)" "step P (7, t1) = (8, t2)"
      using at by (simp_all add: t2_def)
    then have r2: "runs P (4, t) (8, t2)" using r1 runs_step runs_trans by metis
    show ?thesis
    proof (cases "contention t")
      case Nil
      have t2: "t2 = (wx s1 0 t1)\<lparr>amem := store (amem t) (xr s rn) (2 ^ sz) (rx s rt), excl := None\<rparr>"
        using Nil hd by (simp add: t2_def)
      have "\<not> in_range b (xr s rn) (2 ^ sz)" if "in_range b (sp s - 64) 64" for b
        using that disj_ranges [OF apart] by blast
      then have "saved2 s1 s2 s t2" using hd(8) regs size_lt [OF sz] store_outside
        by (intro saved2_cong [OF hd(1)]) (auto simp: t2 xr_wx)
      moreover have "step P (8, t2) = (9, t2)" using at regs by (simp add: t2 rx_def xr_wx)
      then have "runs P (4, t) (9, t2)" using r2 runs_step runs_trans by metis
      moreover have "xr t2 s2 = xr t1 s2" "contention t2 = []" using Nil regs hd by (auto simp: t2 xr_wx)
      ultimately show ?thesis using hd(2,3) False Nil
        by (intro exI [of _ t2] exI [of _ "[]"]) (simp add: interfere_def t2)
    next
      case (Cons f fs)
      have t2: "t2 = (wx s1 1 t1)\<lparr>amem := f (amem t), contention := fs, excl := None\<rparr>"
        using Cons hd by (simp add: t2_def)
      have sv: "saved2 s1 s2 s t2" using less.prems(2) hd(8) Cons regs
        by (intro saved2_cong [OF hd(1)]) (auto simp: t2 xr_wx)
      have "step P (8, t2) = (4, t2)" using at regs by (simp add: t2 rx_def xr_wx)
      then have r3: "runs P (4, t) (4, t2)" using r2 runs_step runs_trans by metis
      obtain t' gs M where t': "runs P (4, t2) (9, t')" "saved2 s1 s2 s t'"
        "contention t2 = gs @ contention t'" "M = interfere gs (amem t2)"
        "xr t' s2 = load M (xr s rn) (2 ^ sz)"
        "amem t' = (if xr t' s2 = take_bit (8 * 2 ^ sz) (rx s rs)
               then store M (xr s rn) (2 ^ sz) (rx s rt) else M)"
        using less.hyps [of t2, OF _ sv] less.prems(2) Cons by (auto simp: t2)
      have "contention t = (f # gs) @ contention t'" "M = interfere (f # gs) (amem t)"
        using t'(3,4) Cons by (simp_all add: t2 interfere_def)
      with t' runs_trans [OF r3 t'(1)] show ?thesis by blast
    qed
  qed
qed

lemma cas_prog_runs:
  fixes acq rel :: bool and off :: int
  assumes regs: "s1 \<noteq> s2" "{rs, rn, rt} \<inter> {s1, s2} = {}" "31 \<notin> {s1, s2}" "rn \<noteq> 31"
    and sz: "sz < (4 :: nat)"
    and narrow: "sz < 2 \<Longrightarrow> take_bit 32 (rx s rs) = take_bit (8 * 2 ^ sz) (rx s rs)"
    and apart: "disj (xr s rn) (2 ^ sz) (sp s - 64) 64"
    and env: "respects_frame (sp s) (contention s)"
  defines "P \<equiv> cas_prog sz acq rel s1 s2 rs rt rn off"
  defines "M0 \<equiv> amem (fold sem (cas_save s1 s2) s)"
  shows "\<exists>fs gs M. contention s = fs @ gs \<and> M = interfere fs M0 \<and>
    runs P (0, s) (int (length P - 1) + off, (wx rs (load M (xr s rn) (2 ^ sz)) s)
      \<lparr>amem := if load M (xr s rn) (2 ^ sz) = take_bit (8 * 2 ^ sz) (rx s rs)
               then store M (xr s rn) (2 ^ sz) (rx s rt) else M,
       excl := None, contention := gs\<rparr>)"
proof -
  define E where "E = Clrex # mov_to rs (sz = 3) s2 @ cas_restore s1 s2"
  let ?S = "cas_save s1 s2" and ?L = "cas_loop sz acq rel s1 s2 rs rt rn"
  let ?t = "fold sem ?S s"
  have P: "P = ?S @ ?L @ E @ [Branch off]" by (simp add: P_def cas_prog_def E_def)
  have len: "length ?S = 4" "length ?L = 5" by (simp_all add: cas_save_def cas_loop_def)
  have init: "runs P (0, s) (4, ?t)"
    using runs_block_at [of P "[]" ?S "?L @ E @ [Branch off]" s]
    by (simp add: P cas_save_def)
  have sv: "saved2 s1 s2 s ?t" by (rule save2_saved [OF regs(1,3)])
  have env': "respects_frame (sp s) (contention ?t)" using env by (simp only: save2_frame)
  obtain t' fs M where t': "runs P (4, ?t) (9, t')" "saved2 s1 s2 s t'"
    "contention ?t = fs @ contention t'" "M = interfere fs (amem ?t)"
    "xr t' s2 = load M (xr s rn) (2 ^ sz)"
    "amem t' = (if xr t' s2 = take_bit (8 * 2 ^ sz) (rx s rs)
               then store M (xr s rn) (2 ^ sz) (rx s rt) else M)"
    using cas_loop_runs [OF regs sz narrow apart P len(1) sv env'] by blast
  have fin: "fold sem E t' = (wx rs (xr t' s2) s)\<lparr>amem := amem t', excl := None,
      contention := contention t'\<rparr>"
    unfolding E_def using regs opw_load [OF sz load_bound_bits, of M "xr s rn"]
    by (intro epilogue2 [OF t'(2) regs(1,3)]) (auto simp: t'(5))
  note init t'(1)
  moreover have "runs P (9, t') (int (9 + length E), fold sem E t')"
    using runs_block_at [of P "?S @ ?L" E "[Branch off]" t']
    by (simp add: P len E_def mov_to_def cas_restore_def)
  moreover have "runs P (int (9 + length E), fold sem E t') (int (length P - 1) + off, fold sem E t')"
    by (rule runs_step) (simp add: P nth_append len nat_add_distrib)
  ultimately have "runs P (0, s) (int (length P - 1) + off, fold sem E t')"
    by (meson runs_trans)
  moreover have "contention s = fs @ contention t'" using t'(3) by (simp only: save2_frame)
  ultimately show ?thesis
    by (intro exI [of _ fs] exI [of _ "contention t'"] exI [of _ M])
       (simp add: fin M0_def t'(5,6) flip: t'(4))
qed

lemma decode_emit_cas:
  assumes ok: "lse_regs_ok d"
  obtains s1 s2 where
    "free_regs [s1, s2] {31, unat (d_rs d), unat (d_rt d), unat (d_rn d)}"
    "map decode (emit_cas_island d island orig) =
     map Some (cas_prog (unat (d_size d)) (d_acquire d \<noteq> 0) (d_release d \<noteq> 0) s1 s2
       (unat (d_rs d)) (unat (d_rt d)) (unat (d_rn d))
       (back_offset island orig (length (emit_cas_island d island orig) - 1)))"
proof -
  define m where "m = reg_bit 31 OR reg_bit (d_rs d) OR reg_bit (d_rt d) OR reg_bit (d_rn d)"
  define s1 where "s1 = pick_scratch m"
  define s2 where "s2 = pick_scratch (m OR reg_bit s1)"
  have "card {r. bit m r} \<le> 4"
    using card_reg_bit [of 31] card_bits_or [of "reg_bit 31" "d_rs d"]
      card_bits_or [of "reg_bit 31 OR reg_bit (d_rs d)" "d_rt d"]
      card_bits_or [of "reg_bit 31 OR reg_bit (d_rs d) OR reg_bit (d_rt d)" "d_rn d"]
    by (simp add: m_def or.assoc)
  then have fr: "free_regs [unat s1, unat s2] {r. bit m r}"
    using pick_two [of m] by (simp add: s1_def s2_def)
  have "{r. bit m r} = {31, unat (d_rs d), unat (d_rt d), unat (d_rn d)}"
    using ok by (auto simp: m_def bit_or_iff lse_regs_ok_def word_less_nat_alt)
  with fr have fr': "free_regs [unat s1, unat s2] {31, unat (d_rs d), unat (d_rt d), unat (d_rn d)}"
    by simp
  have lt: "s1 < 32" "s2 < 32"
    using fr by (auto simp: free_regs_def word_less_nat_alt)
  have emit: "emit_cas_island d island orig =
    (let ws = [enc_str_pre s1, enc_str_pre s2, enc_mrs_nzcv s1, enc_str_pre s1] @
       [enc_ldxr (d_size d) (d_acquire d) s2 (d_rn d), enc_cmp (d_size d = 3) s2 (d_rs d),
        0x54000000 OR push_bit 5 3 OR COND_NE,
        enc_stxr (d_size d) (d_release d) s1 (d_rt d) (d_rn d), enc_cbnz_w s1 (- 4), 0xD5033F5F] @
       (if d_rs d \<noteq> 31 then [enc_mov (d_size d = 3) (d_rs d) s2] else []) @
       [enc_ldr_post s1, enc_msr_nzcv s1, enc_ldr_post s2, enc_ldr_post s1]
     in ws @ [branch_back island orig (length ws)])"
    unfolding emit_cas_island_def Let_def m_def [symmetric] s1_def [symmetric] s2_def [symmetric]
    by simp
  have "d_size d = 3 \<longleftrightarrow> unat (d_size d) = 3" "d_rs d = 31 \<longleftrightarrow> unat (d_rs d) = 31"
    by (simp_all add: word_unat_eq_iff)
  then have "map decode (emit_cas_island d island orig) =
     map Some (cas_prog (unat (d_size d)) (d_acquire d \<noteq> 0) (d_release d \<noteq> 0) (unat s1) (unat s2)
       (unat (d_rs d)) (unat (d_rt d)) (unat (d_rn d))
       (back_offset island orig (length (emit_cas_island d island orig) - 1)))"
    using ok lt decode_bne
    by (simp add: emit Let_def lse_regs_ok_def cas_prog_def cas_save_def cas_restore_def
       cas_loop_def mov_to_def enc_mov_def del: push_bit_numeral)
  with fr' show ?thesis by (rule that)
qed

end
