(* ===== verification/Isa_Emul_Correct.thy ===== *)
theory Isa_Emul_Correct
  imports Island_Cas
begin

text \<open>
  The correctness of the islands against the architecture's meaning of the instructions they
  replace: the atomics, and the vector bit-clear-and-exclusive-or.
\<close>

section \<open>The atomics\<close>

definition lse_addr :: "lse_decoded \<Rightarrow> arm \<Rightarrow> u64" where
  "lse_addr d s = base s (unat (d_rn d))"

definition lse_bytes :: "lse_decoded \<Rightarrow> nat" where
  "lse_bytes d = 2 ^ unat (d_size d)"

text \<open>The architecture's effect of a decoded atomic on a state whose memory at the moment of the
  access is \<open>M\<close>: one read and at most one write, with nothing in between.\<close>

definition lse_spec :: "lse_decoded \<Rightarrow> mem \<Rightarrow> arm \<Rightarrow> arm" where
  "lse_spec d M s =
    (let a = lse_addr d s; n = lse_bytes d; old = load M a n;
         rs = rx s (unat (d_rs d)); rt = rx s (unat (d_rt d)) in
     if d_op d = LSE_CAS
     then (wx (unat (d_rs d)) old s)
       \<lparr>amem := if old = take_bit (8 * n) rs then store M a n rt else M, excl := None\<rparr>
     else (wx (unat (d_rt d)) old s)
       \<lparr>amem := store M a n (lse_result (d_op d) (8 * n) old rs), excl := None\<rparr>)"

text \<open>What the island needs of the state it is entered in: the base is not the stack pointer,
  the operand lies outside of the 64 bytes the island saves registers in, other observers leave
  these alone, and a sub-word unsigned comparison has a source without stray upper bits.\<close>

definition island_ready :: "lse_decoded \<Rightarrow> arm \<Rightarrow> bool" where
  "island_ready d s \<longleftrightarrow> d_rn d \<noteq> 31 \<and> disj (lse_addr d s) (lse_bytes d) (sp s - 64) 64 \<and>
     respects_frame (sp s) (contention s) \<and>
     (d_op d \<in> {LSE_LDUMAX, LSE_LDUMIN, LSE_CAS} \<longrightarrow> d_size d < 2 \<longrightarrow>
        take_bit 32 (rx s (unat (d_rs d))) = take_bit (8 * lse_bytes d) (rx s (unat (d_rs d))))"

definition emulates :: "u32 list \<Rightarrow> u64 \<Rightarrow> u64 \<Rightarrow> arm \<Rightarrow> arm \<Rightarrow> bool" where
  "emulates ws island orig s s' \<longleftrightarrow>
     (\<exists>P k. map decode ws = map Some P \<and> runs P (0, s) (k, s') \<and>
        island + 4 * word_of_int k = orig + 4)"

lemma emulatesI:
  assumes "map decode ws = map Some P"
    and "runs P (0, s) (int (length P - 1) + back_offset island orig (length ws - 1), s')"
    and "back_in_range island orig (length ws - 1)"
  shows "emulates ws island orig s s'"
proof -
  have "length P = length ws" using assms(1) by (metis length_map)
  then show ?thesis
    using assms back_offset_lands [OF assms(3)] unfolding emulates_def by metis
qed

lemma rmw_emulates:
  assumes ok: "lse_regs_ok d" "d_op d \<noteq> LSE_CAS" and rdy: "island_ready d s"
    and rng: "back_in_range island orig (length (emit_rmw_island d island orig) - 1)"
  shows "\<exists>M0. (\<forall>b. \<not> in_range b (sp s - 64) 64 \<longrightarrow> M0 b = amem s b) \<and>
    emulates (emit_rmw_island d island orig) island orig s
      ((lse_spec d (interfere (contention s) M0) s)\<lparr>contention := []\<rparr>)"
proof -
  obtain s1 s2 s3 where
    fr: "free_regs [s1, s2, s3] {31, unat (d_rs d), unat (d_rt d), unat (d_rn d)}" and
    dec: "map decode (emit_rmw_island d island orig) =
     map Some (rmw_prog (d_op d) (unat (d_size d)) (d_acquire d \<noteq> 0) (d_release d \<noteq> 0) s1 s2 s3
       (unat (d_rs d)) (unat (d_rt d)) (unat (d_rn d))
       (back_offset island orig (length (emit_rmw_island d island orig) - 1)))"
    by (rule decode_emit_rmw [OF ok])
  have rn: "unat (d_rn d) \<noteq> 31" using rdy by (auto simp: island_ready_def word_unat_eq_iff)
  then have addr: "lse_addr d s = xr s (unat (d_rn d))" by (simp add: lse_addr_def base_def)
  have regs: "{unat (d_rs d), unat (d_rn d), unat (d_rt d)} \<inter> {s1, s2, s3} = {}"
    "31 \<notin> {s1, s2, s3}" "distinct [s1, s2, s3]" using fr by (auto simp: free_regs_def)
  have sz: "unat (d_size d) < 4" "d_op d \<noteq> LSE_NONE"
    using ok by (simp_all add: lse_regs_ok_def word_less_nat_alt)
  have st: "disj (xr s (unat (d_rn d))) (2 ^ unat (d_size d)) (sp s - 64) 64"
    "respects_frame (sp s) (contention s)"
    "d_op d = LSE_LDUMAX \<or> d_op d = LSE_LDUMIN \<Longrightarrow> unat (d_size d) < 2 \<Longrightarrow>
      take_bit 32 (rx s (unat (d_rs d))) = take_bit (8 * 2 ^ unat (d_size d)) (rx s (unat (d_rs d)))"
    using rdy by (auto simp: island_ready_def addr lse_bytes_def word_less_nat_alt)
  have spec: "(lse_spec d M s)\<lparr>contention := []\<rparr> =
      (wx (unat (d_rt d)) (load M (xr s (unat (d_rn d))) (2 ^ unat (d_size d))) s)
      \<lparr>amem := store M (xr s (unat (d_rn d))) (2 ^ unat (d_size d))
         (lse_result (d_op d) (8 * 2 ^ unat (d_size d))
           (load M (xr s (unat (d_rn d))) (2 ^ unat (d_size d))) (rx s (unat (d_rs d)))),
       excl := None, contention := []\<rparr>" for M
    using ok(2) by (simp add: lse_spec_def addr lse_bytes_def Let_def)
  have "emulates (emit_rmw_island d island orig) island orig s
      ((lse_spec d (interfere (contention s) (amem (fold sem (rmw_save s1 s2 s3) s))) s)
        \<lparr>contention := []\<rparr>)"
    unfolding spec
    by (rule emulatesI [OF dec rmw_prog_runs [OF regs(3,1,2) rn ok(2) sz(2,1) st(3,1,2)] rng])
  then show ?thesis using save_outside by blast
qed

lemma cas_emulates:
  assumes ok: "lse_regs_ok d" "d_op d = LSE_CAS" and rdy: "island_ready d s"
    and rng: "back_in_range island orig (length (emit_cas_island d island orig) - 1)"
  shows "\<exists>M0 fs gs. (\<forall>b. \<not> in_range b (sp s - 64) 64 \<longrightarrow> M0 b = amem s b) \<and>
    contention s = fs @ gs \<and>
    emulates (emit_cas_island d island orig) island orig s
      ((lse_spec d (interfere fs M0) s)\<lparr>contention := gs\<rparr>)"
proof -
  obtain s1 s2 where
    fr: "free_regs [s1, s2] {31, unat (d_rs d), unat (d_rt d), unat (d_rn d)}" and
    dec: "map decode (emit_cas_island d island orig) =
     map Some (cas_prog (unat (d_size d)) (d_acquire d \<noteq> 0) (d_release d \<noteq> 0) s1 s2
       (unat (d_rs d)) (unat (d_rt d)) (unat (d_rn d))
       (back_offset island orig (length (emit_cas_island d island orig) - 1)))"
    by (rule decode_emit_cas [OF ok(1)])
  have rn: "unat (d_rn d) \<noteq> 31" using rdy by (auto simp: island_ready_def word_unat_eq_iff)
  then have addr: "lse_addr d s = xr s (unat (d_rn d))" by (simp add: lse_addr_def base_def)
  have regs: "{unat (d_rs d), unat (d_rn d), unat (d_rt d)} \<inter> {s1, s2} = {}" "31 \<notin> {s1, s2}"
    "s1 \<noteq> s2" using fr by (auto simp: free_regs_def)
  have sz: "unat (d_size d) < 4" using ok by (simp add: lse_regs_ok_def word_less_nat_alt)
  have st: "disj (xr s (unat (d_rn d))) (2 ^ unat (d_size d)) (sp s - 64) 64"
    "respects_frame (sp s) (contention s)"
    "unat (d_size d) < 2 \<Longrightarrow>
      take_bit 32 (rx s (unat (d_rs d))) = take_bit (8 * 2 ^ unat (d_size d)) (rx s (unat (d_rs d)))"
    using rdy ok(2) by (auto simp: island_ready_def addr lse_bytes_def word_less_nat_alt)
  let ?M0 = "amem (fold sem (cas_save s1 s2) s)"
  have spec: "(lse_spec d M s)\<lparr>contention := gs\<rparr> =
      (wx (unat (d_rs d)) (load M (xr s (unat (d_rn d))) (2 ^ unat (d_size d))) s)
      \<lparr>amem := if load M (xr s (unat (d_rn d))) (2 ^ unat (d_size d)) =
                 take_bit (8 * 2 ^ unat (d_size d)) (rx s (unat (d_rs d)))
               then store M (xr s (unat (d_rn d))) (2 ^ unat (d_size d)) (rx s (unat (d_rt d)))
               else M,
       excl := None, contention := gs\<rparr>" for M gs
    using ok(2) by (simp add: lse_spec_def addr lse_bytes_def Let_def)
  obtain fs gs where "contention s = fs @ gs"
    "emulates (emit_cas_island d island orig) island orig s
      ((lse_spec d (interfere fs ?M0) s)\<lparr>contention := gs\<rparr>)"
    using cas_prog_runs [OF regs(3,1,2) rn sz st(3) st(1,2)] emulatesI [OF dec _ rng]
    unfolding spec by blast
  then show ?thesis using save2_outside by blast
qed


definition demo_state :: arm where
  "demo_state = \<lparr>xr = (\<lambda>r. if r = 0 then 0x1000 else 7), sp = 0x8000, nf = True, zf = False,
     cf = True, vf = False, vr = (\<lambda>_. 0), amem = (\<lambda>_. 5), excl = None,
     contention = [\<lambda>m. m(0x1000 := 9)]\<rparr>"

definition demo_lse :: lse_decoded where
  "demo_lse = \<lparr>d_op = LSE_LDADD, d_size = 2, d_acquire = 0, d_release = 0, d_rs = 1, d_rt = 2, d_rn = 0\<rparr>"


section \<open>The vector instruction\<close>

definition bcax_spec :: "nat \<Rightarrow> nat \<Rightarrow> nat \<Rightarrow> nat \<Rightarrow> arm \<Rightarrow> arm" where
  "bcax_spec vd vn vm va s =
     s\<lparr>vr := (vr s)(vd := vr s vn XOR (vr s vm AND NOT (vr s va)))\<rparr>"

lemma decode_bcax_regs:
  assumes "decode_bcax w = Some (vd, vn, vm, va)"
  shows "vd < 32 \<and> vn < 32 \<and> vm < 32 \<and> va < 32"
  using assms by (auto simp: decode_bcax_def and_less split: if_splits)

lemma pick_vtmp_free:
  assumes "card {r. bit m r} < 32"
  shows "\<not> bit m (unat (pick_vtmp m)) \<and> pick_vtmp m < 32"
proof -
  have "\<exists>r < 32. \<not> bit m r"
  proof (rule ccontr)
    assume "\<not> ?thesis"
    then have "{..<32} \<subseteq> {r. bit m r}" by auto
    moreover have "finite {r. bit m r}"
      by (rule finite_subset [of _ "{..<32}"]) (auto dest: bit_imp_le_length)
    ultimately have "card {..<32 :: nat} \<le> card {r. bit m r}" by (rule card_mono [rotated])
    with assms show False by simp
  qed
  then have "List.find (mask_free m) (rev [0..<32]) \<noteq> None"
    unfolding find_None_iff set_rev set_upt by (auto simp: mask_free_bit)
  then obtain r where r: "List.find (mask_free m) (rev [0..<32]) = Some r" by blast
  then have "mask_free m r" "r \<in> {0..<32}" using find_SomeD [OF r] by auto
  then show ?thesis
    using r by (simp add: pick_vtmp_def mask_free_bit unat_of_nat word_less_nat_alt)
qed

lemma ucast_halves:
  fixes v :: "128 word"
  shows "ucast (ucast v :: u64) OR push_bit 64 (ucast (ucast (drop_bit 64 v) :: u64)) = v"
  by (rule bit_eqI) (auto simp: bit_simps)

lemma bcax_push_pop:
  assumes "vt \<notin> {vd, vn, vm, va}"
  shows "fold sem [StrQPre vt, VBic vt vm va, VEor vd vn vt, LdrQPost vt] s =
    (bcax_spec vd vn vm va s)\<lparr>amem := amem (sem (StrQPre vt) s)\<rparr>"
proof -
  have "load (amem (sem (StrQPre vt) s)) (sp s - 16) 8 = ucast (vr s vt)"
    "load (amem (sem (StrQPre vt) s)) (sp s - 8) 8 = ucast (drop_bit 64 (vr s vt))"
    by (simp_all add: load_store_disj load_store_same)
  then show ?thesis using assms
    by (auto simp: bcax_spec_def ucast_halves fun_eq_iff intro!: arm.equality)
qed

lemma push_outside:
  assumes "\<not> in_range b (sp s - 16) 16"
  shows "amem (sem (StrQPre vt) s) b = amem s b"
proof -
  have "\<not> in_range b (sp s - 16) 8" "\<not> in_range b (sp s - 8) 8"
    using assms in_range_sub [of b "sp s - 16" 0 8 16] in_range_sub [of b "sp s - 16" 8 8 16]
    by auto
  then show ?thesis by (simp add: store_outside)
qed

lemma straight_island:
  assumes "map decode ws = map Some B" "list_all straight B"
    and "back_in_range island orig (length ws)"
  shows "emulates (ws @ [branch_back island orig (length ws)]) island orig s (fold sem B s)"
proof -
  have len: "length B = length ws" using assms(1) by (metis length_map)
  let ?P = "B @ [Branch (back_offset island orig (length ws))]"
  have "runs ?P (0, s) (int (length B), fold sem B s)"
    using runs_block_at [of ?P "[]" B _ s] assms(2) by simp
  moreover have "runs ?P (int (length B), fold sem B s)
      (int (length B) + back_offset island orig (length ws), fold sem B s)"
    by (rule runs_step) (simp add: nth_append)
  ultimately have "runs ?P (0, s) (int (length B) + back_offset island orig (length ws), fold sem B s)"
    by (rule runs_trans)
  then show ?thesis using assms by (intro emulatesI [where P = ?P]) (simp_all add: len)
qed



text \<open>the remaining operand combination. With one register as destination, first source and
  third source the island yields zero, where the instruction yields \<open>vn XOR (vm AND NOT va)\<close>.\<close>

lemma bcax_island_aliased:
  assumes "vd < 32" "vm < 32" "back_in_range island orig 2"
  shows "emulates (emit_bcax_island vd vd vm vd island orig) island orig s
    (s\<lparr>vr := (vr s)(unat vd := 0)\<rparr>)"
proof -
  let ?B = "[VBic (unat vd) (unat vm) (unat vd), VEor (unat vd) (unat vd) (unat vd)]"
  let ?ws = "[enc_neon_bic vd vm vd, enc_neon_eor vd vd vd]"
  have "fold sem ?B s = s\<lparr>vr := (vr s)(unat vd := 0)\<rparr>"
    by (auto simp: fun_eq_iff intro!: arm.equality)
  moreover have "emulates (?ws @ [branch_back island orig (length ?ws)]) island orig s (fold sem ?B s)"
    using assms by (intro straight_island) (simp_all add: numeral_2_eq_2)
  ultimately show ?thesis by (simp add: emit_bcax_island_def)
qed

theorem bcax_island_aliased_witness:
  "emulates (emit_bcax_island 1 1 3 1 0x20000 0x4000) 0x20000 0x4000
     (demo_state\<lparr>vr := (\<lambda>_. 6)\<rparr>) (demo_state\<lparr>vr := (\<lambda>_. 6)(1 := 0)\<rparr>) \<and>
   vr (bcax_spec 1 1 3 1 (demo_state\<lparr>vr := (\<lambda>_. 6)\<rparr>)) 1 = 6"
  using bcax_island_aliased [of 1 3 "0x20000" "0x4000" "demo_state\<lparr>vr := (\<lambda>_. 6)\<rparr>"]
  by (simp add: back_in_range_def arm64_branch_in_range_def sint_signed_drop_bit_eq bcax_spec_def)

end
