(* ===== verification/Isa_Emul_Pass.thy ===== *)
theory Isa_Emul_Pass
  imports Isa_Emul_Correct
begin

text \<open>
  The pass \<^verbatim>\<open>isa_emul_patch\<close>: what it changes in the code and in the island pool, and the margin
  the way back from an island needs.
\<close>

section \<open>Lengths\<close>

lemma length_emit_island:
  "1 \<le> length (emit_island d island orig)" "length (emit_island d island orig) \<le> 19"
proof -
  have "length (emit_cas_island d island orig) = (if d_rs d = 31 then 15 else 16)"
    by (simp add: emit_cas_island_def Let_def)
  moreover have "length (emit_alu d 0 0 0) \<le> 4"
    by (simp add: length_emit_alu split: lse_op.splits)
  ultimately show "1 \<le> length (emit_island d island orig)" "length (emit_island d island orig) \<le> 19"
    by (auto simp: emit_island_def length_emit_rmw)
qed

lemma length_emit_bcax:
  "length (emit_bcax_island vd vn vm va island orig) \<in> {3, 5}"
  by (simp add: emit_bcax_island_def Let_def)

section \<open>The branch to an island\<close>

text \<open>Addresses of instructions.\<close>

definition word_aligned :: "u64 \<Rightarrow> bool" where
  "word_aligned a \<longleftrightarrow> a AND 3 = 0"

lemma word_aligned_unat: "word_aligned a \<longleftrightarrow> 4 dvd unat a"
proof -
  have "a AND 3 = take_bit 2 a" by (simp add: take_bit_eq_mask mask_eq_exp_minus_1)
  then have "word_aligned a \<longleftrightarrow> unat (take_bit 2 a) = 0"
    by (simp only: word_aligned_def unsigned_eq_0_iff)
  also have "unat (take_bit 2 a) = unat a mod 4"
    by (simp only: unsigned_take_bit_eq) (simp add: take_bit_eq_mod)
  finally show ?thesis by (simp add: dvd_eq_mod_eq_0)
qed

lemma word_aligned_add: "word_aligned a \<Longrightarrow> word_aligned (a + 4 * of_nat n)"
  by (auto simp: word_aligned_unat unat_word_ariths unat_of_nat mod_mult_right_eq
      intro!: dvd_mod dvd_add)

lemma word_aligned_add4: "word_aligned a \<Longrightarrow> word_aligned (a + 4)"
  using word_aligned_add [of a 1] by simp

lemma word_aligned_diff: "word_aligned a \<Longrightarrow> word_aligned b \<Longrightarrow> word_aligned (a - b)"
  by (auto simp: word_aligned_unat unat_sub_if' intro: dvd_diff_nat dvd_add)

lemma branch_reaches:
  assumes "island_in_b_range island pc" "word_aligned island" "word_aligned pc"
  shows "branch_target pc (enc_b (ucast (ptr_diff island pc))) = island"
proof -
  have "arm64_branch_in_range (island - pc)"
    using assms(1) word_aligned_diff [OF assms(2,3)]
    by (auto simp: arm64_branch_in_range_def island_in_b_range_def ptr_diff_def word_aligned_def Let_def)
  then have "branch_displacement (enc_b (ucast (ptr_diff island pc))) = sint (island - pc)"
    unfolding branch_displacement_enc ptr_diff_def by (rule in_range_word_offset)
  then show ?thesis by (simp add: branch_target_def)
qed

lemma enc_b_not_atomic: "decode_lse (enc_b w) = None" "decode_bcax (enc_b w) = None"
proof -
  have b: "bit (enc_b w) 28" "\<not> bit (enc_b w) 29" "\<not> bit (enc_b w) 31"
    by (simp_all add: enc_b_def bit_or_iff bit_and_iff)
  have "enc_b w AND 0x3F200C00 \<noteq> 0x38200000"
  proof
    assume "enc_b w AND 0x3F200C00 = 0x38200000"
    then have "bit (enc_b w AND 0x3F200C00) 29 = bit (0x38200000 :: u32) 29" by simp
    then show False using b by (simp add: bit_and_iff)
  qed
  moreover have "enc_b w AND 0x3FA07C00 \<noteq> 0x08A07C00"
  proof
    assume "enc_b w AND 0x3FA07C00 = 0x08A07C00"
    then have "bit (enc_b w AND 0x3FA07C00) 28 = bit (0x08A07C00 :: u32) 28" by simp
    then show False using b by (simp add: bit_and_iff)
  qed
  moreover have "enc_b w AND 0xFFE08000 \<noteq> 0xCE200000"
  proof
    assume "enc_b w AND 0xFFE08000 = 0xCE200000"
    then have "bit (enc_b w AND 0xFFE08000) 31 = bit (0xCE200000 :: u32) 31" by simp
    then show False using b by (simp add: bit_and_iff)
  qed
  ultimately show "decode_lse (enc_b w) = None" "decode_bcax (enc_b w) = None"
    by (simp_all add: decode_lse_def decode_bcax_def)
qed

section \<open>The loop\<close>

text \<open>The island that an instruction word at an address needs, and the words that the pass may
  leave in its place: itself, or a branch to such an island of the pool.\<close>

definition island_for :: "u32 \<Rightarrow> u64 \<Rightarrow> u64 \<Rightarrow> u32 list \<Rightarrow> bool" where
  "island_for w pc island ws \<longleftrightarrow>
     (case decode_lse w of
        Some d \<Rightarrow> ws = emit_island d island pc
      | None \<Rightarrow> (case decode_bcax w of
          Some (vd, vn, vm, va) \<Rightarrow> ws = emit_bcax_island vd vn vm va island pc
        | None \<Rightarrow> False))"

definition redirected :: "u64 \<Rightarrow> u32 list \<Rightarrow> u64 \<Rightarrow> u32 \<Rightarrow> u32 \<Rightarrow> bool" where
  "redirected pool_base pool pc w w' \<longleftrightarrow>
     (\<exists>pre ws post. pool = pre @ ws @ post \<and>
        island_for w pc (pool_base + 4 * of_nat (length pre)) ws \<and>
        is_branch_imm w' \<and> \<not> branch_links w' \<and>
        branch_target pc w' = pool_base + 4 * of_nat (length pre))"

lemma redirected_mono: "redirected b pool pc w w' \<Longrightarrow> redirected b (pool @ tail) pc w w'"
  unfolding redirected_def by (metis append.assoc)

definition pass_ok :: "u64 \<Rightarrow> u32 list \<Rightarrow> u64 \<Rightarrow> u32 list \<Rightarrow> u32 list \<Rightarrow> bool" where
  "pass_ok b pool pc code code' \<longleftrightarrow> length code' = length code \<and>
     (\<forall>i < length code. code' ! i = code ! i \<or>
        redirected b pool (pc + 4 * of_nat i) (code ! i) (code' ! i))"

lemma pass_ok_refl [simp]: "pass_ok b pool pc code code"
  by (simp add: pass_ok_def)

lemma pass_ok_Cons:
  assumes "w' = w \<or> redirected b pool pc w w'" "pass_ok b pool (pc + 4) code code'"
  shows "pass_ok b pool pc (w # code) (w' # code')"
  unfolding pass_ok_def
proof (intro conjI allI impI)
  show "length (w' # code') = length (w # code)" using assms(2) by (simp add: pass_ok_def)
  fix i assume "i < length (w # code)"
  then show "(w' # code') ! i = (w # code) ! i \<or>
      redirected b pool (pc + 4 * of_nat i) ((w # code) ! i) ((w' # code') ! i)"
    using assms by (cases i) (auto simp: pass_ok_def algebra_simps)
qed

definition patches :: "u32 list \<Rightarrow> u32 list \<Rightarrow> nat" where
  "patches code code' = length (filter (\<lambda>(w, w'). w' \<noteq> w) (zip code code'))"

lemma patches_Cons [simp]:
  "patches (w # code) (w' # code') = (if w' = w then 0 else 1) + patches code code'"
  by (simp add: patches_def)

lemma patches_refl [simp]: "patches code code = 0"
  by (induction code) (simp_all add: patches_def)

text \<open>What holds of the pass from any of its states on.\<close>

definition loop_post :: "u64 \<Rightarrow> u64 \<Rightarrow> u32 list \<Rightarrow> emul_state \<Rightarrow> u32 list \<times> emul_state \<Rightarrow> bool" where
  "loop_post b pc code st r \<longleftrightarrow> (case r of (code', st') \<Rightarrow>
     (\<exists>tail. es_pool st' = es_pool st @ tail) \<and>
     es_island st' = b + 4 * of_nat (length (es_pool st')) \<and>
     pass_ok b (es_pool st') pc code code' \<and>
     es_patched st' = es_patched st + patches code code')"

lemma loop_post_place:
  assumes "loop_post b (pc + 4) code (place_island st ws) (code', st')"
    and "es_island st = b + 4 * of_nat (length (es_pool st))" "word_aligned b" "word_aligned pc"
    and "island_for w pc (es_island st) ws" "island_in_b_range (es_island st) pc"
  shows "loop_post b pc (w # code) st (enc_b (ucast (ptr_diff (es_island st) pc)) # code', st')"
proof -
  let ?w' = "enc_b (ucast (ptr_diff (es_island st) pc))"
  have "?w' \<noteq> w"
    using assms(5) enc_b_not_atomic [of "ucast (ptr_diff (es_island st) pc)"]
    by (auto simp: island_for_def)
  moreover have "redirected b (es_pool st @ ws @ tail) pc w ?w'" for tail
    unfolding redirected_def
    by (rule exI [of _ "es_pool st"], rule exI [of _ ws], rule exI [of _ tail])
       (use assms word_aligned_add in \<open>auto simp: is_branch_imm_def intro!: branch_reaches\<close>)
  ultimately show ?thesis
    using assms(1) by (auto simp: loop_post_def place_island_def intro!: pass_ok_Cons)
qed

lemma loop_post_keep:
  assumes "loop_post b (pc + 4) code st (code', st')"
  shows "loop_post b pc (w # code) st (w # code', st')"
  using assms by (auto simp: loop_post_def intro: pass_ok_Cons)

lemma loop_post_stop:
  assumes "es_island st = b + 4 * of_nat (length (es_pool st))"
  shows "loop_post b pc code st (code, st)"
  using assms by (simp add: loop_post_def)

lemma emul_loop_post:
  assumes "es_island st = b + 4 * of_nat (length (es_pool st))" "word_aligned b" "word_aligned pc"
  shows "loop_post b pc code st (emul_loop pool_end pc code st)"
  using assms
proof (induction code arbitrary: pc st)
  case Nil
  then show ?case by (simp add: loop_post_stop)
next
  case (Cons w code)
  have al: "word_aligned (pc + 4)" using Cons.prems(3) by (rule word_aligned_add4)
  obtain kc ks where k: "emul_loop pool_end (pc + 4) code st = (kc, ks)" by fastforce
  have keep: "loop_post b pc (w # code) st (w # kc, ks)"
    using Cons.IH [OF Cons.prems(1,2) al] k by (intro loop_post_keep) simp
  have stop: "loop_post b pc (w # code) st (w # code, st)"
    using Cons.prems(1) by (rule loop_post_stop)
  have place: "loop_post b pc (w # code) st
      (case emul_loop pool_end (pc + 4) code (place_island st ws) of
         (code', st') \<Rightarrow> (enc_b (ucast (ptr_diff (es_island st) pc)) # code', st'))"
    if "island_for w pc (es_island st) ws" "island_in_b_range (es_island st) pc" for ws
  proof -
    have "es_island (place_island st ws) = b + 4 * of_nat (length (es_pool (place_island st ws)))"
      using Cons.prems(1) by (simp add: place_island_def algebra_simps)
    from Cons.IH [OF this Cons.prems(2) al] show ?thesis
      by (cases "emul_loop pool_end (pc + 4) code (place_island st ws)")
         (simp add: loop_post_place [OF _ Cons.prems that])
  qed
  show ?case
  proof (cases "decode_lse w")
    case (Some d)
    have "length (emit_island d (es_island st) pc) \<noteq> 0"
      using length_emit_island(1) [of d "es_island st" pc] by auto
    then show ?thesis
      using Some stop keep place [of "emit_island d (es_island st) pc"]
      by (simp add: Let_def k island_for_def)
  next
    case None
    show ?thesis
    proof (cases "decode_bcax w")
      case None
      then show ?thesis using \<open>decode_lse w = None\<close> keep by (simp add: Let_def k)
    next
      case (Some q)
      obtain vd vn vm va where q: "q = (vd, vn, vm, va)" by (cases q) auto
      then show ?thesis
        using Some None stop keep place [of "emit_bcax_island vd vn vm va (es_island st) pc"]
        by (simp add: Let_def k island_for_def)
    qed
  qed
qed

section \<open>The way back\<close>

text \<open>The range test of the pass looks at the branch to the island only. The branch back starts at
  the end of the island, so it needs a margin of the island's length: with it, every island of
  the pass satisfies the hypothesis of the emulation theorems.\<close>

lemma back_in_range_margin:
  assumes "word_aligned island" "word_aligned pc" "n \<le> 18"
    and "- 0x02000000 + 2 \<le> sint (ptr_diff island pc)" "sint (ptr_diff island pc) \<le> 0x01FFFFFF - 17"
  shows "back_in_range island pc n"
proof -
  have al: "word_aligned (pc + 4 - (island + 4 * of_nat n))"
    using assms word_aligned_add4 word_aligned_add word_aligned_diff by blast
  define D where "D = sint (island - pc)"
  have D: "D div 4 = sint (ptr_diff island pc)"
    by (simp add: D_def ptr_diff_def sint_signed_drop_bit_eq drop_bit_eq_div)
  have eq: "pc + 4 - (island + 4 * of_nat n) = word_of_int (4 - D - 4 * int n)"
    by (simp add: D_def algebra_simps)
  have b: "D div 4 * 4 \<le> D" "D < D div 4 * 4 + 4" by presburger+
  have "sint (pc + 4 - (island + 4 * of_nat n)) = 4 - D - 4 * int n"
    unfolding eq using assms(3-5) b
    by (simp only: signed_of_int) (simp add: signed_take_bit_int_eq_self flip: D)
  moreover have "- 33554432 \<le> (4 - D - 4 * int n) div 4 \<and> (4 - D - 4 * int n) div 4 < 33554432"
    using assms(3-5) b unfolding D [symmetric] by linarith
  ultimately show ?thesis
    using al
    by (simp add: back_in_range_def arm64_branch_in_range_def word_aligned_def Let_def
        sint_signed_drop_bit_eq drop_bit_eq_div flip: D)
qed

text \<open>Without the margin the way back can be out of reach of a branch.\<close>

lemma back_out_of_range:
  "island_in_b_range (pc + 4 * 0x01FFFFFF) pc \<and> \<not> back_in_range (pc + 4 * 0x01FFFFFF) pc 15"
  by (simp add: island_in_b_range_def back_in_range_def ptr_diff_def arm64_branch_in_range_def
      sint_signed_drop_bit_eq)

section \<open>The pool\<close>

lemma place_island_bound:
  assumes "\<not> es_island st + 4 * of_nat k > pool_end" "unat pool_end + 4 * k < 2 ^ 64"
    and "unat (es_island st) \<le> unat pool_end" "length ws \<le> k"
  shows "unat (es_island (place_island st ws)) \<le> unat pool_end"
proof -
  have "unat (es_island st + 4 * of_nat n) = unat (es_island st) + 4 * n" if "n \<le> k" for n
    using that assms(2,3) by (simp add: unat_word_ariths unat_of_nat mod_mult_right_eq)
  moreover have "unat (es_island st + 4 * of_nat k) \<le> unat pool_end"
    using assms(1) by (simp add: word_less_nat_alt)
  ultimately show ?thesis using assms(4) by (simp add: place_island_def)
qed

lemma emul_loop_bound:
  assumes "unat pool_end + 96 < 2 ^ 64" "unat (es_island st) \<le> unat pool_end"
  shows "unat (es_island (snd (emul_loop pool_end pc code st))) \<le> unat pool_end"
  using assms(2)
proof (induction code arbitrary: pc st)
  case Nil
  then show ?case by simp
next
  case (Cons w code)
  have 24: "unat (es_island (place_island st (emit_island d (es_island st) pc))) \<le> unat pool_end"
    if "\<not> es_island st + 4 * 24 > pool_end" for d
    using place_island_bound [of pool_end st 24] that assms(1) Cons.prems length_emit_island [of d "es_island st" pc] by simp
  have 5: "unat (es_island (place_island st (emit_bcax_island vd vn vm va (es_island st) pc))) \<le> unat pool_end"
    if "\<not> es_island st + 4 * 5 > pool_end" for vd vn vm va
    using place_island_bound [of pool_end st 5] that assms(1) Cons.prems length_emit_bcax [of vd vn vm va "es_island st" pc] by auto
  show ?case
    using Cons.IH Cons.prems 24 5
    by (auto simp: Let_def case_prod_beta split: option.splits)
qed

text \<open>C3: the pass over a code region only ever replaces an atomic or BCAX instruction by a
  branch (without link) whose target is the first word of the island emitted for that very
  instruction, and the island lies whole in the words written to the pool; every other word stays
  as it was. The reported count is the number of replaced words, and the pool pointer advances by
  exactly the words written.\<close>

theorem isa_emul_patch_sound:
  assumes "word_aligned code_addr" "word_aligned pool_ptr"
    and "isa_emul_patch code_addr code pool_ptr pool_end = (code', pool, pool_ptr', n)"
  shows "pass_ok pool_ptr pool code_addr code code' \<and> n = patches code code' \<and>
    pool_ptr' = pool_ptr + 4 * of_nat (length pool)"
  using emul_loop_post [of "\<lparr>es_island = pool_ptr, es_pool = [], es_patched = 0\<rparr>" pool_ptr
      code_addr code pool_end] assms
  by (auto simp: isa_emul_patch_def loop_post_def split: prod.splits)

theorem isa_emul_patch_sound_witness:
  "\<exists>code' pool ptr. isa_emul_patch 0x4000 [0xD503201F, 0xB8210002] 0x20000 0x30000 =
     (code', pool, ptr, 1) \<and> pass_ok 0x20000 pool 0x4000 [0xD503201F, 0xB8210002] code' \<and>
     code' ! 0 = 0xD503201F \<and> code' ! 1 \<noteq> 0xB8210002"
proof -
  obtain code' pool ptr n where r: "isa_emul_patch 0x4000 [0xD503201F, 0xB8210002] 0x20000 0x30000 =
     (code', pool, ptr, n)" by (metis surj_pair)
  have "word_aligned 0x4000" "word_aligned 0x20000" by (simp_all add: word_aligned_def)
  note ok = isa_emul_patch_sound [OF this r]
  moreover have d: "decode_lse 0xD503201F = None" "decode_bcax 0xD503201F = None"
    "decode_lse 0xB8210002 = Some demo_lse" "island_in_b_range 0x20000 0x4004"
    by (simp_all add: decode_lse_def decode_bcax_def demo_lse_def lse_opc_def Let_def
        island_in_b_range_def ptr_diff_def)
  have "n = 1" "code' ! 0 = 0xD503201F"
    using r length_emit_island(1) [of demo_lse "0x20000" "0x4004"]
    by (auto simp: isa_emul_patch_def Let_def d place_island_def split: if_splits)
  moreover have "code' ! 1 \<noteq> 0xB8210002"
  proof
    assume "code' ! 1 = 0xB8210002"
    moreover have "length code' = 2" using ok by (simp add: pass_ok_def)
    ultimately have "code' = [0xD503201F, 0xB8210002]" using \<open>code' ! 0 = 0xD503201F\<close>
      by (intro nth_equalityI) (auto simp: less_2_cases_iff)
    then show False using ok \<open>n = 1\<close> by (simp add: patches_def)
  qed
  moreover have "isa_emul_patch 0x4000 [0xD503201F, 0xB8210002] 0x20000 0x30000 = (code', pool, ptr, 1)"
    using r \<open>n = 1\<close> by (simp only:)
  ultimately show ?thesis by blast
qed

text \<open>C36: the pass never writes past the end of the pool, whatever the code holds: the pool
  pointer it returns is at most the end of the pool.\<close>

theorem isa_emul_patch_pool_bound:
  assumes "unat pool_end + 96 < 2 ^ 64" "pool_ptr \<le> pool_end"
    and "isa_emul_patch code_addr code pool_ptr pool_end = (code', pool, pool_ptr', n)"
  shows "pool_ptr' \<le> pool_end"
  using emul_loop_bound [of pool_end "\<lparr>es_island = pool_ptr, es_pool = [], es_patched = 0\<rparr>"
      code_addr code] assms
  by (auto simp: isa_emul_patch_def word_le_nat_alt split: prod.splits)

theorem isa_emul_patch_pool_bound_witness:
  "\<exists>code' pool ptr. isa_emul_patch 0x4000 [0xB8210002] 0x20000 0x20040 =
     (code', pool, ptr, 0) \<and> ptr \<le> 0x20040"
proof -
  have "decode_lse 0xB8210002 = Some demo_lse"
    by (simp add: decode_lse_def demo_lse_def lse_opc_def Let_def)
  then have "isa_emul_patch 0x4000 [0xB8210002] 0x20000 0x20040 = ([0xB8210002], [], 0x20000, 0)"
    by (simp add: isa_emul_patch_def)
  with isa_emul_patch_pool_bound [OF _ _ this] show ?thesis by simp
qed

end
