(* ===== verification/Input_Queue.thy ===== *)
theory Input_Queue
  imports Machismo_Prelude
begin

text \<open>
  The state of the host input module (\<^verbatim>\<open>src/src/ports/sword3/input.c\<close>) and its event queue, a ring
  buffer in a heap array that grows by doubling. SDL is not part of the repository: its constants
  and device functions are the fields of the record \<open>sdl\<close>. Whether an allocation of a given number
  of bytes succeeds is the argument \<open>alloc\<close> of the operations that allocate. The record of the
  module carries, besides the fields of the C structure, the trace of its outside effects: events
  passed to the callback, events handed out by polling, device handles opened and closed.
\<close>

section \<open>SDL\<close>

datatype sdl_key =
    SDL_SCANCODE_RETURN | SDL_SCANCODE_ESCAPE | SDL_SCANCODE_X | SDL_SCANCODE_Y
  | SDL_SCANCODE_TAB | SDL_SCANCODE_SPACE | SDL_SCANCODE_Q | SDL_SCANCODE_E
  | SDL_SCANCODE_UP | SDL_SCANCODE_DOWN | SDL_SCANCODE_LEFT | SDL_SCANCODE_RIGHT

datatype sdl_button =
    SDL_CONTROLLER_BUTTON_A | SDL_CONTROLLER_BUTTON_B | SDL_CONTROLLER_BUTTON_X
  | SDL_CONTROLLER_BUTTON_Y | SDL_CONTROLLER_BUTTON_BACK | SDL_CONTROLLER_BUTTON_START
  | SDL_CONTROLLER_BUTTON_LEFTSHOULDER | SDL_CONTROLLER_BUTTON_RIGHTSHOULDER
  | SDL_CONTROLLER_BUTTON_DPAD_UP | SDL_CONTROLLER_BUTTON_DPAD_DOWN
  | SDL_CONTROLLER_BUTTON_DPAD_LEFT | SDL_CONTROLLER_BUTTON_DPAD_RIGHT

datatype sdl_axis = SDL_CONTROLLER_AXIS_LEFTX | SDL_CONTROLLER_AXIS_LEFTY

record sdl =
  SDL_NUM_SCANCODES :: int
  SDL_CONTROLLER_BUTTON_MAX :: int
  SDL_CONTROLLER_AXIS_MAX :: int
  scancode_of :: "sdl_key \<Rightarrow> int"
  button_of :: "sdl_button \<Rightarrow> int"
  axis_of :: "sdl_axis \<Rightarrow> int"
  SDL_NumJoysticks :: int
  SDL_IsGameController :: "int \<Rightarrow> bool"
  SDL_GameControllerOpen :: "int \<Rightarrow> nat option"
  SDL_GameControllerGetJoystick :: "nat \<Rightarrow> nat option"
  SDL_JoystickInstanceID :: "nat \<Rightarrow> int"

definition SDL_SCANCODE_UNKNOWN :: int where "SDL_SCANCODE_UNKNOWN = 0"

section \<open>State\<close>

record Sword3InputEvent =
  scancode :: int
  pressed :: bool

record ControllerState =
  controller :: nat
  instance_id :: int
  c_key_refs :: "int \<Rightarrow> u16"
  button_down :: "int \<Rightarrow> bool"
  axis_direction :: "int \<Rightarrow> int"

text \<open>The callback may only poll and query; what it does to the module is the number of events
  it polls when it is given one.\<close>

record Sword3Input =
  controllers :: "ControllerState list"
  key_refs :: "int \<Rightarrow> u16"
  keyboard_down :: "int \<Rightarrow> bool"
  button_map :: "int \<Rightarrow> int"
  axis_negative :: "int \<Rightarrow> int"
  axis_positive :: "int \<Rightarrow> int"
  queue :: "Sword3InputEvent list"
  queue_head :: nat
  queue_count :: nat
  callback :: "(Sword3InputEvent \<Rightarrow> nat) option"
  delivered :: "Sword3InputEvent list"
  taken :: "Sword3InputEvent list"
  opened :: "nat list"
  closed :: "nat list"

datatype input_error = ENOMEM | EOVERFLOW | EPROTO | EIO | EINVAL | SDL_failed

text \<open>An operation returns the new state and the error, if any; \<^const>\<open>None\<close> is the return value 0.\<close>

type_synonym input_result = "Sword3Input \<times> input_error option"

abbreviation queue_capacity :: "Sword3Input \<Rightarrow> nat" where
  "queue_capacity s \<equiv> length (queue s)"

section \<open>Operations of the queue\<close>

definition SIZE_MAX :: nat where "SIZE_MAX = 2 ^ 64 - 1"

text \<open>The size of an event: two 32-bit fields.\<close>

definition sizeof_event :: nat where "sizeof_event = 8"

text \<open>The cells of a fresh array that are not copied to; none of them is read before it is
  written.\<close>

definition blank_event :: Sword3InputEvent where "blank_event = \<lparr>scancode = 0, pressed = False\<rparr>"

text \<open>The loop that doubles the capacity; it is entered with a capacity of at least 1 (the guard
  on 0 only makes the recursion total).\<close>

function grow_capacity :: "nat \<Rightarrow> nat \<Rightarrow> nat" where
  "grow_capacity required new_capacity =
     (if new_capacity < required \<and> 0 < new_capacity then
        if new_capacity > SIZE_MAX div 2 then required
        else grow_capacity required (new_capacity * 2)
      else new_capacity)"
  by auto
termination by (relation "measure (\<lambda>(r, n). r - n)") auto

declare grow_capacity.simps [simp del]

definition reserve_queue :: "(nat \<Rightarrow> bool) \<Rightarrow> nat \<Rightarrow> Sword3Input \<Rightarrow> input_result" where
  "reserve_queue alloc additional s =
    (if additional > SIZE_MAX - queue_count s then (s, Some ENOMEM)
     else
       let required = queue_count s + additional in
       if required > queue_capacity s then
         let old_capacity = queue_capacity s;
             new_capacity = (if old_capacity \<noteq> 0 then (old_capacity * 2) mod 2 ^ 64 else 32);
             new_capacity = (if new_capacity < old_capacity then required else new_capacity);
             new_capacity = grow_capacity required new_capacity
         in if new_capacity > SIZE_MAX div sizeof_event then (s, Some ENOMEM)
            else if \<not> alloc (new_capacity * sizeof_event) then (s, Some ENOMEM)
            else (s\<lparr>queue := map (\<lambda>i. queue s ! ((queue_head s + i) mod old_capacity))
                              [0..<queue_count s] @
                            replicate (new_capacity - queue_count s) blank_event,
                    queue_head := 0\<rparr>, None)
       else (s, None))"

definition push_event :: "Sword3InputEvent \<Rightarrow> Sword3Input \<Rightarrow> Sword3Input" where
  "push_event e s =
     s\<lparr>queue := (queue s)[(queue_head s + queue_count s) mod queue_capacity s := e],
       queue_count := queue_count s + 1\<rparr>"

text \<open>Polling with non-null arguments; \<^const>\<open>None\<close> is the return value 0.\<close>

definition poll_event :: "Sword3Input \<Rightarrow> Sword3Input \<times> Sword3InputEvent option" where
  "poll_event s =
    (if queue_count s = 0 then (s, None)
     else let e = queue s ! queue_head s in
       (s\<lparr>queue_head := (queue_head s + 1) mod queue_capacity s,
          queue_count := queue_count s - 1, taken := taken s @ [e]\<rparr>, Some e))"

definition run_callback :: "Sword3InputEvent \<Rightarrow> Sword3Input \<Rightarrow> Sword3Input" where
  "run_callback e s =
    (case callback s of
       None \<Rightarrow> s
     | Some polls \<Rightarrow> ((\<lambda>t. fst (poll_event t)) ^^ polls e) (s\<lparr>delivered := delivered s @ [e]\<rparr>))"

definition enqueue_reserved :: "int \<Rightarrow> bool \<Rightarrow> Sword3Input \<Rightarrow> Sword3Input" where
  "enqueue_reserved sc p s =
    (let event = \<lparr>scancode = sc, pressed = p\<rparr> in run_callback event (push_event event s))"

section \<open>The queue as a list\<close>

definition contents :: "Sword3Input \<Rightarrow> Sword3InputEvent list" where
  "contents s = map (\<lambda>i. queue s ! ((queue_head s + i) mod queue_capacity s)) [0..<queue_count s]"

definition room :: "Sword3Input \<Rightarrow> nat" where
  "room s = queue_capacity s - queue_count s"

definition queue_inv :: "Sword3Input \<Rightarrow> bool" where
  "queue_inv s \<longleftrightarrow> queue_count s \<le> queue_capacity s \<and>
     (if queue_capacity s = 0 then queue_head s = 0 else queue_head s < queue_capacity s) \<and>
     queue_capacity s \<le> SIZE_MAX div sizeof_event"

text \<open>Every event the module has ever produced, in order.\<close>

definition emitted :: "Sword3Input \<Rightarrow> Sword3InputEvent list" where
  "emitted s = taken s @ contents s"

lemma length_contents [simp]: "length (contents s) = queue_count s"
  by (simp add: contents_def)

lemma ring_index:
  fixes h i j n :: nat
  assumes "i < n" "j < n" "(h + i) mod n = (h + j) mod n"
  shows "i = j"
proof -
  have "(int h + int i) mod int n = (int h + int j) mod int n"
    using assms(3) by (metis of_nat_add of_nat_mod)
  then have d: "int n dvd int i - int j" by (simp add: mod_eq_dvd_iff)
  moreover have "\<bar>int i - int j\<bar> < int n" using assms(1,2) by linarith
  ultimately show ?thesis using dvd_imp_le_int [of "int i - int j" "int n"] by fastforce
qed

lemma push_event_contents:
  assumes "queue_inv s" "0 < room s"
  shows "contents (push_event e s) = contents s @ [e]"
proof (rule nth_equalityI)
  show "length (contents (push_event e s)) = length (contents s @ [e])"
    by (simp add: push_event_def)
  let ?n = "queue_capacity s"
  have n: "queue_count s < ?n" using assms by (simp add: room_def)
  fix i assume "i < length (contents (push_event e s))"
  then have i: "i < queue_count s + 1" by (simp add: push_event_def)
  show "contents (push_event e s) ! i = (contents s @ [e]) ! i"
  proof (cases "i = queue_count s")
    case True
    moreover have "(queue_head s + queue_count s) mod ?n < ?n"
      using n by (intro mod_less_divisor) linarith
    ultimately show ?thesis by (simp add: contents_def push_event_def nth_append)
  next
    case False
    with i have i': "i < queue_count s" by simp
    then have "(queue_head s + queue_count s) mod ?n \<noteq> (queue_head s + i) mod ?n"
      using n ring_index [of "queue_count s" ?n i "queue_head s"] by auto
    then show ?thesis using i' n
      by (simp add: contents_def push_event_def nth_append del: upt_Suc)
  qed
qed

lemma poll_event_Cons:
  assumes "queue_inv s" "contents s = e # es"
  shows "snd (poll_event s) = Some e" "contents (fst (poll_event s)) = es"
proof -
  have c: "queue_count s = Suc (length es)" using arg_cong [OF assms(2), of length] by simp
  have n: "queue_head s < queue_capacity s" "0 < queue_capacity s"
    using assms(1) c by (auto simp: queue_inv_def split: if_splits)
  have e: "(e # es) ! i = queue s ! ((queue_head s + i) mod queue_capacity s)" if "i \<le> length es" for i
    using that c by (simp flip: assms(2) add: contents_def del: upt_Suc)
  show "snd (poll_event s) = Some e" using e [of 0] n c by (simp add: poll_event_def Let_def)
  show "contents (fst (poll_event s)) = es"
  proof (rule nth_equalityI)
    show "length (contents (fst (poll_event s))) = length es" using c by (simp add: poll_event_def Let_def)
    fix i assume "i < length (contents (fst (poll_event s)))"
    then have "i < length es" using c by (simp add: poll_event_def Let_def)
    then show "contents (fst (poll_event s)) ! i = es ! i"
      using e [of "Suc i"] c by (simp add: poll_event_def Let_def contents_def mod_add_left_eq)
  qed
qed

section \<open>Reservation\<close>

lemma grow_capacity_ge: "0 < n \<Longrightarrow> required \<le> grow_capacity required n"
proof (induction required n rule: grow_capacity.induct)
  case (1 required n)
  then show ?case by (subst grow_capacity.simps) auto
qed

lemma reserve_queue_keeps:
  assumes "queue_inv s"
  shows "reserve_queue alloc k s = (s', r) \<Longrightarrow> queue_inv s' \<and> contents s' = contents s \<and>
    (r = None \<longrightarrow> k \<le> room s') \<and> (r \<noteq> None \<longrightarrow> s' = s) \<and>
    s' = s\<lparr>queue := queue s', queue_head := queue_head s'\<rparr>"
proof -
  assume r: "reserve_queue alloc k s = (s', r)"
  define required where "required = queue_count s + k"
  define cap where "cap = (if queue_capacity s \<noteq> 0 then (queue_capacity s * 2) mod 2 ^ 64 else 32)"
  define cap' where "cap' = grow_capacity required (if cap < queue_capacity s then required else cap)"
  show ?thesis
  proof (cases "required > queue_capacity s \<and> r = None")
    case False
    then show ?thesis using assms r
      by (auto simp: reserve_queue_def Let_def room_def required_def split: if_splits)
  next
    case True
    then have req: "required > queue_capacity s" and s': "r = None" "cap' \<le> SIZE_MAX div sizeof_event"
      "s' = s\<lparr>queue := map (\<lambda>i. queue s ! ((queue_head s + i) mod queue_capacity s)) [0..<queue_count s] @
         replicate (cap' - queue_count s) blank_event, queue_head := 0\<rparr>"
      using r True unfolding reserve_queue_def Let_def required_def [symmetric] cap_def [symmetric]
        cap'_def [symmetric]
      by (auto split: if_splits)
    have "queue_capacity s = 0 \<Longrightarrow> cap = 32" by (simp add: cap_def)
    then have "0 < (if cap < queue_capacity s then required else cap)"
      using req by (cases "queue_capacity s") auto
    then have "required \<le> cap'" unfolding cap'_def by (rule grow_capacity_ge)
    then have cap': "queue_count s + k \<le> cap'" by (simp add: required_def)
    then have "contents s' = contents s"
      by (intro nth_equalityI) (simp_all add: s' contents_def nth_append)
    with cap' s' assms show ?thesis by (auto simp: queue_inv_def room_def)
  qed
qed

section \<open>The queue promises a first-in first-out list\<close>

locale fifo =
  fixes ok :: "'s \<Rightarrow> bool" and items :: "'s \<Rightarrow> 'a list" and free :: "'s \<Rightarrow> nat"
    and push :: "'a \<Rightarrow> 's \<Rightarrow> 's" and pop :: "'s \<Rightarrow> 's \<times> 'a option"
  assumes push_law: "ok s \<Longrightarrow> 0 < free s \<Longrightarrow>
      ok (push x s) \<and> items (push x s) = items s @ [x] \<and> Suc (free (push x s)) = free s"
    and pop_Nil: "ok s \<Longrightarrow> items s = [] \<Longrightarrow> pop s = (s, None)"
    and pop_Cons: "ok s \<Longrightarrow> items s = x # xs \<Longrightarrow>
      snd (pop s) = Some x \<and> ok (fst (pop s)) \<and> items (fst (pop s)) = xs \<and>
      free (fst (pop s)) = Suc (free s)"
begin

lemma push_all:
  "ok s \<Longrightarrow> length xs \<le> free s \<Longrightarrow>
    ok (fold push xs s) \<and> items (fold push xs s) = items s @ xs \<and>
    free (fold push xs s) = free s - length xs"
proof (induction xs arbitrary: s)
  case Nil
  then show ?case by simp
next
  case (Cons x xs)
  have p: "ok (push x s)" "items (push x s) = items s @ [x]" "Suc (free (push x s)) = free s"
    using push_law [of s x] Cons.prems by auto
  then have "length xs \<le> free (push x s)" using Cons.prems by simp
  from Cons.IH [OF p(1) this] p(2,3) show ?case by auto
qed

primrec pops :: "nat \<Rightarrow> 's \<Rightarrow> 's \<times> 'a list" where
  "pops 0 s = (s, [])"
| "pops (Suc n) s =
     (case pop s of (s', None) \<Rightarrow> (s', [])
      | (s', Some x) \<Rightarrow> (let (s'', xs) = pops n s' in (s'', x # xs)))"

lemma pops_items:
  "ok s \<Longrightarrow> ok (fst (pops n s)) \<and> snd (pops n s) = take n (items s) \<and>
    items (fst (pops n s)) = drop n (items s)"
proof (induction n arbitrary: s)
  case 0
  then show ?case by simp
next
  case (Suc n)
  show ?case
  proof (cases "items s")
    case Nil
    then show ?thesis using Suc.prems pop_Nil by simp
  next
    case (Cons x xs)
    with pop_Cons [OF Suc.prems Cons] Suc.IH [of "fst (pop s)"] show ?thesis
      by (auto simp: case_prod_beta Let_def split: prod.splits option.splits)
  qed
qed

text \<open>Whatever was queued comes out in the order it went in.\<close>

lemma in_order:
  assumes "ok s" "items s = []" "length xs \<le> free s"
  shows "snd (pops (length xs) (fold push xs s)) = xs"
  using push_all [OF assms(1,3)] pops_items assms(2) by simp

end

lemma poll_event_inv: "queue_inv s \<Longrightarrow> queue_inv (fst (poll_event s))"
  by (auto simp: queue_inv_def poll_event_def Let_def split: if_splits)

lemma push_event_inv: "queue_inv s \<Longrightarrow> 0 < room s \<Longrightarrow> queue_inv (push_event e s)"
  by (auto simp: queue_inv_def push_event_def room_def split: if_splits)

interpretation ring: fifo queue_inv contents room push_event poll_event
proof
  fix s :: Sword3Input and x
  assume ok: "queue_inv s" and r: "0 < room s"
  then show "queue_inv (push_event x s) \<and> contents (push_event x s) = contents s @ [x] \<and>
      Suc (room (push_event x s)) = room s"
    by (simp add: push_event_inv push_event_contents) (simp add: room_def push_event_def)
next
  fix s :: Sword3Input
  assume "queue_inv s" "contents s = []"
  then show "poll_event s = (s, None)"
    using length_contents [of s] by (simp add: poll_event_def)
next
  fix s :: Sword3Input and x xs
  assume ok: "queue_inv s" and c: "contents s = x # xs"
  have "queue_count s = Suc (length xs)" using arg_cong [OF c, of length] by simp
  then have "room (fst (poll_event s)) = Suc (room s)"
    using ok by (auto simp: room_def poll_event_def Let_def queue_inv_def)
  then show "snd (poll_event s) = Some x \<and> queue_inv (fst (poll_event s)) \<and>
      contents (fst (poll_event s)) = xs \<and> room (fst (poll_event s)) = Suc (room s)"
    using poll_event_Cons [OF ok c] poll_event_inv [OF ok] by simp
qed

section \<open>What the callback and a poll leave alone\<close>

text \<open>The fields the queue operations do not touch.\<close>

definition same_keys :: "Sword3Input \<Rightarrow> Sword3Input \<Rightarrow> bool" where
  "same_keys s t \<longleftrightarrow> controllers t = controllers s \<and> key_refs t = key_refs s \<and>
     keyboard_down t = keyboard_down s \<and> button_map t = button_map s \<and>
     axis_negative t = axis_negative s \<and> axis_positive t = axis_positive s \<and>
     callback t = callback s \<and> opened t = opened s \<and> closed t = closed s"

text \<open>A queue operation that adds the events \<open>es\<close> to all that were produced.\<close>

definition queued :: "Sword3InputEvent list \<Rightarrow> Sword3Input \<Rightarrow> Sword3Input \<Rightarrow> bool" where
  "queued es s t \<longleftrightarrow> same_keys s t \<and> queue_inv t \<and> emitted t = emitted s @ es \<and>
     room s \<le> room t + length es"

lemma queued_refl: "queue_inv s \<Longrightarrow> queued [] s s"
  by (simp add: queued_def same_keys_def)

lemma queued_trans: "queued es s t \<Longrightarrow> queued fs t u \<Longrightarrow> queued (es @ fs) s u"
  by (auto simp: queued_def same_keys_def)

lemma queued_poll:
  assumes "queue_inv s"
  shows "queued [] s (fst (poll_event s))"
proof (cases "contents s")
  case Nil
  then show ?thesis using ring.pop_Nil [OF assms] queued_refl [OF assms] by simp
next
  case (Cons e es)
  note l = ring.pop_Cons [OF assms Cons]
  have "taken (fst (poll_event s)) = taken s @ [e]" "same_keys s (fst (poll_event s))"
    using l by (auto simp: poll_event_def Let_def same_keys_def split: if_splits)
  with l Cons show ?thesis by (auto simp: queued_def emitted_def)
qed

lemma queued_polls: "queue_inv s \<Longrightarrow> queued [] s (((\<lambda>t. fst (poll_event t)) ^^ n) s)"
proof (induction n)
  case 0
  then show ?case by (simp add: queued_refl)
next
  case (Suc n)
  then have "queued [] s (((\<lambda>t. fst (poll_event t)) ^^ n) s)" by simp
  moreover from this have "queue_inv (((\<lambda>t. fst (poll_event t)) ^^ n) s)" by (simp add: queued_def)
  ultimately show ?case using queued_trans queued_poll by fastforce
qed

lemma queued_enqueue:
  assumes "queue_inv s" "0 < room s"
  shows "queued [\<lparr>scancode = sc, pressed = p\<rparr>] s (enqueue_reserved sc p s)"
proof -
  define e where "e = \<lparr>scancode = sc, pressed = p\<rparr>"
  have "queued [e] s (push_event e s)"
    using ring.push_law [OF assms, of e]
    by (auto simp: queued_def emitted_def same_keys_def) (simp_all add: push_event_def)
  moreover from this have q: "queue_inv (push_event e s)" by (simp add: queued_def)
  have "queued [] (push_event e s) (run_callback e (push_event e s))"
  proof (cases "callback (push_event e s)")
    case None
    then show ?thesis using queued_refl [OF q] by (simp add: run_callback_def)
  next
    case (Some polls)
    let ?d = "(push_event e s)\<lparr>delivered := delivered (push_event e s) @ [e]\<rparr>"
    have "queued [] (push_event e s) ?d"
      using q by (simp add: queued_def same_keys_def emitted_def contents_def queue_inv_def room_def)
    moreover from this have "queue_inv ?d" by (simp add: queued_def)
    ultimately show ?thesis using queued_trans queued_polls Some
      by (fastforce simp: run_callback_def)
  qed
  ultimately have "queued ([e] @ []) s (run_callback e (push_event e s))" by (rule queued_trans)
  then show ?thesis by (simp add: enqueue_reserved_def e_def Let_def)
qed

lemma queued_reserve:
  assumes "queue_inv s" "reserve_queue alloc k s = (t, r)"
  shows "queue_inv t" "same_keys s t" "emitted t = emitted s" "r = None \<Longrightarrow> k \<le> room t"
    "r \<noteq> None \<Longrightarrow> t = s"
proof -
  have eq: "t = s\<lparr>queue := queue t, queue_head := queue_head t\<rparr>"
    using reserve_queue_keeps [OF assms] by blast
  have "same_keys s (s\<lparr>queue := queue t, queue_head := queue_head t\<rparr>)"
    "taken (s\<lparr>queue := queue t, queue_head := queue_head t\<rparr>) = taken s"
    by (simp_all add: same_keys_def)
  then have tk: "same_keys s t" "taken t = taken s" by (simp_all flip: eq)
  then show "same_keys s t" "emitted t = emitted s"
    using reserve_queue_keeps [OF assms] by (simp_all add: emitted_def)
  show "queue_inv t" "r = None \<Longrightarrow> k \<le> room t" "r \<noteq> None \<Longrightarrow> t = s"
    using reserve_queue_keeps [OF assms] by blast+
qed

end
