(* ===== verification/Input.thy ===== *)
theory Input
  imports Input_Queue
begin

text \<open>
  Model of \<^verbatim>\<open>src/src/ports/sword3/input.c\<close>: keyboard and game-controller events are merged into one
  stream of key presses and releases. Several sources (the keyboard, controller buttons, axes)
  may hold the same key; each key has a global reference count and one per controller, and an
  event is queued only when the global count leaves or reaches zero. A controller is addressed by
  its position in the list, where the C code holds a pointer to the list node.
\<close>

section \<open>Reference counts\<close>

definition AXIS_PRESS_THRESHOLD :: int where "AXIS_PRESS_THRESHOLD = 16000"
definition AXIS_RELEASE_THRESHOLD :: int where "AXIS_RELEASE_THRESHOLD = 10000"

definition valid_scancode :: "sdl \<Rightarrow> int \<Rightarrow> bool" where
  "valid_scancode sdl sc \<longleftrightarrow> sc > SDL_SCANCODE_UNKNOWN \<and> sc < SDL_NUM_SCANCODES sdl"

definition change_global_key :: "sdl \<Rightarrow> (nat \<Rightarrow> bool) \<Rightarrow> int \<Rightarrow> bool \<Rightarrow> Sword3Input \<Rightarrow> input_result" where
  "change_global_key sdl alloc sc p s =
    (if \<not> valid_scancode sdl sc then (s, None)
     else
       let references = key_refs s sc in
       if p then
         if references = - 1 then (s, Some EOVERFLOW)
         else
           (case (if references = 0 then reserve_queue alloc 1 s else (s, None)) of
              (s, Some e) \<Rightarrow> (s, Some e)
            | (s, None) \<Rightarrow>
                let s = s\<lparr>key_refs := (key_refs s)(sc := references + 1)\<rparr> in
                (if key_refs s sc = 1 then enqueue_reserved sc True s else s, None))
       else if references = 0 then (s, None)
       else
         (case (if references = 1 then reserve_queue alloc 1 s else (s, None)) of
            (s, Some e) \<Rightarrow> (s, Some e)
          | (s, None) \<Rightarrow>
              let s = s\<lparr>key_refs := (key_refs s)(sc := references - 1)\<rparr> in
              (if key_refs s sc = 0 then enqueue_reserved sc False s else s, None)))"

definition set_both_refs :: "nat \<Rightarrow> int \<Rightarrow> u16 \<Rightarrow> u16 \<Rightarrow> Sword3Input \<Rightarrow> Sword3Input" where
  "set_both_refs k sc cr gr s =
     s\<lparr>controllers := (controllers s)[k := (controllers s ! k)
          \<lparr>c_key_refs := (c_key_refs (controllers s ! k))(sc := cr)\<rparr>],
       key_refs := (key_refs s)(sc := gr)\<rparr>"

definition change_controller_key ::
  "sdl \<Rightarrow> (nat \<Rightarrow> bool) \<Rightarrow> nat \<Rightarrow> int \<Rightarrow> bool \<Rightarrow> Sword3Input \<Rightarrow> input_result" where
  "change_controller_key sdl alloc k sc p s =
    (if \<not> valid_scancode sdl sc then (s, None)
     else
       let cr = c_key_refs (controllers s ! k) sc; gr = key_refs s sc in
       if p then
         if cr = - 1 \<or> gr = - 1 then (s, Some EOVERFLOW)
         else
           (case (if gr = 0 then reserve_queue alloc 1 s else (s, None)) of
              (s, Some e) \<Rightarrow> (s, Some e)
            | (s, None) \<Rightarrow>
                let s = set_both_refs k sc (cr + 1) (gr + 1) s in
                (if key_refs s sc = 1 then enqueue_reserved sc True s else s, None))
       else if cr = 0 then (s, None)
       else if gr < cr then (s, Some EPROTO)
       else
         (case (if gr = 1 then reserve_queue alloc 1 s else (s, None)) of
            (s, Some e) \<Rightarrow> (s, Some e)
          | (s, None) \<Rightarrow>
              let s = set_both_refs k sc (cr - 1) (gr - 1) s in
              (if key_refs s sc = 0 then enqueue_reserved sc False s else s, None)))"

section \<open>Controllers\<close>

fun find_index :: "int \<Rightarrow> ControllerState list \<Rightarrow> nat option" where
  "find_index i [] = None"
| "find_index i (c # cs) =
     (if instance_id c = i then Some 0 else map_option Suc (find_index i cs))"

definition find_controller :: "Sword3Input \<Rightarrow> int \<Rightarrow> nat option" where
  "find_controller s i = find_index i (controllers s)"

definition close_controller :: "nat \<Rightarrow> Sword3Input \<Rightarrow> Sword3Input" where
  "close_controller h s = s\<lparr>closed := closed s @ [h]\<rparr>"

text \<open>The size in bytes of the list node, which the C code takes from the compiler, is the
  argument \<open>node\<close> to the allocator.\<close>

definition add_controller ::
  "sdl \<Rightarrow> (nat \<Rightarrow> bool) \<Rightarrow> nat \<Rightarrow> int \<Rightarrow> Sword3Input \<Rightarrow> input_result" where
  "add_controller sdl alloc node device_index s =
    (if \<not> SDL_IsGameController sdl device_index then (s, None)
     else
       (case SDL_GameControllerOpen sdl device_index of
          None \<Rightarrow> (s, Some SDL_failed)
        | Some h \<Rightarrow>
            let s = s\<lparr>opened := opened s @ [h]\<rparr> in
            (case SDL_GameControllerGetJoystick sdl h of
               None \<Rightarrow> (close_controller h s, Some EIO)
             | Some j \<Rightarrow>
                 let i = SDL_JoystickInstanceID sdl j in
                 if i < 0 then (close_controller h s, Some SDL_failed)
                 else if find_controller s i \<noteq> None then (close_controller h s, None)
                 else if \<not> alloc node then (close_controller h s, Some ENOMEM)
                 else (s\<lparr>controllers :=
                          \<lparr>controller = h, instance_id = i, c_key_refs = (\<lambda>_. 0),
                           button_down = (\<lambda>_. False), axis_direction = (\<lambda>_. 0)\<rparr> #
                          controllers s\<rparr>, None))))"

text \<open>The scancodes 1 to \<^verbatim>\<open>SDL_NUM_SCANCODES - 1\<close> of the loops.\<close>

definition scancodes :: "sdl \<Rightarrow> int list" where
  "scancodes sdl = [1..SDL_NUM_SCANCODES sdl - 1]"

definition release_controller_key :: "nat \<Rightarrow> int \<Rightarrow> Sword3Input \<Rightarrow> Sword3Input" where
  "release_controller_key k sc s =
    (let owned = c_key_refs (controllers s ! k) sc in
     if owned = 0 then s
     else
       let s = set_both_refs k sc 0 (key_refs s sc - owned) s in
       if key_refs s sc = 0 then enqueue_reserved sc False s else s)"

definition clear_controls :: "ControllerState \<Rightarrow> ControllerState" where
  "clear_controls c = c\<lparr>button_down := (\<lambda>_. False), axis_direction := (\<lambda>_. 0)\<rparr>"

definition release_controller ::
  "sdl \<Rightarrow> (nat \<Rightarrow> bool) \<Rightarrow> nat \<Rightarrow> Sword3Input \<Rightarrow> input_result" where
  "release_controller sdl alloc k s =
    (let owned = (\<lambda>sc. c_key_refs (controllers s ! k) sc) in
     if list_ex (\<lambda>sc. owned sc > key_refs s sc) (scancodes sdl) then (s, Some EPROTO)
     else
       let releases = length (filter (\<lambda>sc. owned sc \<noteq> 0 \<and> owned sc = key_refs s sc) (scancodes sdl)) in
       (case reserve_queue alloc releases s of
          (s, Some e) \<Rightarrow> (s, Some e)
        | (s, None) \<Rightarrow>
            let s = fold (release_controller_key k) (scancodes sdl) s in
            (s\<lparr>controllers := (controllers s)[k := clear_controls (controllers s ! k)]\<rparr>, None)))"

definition remove_controller ::
  "sdl \<Rightarrow> (nat \<Rightarrow> bool) \<Rightarrow> int \<Rightarrow> Sword3Input \<Rightarrow> input_result" where
  "remove_controller sdl alloc i s =
    (case find_controller s i of
       None \<Rightarrow> (s, None)
     | Some k \<Rightarrow>
         (case release_controller sdl alloc k s of
            (s, Some e) \<Rightarrow> (s, Some e)
          | (s, None) \<Rightarrow>
              (close_controller (controller (controllers s ! k))
                 (s\<lparr>controllers := take k (controllers s) @ drop (Suc k) (controllers s)\<rparr>), None)))"

section \<open>Creation and release\<close>

definition set_default_mappings :: "sdl \<Rightarrow> Sword3Input \<Rightarrow> Sword3Input" where
  "set_default_mappings sdl s =
    (let B = button_of sdl; S = scancode_of sdl; A = axis_of sdl in
     s\<lparr>button_map := (\<lambda>_. SDL_SCANCODE_UNKNOWN)
         (B SDL_CONTROLLER_BUTTON_A := S SDL_SCANCODE_RETURN,
          B SDL_CONTROLLER_BUTTON_B := S SDL_SCANCODE_ESCAPE,
          B SDL_CONTROLLER_BUTTON_X := S SDL_SCANCODE_X,
          B SDL_CONTROLLER_BUTTON_Y := S SDL_SCANCODE_Y,
          B SDL_CONTROLLER_BUTTON_BACK := S SDL_SCANCODE_TAB,
          B SDL_CONTROLLER_BUTTON_START := S SDL_SCANCODE_SPACE,
          B SDL_CONTROLLER_BUTTON_LEFTSHOULDER := S SDL_SCANCODE_Q,
          B SDL_CONTROLLER_BUTTON_RIGHTSHOULDER := S SDL_SCANCODE_E,
          B SDL_CONTROLLER_BUTTON_DPAD_UP := S SDL_SCANCODE_UP,
          B SDL_CONTROLLER_BUTTON_DPAD_DOWN := S SDL_SCANCODE_DOWN,
          B SDL_CONTROLLER_BUTTON_DPAD_LEFT := S SDL_SCANCODE_LEFT,
          B SDL_CONTROLLER_BUTTON_DPAD_RIGHT := S SDL_SCANCODE_RIGHT),
       axis_negative := (\<lambda>_. SDL_SCANCODE_UNKNOWN)
         (A SDL_CONTROLLER_AXIS_LEFTX := S SDL_SCANCODE_LEFT,
          A SDL_CONTROLLER_AXIS_LEFTY := S SDL_SCANCODE_UP),
       axis_positive := (\<lambda>_. SDL_SCANCODE_UNKNOWN)
         (A SDL_CONTROLLER_AXIS_LEFTX := S SDL_SCANCODE_RIGHT,
          A SDL_CONTROLLER_AXIS_LEFTY := S SDL_SCANCODE_DOWN)\<rparr>)"

definition release_key :: "int \<Rightarrow> Sword3Input \<Rightarrow> Sword3Input" where
  "release_key sc s =
    (if key_refs s sc \<noteq> 0
     then enqueue_reserved sc False (s\<lparr>key_refs := (key_refs s)(sc := 0)\<rparr>) else s)"

definition sword3_input_release_all :: "sdl \<Rightarrow> (nat \<Rightarrow> bool) \<Rightarrow> Sword3Input \<Rightarrow> input_result" where
  "sword3_input_release_all sdl alloc s =
    (let releases = length (filter (\<lambda>sc. key_refs s sc \<noteq> 0) (scancodes sdl)) in
     case reserve_queue alloc releases s of
       (s, Some e) \<Rightarrow> (s, Some e)
     | (s, None) \<Rightarrow>
         let s = s\<lparr>keyboard_down := (\<lambda>_. False),
                  controllers := map (\<lambda>c. clear_controls (c\<lparr>c_key_refs := (\<lambda>_. 0)\<rparr>)) (controllers s)\<rparr>
         in (fold release_key (scancodes sdl) s, None))"

text \<open>What remains after destruction is the trace: the structure itself is freed.\<close>

definition sword3_input_destroy :: "sdl \<Rightarrow> (nat \<Rightarrow> bool) \<Rightarrow> Sword3Input \<Rightarrow> Sword3Input" where
  "sword3_input_destroy sdl alloc s =
    (let s = fst (sword3_input_release_all sdl alloc s) in
     (fold (\<lambda>c. close_controller (controller c)) (controllers s) s)
       \<lparr>controllers := [], queue := [], queue_head := 0, queue_count := 0\<rparr>)"

definition empty_input :: "(Sword3InputEvent \<Rightarrow> nat) option \<Rightarrow> Sword3Input" where
  "empty_input cb =
     \<lparr>controllers = [], key_refs = (\<lambda>_. 0), keyboard_down = (\<lambda>_. False),
      button_map = (\<lambda>_. 0), axis_negative = (\<lambda>_. 0), axis_positive = (\<lambda>_. 0),
      queue = [], queue_head = 0, queue_count = 0, callback = cb,
      delivered = [], taken = [], opened = [], closed = []\<rparr>"

fun add_controllers ::
  "sdl \<Rightarrow> (nat \<Rightarrow> bool) \<Rightarrow> nat \<Rightarrow> int list \<Rightarrow> Sword3Input \<Rightarrow> input_result" where
  "add_controllers sdl alloc node [] s = (s, None)"
| "add_controllers sdl alloc node (i # is) s =
    (case add_controller sdl alloc node i s of
       (s, Some e) \<Rightarrow> (s, Some e)
     | (s, None) \<Rightarrow> add_controllers sdl alloc node is s)"

text \<open>The left value of the sum is the trace that a failed creation leaves behind; \<open>bytes\<close> is the
  size of the structure.\<close>

definition sword3_input_create ::
  "sdl \<Rightarrow> (nat \<Rightarrow> bool) \<Rightarrow> nat \<Rightarrow> nat \<Rightarrow> (Sword3InputEvent \<Rightarrow> nat) option \<Rightarrow>
   Sword3Input + Sword3Input" where
  "sword3_input_create sdl alloc bytes node cb =
    (if \<not> alloc bytes then Inl (empty_input cb)
     else
       let s = set_default_mappings sdl (empty_input cb) in
       if SDL_NumJoysticks sdl < 0 then Inl (sword3_input_destroy sdl alloc s)
       else
         (case add_controllers sdl alloc node [0..SDL_NumJoysticks sdl - 1] s of
            (s, Some e) \<Rightarrow> Inl (sword3_input_destroy sdl alloc s)
          | (s, None) \<Rightarrow> Inr s))"

section \<open>Events\<close>

definition handle_keyboard ::
  "sdl \<Rightarrow> (nat \<Rightarrow> bool) \<Rightarrow> int \<Rightarrow> bool \<Rightarrow> bool \<Rightarrow> Sword3Input \<Rightarrow> input_result" where
  "handle_keyboard sdl alloc sc p repeat s =
    (if \<not> valid_scancode sdl sc \<or> p \<and> repeat then (s, None)
     else if keyboard_down s sc = p then (s, None)
     else
       (case change_global_key sdl alloc sc p s of
          (s, Some e) \<Rightarrow> (s, Some e)
        | (s, None) \<Rightarrow> (s\<lparr>keyboard_down := (keyboard_down s)(sc := p)\<rparr>, None)))"

definition new_axis_direction :: "int \<Rightarrow> int \<Rightarrow> int" where
  "new_axis_direction old_direction val =
    (let new_direction =
       (if old_direction < 0 \<and> val > - AXIS_RELEASE_THRESHOLD then 0
        else if old_direction > 0 \<and> val < AXIS_RELEASE_THRESHOLD then 0
        else old_direction) in
     if new_direction = 0 then
       if val \<le> - AXIS_PRESS_THRESHOLD then - 1
       else if val \<ge> AXIS_PRESS_THRESHOLD then 1 else 0
     else new_direction)"

definition axis_key :: "Sword3Input \<Rightarrow> int \<Rightarrow> int \<Rightarrow> int" where
  "axis_key s axis direction = (if direction < 0 then axis_negative s axis else axis_positive s axis)"

definition set_axis :: "nat \<Rightarrow> int \<Rightarrow> int \<Rightarrow> Sword3Input \<Rightarrow> Sword3Input" where
  "set_axis k axis d s =
     s\<lparr>controllers := (controllers s)[k := (controllers s ! k)
        \<lparr>axis_direction := (axis_direction (controllers s ! k))(axis := d)\<rparr>]\<rparr>"

definition handle_axis ::
  "sdl \<Rightarrow> (nat \<Rightarrow> bool) \<Rightarrow> int \<Rightarrow> int \<Rightarrow> int \<Rightarrow> Sword3Input \<Rightarrow> input_result" where
  "handle_axis sdl alloc which axis val s =
    (case find_controller s which of
       None \<Rightarrow> (s, None)
     | Some k \<Rightarrow>
         if axis < 0 \<or> axis \<ge> SDL_CONTROLLER_AXIS_MAX sdl then (s, None)
         else
           let old_direction = axis_direction (controllers s ! k) axis;
               new_direction = new_axis_direction old_direction val in
           if new_direction = old_direction then (s, None)
           else
             (case (if old_direction \<noteq> 0
                    then change_controller_key sdl alloc k (axis_key s axis old_direction) False s
                    else (s, None)) of
                (s, Some e) \<Rightarrow> (s, Some e)
              | (s, None) \<Rightarrow>
                  let s = set_axis k axis 0 s in
                  (case (if new_direction \<noteq> 0
                         then change_controller_key sdl alloc k (axis_key s axis new_direction) True s
                         else (s, None)) of
                     (s, Some e) \<Rightarrow> (s, Some e)
                   | (s, None) \<Rightarrow> (set_axis k axis new_direction s, None))))"

definition set_button :: "nat \<Rightarrow> int \<Rightarrow> bool \<Rightarrow> Sword3Input \<Rightarrow> Sword3Input" where
  "set_button k button p s =
     s\<lparr>controllers := (controllers s)[k := (controllers s ! k)
        \<lparr>button_down := (button_down (controllers s ! k))(button := p)\<rparr>]\<rparr>"

definition handle_button ::
  "sdl \<Rightarrow> (nat \<Rightarrow> bool) \<Rightarrow> int \<Rightarrow> int \<Rightarrow> bool \<Rightarrow> Sword3Input \<Rightarrow> input_result" where
  "handle_button sdl alloc which button p s =
    (case find_controller s which of
       None \<Rightarrow> (s, None)
     | Some k \<Rightarrow>
         if button \<ge> 0 \<and> button < SDL_CONTROLLER_BUTTON_MAX sdl then
           if button_down (controllers s ! k) button = p then (s, None)
           else
             (case change_controller_key sdl alloc k (button_map s button) p s of
                (s, Some e) \<Rightarrow> (s, Some e)
              | (s, None) \<Rightarrow> (set_button k button p s, None))
         else (s, None))"

text \<open>The SDL events, by the type tag of the union.\<close>

datatype SDL_Event =
    SDL_KEYDOWN int bool
  | SDL_KEYUP int bool
  | SDL_CONTROLLERDEVICEADDED int
  | SDL_CONTROLLERDEVICEREMOVED int
  | SDL_CONTROLLERBUTTONDOWN int int
  | SDL_CONTROLLERBUTTONUP int int
  | SDL_CONTROLLERAXISMOTION int int int
  | SDL_WINDOWEVENT bool
  | Other_Event

text \<open>The argument of \<^const>\<open>SDL_WINDOWEVENT\<close> tells whether it is the loss of focus. The integer
  result of the C function: 1 consumed, 0 unrelated, -1 error; a null argument is \<^const>\<open>None\<close>.\<close>

definition consumed :: "input_result \<Rightarrow> Sword3Input \<times> int" where
  "consumed r = (case r of (s, Some e) \<Rightarrow> (s, - 1) | (s, None) \<Rightarrow> (s, 1))"

definition sword3_input_handle_event ::
  "sdl \<Rightarrow> (nat \<Rightarrow> bool) \<Rightarrow> nat \<Rightarrow> SDL_Event option \<Rightarrow> Sword3Input \<Rightarrow> Sword3Input \<times> int" where
  "sword3_input_handle_event sdl alloc node event s =
    (case event of
       None \<Rightarrow> (s, - 1)
     | Some (SDL_KEYDOWN sc repeat) \<Rightarrow> consumed (handle_keyboard sdl alloc sc True repeat s)
     | Some (SDL_KEYUP sc repeat) \<Rightarrow> consumed (handle_keyboard sdl alloc sc False repeat s)
     | Some (SDL_CONTROLLERDEVICEADDED which) \<Rightarrow> consumed (add_controller sdl alloc node which s)
     | Some (SDL_CONTROLLERDEVICEREMOVED which) \<Rightarrow> consumed (remove_controller sdl alloc which s)
     | Some (SDL_CONTROLLERBUTTONDOWN which button) \<Rightarrow>
         consumed (handle_button sdl alloc which button True s)
     | Some (SDL_CONTROLLERBUTTONUP which button) \<Rightarrow>
         consumed (handle_button sdl alloc which button False s)
     | Some (SDL_CONTROLLERAXISMOTION which axis val) \<Rightarrow>
         consumed (handle_axis sdl alloc which axis val s)
     | Some (SDL_WINDOWEVENT focus_lost) \<Rightarrow>
         if \<not> focus_lost then (s, 0) else consumed (sword3_input_release_all sdl alloc s)
     | Some Other_Event \<Rightarrow> (s, 0))"

text \<open>The new state, the return value and the event written through the out-parameter; null
  arguments are \<^const>\<open>None\<close> and a false \<open>event_given\<close>.\<close>

definition sword3_input_poll ::
  "Sword3Input option \<Rightarrow> bool \<Rightarrow> Sword3Input option \<times> int \<times> Sword3InputEvent option" where
  "sword3_input_poll input event_given =
    (case input of
       None \<Rightarrow> (None, - 1, None)
     | Some s \<Rightarrow>
         if \<not> event_given then (Some s, - 1, None)
         else (case poll_event s of
                 (s, None) \<Rightarrow> (Some s, 0, None)
               | (s, Some e) \<Rightarrow> (Some s, 1, Some e)))"

definition sword3_input_is_down :: "sdl \<Rightarrow> Sword3Input option \<Rightarrow> int \<Rightarrow> bool" where
  "sword3_input_is_down sdl input sc =
    (case input of None \<Rightarrow> False | Some s \<Rightarrow> valid_scancode sdl sc \<and> key_refs s sc \<noteq> 0)"

section \<open>Mappings\<close>

definition owned_by_controllers :: "Sword3Input \<Rightarrow> int \<Rightarrow> nat" where
  "owned_by_controllers s sc = sum_list (map (\<lambda>c. unat (c_key_refs c sc)) (controllers s))"

definition release_owned_key :: "int \<Rightarrow> Sword3Input \<Rightarrow> Sword3Input" where
  "release_owned_key sc s =
    (let owned = owned_by_controllers s sc;
         s = s\<lparr>controllers := map (\<lambda>c. c\<lparr>c_key_refs := (c_key_refs c)(sc := 0)\<rparr>) (controllers s),
               key_refs := (key_refs s)(sc := key_refs s sc - of_nat owned)\<rparr>
     in if owned \<noteq> 0 \<and> key_refs s sc = 0 then enqueue_reserved sc False s else s)"

definition release_controller_inputs :: "sdl \<Rightarrow> (nat \<Rightarrow> bool) \<Rightarrow> Sword3Input \<Rightarrow> input_result" where
  "release_controller_inputs sdl alloc s =
    (let owned = owned_by_controllers s in
     if list_ex (\<lambda>sc. owned sc > unat (key_refs s sc)) (scancodes sdl) then (s, Some EPROTO)
     else
       let releases = length (filter (\<lambda>sc. owned sc \<noteq> 0 \<and> owned sc = unat (key_refs s sc))
                                (scancodes sdl)) in
       (case reserve_queue alloc releases s of
          (s, Some e) \<Rightarrow> (s, Some e)
        | (s, None) \<Rightarrow>
            let s = fold release_owned_key (scancodes sdl) s
            in (s\<lparr>controllers := map clear_controls (controllers s)\<rparr>, None)))"

definition mappable :: "sdl \<Rightarrow> int \<Rightarrow> bool" where
  "mappable sdl sc \<longleftrightarrow> sc = SDL_SCANCODE_UNKNOWN \<or> valid_scancode sdl sc"

definition sword3_input_map_button ::
  "sdl \<Rightarrow> (nat \<Rightarrow> bool) \<Rightarrow> int \<Rightarrow> int \<Rightarrow> Sword3Input \<Rightarrow> input_result" where
  "sword3_input_map_button sdl alloc button sc s =
    (if button < 0 \<or> button \<ge> SDL_CONTROLLER_BUTTON_MAX sdl \<or> \<not> mappable sdl sc
     then (s, Some EINVAL)
     else
       (case release_controller_inputs sdl alloc s of
          (s, Some e) \<Rightarrow> (s, Some e)
        | (s, None) \<Rightarrow> (s\<lparr>button_map := (button_map s)(button := sc)\<rparr>, None)))"

definition sword3_input_map_axis ::
  "sdl \<Rightarrow> (nat \<Rightarrow> bool) \<Rightarrow> int \<Rightarrow> int \<Rightarrow> int \<Rightarrow> Sword3Input \<Rightarrow> input_result" where
  "sword3_input_map_axis sdl alloc axis negative positive s =
    (if axis < 0 \<or> axis \<ge> SDL_CONTROLLER_AXIS_MAX sdl \<or> \<not> mappable sdl negative \<or>
        \<not> mappable sdl positive
     then (s, Some EINVAL)
     else
       (case release_controller_inputs sdl alloc s of
          (s, Some e) \<Rightarrow> (s, Some e)
        | (s, None) \<Rightarrow>
            (s\<lparr>axis_negative := (axis_negative s)(axis := negative),
               axis_positive := (axis_positive s)(axis := positive)\<rparr>, None)))"

end
