(* ===== verification/Input_Correct.thy ===== *)
theory Input_Correct
  imports Input "HOL-Library.Multiset"
begin

text \<open>
  The books of the input module, one key at a time: the stream of events alternates and agrees
  with the reference counts, through the operations that change one key and through the loops
  that release many.
\<close>

section \<open>The event stream\<close>

text \<open>The keys that are down after a stream of events, and streams in which every event changes
  the state of its key: presses and releases of a key alternate, from a press on.\<close>

definition replay :: "Sword3InputEvent list \<Rightarrow> int \<Rightarrow> bool" where
  "replay es = fold (\<lambda>e f. f(scancode e := pressed e)) es (\<lambda>_. False)"

fun clean_from :: "(int \<Rightarrow> bool) \<Rightarrow> Sword3InputEvent list \<Rightarrow> bool" where
  "clean_from f [] = True"
| "clean_from f (e # es) = (f (scancode e) \<noteq> pressed e \<and> clean_from (f(scancode e := pressed e)) es)"

definition clean :: "Sword3InputEvent list \<Rightarrow> bool" where
  "clean es = clean_from (\<lambda>_. False) es"

lemma clean_from_append:
  "clean_from f (es @ fs) \<longleftrightarrow>
     clean_from f es \<and> clean_from (fold (\<lambda>e f. f(scancode e := pressed e)) es f) fs"
  by (induction es arbitrary: f) auto

lemma clean_snoc: "clean (es @ [e]) \<longleftrightarrow> clean es \<and> replay es (scancode e) \<noteq> pressed e"
  by (simp add: clean_def clean_from_append replay_def)

lemma replay_snoc: "replay (es @ [e]) = (replay es)(scancode e := pressed e)"
  by (simp add: replay_def)

definition stream_ok :: "Sword3InputEvent list \<Rightarrow> (int \<Rightarrow> u16) \<Rightarrow> bool" where
  "stream_ok es refs \<longleftrightarrow> clean es \<and> (\<forall>sc. replay es sc \<longleftrightarrow> refs sc \<noteq> 0)"

lemma stream_ok_same: "stream_ok es refs \<Longrightarrow> (refs sc = 0 \<longleftrightarrow> r = 0) \<Longrightarrow> stream_ok es (refs(sc := r))"
  by (simp add: stream_ok_def)

lemma stream_ok_press:
  "stream_ok es refs \<Longrightarrow> refs sc = 0 \<Longrightarrow> r \<noteq> 0 \<Longrightarrow>
    stream_ok (es @ [\<lparr>scancode = sc, pressed = True\<rparr>]) (refs(sc := r))"
  by (simp add: stream_ok_def clean_snoc replay_snoc)

lemma stream_ok_release:
  "stream_ok es refs \<Longrightarrow> refs sc \<noteq> 0 \<Longrightarrow>
    stream_ok (es @ [\<lparr>scancode = sc, pressed = False\<rparr>]) (refs(sc := 0))"
  by (simp add: stream_ok_def clean_snoc replay_snoc)

text \<open>The two invariants of the queue and its stream.\<close>

definition stream_inv :: "Sword3Input \<Rightarrow> bool" where
  "stream_inv s \<longleftrightarrow> queue_inv s \<and> stream_ok (emitted s) (key_refs s)"

text \<open>Everything but the queue.\<close>

lemma same_keysD:
  assumes "same_keys s t"
  shows "controllers t = controllers s" "key_refs t = key_refs s" "keyboard_down t = keyboard_down s"
    "button_map t = button_map s" "axis_negative t = axis_negative s"
    "axis_positive t = axis_positive s" "callback t = callback s" "opened t = opened s"
    "closed t = closed s"
  using assms by (simp_all add: same_keys_def)

lemma queue_fields_cong:
  assumes "queue t = queue s" "queue_head t = queue_head s" "queue_count t = queue_count s"
    "taken t = taken s"
  shows "emitted t = emitted s" "queue_inv t = queue_inv s" "room t = room s"
  using assms by (simp_all add: emitted_def contents_def queue_inv_def room_def)

section \<open>One key\<close>

text \<open>The common shape of the four ways a reference count changes by one: reserve if the key is
  about to change state, update the counts, queue the event.\<close>

lemma press_key:
  assumes inv: "stream_inv s" and gr: "key_refs s sc \<noteq> - 1"
    and rsv: "(if key_refs s sc = 0 then reserve_queue alloc 1 s else (s, None)) = (t, None)"
    and u: "key_refs u = (key_refs t)(sc := key_refs s sc + 1)"
      "queue u = queue t" "queue_head u = queue_head t" "queue_count u = queue_count t" "taken u = taken t"
  shows "stream_inv (if key_refs u sc = 1 then enqueue_reserved sc True u else u) \<and>
    same_keys u (if key_refs u sc = 1 then enqueue_reserved sc True u else u)"
proof -
  have t: "queue_inv t" "key_refs t = key_refs s" "emitted t = emitted s"
    using rsv inv queued_reserve [of s alloc 1 t None] same_keysD(2)
    by (auto simp: stream_inv_def split: if_splits)
  note q = queue_fields_cong [OF u(2-)]
  have nz: "key_refs s sc + 1 \<noteq> 0" using gr by (metis add.commute add_eq_0_iff)
  have one: "key_refs u sc = 1 \<longleftrightarrow> key_refs s sc = 0" using u(1) by simp
  show ?thesis
  proof (cases "key_refs s sc = 0")
    case True
    then have "0 < room u" using rsv inv queued_reserve(4) [of s alloc 1 t None] q
      by (simp add: stream_inv_def)
    then have "queued [\<lparr>scancode = sc, pressed = True\<rparr>] u (enqueue_reserved sc True u)"
      using queued_enqueue t q by simp
    moreover have "stream_ok (emitted s @ [\<lparr>scancode = sc, pressed = True\<rparr>]) (key_refs u)"
      using inv True nz unfolding u(1) t(2) by (intro stream_ok_press) (simp_all add: stream_inv_def)
    ultimately show ?thesis using True one t q
      by (auto simp: queued_def stream_inv_def dest: same_keysD(2))
  next
    case False
    have "stream_ok (emitted s) (key_refs u)"
      using inv False nz unfolding u(1) t(2) by (intro stream_ok_same) (simp_all add: stream_inv_def)
    then show ?thesis using False one t q by (auto simp: stream_inv_def same_keys_def)
  qed
qed

lemma release_key_once:
  assumes inv: "stream_inv s" and gr: "key_refs s sc \<noteq> 0"
    and rsv: "(if key_refs s sc = 1 then reserve_queue alloc 1 s else (s, None)) = (t, None)"
    and u: "key_refs u = (key_refs t)(sc := key_refs s sc - 1)"
      "queue u = queue t" "queue_head u = queue_head t" "queue_count u = queue_count t" "taken u = taken t"
  shows "stream_inv (if key_refs u sc = 0 then enqueue_reserved sc False u else u) \<and>
    same_keys u (if key_refs u sc = 0 then enqueue_reserved sc False u else u)"
proof -
  have t: "queue_inv t" "key_refs t = key_refs s" "emitted t = emitted s"
    using rsv inv queued_reserve [of s alloc 1 t None] same_keysD(2)
    by (auto simp: stream_inv_def split: if_splits)
  note q = queue_fields_cong [OF u(2-)]
  have zero: "key_refs u sc = 0 \<longleftrightarrow> key_refs s sc = 1" using u(1) by simp
  show ?thesis
  proof (cases "key_refs s sc = 1")
    case True
    then have "0 < room u" using rsv inv queued_reserve(4) [of s alloc 1 t None] q
      by (simp add: stream_inv_def)
    then have "queued [\<lparr>scancode = sc, pressed = False\<rparr>] u (enqueue_reserved sc False u)"
      using queued_enqueue t q by simp
    moreover have "stream_ok (emitted s @ [\<lparr>scancode = sc, pressed = False\<rparr>]) (key_refs u)"
      using inv True unfolding u(1) t(2) by (simp add: stream_ok_release stream_inv_def)
    ultimately show ?thesis using True zero t q
      by (auto simp: queued_def stream_inv_def dest: same_keysD(2))
  next
    case False
    have "stream_ok (emitted s) (key_refs u)"
      using inv False gr unfolding u(1) t(2) by (intro stream_ok_same) (simp_all add: stream_inv_def)
    then show ?thesis using False zero t q by (auto simp: stream_inv_def same_keys_def)
  qed
qed

lemma unat_inc: "(x :: u16) \<noteq> - 1 \<Longrightarrow> unat (x + 1) = unat x + 1"
  by (metis Suc_eq_plus1 add.commute add_eq_0_iff unatSuc)

lemma unat_dec: "(x :: u16) \<noteq> 0 \<Longrightarrow> unat x = unat (x - 1) + 1"
  using unat_minus_one [of x] unat_gt_0 [of x] by simp

lemma same_keys_refl [simp]: "same_keys s s"
  by (simp add: same_keys_def)

lemma same_keys_trans: "same_keys s t \<Longrightarrow> same_keys t u \<Longrightarrow> same_keys s u"
  by (simp add: same_keys_def)

lemma set_both_refs_fields [simp]:
  "key_refs (set_both_refs k sc cr gr s) = (key_refs s)(sc := gr)"
  "queue (set_both_refs k sc cr gr s) = queue s" "queue_head (set_both_refs k sc cr gr s) = queue_head s"
  "queue_count (set_both_refs k sc cr gr s) = queue_count s" "taken (set_both_refs k sc cr gr s) = taken s"
  by (simp_all add: set_both_refs_def)

lemma set_both_refs_same_keys:
  "same_keys s t \<Longrightarrow> same_keys (set_both_refs k sc cr gr s) (set_both_refs k sc cr gr t)"
  by (simp add: same_keys_def set_both_refs_def)

lemma set_both_refs_id:
  "same_keys (set_both_refs k sc (c_key_refs (controllers s ! k) sc) (key_refs s sc) s) s"
  by (simp add: same_keys_def set_both_refs_def)

text \<open>How a pair of counts moves.\<close>

definition moved :: "bool \<Rightarrow> bool \<Rightarrow> u16 \<Rightarrow> u16 \<Rightarrow> u16 \<Rightarrow> u16 \<Rightarrow> bool" where
  "moved valid p cr gr cr' gr' \<longleftrightarrow>
    (if \<not> valid \<or> \<not> p \<and> cr = 0 then cr' = cr \<and> gr' = gr
     else if p then unat cr' = unat cr + 1 \<and> unat gr' = unat gr + 1
     else unat cr = unat cr' + 1 \<and> unat gr = unat gr' + 1)"

lemma reserve_if_cases:
  assumes "stream_inv s" "(if b then reserve_queue alloc 1 s else (s, None)) = (t, r)"
  shows "same_keys s t" "r \<noteq> None \<Longrightarrow> t = s"
  using assms queued_reserve [of s alloc 1 t r] by (auto simp: stream_inv_def split: if_splits)

lemma change_controller_key_spec:
  assumes inv: "stream_inv s" and res: "change_controller_key sdl alloc k sc p s = (t, r)"
  shows "stream_inv t \<and> (r \<noteq> None \<longrightarrow> t = s \<and> r \<noteq> Some EPROTO \<or>
      r = Some EPROTO \<and> t = s \<and> key_refs s sc < c_key_refs (controllers s ! k) sc) \<and>
    (r = None \<longrightarrow> (\<exists>cr gr. same_keys (set_both_refs k sc cr gr s) t \<and>
      moved (valid_scancode sdl sc) p (c_key_refs (controllers s ! k) sc) (key_refs s sc) cr gr))"
proof (cases "valid_scancode sdl sc")
  case False
  then show ?thesis using inv res set_both_refs_id
    by (auto simp: change_controller_key_def moved_def)
next
  case valid: True
  let ?cr = "c_key_refs (controllers s ! k) sc" and ?gr = "key_refs s sc"
  let ?b = "if p then ?gr = 0 else ?gr = 1"
  obtain u r' where u: "(if ?b then reserve_queue alloc 1 s else (s, None)) = (u, r')" by fastforce
  note rsv = reserve_if_cases [OF inv u]
  consider "p" "?cr = - 1 \<or> ?gr = - 1" | "\<not> p" "?cr = 0" | "\<not> p" "?cr \<noteq> 0" "?gr < ?cr"
    | (fail) "if p then \<not> (?cr = - 1 \<or> ?gr = - 1) else ?cr \<noteq> 0 \<and> \<not> ?gr < ?cr" "r' \<noteq> None"
    | (press) "p" "?cr \<noteq> - 1" "?gr \<noteq> - 1" "r' = None"
    | (release) "\<not> p" "?cr \<noteq> 0" "\<not> ?gr < ?cr" "r' = None"
    by (cases p; cases "r' = None"; cases "?cr = 0"; cases "?gr < ?cr") auto
  then show ?thesis
  proof cases
    case 1
    then show ?thesis using valid res inv by (auto simp: change_controller_key_def)
  next
    case 2
    then show ?thesis using valid res inv set_both_refs_id [where s = s and k = k and sc = sc]
      by (auto simp: change_controller_key_def moved_def)
  next
    case 3
    then show ?thesis using valid res inv by (auto simp: change_controller_key_def)
  next
    case fail
    then have "t = s" "r = r'" "r' \<noteq> Some EPROTO"
      using valid res u rsv(2) by (auto simp: change_controller_key_def reserve_queue_def Let_def split: if_splits)
    then show ?thesis using fail inv by auto
  next
    case press
    let ?u = "set_both_refs k sc (?cr + 1) (?gr + 1) u"
    have t: "t = (if key_refs ?u sc = 1 then enqueue_reserved sc True ?u else ?u)" "r = None"
      using valid res u press by (auto simp: change_controller_key_def Let_def)
    have "stream_inv t \<and> same_keys ?u t" unfolding t
      using u press by (intro press_key [OF inv press(3), of alloc u]) simp_all
    moreover have "moved (valid_scancode sdl sc) p ?cr ?gr (?cr + 1) (?gr + 1)"
      using press valid by (simp add: moved_def unat_inc)
    ultimately show ?thesis
      using t(2) valid set_both_refs_same_keys [OF rsv(1)] same_keys_trans by blast
  next
    case release
    let ?u = "set_both_refs k sc (?cr - 1) (?gr - 1) u"
    have gr: "?gr \<noteq> 0" using release by (auto simp: not_less)
    have t: "t = (if key_refs ?u sc = 0 then enqueue_reserved sc False ?u else ?u)" "r = None"
      using valid res u release by (auto simp: change_controller_key_def Let_def)
    have "stream_inv t \<and> same_keys ?u t" unfolding t
      using u release by (intro release_key_once [OF inv gr, of alloc u]) simp_all
    moreover have "moved (valid_scancode sdl sc) p ?cr ?gr (?cr - 1) (?gr - 1)"
      using release valid unat_dec [OF release(2)] unat_dec [OF gr] by (simp add: moved_def)
    ultimately show ?thesis
      using t(2) valid set_both_refs_same_keys [OF rsv(1)] same_keys_trans by blast
  qed
qed

lemma change_global_key_spec:
  assumes inv: "stream_inv s" and res: "change_global_key sdl alloc sc p s = (t, r)"
    and valid: "valid_scancode sdl sc"
  shows "stream_inv t \<and> (r \<noteq> None \<longrightarrow> t = s) \<and>
    (r = None \<longrightarrow> (\<exists>gr. same_keys (s\<lparr>key_refs := (key_refs s)(sc := gr)\<rparr>) t \<and>
      (if p then unat gr = unat (key_refs s sc) + 1
       else if key_refs s sc = 0 then gr = 0 else unat (key_refs s sc) = unat gr + 1)))"
proof -
  let ?gr = "key_refs s sc"
  let ?b = "if p then ?gr = 0 else ?gr = 1"
  obtain u r' where u: "(if ?b then reserve_queue alloc 1 s else (s, None)) = (u, r')" by fastforce
  note rsv = reserve_if_cases [OF inv u]
  have upd: "same_keys (s\<lparr>key_refs := (key_refs s)(sc := g)\<rparr>) (u\<lparr>key_refs := (key_refs u)(sc := g)\<rparr>)"
    for g using rsv(1) by (simp add: same_keys_def)
  consider "p" "?gr = - 1" | "\<not> p" "?gr = 0"
    | (fail) "if p then ?gr \<noteq> - 1 else ?gr \<noteq> 0" "r' \<noteq> None"
    | (press) "p" "?gr \<noteq> - 1" "r' = None" | (release) "\<not> p" "?gr \<noteq> 0" "r' = None"
    by (cases p; cases "r' = None") auto
  then show ?thesis
  proof cases
    case 1
    then show ?thesis using valid res inv by (auto simp: change_global_key_def)
  next
    case 2
    then have "t = s" "r = None" using valid res by (auto simp: change_global_key_def)
    then show ?thesis using 2 inv by (intro conjI impI exI [of _ 0]) (auto simp: same_keys_def)
  next
    case fail
    then have "t = s" using valid res u rsv(2) by (auto simp: change_global_key_def split: if_splits)
    then show ?thesis using fail inv res valid u
      by (auto simp: change_global_key_def Let_def split: if_splits option.splits)
  next
    case press
    let ?u = "u\<lparr>key_refs := (key_refs u)(sc := ?gr + 1)\<rparr>"
    have t: "t = (if key_refs ?u sc = 1 then enqueue_reserved sc True ?u else ?u)" "r = None"
      using valid res u press by (auto simp: change_global_key_def Let_def)
    have "stream_inv t \<and> same_keys ?u t" unfolding t
      using u press by (intro press_key [OF inv press(2), of alloc u]) simp_all
    then show ?thesis using t(2) press unat_inc [OF press(2)] same_keys_trans [OF upd] by auto
  next
    case release
    let ?u = "u\<lparr>key_refs := (key_refs u)(sc := ?gr - 1)\<rparr>"
    have t: "t = (if key_refs ?u sc = 0 then enqueue_reserved sc False ?u else ?u)" "r = None"
      using valid res u release by (auto simp: change_global_key_def Let_def)
    have "stream_inv t \<and> same_keys ?u t" unfolding t
      using u release by (intro release_key_once [OF inv release(2), of alloc u]) simp_all
    then show ?thesis using t(2) release unat_dec [OF release(2)] same_keys_trans [OF upd] by auto
  qed
qed

section \<open>The release loops\<close>

text \<open>The three loops that release keys differ in the number of references they drop; this is
  their common effect on the counts and on the queue.\<close>

definition drop_refs :: "(int \<Rightarrow> u16) \<Rightarrow> int \<Rightarrow> Sword3Input \<Rightarrow> Sword3Input" where
  "drop_refs f sc s =
    (let s' = s\<lparr>key_refs := (key_refs s)(sc := key_refs s sc - f sc)\<rparr> in
     if f sc \<noteq> 0 \<and> key_refs s' sc = 0 then enqueue_reserved sc False s' else s')"

lemma drop_refs_spec:
  assumes "stream_inv s" and "f sc \<noteq> 0 \<and> f sc = key_refs s sc \<Longrightarrow> 0 < room s" and "f sc \<le> key_refs s sc"
  defines "t \<equiv> drop_refs f sc s"
  shows "stream_inv t" "same_keys (s\<lparr>key_refs := (key_refs s)(sc := key_refs s sc - f sc)\<rparr>) t"
    "room s \<le> room t + (if f sc \<noteq> 0 \<and> f sc = key_refs s sc then 1 else 0)"
proof -
  define s' where "s' = s\<lparr>key_refs := (key_refs s)(sc := key_refs s sc - f sc)\<rparr>"
  have q: "emitted s' = emitted s" "queue_inv s' = queue_inv s" "room s' = room s"
    by (rule queue_fields_cong; simp add: s'_def)+
  have z: "key_refs s' sc = 0 \<longleftrightarrow> f sc = key_refs s sc" by (auto simp: s'_def)
  show "stream_inv t" "same_keys s' t"
    "room s \<le> room t + (if f sc \<noteq> 0 \<and> f sc = key_refs s sc then 1 else 0)"
  proof (atomize (full), cases "f sc \<noteq> 0 \<and> f sc = key_refs s sc")
    case True
    have "queued [\<lparr>scancode = sc, pressed = False\<rparr>] s' (enqueue_reserved sc False s')"
      using True assms q by (intro queued_enqueue) (auto simp: stream_inv_def)
    moreover have "stream_ok (emitted s @ [\<lparr>scancode = sc, pressed = False\<rparr>]) (key_refs s')"
      using True assms(1) unfolding s'_def by (auto simp: stream_inv_def intro: stream_ok_release)
    moreover have "t = enqueue_reserved sc False s'"
      using True z by (auto simp: t_def drop_refs_def Let_def s'_def)
    ultimately show "stream_inv t \<and> same_keys s' t \<and>
        room s \<le> room t + (if f sc \<noteq> 0 \<and> f sc = key_refs s sc then 1 else 0)"
      using True q by (auto simp: queued_def stream_inv_def dest: same_keysD(2))
  next
    case False
    have "t = s'" using False z by (auto simp: t_def drop_refs_def Let_def s'_def)
    moreover have "stream_ok (emitted s) (key_refs s')"
      using False assms(1,3) unfolding s'_def
      by (auto simp: stream_inv_def intro!: stream_ok_same)
    ultimately show "stream_inv t \<and> same_keys s' t \<and>
        room s \<le> room t + (if f sc \<noteq> 0 \<and> f sc = key_refs s sc then 1 else 0)"
      using assms(1) q False by (auto simp: stream_inv_def)
  qed
qed

lemma drop_refs_loop:
  assumes "stream_inv s" "distinct scs" "\<forall>sc \<in> set scs. f sc \<le> key_refs s sc"
    "length (filter (\<lambda>sc. f sc \<noteq> 0 \<and> f sc = key_refs s sc) scs) \<le> room s"
  shows "stream_inv (fold (drop_refs f) scs s) \<and>
    same_keys (s\<lparr>key_refs := (\<lambda>sc. if sc \<in> set scs then key_refs s sc - f sc else key_refs s sc)\<rparr>)
      (fold (drop_refs f) scs s)"
  using assms
proof (induction scs arbitrary: s)
  case Nil
  then show ?case by simp
next
  case (Cons x scs)
  let ?t = "drop_refs f x s"
  have t: "stream_inv ?t" "same_keys (s\<lparr>key_refs := (key_refs s)(x := key_refs s x - f x)\<rparr>) ?t"
    "room s \<le> room ?t + (if f x \<noteq> 0 \<and> f x = key_refs s x then 1 else 0)"
    using Cons.prems by (intro drop_refs_spec; fastforce)+
  have k: "key_refs ?t sc = key_refs s sc" if "sc \<in> set scs" for sc
    using same_keysD(2) [OF t(2)] that Cons.prems(2) by auto
  have f: "filter (\<lambda>sc. f sc \<noteq> 0 \<and> f sc = key_refs ?t sc) scs =
      filter (\<lambda>sc. f sc \<noteq> 0 \<and> f sc = key_refs s sc) scs"
    by (rule filter_cong) (simp_all add: k)
  have ih: "stream_inv (fold (drop_refs f) scs ?t)"
    "same_keys (?t\<lparr>key_refs := (\<lambda>sc. if sc \<in> set scs then key_refs ?t sc - f sc else key_refs ?t sc)\<rparr>)
      (fold (drop_refs f) scs ?t)"
    using Cons.IH [OF t(1)] Cons.prems t(3) by (auto simp: k f split: if_splits)
  have "same_keys (s\<lparr>key_refs := (\<lambda>sc. if sc \<in> set (x # scs) then key_refs s sc - f sc else key_refs s sc)\<rparr>)
      (?t\<lparr>key_refs := (\<lambda>sc. if sc \<in> set scs then key_refs ?t sc - f sc else key_refs ?t sc)\<rparr>)"
    using t(2) Cons.prems(2) by (auto simp: same_keys_def fun_eq_iff)
  with ih show ?case by (auto intro: same_keys_trans)
qed

text \<open>The queue operations do not look at the controllers.\<close>

lemma controllers_outermost:
  "s\<lparr>controllers := cs, delivered := d\<rparr> = s\<lparr>delivered := d, controllers := cs\<rparr>"
  "s\<lparr>controllers := cs, key_refs := g\<rparr> = s\<lparr>key_refs := g, controllers := cs\<rparr>"
  by simp_all

lemma poll_event_controllers:
  "fst (poll_event (s\<lparr>controllers := cs\<rparr>)) = (fst (poll_event s))\<lparr>controllers := cs\<rparr>"
  by (simp add: poll_event_def Let_def)

lemma polls_controllers:
  "((\<lambda>t. fst (poll_event t)) ^^ n) (s\<lparr>controllers := cs\<rparr>) =
   (((\<lambda>t. fst (poll_event t)) ^^ n) s)\<lparr>controllers := cs\<rparr>"
  by (induction n) (simp_all add: poll_event_controllers)

lemma enqueue_reserved_controllers:
  "enqueue_reserved sc p (s\<lparr>controllers := cs\<rparr>) = (enqueue_reserved sc p s)\<lparr>controllers := cs\<rparr>"
proof -
  define e where "e = \<lparr>scancode = sc, pressed = p\<rparr>"
  have "push_event e (s\<lparr>controllers := cs\<rparr>) = (push_event e s)\<lparr>controllers := cs\<rparr>"
    by (simp add: push_event_def)
  moreover have "run_callback e (t\<lparr>controllers := cs\<rparr>) = (run_callback e t)\<lparr>controllers := cs\<rparr>" for t
    by (simp add: run_callback_def controllers_outermost polls_controllers split: option.split)
  ultimately show ?thesis by (simp add: enqueue_reserved_def e_def Let_def)
qed

lemma drop_refs_controllers:
  "drop_refs f sc (s\<lparr>controllers := cs\<rparr>) = (drop_refs f sc s)\<lparr>controllers := cs\<rparr>"
  by (simp add: drop_refs_def Let_def controllers_outermost enqueue_reserved_controllers)

lemma fold_drop_refs_controllers:
  "fold (drop_refs f) scs (s\<lparr>controllers := cs\<rparr>) = (fold (drop_refs f) scs s)\<lparr>controllers := cs\<rparr>"
  by (induction scs arbitrary: s) (simp_all add: drop_refs_controllers)

lemma fold_drop_refs_cong:
  "(\<And>sc. sc \<in> set scs \<Longrightarrow> f sc = g sc) \<Longrightarrow> fold (drop_refs f) scs s = fold (drop_refs g) scs s"
  by (rule fold_cong) (auto simp: drop_refs_def fun_eq_iff)

lemma release_controller_key_drop:
  assumes "k < length (controllers s)"
  shows "release_controller_key k sc s = (drop_refs (c_key_refs (controllers s ! k)) sc s)
    \<lparr>controllers := (controllers s)[k := (controllers s ! k)
        \<lparr>c_key_refs := (c_key_refs (controllers s ! k))(sc := 0)\<rparr>]\<rparr>"
proof (cases "c_key_refs (controllers s ! k) sc = 0")
  case True
  moreover from this have "(controllers s ! k)\<lparr>c_key_refs := (c_key_refs (controllers s ! k))(sc := 0)\<rparr> =
      controllers s ! k" by (simp add: fun_upd_idem)
  ultimately show ?thesis
    by (simp add: release_controller_key_def drop_refs_def Let_def fun_upd_idem)
next
  case False
  then show ?thesis
    by (simp add: release_controller_key_def drop_refs_def Let_def set_both_refs_def
        controllers_outermost enqueue_reserved_controllers)
qed

definition zero_refs :: "int set \<Rightarrow> ControllerState \<Rightarrow> ControllerState" where
  "zero_refs S c = c\<lparr>c_key_refs := (\<lambda>sc. if sc \<in> S then 0 else c_key_refs c sc)\<rparr>"

lemma zero_refs_insert:
  "zero_refs S (c\<lparr>c_key_refs := (c_key_refs c)(sc := 0)\<rparr>) = zero_refs (insert sc S) c"
  by (auto simp: zero_refs_def fun_eq_iff)

lemma release_controller_loop:
  assumes "k < length (controllers s)" "distinct scs"
  shows "fold (release_controller_key k) scs s =
    (fold (drop_refs (c_key_refs (controllers s ! k))) scs s)
      \<lparr>controllers := (controllers s)[k := zero_refs (set scs) (controllers s ! k)]\<rparr>"
  using assms
proof (induction scs arbitrary: s)
  case Nil
  then show ?case by (simp add: zero_refs_def)
next
  case (Cons x scs)
  let ?c = "controllers s ! k"
  let ?d = "drop_refs (c_key_refs ?c) x s"
  let ?cs = "(controllers s)[k := ?c\<lparr>c_key_refs := (c_key_refs ?c)(x := 0)\<rparr>]"
  have "fold (drop_refs ((c_key_refs ?c)(x := 0))) scs t = fold (drop_refs (c_key_refs ?c)) scs t" for t
    using Cons.prems by (intro fold_drop_refs_cong) auto
  then show ?case
    using Cons.prems Cons.IH [of "?d\<lparr>controllers := ?cs\<rparr>"]
    by (simp add: release_controller_key_drop zero_refs_insert fold_drop_refs_controllers
        del: fun_upd_apply)
qed

lemma release_all_loop:
  "distinct scs \<Longrightarrow> fold release_key scs s = fold (drop_refs (key_refs s)) scs s"
proof (induction scs arbitrary: s)
  case Nil
  then show ?case by simp
next
  case (Cons x scs)
  have d: "release_key x s = drop_refs (key_refs s) x s"
    by (simp add: release_key_def drop_refs_def Let_def fun_upd_idem)
  have "key_refs (enqueue_reserved x False t) = key_refs t" for t
  proof -
    have "key_refs (((\<lambda>t. fst (poll_event t)) ^^ n) u) = key_refs u" for n u
      by (induction n) (simp_all add: poll_event_def Let_def)
    then show ?thesis
      by (simp add: enqueue_reserved_def Let_def run_callback_def push_event_def split: option.split)
  qed
  then have "key_refs (drop_refs (key_refs s) x s) sc = key_refs s sc" if "sc \<noteq> x" for sc
    using that by (simp add: drop_refs_def Let_def)
  then have "fold (drop_refs (key_refs (drop_refs (key_refs s) x s))) scs t =
      fold (drop_refs (key_refs s)) scs t" for t
    using Cons.prems by (intro fold_drop_refs_cong) (metis distinct.simps(2))
  then show ?case using Cons by (simp add: d)
qed

lemma release_owned_key_drop:
  assumes "owned_by_controllers s sc < 2 ^ 16"
  shows "release_owned_key sc s = (drop_refs (\<lambda>sc. of_nat (owned_by_controllers s sc)) sc s)
    \<lparr>controllers := map (\<lambda>c. c\<lparr>c_key_refs := (c_key_refs c)(sc := 0)\<rparr>) (controllers s)\<rparr>"
proof -
  have "(of_nat (owned_by_controllers s sc) :: u16) = 0 \<longleftrightarrow> owned_by_controllers s sc = 0"
    using assms nat_dvd_not_less [of "owned_by_controllers s sc" "2 ^ 16"]
    by (auto simp: word_of_nat_eq_0_iff)
  then show ?thesis
    by (simp add: release_owned_key_def drop_refs_def Let_def controllers_outermost
        enqueue_reserved_controllers)
qed

lemma owned_zero_refs:
  "sum_list (map (\<lambda>c. unat (c_key_refs c sc')) (map (\<lambda>c. c\<lparr>c_key_refs := (c_key_refs c)(sc := 0)\<rparr>) cs)) =
   (if sc' = sc then 0 else sum_list (map (\<lambda>c. unat (c_key_refs c sc')) cs))"
  by (induction cs) auto

lemma release_owned_loop:
  assumes "\<forall>sc \<in> set scs. owned_by_controllers s sc < 2 ^ 16" "distinct scs"
  shows "fold release_owned_key scs s =
    (fold (drop_refs (\<lambda>sc. of_nat (owned_by_controllers s sc))) scs s)
      \<lparr>controllers := map (zero_refs (set scs)) (controllers s)\<rparr>"
  using assms
proof (induction scs arbitrary: s)
  case Nil
  then show ?case by (simp add: zero_refs_def)
next
  case (Cons x scs)
  let ?f = "\<lambda>sc. of_nat (owned_by_controllers s sc)"
  let ?d = "drop_refs ?f x s"
  let ?cs = "map (\<lambda>c. c\<lparr>c_key_refs := (c_key_refs c)(x := 0)\<rparr>) (controllers s)"
  have o: "owned_by_controllers (?d\<lparr>controllers := ?cs\<rparr>) sc = owned_by_controllers s sc" if "sc \<noteq> x" for sc
    using that owned_zero_refs [of sc x "controllers s"] by (simp add: owned_by_controllers_def)
  have "fold (drop_refs (\<lambda>sc. of_nat (owned_by_controllers (?d\<lparr>controllers := ?cs\<rparr>) sc))) scs t =
      fold (drop_refs ?f) scs t" for t
  proof (rule fold_drop_refs_cong)
    fix sc assume "sc \<in> set scs"
    then have "sc \<noteq> x" using Cons.prems(2) by auto
    then show "(of_nat (owned_by_controllers (?d\<lparr>controllers := ?cs\<rparr>) sc) :: u16) = ?f sc"
      using o by simp
  qed
  moreover have "\<forall>sc \<in> set scs. owned_by_controllers (?d\<lparr>controllers := ?cs\<rparr>) sc < 2 ^ 16"
  proof
    fix sc assume sc: "sc \<in> set scs"
    then have "sc \<noteq> x" using Cons.prems(2) by auto
    from o [OF this] sc show "owned_by_controllers (?d\<lparr>controllers := ?cs\<rparr>) sc < 2 ^ 16"
      using Cons.prems(1) by simp
  qed
  ultimately show ?case
    using Cons.prems Cons.IH [of "?d\<lparr>controllers := ?cs\<rparr>"]
    by (simp add: release_owned_key_drop zero_refs_insert fold_drop_refs_controllers o_def
        del: fun_upd_apply)
qed

end
