(* ===== verification/Input_Inv.thy ===== *)
theory Input_Inv
  imports Input_Correct
begin

text \<open>
  The invariant of the input module, and that the keyboard and controller events and the removal
  of a controller keep it: every reference count is the number of controls that hold the key.
\<close>

section \<open>Who holds a key\<close>

text \<open>The number of buttons and axes of a controller that hold a key, by the current mapping.\<close>

definition held :: "sdl \<Rightarrow> Sword3Input \<Rightarrow> ControllerState \<Rightarrow> int \<Rightarrow> nat" where
  "held sdl s c sc =
    (if valid_scancode sdl sc then
       length (filter (\<lambda>b. button_down c b \<and> button_map s b = sc) [0..SDL_CONTROLLER_BUTTON_MAX sdl - 1]) +
       length (filter (\<lambda>a. axis_direction c a \<noteq> 0 \<and> axis_key s a (axis_direction c a) = sc)
                 [0..SDL_CONTROLLER_AXIS_MAX sdl - 1])
     else 0)"

definition ctl_ok :: "sdl \<Rightarrow> Sword3Input \<Rightarrow> ControllerState \<Rightarrow> bool" where
  "ctl_ok sdl s c \<longleftrightarrow> (\<forall>sc. unat (c_key_refs c sc) = held sdl s c sc)"

definition count_inv :: "sdl \<Rightarrow> Sword3Input \<Rightarrow> bool" where
  "count_inv sdl s \<longleftrightarrow>
     (\<forall>sc. keyboard_down s sc \<longrightarrow> valid_scancode sdl sc) \<and>
     (\<forall>c \<in> set (controllers s). ctl_ok sdl s c) \<and>
     (\<forall>sc. unat (key_refs s sc) = of_bool (keyboard_down s sc) + owned_by_controllers s sc)"

text \<open>Device handles: every handle that was opened is held by exactly one controller or has been
  closed, and no two controllers are the same device.\<close>

definition device_inv :: "Sword3Input \<Rightarrow> bool" where
  "device_inv s \<longleftrightarrow> distinct (map instance_id (controllers s)) \<and>
     mset (opened s) = mset (closed s) + mset (map controller (controllers s))"

definition input_inv :: "sdl \<Rightarrow> Sword3Input \<Rightarrow> bool" where
  "input_inv sdl s \<longleftrightarrow> stream_inv s \<and> count_inv sdl s \<and> device_inv s"

lemma held_cong:
  assumes "button_map t = button_map s" "axis_negative t = axis_negative s"
    "axis_positive t = axis_positive s" "button_down d = button_down c"
    "axis_direction d = axis_direction c"
  shows "held sdl t d = held sdl s c"
  using assms by (simp add: held_def fun_eq_iff axis_key_def)

lemma held_maps:
  assumes "button_map t = button_map s" "axis_negative t = axis_negative s"
    "axis_positive t = axis_positive s"
  shows "held sdl t = held sdl s"
  using held_cong [OF assms refl refl] by (rule ext)

lemma sum_list_update_nat:
  fixes f :: "'a \<Rightarrow> nat"
  assumes "k < length xs"
  shows "sum_list (map f (xs[k := y])) + f (xs ! k) = sum_list (map f xs) + f y"
  using assms
proof (induction xs arbitrary: k)
  case Nil
  then show ?case by simp
next
  case (Cons x xs)
  show ?case
  proof (cases k)
    case 0
    then show ?thesis by simp
  next
    case (Suc j)
    with Cons.prems have "sum_list (map f (xs[j := y])) + f (xs ! j) = sum_list (map f xs) + f y"
      by (intro Cons.IH) simp
    with Suc show ?thesis by simp
  qed
qed

lemma count_filter_upd:
  assumes "distinct xs" "x \<in> set xs" "\<And>y. y \<noteq> x \<Longrightarrow> Q y = P y"
  shows "length (filter Q xs) + of_bool (P x) = length (filter P xs) + of_bool (Q x)"
  using assms(1,2)
proof (induction xs)
  case Nil
  then show ?case by simp
next
  case (Cons a xs)
  show ?case
  proof (cases "a = x")
    case True
    then have "filter Q xs = filter P xs"
      using Cons.prems assms(3) by (intro filter_cong refl) (metis distinct.simps(2))
    with True show ?thesis by simp
  next
    case False
    then have "length (filter Q xs) + of_bool (P x) = length (filter P xs) + of_bool (Q x)"
      using Cons by auto
    with False assms(3) [OF False] show ?thesis by auto
  qed
qed

lemma held_button:
  assumes "0 \<le> b" "b < SDL_CONTROLLER_BUTTON_MAX sdl"
  shows "held sdl s (c\<lparr>button_down := (button_down c)(b := p)\<rparr>) sc +
      of_bool (valid_scancode sdl sc \<and> button_down c b \<and> button_map s b = sc) =
    held sdl s c sc + of_bool (valid_scancode sdl sc \<and> p \<and> button_map s b = sc)"
  using assms count_filter_upd [of "[0..SDL_CONTROLLER_BUTTON_MAX sdl - 1]" b
      "\<lambda>x. ((button_down c)(b := p)) x \<and> button_map s x = sc" "\<lambda>x. button_down c x \<and> button_map s x = sc"]
  by (simp add: held_def)

lemma held_axis:
  assumes "0 \<le> a" "a < SDL_CONTROLLER_AXIS_MAX sdl"
  shows "held sdl s (c\<lparr>axis_direction := (axis_direction c)(a := d)\<rparr>) sc +
      of_bool (valid_scancode sdl sc \<and> axis_direction c a \<noteq> 0 \<and> axis_key s a (axis_direction c a) = sc) =
    held sdl s c sc + of_bool (valid_scancode sdl sc \<and> d \<noteq> 0 \<and> axis_key s a d = sc)"
  using assms count_filter_upd [of "[0..SDL_CONTROLLER_AXIS_MAX sdl - 1]" a
      "\<lambda>x. ((axis_direction c)(a := d)) x \<noteq> 0 \<and> axis_key s x (((axis_direction c)(a := d)) x) = sc"
      "\<lambda>x. axis_direction c x \<noteq> 0 \<and> axis_key s x (axis_direction c x) = sc"]
  by (simp add: held_def)

section \<open>Controller events\<close>

lemma owned_ge: "k < length (controllers s) \<Longrightarrow> unat (c_key_refs (controllers s ! k) sc) \<le> owned_by_controllers s sc"
  unfolding owned_by_controllers_def
  by (rule member_le_sum_list) simp_all

text \<open>A successful change of one controller key together with the change \<open>c'\<close> of the control that
  caused it keeps the books.\<close>

lemma controller_key_inv:
  assumes inv: "input_inv sdl s" and k: "k < length (controllers s)"
    and res: "change_controller_key sdl alloc k sc p s = (t, None)"
    and c': "c_key_refs c' = c_key_refs (controllers t ! k)"
      "instance_id c' = instance_id (controllers s ! k)" "controller c' = controller (controllers s ! k)"
    and cnt: "\<And>sc'. held sdl s c' sc' + of_bool (valid_scancode sdl sc \<and> \<not> p \<and> sc' = sc) =
      held sdl s (controllers s ! k) sc' + of_bool (valid_scancode sdl sc \<and> p \<and> sc' = sc)"
  shows "input_inv sdl (t\<lparr>controllers := (controllers t)[k := c']\<rparr>)"
proof -
  let ?c = "controllers s ! k"
  let ?t = "t\<lparr>controllers := (controllers t)[k := c']\<rparr>"
  have st: "stream_inv s" using inv by (simp add: input_inv_def)
  obtain cr gr where same: "same_keys (set_both_refs k sc cr gr s) t"
    and mv: "moved (valid_scancode sdl sc) p (c_key_refs ?c sc) (key_refs s sc) cr gr"
    and st': "stream_inv t"
    using change_controller_key_spec [OF st res] by auto
  have cs: "controllers t = (controllers s)[k := ?c\<lparr>c_key_refs := (c_key_refs ?c)(sc := cr)\<rparr>]"
    and kr: "key_refs t = (key_refs s)(sc := gr)"
    and fr: "keyboard_down t = keyboard_down s" "button_map t = button_map s"
      "axis_negative t = axis_negative s" "axis_positive t = axis_positive s"
      "opened t = opened s" "closed t = closed s"
    using same by (simp_all add: same_keys_def set_both_refs_def)
  have refs: "c_key_refs c' = (c_key_refs ?c)(sc := cr)" using k by (simp add: c' cs)
  have ok: "ctl_ok sdl s ?c" "unat (key_refs s x) = of_bool (keyboard_down s x) + owned_by_controllers s x" for x
    using inv k by (simp_all add: input_inv_def count_inv_def)
  have step: "unat cr + of_bool (valid_scancode sdl sc \<and> \<not> p) =
      unat (c_key_refs ?c sc) + of_bool (valid_scancode sdl sc \<and> p) \<and>
    unat gr + of_bool (valid_scancode sdl sc \<and> \<not> p) =
      unat (key_refs s sc) + of_bool (valid_scancode sdl sc \<and> p)"
    using mv cnt [of sc] ok(1) [unfolded ctl_ok_def, rule_format, of sc]
    by (auto simp: moved_def split: if_splits)
  have "ctl_ok sdl s c'"
    unfolding ctl_ok_def
  proof
    fix x show "unat (c_key_refs c' x) = held sdl s c' x"
      using step cnt [of x] ok(1) by (cases "x = sc") (auto simp: refs ctl_ok_def)
  qed
  moreover have held: "held sdl ?t = held sdl s" using fr by (intro held_maps) simp_all
  moreover have sum: "owned_by_controllers ?t x + unat (c_key_refs ?c x) =
      owned_by_controllers s x + unat (c_key_refs c' x)" for x
    using sum_list_update_nat [OF k] by (simp add: owned_by_controllers_def cs)
  have "unat (key_refs ?t x) = of_bool (keyboard_down ?t x) + owned_by_controllers ?t x" for x
    using ok(2) [of x] step owned_ge [OF k, of x] sum [of x]
    by (cases "x = sc") (simp_all add: kr fr refs)
  ultimately have "count_inv sdl ?t"
    using inv k by (auto simp: input_inv_def count_inv_def ctl_ok_def fr cs dest!: set_update_subset_insert [THEN subsetD])
  moreover have "stream_inv ?t"
    using st' queue_fields_cong [of ?t t] by (simp add: stream_inv_def)
  moreover have "map instance_id (controllers ?t) = map instance_id (controllers s)"
    "map controller (controllers ?t) = map controller (controllers s)"
    using k c' by (auto simp: cs map_update intro!: list_update_id) (metis list_update_id nth_map)+
  then have "device_inv ?t" using inv by (simp add: input_inv_def device_inv_def fr)
  ultimately show ?thesis by (simp add: input_inv_def)
qed

lemma find_index_Some:
  "find_index i cs = Some k \<Longrightarrow> k < length cs \<and> instance_id (cs ! k) = i"
  by (induction cs arbitrary: k) (auto split: if_splits)

lemma find_index_None: "find_index i cs = None \<longleftrightarrow> i \<notin> instance_id ` set cs"
  by (induction cs) auto

lemma find_controller_Some:
  "find_controller s i = Some k \<Longrightarrow> k < length (controllers s)"
  using find_index_Some by (simp add: find_controller_def)

lemma handle_button_inv:
  assumes inv: "input_inv sdl s" and res: "handle_button sdl alloc which b p s = (t, r)"
  shows "input_inv sdl t"
proof (cases "find_controller s which")
  case None
  then show ?thesis using inv res by (simp add: handle_button_def)
next
  case (Some k)
  note k = find_controller_Some [OF Some]
  let ?c = "controllers s ! k"
  show ?thesis
  proof (cases "0 \<le> b \<and> b < SDL_CONTROLLER_BUTTON_MAX sdl \<and> button_down ?c b \<noteq> p")
    case False
    then show ?thesis using inv res Some by (auto simp: handle_button_def split: if_splits)
  next
    case True
    obtain u e where u: "change_controller_key sdl alloc k (button_map s b) p s = (u, e)" by fastforce
    have st: "stream_inv s" using inv by (simp add: input_inv_def)
    show ?thesis
    proof (cases e)
      case None
      let ?c' = "(controllers u ! k)\<lparr>button_down := (button_down (controllers u ! k))(b := p)\<rparr>"
      have cu: "\<exists>cr. controllers u ! k = ?c\<lparr>c_key_refs := cr\<rparr>"
        using change_controller_key_spec [OF st u] None k
        by (auto simp: same_keys_def set_both_refs_def)
      have h: "held sdl s ?c' = held sdl s (?c\<lparr>button_down := (button_down ?c)(b := p)\<rparr>)"
        using cu by (intro held_cong) auto
      have "held sdl s ?c' sc' + of_bool (valid_scancode sdl (button_map s b) \<and> \<not> p \<and> sc' = button_map s b) =
          held sdl s ?c sc' + of_bool (valid_scancode sdl (button_map s b) \<and> p \<and> sc' = button_map s b)" for sc'
        unfolding h using True held_button [of b sdl s ?c p sc']
        by (cases p; cases "sc' = button_map s b") auto
      then have "input_inv sdl (u\<lparr>controllers := (controllers u)[k := ?c']\<rparr>)"
        using cu by (intro controller_key_inv [OF inv k u [unfolded None]]) auto
      then show ?thesis using res Some True u None by (auto simp: handle_button_def set_button_def)
    next
      case (Some x)
      then have "u = s" using change_controller_key_spec [OF st u] by auto
      then show ?thesis using inv res \<open>find_controller s which = Some k\<close> True u Some
        by (auto simp: handle_button_def)
    qed
  qed
qed

text \<open>The two halves of an axis motion: letting the old direction go, and taking the new one.\<close>

lemma axis_half_inv:
  assumes inv: "input_inv sdl s" and k: "k < length (controllers s)"
    and a: "0 \<le> a" "a < SDL_CONTROLLER_AXIS_MAX sdl"
    and u: "(if d \<noteq> 0 then change_controller_key sdl alloc k (axis_key s a d) p s else (s, None)) = (u, e)"
    and old: "if p then axis_direction (controllers s ! k) a = 0
              else axis_direction (controllers s ! k) a = d"
  shows "if e = None then input_inv sdl (set_axis k a (if p then d else 0) u) else u = s"
proof -
  let ?c = "controllers s ! k"
  have st: "stream_inv s" using inv by (simp add: input_inv_def)
  show ?thesis
  proof (cases "d = 0")
    case True
    then have "set_axis k a (if p then d else 0) u = s" "e = None"
      using u old k by (auto simp: set_axis_def fun_upd_idem split: if_splits)
    then show ?thesis using inv by simp
  next
    case False
    then have u': "change_controller_key sdl alloc k (axis_key s a d) p s = (u, e)" using u by simp
    show ?thesis
    proof (cases e)
      case None
      let ?d = "if p then d else 0"
      let ?c' = "(controllers u ! k)\<lparr>axis_direction := (axis_direction (controllers u ! k))(a := ?d)\<rparr>"
      have cu: "\<exists>cr. controllers u ! k = ?c\<lparr>c_key_refs := cr\<rparr>"
        using change_controller_key_spec [OF st u'] None k
        by (auto simp: same_keys_def set_both_refs_def)
      have h: "held sdl s ?c' = held sdl s (?c\<lparr>axis_direction := (axis_direction ?c)(a := ?d)\<rparr>)"
        using cu by (intro held_cong) auto
      have "held sdl s ?c' sc' + of_bool (valid_scancode sdl (axis_key s a d) \<and> \<not> p \<and> sc' = axis_key s a d) =
          held sdl s ?c sc' + of_bool (valid_scancode sdl (axis_key s a d) \<and> p \<and> sc' = axis_key s a d)" for sc'
        unfolding h using old False held_axis [OF a, of s ?c ?d sc']
        by (cases p; cases "sc' = axis_key s a d") auto
      then have "input_inv sdl (u\<lparr>controllers := (controllers u)[k := ?c']\<rparr>)"
        using cu by (intro controller_key_inv [OF inv k u' [unfolded None]]) auto
      then show ?thesis using None by (simp add: set_axis_def)
    next
      case (Some x)
      then show ?thesis using change_controller_key_spec [OF st u'] by auto
    qed
  qed
qed

lemma handle_axis_inv:
  assumes inv: "input_inv sdl s" and res: "handle_axis sdl alloc which a val s = (t, r)"
  shows "input_inv sdl t"
proof (cases "find_controller s which")
  case None
  then show ?thesis using inv res by (simp add: handle_axis_def)
next
  case (Some k)
  note k = find_controller_Some [OF Some]
  let ?old = "axis_direction (controllers s ! k) a"
  let ?new = "new_axis_direction ?old val"
  show ?thesis
  proof (cases "0 \<le> a \<and> a < SDL_CONTROLLER_AXIS_MAX sdl \<and> ?new \<noteq> ?old")
    case False
    then show ?thesis using inv res Some by (auto simp: handle_axis_def Let_def split: if_splits)
  next
    case True
    then have a: "0 \<le> a" "a < SDL_CONTROLLER_AXIS_MAX sdl" by auto
    obtain u e where u: "(if ?old \<noteq> 0 then change_controller_key sdl alloc k (axis_key s a ?old) False s
        else (s, None)) = (u, e)" by fastforce
    have half: "if e = None then input_inv sdl (set_axis k a 0 u) else u = s"
      using axis_half_inv [OF inv k a u] by (cases e) simp_all
    show ?thesis
    proof (cases e)
      case (Some x)
      then show ?thesis using inv res half u True \<open>find_controller s which = Some k\<close>
        by (auto simp: handle_axis_def Let_def)
    next
      case None
      let ?v = "set_axis k a 0 u"
      have inv': "input_inv sdl ?v" using half None by simp
      have st: "stream_inv s" using inv by (simp add: input_inv_def)
      have len: "length (controllers u) = length (controllers s)"
        using u None change_controller_key_spec [OF st, of sdl alloc k "axis_key s a ?old" False u None]
        by (auto simp: same_keys_def set_both_refs_def split: if_splits)
      have k': "k < length (controllers ?v)" using k len by (simp add: set_axis_def)
      have z: "axis_direction (controllers ?v ! k) a = 0" using k len by (simp add: set_axis_def)
      obtain w e' where w: "(if ?new \<noteq> 0 then change_controller_key sdl alloc k (axis_key ?v a ?new) True ?v
          else (?v, None)) = (w, e')" by fastforce
      have half': "if e' = None then input_inv sdl (set_axis k a ?new w) else w = ?v"
        using axis_half_inv [OF inv' k' a w] z by (cases e') simp_all
      have "(t, r) = (case e' of None \<Rightarrow> (set_axis k a ?new w, None) | Some x \<Rightarrow> (w, Some x))"
        using res True u None w \<open>find_controller s which = Some k\<close>
        by (auto simp: handle_axis_def Let_def split: option.splits)
      then show ?thesis using half' inv' by (auto split: option.splits)
    qed
  qed
qed

section \<open>Keyboard events\<close>

lemma handle_keyboard_inv:
  assumes inv: "input_inv sdl s" and res: "handle_keyboard sdl alloc sc p rep s = (t, r)"
  shows "input_inv sdl t"
proof (cases "valid_scancode sdl sc \<and> \<not> (p \<and> rep) \<and> keyboard_down s sc \<noteq> p")
  case False
  then show ?thesis using inv res by (auto simp: handle_keyboard_def split: if_splits)
next
  case True
  then have valid: "valid_scancode sdl sc" by simp
  obtain u e where u: "change_global_key sdl alloc sc p s = (u, e)" by fastforce
  have st: "stream_inv s" using inv by (simp add: input_inv_def)
  note spec = change_global_key_spec [OF st u valid]
  show ?thesis
  proof (cases e)
    case (Some x)
    then show ?thesis using inv res True u spec by (auto simp: handle_keyboard_def)
  next
    case None
    then obtain gr where same: "same_keys (s\<lparr>key_refs := (key_refs s)(sc := gr)\<rparr>) u"
      and mv: "if p then unat gr = unat (key_refs s sc) + 1
        else if key_refs s sc = 0 then gr = 0 else unat (key_refs s sc) = unat gr + 1"
      using spec by auto
    have t: "t = u\<lparr>keyboard_down := (keyboard_down u)(sc := p)\<rparr>"
      using res True u None by (auto simp: handle_keyboard_def)
    have fr: "controllers t = controllers s" "key_refs t = (key_refs s)(sc := gr)"
      "keyboard_down t = (keyboard_down s)(sc := p)" "button_map t = button_map s"
      "axis_negative t = axis_negative s" "axis_positive t = axis_positive s"
      "opened t = opened s" "closed t = closed s"
      using same by (simp_all add: t same_keys_def)
    have refs: "unat (key_refs s x) = of_bool (keyboard_down s x) + owned_by_controllers s x" for x
      using inv by (simp add: input_inv_def count_inv_def)
    have "key_refs s sc \<noteq> 0" if "\<not> p"
    proof
      assume "key_refs s sc = 0"
      then show False using refs [of sc] True that by simp
    qed
    then have "unat gr = of_bool p + owned_by_controllers s sc"
      using refs [of sc] mv True by (auto split: if_splits)
    moreover have "owned_by_controllers t = owned_by_controllers s"
      by (simp add: owned_by_controllers_def fr fun_eq_iff)
    moreover have "held sdl t = held sdl s" using fr by (intro held_maps) simp_all
    ultimately have "count_inv sdl t"
      using inv refs valid by (auto simp: input_inv_def count_inv_def ctl_ok_def fr)
    moreover have "stream_inv t"
      using spec queue_fields_cong [of t u] by (simp add: stream_inv_def t)
    ultimately show ?thesis using inv by (simp add: input_inv_def device_inv_def fr)
  qed
qed

section \<open>Releases\<close>

lemma set_scancodes: "set (scancodes sdl) = {sc. valid_scancode sdl sc}"
  by (auto simp: scancodes_def valid_scancode_def SDL_SCANCODE_UNKNOWN_def)

lemma distinct_scancodes: "distinct (scancodes sdl)"
  by (simp add: scancodes_def)

lemma held_clear [simp]: "held sdl s (clear_controls c) sc = 0"
  by (simp add: held_def clear_controls_def)

lemma held_invalid: "\<not> valid_scancode sdl sc \<Longrightarrow> held sdl s c sc = 0"
  by (simp add: held_def)

lemma zero_refs_ok:
  "ctl_ok sdl s c \<Longrightarrow> c_key_refs (zero_refs {sc. valid_scancode sdl sc} c) = (\<lambda>_. 0)"
  using held_invalid [of sdl] by (auto simp: zero_refs_def ctl_ok_def fun_eq_iff) (metis unat_eq_zero)

lemma ctl_ok_clear: "c_key_refs c = (\<lambda>_. 0) \<Longrightarrow> ctl_ok sdl s (clear_controls c)"
  by (simp add: ctl_ok_def) (simp add: clear_controls_def)

text \<open>What the three releases share: references are dropped for all keys at once, in the queue and
  in the counts.\<close>

lemma release_common:
  assumes inv: "input_inv sdl s" and rsv: "reserve_queue alloc n s = (u, None)"
    and n: "n = length (filter (\<lambda>sc. f sc \<noteq> 0 \<and> f sc = key_refs s sc) (scancodes sdl))"
    and le: "\<And>sc. valid_scancode sdl sc \<Longrightarrow> f sc \<le> key_refs s sc"
    and zero: "\<And>sc. \<not> valid_scancode sdl sc \<Longrightarrow> f sc = 0"
  shows "stream_inv (fold (drop_refs f) (scancodes sdl) u)"
    "same_keys (s\<lparr>key_refs := (\<lambda>sc. key_refs s sc - f sc)\<rparr>) (fold (drop_refs f) (scancodes sdl) u)"
    "same_keys s u"
proof -
  have q: "queue_inv s" using inv by (simp add: input_inv_def stream_inv_def)
  note r = queued_reserve [OF q rsv]
  have kr: "key_refs u = key_refs s" using r(2) by (rule same_keysD)
  have st: "stream_inv u" using inv r by (simp add: input_inv_def stream_inv_def kr)
  have "\<forall>sc \<in> set (scancodes sdl). f sc \<le> key_refs u sc" using le by (simp add: set_scancodes kr)
  from drop_refs_loop [OF st distinct_scancodes this] r(4) n
  have loop: "stream_inv (fold (drop_refs f) (scancodes sdl) u)"
    "same_keys (u\<lparr>key_refs := (\<lambda>sc. if sc \<in> set (scancodes sdl) then key_refs u sc - f sc else key_refs u sc)\<rparr>)
      (fold (drop_refs f) (scancodes sdl) u)"
    by (simp_all add: kr)
  show "stream_inv (fold (drop_refs f) (scancodes sdl) u)" by (rule loop)
  have "(\<lambda>sc. if sc \<in> set (scancodes sdl) then key_refs u sc - f sc else key_refs u sc) =
      (\<lambda>sc. key_refs s sc - f sc)" using zero by (auto simp: fun_eq_iff set_scancodes kr)
  then show "same_keys (s\<lparr>key_refs := (\<lambda>sc. key_refs s sc - f sc)\<rparr>) (fold (drop_refs f) (scancodes sdl) u)"
    using loop(2) r(2) by (simp add: same_keys_def)
  show "same_keys s u" by (rule r(2))
qed

lemma stream_inv_controllers [simp]: "stream_inv (s\<lparr>controllers := cs\<rparr>) = stream_inv s"
  using queue_fields_cong [of "s\<lparr>controllers := cs\<rparr>" s] by (simp add: stream_inv_def)

lemma reserve_error: "queue_inv s \<Longrightarrow> reserve_queue alloc n s = (u, Some e) \<Longrightarrow> u = s \<and> e = ENOMEM"
  using queued_reserve(5) by (auto simp: reserve_queue_def Let_def split: if_splits)

lemma count_invD:
  assumes "input_inv sdl s"
  shows "keyboard_down s sc \<Longrightarrow> valid_scancode sdl sc" "c \<in> set (controllers s) \<Longrightarrow> ctl_ok sdl s c"
    "unat (key_refs s sc) = of_bool (keyboard_down s sc) + owned_by_controllers s sc"
  using assms by (simp_all add: input_inv_def count_inv_def)

text \<open>Releasing a controller: it holds nothing afterwards, its controls are up, and its references
  are gone from the counts.\<close>

lemma release_controller_spec:
  assumes inv: "input_inv sdl s" and k: "k < length (controllers s)"
    and res: "release_controller sdl alloc k s = (t, r)"
  shows "if r = None
    then input_inv sdl t \<and> length (controllers t) = length (controllers s) \<and>
      (\<forall>sc. c_key_refs (controllers t ! k) sc = 0)
    else t = s \<and> r = Some ENOMEM"
proof -
  let ?c = "controllers s ! k"
  let ?f = "c_key_refs ?c"
  have ok: "ctl_ok sdl s ?c" using count_invD(2) [OF inv] k by simp
  have le: "?f sc \<le> key_refs s sc" for sc
    using count_invD(3) [OF inv, of sc] owned_ge [OF k, of sc] by (simp add: word_le_nat_alt)
  have zero: "?f sc = 0" if "\<not> valid_scancode sdl sc" for sc
  proof -
    have "unat (?f sc) = 0" using ok held_invalid [OF that] by (simp add: ctl_ok_def)
    then show ?thesis by (simp only: unat_eq_0)
  qed
  have noerr: "\<not> list_ex (\<lambda>sc. ?f sc > key_refs s sc) (scancodes sdl)"
    using le by (simp add: list_ex_iff not_less)
  define n where "n = length (filter (\<lambda>sc. ?f sc \<noteq> 0 \<and> ?f sc = key_refs s sc) (scancodes sdl))"
  obtain u e where u: "reserve_queue alloc n s = (u, e)" by fastforce
  have q: "queue_inv s" using inv by (simp add: input_inv_def stream_inv_def)
  show ?thesis
  proof (cases e)
    case (Some x)
    then have "t = s" "r = Some ENOMEM"
      using res noerr u reserve_error [OF q] by (auto simp: release_controller_def Let_def n_def)
    then show ?thesis by simp
  next
    case None
    note rc = release_common [OF inv u [unfolded None] n_def le zero]
    let ?d = "fold (drop_refs ?f) (scancodes sdl) u"
    let ?c' = "clear_controls (zero_refs {sc. valid_scancode sdl sc} ?c)"
    have cu: "controllers u = controllers s" using rc(3) by (rule same_keysD)
    have t: "t = ?d\<lparr>controllers := (controllers s)[k := ?c']\<rparr>" "r = None"
      using res noerr u None k
      by (auto simp: release_controller_def Let_def n_def cu release_controller_loop distinct_scancodes
          set_scancodes)
    have z: "c_key_refs ?c' = (\<lambda>_. 0)" using zero_refs_ok [OF ok] by (simp add: clear_controls_def)
    have fr: "key_refs t = (\<lambda>sc. key_refs s sc - ?f sc)" "keyboard_down t = keyboard_down s"
      "button_map t = button_map s" "axis_negative t = axis_negative s"
      "axis_positive t = axis_positive s" "opened t = opened s" "closed t = closed s"
      "controllers t = (controllers s)[k := ?c']"
      using rc(2) by (simp_all add: t same_keys_def)
    have held: "held sdl t = held sdl s" using fr by (intro held_maps) simp_all
    have "owned_by_controllers t sc + unat (?f sc) = owned_by_controllers s sc" for sc
      using sum_list_update_nat [OF k, of "\<lambda>c. unat (c_key_refs c sc)" ?c'] z
      by (simp add: owned_by_controllers_def fr)
    moreover have "unat (key_refs s sc - ?f sc) + unat (?f sc) = unat (key_refs s sc)" for sc
      using le [of sc] by (simp add: unat_sub word_le_nat_alt)
    ultimately have "unat (key_refs t sc) = of_bool (keyboard_down t sc) + owned_by_controllers t sc" for sc
      using count_invD(3) [OF inv, of sc] by (metis (no_types, lifting) add.assoc add_right_cancel fr(1,2))
    moreover have "ctl_ok sdl t c" if "c \<in> set (controllers t)" for c
    proof -
      have "ctl_ok sdl s ?c'" using zero_refs_ok [OF ok] by (intro ctl_ok_clear) simp
      then show ?thesis using that count_invD(2) [OF inv] set_update_subset_insert [of "controllers s" k ?c']
        by (auto simp: fr ctl_ok_def held)
    qed
    ultimately have "count_inv sdl t" using count_invD(1) [OF inv] by (auto simp: count_inv_def fr)
    moreover have "map instance_id (controllers t) = map instance_id (controllers s)"
      "map controller (controllers t) = map controller (controllers s)"
      using k by (auto simp: fr map_update clear_controls_def zero_refs_def)
         (metis list_update_id nth_map)+
    then have "device_inv t" using inv by (simp add: input_inv_def device_inv_def fr)
    moreover have "stream_inv t" using rc(1) by (simp add: t)
    ultimately show ?thesis using t(2) k z by (simp add: input_inv_def fr)
  qed
qed

lemma remove_controller_inv:
  assumes inv: "input_inv sdl s" and res: "remove_controller sdl alloc i s = (t, r)"
  shows "input_inv sdl t"
proof (cases "find_controller s i")
  case None
  then show ?thesis using inv res by (simp add: remove_controller_def)
next
  case (Some k)
  note k = find_controller_Some [OF Some]
  obtain u e where u: "release_controller sdl alloc k s = (u, e)" by fastforce
  note spec = release_controller_spec [OF inv k u]
  show ?thesis
  proof (cases e)
    case (Some x)
    then show ?thesis using inv res spec u \<open>find_controller s i = Some k\<close>
      by (auto simp: remove_controller_def)
  next
    case None
    then have inv': "input_inv sdl u" and k': "k < length (controllers u)"
      and z: "\<And>sc. c_key_refs (controllers u ! k) sc = 0" using spec k by auto
    have split: "controllers u = take k (controllers u) @ controllers u ! k # drop (Suc k) (controllers u)"
      using k' by (rule id_take_nth_drop)
    let ?cs = "take k (controllers u) @ drop (Suc k) (controllers u)"
    have t: "t = close_controller (controller (controllers u ! k)) (u\<lparr>controllers := ?cs\<rparr>)"
      using res u None Some by (simp add: remove_controller_def)
    have fr: "key_refs t = key_refs u" "keyboard_down t = keyboard_down u" "controllers t = ?cs"
      "button_map t = button_map u" "axis_negative t = axis_negative u" "axis_positive t = axis_positive u"
      "opened t = opened u" "closed t = closed u @ [controller (controllers u ! k)]"
      by (simp_all add: t close_controller_def)
    have held: "held sdl t = held sdl u" using fr by (intro held_maps) simp_all
    have "owned_by_controllers t sc = owned_by_controllers u sc" for sc
      using z [of sc] by (subst (2) owned_by_controllers_def, subst split)
         (simp add: owned_by_controllers_def fr)
    moreover have sub: "set ?cs \<subseteq> set (controllers u)" by (auto dest: in_set_takeD in_set_dropD)
    ultimately have "count_inv sdl t"
      using inv' by (auto simp: input_inv_def count_inv_def ctl_ok_def fr held dest!: subsetD)
    moreover have "device_inv t"
    proof -
      have "distinct (map instance_id (take k (controllers u) @ controllers u ! k # drop (Suc k) (controllers u)))"
        "mset (opened u) = mset (closed u) +
          mset (map controller (take k (controllers u) @ controllers u ! k # drop (Suc k) (controllers u)))"
        using inv' by (simp_all add: input_inv_def device_inv_def flip: split)
      then show ?thesis by (simp add: device_inv_def fr)
    qed
    moreover have "stream_inv t"
      using inv' queue_fields_cong [of t u] by (simp add: input_inv_def stream_inv_def fr t close_controller_def)
    ultimately show ?thesis by (simp add: input_inv_def)
  qed
qed

end
