(* ===== verification/Input_Session.thy ===== *)
theory Input_Session
  imports Input_Inv
begin

text \<open>
  The remaining operations (release, remapping, creation, destruction) and the properties of a
  whole session of the input module.
\<close>

section \<open>Releasing everything\<close>

lemma owned_zero: "(\<And>c. c \<in> set (controllers s) \<Longrightarrow> c_key_refs c sc = 0) \<Longrightarrow> owned_by_controllers s sc = 0"
  by (simp add: owned_by_controllers_def)

lemma release_all_spec:
  assumes inv: "input_inv sdl s" and res: "sword3_input_release_all sdl alloc s = (t, r)"
  shows "if r = None
    then input_inv sdl t \<and> (\<forall>sc. key_refs t sc = 0) \<and> opened t = opened s \<and> closed t = closed s \<and>
      map controller (controllers t) = map controller (controllers s)
    else t = s \<and> r = Some ENOMEM"
proof -
  let ?f = "key_refs s"
  define n where "n = length (filter (\<lambda>sc. ?f sc \<noteq> 0 \<and> ?f sc = key_refs s sc) (scancodes sdl))"
  have n: "length (filter (\<lambda>sc. key_refs s sc \<noteq> 0) (scancodes sdl)) = n" by (simp add: n_def)
  obtain u e where u: "reserve_queue alloc n s = (u, e)" by fastforce
  have q: "queue_inv s" using inv by (simp add: input_inv_def stream_inv_def)
  have zero: "?f sc = 0" if "\<not> valid_scancode sdl sc" for sc
  proof -
    have "c \<in> set (controllers s) \<Longrightarrow> unat (c_key_refs c sc) = 0" for c
      using count_invD(2) [OF inv] held_invalid [OF that] by (simp add: ctl_ok_def)
    then have "owned_by_controllers s sc = 0" by (intro owned_zero) (metis unat_eq_0)
    then have "unat (?f sc) = 0" using count_invD(1,3) [OF inv, of sc] that by auto
    then show ?thesis by (simp only: unat_eq_0)
  qed
  show ?thesis
  proof (cases e)
    case (Some x)
    then show ?thesis using res u reserve_error [OF q]
      by (auto simp: sword3_input_release_all_def Let_def n)
  next
    case None
    note rc = release_common [OF inv u [unfolded None] n_def order_refl zero]
    let ?cs = "map (\<lambda>c. clear_controls (c\<lparr>c_key_refs := (\<lambda>_. 0)\<rparr>)) (controllers s)"
    let ?v = "u\<lparr>keyboard_down := (\<lambda>_. False), controllers := ?cs\<rparr>"
    have cu: "controllers u = controllers s" "key_refs u = key_refs s"
      using same_keysD(1,2) [OF rc(3)] by simp_all
    have st: "stream_inv u" using inv queued_reserve [OF q u [unfolded None]] cu
      by (simp add: input_inv_def stream_inv_def)
    have "u\<lparr>keyboard_down := \<lambda>_. False, controllers := map (\<lambda>c. clear_controls (c\<lparr>c_key_refs := \<lambda>_. 0\<rparr>)) (controllers u)\<rparr> = ?v"
      by (simp add: cu)
    then have t: "t = fold (drop_refs ?f) (scancodes sdl) ?v" "r = None"
      using res u None release_all_loop [OF distinct_scancodes [of sdl], of ?v]
      by (auto simp: sword3_input_release_all_def Let_def n cu)
    have "stream_inv ?v"
      using st queue_fields_cong [of ?v u] by (simp add: stream_inv_def)
    moreover have "\<forall>sc \<in> set (scancodes sdl). ?f sc \<le> key_refs ?v sc" by (simp add: cu)
    moreover have "length (filter (\<lambda>sc. ?f sc \<noteq> 0 \<and> ?f sc = key_refs ?v sc) (scancodes sdl)) \<le> room ?v"
      using queued_reserve(4) [OF q u [unfolded None]] queue_fields_cong(3) [of ?v u]
      by (simp add: cu n_def)
    ultimately have loop: "stream_inv t"
      "same_keys (?v\<lparr>key_refs := (\<lambda>sc. if sc \<in> set (scancodes sdl) then key_refs ?v sc - ?f sc
          else key_refs ?v sc)\<rparr>) t"
      unfolding t(1) using drop_refs_loop [OF _ distinct_scancodes] by blast+
    have "(\<lambda>sc. if sc \<in> set (scancodes sdl) then key_refs ?v sc - ?f sc else key_refs ?v sc) = (\<lambda>_. 0)"
      using zero by (auto simp: fun_eq_iff set_scancodes cu)
    then have fr: "key_refs t = (\<lambda>_. 0)" "keyboard_down t = (\<lambda>_. False)" "controllers t = ?cs"
      "opened t = opened s" "closed t = closed s"
      using loop(2) rc(3) by (simp_all add: same_keys_def)
    have cs: "\<And>c. c \<in> set (controllers t) \<Longrightarrow> c_key_refs c = (\<lambda>_. 0) \<and> ctl_ok sdl t c"
      using ctl_ok_clear by (fastforce simp: fr clear_controls_def)
    moreover have "owned_by_controllers t sc = 0" for sc
      using cs by (intro owned_zero) simp
    ultimately have "count_inv sdl t" by (simp add: count_inv_def fr(1,2))
    moreover have m: "map instance_id (controllers t) = map instance_id (controllers s)"
      "map controller (controllers t) = map controller (controllers s)"
      by (simp_all add: fr clear_controls_def)
    then have "device_inv t" using inv by (simp add: input_inv_def device_inv_def fr(4,5))
    ultimately show ?thesis using loop(1) t(2) m by (simp add: input_inv_def fr)
  qed
qed

section \<open>Remapping\<close>

lemma release_controller_inputs_spec:
  assumes inv: "input_inv sdl s" and res: "release_controller_inputs sdl alloc s = (t, r)"
  shows "if r = None
    then stream_inv t \<and> device_inv t \<and> keyboard_down t = keyboard_down s \<and>
      (\<forall>c \<in> set (controllers t). c_key_refs c = (\<lambda>_. 0) \<and> (\<forall>s'. ctl_ok sdl s' c)) \<and>
      (\<forall>sc. unat (key_refs t sc) = of_bool (keyboard_down s sc))
    else t = s \<and> r = Some ENOMEM"
proof -
  let ?o = "owned_by_controllers s"
  let ?f = "\<lambda>sc. (of_nat (?o sc) :: u16)"
  have le: "?o sc \<le> unat (key_refs s sc)" for sc using count_invD(3) [OF inv, of sc] by simp
  have lt: "?o sc < 2 ^ 16" for sc
    using le [of sc] unsigned_less [of "key_refs s sc", where ?'a = nat] by simp
  have uf: "unat (?f sc) = ?o sc" for sc using lt [of sc] by (simp add: unat_of_nat)
  have f0: "?f sc = 0 \<longleftrightarrow> ?o sc = 0" for sc using uf [of sc] by (metis unat_eq_0)
  have feq: "?f sc = key_refs s sc \<longleftrightarrow> ?o sc = unat (key_refs s sc)" for sc
    by (simp add: word_unat_eq_iff uf)
  have ok0: "owned_by_controllers s sc = 0" if "\<not> valid_scancode sdl sc" for sc
  proof -
    have "c \<in> set (controllers s) \<Longrightarrow> unat (c_key_refs c sc) = 0" for c
      using count_invD(2) [OF inv] held_invalid [OF that] by (simp add: ctl_ok_def)
    then show ?thesis by (intro owned_zero) (metis unat_eq_0)
  qed
  then have zero: "?f sc = 0" if "\<not> valid_scancode sdl sc" for sc using that by (simp add: f0)
  have fle: "?f sc \<le> key_refs s sc" for sc using le by (simp add: word_le_nat_alt uf)
  define n where "n = length (filter (\<lambda>sc. ?f sc \<noteq> 0 \<and> ?f sc = key_refs s sc) (scancodes sdl))"
  have n: "length (filter (\<lambda>sc. ?o sc \<noteq> 0 \<and> ?o sc = unat (key_refs s sc)) (scancodes sdl)) = n"
    by (simp add: n_def f0 feq)
  have noerr: "\<not> list_ex (\<lambda>sc. ?o sc > unat (key_refs s sc)) (scancodes sdl)"
    using le by (simp add: list_ex_iff not_less)
  obtain u e where u: "reserve_queue alloc n s = (u, e)" by fastforce
  have q: "queue_inv s" using inv by (simp add: input_inv_def stream_inv_def)
  show ?thesis
  proof (cases e)
    case (Some x)
    then show ?thesis using res noerr u reserve_error [OF q]
      by (auto simp: release_controller_inputs_def Let_def n simp del: neq0_conv)
  next
    case None
    note rc = release_common [OF inv u [unfolded None] n_def fle zero]
    let ?d = "fold (drop_refs ?f) (scancodes sdl) u"
    let ?cs = "map (\<lambda>c. clear_controls (zero_refs {sc. valid_scancode sdl sc} c)) (controllers s)"
    have cu: "controllers u = controllers s" using rc(3) by (rule same_keysD)
    then have ou: "owned_by_controllers u = ?o" by (simp add: owned_by_controllers_def fun_eq_iff)
    have "fold release_owned_key (scancodes sdl) u =
        ?d\<lparr>controllers := map (zero_refs {sc. valid_scancode sdl sc}) (controllers s)\<rparr>"
      using release_owned_loop [of "scancodes sdl" u] lt
      by (simp add: ou cu distinct_scancodes set_scancodes)
    then have t: "t = ?d\<lparr>controllers := ?cs\<rparr>" "r = None"
      using res noerr u None by (auto simp: release_controller_inputs_def Let_def n comp_def simp del: neq0_conv)
    have fr: "key_refs t = (\<lambda>sc. key_refs s sc - ?f sc)" "keyboard_down t = keyboard_down s"
      "opened t = opened s" "closed t = closed s" "controllers t = ?cs"
      using rc(2) by (simp_all add: t same_keys_def)
    have "c_key_refs c = (\<lambda>_. 0) \<and> (\<forall>s'. ctl_ok sdl s' c)" if c: "c \<in> set (controllers t)" for c
    proof -
      obtain d where d: "d \<in> set (controllers s)" "c = clear_controls (zero_refs {sc. valid_scancode sdl sc} d)"
        using c by (auto simp: fr)
      have "c_key_refs (zero_refs {sc. valid_scancode sdl sc} d) = (\<lambda>_. 0)"
        using zero_refs_ok count_invD(2) [OF inv d(1)] by blast
      then show ?thesis using ctl_ok_clear d(2) by (simp add: clear_controls_def)
    qed
    moreover have "unat (key_refs t sc) = of_bool (keyboard_down s sc)" for sc
      using count_invD(3) [OF inv, of sc] fle [of sc] by (simp add: fr unat_sub uf)
    moreover have "map instance_id (controllers t) = map instance_id (controllers s)"
      "map controller (controllers t) = map controller (controllers s)"
      by (simp_all add: fr clear_controls_def zero_refs_def)
    then have "device_inv t" using inv by (simp add: input_inv_def device_inv_def fr(3,4))
    moreover have "stream_inv t" using rc(1) by (simp add: t)
    ultimately show ?thesis using t(2) by (simp add: fr)
  qed
qed

lemma remap_inv:
  assumes inv: "input_inv sdl s" and rel: "release_controller_inputs sdl alloc s = (u, None)"
    and t: "controllers t = controllers u" "key_refs t = key_refs u" "keyboard_down t = keyboard_down u"
      "opened t = opened u" "closed t = closed u"
      "queue t = queue u" "queue_head t = queue_head u" "queue_count t = queue_count u" "taken t = taken u"
  shows "input_inv sdl t"
proof -
  note spec = release_controller_inputs_spec [OF inv rel, simplified]
  have "owned_by_controllers t sc = 0" for sc
    using spec by (intro owned_zero) (simp add: t)
  then have "count_inv sdl t"
    using spec count_invD(1) [OF inv] by (auto simp: count_inv_def t)
  moreover have "stream_inv t"
    using spec queue_fields_cong [OF t(6-9)] by (simp add: stream_inv_def t(2))
  moreover have "device_inv t" using spec by (simp add: device_inv_def t)
  ultimately show ?thesis by (simp add: input_inv_def)
qed

lemma map_button_inv:
  assumes inv: "input_inv sdl s" and res: "sword3_input_map_button sdl alloc b sc s = (t, r)"
  shows "input_inv sdl t"
proof -
  obtain u e where u: "release_controller_inputs sdl alloc s = (u, e)" by fastforce
  show ?thesis
  proof (cases e)
    case None
    then show ?thesis
      using inv res u remap_inv [OF inv u [unfolded None], of "u\<lparr>button_map := (button_map u)(b := sc)\<rparr>"]
      by (auto simp: sword3_input_map_button_def split: if_splits)
  next
    case (Some x)
    then show ?thesis using inv res u release_controller_inputs_spec [OF inv u]
      by (auto simp: sword3_input_map_button_def split: if_splits)
  qed
qed

lemma map_axis_inv:
  assumes inv: "input_inv sdl s" and res: "sword3_input_map_axis sdl alloc a neg pos s = (t, r)"
  shows "input_inv sdl t"
proof -
  obtain u e where u: "release_controller_inputs sdl alloc s = (u, e)" by fastforce
  show ?thesis
  proof (cases e)
    case None
    then show ?thesis
      using inv res u remap_inv [OF inv u [unfolded None], of "u\<lparr>axis_negative := (axis_negative u)(a := neg),
          axis_positive := (axis_positive u)(a := pos)\<rparr>"]
      by (auto simp: sword3_input_map_axis_def split: if_splits)
  next
    case (Some x)
    then show ?thesis using inv res u release_controller_inputs_spec [OF inv u]
      by (auto simp: sword3_input_map_axis_def split: if_splits)
  qed
qed

section \<open>Devices\<close>

lemma device_step_inv:
  assumes inv: "input_inv sdl s" and cs: "controllers t = cs @ controllers s"
    and new: "\<And>c. c \<in> set cs \<Longrightarrow> c_key_refs c = (\<lambda>_. 0) \<and> button_down c = (\<lambda>_. False) \<and> axis_direction c = (\<lambda>_. 0)"
    and dev: "device_inv t"
    and t: "key_refs t = key_refs s" "keyboard_down t = keyboard_down s" "button_map t = button_map s"
      "axis_negative t = axis_negative s" "axis_positive t = axis_positive s"
      "queue t = queue s" "queue_head t = queue_head s" "queue_count t = queue_count s" "taken t = taken s"
  shows "input_inv sdl t"
proof -
  have held: "held sdl t = held sdl s" using t by (intro held_maps) simp_all
  have "owned_by_controllers t sc = owned_by_controllers s sc" for sc
  proof -
    have "sum_list (map (\<lambda>c. unat (c_key_refs c sc)) cs) = 0" using new by simp
    then show ?thesis by (simp add: owned_by_controllers_def cs)
  qed
  moreover have "ctl_ok sdl s c" if "c \<in> set (controllers t)" for c
    using that new [of c] count_invD(2) [OF inv] by (auto simp: cs ctl_ok_def held_def)
  ultimately have "count_inv sdl t"
    using inv by (auto simp: input_inv_def count_inv_def ctl_ok_def t held)
  moreover have "stream_inv t"
    using inv queue_fields_cong [OF t(6-9)] by (simp add: input_inv_def stream_inv_def t(1))
  ultimately show ?thesis using dev by (simp add: input_inv_def)
qed

lemma close_opened_inv:
  "input_inv sdl s \<Longrightarrow> input_inv sdl (close_controller h (s\<lparr>opened := opened s @ [h]\<rparr>))"
  by (rule device_step_inv [where cs = "[]"])
     (auto simp: close_controller_def input_inv_def device_inv_def)

lemma add_controller_inv:
  assumes inv: "input_inv sdl s" and res: "add_controller sdl alloc node i s = (t, r)"
  shows "input_inv sdl t"
proof (cases "SDL_IsGameController sdl i")
  case False
  then show ?thesis using inv res by (simp add: add_controller_def)
next
  case True
  show ?thesis
  proof (cases "SDL_GameControllerOpen sdl i")
    case None
    then show ?thesis using inv res True by (simp add: add_controller_def)
  next
    case (Some h)
    let ?s = "s\<lparr>opened := opened s @ [h]\<rparr>"
    let ?new = "\<lambda>i. \<lparr>controller = h, instance_id = i, c_key_refs = (\<lambda>_. 0),
      button_down = (\<lambda>_. False), axis_direction = (\<lambda>_. 0)\<rparr>"
    have "t = close_controller h ?s \<or>
        (\<exists>i. find_controller ?s i = None \<and> t = ?s\<lparr>controllers := ?new i # controllers s\<rparr>)"
      using res True Some by (auto simp: add_controller_def Let_def split: option.splits if_splits)
    then show ?thesis
    proof
      assume "t = close_controller h ?s"
      then show ?thesis using close_opened_inv [OF inv] by simp
    next
      assume "\<exists>i. find_controller ?s i = None \<and> t = ?s\<lparr>controllers := ?new i # controllers s\<rparr>"
      then obtain j where j: "find_controller ?s j = None" "t = ?s\<lparr>controllers := ?new j # controllers s\<rparr>"
        by blast
      then have "j \<notin> instance_id ` set (controllers s)"
        using find_index_None by (simp add: find_controller_def)
      then have "device_inv t" using inv j(2) by (auto simp: input_inv_def device_inv_def)
      then show ?thesis
        using j(2) by (intro device_step_inv [OF inv, where cs = "[?new j]"]) auto
    qed
  qed
qed

lemma add_controllers_inv:
  "input_inv sdl s \<Longrightarrow> add_controllers sdl alloc node is s = (t, r) \<Longrightarrow> input_inv sdl t"
proof (induction "is" arbitrary: s)
  case Nil
  then show ?case by simp
next
  case (Cons i "is")
  obtain u e where u: "add_controller sdl alloc node i s = (u, e)" by fastforce
  then have "input_inv sdl u" using add_controller_inv Cons.prems(1) by blast
  then show ?case using Cons u by (cases e) auto
qed

lemma empty_inv: "input_inv sdl (set_default_mappings sdl (empty_input cb))"
proof -
  let ?s = "set_default_mappings sdl (empty_input cb)"
  have "controllers ?s = []" "key_refs ?s = (\<lambda>_. 0)" "keyboard_down ?s = (\<lambda>_. False)"
    "opened ?s = []" "closed ?s = []" "queue ?s = []" "queue_head ?s = 0" "queue_count ?s = 0" "taken ?s = []"
    by (simp_all add: set_default_mappings_def empty_input_def Let_def)
  then show ?thesis
    by (simp add: input_inv_def stream_inv_def count_inv_def device_inv_def queue_inv_def emitted_def
        contents_def stream_ok_def clean_def replay_def owned_by_controllers_def)
qed

lemma close_all:
  "closed (fold (\<lambda>c. close_controller (controller c)) cs s) = closed s @ map controller cs \<and>
   opened (fold (\<lambda>c. close_controller (controller c)) cs s) = opened s"
  by (induction cs arbitrary: s) (simp_all add: close_controller_def)

lemma destroy_closes:
  assumes "input_inv sdl s"
  shows "mset (closed (sword3_input_destroy sdl alloc s)) = mset (opened (sword3_input_destroy sdl alloc s))"
proof -
  obtain u e where u: "sword3_input_release_all sdl alloc s = (u, e)" by fastforce
  have "input_inv sdl u" using release_all_spec [OF assms u] assms by (cases e) auto
  then show ?thesis
    by (simp add: sword3_input_destroy_def u close_all input_inv_def device_inv_def)
qed

section \<open>Sessions\<close>

text \<open>The calls a client makes, each with the allocator's behaviour at that moment.\<close>

datatype input_call =
    Handle "SDL_Event option"
  | Poll bool
  | Release_All
  | Map_Button int int
  | Map_Axis int int int

fun input_step :: "sdl \<Rightarrow> nat \<Rightarrow> input_call \<times> (nat \<Rightarrow> bool) \<Rightarrow> Sword3Input \<Rightarrow> Sword3Input" where
  "input_step sdl node (Handle event, alloc) s = fst (sword3_input_handle_event sdl alloc node event s)"
| "input_step sdl node (Poll given, alloc) s =
     (case fst (sword3_input_poll (Some s) given) of Some t \<Rightarrow> t | None \<Rightarrow> s)"
| "input_step sdl node (Release_All, alloc) s = fst (sword3_input_release_all sdl alloc s)"
| "input_step sdl node (Map_Button button sc, alloc) s = fst (sword3_input_map_button sdl alloc button sc s)"
| "input_step sdl node (Map_Axis axis neg pos, alloc) s = fst (sword3_input_map_axis sdl alloc axis neg pos s)"

lemma fst_consumed: "fst (consumed r) = fst r"
  by (simp add: consumed_def split: prod.splits option.splits)

lemma release_all_inv: "input_inv sdl s \<Longrightarrow> input_inv sdl (fst (sword3_input_release_all sdl alloc s))"
  using release_all_spec [of sdl s alloc]
  by (cases "sword3_input_release_all sdl alloc s"; cases "snd (sword3_input_release_all sdl alloc s)") auto

lemma handle_event_inv:
  assumes "input_inv sdl s"
  shows "input_inv sdl (fst (sword3_input_handle_event sdl alloc node event s))"
proof -
  note step = handle_keyboard_inv [OF assms surjective_pairing]
    add_controller_inv [OF assms surjective_pairing] remove_controller_inv [OF assms surjective_pairing]
    handle_button_inv [OF assms surjective_pairing] handle_axis_inv [OF assms surjective_pairing]
  show ?thesis using assms release_all_inv [OF assms]
    by (simp add: sword3_input_handle_event_def fst_consumed step split: option.split SDL_Event.split)
qed

lemma poll_inv:
  assumes "input_inv sdl s"
  shows "input_inv sdl (fst (poll_event s))"
proof -
  have q: "queued [] s (fst (poll_event s))"
    using assms by (intro queued_poll) (simp add: input_inv_def stream_inv_def)
  then have "stream_inv (fst (poll_event s))"
    using assms by (simp add: queued_def input_inv_def stream_inv_def same_keys_def)
  moreover have k: "same_keys s (fst (poll_event s))" using q by (simp add: queued_def)
  have "held sdl (fst (poll_event s)) = held sdl s"
    using same_keysD [OF k] by (intro held_maps) simp_all
  then have "count_inv sdl (fst (poll_event s))" "device_inv (fst (poll_event s))"
    using assms same_keysD [OF k]
    by (simp_all add: input_inv_def count_inv_def device_inv_def ctl_ok_def owned_by_controllers_def)
  ultimately show ?thesis by (simp add: input_inv_def)
qed

interpretation input_session: step_invariant "input_step sdl node" "input_inv sdl" for sdl node
proof
  fix call :: "input_call \<times> (nat \<Rightarrow> bool)" and s
  assume inv: "input_inv sdl s"
  have "fst (sword3_input_poll (Some s) given) = Some (if given then fst (poll_event s) else s)" for given
    by (simp add: sword3_input_poll_def case_prod_beta split: option.split)
  moreover note map_button_inv [OF inv surjective_pairing] map_axis_inv [OF inv surjective_pairing]
  ultimately show "input_inv sdl (input_step sdl node call s)"
    using inv handle_event_inv [OF inv] release_all_inv [OF inv] poll_inv [OF inv]
    by (cases call; cases "fst call") auto
qed

lemma create_inv:
  assumes "sword3_input_create sdl alloc bytes node cb = Inr s"
  shows "input_inv sdl s"
proof -
  obtain u e where u: "add_controllers sdl alloc node [0..SDL_NumJoysticks sdl - 1]
      (set_default_mappings sdl (empty_input cb)) = (u, e)" by fastforce
  then have "input_inv sdl u" using add_controllers_inv [OF empty_inv] by blast
  moreover have "s = u" using assms u
    by (auto simp: sword3_input_create_def Let_def split: if_splits option.splits)
  ultimately show ?thesis by simp
qed

lemma held_pos: "0 < held sdl s c sc \<Longrightarrow> valid_scancode sdl sc"
  by (simp add: held_def split: if_splits)

lemma owned_pos: "0 < owned_by_controllers s sc \<longleftrightarrow> (\<exists>c \<in> set (controllers s). 0 < unat (c_key_refs c sc))"
  by (auto simp: owned_by_controllers_def neq0_conv [symmetric] simp del: neq0_conv)

text \<open>A device with one controller, for the witnesses.\<close>

definition demo_sdl :: sdl where
  "demo_sdl = \<lparr>SDL_NUM_SCANCODES = 512, SDL_CONTROLLER_BUTTON_MAX = 21, SDL_CONTROLLER_AXIS_MAX = 6,
     scancode_of = (\<lambda>k. case k of SDL_SCANCODE_RETURN \<Rightarrow> 40 | SDL_SCANCODE_ESCAPE \<Rightarrow> 41 | _ \<Rightarrow> 42),
     button_of = (\<lambda>b. case b of SDL_CONTROLLER_BUTTON_A \<Rightarrow> 0 | SDL_CONTROLLER_BUTTON_B \<Rightarrow> 1 | _ \<Rightarrow> 2),
     axis_of = (\<lambda>a. case a of SDL_CONTROLLER_AXIS_LEFTX \<Rightarrow> 0 | _ \<Rightarrow> 1),
     SDL_NumJoysticks = 1, SDL_IsGameController = (\<lambda>_. True), SDL_GameControllerOpen = (\<lambda>i. Some 7),
     SDL_GameControllerGetJoystick = Some, SDL_JoystickInstanceID = (\<lambda>_. 5)\<rparr>"

definition demo_input :: Sword3Input where
  "demo_input = (case sword3_input_create demo_sdl (\<lambda>_. True) 1 1 None of Inl s \<Rightarrow> s | Inr s \<Rightarrow> s)"

lemma demo_create: "sword3_input_create demo_sdl (\<lambda>_. True) 1 1 None = Inr demo_input"
  by (simp add: sword3_input_create_def demo_input_def demo_sdl_def Let_def add_controller_def
      find_controller_def empty_input_def set_default_mappings_def)

definition demo_calls :: "(input_call \<times> (nat \<Rightarrow> bool)) list" where
  "demo_calls = [(Handle (Some (SDL_CONTROLLERBUTTONDOWN 5 1)), (\<lambda>_. True))]"

lemma demo_input_eq:
  "demo_input = (set_default_mappings demo_sdl (empty_input None))
     \<lparr>controllers := [\<lparr>controller = 7, instance_id = 5, c_key_refs = (\<lambda>_. 0),
        button_down = (\<lambda>_. False), axis_direction = (\<lambda>_. 0)\<rparr>], opened := [7]\<rparr>"
  by (simp add: sword3_input_create_def demo_input_def demo_sdl_def Let_def add_controller_def
      find_controller_def empty_input_def set_default_mappings_def)

definition demo_pressed :: Sword3Input where
  "demo_pressed = fold (input_step demo_sdl 1) demo_calls demo_input"

lemma demo_pressed_facts:
  "key_refs demo_pressed = (\<lambda>_. 0)(41 := 1)" "keyboard_down demo_pressed = (\<lambda>_. False)"
  "taken demo_pressed = []" "contents demo_pressed = [\<lparr>scancode = 41, pressed = True\<rparr>]"
  "queue_count demo_pressed = 1" "queue_capacity demo_pressed = 32"
proof -
  have "grow_capacity 1 32 = 32" by (simp add: grow_capacity.simps)
  then have eq: "demo_pressed = demo_input
     \<lparr>controllers := [\<lparr>controller = 7, instance_id = 5, c_key_refs = (\<lambda>_. 0)(41 := 1),
        button_down = (\<lambda>_. False)(1 := True), axis_direction = (\<lambda>_. 0)\<rparr>],
      key_refs := (\<lambda>_. 0)(41 := 1), queue := (replicate 32 blank_event)[0 := \<lparr>scancode = 41, pressed = True\<rparr>],
      queue_count := 1\<rparr>"
    by (simp add: demo_pressed_def demo_calls_def sword3_input_handle_event_def fst_consumed handle_button_def
        find_controller_def demo_input_eq change_controller_key_def valid_scancode_def reserve_queue_def
        SDL_SCANCODE_UNKNOWN_def set_default_mappings_def empty_input_def demo_sdl_def Let_def
        SIZE_MAX_def sizeof_event_def set_both_refs_def enqueue_reserved_def push_event_def
        run_callback_def set_button_def)
  show "key_refs demo_pressed = (\<lambda>_. 0)(41 := 1)" "keyboard_down demo_pressed = (\<lambda>_. False)"
    "taken demo_pressed = []" "contents demo_pressed = [\<lparr>scancode = 41, pressed = True\<rparr>]"
    "queue_count demo_pressed = 1" "queue_capacity demo_pressed = 32"
    unfolding eq by (simp_all add: demo_input_eq set_default_mappings_def empty_input_def Let_def contents_def)
qed

lemma demo_down: "sword3_input_is_down demo_sdl (Some demo_pressed) 41"
  by (simp add: sword3_input_is_down_def demo_pressed_facts valid_scancode_def SDL_SCANCODE_UNKNOWN_def
      demo_sdl_def)

text \<open>C27: a key is down exactly while something holds it. After any successful creation and any
  sequence of calls, with allocations failing at any point and the callback polling as it likes,
  \<^verbatim>\<open>sword3_input_is_down\<close> is true for a scancode if and only if the keyboard key is held or some
  connected controller has a button or axis direction down that is mapped to it: no key sticks
  and none is lost, whatever was plugged in, removed or remapped in between.\<close>

theorem input_down_iff_held:
  assumes "sword3_input_create sdl alloc bytes node cb = Inr s0"
  shows "let s = fold (input_step sdl node) calls s0 in
    sword3_input_is_down sdl (Some s) sc \<longleftrightarrow>
      keyboard_down s sc \<or> (\<exists>c \<in> set (controllers s). 0 < held sdl s c sc)"
proof -
  define s where "s = fold (input_step sdl node) calls s0"
  have inv: "input_inv sdl s"
    unfolding s_def using input_session.run_inv create_inv [OF assms] by blast
  have "key_refs s sc \<noteq> 0 \<longleftrightarrow> keyboard_down s sc \<or> 0 < owned_by_controllers s sc"
    using count_invD(3) [OF inv, of sc] by (metis add_gr_0 neq0_conv of_bool_eq_0_iff unat_gt_0)
  moreover have "0 < owned_by_controllers s sc \<longleftrightarrow> (\<exists>c \<in> set (controllers s). 0 < held sdl s c sc)"
    using count_invD(2) [OF inv] by (simp add: owned_pos ctl_ok_def)
  ultimately show ?thesis
    using count_invD(1) [OF inv] by (auto dest: held_pos simp: sword3_input_is_down_def s_def [symmetric] Let_def)
qed

theorem input_down_iff_held_witness:
  "sword3_input_is_down demo_sdl (Some demo_pressed) 41 \<and>
   (\<exists>c \<in> set (controllers demo_pressed). 0 < held demo_sdl demo_pressed c 41)"
  using input_down_iff_held [OF demo_create, of demo_calls 41, folded demo_pressed_def]
    demo_down by (simp add: Let_def demo_pressed_facts)

text \<open>C28: the event stream tells the truth. In every such session the events produced so far,
  those already polled followed by those still queued, alternate between press and release for
  each key, starting with a press, and replaying them gives exactly the keys that are down.\<close>

theorem input_stream_alternates:
  assumes "sword3_input_create sdl alloc bytes node cb = Inr s0"
  shows "let s = fold (input_step sdl node) calls s0; es = taken s @ contents s in
    clean es \<and> (sword3_input_is_down sdl (Some s) sc \<longleftrightarrow> replay es sc)"
proof -
  define s where "s = fold (input_step sdl node) calls s0"
  have inv: "input_inv sdl s"
    unfolding s_def using input_session.run_inv create_inv [OF assms] by blast
  then have "stream_ok (taken s @ contents s) (key_refs s)"
    by (simp add: input_inv_def stream_inv_def emitted_def)
  moreover have "key_refs s sc \<noteq> 0 \<Longrightarrow> valid_scancode sdl sc"
  proof -
    assume "key_refs s sc \<noteq> 0"
    then have "keyboard_down s sc \<or> 0 < owned_by_controllers s sc"
      using count_invD(3) [OF inv, of sc] by (metis add_gr_0 neq0_conv of_bool_eq_0_iff unat_gt_0)
    then show ?thesis using count_invD(1,2) [OF inv]
      by (auto simp: owned_pos ctl_ok_def dest: held_pos)
  qed
  ultimately show ?thesis
    by (auto simp: sword3_input_is_down_def stream_ok_def s_def [symmetric] Let_def)
qed

theorem input_stream_alternates_witness:
  "clean [\<lparr>scancode = 41, pressed = True\<rparr>] \<and> contents demo_pressed = [\<lparr>scancode = 41, pressed = True\<rparr>] \<and>
   (sword3_input_is_down demo_sdl (Some demo_pressed) 41 \<longleftrightarrow> replay [\<lparr>scancode = 41, pressed = True\<rparr>] 41)"
  using input_stream_alternates [OF demo_create, of demo_calls 41, folded demo_pressed_def]
  by (simp add: Let_def demo_pressed_facts)

text \<open>C30: release is all or nothing. In every session \<^verbatim>\<open>sword3_input_release_all\<close> either fails with
  ENOMEM and leaves the state exactly as it was, or succeeds with no key down.\<close>

theorem input_release_all_atomic:
  assumes "sword3_input_create sdl alloc bytes node cb = Inr s0"
  shows "let s = fold (input_step sdl node) calls s0 in
    sword3_input_release_all sdl alloc' s = (s, Some ENOMEM) \<or>
    (\<exists>t. sword3_input_release_all sdl alloc' s = (t, None) \<and>
       (\<forall>sc. \<not> sword3_input_is_down sdl (Some t) sc))"
proof -
  define s where "s = fold (input_step sdl node) calls s0"
  have inv: "input_inv sdl s"
    unfolding s_def using input_session.run_inv create_inv [OF assms] by blast
  obtain t r where r: "sword3_input_release_all sdl alloc' s = (t, r)" by fastforce
  with release_all_spec [OF inv r] show ?thesis
    by (cases r) (auto simp: sword3_input_is_down_def s_def [symmetric] Let_def)
qed

theorem input_release_all_atomic_witness:
  "\<exists>t. sword3_input_release_all demo_sdl (\<lambda>_. False) demo_pressed = (t, None) \<and>
     \<not> sword3_input_is_down demo_sdl (Some t) 41"
proof -
  have "length (filter (\<lambda>sc. key_refs demo_pressed sc \<noteq> 0) (scancodes demo_sdl)) \<le> length [41 :: int]"
  proof -
    let ?xs = "filter (\<lambda>sc. key_refs demo_pressed sc \<noteq> 0) (scancodes demo_sdl)"
    have "length ?xs = card (set ?xs)"
      by (rule distinct_card [symmetric]) (simp add: distinct_scancodes)
    also have "\<dots> \<le> card {41 :: int}"
      using demo_pressed_facts(1) by (intro card_mono) (auto split: if_splits)
    finally show ?thesis by simp
  qed
  then have "snd (sword3_input_release_all demo_sdl (\<lambda>_. False) demo_pressed) = None"
    by (auto simp: sword3_input_release_all_def Let_def reserve_queue_def demo_pressed_facts SIZE_MAX_def)
  with input_release_all_atomic [OF demo_create, of demo_calls "\<lambda>_. False",
      folded demo_pressed_def] show ?thesis
    by (auto simp: Let_def)
qed

lemma poll_step: "input_step sdl node (Poll True, alloc) s = fst (poll_event s)"
  by (simp add: sword3_input_poll_def case_prod_beta split: option.split)

text \<open>Polls take the pending events in order.\<close>

lemma drain:
  "queue_inv s \<Longrightarrow> contents s = es \<Longrightarrow>
   let u = fold (input_step sdl node) (replicate (length es) (Poll True, alloc)) s
   in same_keys s u \<and> queue_inv u \<and> taken u = taken s @ es \<and> queue_count u = 0"
proof (induction es arbitrary: s)
  case Nil
  then show ?case using length_contents [of s] by (simp add: same_keys_def)
next
  case (Cons e es)
  let ?t = "fst (poll_event s)"
  have p: "queue_inv ?t" "contents ?t = es" "same_keys s ?t"
    using poll_event_inv poll_event_Cons Cons.prems queued_poll [OF Cons.prems(1)] by (auto simp: queued_def)
  have "emitted ?t = emitted s" using queued_poll [OF Cons.prems(1)] by (simp add: queued_def)
  then have t: "taken ?t = taken s @ [e]" using p(2) Cons.prems(2) by (simp add: emitted_def)
  show ?case using Cons.IH [OF p(1,2)] p(3) t by (simp add: poll_step Let_def same_keys_def funpow_Suc_right del: funpow.simps input_step.simps)
qed

text \<open>C29: a client that polls catches up. From any state of a session, as many polls as events are pending hand out exactly these,
  in order; the next poll finds nothing, and the events the client has received by then replay to exactly the keys that are down.\<close>

theorem input_client_catches_up:
  assumes "sword3_input_create sdl alloc bytes node cb = Inr s0"
  shows "let s = fold (input_step sdl node) calls s0;
       u = fold (input_step sdl node) (replicate (queue_count s) (Poll True, alloc')) s
     in taken u = taken s @ contents s \<and> fst (snd (sword3_input_poll (Some u) True)) = 0 \<and>
       (\<forall>sc. replay (taken u) sc \<longleftrightarrow> key_refs s sc \<noteq> 0) \<and> key_refs u = key_refs s"
proof -
  define s where "s = fold (input_step sdl node) calls s0"
  define u where "u = fold (input_step sdl node) (replicate (queue_count s) (Poll True, alloc')) s"
  have "input_inv sdl s" unfolding s_def using input_session.run_inv create_inv [OF assms] by blast
  then have inv: "queue_inv s" "stream_ok (taken s @ contents s) (key_refs s)"
    by (simp_all add: input_inv_def stream_inv_def emitted_def)
  have d: "same_keys s u \<and> queue_inv u \<and> taken u = taken s @ contents s \<and> queue_count u = 0"
    using drain [OF inv(1) refl, of sdl node alloc'] by (simp add: u_def Let_def)
  then have "fst (snd (sword3_input_poll (Some u) True)) = 0" by (simp add: sword3_input_poll_def poll_event_def)
  moreover have "\<forall>sc. replay (taken u) sc \<longleftrightarrow> key_refs s sc \<noteq> 0" using inv(2) d by (simp add: stream_ok_def)
  ultimately show ?thesis unfolding Let_def s_def [symmetric] u_def [symmetric] using d by (simp add: same_keys_def)
qed

theorem input_client_catches_up_witness:
  "taken (fold (input_step demo_sdl 1) [(Poll True, \<lambda>_. True)] demo_pressed) = [\<lparr>scancode = 41, pressed = True\<rparr>]"
  using input_client_catches_up [OF demo_create, of demo_calls "\<lambda>_. True", folded demo_pressed_def]
  by (simp add: Let_def demo_pressed_facts)

text \<open>C31: no device handle leaks and none is closed twice. A failed creation has closed exactly the
  handles it opened, and destroying a session closes exactly the handles that were opened and not
  closed before.\<close>

theorem input_handles_closed:
  "(case sword3_input_create sdl alloc bytes node cb of
      Inl t \<Rightarrow> mset (closed t) = mset (opened t)
    | Inr s0 \<Rightarrow>
        (let t = sword3_input_destroy sdl alloc' (fold (input_step sdl node) calls s0)
         in mset (closed t) = mset (opened t)))"
proof (cases "sword3_input_create sdl alloc bytes node cb")
  case (Inr s0)
  have "input_inv sdl (fold (input_step sdl node) calls s0)"
    using input_session.run_inv create_inv [OF Inr] by blast
  then show ?thesis using Inr destroy_closes by (simp add: Let_def)
next
  case (Inl t)
  obtain u e where u: "add_controllers sdl alloc node [0..SDL_NumJoysticks sdl - 1]
      (set_default_mappings sdl (empty_input cb)) = (u, e)" by fastforce
  then have "input_inv sdl u" using add_controllers_inv [OF empty_inv] by blast
  then have "t = empty_input cb \<or> (\<exists>v. input_inv sdl v \<and> t = sword3_input_destroy sdl alloc v)"
    using Inl u empty_inv
    by (auto simp: sword3_input_create_def Let_def split: if_splits option.splits)
  then show ?thesis using Inl destroy_closes by (auto simp: empty_input_def)
qed

text \<open>The stick has hysteresis. A deflection of at least 16000 is a press in its direction; one
  of less than 10000 releases; in between, a direction that is held stays held and none is taken.\<close>

theorem axis_hysteresis:
  "new_axis_direction d v =
    (if v \<ge> 16000 \<and> d \<le> 0 then 1 else if v \<le> - 16000 \<and> d \<ge> 0 then - 1
     else if d < 0 \<and> v > - 10000 \<or> d > 0 \<and> v < 10000 then 0 else d)"
  by (auto simp: new_axis_direction_def AXIS_PRESS_THRESHOLD_def AXIS_RELEASE_THRESHOLD_def Let_def)

end
