(* ===== verification/C_String.thy ===== *)
theory C_String
  imports Machismo_Prelude
begin

text \<open>
  The parts of the C library on strings that the parsers of the repository use. A C string is the
  list of its characters up to the terminating NUL, which is not part of the list; reading past
  the last character yields the NUL. The classification functions are those of the C locale.
\<close>

type_synonym cstr = string

abbreviation NUL :: char where "NUL \<equiv> CHR 0x00"

definition at0 :: "cstr \<Rightarrow> nat \<Rightarrow> char" where
  "at0 s n = (if n < length s then s ! n else NUL)"

lemma at0_simps [simp]:
  "at0 [] n = NUL" "at0 (c # s) 0 = c" "at0 (c # s) (Suc n) = at0 s n"
  "at0 (c # s) (numeral k) = at0 s (numeral k - 1)"
  by (simp_all add: at0_def nth_Cons' numeral_eq_Suc)

definition isspace :: "char \<Rightarrow> bool" where
  "isspace c \<longleftrightarrow> c \<in> {CHR '' '', CHR 0x09, CHR 0x0A, CHR 0x0B, CHR 0x0C, CHR 0x0D}"

definition code :: "char \<Rightarrow> nat" where
  "code c = of_char c"

lemma code_inject: "code c = code d \<longleftrightarrow> c = d"
  by (simp add: code_def)

definition is_hex_digit :: "char \<Rightarrow> bool" where
  "is_hex_digit c \<longleftrightarrow> 48 \<le> code c \<and> code c \<le> 57 \<or> 97 \<le> code c \<and> code c \<le> 102 \<or>
     65 \<le> code c \<and> code c \<le> 70"

definition hex_value :: "char \<Rightarrow> nat" where
  "hex_value c = (if code c \<le> 57 then code c - 48 else if code c \<le> 70 then code c - 55
     else code c - 87)"

lemma hex_value_less: "is_hex_digit c \<Longrightarrow> hex_value c < 16"
  by (auto simp: is_hex_digit_def hex_value_def)

lemma not_hex [simp]:
  "\<not> is_hex_digit NUL" "\<not> is_hex_digit CHR ''x''" "\<not> is_hex_digit CHR ''X''"
  "\<not> is_hex_digit CHR '' ''" "\<not> is_hex_digit CHR 0x0A" "\<not> is_hex_digit CHR 0x0D"
  "\<not> is_hex_digit CHR 0x09" "\<not> is_hex_digit CHR ''-''" "\<not> is_hex_digit CHR ''+''"
  "\<not> is_hex_digit CHR 0x0B" "\<not> is_hex_digit CHR 0x0C"
  by (simp_all add: is_hex_digit_def code_def)

section \<open>Numbers in base 16\<close>

definition hex_number :: "cstr \<Rightarrow> nat" where
  "hex_number ds = fold (\<lambda>c n. 16 * n + hex_value c) ds 0"

definition ULLONG_MAX :: nat where "ULLONG_MAX = 2 ^ 64 - 1"

text \<open>\<^verbatim>\<open>strtoull(s, &end, 16)\<close>: white space, a sign, a prefix \<^verbatim>\<open>0x\<close> if a digit follows it, digits. The
  result is the value, whether it was out of range (\<^verbatim>\<open>errno\<close> is then \<^verbatim>\<open>ERANGE\<close>), and the rest of the
  string, which is the whole string if there is no digit.\<close>

definition strtoull16 :: "cstr \<Rightarrow> u64 \<times> bool \<times> cstr" where
  "strtoull16 s =
    (let t = dropWhile isspace s;
         neg = (at0 t 0 = CHR ''-'');
         t = (if at0 t 0 = CHR ''-'' \<or> at0 t 0 = CHR ''+'' then drop 1 t else t);
         t = (if at0 t 0 = CHR ''0'' \<and> (at0 t 1 = CHR ''x'' \<or> at0 t 1 = CHR ''X'') \<and> is_hex_digit (at0 t 2)
              then drop 2 t else t);
         ds = takeWhile is_hex_digit t;
         n = hex_number ds
     in if ds = [] then (0, False, s)
        else if n > ULLONG_MAX then (- 1, True, dropWhile is_hex_digit t)
        else (if neg then - of_nat n else of_nat n, False, dropWhile is_hex_digit t))"

text \<open>Printing a number in base 16, the inverse.\<close>

definition hex_char :: "nat \<Rightarrow> char" where
  "hex_char d = (if d < 10 then char_of (48 + d) else char_of (87 + d))"

fun hex_digits :: "nat \<Rightarrow> cstr" where
  "hex_digits n = (if n < 16 then [hex_char n] else hex_digits (n div 16) @ [hex_char (n mod 16)])"

declare hex_digits.simps [simp del]

lemma code_hex_char: "d < 16 \<Longrightarrow> code (hex_char d) = (if d < 10 then 48 + d else 87 + d)"
  by (simp add: code_def hex_char_def)

lemma hex_char_ok: "d < 16 \<Longrightarrow> is_hex_digit (hex_char d) \<and> hex_value (hex_char d) = d"
  by (auto simp: is_hex_digit_def hex_value_def code_hex_char)

lemma hex_digits_ok: "list_all is_hex_digit (hex_digits n) \<and> hex_digits n \<noteq> [] \<and> hex_number (hex_digits n) = n"
proof (induction n rule: hex_digits.induct)
  case (1 n)
  show ?case
  proof (cases "n < 16")
    case True
    then show ?thesis using hex_char_ok [of n]
      by (subst (1 2 3) hex_digits.simps) (simp add: hex_number_def)
  next
    case False
    with 1 have "list_all is_hex_digit (hex_digits (n div 16))" "hex_number (hex_digits (n div 16)) = n div 16"
      by auto
    then show ?thesis using False hex_char_ok [of "n mod 16"]
      by (subst (1 2 3) hex_digits.simps) (simp add: hex_number_def)
  qed
qed

lemma takeWhile_digits:
  assumes "list_all is_hex_digit ds" "\<not> is_hex_digit (at0 rest 0)"
  shows "takeWhile is_hex_digit (ds @ rest) = ds" "dropWhile is_hex_digit (ds @ rest) = rest"
  using assms by (induction ds; cases rest; auto)+

lemma hex_digits_length: "n < 16 ^ Suc k \<Longrightarrow> length (hex_digits n) \<le> Suc k"
proof (induction k arbitrary: n)
  case 0
  then show ?case by (subst hex_digits.simps) simp
next
  case (Suc k)
  then have "n div 16 < 16 ^ Suc k" by (simp add: less_mult_imp_div_less)
  then have "length (hex_digits (n div 16)) \<le> Suc k" by (rule Suc.IH)
  then show ?case by (subst hex_digits.simps) simp
qed

section \<open>Searching and trimming\<close>

definition strip :: "cstr \<Rightarrow> cstr" where
  "strip s = rev (dropWhile isspace (rev (dropWhile isspace s)))"

text \<open>\<^verbatim>\<open>strchr\<close> for a character other than NUL: the strings before and after the first occurrence.\<close>

definition split_at :: "char \<Rightarrow> cstr \<Rightarrow> (cstr \<times> cstr) option" where
  "split_at c s =
    (if c \<in> set s then Some (takeWhile (\<lambda>x. x \<noteq> c) s, drop 1 (dropWhile (\<lambda>x. x \<noteq> c) s)) else None)"

definition starts_with :: "cstr \<Rightarrow> cstr \<Rightarrow> bool" where
  "starts_with p s \<longleftrightarrow> take (length p) s = p"

lemma starts_with_append [simp]: "starts_with p (p @ s)"
  by (simp add: starts_with_def)

text \<open>A string with no white space at its ends.\<close>

definition trimmed :: "cstr \<Rightarrow> bool" where
  "trimmed s \<longleftrightarrow> s = [] \<or> \<not> isspace (hd s) \<and> \<not> isspace (last s)"

lemma dropWhile_hd: "s = [] \<or> \<not> P (hd s) \<Longrightarrow> dropWhile P s = s"
  by (cases s) auto

lemma strip_trimmed: "trimmed s \<Longrightarrow> strip s = s"
  by (auto simp: strip_def trimmed_def dropWhile_hd hd_rev)

lemma dropWhile_all: "list_all P x \<Longrightarrow> dropWhile P (x @ y) = dropWhile P y"
  by (induction x) auto

lemma dropWhile_some: "\<not> list_all P x \<Longrightarrow> dropWhile P (x @ y) = dropWhile P x @ y"
  by (induction x) auto

lemma strip_all: "list_all isspace s \<Longrightarrow> strip s = []"
  by (auto simp: strip_def list_all_iff dest: set_dropWhileD)

lemma strip_spaces:
  assumes "list_all isspace a" "list_all isspace b"
  shows "strip (a @ s @ b) = strip s"
proof (cases "list_all isspace s")
  case True
  then show ?thesis using assms strip_all [of "a @ s @ b"] strip_all [of s] by simp
next
  case False
  then have "dropWhile isspace (a @ s @ b) = dropWhile isspace s @ b"
    using assms dropWhile_all dropWhile_some by metis
  moreover have "list_all isspace (rev b)" using assms(2) by (simp add: list_all_iff)
  ultimately show ?thesis by (simp add: strip_def dropWhile_all)
qed

section \<open>Reading lines\<close>

text \<open>\<^verbatim>\<open>fgets\<close> with a buffer of \<open>k + 1\<close> bytes, called until the end of the file: pieces that end after a
  newline or after \<open>k\<close> characters. What a caller sees of a piece ends at the first NUL.\<close>

fun fgets_piece :: "nat \<Rightarrow> string \<Rightarrow> string \<times> string" where
  "fgets_piece 0 s = ([], s)"
| "fgets_piece (Suc k) [] = ([], [])"
| "fgets_piece (Suc k) (c # s) =
     (if c = CHR 0x0A then ([c], s) else let (a, b) = fgets_piece k s in (c # a, b))"

lemma fgets_piece_append: "fst (fgets_piece k s) @ snd (fgets_piece k s) = s"
  by (induction k s rule: fgets_piece.induct) (auto simp: case_prod_beta)

lemma fgets_piece_length: "length (fst (fgets_piece k s)) \<le> k"
  by (induction k s rule: fgets_piece.induct) (auto simp: case_prod_beta)

lemma fgets_piece_progress: "s \<noteq> [] \<Longrightarrow> length (snd (fgets_piece (Suc k) s)) < length s"
proof -
  assume "s \<noteq> []"
  then have "fst (fgets_piece (Suc k) s) \<noteq> []" by (cases s) (auto simp: case_prod_beta)
  then show ?thesis using arg_cong [OF fgets_piece_append [of "Suc k" s], of length]
    by (cases "fst (fgets_piece (Suc k) s)") auto
qed

function fgets_lines :: "nat \<Rightarrow> string \<Rightarrow> cstr list" where
  "fgets_lines k [] = []"
| "fgets_lines k (c # s) =
     (let (a, b) = fgets_piece (Suc k) (c # s) in takeWhile (\<lambda>x. x \<noteq> NUL) a # fgets_lines k b)"
  by pat_completeness auto
termination
proof (relation "measure (\<lambda>(k, s). length s)")
  fix k c s a b x
  assume "x = fgets_piece (Suc k) (c # s)" "(a, b) = x"
  then have "b = snd (fgets_piece (Suc k) (c # s))" by (metis snd_conv)
  then show "((k, b), k, c # s) \<in> measure (\<lambda>(k, s). length s)"
    using fgets_piece_progress [of "c # s" k] by (simp del: fgets_piece.simps)
qed simp

lemma fgets_piece_line:
  assumes "CHR 0x0A \<notin> set l" "length l < k"
  shows "fgets_piece k (l @ CHR 0x0A # rest) = (l @ [CHR 0x0A], rest)"
  using assms
proof (induction l arbitrary: k)
  case Nil
  then show ?case by (cases k) auto
next
  case (Cons c l)
  then show ?case by (cases k) auto
qed

lemma fgets_lines_line:
  assumes "CHR 0x0A \<notin> set l" "NUL \<notin> set l" "length l \<le> k"
  shows "fgets_lines k (l @ CHR 0x0A # rest) = (l @ [CHR 0x0A]) # fgets_lines k rest"
proof -
  obtain c s where cs: "l @ CHR 0x0A # rest = c # s" by (cases l) auto
  have "fgets_piece (Suc k) (c # s) = (l @ [CHR 0x0A], rest)"
    using fgets_piece_line [of l "Suc k" rest] assms by (simp flip: cs)
  moreover have "takeWhile (\<lambda>x. x \<noteq> NUL) (l @ [CHR 0x0A]) = l @ [CHR 0x0A]"
    using assms(2) by (subst takeWhile_eq_all_conv) auto
  ultimately show ?thesis unfolding cs by (simp del: fgets_piece.simps)
qed

abbreviation NL :: char where "NL \<equiv> CHR 0x0A"

abbreviation with_nl :: "cstr list \<Rightarrow> cstr list" where
  "with_nl ls \<equiv> map (\<lambda>l. l @ [NL]) ls"

lemma fgets_lines_print:
  assumes "\<forall>l \<in> set ls. NL \<notin> set l \<and> NUL \<notin> set l \<and> length l \<le> k"
  shows "fgets_lines k (concat (with_nl ls)) = with_nl ls"
  using assms by (induction ls) (simp_all add: fgets_lines_line)

text \<open>\<^verbatim>\<open>getline\<close>, called until the end of the file: pieces that end after a newline, of any length.\<close>

fun getline_pieces :: "string \<Rightarrow> string \<Rightarrow> string list" where
  "getline_pieces acc [] = (if acc = [] then [] else [rev acc])"
| "getline_pieces acc (c # s) =
     (if c = CHR 0x0A then rev (c # acc) # getline_pieces [] s else getline_pieces (c # acc) s)"

definition getline_lines :: "string \<Rightarrow> cstr list" where
  "getline_lines s = map (takeWhile (\<lambda>x. x \<noteq> NUL)) (getline_pieces [] s)"

text \<open>The tokens \<^verbatim>\<open>strtok_r\<close> returns one after the other for a set of delimiters.\<close>

fun tokens :: "char set \<Rightarrow> cstr \<Rightarrow> cstr \<Rightarrow> cstr list" where
  "tokens ds acc [] = (if acc = [] then [] else [rev acc])"
| "tokens ds acc (c # s) =
     (if c \<in> ds then (if acc = [] then tokens ds [] s else rev acc # tokens ds [] s)
      else tokens ds (c # acc) s)"

definition tolower :: "char \<Rightarrow> char" where
  "tolower c = (if 65 \<le> code c \<and> code c \<le> 90 then char_of (code c + 32) else c)"

section \<open>Bytes and numbers in base 10\<close>

definition to_chars :: "u8 list \<Rightarrow> string" where "to_chars bs = map (\<lambda>b. char_of (unat b)) bs"
definition of_chars :: "string \<Rightarrow> u8 list" where "of_chars s = map of_char s"

lemma char_byte [simp]: "char_of (unat (of_char c :: u8)) = c"
proof -
  have "unat (of_nat (of_char c) :: u8) = of_char c"
    using nat_of_char_less_256 [of c] by (simp only: unat_of_nat) simp
  then have "unat (of_char c :: u8) = of_char c" by (simp only: of_nat_of_char)
  then show ?thesis by simp
qed

lemma byte_char [simp]: "of_char (char_of (unat (b :: u8))) = b"
proof -
  have "unat b < 256" using unsigned_less [of b] by simp
  then have "of_char (char_of (unat b)) = unat b" by (simp add: of_char_of)
  then show ?thesis by (metis of_nat_of_char of_nat_unat ucast_id)
qed

lemma chars_bytes [simp]: "to_chars (of_chars s) = s"
  by (induction s) (simp_all add: to_chars_def of_chars_def)

lemma bytes_chars [simp]: "of_chars (to_chars bs) = bs"
  by (induction bs) (simp_all add: to_chars_def of_chars_def)

lemma length_to_chars [simp]: "length (to_chars bs) = length bs" "length (of_chars s) = length s"
  by (simp_all add: to_chars_def of_chars_def)

lemma byte_zero: "(of_char c :: u8) = 0 \<Longrightarrow> c = NUL"
proof -
  assume "(of_char c :: u8) = 0"
  then have "c = char_of (unat (0 :: u8))" by (metis char_byte)
  then show ?thesis by (simp add: char_of_def)
qed

fun dec_digits :: "nat \<Rightarrow> cstr" where
  "dec_digits n = (if n < 10 then [] else dec_digits (n div 10)) @ [char_of (48 + n mod 10)]"

declare dec_digits.simps [simp del]

definition is_digit :: "char \<Rightarrow> bool" where "is_digit c \<longleftrightarrow> 48 \<le> code c \<and> code c < 58"

definition dec_number :: "cstr \<Rightarrow> nat" where
  "dec_number s = foldl (\<lambda>n c. 10 * n + (code c - 48)) 0 s"

lemma is_digit_char: "d < 10 \<Longrightarrow> is_digit (char_of (48 + d :: nat)) \<and> code (char_of (48 + d :: nat)) - 48 = d"
  by (simp add: is_digit_def code_def of_char_of)

lemma dec_digits_ok: "list_all is_digit (dec_digits n) \<and> dec_digits n \<noteq> [] \<and> dec_number (dec_digits n) = n"
proof (induction n rule: dec_digits.induct)
  case (1 n)
  then show ?case
    using is_digit_char [of "n mod 10"] by (subst (1 2 3) dec_digits.simps) (auto simp: dec_number_def)
qed

lemma digit_not [simp]:
  "is_digit c \<Longrightarrow> \<not> isspace c" "is_digit c \<Longrightarrow> c \<noteq> CHR ''-''" "is_digit c \<Longrightarrow> c \<noteq> CHR ''+''" "is_digit c \<Longrightarrow> c \<noteq> CHR 0x09"
  "is_digit c \<Longrightarrow> c \<noteq> NL" "is_digit c \<Longrightarrow> c \<noteq> CHR 0x0D" "is_digit c \<Longrightarrow> c \<noteq> NUL"
  by (auto simp: is_digit_def code_def isspace_def)

lemma dec_digits_not: "CHR 0x09 \<notin> set (dec_digits n)" "NL \<notin> set (dec_digits n)" "NUL \<notin> set (dec_digits n)"
  by (metis dec_digits_ok digit_not list_all_iff)+

end
