(* ===== verification/Config.thy ===== *)
theory Config
  imports C_String
begin

text \<open>
  Model of \<^verbatim>\<open>src/src/config.c\<close>: the INI-style configuration of the loader. The file is \<^const>\<open>None\<close> when it
  cannot be opened and its bytes otherwise. A \<^verbatim>\<open>char *\<close> field is an optional string; allocation of
  the copies of strings is taken to succeed, as the code never checks it.
\<close>

section \<open>Data\<close>

definition CONFIG_MAX_TRAMPOLINES :: nat where "CONFIG_MAX_TRAMPOLINES = 8"
definition CONFIG_MAX_PREFIXES :: nat where "CONFIG_MAX_PREFIXES = 8"

record machismo_trampoline_config =
  tc_name :: "cstr option"
  tc_lib :: "cstr option"
  tc_prefixes :: "cstr list"
  tc_init_wrapper :: bool
  tc_renderer :: "cstr option"
  tc_override_lib :: "cstr option"
  tc_match_local :: bool

record machismo_config =
  mc_dylib_map :: "cstr option"
  mc_patches :: "cstr option"
  mc_splash_image :: "cstr option"
  mc_address_hooks :: "cstr option"
  mc_entry_override :: u64
  mc_entry_expected :: "cstr option"
  mc_entry_prepare_lib :: "cstr option"
  mc_entry_prepare_symbol :: "cstr option"
  mc_has_entry_override :: bool
  mc_audit_only :: bool
  mc_trampolines :: "machismo_trampoline_config list"

definition zero_trampoline :: machismo_trampoline_config where
  "zero_trampoline = \<lparr>tc_name = None, tc_lib = None, tc_prefixes = [], tc_init_wrapper = False,
     tc_renderer = None, tc_override_lib = None, tc_match_local = False\<rparr>"

definition zero_config :: machismo_config where
  "zero_config = \<lparr>mc_dylib_map = None, mc_patches = None, mc_splash_image = None,
     mc_address_hooks = None, mc_entry_override = 0, mc_entry_expected = None,
     mc_entry_prepare_lib = None, mc_entry_prepare_symbol = None, mc_has_entry_override = False,
     mc_audit_only = False, mc_trampolines = []\<rparr>"

section \<open>Parsing\<close>

definition parse_hex_address :: "cstr \<Rightarrow> u64 option" where
  "parse_hex_address val =
    (let (parsed, range_error, rest) = strtoull16 val in
     if range_error \<or> rest = val \<or> rest \<noteq> [] then None else Some parsed)"

definition config_true :: "cstr \<Rightarrow> bool" where
  "config_true val \<longleftrightarrow> val = ''true'' \<or> val = ''1''"

definition set_trampoline_key ::
  "cstr \<Rightarrow> cstr \<Rightarrow> machismo_trampoline_config \<Rightarrow> machismo_trampoline_config" where
  "set_trampoline_key key val t =
    (if key = ''lib'' then t\<lparr>tc_lib := Some val\<rparr>
     else if key = ''prefix'' then
       if length (tc_prefixes t) < CONFIG_MAX_PREFIXES then t\<lparr>tc_prefixes := tc_prefixes t @ [val]\<rparr> else t
     else if key = ''init_wrapper'' then t\<lparr>tc_init_wrapper := config_true val\<rparr>
     else if key = ''renderer'' then t\<lparr>tc_renderer := Some val\<rparr>
     else if key = ''override_lib'' then t\<lparr>tc_override_lib := Some val\<rparr>
     else if key = ''match_local'' then t\<lparr>tc_match_local := config_true val\<rparr>
     else t)"

text \<open>\<^const>\<open>None\<close> is the failure on a bad \<^verbatim>\<open>entry_override\<close>.\<close>

definition set_general_key :: "cstr \<Rightarrow> cstr \<Rightarrow> machismo_config \<Rightarrow> machismo_config option" where
  "set_general_key key val cfg =
    (if key = ''dylib_map'' then Some (cfg\<lparr>mc_dylib_map := Some val\<rparr>)
     else if key = ''patches'' then Some (cfg\<lparr>mc_patches := Some val\<rparr>)
     else if key = ''splash_image'' then Some (cfg\<lparr>mc_splash_image := Some val\<rparr>)
     else if key = ''address_hooks'' then Some (cfg\<lparr>mc_address_hooks := Some val\<rparr>)
     else if key = ''entry_override'' then
       (case parse_hex_address val of
          None \<Rightarrow> None
        | Some a \<Rightarrow> Some (cfg\<lparr>mc_entry_override := a, mc_has_entry_override := True\<rparr>))
     else if key = ''entry_expected'' then Some (cfg\<lparr>mc_entry_expected := Some val\<rparr>)
     else if key = ''entry_prepare_lib'' then Some (cfg\<lparr>mc_entry_prepare_lib := Some val\<rparr>)
     else if key = ''entry_prepare_symbol'' then Some (cfg\<lparr>mc_entry_prepare_symbol := Some val\<rparr>)
     else if key = ''audit_only'' then Some (cfg\<lparr>mc_audit_only := config_true val\<rparr>)
     else Some cfg)"

text \<open>The state of the loop: the configuration and \<^verbatim>\<open>cur_tramp\<close>, the index of the current trampoline
  section.\<close>

definition config_section :: "cstr \<Rightarrow> machismo_config \<Rightarrow> machismo_config \<times> nat option" where
  "config_section s cfg =
    (if s = ''general'' then (cfg, None)
     else if starts_with ''trampoline.'' s then
       if length (mc_trampolines cfg) < CONFIG_MAX_TRAMPOLINES then
         (cfg\<lparr>mc_trampolines := mc_trampolines cfg @ [zero_trampoline\<lparr>tc_name := Some (drop 11 s)\<rparr>]\<rparr>,
          Some (length (mc_trampolines cfg)))
       else (cfg, None)
     else (cfg, None))"

definition config_line ::
  "cstr \<Rightarrow> machismo_config \<times> nat option \<Rightarrow> (machismo_config \<times> nat option) option" where
  "config_line line st =
    (let (cfg, cur_tramp) = st; s = strip line in
     if s = [] \<or> at0 s 0 = CHR ''#'' \<or> at0 s 0 = CHR '';'' then Some st
     else if at0 s 0 = CHR ''['' then
       (case split_at CHR '']'' s of
          None \<Rightarrow> Some st
        | Some (header, _) \<Rightarrow> Some (config_section (drop 1 header) cfg))
     else
       (case split_at CHR ''='' s of
          None \<Rightarrow> Some st
        | Some (k, v) \<Rightarrow>
            let key = strip k; val = strip v in
            (case cur_tramp of
               Some i \<Rightarrow>
                 Some (cfg\<lparr>mc_trampolines := (mc_trampolines cfg)
                   [i := set_trampoline_key key val (mc_trampolines cfg ! i)]\<rparr>, cur_tramp)
             | None \<Rightarrow> map_option (\<lambda>cfg. (cfg, cur_tramp)) (set_general_key key val cfg))))"

fun config_lines ::
  "cstr list \<Rightarrow> machismo_config \<times> nat option \<Rightarrow> (machismo_config \<times> nat option) option" where
  "config_lines [] st = Some st"
| "config_lines (l # ls) st =
     (case config_line l st of None \<Rightarrow> None | Some st' \<Rightarrow> config_lines ls st')"

definition config_free :: "machismo_config \<Rightarrow> machismo_config" where
  "config_free cfg = zero_config"

text \<open>The return value and what is left in the structure of the caller; a file that cannot be
  opened leaves it untouched.\<close>

definition config_load :: "string option \<Rightarrow> machismo_config \<Rightarrow> int \<times> machismo_config" where
  "config_load file cfg0 =
    (case file of
       None \<Rightarrow> (- 1, cfg0)
     | Some content \<Rightarrow>
         (case config_lines (fgets_lines 510 content) (zero_config, None) of
            None \<Rightarrow> (- 1, config_free zero_config)
          | Some (cfg, _) \<Rightarrow> (0, cfg)))"

section \<open>Bounds\<close>

definition config_ok :: "machismo_config \<times> nat option \<Rightarrow> bool" where
  "config_ok st \<longleftrightarrow>
     length (mc_trampolines (fst st)) \<le> CONFIG_MAX_TRAMPOLINES \<and>
     (\<forall>t \<in> set (mc_trampolines (fst st)). length (tc_prefixes t) \<le> CONFIG_MAX_PREFIXES \<and> tc_name t \<noteq> None) \<and>
     (\<forall>i. snd st = Some i \<longrightarrow> i < length (mc_trampolines (fst st)))"

lemma config_section_ok:
  assumes "config_ok (cfg, cur)"
  shows "config_ok (config_section s cfg)"
  using assms by (auto simp: config_section_def config_ok_def zero_trampoline_def)

lemma set_general_key_trampolines:
  "set_general_key k v cfg = Some cfg' \<Longrightarrow> mc_trampolines cfg' = mc_trampolines cfg"
  by (auto simp: set_general_key_def split: if_splits option.splits)

lemma set_trampoline_key_ok:
  "length (tc_prefixes t) \<le> CONFIG_MAX_PREFIXES \<Longrightarrow> tc_name t \<noteq> None \<Longrightarrow>
    length (tc_prefixes (set_trampoline_key k v t)) \<le> CONFIG_MAX_PREFIXES \<and>
    tc_name (set_trampoline_key k v t) \<noteq> None"
  by (auto simp: set_trampoline_key_def)

lemma config_line_ok:
  assumes "config_ok st" "config_line l st = Some st'"
  shows "config_ok st'"
proof -
  obtain cfg cur where st: "st = (cfg, cur)" by fastforce
  have key: "config_ok (cfg\<lparr>mc_trampolines := (mc_trampolines cfg)
      [i := set_trampoline_key k v (mc_trampolines cfg ! i)]\<rparr>, Some i)" if "cur = Some i" for i k v
    using assms(1) that set_trampoline_key_ok
    by (auto simp: config_ok_def st dest!: set_update_subset_insert [THEN subsetD])
  have gen: "config_ok (cfg', cur)" if "set_general_key k v cfg = Some cfg'" for k v cfg'
    using assms(1) set_general_key_trampolines [OF that] by (simp add: config_ok_def st)
  show ?thesis
    using assms key gen config_section_ok [of cfg cur]
    by (auto simp: config_line_def st Let_def split: if_splits option.splits)
qed

lemma config_lines_ok: "config_ok st \<Longrightarrow> config_lines ls st = Some st' \<Longrightarrow> config_ok st'"
  by (induction ls arbitrary: st) (auto split: option.splits dest: config_line_ok)

text \<open>Whatever bytes the file holds, loading never overruns the fixed arrays of the
  configuration: at most eight trampolines with at most eight prefixes each, every trampoline
  has a name, and a failed load of an existing file leaves an empty configuration.\<close>

lemma config_load_bounds:
  "(case config_load (Some content) cfg0 of (r, cfg) \<Rightarrow>
     length (mc_trampolines cfg) \<le> 8 \<and>
     (\<forall>t \<in> set (mc_trampolines cfg). length (tc_prefixes t) \<le> 8 \<and> tc_name t \<noteq> None) \<and>
     (r = 0 \<or> r = - 1 \<and> cfg = zero_config))"
proof -
  have "config_ok (zero_config, None)" by (simp add: config_ok_def zero_config_def)
  from config_lines_ok [OF this] show ?thesis
    by (auto simp: config_load_def config_free_def config_ok_def CONFIG_MAX_TRAMPOLINES_def
        CONFIG_MAX_PREFIXES_def zero_config_def split: option.splits)
qed

theorem config_load_bounds_witness:
  "length (mc_trampolines (snd (config_load (Some ''[trampoline.a]'') zero_config))) \<le> 8 \<and>
   map tc_name (mc_trampolines (snd (config_load (Some ''[trampoline.a]'') zero_config))) = [Some ''a'']"
proof -
  have "map tc_name (mc_trampolines (snd (config_load (Some ''[trampoline.a]'') zero_config))) = [Some ''a'']"
    by code_simp
  with config_load_bounds [of "''[trampoline.a]''" zero_config] show ?thesis by auto
qed

end
