(* ===== verification/Config_Roundtrip.thy ===== *)
theory Config_Roundtrip
  imports Config
begin

text \<open>
  Printing a configuration in the documented format of \<^verbatim>\<open>src/src/config.h\<close> and loading it again gives
  it back.
\<close>

section \<open>Printing\<close>

definition kv :: "cstr \<Rightarrow> cstr \<Rightarrow> cstr" where
  "kv k v = k @ '' = '' @ v"

definition opt_line :: "cstr \<Rightarrow> cstr option \<Rightarrow> cstr list" where
  "opt_line k x = (case x of None \<Rightarrow> [] | Some v \<Rightarrow> [kv k v])"

definition flag_line :: "cstr \<Rightarrow> bool \<Rightarrow> cstr list" where
  "flag_line k b = (if b then [kv k ''true''] else [])"

definition general_lines :: "machismo_config \<Rightarrow> cstr list" where
  "general_lines cfg =
     ''[general]'' # opt_line ''dylib_map'' (mc_dylib_map cfg) @ opt_line ''patches'' (mc_patches cfg) @
     opt_line ''splash_image'' (mc_splash_image cfg) @ opt_line ''address_hooks'' (mc_address_hooks cfg) @
     (if mc_has_entry_override cfg
      then [kv ''entry_override'' (''0x'' @ hex_digits (unat (mc_entry_override cfg)))] else []) @
     opt_line ''entry_expected'' (mc_entry_expected cfg) @
     opt_line ''entry_prepare_lib'' (mc_entry_prepare_lib cfg) @
     opt_line ''entry_prepare_symbol'' (mc_entry_prepare_symbol cfg) @
     flag_line ''audit_only'' (mc_audit_only cfg)"

definition trampoline_lines :: "machismo_trampoline_config \<Rightarrow> cstr list" where
  "trampoline_lines t =
     (''[trampoline.'' @ the (tc_name t) @ '']'') # opt_line ''lib'' (tc_lib t) @
     map (kv ''prefix'') (tc_prefixes t) @ flag_line ''init_wrapper'' (tc_init_wrapper t) @
     opt_line ''renderer'' (tc_renderer t) @ opt_line ''override_lib'' (tc_override_lib t) @
     flag_line ''match_local'' (tc_match_local t)"

definition print_config :: "machismo_config \<Rightarrow> string" where
  "print_config cfg =
     concat (map (\<lambda>l. l @ [NL]) (general_lines cfg @ concat (map trampoline_lines (mc_trampolines cfg))))"

section \<open>Configurations that can be written down\<close>

definition plain :: "cstr \<Rightarrow> bool" where
  "plain v \<longleftrightarrow> trimmed v \<and> NL \<notin> set v \<and> NUL \<notin> set v \<and> length v \<le> 400"

definition plain_opt :: "cstr option \<Rightarrow> bool" where
  "plain_opt x \<longleftrightarrow> (case x of None \<Rightarrow> True | Some v \<Rightarrow> plain v)"

definition printable_trampoline :: "machismo_trampoline_config \<Rightarrow> bool" where
  "printable_trampoline t \<longleftrightarrow>
     (case tc_name t of None \<Rightarrow> False | Some n \<Rightarrow> plain n \<and> CHR '']'' \<notin> set n) \<and>
     plain_opt (tc_lib t) \<and> list_all plain (tc_prefixes t) \<and> length (tc_prefixes t) \<le> CONFIG_MAX_PREFIXES \<and>
     plain_opt (tc_renderer t) \<and> plain_opt (tc_override_lib t)"

definition printable :: "machismo_config \<Rightarrow> bool" where
  "printable cfg \<longleftrightarrow>
     plain_opt (mc_dylib_map cfg) \<and> plain_opt (mc_patches cfg) \<and> plain_opt (mc_splash_image cfg) \<and>
     plain_opt (mc_address_hooks cfg) \<and> plain_opt (mc_entry_expected cfg) \<and>
     plain_opt (mc_entry_prepare_lib cfg) \<and> plain_opt (mc_entry_prepare_symbol cfg) \<and>
     (mc_has_entry_override cfg \<or> mc_entry_override cfg = 0) \<and>
     length (mc_trampolines cfg) \<le> CONFIG_MAX_TRAMPOLINES \<and>
     list_all printable_trampoline (mc_trampolines cfg)"

section \<open>One line\<close>

definition key_name :: "cstr \<Rightarrow> bool" where
  "key_name k \<longleftrightarrow> k \<noteq> [] \<and> CHR ''='' \<notin> set k \<and> trimmed k \<and> hd k \<notin> {CHR ''#'', CHR '';'', CHR ''[''} \<and>
     NL \<notin> set k \<and> NUL \<notin> set k \<and> length k \<le> 40"

lemma split_at_first: "c \<notin> set a \<Longrightarrow> split_at c (a @ c # b) = Some (a, b)"
  by (simp add: split_at_def takeWhile_append dropWhile_append dropWhile_eq_Nil_conv takeWhile_eq_all_conv)

lemma isspace_lits [simp]: "isspace CHR '' ''" "isspace NL" "\<not> isspace CHR ''=''" "\<not> isspace CHR '']''"
  "\<not> isspace CHR ''[''"
  by (simp_all add: isspace_def)

lemma strip_kv:
  assumes "key_name k" "plain v"
  shows "\<exists>w. strip (kv k v @ [NL]) = k @ '' ='' @ w \<and> strip w = v"
proof (cases "v = []")
  case True
  have "strip ([] @ (k @ '' ='') @ ('' '' @ [NL])) = strip (k @ '' ='')"
    by (rule strip_spaces) simp_all
  moreover have "strip (k @ '' ='') = k @ '' =''"
    using assms(1) by (intro strip_trimmed) (auto simp: trimmed_def key_name_def)
  moreover have "kv k v @ [NL] = [] @ (k @ '' ='') @ ('' '' @ [NL])" using True by (simp add: kv_def)
  ultimately have "strip (kv k v @ [NL]) = k @ '' =''" by (simp only:)
  then show ?thesis using True by (intro exI [of _ "[]"]) (simp add: strip_def)
next
  case False
  have "strip ([] @ (k @ '' = '' @ v) @ [NL]) = strip (k @ '' = '' @ v)" by (rule strip_spaces) simp_all
  moreover have "strip (k @ '' = '' @ v) = k @ '' = '' @ v"
    using assms False by (intro strip_trimmed) (auto simp: trimmed_def key_name_def plain_def)
  moreover have "kv k v @ [NL] = [] @ (k @ '' = '' @ v) @ [NL]" by (simp add: kv_def)
  ultimately have "strip (kv k v @ [NL]) = k @ '' = '' @ v" by (simp only:)
  moreover have "strip ('' '' @ v) = v"
    using strip_spaces [of "'' ''" "[]" v] strip_trimmed [of v] assms(2) by (simp add: plain_def)
  ultimately show ?thesis by (intro exI [of _ "'' '' @ v"]) simp
qed

lemma config_line_kv:
  assumes "key_name k" "plain v"
  shows "config_line (kv k v @ [NL]) (cfg, cur) =
    (case cur of
       Some i \<Rightarrow> Some (cfg\<lparr>mc_trampolines := (mc_trampolines cfg)
          [i := set_trampoline_key k v (mc_trampolines cfg ! i)]\<rparr>, cur)
     | None \<Rightarrow> map_option (\<lambda>cfg. (cfg, cur)) (set_general_key k v cfg))"
proof -
  obtain w where w: "strip (kv k v @ [NL]) = k @ '' ='' @ w" "strip w = v"
    using strip_kv [OF assms] by blast
  have "split_at CHR ''='' ((k @ '' '') @ CHR ''='' # w) = Some (k @ '' '', w)"
    using assms(1) by (intro split_at_first) (simp add: key_name_def)
  then have sp: "split_at CHR ''='' (k @ CHR '' '' # CHR ''='' # w) = Some (k @ '' '', w)" by simp
  have "strip (k @ '' '') = k"
    using strip_spaces [of "[]" "'' ''" k] strip_trimmed [of k] assms(1) by (simp add: key_name_def)
  moreover have "at0 (k @ '' ='' @ w) 0 \<notin> {CHR ''#'', CHR '';'', CHR ''[''}"
    using assms(1) by (cases k) (auto simp: key_name_def)
  ultimately show ?thesis
    by (simp add: config_line_def w sp Let_def split: option.split)
qed

lemma config_line_header:
  assumes "plain n" "CHR '']'' \<notin> set n"
  shows "config_line ((''[trampoline.'' @ n @ '']'') @ [NL]) (cfg, cur) =
    Some (config_section (''trampoline.'' @ n) cfg)"
proof -
  let ?h = "''[trampoline.'' @ n"
  have "strip ((?h @ '']'') @ [NL]) = ?h @ '']''"
    using strip_spaces [of "[]" "[NL]" "?h @ '']''"] strip_trimmed [of "?h @ '']''"]
    by (simp add: trimmed_def)
  moreover have "split_at CHR '']'' (?h @ [CHR '']'']) = Some (?h, [])"
    using assms(2) by (intro split_at_first) simp
  ultimately show ?thesis by (simp add: config_line_def Let_def)
qed

lemma config_line_general: "config_line (''[general]'' @ [NL]) (cfg, cur) = Some (cfg, None)"
  by (simp add: config_line_def strip_def Let_def split_at_def config_section_def)

section \<open>The general section\<close>

lemma config_lines_append:
  "config_lines (a @ b) st = (case config_lines a st of None \<Rightarrow> None | Some st' \<Rightarrow> config_lines b st')"
  by (induction a arbitrary: st) (auto split: option.split)

lemma key_names [simp]:
  "key_name ''dylib_map''" "key_name ''patches''" "key_name ''splash_image''" "key_name ''address_hooks''"
  "key_name ''entry_override''" "key_name ''entry_expected''" "key_name ''entry_prepare_lib''"
  "key_name ''entry_prepare_symbol''" "key_name ''audit_only''" "key_name ''lib''" "key_name ''prefix''"
  "key_name ''init_wrapper''" "key_name ''renderer''" "key_name ''override_lib''" "key_name ''match_local''"
  by (simp_all add: key_name_def trimmed_def isspace_def)

lemma plain_true [simp]: "plain ''true''"
  by (simp add: plain_def trimmed_def isspace_def)

text \<open>An optional line sets its field, and so does a flag; the value is the one the field had when
  it was printed.\<close>

lemma general_opt:
  assumes "plain_opt x" "key_name k" "\<And>v. set_general_key k v cfg = Some (f (Some v))" "f None = cfg"
  shows "config_lines (with_nl (opt_line k x)) (cfg, None) = Some (f x, None)"
  using assms by (cases x) (simp_all add: opt_line_def plain_opt_def config_line_kv)

lemma general_flag:
  assumes "key_name k" "\<And>v. set_general_key k v cfg = Some (f (config_true v))" "f False = cfg"
  shows "config_lines (with_nl (flag_line k b)) (cfg, None) = Some (f b, None)"
  using assms by (cases b) (simp_all add: flag_line_def config_line_kv config_true_def)

lemma hex_not_space: "is_hex_digit c \<Longrightarrow> \<not> isspace c \<and> c \<noteq> NUL \<and> c \<noteq> NL"
  by (auto simp: isspace_def)

lemma plain_hex: "plain (''0x'' @ hex_digits (unat (a :: u64)))"
proof -
  have ok: "list_all is_hex_digit (hex_digits (unat a))" "hex_digits (unat a) \<noteq> []"
    using hex_digits_ok by blast+
  then have "is_hex_digit (last (hex_digits (unat a)))" by (simp add: list_all_iff)
  moreover have "length (hex_digits (unat a)) \<le> 16"
    using hex_digits_length [of "unat a" 15] unsigned_less [of a, where ?'a = nat] by simp
  ultimately show ?thesis
    using ok hex_not_space by (auto simp: plain_def trimmed_def isspace_def list_all_iff)
qed

lemma parse_hex_address_print: "parse_hex_address (''0x'' @ hex_digits (unat (a :: u64))) = Some a"
proof -
  let ?d = "hex_digits (unat a)"
  have ok: "list_all is_hex_digit ?d" "?d \<noteq> []" "hex_number ?d = unat a" using hex_digits_ok by blast+
  then have c: "is_hex_digit (at0 ?d 0)" by (cases ?d) auto
  have d: "takeWhile is_hex_digit ?d = ?d" "dropWhile is_hex_digit ?d = []"
    using takeWhile_digits [OF ok(1), of "[]"] by (simp_all del: takeWhile_eq_all_conv dropWhile_eq_Nil_conv)
  have "\<not> unat a > ULLONG_MAX"
    using unsigned_less [of a, where ?'a = nat] by (simp add: ULLONG_MAX_def)
  then have "strtoull16 (''0x'' @ ?d) = (a, False, [])"
    using ok c by (simp add: strtoull16_def Let_def isspace_def d)
  then show ?thesis by (simp add: parse_hex_address_def)
qed

lemma general_override:
  assumes "has \<or> a = 0" "mc_has_entry_override cfg = False" "mc_entry_override cfg = 0"
  shows "config_lines (with_nl (if has then [kv ''entry_override'' (''0x'' @ hex_digits (unat a))] else []))
      (cfg, None) = Some (cfg\<lparr>mc_entry_override := a, mc_has_entry_override := has\<rparr>, None)"
  using assms plain_hex [of a] parse_hex_address_print [of a]
  by (auto simp: config_line_kv set_general_key_def)

lemma general_section:
  assumes "printable cfg"
  shows "config_lines (with_nl (general_lines cfg)) (zero_config, None) =
    Some (cfg\<lparr>mc_trampolines := []\<rparr>, None)"
proof -
  let ?c1 = "zero_config\<lparr>mc_dylib_map := mc_dylib_map cfg\<rparr>"
  let ?c2 = "?c1\<lparr>mc_patches := mc_patches cfg\<rparr>"
  let ?c3 = "?c2\<lparr>mc_splash_image := mc_splash_image cfg\<rparr>"
  let ?c4 = "?c3\<lparr>mc_address_hooks := mc_address_hooks cfg\<rparr>"
  let ?c5 = "?c4\<lparr>mc_entry_override := mc_entry_override cfg, mc_has_entry_override := mc_has_entry_override cfg\<rparr>"
  let ?c6 = "?c5\<lparr>mc_entry_expected := mc_entry_expected cfg\<rparr>"
  let ?c7 = "?c6\<lparr>mc_entry_prepare_lib := mc_entry_prepare_lib cfg\<rparr>"
  let ?c8 = "?c7\<lparr>mc_entry_prepare_symbol := mc_entry_prepare_symbol cfg\<rparr>"
  let ?c9 = "?c8\<lparr>mc_audit_only := mc_audit_only cfg\<rparr>"
  have p: "plain_opt (mc_dylib_map cfg)" "plain_opt (mc_patches cfg)" "plain_opt (mc_splash_image cfg)"
    "plain_opt (mc_address_hooks cfg)" "plain_opt (mc_entry_expected cfg)"
    "plain_opt (mc_entry_prepare_lib cfg)" "plain_opt (mc_entry_prepare_symbol cfg)"
    "mc_has_entry_override cfg \<or> mc_entry_override cfg = 0"
    using assms by (simp_all add: printable_def)
  have s1: "config_lines (with_nl (opt_line ''dylib_map'' (mc_dylib_map cfg))) (zero_config, None) = Some (?c1, None)"
    "config_lines (with_nl (opt_line ''patches'' (mc_patches cfg))) (?c1, None) = Some (?c2, None)"
    "config_lines (with_nl (opt_line ''splash_image'' (mc_splash_image cfg))) (?c2, None) = Some (?c3, None)"
    "config_lines (with_nl (opt_line ''address_hooks'' (mc_address_hooks cfg))) (?c3, None) = Some (?c4, None)"
    "config_lines (with_nl (opt_line ''entry_expected'' (mc_entry_expected cfg))) (?c5, None) = Some (?c6, None)"
    "config_lines (with_nl (opt_line ''entry_prepare_lib'' (mc_entry_prepare_lib cfg))) (?c6, None) = Some (?c7, None)"
    "config_lines (with_nl (opt_line ''entry_prepare_symbol'' (mc_entry_prepare_symbol cfg))) (?c7, None) = Some (?c8, None)"
    using p(1-7)
    by (intro general_opt; simp add: set_general_key_def zero_config_def)+
  have s2: "config_lines (with_nl (if mc_has_entry_override cfg
      then [kv ''entry_override'' (''0x'' @ hex_digits (unat (mc_entry_override cfg)))] else [])) (?c4, None) =
      Some (?c5, None)"
    using p(8) by (intro general_override) (simp_all add: zero_config_def)
  have s3: "config_lines (with_nl (flag_line ''audit_only'' (mc_audit_only cfg))) (?c8, None) = Some (?c9, None)"
    by (intro general_flag) (simp_all add: set_general_key_def zero_config_def)
  have s4: "config_lines (with_nl [''[general]'']) (zero_config, None) = Some (zero_config, None)"
    using config_line_general by simp
  have "with_nl (general_lines cfg) = with_nl [''[general]''] @
     with_nl (opt_line ''dylib_map'' (mc_dylib_map cfg)) @ with_nl (opt_line ''patches'' (mc_patches cfg)) @
     with_nl (opt_line ''splash_image'' (mc_splash_image cfg)) @
     with_nl (opt_line ''address_hooks'' (mc_address_hooks cfg)) @
     with_nl (if mc_has_entry_override cfg
      then [kv ''entry_override'' (''0x'' @ hex_digits (unat (mc_entry_override cfg)))] else []) @
     with_nl (opt_line ''entry_expected'' (mc_entry_expected cfg)) @
     with_nl (opt_line ''entry_prepare_lib'' (mc_entry_prepare_lib cfg)) @
     with_nl (opt_line ''entry_prepare_symbol'' (mc_entry_prepare_symbol cfg)) @
     with_nl (flag_line ''audit_only'' (mc_audit_only cfg))"
    by (simp add: general_lines_def)
  then have "config_lines (with_nl (general_lines cfg)) (zero_config, None) = Some (?c9, None)"
    by (simp only: config_lines_append s1 s2 s3 s4 option.case)
  moreover have "?c9 = cfg\<lparr>mc_trampolines := []\<rparr>" by (simp add: zero_config_def)
  ultimately show ?thesis by simp
qed

section \<open>Trampoline sections\<close>

text \<open>The configuration whose last trampoline is being read.\<close>

abbreviation reading :: "machismo_config \<Rightarrow> machismo_trampoline_config list \<Rightarrow>
    machismo_trampoline_config \<Rightarrow> machismo_config \<times> nat option" where
  "reading cfg ts t \<equiv> (cfg\<lparr>mc_trampolines := ts @ [t]\<rparr>, Some (length ts))"

lemma trampoline_kv:
  assumes "key_name k" "plain v"
  shows "config_lines (with_nl [kv k v]) (reading cfg ts t) = Some (reading cfg ts (set_trampoline_key k v t))"
  using assms by (simp add: config_line_kv)

lemma trampoline_opt:
  assumes "plain_opt x" "key_name k" "\<And>v. set_trampoline_key k v t = f (Some v)" "f None = t"
  shows "config_lines (with_nl (opt_line k x)) (reading cfg ts t) = Some (reading cfg ts (f x))"
  using assms trampoline_kv [OF assms(2)] by (cases x) (simp_all add: opt_line_def plain_opt_def)

lemma trampoline_flag:
  assumes "key_name k" "\<And>v. set_trampoline_key k v t = f (config_true v)" "f False = t"
  shows "config_lines (with_nl (flag_line k b)) (reading cfg ts t) = Some (reading cfg ts (f b))"
  using assms trampoline_kv [OF assms(1) plain_true] by (cases b) (simp_all add: flag_line_def config_true_def)

lemma trampoline_prefixes:
  assumes "list_all plain ps" "length (tc_prefixes t) + length ps \<le> CONFIG_MAX_PREFIXES"
  shows "config_lines (with_nl (map (kv ''prefix'') ps)) (reading cfg ts t) =
    Some (reading cfg ts (t\<lparr>tc_prefixes := tc_prefixes t @ ps\<rparr>))"
  using assms
proof (induction ps arbitrary: t)
  case Nil
  then show ?case by simp
next
  case (Cons p ps)
  let ?t = "t\<lparr>tc_prefixes := tc_prefixes t @ [p]\<rparr>"
  have "config_line (kv ''prefix'' p @ [NL]) (reading cfg ts t) = Some (reading cfg ts ?t)"
    using Cons.prems trampoline_kv [of "''prefix''" p, where cfg = cfg and ts = ts and t = t]
    by (simp add: set_trampoline_key_def split: option.splits)
  moreover have "config_lines (with_nl (map (kv ''prefix'') ps)) (reading cfg ts ?t) =
      Some (reading cfg ts (?t\<lparr>tc_prefixes := tc_prefixes ?t @ ps\<rparr>))"
    using Cons.prems by (intro Cons.IH) simp_all
  ultimately show ?case by simp
qed

lemma trampoline_section:
  assumes "printable_trampoline t" "length (mc_trampolines cfg) < CONFIG_MAX_TRAMPOLINES"
  shows "config_lines (with_nl (trampoline_lines t)) (cfg, cur) = Some (reading cfg (mc_trampolines cfg) t)"
proof -
  obtain n where n: "tc_name t = Some n" "plain n" "CHR '']'' \<notin> set n"
    using assms(1) by (auto simp: printable_trampoline_def split: option.splits)
  have p: "plain_opt (tc_lib t)" "plain_opt (tc_renderer t)" "plain_opt (tc_override_lib t)"
    "list_all plain (tc_prefixes t)" "length (tc_prefixes t) \<le> CONFIG_MAX_PREFIXES"
    using assms(1) by (simp_all add: printable_trampoline_def)
  let ?ts = "mc_trampolines cfg"
  let ?t0 = "zero_trampoline\<lparr>tc_name := Some n\<rparr>"
  let ?t1 = "?t0\<lparr>tc_lib := tc_lib t\<rparr>"
  let ?t2 = "?t1\<lparr>tc_prefixes := tc_prefixes t\<rparr>"
  let ?t3 = "?t2\<lparr>tc_init_wrapper := tc_init_wrapper t\<rparr>"
  let ?t4 = "?t3\<lparr>tc_renderer := tc_renderer t\<rparr>"
  let ?t5 = "?t4\<lparr>tc_override_lib := tc_override_lib t\<rparr>"
  let ?t6 = "?t5\<lparr>tc_match_local := tc_match_local t\<rparr>"
  have "config_line ((''[trampoline.'' @ n @ '']'') @ [NL]) (cfg, cur) = Some (reading cfg ?ts ?t0)"
    unfolding config_line_header [OF n(2,3)] using assms(2)
    by (simp add: config_section_def starts_with_def)
  then have s0: "config_lines (with_nl [''[trampoline.'' @ n @ '']'']) (cfg, cur) = Some (reading cfg ?ts ?t0)"
    by simp
  have s1: "config_lines (with_nl (opt_line ''lib'' (tc_lib t))) (reading cfg ?ts ?t0) = Some (reading cfg ?ts ?t1)"
    "config_lines (with_nl (opt_line ''renderer'' (tc_renderer t))) (reading cfg ?ts ?t3) = Some (reading cfg ?ts ?t4)"
    "config_lines (with_nl (opt_line ''override_lib'' (tc_override_lib t))) (reading cfg ?ts ?t4) = Some (reading cfg ?ts ?t5)"
    using p(1-3) by (intro trampoline_opt; simp add: set_trampoline_key_def zero_trampoline_def)+
  have s2: "config_lines (with_nl (flag_line ''init_wrapper'' (tc_init_wrapper t))) (reading cfg ?ts ?t2) = Some (reading cfg ?ts ?t3)"
    "config_lines (with_nl (flag_line ''match_local'' (tc_match_local t))) (reading cfg ?ts ?t5) = Some (reading cfg ?ts ?t6)"
    by (intro trampoline_flag; simp add: set_trampoline_key_def zero_trampoline_def)+
  have "tc_prefixes ?t1 = []" by (simp add: zero_trampoline_def)
  then have s3: "config_lines (with_nl (map (kv ''prefix'') (tc_prefixes t))) (reading cfg ?ts ?t1) = Some (reading cfg ?ts ?t2)"
    using trampoline_prefixes [of "tc_prefixes t" ?t1, where cfg = cfg and ts = ?ts] p(4,5) by simp
  have "with_nl (trampoline_lines t) = with_nl [''[trampoline.'' @ n @ '']''] @
     with_nl (opt_line ''lib'' (tc_lib t)) @ with_nl (map (kv ''prefix'') (tc_prefixes t)) @
     with_nl (flag_line ''init_wrapper'' (tc_init_wrapper t)) @ with_nl (opt_line ''renderer'' (tc_renderer t)) @
     with_nl (opt_line ''override_lib'' (tc_override_lib t)) @ with_nl (flag_line ''match_local'' (tc_match_local t))"
    by (simp add: trampoline_lines_def n(1))
  then have "config_lines (with_nl (trampoline_lines t)) (cfg, cur) = Some (reading cfg ?ts ?t6)"
    by (simp only: config_lines_append s0 s1 s2 s3 option.case)
  moreover have "?t6 = t" using n(1) by (simp add: zero_trampoline_def)
  ultimately show ?thesis by simp
qed

lemma trampoline_sections:
  assumes "list_all printable_trampoline ts" "length (mc_trampolines cfg) + length ts \<le> CONFIG_MAX_TRAMPOLINES"
  shows "\<exists>cur'. config_lines (with_nl (concat (map trampoline_lines ts))) (cfg, cur) =
    Some (cfg\<lparr>mc_trampolines := mc_trampolines cfg @ ts\<rparr>, cur')"
  using assms
proof (induction ts arbitrary: cfg cur)
  case Nil
  then show ?case by simp
next
  case (Cons t ts)
  have "config_lines (with_nl (trampoline_lines t)) (cfg, cur) = Some (reading cfg (mc_trampolines cfg) t)"
    using Cons.prems by (intro trampoline_section) simp_all
  moreover obtain cur' where "config_lines (with_nl (concat (map trampoline_lines ts)))
      (reading cfg (mc_trampolines cfg) t) =
    Some (cfg\<lparr>mc_trampolines := (mc_trampolines cfg @ [t]) @ ts\<rparr>, cur')"
    using Cons.IH [of "cfg\<lparr>mc_trampolines := mc_trampolines cfg @ [t]\<rparr>" "Some (length (mc_trampolines cfg))"]
      Cons.prems by auto
  ultimately show ?case by (simp add: config_lines_append)
qed

section \<open>The file\<close>

lemma short_lines:
  "key_name k \<Longrightarrow> plain v \<Longrightarrow> NL \<notin> set (kv k v) \<and> NUL \<notin> set (kv k v) \<and> length (kv k v) \<le> 510"
  by (auto simp: kv_def key_name_def plain_def)

lemma short_opt: "key_name k \<Longrightarrow> plain_opt x \<Longrightarrow> l \<in> set (opt_line k x) \<Longrightarrow>
    NL \<notin> set l \<and> NUL \<notin> set l \<and> length l \<le> 510"
  using short_lines by (auto simp: opt_line_def plain_opt_def split: option.splits)

lemma short_flag: "key_name k \<Longrightarrow> l \<in> set (flag_line k b) \<Longrightarrow>
    NL \<notin> set l \<and> NUL \<notin> set l \<and> length l \<le> 510"
  using short_lines [OF _ plain_true] by (auto simp: flag_line_def split: if_splits)

lemma short_general:
  assumes "printable cfg" "l \<in> set (general_lines cfg)"
  shows "NL \<notin> set l \<and> NUL \<notin> set l \<and> length l \<le> 510"
proof -
  consider "l = ''[general]''" | k x where "key_name k" "plain_opt x" "l \<in> set (opt_line k x)"
    | "l = kv ''entry_override'' (''0x'' @ hex_digits (unat (mc_entry_override cfg)))"
    | k b where "key_name k" "l \<in> set (flag_line k b)"
    using assms key_names unfolding general_lines_def printable_def
    by (auto split: if_splits simp del: key_names)
  then show ?thesis
  proof cases
    case 1
    then show ?thesis by simp
  next
    case 2
    then show ?thesis by (rule short_opt)
  next
    case 3
    then show ?thesis using short_lines [OF _ plain_hex] by simp
  next
    case 4
    then show ?thesis by (rule short_flag)
  qed
qed

lemma short_trampoline:
  assumes "printable_trampoline t" "l \<in> set (trampoline_lines t)"
  shows "NL \<notin> set l \<and> NUL \<notin> set l \<and> length l \<le> 510"
proof -
  consider "l = ''[trampoline.'' @ the (tc_name t) @ '']''"
    | k x where "key_name k" "plain_opt x" "l \<in> set (opt_line k x)"
    | p where "plain p" "l = kv ''prefix'' p"
    | k b where "key_name k" "l \<in> set (flag_line k b)"
    using assms key_names unfolding trampoline_lines_def printable_trampoline_def
    by (auto simp: list_all_iff simp del: key_names)
  then show ?thesis
  proof cases
    case 1
    then show ?thesis using assms(1) by (auto simp: printable_trampoline_def plain_def split: option.splits)
  next
    case 2
    then show ?thesis by (rule short_opt)
  next
    case 3
    then show ?thesis using short_lines by simp
  next
    case 4
    then show ?thesis by (rule short_flag)
  qed
qed

text \<open>C35: loading what was printed gives the configuration back, for every configuration whose
  strings can be written on a line: no newline, no white space at the ends, at most 400
  characters, no closing bracket in a section name.\<close>

theorem config_print_load:
  assumes "printable cfg"
  shows "config_load (Some (print_config cfg)) cfg0 = (0, cfg)"
proof -
  let ?ls = "general_lines cfg @ concat (map trampoline_lines (mc_trampolines cfg))"
  have "\<forall>l \<in> set ?ls. NL \<notin> set l \<and> NUL \<notin> set l \<and> length l \<le> 510"
    using short_general [OF assms] short_trampoline assms by (auto simp: printable_def list_all_iff)
  then have "fgets_lines 510 (print_config cfg) = with_nl ?ls"
    unfolding print_config_def by (rule fgets_lines_print)
  moreover obtain cur where "config_lines (with_nl (concat (map trampoline_lines (mc_trampolines cfg))))
      (cfg\<lparr>mc_trampolines := []\<rparr>, None) = Some (cfg, cur)"
    using trampoline_sections [of "mc_trampolines cfg" "cfg\<lparr>mc_trampolines := []\<rparr>" None] assms
    by (auto simp: printable_def)
  ultimately show ?thesis
    using general_section [OF assms] by (simp add: config_load_def config_lines_append)
qed

definition demo_config :: machismo_config where
  "demo_config = zero_config\<lparr>mc_patches := Some ''patches/game.conf'', mc_has_entry_override := True,
     mc_entry_override := 0x100001000, mc_audit_only := True, mc_trampolines :=
       [zero_trampoline\<lparr>tc_name := Some ''sdl2'', tc_lib := Some ''libSDL2-2.0.so.0'',
          tc_prefixes := [''_SDL_'', ''_IMG_'']\<rparr>]\<rparr>"

theorem config_print_load_witness:
  "printable demo_config \<and> config_load (Some (print_config demo_config)) zero_config = (0, demo_config)"
proof -
  have "printable demo_config"
    by (simp add: printable_def printable_trampoline_def demo_config_def zero_config_def
        zero_trampoline_def plain_opt_def plain_def trimmed_def isspace_def CONFIG_MAX_PREFIXES_def
        CONFIG_MAX_TRAMPOLINES_def)
  then show ?thesis using config_print_load by blast
qed

end
