(* ===== verification/Patcher.thy ===== *)
theory Patcher
  imports Guest_Memory Arm64_Enc C_String
begin

text \<open>
  Model of \<^verbatim>\<open>src/src/patcher.c\<close>: the patch file language (addresses, symbols, byte patterns, labels),
  its parser, the resolution of locations, the encoding of instructions and the writes to the
  loaded image. The symbol table queries \<^verbatim>\<open>resolver_lookup_symbol\<close> and \<^verbatim>\<open>resolver_symbol_extent\<close>, the page
  size and the outcome of \<^verbatim>\<open>mprotect\<close> are fields of the environment; allocations are taken to succeed.
  A structure of the parser starts out zeroed, as the C code allocates it with \<^verbatim>\<open>calloc\<close>.
\<close>

section \<open>Data\<close>

datatype loc_kind = LOC_ABS | LOC_SYM | LOC_SYM_FIND | LOC_LABEL

definition LOC_MAX_PATTERNS :: nat where "LOC_MAX_PATTERNS = 8"

text \<open>The masks and values of the patterns are one list of pairs.\<close>

record loc_expr =
  l_kind :: loc_kind
  l_sym :: cstr
  l_offset :: u64
  l_patterns :: "(u32 \<times> u32) list"
  l_within :: u64

datatype insn_kind = INS_RAW | INS_B | INS_BL

record insn_expr =
  i_kind :: insn_kind
  i_raw :: u32
  i_target :: loc_expr

datatype line_kind = LINE_AT | LINE_LET | LINE_ABS

record patch_line =
  p_kind :: line_kind
  p_loc :: loc_expr
  p_insn :: insn_expr
  p_expect :: "u32 option"
  p_label_name :: cstr
  p_resolved_addr :: u64
  p_resolved_insn :: u32

record label =
  lb_name :: cstr
  lb_addr :: "u64 option"

definition zero_loc :: loc_expr where
  "zero_loc = \<lparr>l_kind = LOC_ABS, l_sym = [], l_offset = 0, l_patterns = [], l_within = 0\<rparr>"

definition zero_line :: patch_line where
  "zero_line = \<lparr>p_kind = LINE_AT, p_loc = zero_loc,
     p_insn = \<lparr>i_kind = INS_RAW, i_raw = 0, i_target = zero_loc\<rparr>, p_expect = None,
     p_label_name = [], p_resolved_addr = 0, p_resolved_insn = 0\<rparr>"

record patch_env =
  pe_mh :: bool
  pe_slide :: u64
  pe_lookup :: "cstr \<Rightarrow> u64"
  pe_extent :: "cstr \<Rightarrow> (u64 \<times> u64) option"
  pe_page_size :: u64
  pe_mprotect :: "u64 \<Rightarrow> bool"

section \<open>Lexical helpers\<close>

definition strip_comment :: "cstr \<Rightarrow> cstr" where
  "strip_comment s = takeWhile (\<lambda>c. c \<noteq> CHR ''#'') s"

definition skip_ws :: "cstr \<Rightarrow> cstr" where
  "skip_ws p = dropWhile (\<lambda>c. c \<in> {CHR '' '', CHR 0x09, CHR 0x0A, CHR 0x0D}) p"

definition has_0x :: "cstr \<Rightarrow> bool" where
  "has_0x p \<longleftrightarrow> at0 p 0 = CHR ''0'' \<and> (at0 p 1 = CHR ''x'' \<or> at0 p 1 = CHR ''X'')"

text \<open>The parsers return the parsed value and the rest of the string.\<close>

definition parse_hex_u64 :: "cstr \<Rightarrow> (u64 \<times> cstr) option" where
  "parse_hex_u64 s =
    (let p = skip_ws s;
         p = (if has_0x p then drop 2 p else p)
     in if \<not> is_hex_digit (at0 p 0) then None
        else let (v, _, e) = strtoull16 p in if e = p then None else Some (v, e))"

definition looks_legacy :: "cstr \<Rightarrow> bool" where
  "looks_legacy s =
    (let p = dropWhile (\<lambda>c. c \<in> {CHR '' '', CHR 0x09}) s in
     if has_0x p then True
     else if \<not> is_hex_digit (at0 p 0) then False
     else at0 (dropWhile is_hex_digit p) 0 \<in> {CHR '' '', CHR 0x09, NUL, CHR 0x0A})"

fun parse_nibbles :: "nat \<Rightarrow> cstr \<Rightarrow> u32 \<Rightarrow> u32 \<Rightarrow> (u32 \<times> u32 \<times> cstr) option" where
  "parse_nibbles 0 s m v = Some (m, v, s)"
| "parse_nibbles (Suc n) [] m v = None"
| "parse_nibbles (Suc n) (c # s) m v =
    (let m = push_bit 4 m; v = push_bit 4 v in
     if c = CHR ''?'' then parse_nibbles n s m v
     else if is_hex_digit c then parse_nibbles n s (m OR 0xF) (v OR of_nat (hex_value c))
     else None)"

definition parse_pattern :: "cstr \<Rightarrow> (u32 \<times> u32) option" where
  "parse_pattern s =
    (case parse_nibbles 8 s 0 0 of
       None \<Rightarrow> None
     | Some (m, v, rest) \<Rightarrow>
         if at0 rest 0 \<noteq> NUL \<and> \<not> isspace (at0 rest 0) \<and> at0 rest 0 \<noteq> CHR '';'' \<and> at0 rest 0 \<noteq> CHR ''#''
         then None else Some (m, v))"

section \<open>Expressions\<close>

text \<open>At most the given number of patterns, each eight characters.\<close>

fun parse_patterns :: "nat \<Rightarrow> cstr \<Rightarrow> ((u32 \<times> u32) list \<times> cstr) option" where
  "parse_patterns 0 s = None"
| "parse_patterns (Suc k) s =
    (case parse_pattern s of
       None \<Rightarrow> None
     | Some mv \<Rightarrow>
         let s = skip_ws (drop 8 s) in
         if is_hex_digit (at0 s 0) \<or> at0 s 0 = CHR ''?'' then
           (case parse_patterns k s of None \<Rightarrow> None | Some (mvs, s) \<Rightarrow> Some (mv # mvs, s))
         else Some ([mv], s))"

definition parse_find :: "loc_expr \<Rightarrow> cstr \<Rightarrow> (loc_expr \<times> cstr) option" where
  "parse_find out save =
    (case parse_patterns LOC_MAX_PATTERNS (skip_ws (drop 5 save)) of
       None \<Rightarrow> None
     | Some (mvs, save) \<Rightarrow>
         let out = out\<lparr>l_kind := LOC_SYM_FIND, l_patterns := mvs, l_within := 0\<rparr> in
         if starts_with ''within '' save then
           (case parse_hex_u64 (skip_ws (drop 7 save)) of
              None \<Rightarrow> None
            | Some (w, q) \<Rightarrow> Some (out\<lparr>l_within := w\<rparr>, q))
         else Some (out, save))"

definition name_char :: "char set \<Rightarrow> char \<Rightarrow> bool" where
  "name_char stops c \<longleftrightarrow> \<not> isspace c \<and> c \<notin> stops"

definition parse_loc_expr :: "cstr \<Rightarrow> (loc_expr \<times> cstr) option" where
  "parse_loc_expr s =
    (let p = skip_ws s in
     if starts_with ''sym:'' p then
       let p = drop 4 p;
           stop = name_char {CHR ''+'', CHR ''-'', CHR '';''};
           sym = takeWhile stop p; p = dropWhile stop p in
       if length sym \<ge> 256 \<or> sym = [] then None
       else
         (case (if at0 p 0 = CHR ''+'' \<or> at0 p 0 = CHR ''-'' then
                  map_option (\<lambda>(v, q). (if at0 p 0 = CHR ''-'' then - v else v, q)) (parse_hex_u64 (drop 1 p))
                else Some (0, p)) of
            None \<Rightarrow> None
          | Some (off, p) \<Rightarrow>
              let out = zero_loc\<lparr>l_sym := sym, l_offset := off\<rparr>; save = skip_ws p in
              if starts_with ''find '' save then parse_find out save
              else Some (out\<lparr>l_kind := LOC_SYM\<rparr>, p))
     else if has_0x p then
       map_option (\<lambda>(v, q). (zero_loc\<lparr>l_kind := LOC_ABS, l_offset := v\<rparr>, q)) (parse_hex_u64 p)
     else
       let stop = name_char {CHR ''+'', CHR '';''};
           sym = takeWhile stop p; p = dropWhile stop p in
       if length sym \<ge> 256 \<or> sym = [] then None
       else if at0 p 0 = CHR ''+'' then
         map_option (\<lambda>(v, q). (zero_loc\<lparr>l_kind := LOC_LABEL, l_sym := sym, l_offset := v\<rparr>, q))
           (parse_hex_u64 (drop 1 p))
       else Some (zero_loc\<lparr>l_kind := LOC_LABEL, l_sym := sym\<rparr>, p))"

definition word_ends :: "char \<Rightarrow> bool" where
  "word_ends c \<longleftrightarrow> c = NUL \<or> isspace c \<or> c = CHR '';''"

definition parse_insn_expr :: "cstr \<Rightarrow> (insn_expr \<times> cstr) option" where
  "parse_insn_expr s =
    (let p = skip_ws s; raw = (\<lambda>w. \<lparr>i_kind = INS_RAW, i_raw = w, i_target = zero_loc\<rparr>) in
     if starts_with ''nop'' p \<and> word_ends (at0 p 3) then Some (raw ENC_NOP, drop 3 p)
     else if starts_with ''ret'' p \<and> word_ends (at0 p 3) then Some (raw ENC_RET, drop 3 p)
     else if starts_with ''bl '' p then
       map_option (\<lambda>(t, q). (\<lparr>i_kind = INS_BL, i_raw = 0, i_target = t\<rparr>, q)) (parse_loc_expr (drop 3 p))
     else if starts_with ''b '' p then
       map_option (\<lambda>(t, q). (\<lparr>i_kind = INS_B, i_raw = 0, i_target = t\<rparr>, q)) (parse_loc_expr (drop 2 p))
     else
       (case parse_hex_u64 p of
          None \<Rightarrow> None
        | Some (v, q) \<Rightarrow> if v > 0xFFFFFFFF then None else Some (raw (ucast v), q)))"

text \<open>The outer \<^const>\<open>None\<close> is the return value -1.\<close>

definition parse_expect :: "cstr \<Rightarrow> u32 option option" where
  "parse_expect s =
    (let p = skip_ws s in
     if p = [] then Some None
     else if at0 p 0 \<noteq> CHR '';'' then None
     else
       let p = skip_ws (drop 1 p) in
       if \<not> starts_with ''expect '' p then None
       else
         (case parse_hex_u64 (skip_ws (drop 7 p)) of
            None \<Rightarrow> None
          | Some (v, q) \<Rightarrow> if v > 0xFFFFFFFF then None else Some (Some (ucast v))))"

section \<open>Lines\<close>

text \<open>One line of the file: the outer \<^const>\<open>None\<close> is a parse failure, the inner one a line without a
  directive.\<close>

definition parse_line :: "cstr \<Rightarrow> patch_line option option" where
  "parse_line buf =
    (let p = skip_ws (strip_comment buf) in
     if p = [] then Some None
     else if looks_legacy p then
       (case parse_hex_u64 p of
          None \<Rightarrow> None
        | Some (a, q) \<Rightarrow>
            (case parse_hex_u64 q of
               None \<Rightarrow> None
             | Some (i, _) \<Rightarrow>
                 if i > 0xFFFFFFFF then None
                 else Some (Some (zero_line\<lparr>p_kind := LINE_ABS,
                   p_loc := zero_loc\<lparr>l_kind := LOC_ABS, l_offset := a\<rparr>,
                   p_insn := \<lparr>i_kind = INS_RAW, i_raw = ucast i, i_target = zero_loc\<rparr>\<rparr>))))
     else if starts_with ''let '' p then
       let p = skip_ws (drop 4 p);
           stop = name_char {CHR ''=''};
           name = takeWhile stop p; p = skip_ws (dropWhile stop p) in
       if length name \<ge> 128 \<or> at0 p 0 \<noteq> CHR ''='' then None
       else
         (case parse_loc_expr (skip_ws (drop 1 p)) of
            None \<Rightarrow> None
          | Some (loc, _) \<Rightarrow>
              Some (Some (zero_line\<lparr>p_kind := LINE_LET, p_loc := loc, p_label_name := name\<rparr>)))
     else if starts_with ''at '' p then
       (case parse_loc_expr (skip_ws (drop 3 p)) of
          None \<Rightarrow> None
        | Some (loc, q) \<Rightarrow>
            (case parse_insn_expr q of
               None \<Rightarrow> None
             | Some (insn, q) \<Rightarrow>
                 (case parse_expect q of
                    None \<Rightarrow> None
                  | Some expect \<Rightarrow>
                      Some (Some (zero_line\<lparr>p_kind := LINE_AT, p_loc := loc, p_insn := insn,
                        p_expect := expect\<rparr>)))))
     else None)"

fun parse_lines :: "cstr list \<Rightarrow> patch_line list option" where
  "parse_lines [] = Some []"
| "parse_lines (b # bs) =
    (case parse_line b of
       None \<Rightarrow> None
     | Some None \<Rightarrow> parse_lines bs
     | Some (Some l) \<Rightarrow> map_option ((#) l) (parse_lines bs))"

section \<open>Resolution\<close>

fun find_label :: "label list \<Rightarrow> cstr \<Rightarrow> u64 option" where
  "find_label [] name = None"
| "find_label (l # ls) name = (if lb_name l = name then lb_addr l else find_label ls name)"

definition pattern_at :: "mem \<Rightarrow> (u32 \<times> u32) list \<Rightarrow> u64 \<Rightarrow> bool" where
  "pattern_at m pats a \<longleftrightarrow>
     list_all (\<lambda>(k, mask_k, value_k). load32 m (a + of_nat k * 4) AND mask_k = value_k) (zip [0..<length pats] pats)"

text \<open>The scan of \<^verbatim>\<open>pattern_find_unique\<close>, with the number of words from the start to the end of the
  range as its bound; the result is the number of hits, counted up to two, and the first one.\<close>

fun pattern_scan :: "mem \<Rightarrow> (u32 \<times> u32) list \<Rightarrow> u64 \<Rightarrow> nat \<Rightarrow> u64 \<Rightarrow> nat \<Rightarrow> u64 \<Rightarrow> nat \<times> u64" where
  "pattern_scan m pats fin 0 a count hit = (count, hit)"
| "pattern_scan m pats fin (Suc n) a count hit =
    (if a + of_nat (length pats) * 4 \<le> fin then
       if pattern_at m pats a then
         let count = count + 1; hit = (if count = 1 then a else hit) in
         if count > 1 then (count, hit) else pattern_scan m pats fin n (a + 4) count hit
       else pattern_scan m pats fin n (a + 4) count hit
     else (count, hit))"

definition pattern_find_unique :: "mem \<Rightarrow> u64 \<Rightarrow> u64 \<Rightarrow> (u32 \<times> u32) list \<Rightarrow> nat \<times> u64" where
  "pattern_find_unique m start fin pats =
    (let need = of_nat (length pats) * 4 in
     if need = 0 \<or> fin < start \<or> fin - start < need then (0, 0)
     else pattern_scan m pats fin (unat (fin - start) div 4 + 1) start 0 0)"

definition resolve_loc :: "patch_env \<Rightarrow> mem \<Rightarrow> label list \<Rightarrow> loc_expr \<Rightarrow> u64 option" where
  "resolve_loc env m labels loc =
    (if l_kind loc = LOC_ABS then Some (l_offset loc + pe_slide env)
     else if l_kind loc = LOC_LABEL then
       map_option (\<lambda>base. base + l_offset loc) (find_label labels (l_sym loc))
     else if \<not> pe_mh env then None
     else
       let sym_start = pe_lookup env (l_sym loc) in
       if sym_start = 0 then None
       else if l_kind loc = LOC_SYM then Some (sym_start + l_offset loc)
       else
         (case pe_extent env (l_sym loc) of
            None \<Rightarrow> None
          | Some (seg_start, seg_end) \<Rightarrow>
              let fin = (if l_within loc \<noteq> 0 \<and> seg_start + l_within loc < seg_end
                         then seg_start + l_within loc else seg_end);
                  (count, hit) = pattern_find_unique m seg_start fin (l_patterns loc)
              in if count = 0 then None else if count > 1 then None else Some hit))"

section \<open>Application\<close>

definition write_word :: "patch_env \<Rightarrow> u64 \<Rightarrow> u32 \<Rightarrow> mem \<Rightarrow> mem option" where
  "write_word env target insn m =
    (let page = target AND NOT (pe_page_size env - 1) in
     if \<not> pe_mprotect env page then None else Some (store32 m target insn))"

definition register_labels :: "patch_line list \<Rightarrow> label list" where
  "register_labels lines =
     map (\<lambda>l. \<lparr>lb_name = p_label_name l, lb_addr = None\<rparr>) (filter (\<lambda>l. p_kind l = LINE_LET) lines)"

fun set_label :: "cstr \<Rightarrow> u64 \<Rightarrow> label list \<Rightarrow> label list" where
  "set_label name addr [] = []"
| "set_label name addr (l # ls) =
    (if lb_name l = name then l\<lparr>lb_addr := Some addr\<rparr> # ls else l # set_label name addr ls)"

fun resolve_labels :: "patch_env \<Rightarrow> mem \<Rightarrow> patch_line list \<Rightarrow> label list \<Rightarrow> label list option" where
  "resolve_labels env m [] labels = Some labels"
| "resolve_labels env m (l # ls) labels =
    (if p_kind l \<noteq> LINE_LET then resolve_labels env m ls labels
     else
       (case resolve_loc env m labels (p_loc l) of
          None \<Rightarrow> None
        | Some addr \<Rightarrow> resolve_labels env m ls (set_label (p_label_name l) addr labels)))"

fun resolve_addrs :: "patch_env \<Rightarrow> mem \<Rightarrow> label list \<Rightarrow> patch_line list \<Rightarrow> patch_line list option" where
  "resolve_addrs env m labels [] = Some []"
| "resolve_addrs env m labels (l # ls) =
    (if p_kind l = LINE_LET then map_option ((#) l) (resolve_addrs env m labels ls)
     else
       (case resolve_loc env m labels (p_loc l) of
          None \<Rightarrow> None
        | Some addr \<Rightarrow> map_option ((#) (l\<lparr>p_resolved_addr := addr\<rparr>)) (resolve_addrs env m labels ls)))"

definition encode_insn :: "patch_env \<Rightarrow> mem \<Rightarrow> label list \<Rightarrow> patch_line \<Rightarrow> u32 option" where
  "encode_insn env m labels l =
    (if i_kind (p_insn l) = INS_RAW then Some (i_raw (p_insn l))
     else
       (case resolve_loc env m labels (i_target (p_insn l)) of
          None \<Rightarrow> None
        | Some tgt \<Rightarrow>
            let diff = tgt - p_resolved_addr l in
            if \<not> arm64_branch_in_range diff then None
            else
              let woff = ucast (signed_drop_bit 2 diff) in
              Some (if i_kind (p_insn l) = INS_BL then enc_bl woff else enc_b woff)))"

definition expect_ok :: "mem \<Rightarrow> patch_line \<Rightarrow> bool" where
  "expect_ok m l \<longleftrightarrow> (case p_expect l of None \<Rightarrow> True | Some e \<Rightarrow> load32 m (p_resolved_addr l) = e)"

fun encode_lines :: "patch_env \<Rightarrow> mem \<Rightarrow> label list \<Rightarrow> patch_line list \<Rightarrow> patch_line list option" where
  "encode_lines env m labels [] = Some []"
| "encode_lines env m labels (l # ls) =
    (if p_kind l = LINE_LET then map_option ((#) l) (encode_lines env m labels ls)
     else
       (case encode_insn env m labels l of
          None \<Rightarrow> None
        | Some insn \<Rightarrow>
            if \<not> expect_ok m l then None
            else map_option ((#) (l\<lparr>p_resolved_insn := insn\<rparr>)) (encode_lines env m labels ls)))"

fun write_lines :: "patch_env \<Rightarrow> patch_line list \<Rightarrow> int \<Rightarrow> mem \<Rightarrow> mem \<times> int" where
  "write_lines env [] applied m = (m, applied)"
| "write_lines env (l # ls) applied m =
    (if p_kind l = LINE_LET then write_lines env ls applied m
     else
       (case write_word env (p_resolved_addr l) (p_resolved_insn l) m of
          None \<Rightarrow> (m, - 1)
        | Some m \<Rightarrow> write_lines env ls (applied + 1) m))"

text \<open>The passes before the writes: parse, register and resolve the labels, resolve the addresses,
  encode.\<close>

definition patch_plan :: "patch_env \<Rightarrow> string option \<Rightarrow> mem \<Rightarrow> (label list \<times> patch_line list) option" where
  "patch_plan env file m =
    (case file of
       None \<Rightarrow> None
     | Some content \<Rightarrow>
         (case parse_lines (fgets_lines 510 content) of
            None \<Rightarrow> None
          | Some lines \<Rightarrow>
              (case resolve_labels env m lines (register_labels lines) of
                 None \<Rightarrow> None
               | Some labels \<Rightarrow>
                   (case resolve_addrs env m labels lines of
                      None \<Rightarrow> None
                    | Some lines \<Rightarrow>
                        map_option (\<lambda>ls. (labels, ls)) (encode_lines env m labels lines)))))"

definition patcher_apply :: "patch_env \<Rightarrow> string option \<Rightarrow> mem \<Rightarrow> mem \<times> int" where
  "patcher_apply env file m =
    (case patch_plan env file m of
       None \<Rightarrow> (m, - 1)
     | Some (_, lines) \<Rightarrow> write_lines env lines 0 m)"

end
