(* ===== verification/Patcher_Correct.thy ===== *)
theory Patcher_Correct
  imports Patcher
begin

text \<open>
  What a patch run does: nothing before all lines are parsed, resolved, encoded and checked against
  their expected words; then one store per line, in file order. A branch written by a line reaches
  the location the line names. A pattern search finds the one matching address.
\<close>

section \<open>The passes\<close>

abbreviation patches :: "patch_line list \<Rightarrow> patch_line list" where
  "patches lines \<equiv> filter (\<lambda>l. p_kind l \<noteq> LINE_LET) lines"

text \<open>What a line asks for, as a relation between the line, the memory before the run, and the word
  and address that are written.\<close>

definition patch_meaning :: "patch_env \<Rightarrow> mem \<Rightarrow> label list \<Rightarrow> patch_line \<Rightarrow> u64 \<times> u32 \<Rightarrow> bool" where
  "patch_meaning env m labels l = (\<lambda>(a, w).
     resolve_loc env m labels (p_loc l) = Some a \<and>
     (case p_expect l of None \<Rightarrow> True | Some e \<Rightarrow> load32 m a = e) \<and>
     (case i_kind (p_insn l) of
        INS_RAW \<Rightarrow> w = i_raw (p_insn l)
      | k \<Rightarrow> is_branch_imm w \<and> (branch_links w \<longleftrightarrow> k = INS_BL) \<and>
            resolve_loc env m labels (i_target (p_insn l)) = Some (branch_target a w)))"

definition store_all :: "(u64 \<times> u32) list \<Rightarrow> mem \<Rightarrow> mem" where
  "store_all ws m = fold (\<lambda>(a, w) m. store32 m a w) ws m"

lemma branch_target_enc:
  assumes "arm64_branch_in_range (t - a)"
  shows "branch_target a (enc_b (ucast (signed_drop_bit 2 (t - a)))) = t"
    and "branch_target a (enc_bl (ucast (signed_drop_bit 2 (t - a)))) = t"
  using in_range_word_offset [OF assms] by (simp_all add: branch_target_def branch_displacement_enc)

lemma encode_insn_meaning:
  assumes "encode_insn env m labels l = Some w" "expect_ok m l"
    and "resolve_loc env m labels (p_loc l) = Some (p_resolved_addr l)"
  shows "patch_meaning env m labels l (p_resolved_addr l, w)"
  using assms
  by (cases "i_kind (p_insn l)")
     (auto simp: encode_insn_def expect_ok_def patch_meaning_def Let_def is_branch_imm_def branch_target_enc
        split: option.splits if_splits)

definition resolved_word :: "patch_line \<Rightarrow> u64 \<times> u32" where
  "resolved_word l = (p_resolved_addr l, p_resolved_insn l)"

lemma patch_meaning_upd [simp]:
  "patch_meaning env m labels (l\<lparr>p_resolved_addr := a\<rparr>) = patch_meaning env m labels l"
  "patch_meaning env m labels (l\<lparr>p_resolved_insn := w\<rparr>) = patch_meaning env m labels l"
  by (simp_all add: patch_meaning_def cong: insn_kind.case_cong)

lemma resolve_encode_meaning:
  assumes "resolve_addrs env m labels lines = Some lines1"
    and "encode_lines env m labels lines1 = Some lines2"
  shows "list_all2 (patch_meaning env m labels) (patches lines) (map resolved_word (patches lines2))"
  using assms
proof (induction lines arbitrary: lines1 lines2)
  case Nil
  then show ?case by simp
next
  case (Cons l ls)
  show ?case
  proof (cases "p_kind l = LINE_LET")
    case True
    with Cons.prems obtain ls1 ls2 where "resolve_addrs env m labels ls = Some ls1" "lines1 = l # ls1"
      "encode_lines env m labels ls1 = Some ls2" "lines2 = l # ls2" by auto
    with Cons.IH True show ?thesis by simp
  next
    case False
    with Cons.prems obtain a ls1 where 1: "resolve_loc env m labels (p_loc l) = Some a"
      "resolve_addrs env m labels ls = Some ls1" "lines1 = l\<lparr>p_resolved_addr := a\<rparr> # ls1"
      by (auto split: option.splits)
    with False Cons.prems(2) obtain w ls2 where 2: "encode_insn env m labels (l\<lparr>p_resolved_addr := a\<rparr>) = Some w"
      "expect_ok m (l\<lparr>p_resolved_addr := a\<rparr>)" "encode_lines env m labels ls1 = Some ls2"
      "lines2 = l\<lparr>p_resolved_addr := a, p_resolved_insn := w\<rparr> # ls2"
      by (auto split: option.splits if_splits)
    have "patch_meaning env m labels l (a, w)"
      using encode_insn_meaning [OF 2(1,2)] 1(1) by simp
    with Cons.IH [OF 1(2) 2(3)] False 2(4) show ?thesis by (simp add: resolved_word_def)
  qed
qed

lemma write_lines_ok:
  assumes "\<And>a. pe_mprotect env a"
  shows "write_lines env lines n m =
    (store_all (map resolved_word (patches lines)) m, n + int (length (patches lines)))"
  by (induction lines arbitrary: n m) (simp_all add: write_word_def store_all_def resolved_word_def assms)

lemma write_lines_success:
  assumes "write_lines env lines n m = (m', k)" "0 \<le> n" "k \<noteq> - 1"
  shows "m' = store_all (map resolved_word (patches lines)) m \<and> k = n + int (length (patches lines))"
  using assms
  by (induction lines arbitrary: n m)
     (fastforce simp: write_word_def store_all_def resolved_word_def Let_def split: if_splits option.splits)+

lemma patch_plan_cases:
  assumes "patch_plan env file m = Some (labels, lines2)"
  obtains content lines lines1 where "file = Some content" "parse_lines (fgets_lines 510 content) = Some lines"
    "resolve_labels env m lines (register_labels lines) = Some labels"
    "resolve_addrs env m labels lines = Some lines1" "encode_lines env m labels lines1 = Some lines2"
  using assms by (auto simp: patch_plan_def split: option.splits)

text \<open>C21: A run that reports failure has written nothing, as long as the pages of the image can be made
  writable: parsing, label and symbol resolution, pattern search, branch range and expected words are
  all decided before the first write. A run on a missing file fails.\<close>

theorem patcher_failure_keeps_image:
  assumes "\<And>a. pe_mprotect env a" "patcher_apply env file m = (m', r)" "r < 0"
  shows "m' = m \<and> r = - 1 \<and> patch_plan env file m = None"
  using assms by (auto simp: patcher_apply_def write_lines_ok split: option.splits)

text \<open>C20: A run that reports \<open>n\<close> patches found every location and wrote exactly one word for each of the
  \<open>n\<close> patch lines of the file, in file order: the raw word of the line, or a branch (linking exactly
  for \<^verbatim>\<open>bl\<close>) whose target is the location the line names; each expected word was in the original image.\<close>

theorem patcher_apply_success:
  assumes "patcher_apply env file m = (m', n)" "n \<noteq> - 1"
  shows "\<exists>content lines labels ws. file = Some content \<and> parse_lines (fgets_lines 510 content) = Some lines \<and>
    resolve_labels env m lines (register_labels lines) = Some labels \<and>
    list_all2 (patch_meaning env m labels) (patches lines) ws \<and>
    m' = store_all ws m \<and> n = int (length ws)"
proof -
  obtain labels lines2 where plan: "patch_plan env file m = Some (labels, lines2)"
    and wr: "write_lines env lines2 0 m = (m', n)"
    using assms by (auto simp: patcher_apply_def split: option.splits)
  have w: "m' = store_all (map resolved_word (patches lines2)) m" "n = int (length (patches lines2))"
    using write_lines_success [OF wr] assms(2) by simp_all
  from plan obtain content lines lines1 where
    "file = Some content" "parse_lines (fgets_lines 510 content) = Some lines"
    "resolve_labels env m lines (register_labels lines) = Some labels"
    "resolve_addrs env m labels lines = Some lines1" "encode_lines env m labels lines1 = Some lines2"
    by (rule patch_plan_cases)
  with w resolve_encode_meaning show ?thesis by (metis length_map)
qed

section \<open>Labels\<close>

text \<open>Knowing more labels does not change a resolved location.\<close>

definition label_le :: "label list \<Rightarrow> label list \<Rightarrow> bool" where
  "label_le ls ls' \<longleftrightarrow> (\<forall>name a. find_label ls name = Some a \<longrightarrow> find_label ls' name = Some a)"

lemma resolve_loc_mono:
  "label_le ls ls' \<Longrightarrow> resolve_loc env m ls loc = Some a \<Longrightarrow> resolve_loc env m ls' loc = Some a"
  by (auto simp: resolve_loc_def label_le_def Let_def split: if_splits)

lemma find_set_label:
  "find_label (set_label name a ls) name' =
    (if name' = name \<and> name \<in> lb_name ` set ls then Some a else find_label ls name')"
  by (induction ls) auto

lemma set_label_names [simp]: "map lb_name (set_label name a ls) = map lb_name ls"
  by (induction ls) auto

lemma set_label_names_set [simp]: "lb_name ` set (set_label name a ls) = lb_name ` set ls"
  by (metis set_label_names set_map)

lemma label_le_set:
  "find_label ls name = None \<Longrightarrow> label_le ls (set_label name a ls)"
  by (auto simp: label_le_def find_set_label)

lemma label_le_trans: "label_le a b \<Longrightarrow> label_le b c \<Longrightarrow> label_le a c"
  by (simp add: label_le_def)

abbreviation lets :: "patch_line list \<Rightarrow> patch_line list" where
  "lets lines \<equiv> filter (\<lambda>l. p_kind l = LINE_LET) lines"

lemma resolve_labels_values:
  assumes "resolve_labels env m lines ls = Some ls'"
    and "distinct (map p_label_name (lets lines))"
    and "\<forall>l\<in>set (lets lines). p_label_name l \<in> lb_name ` set ls \<and> find_label ls (p_label_name l) = None"
  shows "label_le ls ls' \<and> (\<forall>l\<in>set (lets lines).
    \<exists>a. resolve_loc env m ls' (p_loc l) = Some a \<and> find_label ls' (p_label_name l) = Some a)"
  using assms
proof (induction lines arbitrary: ls)
  case Nil
  then show ?case by (simp add: label_le_def)
next
  case (Cons l lines)
  show ?case
  proof (cases "p_kind l = LINE_LET")
    case False
    with Cons show ?thesis by auto
  next
    case True
    with Cons.prems(1) obtain a where a: "resolve_loc env m ls (p_loc l) = Some a"
      and r: "resolve_labels env m lines (set_label (p_label_name l) a ls) = Some ls'"
      by (auto split: option.splits)
    let ?ls = "set_label (p_label_name l) a ls"
    have "p_label_name l \<notin> p_label_name ` set (lets lines)" using Cons.prems(2) True by simp
    then have "\<forall>x\<in>set (lets lines). p_label_name x \<in> lb_name ` set ?ls \<and> find_label ?ls (p_label_name x) = None"
      using Cons.prems(3) by (force simp: find_set_label)
    then have ih: "label_le ?ls ls'" "\<forall>l\<in>set (lets lines).
        \<exists>a. resolve_loc env m ls' (p_loc l) = Some a \<and> find_label ls' (p_label_name l) = Some a"
      using Cons.IH [OF r] Cons.prems(2) True by simp_all
    have le: "label_le ls ls'"
      using label_le_set [of ls "p_label_name l" a] ih(1) label_le_trans Cons.prems(3) True by auto
    moreover have "find_label ls' (p_label_name l) = Some a"
      using ih(1) Cons.prems(3) True by (auto simp: label_le_def find_set_label)
    ultimately show ?thesis using ih(2) resolve_loc_mono [OF le a] True by auto
  qed
qed

lemma find_label_register: "find_label (register_labels lines) name = None"
  by (induction lines) (auto simp: register_labels_def)

text \<open>When the labels of a file have different names, every label ends up with the location of its
  own line, evaluated with all labels known: a label can be used by later labels and by every patch.\<close>

lemma patcher_labels_resolved:
  assumes "patcher_apply env (Some content) m = (m', n)" "n \<noteq> - 1"
    and "parse_lines (fgets_lines 510 content) = Some lines"
    and "distinct (map p_label_name (lets lines))"
  shows "\<exists>labels. resolve_labels env m lines (register_labels lines) = Some labels \<and>
    (\<forall>l\<in>set (lets lines). \<exists>a. resolve_loc env m labels (p_loc l) = Some a \<and>
       find_label labels (p_label_name l) = Some a)"
proof -
  obtain labels where r: "resolve_labels env m lines (register_labels lines) = Some labels"
    using assms(1-3) by (auto simp: patcher_apply_def patch_plan_def split: option.splits)
  have "\<forall>l\<in>set (lets lines). p_label_name l \<in> lb_name ` set (register_labels lines)"
    by (force simp: register_labels_def)
  then show ?thesis
    using resolve_labels_values [OF r assms(4)] r by (simp add: find_label_register)
qed

end
