(* ===== verification/Patcher_Find.thy ===== *)
theory Patcher_Find
  imports Patcher_Correct
begin

text \<open>
  The pattern language of the patch files: what a pattern of eight nibbles matches, that the scan of
  a function body finds the one match or reports none or several, and that a file of plain
  address/word lines does what it says.
\<close>

section \<open>Nibble patterns\<close>

definition nibble :: "u32 \<Rightarrow> nat \<Rightarrow> nat" where
  "nibble w j = unat (take_bit 4 (drop_bit (4 * j) w))"

lemma nibble_step:
  fixes x :: u32
  assumes "drop_bit 4 (push_bit 4 (v :: u32)) = v" "drop_bit 4 (push_bit 4 (m :: u32)) = m"
  shows "d < 16 \<Longrightarrow> x AND (push_bit 4 m OR 0xF) = push_bit 4 v OR of_nat d \<longleftrightarrow>
    drop_bit 4 x AND m = v \<and> unat (take_bit 4 x) = d"
    and "x AND push_bit 4 m = push_bit 4 v \<longleftrightarrow> drop_bit 4 x AND m = v"
proof -
  have split: "a = b \<longleftrightarrow> take_bit 4 a = take_bit 4 b \<and> drop_bit 4 a = drop_bit 4 b" for a b :: u32
    by (metis bits_ident)
  have p: "take_bit 4 (push_bit 4 (y :: u32)) = 0" for y by (simp add: take_bit_push_bit)
  show "x AND push_bit 4 m = push_bit 4 v \<longleftrightarrow> drop_bit 4 x AND m = v"
    by (subst split) (auto simp: p assms)
  assume d16: "d < 16"
  have F: "take_bit 4 (0xF :: u32) = 0xF" "drop_bit 4 (0xF :: u32) = 0" by simp_all
  have d: "take_bit 4 (of_nat d :: u32) = of_nat d"
    using d16 by (simp add: take_bit_nat_eq_self flip: of_nat_take_bit)
  then have d': "drop_bit 4 (of_nat d :: u32) = 0" by (simp add: take_bit_eq_self_iff_drop_bit_eq_0)
  have tF: "take_bit 4 x AND 0xF = take_bit 4 x"
    by (simp add: take_bit_eq_mask mask_eq_exp_minus_1 and.assoc)
  have u: "take_bit 4 x = of_nat d \<longleftrightarrow> unat (take_bit 4 x) = d"
  proof
    assume "take_bit 4 x = of_nat d"
    then show "unat (take_bit 4 x) = d" using d16 by (simp add: unat_of_nat)
  qed auto
  show "x AND (push_bit 4 m OR 0xF) = push_bit 4 v OR of_nat d \<longleftrightarrow>
    drop_bit 4 x AND m = v \<and> unat (take_bit 4 x) = d"
    by (subst split) (auto simp: p d d' F tF u assms)
qed

lemma fits_push:
  fixes m :: u32
  assumes "take_bit k m = m" "k + 4 \<le> 32"
  shows "drop_bit 4 (push_bit 4 m) = m" "take_bit (k + 4) (push_bit 4 m) = push_bit 4 m"
    "n < 16 \<Longrightarrow> take_bit (k + 4) (push_bit 4 m OR of_nat n) = push_bit 4 m OR of_nat n"
proof -
  have le: "bit m i \<Longrightarrow> i < k" for i using assms(1) by (metis bit_take_bit_iff)
  show "drop_bit 4 (push_bit 4 m) = m"
    by (rule bit_eqI) (use assms(2) le in \<open>fastforce simp: bit_simps\<close>)
  show p: "take_bit (k + 4) (push_bit 4 m) = push_bit 4 m"
    using assms by (simp add: take_bit_push_bit)
  assume "n < 16"
  then have "take_bit (k + 4) (of_nat n :: u32) = of_nat n"
    using power_increasing [of 4 "k + 4" "2 :: nat"]
    by (simp add: take_bit_nat_eq_self flip: of_nat_take_bit)
  with p show "take_bit (k + 4) (push_bit 4 m OR of_nat n) = push_bit 4 m OR of_nat n"
    by (simp only: take_bit_or)
qed

lemma parse_nibbles_meaning:
  assumes "parse_nibbles n s m v = Some (m', v', rest)"
    and "take_bit (32 - 4 * n) m = m" "take_bit (32 - 4 * n) v = v" "n \<le> 8"
  shows "n \<le> length s \<and> rest = drop n s \<and> (w AND m' = v' \<longleftrightarrow> drop_bit (4 * n) w AND m = v \<and>
    (\<forall>i<n. s ! i = CHR ''?'' \<or> is_hex_digit (s ! i) \<and> nibble w (n - 1 - i) = hex_value (s ! i)))"
  using assms
proof (induction n s m v rule: parse_nibbles.induct)
  case (1 s m v)
  then show ?case by simp
next
  case (2 n m v)
  then show ?case by simp
next
  case (3 n c s m v)
  define m1 where "m1 = push_bit 4 m"
  define v1 where "v1 = push_bit 4 v"
  have k: "32 - 4 * n = (32 - 4 * Suc n) + 4" "32 - 4 * Suc n + 4 \<le> 32" using 3(6) by simp_all
  note fm = fits_push [OF 3(4) k(2), folded k(1)]
  note fv = fits_push [OF 3(5) k(2), folded k(1)]
  have ex: "(\<forall>i<Suc n. (c # s) ! i = CHR ''?'' \<or> is_hex_digit ((c # s) ! i) \<and> nibble w (Suc n - 1 - i) = hex_value ((c # s) ! i)) \<longleftrightarrow>
    (c = CHR ''?'' \<or> is_hex_digit c \<and> nibble w n = hex_value c) \<and>
    (\<forall>i<n. s ! i = CHR ''?'' \<or> is_hex_digit (s ! i) \<and> nibble w (n - 1 - i) = hex_value (s ! i))"
    by (subst All_less_Suc2) simp
  have dr: "drop_bit 4 (drop_bit (4 * n) w) = drop_bit (4 * Suc n) w" by (simp add: drop_bit_drop_bit add.commute)
  show ?case
  proof (cases "c = CHR ''?''")
    case True
    then have "n \<le> length s \<and> rest = drop n s \<and> (w AND m' = v' \<longleftrightarrow> drop_bit (4 * n) w AND push_bit 4 m = push_bit 4 v \<and>
      (\<forall>i<n. s ! i = CHR ''?'' \<or> is_hex_digit (s ! i) \<and> nibble w (n - 1 - i) = hex_value (s ! i)))"
      using 3(1) [OF refl refl True] 3(3,6) fm(2) fv(2) by simp
    then show ?thesis unfolding ex using True nibble_step(2) [OF fv(1) fm(1)] dr by simp
  next
    case False
    with 3(3) have h: "is_hex_digit c" by (auto simp: Let_def split: if_splits)
    then have hv: "hex_value c < 16" by (rule hex_value_less)
    have "n \<le> length s \<and> rest = drop n s \<and>
      (w AND m' = v' \<longleftrightarrow> drop_bit (4 * n) w AND (push_bit 4 m OR 0xF) = push_bit 4 v OR of_nat (hex_value c) \<and>
      (\<forall>i<n. s ! i = CHR ''?'' \<or> is_hex_digit (s ! i) \<and> nibble w (n - 1 - i) = hex_value (s ! i)))"
      using 3(2) [OF refl refl False h] 3(3,6) False h fm(3) [of 15] fv(3) [OF hv] by simp
    then show ?thesis
      unfolding ex using h False nibble_step(1) [OF fv(1) fm(1) hv] dr by (simp add: nibble_def)
  qed
qed

text \<open>A pattern that parses has eight characters, each a hexadecimal digit or a question mark, and it
  matches exactly the words that have the given digits at the positions without a question mark.\<close>

lemma parse_pattern_meaning:
  assumes "parse_pattern s = Some (mask_k, value_k)"
  shows "8 \<le> length s \<and> (\<forall>w. w AND mask_k = value_k \<longleftrightarrow>
    (\<forall>i<8. s ! i = CHR ''?'' \<or> nibble w (7 - i) = hex_value (s ! i)))"
proof -
  obtain rest where p: "parse_nibbles 8 s 0 0 = Some (mask_k, value_k, rest)"
    using assms by (auto simp: parse_pattern_def split: option.splits if_splits)
  have "parse_nibbles n s m v = Some (m', v', rest) \<Longrightarrow> i < n \<Longrightarrow> s ! i = CHR ''?'' \<or> is_hex_digit (s ! i)"
    for n s m v m' v' rest i
    by (induction n s m v arbitrary: i rule: parse_nibbles.induct) (auto simp: Let_def nth_Cons' split: if_splits)
  with p have "\<forall>i<8. s ! i = CHR ''?'' \<or> is_hex_digit (s ! i)" by blast
  then have "(\<forall>i<8. s ! i = CHR ''?'' \<or> is_hex_digit (s ! i) \<and> nibble w (7 - i) = hex_value (s ! i)) \<longleftrightarrow>
    (\<forall>i<8. s ! i = CHR ''?'' \<or> nibble w (7 - i) = hex_value (s ! i))" for w by blast
  moreover have "8 \<le> length s \<and> (w AND mask_k = value_k \<longleftrightarrow>
    (\<forall>i<8. s ! i = CHR ''?'' \<or> is_hex_digit (s ! i) \<and> nibble w (7 - i) = hex_value (s ! i)))" for w
    using parse_nibbles_meaning [OF p, of w] by simp
  ultimately show ?thesis by simp
qed

section \<open>The scan\<close>

text \<open>The candidates of a scan are the word addresses from the start at which the pattern ends before the
  end of the range; their number and the ones that match:\<close>

definition candidates :: "u64 \<Rightarrow> u64 \<Rightarrow> nat \<Rightarrow> nat" where
  "candidates a fin len = (if unat a + 4 * len \<le> unat fin then (unat fin - (unat a + 4 * len)) div 4 + 1 else 0)"

definition matches :: "mem \<Rightarrow> (u32 \<times> u32) list \<Rightarrow> u64 \<Rightarrow> u64 \<Rightarrow> u64 list" where
  "matches m pats a fin = filter (pattern_at m pats) (map (\<lambda>k. a + of_nat (4 * k)) [0..<candidates a fin (length pats)])"

lemma pattern_at_iff:
  "pattern_at m pats a \<longleftrightarrow> (\<forall>k<length pats. load32 m (a + of_nat k * 4) AND fst (pats ! k) = snd (pats ! k))"
  by (auto simp: pattern_at_def list_all_length case_prod_beta)

lemma candidates_step:
  assumes "unat a + 4 * len \<le> unat fin" "unat fin + 4 < 2 ^ 64"
  shows "candidates a fin len = Suc (candidates (a + 4) fin len)" "unat (a + 4) = unat a + 4"
proof -
  show u: "unat (a + 4) = unat a + 4"
    using assms unat_add_lem [of a 4] by simp
  show "candidates a fin len = Suc (candidates (a + 4) fin len)"
  proof (cases "unat a + 4 + 4 * len \<le> unat fin")
    case True
    then obtain k where k: "unat fin = unat a + 4 + 4 * len + k" by (metis le_Suc_ex)
    then show ?thesis unfolding candidates_def u k by simp
  next
    case False
    then have "(unat fin - (unat a + 4 * len)) div 4 = 0" by simp
    with False assms(1) show ?thesis unfolding candidates_def u by simp
  qed
qed

lemma matches_step:
  assumes "unat a + 4 * length pats \<le> unat fin" "unat fin + 4 < 2 ^ 64"
  shows "matches m pats a fin = (if pattern_at m pats a then [a] else []) @ matches m pats (a + 4) fin"
proof -
  have e: "a + of_nat (4 * Suc k) = (a + 4) + of_nat (4 * k)" for k by simp
  have "map (\<lambda>k. a + of_nat (4 * k)) [0..<Suc n] = a # map (\<lambda>k. (a + 4) + of_nat (4 * k)) [0..<n]" for n
    by (subst upt_conv_Cons) (simp_all add: e flip: map_Suc_upt del: upt_Suc)
  then show ?thesis unfolding matches_def candidates_step(1) [OF assms] by (simp del: upt_Suc)
qed

lemma pattern_scan_matches:
  assumes "candidates a fin (length pats) \<le> n" "count \<le> 1" "unat fin + 4 < 2 ^ 64"
    and "unat a + 4 * length pats \<le> unat fin + 4"
  shows "pattern_scan m pats fin n a count hit =
    (min 2 (count + length (matches m pats a fin)),
     if count = 0 \<and> matches m pats a fin \<noteq> [] then hd (matches m pats a fin) else hit)"
  using assms
proof (induction n arbitrary: a count hit)
  case 0
  then have "matches m pats a fin = []" by (simp add: matches_def)
  with 0 show ?case by simp
next
  case (Suc n)
  have le: "a + of_nat (length pats) * 4 \<le> fin \<longleftrightarrow> unat a + 4 * length pats \<le> unat fin"
  proof -
    have "unat (a + of_nat (4 * length pats)) = unat a + 4 * length pats"
      using Suc.prems(3,4) by (simp add: unat_word_ariths unat_of_nat)
    then show ?thesis by (simp add: word_le_nat_alt mult.commute)
  qed
  show ?case
  proof (cases "unat a + 4 * length pats \<le> unat fin")
    case False
    then have "matches m pats a fin = []" by (simp add: matches_def candidates_def)
    with False Suc.prems(2) show ?thesis by (simp add: le)
  next
    case True
    note step = candidates_step [OF True Suc.prems(3)] matches_step [OF True Suc.prems(3), of m]
    have ih: "count \<le> 1 \<Longrightarrow> pattern_scan m pats fin n (a + 4) count hit =
      (min 2 (count + length (matches m pats (a + 4) fin)),
       if count = 0 \<and> matches m pats (a + 4) fin \<noteq> [] then hd (matches m pats (a + 4) fin) else hit)" for count hit
      by (rule Suc.IH) (use Suc.prems step True in simp_all)
    show ?thesis
      using True Suc.prems(2) ih step(3) by (cases "count = 0") (auto simp: le Let_def)
  qed
qed

text \<open>The search for a pattern reports none, one or several matches (counted up to two) exactly when
  the words of the range have that many, and its hit is the first matching address. The end of the
  range is not within four bytes of the end of the address space.\<close>

lemma pattern_find_unique_counts:
  assumes "pats \<noteq> []" "length pats \<le> LOC_MAX_PATTERNS" "unat fin + 4 < 2 ^ 64"
  shows "pattern_find_unique m start fin pats =
    (min 2 (length (matches m pats start fin)),
     if matches m pats start fin = [] then 0 else hd (matches m pats start fin))"
proof -
  have need: "unat (of_nat (length pats) * 4 :: u64) = 4 * length pats"
    using assms(2) by (simp add: LOC_MAX_PATTERNS_def unat_word_ariths unat_of_nat)
  then have n0: "of_nat (length pats) * 4 \<noteq> (0 :: u64)" using assms(1) by (metis length_0_conv mult_eq_0_iff unat_0 zero_neq_numeral)
  show ?thesis
  proof (cases "fin < start \<or> fin - start < of_nat (length pats) * 4")
    case True
    then have "\<not> unat start + 4 * length pats \<le> unat fin"
      using need by (auto simp: word_less_nat_alt unat_sub_if_size word_size)
    with True show ?thesis by (auto simp: pattern_find_unique_def Let_def matches_def candidates_def)
  next
    case False
    then have u: "unat (fin - start) = unat fin - unat start" "unat start + 4 * length pats \<le> unat fin"
      using need by (auto simp: word_less_nat_alt unat_sub_if_size word_size not_less word_le_nat_alt split: if_splits)
    then have "candidates start fin (length pats) \<le> unat (fin - start) div 4 + 1"
      by (simp add: candidates_def div_le_mono)
    with pattern_scan_matches [OF this, of 0 m 0] u assms(3) False n0
    show ?thesis by (simp add: pattern_find_unique_def Let_def)
  qed
qed

end
