(* ===== verification/Patcher_File.thy ===== *)
theory Patcher_File
  imports Patcher_Find
begin

text \<open>
  Whole patch files: files of plain address/word lines do what they say, and concrete runs on which
  the properties of the patcher are used.
\<close>

section \<open>Plain files\<close>

definition print_patch :: "u64 \<times> u32 \<Rightarrow> string" where
  "print_patch = (\<lambda>(a, w). ''0x'' @ hex_digits (unat a) @ '' 0x'' @ hex_digits (unat w))"

definition print_patches :: "(u64 \<times> u32) list \<Rightarrow> string" where
  "print_patches ps = concat (map (\<lambda>p. print_patch p @ [CHR 0x0A]) ps)"

lemma hex_cases:
  assumes "list_all is_hex_digit d" "d \<noteq> []" "\<not> is_hex_digit (at0 rest 0)" "at0 rest 0 \<noteq> CHR ''x''" "at0 rest 0 \<noteq> CHR ''X''"
  shows "is_hex_digit (at0 (d @ rest) 0)" "at0 (d @ rest) 1 \<noteq> CHR ''x''" "at0 (d @ rest) 1 \<noteq> CHR ''X''"
proof -
  obtain c d' where d: "d = c # d'" using assms(2) by (cases d) auto
  show "is_hex_digit (at0 (d @ rest) 0)" using assms(1) d by simp
  show "at0 (d @ rest) 1 \<noteq> CHR ''x''" "at0 (d @ rest) 1 \<noteq> CHR ''X''"
    using assms d by (cases d'; auto simp: One_nat_def)+
qed

lemma not_space_hex: "is_hex_digit c \<Longrightarrow> \<not> isspace c \<and> c \<noteq> CHR ''-'' \<and> c \<noteq> CHR ''+'' \<and>
    c \<noteq> CHR '' '' \<and> c \<noteq> CHR 0x09 \<and> c \<noteq> CHR 0x0A \<and> c \<noteq> CHR 0x0D"
  by (auto simp: isspace_def)

lemma dropWhile_at0: "s \<noteq> [] \<Longrightarrow> \<not> P (at0 s 0) \<Longrightarrow> dropWhile P s = s"
  by (cases s) auto

lemma strtoull16_digits:
  assumes "n < 2 ^ 64" "\<not> is_hex_digit (at0 rest 0)" "at0 rest 0 \<noteq> CHR ''x''" "at0 rest 0 \<noteq> CHR ''X''"
  shows "strtoull16 (hex_digits n @ rest) = (of_nat n, False, rest)"
proof -
  let ?d = "hex_digits n"
  have ok: "list_all is_hex_digit ?d" "?d \<noteq> []" "hex_number ?d = n" using hex_digits_ok by blast+
  note h = hex_cases [OF ok(1,2) assms(2,3,4)]
  have "dropWhile isspace (?d @ rest) = ?d @ rest"
    by (rule dropWhile_at0) (use ok(2) not_space_hex [OF h(1)] in auto)
  moreover have "\<not> n > ULLONG_MAX" using assms(1) by (simp add: ULLONG_MAX_def)
  ultimately show ?thesis
    using h not_space_hex [OF h(1)] ok takeWhile_digits [OF ok(1) assms(2)]
    by (simp add: strtoull16_def Let_def)
qed

lemma parse_hex_u64_print:
  assumes "n < 2 ^ 64" "\<not> is_hex_digit (at0 rest 0)" "at0 rest 0 \<noteq> CHR ''x''" "at0 rest 0 \<noteq> CHR ''X''"
  shows "parse_hex_u64 (''0x'' @ hex_digits n @ rest) = Some (of_nat n, rest)"
    and "parse_hex_u64 ('' 0x'' @ hex_digits n @ rest) = Some (of_nat n, rest)"
proof -
  have ok: "list_all is_hex_digit (hex_digits n)" "hex_digits n \<noteq> []" using hex_digits_ok by blast+
  have "is_hex_digit (at0 (hex_digits n @ rest) 0)" by (rule hex_cases(1) [OF ok assms(2,3,4)])
  moreover have "rest \<noteq> hex_digits n @ rest" using ok(2) by simp
  ultimately show "parse_hex_u64 (''0x'' @ hex_digits n @ rest) = Some (of_nat n, rest)"
    "parse_hex_u64 ('' 0x'' @ hex_digits n @ rest) = Some (of_nat n, rest)"
    using strtoull16_digits [OF assms]
    by (simp_all add: parse_hex_u64_def skip_ws_def has_0x_def Let_def)
qed

definition plain_line :: "u64 \<times> u32 \<Rightarrow> patch_line" where
  "plain_line = (\<lambda>(a, w). zero_line\<lparr>p_kind := LINE_ABS, p_loc := zero_loc\<lparr>l_kind := LOC_ABS, l_offset := a\<rparr>,
     p_insn := \<lparr>i_kind = INS_RAW, i_raw = w, i_target = zero_loc\<rparr>\<rparr>)"

lemma hex_plain: "c \<in> set (hex_digits n) \<Longrightarrow> is_hex_digit c"
  using hex_digits_ok [of n] by (simp add: list_all_iff)

lemma print_patch_chars: "c \<in> set (print_patch p) \<Longrightarrow> c \<noteq> CHR ''#'' \<and> c \<noteq> CHR 0x0A \<and> c \<noteq> NUL"
  by (cases p) (auto simp: print_patch_def dest!: hex_plain simp: is_hex_digit_def code_def)

lemma parse_line_print: "parse_line (print_patch (a, w) @ [CHR 0x0A]) = Some (Some (plain_line (a, w)))"
proof -
  have "strip_comment (print_patch (a, w) @ [CHR 0x0A]) = print_patch (a, w) @ [CHR 0x0A]"
    using print_patch_chars by (fastforce simp: strip_comment_def takeWhile_eq_all_conv)
  then have s: "strip_comment (print_patch (a, w) @ [CHR 0x0A]) =
      ''0x'' @ hex_digits (unat a) @ '' 0x'' @ hex_digits (unat w) @ [CHR 0x0A]"
    by (simp add: print_patch_def)
  have a: "parse_hex_u64 (''0x'' @ hex_digits (unat a) @ '' 0x'' @ hex_digits (unat w) @ [CHR 0x0A]) =
      Some (a, '' 0x'' @ hex_digits (unat w) @ [CHR 0x0A])"
    using parse_hex_u64_print(1) [of "unat a" "'' 0x'' @ hex_digits (unat w) @ [CHR 0x0A]"]
      unsigned_less [of a, where ?'a = nat] by simp
  have lt: "unat w < 2 ^ 32" using unsigned_less [of w, where ?'a = nat] by simp
  have "parse_hex_u64 ('' 0x'' @ hex_digits (unat w) @ [CHR 0x0A]) = Some (of_nat (unat w), [CHR 0x0A])"
    using parse_hex_u64_print(2) [of "unat w" "[CHR 0x0A]"] lt by simp
  moreover have "\<not> (of_nat (unat w) :: u64) > 0xFFFFFFFF"
  proof -
    have "unat (of_nat (unat w) :: u64) = unat w" using lt by (simp only: unat_of_nat) simp
    then show ?thesis using lt by (simp add: word_less_nat_alt)
  qed
  moreover have "(ucast (of_nat (unat w) :: u64) :: u32) = w"
    by (rule bit_eqI) (simp add: bit_simps)
  ultimately show ?thesis
    using a by (simp add: parse_line_def s skip_ws_def looks_legacy_def has_0x_def plain_line_def Let_def)
qed

lemma print_patch_length: "length (print_patch (a, w)) \<le> 510"
proof -
  have "length (hex_digits (unat a)) \<le> Suc 15"
    by (rule hex_digits_length) (use unsigned_less [of a, where ?'a = nat] in simp)
  moreover have "length (hex_digits (unat w)) \<le> Suc 7"
    by (rule hex_digits_length) (use unsigned_less [of w, where ?'a = nat] in simp)
  ultimately show ?thesis by (simp add: print_patch_def)
qed

lemma parse_print_patches: "parse_lines (fgets_lines 510 (print_patches ps)) = Some (map plain_line ps)"
proof (induction ps)
  case Nil
  then show ?case by (simp add: print_patches_def)
next
  case (Cons p ps)
  obtain a w where p: "p = (a, w)" by (cases p)
  have "fgets_lines 510 (print_patch p @ CHR 0x0A # print_patches ps) =
      (print_patch p @ [CHR 0x0A]) # fgets_lines 510 (print_patches ps)"
    by (rule fgets_lines_line) (use print_patch_chars [of _ p] print_patch_length [of a w] p in auto)
  then have "parse_lines (fgets_lines 510 (print_patches (p # ps))) =
      parse_lines ((print_patch p @ [CHR 0x0A]) # fgets_lines 510 (print_patches ps))"
    by (simp add: print_patches_def)
  then show ?case using Cons parse_line_print [of a w] p by simp
qed

lemma plain_line_sel [simp]: "p_kind (plain_line p) = LINE_ABS" "p_loc (plain_line p) = zero_loc\<lparr>l_offset := fst p\<rparr>"
  "p_insn (plain_line p) = \<lparr>i_kind = INS_RAW, i_raw = snd p, i_target = zero_loc\<rparr>" "p_expect (plain_line p) = None"
  by (simp_all add: plain_line_def case_prod_beta zero_loc_def zero_line_def)

lemma plain_passes:
  "resolve_labels env m (map plain_line ps) ls = Some ls"
  "resolve_addrs env m ls (map plain_line ps) =
     Some (map (\<lambda>p. plain_line p\<lparr>p_resolved_addr := fst p + pe_slide env\<rparr>) ps)"
  "encode_lines env m ls (map (\<lambda>p. plain_line p\<lparr>p_resolved_addr := fst p + pe_slide env\<rparr>) ps) =
     Some (map (\<lambda>p. plain_line p\<lparr>p_resolved_addr := fst p + pe_slide env, p_resolved_insn := snd p\<rparr>) ps)"
  by (induction ps) (simp_all add: resolve_loc_def encode_insn_def expect_ok_def zero_loc_def)

text \<open>C38: A file of address/word lines, as it is printed from a list of patches, is applied as exactly
  those patches, at the slid addresses and in order, if the pages can be made writable.\<close>

theorem patcher_apply_plain:
  assumes "\<And>a. pe_mprotect env a"
  shows "patcher_apply env (Some (print_patches ps)) m =
    (store_all (map (\<lambda>(a, w). (a + pe_slide env, w)) ps) m, int (length ps))"
proof -
  let ?ls = "map (\<lambda>p. plain_line p\<lparr>p_resolved_addr := fst p + pe_slide env, p_resolved_insn := snd p\<rparr>) ps"
  have "patch_plan env (Some (print_patches ps)) m = Some (register_labels (map plain_line ps), ?ls)"
    by (simp add: patch_plan_def parse_print_patches plain_passes)
  moreover have "patches ?ls = ?ls" by (simp add: filter_map comp_def)
  moreover have "map resolved_word ?ls = map (\<lambda>(a, w). (a + pe_slide env, w)) ps"
    by (simp add: resolved_word_def case_prod_beta)
  ultimately show ?thesis by (simp add: patcher_apply_def write_lines_ok assms del: map_map)
qed

section \<open>Concrete runs\<close>

definition env0 :: patch_env where
  "env0 = \<lparr>pe_mh = True, pe_slide = 0x1000, pe_lookup = (\<lambda>s. if s = ''_f'' then 0x2000 else 0),
     pe_extent = (\<lambda>s. if s = ''_f'' then Some (0x2000, 0x2010) else None), pe_page_size = 0x1000,
     pe_mprotect = (\<lambda>_. True)\<rparr>"

definition mem0 :: mem where "mem0 = (\<lambda>a. if a = 0x2008 then 0x1F else 0)"

definition file0 :: string where
  "file0 = ''let g = sym:_f find ???????f'' @ CHR 0x0A # ''at sym:_f+4 bl g ; expect 0'' @ CHR 0x0A # []"

definition file1 :: string where
  "file1 = ''at sym:_f nop ; expect d65f03c0'' @ CHR 0x0A # []"

lemma env0_mprotect [simp]: "pe_mprotect env0 a"
  by (simp add: env0_def)

lemmas parser_defs = parse_line_def strip_comment_def skip_ws_def looks_legacy_def has_0x_def
  starts_with_def parse_loc_expr_def parse_insn_expr_def parse_expect_def parse_find_def
  parse_hex_u64_def parse_pattern_def name_char_def word_ends_def strtoull16_def isspace_def is_hex_digit_def code_def
  hex_number_def hex_value_def ULLONG_MAX_def Let_def at0_def

lemma file_lines:
  "fgets_lines 510 file1 = [''at sym:_f nop ; expect d65f03c0'' @ [CHR 0x0A]]"
  "fgets_lines 510 file0 = [''let g = sym:_f find ???????f'' @ [CHR 0x0A], ''at sym:_f+4 bl g ; expect 0'' @ [CHR 0x0A]]"
proof -
  show "fgets_lines 510 file1 = [''at sym:_f nop ; expect d65f03c0'' @ [CHR 0x0A]]"
    unfolding file1_def by (subst fgets_lines_line; simp)
  have "fgets_lines 510 (''at sym:_f+4 bl g ; expect 0'' @ CHR 0x0A # []) = [''at sym:_f+4 bl g ; expect 0'' @ [CHR 0x0A]]"
    by (subst fgets_lines_line; simp)
  then show "fgets_lines 510 file0 =
      [''let g = sym:_f find ???????f'' @ [CHR 0x0A], ''at sym:_f+4 bl g ; expect 0'' @ [CHR 0x0A]]"
    unfolding file0_def by (subst fgets_lines_line) simp_all
qed

lemma parse_file1: "parse_lines (fgets_lines 510 file1) =
  Some [zero_line\<lparr>p_loc := zero_loc\<lparr>l_kind := LOC_SYM, l_sym := ''_f''\<rparr>,
    p_insn := \<lparr>i_kind = INS_RAW, i_raw = ENC_NOP, i_target = zero_loc\<rparr>, p_expect := Some 0xd65f03c0\<rparr>]"
  unfolding file_lines by (simp add: parser_defs zero_line_def zero_loc_def)

lemma eight: "(8 :: nat) = Suc (Suc (Suc (Suc (Suc (Suc (Suc (Suc 0)))))))"
  by simp

lemma patterns0: "parse_pattern (''???????f'' @ [CHR 0x0A]) = Some (0xF, 0xF)" "parse_pattern ''9???02a?'' = Some (0xF000FFF0, 0x900002A0)"
  unfolding parse_pattern_def eight
  by (simp_all add: is_hex_digit_def code_def hex_value_def isspace_def at0_def)

lemma find0: "parse_find l (''find ???????f'' @ [CHR 0x0A]) =
    Some (l\<lparr>l_kind := LOC_SYM_FIND, l_patterns := [(0xF, 0xF)], l_within := 0\<rparr>, [])"
  using patterns0(1) by (simp add: parse_find_def LOC_MAX_PATTERNS_def eight skip_ws_def starts_with_def Let_def)

lemma loc0: "parse_loc_expr (''sym:_f find ???????f'' @ [CHR 0x0A]) =
    Some (zero_loc\<lparr>l_kind := LOC_SYM_FIND, l_sym := ''_f'', l_patterns := [(0xF, 0xF)]\<rparr>, [])"
  using find0 by (simp add: parse_loc_expr_def starts_with_def skip_ws_def name_char_def isspace_def zero_loc_def Let_def)

definition let_line0 :: patch_line where
  "let_line0 = zero_line\<lparr>p_kind := LINE_LET, p_loc := zero_loc\<lparr>l_kind := LOC_SYM_FIND, l_sym := ''_f'', l_patterns := [(0xF, 0xF)]\<rparr>,
      p_label_name := ''g''\<rparr>"

definition at_line0 :: patch_line where
  "at_line0 = zero_line\<lparr>p_loc := zero_loc\<lparr>l_kind := LOC_SYM, l_sym := ''_f'', l_offset := 4\<rparr>,
      p_insn := \<lparr>i_kind = INS_BL, i_raw = 0, i_target = zero_loc\<lparr>l_kind := LOC_LABEL, l_sym := ''g''\<rparr>\<rparr>,
      p_expect := Some 0\<rparr>"

lemma parse_let_line0: "parse_line (''let g = sym:_f find ???????f'' @ [CHR 0x0A]) = Some (Some let_line0)"
  using loc0 by (simp add: parse_line_def strip_comment_def skip_ws_def looks_legacy_def has_0x_def
    starts_with_def name_char_def isspace_def let_line0_def is_hex_digit_def code_def Let_def)

lemma parse_at_line0: "parse_line (''at sym:_f+4 bl g ; expect 0'' @ [CHR 0x0A]) = Some (Some at_line0)"
  by (simp add: parser_defs at_line0_def zero_line_def zero_loc_def)

lemma parse_file0: "parse_lines (fgets_lines 510 file0) = Some [let_line0, at_line0]"
  unfolding file_lines by (simp only: parse_lines.simps parse_let_line0 parse_at_line0) simp

lemma mem0_loads: "load32 mem0 0x2000 = 0" "load32 mem0 0x2004 = 0" "load32 mem0 0x2008 = 0x1F" "load32 mem0 0x200C = 0"
proof -
  have "(4 :: nat) = Suc (Suc (Suc (Suc 0)))" by simp
  then show "load32 mem0 0x2000 = 0" "load32 mem0 0x2004 = 0" "load32 mem0 0x2008 = 0x1F" "load32 mem0 0x200C = 0"
    unfolding load32_def by (simp_all only: load.simps) (simp_all add: mem0_def)
qed

lemma run_file1: "snd (patcher_apply env0 (Some file1) mem0) = - 1"
  unfolding patcher_apply_def patch_plan_def
  by (simp add: parse_file1 register_labels_def zero_line_def zero_loc_def resolve_loc_def env0_def
        encode_insn_def expect_ok_def mem0_loads)

lemma find_g: "pattern_find_unique mem0 0x2000 0x2010 [(0xF, 0xF)] = (1, 0x2008)"
proof -
  have "(5 :: nat) = Suc (Suc (Suc (Suc (Suc 0))))" by simp
  then have "pattern_scan mem0 [(0xF, 0xF)] 0x2010 5 0x2000 0 0 = (1, 0x2008)"
    by (simp only: pattern_scan.simps) (simp add: pattern_at_def mem0_loads Let_def)
  then show ?thesis by (simp add: pattern_find_unique_def)
qed

lemma run_file0: "snd (patcher_apply env0 (Some file0) mem0) = 1"
  unfolding patcher_apply_def patch_plan_def
  by (simp add: parse_file0 let_line0_def at_line0_def register_labels_def zero_line_def zero_loc_def resolve_loc_def env0_def
        encode_insn_def expect_ok_def mem0_loads find_g Let_def write_word_def
        arm64_branch_in_range_def)

theorem patcher_failure_keeps_image_witness:
  "patcher_apply env0 (Some file1) mem0 = (mem0, - 1) \<and> patch_plan env0 (Some file1) mem0 = None"
  using patcher_failure_keeps_image [OF env0_mprotect surjective_pairing, of "Some file1" mem0] run_file1
  by (metis neg_less_0_iff_less prod.collapse zero_less_one)

theorem patcher_apply_success_witness:
  "snd (patcher_apply env0 (Some file0) mem0) = 1 \<and>
   (\<exists>lines labels ws. parse_lines (fgets_lines 510 file0) = Some lines \<and>
      list_all2 (patch_meaning env0 mem0 labels) (patches lines) ws \<and>
      fst (patcher_apply env0 (Some file0) mem0) = store_all ws mem0 \<and> length ws = 1)"
proof -
  have "snd (patcher_apply env0 (Some file0) mem0) \<noteq> - 1" by (simp add: run_file0)
  from patcher_apply_success [OF surjective_pairing this] show ?thesis
    using run_file0 by (metis of_nat_eq_1_iff option.inject)
qed

theorem patcher_labels_resolved_witness:
  "\<exists>labels. resolve_labels env0 mem0 [let_line0, at_line0] (register_labels [let_line0, at_line0]) = Some labels \<and>
    find_label labels ''g'' = Some 0x2008"
proof -
  have ne: "snd (patcher_apply env0 (Some file0) mem0) \<noteq> - 1" by (simp add: run_file0)
  have d: "distinct (map p_label_name (lets [let_line0, at_line0]))" by (simp add: let_line0_def at_line0_def zero_line_def)
  have g: "resolve_loc env0 mem0 ls (p_loc let_line0) = Some 0x2008" for ls
    by (simp add: let_line0_def zero_loc_def resolve_loc_def env0_def find_g)
  from patcher_labels_resolved [OF surjective_pairing ne parse_file0 d] g
  show ?thesis by (auto simp: let_line0_def at_line0_def)
qed

theorem parse_pattern_meaning_witness:
  "\<exists>mk v. parse_pattern ''9???02a?'' = Some (mk, v) \<and> (\<forall>w. w AND mk = v \<longleftrightarrow>
    (\<forall>i<8. ''9???02a?'' ! i = CHR ''?'' \<or> nibble w (7 - i) = hex_value (''9???02a?'' ! i)))"
proof -
  have "parse_pattern ''9???02a?'' = Some (0xF000FFF0, 0x900002A0)"
    by (rule patterns0)
  from parse_pattern_meaning [OF this] this show ?thesis by blast
qed

theorem pattern_find_unique_counts_witness:
  "pattern_find_unique mem0 0x2000 0x2010 [(0xF, 0xF)] = (1, 0x2008) \<and>
   length (matches mem0 [(0xF, 0xF)] 0x2000 0x2010) = 1 \<and> hd (matches mem0 [(0xF, 0xF)] 0x2000 0x2010) = 0x2008"
  using pattern_find_unique_counts [of "[(0xF, 0xF)]" "0x2010" mem0 "0x2000"] find_g
  by (auto simp: LOC_MAX_PATTERNS_def split: if_splits)

theorem patcher_apply_plain_witness:
  "patcher_apply env0 (Some (print_patches [(0x10, ENC_NOP), (0x14, ENC_RET)])) mem0 =
     (store32 (store32 mem0 0x1010 ENC_NOP) 0x1014 ENC_RET, 2)"
  using patcher_apply_plain [OF env0_mprotect, of "[(0x10, ENC_NOP), (0x14, ENC_RET)]" mem0]
  by (simp add: env0_def store_all_def)

end
