(* ===== verification/Macho.thy ===== *)
theory Macho
  imports Guest_Memory C_String
begin

text \<open>
  The structures of a loaded Mach-O image, from \<^verbatim>\<open>src/src/macho_defs.h\<close>, read from guest memory at
  the offsets their declarations have on a 64-bit machine: the header, the load commands that follow
  it, segments and their sections, and the symbol table.
\<close>

section \<open>Constants\<close>

definition MH_MAGIC_64 :: u32 where "MH_MAGIC_64 = 0xfeedfacf"
definition LC_SYMTAB :: u32 where "LC_SYMTAB = 0x2"
definition LC_SEGMENT_64 :: u32 where "LC_SEGMENT_64 = 0x19"
definition VM_PROT_EXECUTE :: u32 where "VM_PROT_EXECUTE = 0x04"
definition S_ATTR_PURE_INSTRUCTIONS :: u32 where "S_ATTR_PURE_INSTRUCTIONS = 0x80000000"
definition S_ATTR_SOME_INSTRUCTIONS :: u32 where "S_ATTR_SOME_INSTRUCTIONS = 0x00000400"
definition N_STAB :: u8 where "N_STAB = 0xe0"
definition N_TYPE :: u8 where "N_TYPE = 0x0e"
definition N_EXT :: u8 where "N_EXT = 0x01"
definition N_SECT :: u8 where "N_SECT = 0xe"

lemmas macho_consts = MH_MAGIC_64_def LC_SYMTAB_def LC_SEGMENT_64_def VM_PROT_EXECUTE_def
  S_ATTR_PURE_INSTRUCTIONS_def S_ATTR_SOME_INSTRUCTIONS_def N_STAB_def N_TYPE_def N_EXT_def N_SECT_def

section \<open>Strings in memory\<close>

text \<open>The characters from an address up to a NUL, at most the given number.\<close>

fun cstr_at :: "mem \<Rightarrow> nat \<Rightarrow> u64 \<Rightarrow> cstr" where
  "cstr_at m 0 a = []"
| "cstr_at m (Suc n) a = (if m a = 0 then [] else char_of (unat (m a)) # cstr_at m n (a + 1))"

lemma cstr_at_numeral [simp]:
  "cstr_at m (numeral k) a = (if m a = 0 then [] else char_of (unat (m a)) # cstr_at m (pred_numeral k) (a + 1))"
  by (simp add: numeral_eq_Suc)

text \<open>A string that never ends would fill the address space.\<close>

definition mem_str :: "mem \<Rightarrow> u64 \<Rightarrow> cstr" where
  "mem_str m a = cstr_at m (2 ^ 64) a"

definition mem_bytes :: "mem \<Rightarrow> u64 \<Rightarrow> nat \<Rightarrow> u8 list" where
  "mem_bytes m a n = map (\<lambda>i. m (a + of_nat i)) [0..<n]"

lemma length_mem_bytes [simp]: "length (mem_bytes m a n) = n"
  by (simp add: mem_bytes_def)

section \<open>Structures\<close>

record mach_header_64 =
  mh_magic :: u32
  mh_cputype :: u32
  mh_cpusubtype :: u32
  mh_filetype :: u32
  mh_ncmds :: u32
  mh_sizeofcmds :: u32
  mh_flags :: u32
  mh_reserved :: u32

definition read_header :: "mem \<Rightarrow> u64 \<Rightarrow> mach_header_64" where
  "read_header m a = \<lparr>mh_magic = load32 m a, mh_cputype = load32 m (a + 4), mh_cpusubtype = load32 m (a + 8),
     mh_filetype = load32 m (a + 12), mh_ncmds = load32 m (a + 16), mh_sizeofcmds = load32 m (a + 20),
     mh_flags = load32 m (a + 24), mh_reserved = load32 m (a + 28)\<rparr>"

record load_command =
  lc_cmd :: u32
  lc_cmdsize :: u32

definition read_command :: "mem \<Rightarrow> u64 \<Rightarrow> load_command" where
  "read_command m a = \<lparr>lc_cmd = load32 m a, lc_cmdsize = load32 m (a + 4)\<rparr>"

text \<open>The name of a segment stays in memory; the record keeps its address.\<close>

record segment_command_64 =
  seg_segname :: u64
  seg_vmaddr :: u64
  seg_vmsize :: u64
  seg_fileoff :: u64
  seg_filesize :: u64
  seg_maxprot :: u32
  seg_initprot :: u32
  seg_nsects :: u32
  seg_flags :: u32
  seg_sections :: u64

definition read_segment :: "mem \<Rightarrow> u64 \<Rightarrow> segment_command_64" where
  "read_segment m a = \<lparr>seg_segname = a + 8, seg_vmaddr = load m (a + 24) 8, seg_vmsize = load m (a + 32) 8,
     seg_fileoff = load m (a + 40) 8, seg_filesize = load m (a + 48) 8, seg_maxprot = load32 m (a + 56),
     seg_initprot = load32 m (a + 60), seg_nsects = load32 m (a + 64), seg_flags = load32 m (a + 68),
     seg_sections = a + 72\<rparr>"

record section_64 =
  sec_addr :: u64
  sec_size :: u64
  sec_flags :: u32

text \<open>The fields of a section the code reads.\<close>

definition read_section :: "mem \<Rightarrow> u64 \<Rightarrow> section_64" where
  "read_section m a = \<lparr>sec_addr = load m (a + 32) 8, sec_size = load m (a + 40) 8, sec_flags = load32 m (a + 64)\<rparr>"

definition read_sections :: "mem \<Rightarrow> segment_command_64 \<Rightarrow> section_64 list" where
  "read_sections m seg = map (\<lambda>j. read_section m (seg_sections seg + 80 * of_nat j)) [0..<unat (seg_nsects seg)]"

record symtab_command =
  st_symoff :: u32
  st_nsyms :: u32
  st_stroff :: u32
  st_strsize :: u32

definition read_symtab :: "mem \<Rightarrow> u64 \<Rightarrow> symtab_command" where
  "read_symtab m a = \<lparr>st_symoff = load32 m (a + 8), st_nsyms = load32 m (a + 12), st_stroff = load32 m (a + 16),
     st_strsize = load32 m (a + 20)\<rparr>"

record nlist_64 =
  n_strx :: u32
  n_type :: u8
  n_sect :: u8
  n_desc :: "16 word"
  n_value :: u64

definition read_nlist :: "mem \<Rightarrow> u64 \<Rightarrow> nlist_64" where
  "read_nlist m a = \<lparr>n_strx = load32 m a, n_type = m (a + 4), n_sect = m (a + 5), n_desc = ucast (load m (a + 6) 2),
     n_value = load m (a + 8) 8\<rparr>"

section \<open>Load commands\<close>

text \<open>The loop every pass over the load commands has: it starts behind the header, takes \<^verbatim>\<open>ncmds\<close>
  commands and steps by their sizes. The result is the list of their addresses.\<close>

fun command_addrs :: "mem \<Rightarrow> nat \<Rightarrow> u64 \<Rightarrow> u64 list" where
  "command_addrs m 0 a = []"
| "command_addrs m (Suc n) a = a # command_addrs m n (a + ucast (lc_cmdsize (read_command m a)))"

definition load_commands :: "mem \<Rightarrow> u64 \<Rightarrow> u64 list" where
  "load_commands m mh = command_addrs m (unat (mh_ncmds (read_header m mh))) (mh + 32)"

definition commands_of :: "mem \<Rightarrow> u64 \<Rightarrow> u32 \<Rightarrow> u64 list" where
  "commands_of m mh cmd = filter (\<lambda>a. lc_cmd (read_command m a) = cmd) (load_commands m mh)"

definition segments :: "mem \<Rightarrow> u64 \<Rightarrow> segment_command_64 list" where
  "segments m mh = map (read_segment m) (commands_of m mh LC_SEGMENT_64)"

end
