(* ===== verification/Symbol_Table.thy ===== *)
theory Symbol_Table
  imports Macho "HOL-Library.Multiset"
begin

text \<open>
  The symbol queries of \<^verbatim>\<open>src/src/resolver.c\<close> on a loaded image: \<^verbatim>\<open>resolver_lookup_symbol\<close>, the first
  section symbol of a name, and \<^verbatim>\<open>resolver_symbol_extent\<close>, the range from a symbol to the next one of its
  section, answered from a cache of the sorted symbols that is rebuilt when another image is asked for.

  The order \<^verbatim>\<open>qsort\<close> gives to symbols at the same address is not specified, so the sorting function is a
  parameter; \<open>qsort_contract\<close> is what C promises of it. Allocations succeed.
\<close>

section \<open>Load commands within the bounds of the header\<close>

text \<open>The passes of the resolver and the dylib loader stop at \<^verbatim>\<open>sizeofcmds\<close> too; the offset \<^verbatim>\<open>p\<close> is 32 bits wide.\<close>

fun walk_commands :: "mem \<Rightarrow> u64 \<Rightarrow> u32 \<Rightarrow> nat \<Rightarrow> u32 \<Rightarrow> u64 list" where
  "walk_commands m cmds sz 0 p = []"
| "walk_commands m cmds sz (Suc n) p =
    (if p < sz
     then (cmds + ucast p) # walk_commands m cmds sz n (p + lc_cmdsize (read_command m (cmds + ucast p)))
     else [])"

definition bounded_commands :: "mem \<Rightarrow> u64 \<Rightarrow> u64 list" where
  "bounded_commands m mh =
     walk_commands m (mh + 32) (mh_sizeofcmds (read_header m mh)) (unat (mh_ncmds (read_header m mh))) 0"

definition bounded_segments :: "mem \<Rightarrow> u64 \<Rightarrow> segment_command_64 list" where
  "bounded_segments m mh =
     map (read_segment m) (filter (\<lambda>a. lc_cmd (read_command m a) = LC_SEGMENT_64) (bounded_commands m mh))"

definition last_symtab :: "mem \<Rightarrow> u64 \<Rightarrow> symtab_command option" where
  "last_symtab m mh =
    (case rev (filter (\<lambda>a. lc_cmd (read_command m a) = LC_SYMTAB) (bounded_commands m mh)) of
       [] \<Rightarrow> None
     | a # _ \<Rightarrow> Some (read_symtab m a))"

text \<open>The symbol and string tables in memory, through the last segment that holds the file offset of the symbols.\<close>

definition locate_tables :: "symtab_command \<Rightarrow> u64 \<Rightarrow> segment_command_64 list \<Rightarrow> u64 \<times> u64" where
  "locate_tables symtab slide segs =
     fold (\<lambda>seg acc.
       if ucast (st_symoff symtab) \<ge> seg_fileoff seg \<and> ucast (st_symoff symtab) < seg_fileoff seg + seg_filesize seg
       then (seg_vmaddr seg + slide + (ucast (st_symoff symtab) - seg_fileoff seg),
             seg_vmaddr seg + slide + (ucast (st_stroff symtab) - seg_fileoff seg))
       else acc) segs (0, 0)"

definition symbols_at :: "mem \<Rightarrow> u64 \<Rightarrow> u32 \<Rightarrow> nlist_64 list" where
  "symbols_at m syms n = map (\<lambda>i. read_nlist m (syms + 16 * of_nat i)) [0..<unat n]"

definition section_symbol :: "u32 \<Rightarrow> nlist_64 \<Rightarrow> bool" where
  "section_symbol strsize nl \<longleftrightarrow> n_type nl AND N_STAB = 0 \<and> n_type nl AND N_TYPE = N_SECT \<and> n_strx nl < strsize"

section \<open>Lookup by name\<close>

definition lookup_macho_symbol :: "mem \<Rightarrow> u64 \<Rightarrow> u64 \<Rightarrow> cstr \<Rightarrow> u64" where
  "lookup_macho_symbol m mh slide name =
    (case last_symtab m mh of
       None \<Rightarrow> 0
     | Some symtab \<Rightarrow>
         let (syms, strtab) = locate_tables symtab slide (bounded_segments m mh) in
         if syms = 0 \<or> strtab = 0 then 0
         else
           (case List.find (\<lambda>nl. section_symbol (st_strsize symtab) nl \<and> mem_str m (strtab + ucast (n_strx nl)) = name)
                   (symbols_at m syms (st_nsyms symtab)) of
              None \<Rightarrow> 0
            | Some nl \<Rightarrow> n_value nl + slide))"

definition resolver_lookup_symbol :: "mem \<Rightarrow> u64 \<Rightarrow> u64 \<Rightarrow> cstr \<Rightarrow> u64" where
  "resolver_lookup_symbol m mh slide name = lookup_macho_symbol m mh slide name"

section \<open>Extent of a symbol\<close>

record sym_entry =
  se_vmaddr :: u64
  se_strx :: u32
  se_sect :: u8

record extent_cache =
  ec_mh :: u64
  ec_syms :: "sym_entry list option"
  ec_strtab :: u64
  ec_strsize :: u32
  ec_section_ends :: "u64 list"

definition empty_cache :: extent_cache where
  "empty_cache = \<lparr>ec_mh = 0, ec_syms = None, ec_strtab = 0, ec_strsize = 0, ec_section_ends = []\<rparr>"

text \<open>What the cache holds of a symbol, and the ends of the sections by their number, from 1.\<close>

definition sym_entry_of :: "nlist_64 \<Rightarrow> sym_entry" where
  "sym_entry_of nl = \<lparr>se_vmaddr = n_value nl, se_strx = n_strx nl, se_sect = n_sect nl\<rparr>"

definition section_ends :: "mem \<Rightarrow> u64 \<Rightarrow> u64 list" where
  "section_ends m mh =
     0 # concat (map (\<lambda>seg. map (\<lambda>s. sec_addr s + sec_size s) (read_sections m seg)) (bounded_segments m mh))"

definition build_extent_cache ::
  "(sym_entry list \<Rightarrow> sym_entry list) \<Rightarrow> mem \<Rightarrow> u64 \<Rightarrow> u64 \<Rightarrow> extent_cache \<Rightarrow> bool \<times> extent_cache" where
  "build_extent_cache qsort m mh slide c =
    (if ec_mh c = mh \<and> ec_syms c \<noteq> None then (True, c)
     else
       case last_symtab m mh of
         None \<Rightarrow> (False, empty_cache)
       | Some symtab \<Rightarrow>
           let c = empty_cache\<lparr>ec_section_ends := section_ends m mh\<rparr>;
               (syms, strtab) = locate_tables symtab slide (bounded_segments m mh)
           in if syms = 0 \<or> strtab = 0 then (False, c)
              else (True, \<lparr>ec_mh = mh,
                ec_syms = Some (qsort (map sym_entry_of (filter (section_symbol (st_strsize symtab))
                                                            (symbols_at m syms (st_nsyms symtab))))),
                ec_strtab = strtab, ec_strsize = st_strsize symtab, ec_section_ends = section_ends m mh\<rparr>))"

definition extent_query :: "mem \<Rightarrow> u64 \<Rightarrow> cstr \<Rightarrow> extent_cache \<Rightarrow> (u64 \<times> u64) option" where
  "extent_query m slide name c =
    (case dropWhile (\<lambda>e. mem_str m (ec_strtab c + ucast (se_strx e)) \<noteq> name) (the (ec_syms c)) of
       [] \<Rightarrow> None
     | e # rest \<Rightarrow>
         let next = (case List.find (\<lambda>e'. se_sect e' = se_sect e) rest of None \<Rightarrow> 0 | Some e' \<Rightarrow> se_vmaddr e');
             fin = (if next = 0 \<and> unat (se_sect e) < length (ec_section_ends c)
                    then ec_section_ends c ! unat (se_sect e) else next)
         in if fin \<le> se_vmaddr e then None else Some (se_vmaddr e + slide, fin + slide))"

definition resolver_symbol_extent ::
  "(sym_entry list \<Rightarrow> sym_entry list) \<Rightarrow> mem \<Rightarrow> u64 \<Rightarrow> u64 \<Rightarrow> cstr \<Rightarrow> extent_cache
     \<Rightarrow> (u64 \<times> u64) option \<times> extent_cache" where
  "resolver_symbol_extent qsort m mh slide name c =
    (let (ok, c) = build_extent_cache qsort m mh slide c in
     if ok then (extent_query m slide name c, c) else (None, c))"

section \<open>Sorting\<close>

locale qsort_contract =
  fixes qsort :: "sym_entry list \<Rightarrow> sym_entry list"
  assumes qsort_mset: "mset (qsort xs) = mset xs"
    and qsort_sorted: "sorted (map se_vmaddr (qsort xs))"
begin

text \<open>After an entry of a sorted cache, the first one of the same section is the next of the section in
  address order.\<close>

lemma next_of_section:
  assumes q: "qsort xs = pre @ e # rest" and f: "List.find (\<lambda>e'. se_sect e' = se_sect e) rest = r"
    and x: "x \<in> set xs" "se_sect x = se_sect e" "se_vmaddr e < se_vmaddr x"
  shows "\<exists>e'. r = Some e' \<and> se_vmaddr e' \<le> se_vmaddr x"
proof -
  have "set xs = set (pre @ e # rest)" using qsort_mset [of xs] q by (metis set_mset_mset)
  moreover have s: "sorted (map se_vmaddr (pre @ e # rest))" using qsort_sorted [of xs] q by simp
  then have "\<forall>y\<in>set pre. se_vmaddr y \<le> se_vmaddr e" by (auto simp: sorted_append)
  ultimately have xr: "x \<in> set rest" using x by (auto simp: not_less [symmetric])
  have "sorted (map se_vmaddr rest)" using s by (simp add: sorted_append)
  then show ?thesis
    using xr x(2) f
    by (induction rest arbitrary: r) (auto split: if_splits)
qed

end

interpretation stable_qsort: qsort_contract "sort_key se_vmaddr"
  by unfold_locales simp_all

section \<open>The answer and its cache\<close>

text \<open>The entries of an image, as the sorted array holds them.\<close>

definition image_entries :: "mem \<Rightarrow> u64 \<Rightarrow> u64 \<Rightarrow> sym_entry list" where
  "image_entries m mh slide =
    (case last_symtab m mh of
       None \<Rightarrow> []
     | Some symtab \<Rightarrow>
         map sym_entry_of (filter (section_symbol (st_strsize symtab))
           (symbols_at m (fst (locate_tables symtab slide (bounded_segments m mh))) (st_nsyms symtab))))"

definition image_strtab :: "mem \<Rightarrow> u64 \<Rightarrow> u64 \<Rightarrow> u64" where
  "image_strtab m mh slide =
    (case last_symtab m mh of None \<Rightarrow> 0 | Some symtab \<Rightarrow> snd (locate_tables symtab slide (bounded_segments m mh)))"

lemma build_from_empty:
  assumes "build_extent_cache qsort m mh slide empty_cache = (True, c)"
  shows "c = \<lparr>ec_mh = mh, ec_syms = Some (qsort (image_entries m mh slide)), ec_strtab = image_strtab m mh slide,
    ec_strsize = ec_strsize c, ec_section_ends = section_ends m mh\<rparr>"
  using assms
  by (auto simp: build_extent_cache_def empty_cache_def image_entries_def image_strtab_def Let_def case_prod_beta
      split: option.splits if_splits)

text \<open>A cache is consistent with the image and slide it was built for.\<close>

definition cache_ok :: "(sym_entry list \<Rightarrow> sym_entry list) \<Rightarrow> mem \<Rightarrow> (u64 \<Rightarrow> u64) \<Rightarrow> extent_cache \<Rightarrow> bool" where
  "cache_ok qsort m slide_of c \<longleftrightarrow>
     (ec_syms c \<noteq> None \<longrightarrow> build_extent_cache qsort m (ec_mh c) (slide_of (ec_mh c)) empty_cache = (True, c))"

lemma cache_ok_empty: "cache_ok qsort m slide_of empty_cache"
  by (simp add: cache_ok_def empty_cache_def)

lemma build_ignores_cache:
  assumes "\<not> (ec_mh c = mh \<and> ec_syms c \<noteq> None)"
  shows "build_extent_cache qsort m mh slide c = build_extent_cache qsort m mh slide empty_cache"
proof -
  have "\<not> (ec_mh empty_cache = mh \<and> ec_syms empty_cache \<noteq> None)" by (simp add: empty_cache_def)
  with assms show ?thesis unfolding build_extent_cache_def by (simp only: if_False)
qed

lemma build_cached:
  assumes "cache_ok qsort m slide_of c"
  shows "build_extent_cache qsort m mh (slide_of mh) c = build_extent_cache qsort m mh (slide_of mh) empty_cache"
proof (cases "ec_mh c = mh \<and> ec_syms c \<noteq> None")
  case True
  then have "build_extent_cache qsort m mh (slide_of mh) c = (True, c)" by (simp add: build_extent_cache_def)
  with True assms show ?thesis by (auto simp: cache_ok_def)
qed (rule build_ignores_cache)

lemma cache_ok_build:
  assumes "build_extent_cache qsort m mh (slide_of mh) empty_cache = (ok, c)"
  shows "cache_ok qsort m slide_of c"
proof (cases ok)
  case True
  with assms have "ec_mh c = mh" using build_from_empty [of qsort m mh "slide_of mh" c]
    by (metis extent_cache.select_convs(1))
  with assms True show ?thesis by (simp add: cache_ok_def)
next
  case False
  with assms have "ec_syms c = None"
    by (auto simp: build_extent_cache_def empty_cache_def Let_def case_prod_beta split: option.splits if_splits)
  then show ?thesis by (simp add: cache_ok_def)
qed

definition answer_query ::
  "(sym_entry list \<Rightarrow> sym_entry list) \<Rightarrow> mem \<Rightarrow> (u64 \<Rightarrow> u64) \<Rightarrow> u64 \<times> cstr \<Rightarrow> extent_cache \<Rightarrow> extent_cache" where
  "answer_query qsort m slide_of q c = snd (resolver_symbol_extent qsort m (fst q) (slide_of (fst q)) (snd q) c)"

interpretation extent_queries: step_invariant "answer_query qsort m slide_of" "cache_ok qsort m slide_of"
proof unfold_locales
  fix c and q :: "u64 \<times> cstr"
  assume "cache_ok qsort m slide_of c"
  then have "build_extent_cache qsort m (fst q) (slide_of (fst q)) c
      = build_extent_cache qsort m (fst q) (slide_of (fst q)) empty_cache" by (rule build_cached)
  then show "cache_ok qsort m slide_of (answer_query qsort m slide_of q c)"
    by (auto simp: answer_query_def resolver_symbol_extent_def split: prod.splits intro: cache_ok_build)
qed

text \<open>C24: The cache is invisible. After any sequence of extent queries on any images, each at its own slide,
  the answer to a query is the one a freshly started resolver gives.\<close>

theorem extent_cache_transparent:
  "fst (resolver_symbol_extent qsort m mh (slide_of mh) name (fold (answer_query qsort m slide_of) queries empty_cache))
   = fst (resolver_symbol_extent qsort m mh (slide_of mh) name empty_cache)"
proof -
  have "cache_ok qsort m slide_of (fold (answer_query qsort m slide_of) queries empty_cache)"
    by (rule extent_queries.run_inv) (rule cache_ok_empty)
  then show ?thesis by (simp add: resolver_symbol_extent_def build_cached)
qed

text \<open>C25: The extent of a symbol. If the query for a name succeeds with a range, the range starts at a section
  symbol of that name; its end is above the start and is the address of a later symbol or the end of the
  symbol's own section; and unless the symbol is at address 0, no symbol of its section lies strictly inside.\<close>

theorem symbol_extent_sound:
  assumes "qsort_contract qsort"
    and "fst (resolver_symbol_extent qsort m mh slide name empty_cache) = Some (lo, hi)"
  shows "\<exists>e\<in>set (image_entries m mh slide). \<exists>fin.
    mem_str m (image_strtab m mh slide + ucast (se_strx e)) = name \<and> lo = se_vmaddr e + slide \<and> hi = fin + slide \<and>
    se_vmaddr e < fin \<and>
    ((\<exists>e'\<in>set (image_entries m mh slide). se_sect e' = se_sect e \<and> se_vmaddr e' = fin) \<or>
     unat (se_sect e) < length (section_ends m mh) \<and> fin = section_ends m mh ! unat (se_sect e)) \<and>
    (se_vmaddr e \<noteq> 0 \<longrightarrow>
      \<not> (\<exists>x\<in>set (image_entries m mh slide). se_sect x = se_sect e \<and> se_vmaddr e < se_vmaddr x \<and> se_vmaddr x < fin))"
proof -
  let ?es = "image_entries m mh slide" and ?nm = "\<lambda>e. mem_str m (image_strtab m mh slide + ucast (se_strx e))"
  obtain c where "build_extent_cache qsort m mh slide empty_cache = (True, c)"
    and qc: "extent_query m slide name c = Some (lo, hi)"
    using assms(2) by (auto simp: resolver_symbol_extent_def split: prod.splits if_splits)
  then have c: "the (ec_syms c) = qsort ?es" "ec_strtab c = image_strtab m mh slide" "ec_section_ends c = section_ends m mh"
    using build_from_empty by (metis extent_cache.select_convs option.sel)+
  from qc c obtain e rest where d: "dropWhile (\<lambda>e. ?nm e \<noteq> name) (qsort ?es) = e # rest"
    by (auto simp: extent_query_def split: list.splits)
  define r where "r = List.find (\<lambda>e'. se_sect e' = se_sect e) rest"
  define fin where "fin = (let next = (case r of None \<Rightarrow> 0 | Some e' \<Rightarrow> se_vmaddr e') in
    if next = 0 \<and> unat (se_sect e) < length (section_ends m mh) then section_ends m mh ! unat (se_sect e) else next)"
  have out: "lo = se_vmaddr e + slide" "hi = fin + slide" "se_vmaddr e < fin"
    using qc d by (auto simp: extent_query_def c fin_def r_def Let_def split: if_splits)
  have split: "qsort ?es = takeWhile (\<lambda>e. ?nm e \<noteq> name) (qsort ?es) @ e # rest" using takeWhile_dropWhile_id d by metis
  have sets: "set ?es = set (qsort ?es)" using qsort_contract.qsort_mset [OF assms(1)] by (metis set_mset_mset)
  have e: "e \<in> set ?es" unfolding sets by (subst split) simp
  have name: "?nm e = name" using d by (auto simp: dropWhile_eq_Cons_conv)
  have r: "e' \<in> set ?es \<and> se_sect e' = se_sect e" if "r = Some e'" for e'
  proof -
    from that have "e' \<in> set rest" "se_sect e' = se_sect e" by (auto simp: r_def find_Some_iff)
    then show ?thesis unfolding sets by (subst split) simp
  qed
  have inside: "\<not> (se_vmaddr e < se_vmaddr x \<and> se_vmaddr x < fin)"
    if x: "x \<in> set ?es" "se_sect x = se_sect e" and "se_vmaddr e \<noteq> 0" for x
  proof
    assume lt: "se_vmaddr e < se_vmaddr x \<and> se_vmaddr x < fin"
    obtain e' where e': "r = Some e'" "se_vmaddr e' \<le> se_vmaddr x"
      using qsort_contract.next_of_section [OF assms(1) split r_def [symmetric] x] lt by auto
    have "se_vmaddr e \<le> se_vmaddr e'"
      using qsort_contract.qsort_sorted [OF assms(1), of ?es] e'(1) unfolding r_def find_Some_iff
      by (subst (asm) split) (auto simp: sorted_append)
    with \<open>se_vmaddr e \<noteq> 0\<close> have "se_vmaddr e' \<noteq> 0" by (auto simp: word_le_nat_alt word_unat_eq_iff)
    with e' have "fin = se_vmaddr e'" by (simp add: fin_def)
    with e' lt show False by (auto simp: word_le_nat_alt word_less_nat_alt)
  qed
  have "(\<exists>e'\<in>set ?es. se_sect e' = se_sect e \<and> se_vmaddr e' = fin) \<or>
     unat (se_sect e) < length (section_ends m mh) \<and> fin = section_ends m mh ! unat (se_sect e)"
    using r out(3) by (cases r) (auto simp: fin_def Let_def split: if_splits)
  with e name out inside show ?thesis by blast
qed

end
