(* ===== verification/Process_Memory.thy ===== *)
theory Process_Memory
  imports Macho
begin

text \<open>
  The address space of the process as the loaders change it through \<^verbatim>\<open>mmap\<close>. Where the kernel places a
  mapping, whether it grants one, the page size and the content of files are the environment; the effect
  of a granted mapping on memory is the documented one: whole pages, zero for anonymous memory, the bytes
  of the file from the offset on for a file mapping, zero behind the end of the file.
\<close>

record os_env =
  os_page_size :: nat
  os_mmap :: "nat \<Rightarrow> u64 \<Rightarrow> u64 \<Rightarrow> u64"
  os_fixed :: "nat \<Rightarrow> bool"
  os_file :: "cstr \<Rightarrow> u8 list option"

text \<open>The process: memory, the number of mappings asked for so far, which identifies the next request, and
  the protections set, latest first (address, size, bits of \<^verbatim>\<open>PROT_*\<close>).\<close>

record process =
  p_mem :: mem
  p_mmaps :: nat
  p_prots :: "(u64 \<times> u64 \<times> u32) list"

definition round_up :: "nat \<Rightarrow> nat \<Rightarrow> nat" where
  "round_up ps n = (n + ps - 1) div ps * ps"

definition map_anon :: "nat \<Rightarrow> u64 \<Rightarrow> nat \<Rightarrow> mem \<Rightarrow> mem" where
  "map_anon ps a n m = (\<lambda>b. if in_range b a (round_up ps n) then 0 else m b)"

definition byte_at :: "u8 list \<Rightarrow> nat \<Rightarrow> u8" where
  "byte_at bytes i = (if i < length bytes then bytes ! i else 0)"

definition map_file :: "nat \<Rightarrow> u8 list \<Rightarrow> u64 \<Rightarrow> nat \<Rightarrow> nat \<Rightarrow> mem \<Rightarrow> mem" where
  "map_file ps bytes a n off m = (\<lambda>b. if in_range b a (round_up ps n) then byte_at bytes (off + unat (b - a)) else m b)"

text \<open>\<^verbatim>\<open>mmap\<close> without \<^verbatim>\<open>MAP_FIXED\<close>: a hint and a size; 0 stands for \<^verbatim>\<open>MAP_FAILED\<close>.\<close>

definition mmap_any :: "'e os_env_scheme \<Rightarrow> u64 \<Rightarrow> u64 \<Rightarrow> 'a process_scheme \<Rightarrow> u64 \<times> 'a process_scheme" where
  "mmap_any env hint n st =
    (let a = os_mmap env (p_mmaps st) hint n; st = st\<lparr>p_mmaps := p_mmaps st + 1\<rparr> in
     if a = 0 then (0, st)
     else (a, st\<lparr>p_mem := map_anon (os_page_size env) a (unat n) (p_mem st)\<rparr>))"

text \<open>With \<^verbatim>\<open>MAP_FIXED\<close> the address, and the file offset, have to be multiples of the page size and the length
  is not 0; the kernel may refuse for its own reasons.\<close>

definition page_aligned :: "nat \<Rightarrow> nat \<Rightarrow> bool" where
  "page_aligned ps a \<longleftrightarrow> a mod ps = 0"

definition mmap_fixed_anon ::
  "'e os_env_scheme \<Rightarrow> u64 \<Rightarrow> u64 \<Rightarrow> u32 \<Rightarrow> 'a process_scheme \<Rightarrow> bool \<times> 'a process_scheme" where
  "mmap_fixed_anon env a n prot st =
    (let k = p_mmaps st; st = st\<lparr>p_mmaps := k + 1\<rparr> in
     if os_fixed env k \<and> n \<noteq> 0 \<and> page_aligned (os_page_size env) (unat a)
     then (True, st\<lparr>p_mem := map_anon (os_page_size env) a (unat n) (p_mem st), p_prots := (a, n, prot) # p_prots st\<rparr>)
     else (False, st))"

definition mmap_fixed_file ::
  "'e os_env_scheme \<Rightarrow> u8 list \<Rightarrow> u64 \<Rightarrow> u64 \<Rightarrow> u32 \<Rightarrow> u64 \<Rightarrow> 'a process_scheme \<Rightarrow> bool \<times> 'a process_scheme" where
  "mmap_fixed_file env bytes a n prot off st =
    (let k = p_mmaps st; st = st\<lparr>p_mmaps := k + 1\<rparr> in
     if os_fixed env k \<and> n \<noteq> 0 \<and> page_aligned (os_page_size env) (unat a) \<and> page_aligned (os_page_size env) (unat off)
     then (True, st\<lparr>p_mem := map_file (os_page_size env) bytes a (unat n) (unat off) (p_mem st),
                    p_prots := (a, n, prot) # p_prots st\<rparr>)
     else (False, st))"

definition set_prot :: "u64 \<Rightarrow> u64 \<Rightarrow> u32 \<Rightarrow> 'a process_scheme \<Rightarrow> 'a process_scheme" where
  "set_prot a n prot st = st\<lparr>p_prots := (a, n, prot) # p_prots st\<rparr>"

text \<open>The bytes of a file from an offset, seen as memory from address 0: how the loaders read a mapped prefix
  of the file.\<close>

definition file_mem :: "u8 list \<Rightarrow> nat \<Rightarrow> mem" where
  "file_mem bytes off = (\<lambda>b. byte_at bytes (off + unat b))"

lemma same_outside_map_anon: "same_outside (\<lambda>b. in_range b a (round_up ps n)) m (map_anon ps a n m)"
  by (simp add: same_outside_def map_anon_def)

lemma same_outside_map_file: "same_outside (\<lambda>b. in_range b a (round_up ps n)) m (map_file ps bytes a n off m)"
  by (simp add: same_outside_def map_file_def)

lemma round_up_ge: "0 < ps \<Longrightarrow> n \<le> round_up ps n"
proof -
  assume "0 < ps"
  then have "n + ps - 1 = (n + ps - 1) div ps * ps + (n + ps - 1) mod ps" "(n + ps - 1) mod ps < ps" by simp_all
  then show ?thesis unfolding round_up_def by linarith
qed

lemma round_up_mono: "n \<le> n' \<Longrightarrow> round_up ps n \<le> round_up ps n'"
  by (auto simp: round_up_def intro!: div_le_mono)

end
