(* ===== verification/Dylib_Loader.thy ===== *)
theory Dylib_Loader
  imports Symbol_Table Process_Memory
begin

text \<open>
  Model of \<^verbatim>\<open>src/src/dylib_loader.c\<close>: a Mach-O dylib, alone or as the arm64 slice of a fat file, is mapped at
  a slide, its symbol table located, and its exported symbols looked up.
\<close>

definition MAX_MACHO_DYLIBS :: nat where "MAX_MACHO_DYLIBS = 8"
definition DYLIB_POOL_PADDING :: u64 where "DYLIB_POOL_PADDING = 64 * 1024"
definition FAT_MAGIC :: u32 where "FAT_MAGIC = 0xcafebabe"
definition FAT_CIGAM :: u32 where "FAT_CIGAM = 0xbebafeca"
definition CPU_TYPE_ARM64 :: u32 where "CPU_TYPE_ARM64 = 0x0100000C"
definition MH_DYLIB :: u32 where "MH_DYLIB = 0x6"

record macho_dylib_info =
  md_path :: cstr
  md_mh :: u64
  md_slide :: u64
  md_text_base :: u64
  md_text_size :: u64
  md_pool_base :: u64
  md_pool_size :: u64
  md_pool_used :: u64
  md_symtab :: u64
  md_strtab :: u64
  md_nsyms :: u32
  md_strsize :: u32

text \<open>The loaded dylibs, \<^verbatim>\<open>g_macho_dylibs\<close> up to \<^verbatim>\<open>g_num_macho_dylibs\<close>.\<close>

record dylib_process = process +
  g_macho_dylibs :: "macho_dylib_info list"

definition native_prot :: "u32 \<Rightarrow> u32" where
  "native_prot vmprot =
    (if vmprot AND 1 \<noteq> 0 then 1 else 0) OR (if vmprot AND 2 \<noteq> 0 then 2 else 0) OR (if vmprot AND 4 \<noteq> 0 then 4 else 0)"

definition use_prot :: "segment_command_64 \<Rightarrow> u32" where
  "use_prot seg =
    (let maxprot = native_prot (seg_maxprot seg); initprot = native_prot (seg_initprot seg)
     in if initprot AND 4 \<noteq> 0 then maxprot else initprot)"

section \<open>The arm64 slice\<close>

definition bswap32 :: "u32 \<Rightarrow> u32" where
  "bswap32 w = push_bit 24 (w AND 0xFF) OR push_bit 8 (w AND 0xFF00) OR drop_bit 8 (w AND 0xFF0000) OR drop_bit 24 w"

definition file32 :: "u8 list \<Rightarrow> nat \<Rightarrow> u32" where
  "file32 bytes off = load32 (file_mem bytes off) 0"

text \<open>The architectures of a fat file, 20 bytes each: type, subtype, offset, size, alignment.\<close>

fun find_arch :: "u8 list \<Rightarrow> bool \<Rightarrow> nat \<Rightarrow> nat \<Rightarrow> (u32 \<times> u32) option" where
  "find_arch bytes swap 0 pos = None"
| "find_arch bytes swap (Suc n) pos =
    (if pos + 20 > length bytes then None
     else
       let rd = (\<lambda>off. if swap then bswap32 (file32 bytes off) else file32 bytes off) in
       if rd pos = CPU_TYPE_ARM64 then Some (rd (pos + 8), rd (pos + 12))
       else find_arch bytes swap n (pos + 20))"

definition find_arm64_slice :: "u32 \<Rightarrow> u8 list \<Rightarrow> (u32 \<times> u32) option" where
  "find_arm64_slice junk bytes =
    (if length bytes < 4 then None
     else
       let magic = file32 bytes 0 in
       if magic = FAT_MAGIC \<or> magic = FAT_CIGAM then
         let swap = (magic = FAT_CIGAM);
             narch = (if length bytes < 8 then junk else file32 bytes 4);
             narch = (if swap then bswap32 narch else narch)
         in find_arch bytes swap (unat narch) 8
       else Some (0, of_nat (length bytes)))"

section \<open>Mapping\<close>

text \<open>\<^verbatim>\<open>PAGE_ROUNDUP\<close>, with the 4096 bytes of a page the source assumes here.\<close>

definition PAGE_ROUNDUP :: "u64 \<Rightarrow> u64" where
  "PAGE_ROUNDUP x = ((x - 1) div 4096 + 1) * 4096"

definition loadable :: "mem \<Rightarrow> u64 \<Rightarrow> bool" where
  "loadable fm a \<longleftrightarrow> load32 fm a = LC_SEGMENT_64 \<and> mem_str fm (seg_segname (read_segment fm a)) \<noteq> ''__PAGEZERO''"

definition vm_range :: "segment_command_64 list \<Rightarrow> u64 \<times> u64" where
  "vm_range segs =
     fold (\<lambda>seg (low, high). (if seg_vmaddr seg < low then seg_vmaddr seg else low,
                             if seg_vmaddr seg + seg_vmsize seg > high then seg_vmaddr seg + seg_vmsize seg else high))
       segs (- 1, 0)"

text \<open>The segments in file order: zero pages, the file over them, the mapped header and the place of
  \<^verbatim>\<open>__TEXT\<close>. \<^const>\<open>None\<close> when a mapping fails.\<close>

fun map_dylib_segments ::
  "'e os_env_scheme \<Rightarrow> u8 list \<Rightarrow> mem \<Rightarrow> u64 \<Rightarrow> u64 \<Rightarrow> segment_command_64 list \<Rightarrow> u64 \<times> u64 \<times> u64 \<Rightarrow> 'a process_scheme
     \<Rightarrow> (u64 \<times> u64 \<times> u64) option \<times> 'a process_scheme" where
  "map_dylib_segments env bytes fm fat_offset slide [] acc st = (Some acc, st)"
| "map_dylib_segments env bytes fm fat_offset slide (seg # segs) (header, text_base, text_size) st =
    (let addr = seg_vmaddr seg + slide;
         (ok, st) = (if seg_vmsize seg > 0 then mmap_fixed_anon env addr (seg_vmsize seg) (use_prot seg) st else (True, st))
     in if \<not> ok then (None, st)
        else
          let (ok, st) = (if seg_filesize seg > 0
                          then mmap_fixed_file env bytes addr (seg_filesize seg) (use_prot seg) (seg_fileoff seg + fat_offset) st
                          else (True, st))
          in if \<not> ok then (None, st)
             else
               let header = (if seg_filesize seg > 0 \<and> seg_fileoff seg = 0 then addr else header);
                   (text_base, text_size) =
                     (if mem_str fm (seg_segname seg) = ''__TEXT'' then (addr, seg_vmsize seg) else (text_base, text_size))
               in map_dylib_segments env bytes fm fat_offset slide segs (header, text_base, text_size) st)"

definition file_segments :: "mem \<Rightarrow> segment_command_64 list" where
  "file_segments fm = map (read_segment fm) (filter (loadable fm) (bounded_commands fm 0))"

definition dylib_loader_load ::
  "'e os_env_scheme \<Rightarrow> u32 \<Rightarrow> cstr \<Rightarrow> 'a dylib_process_scheme \<Rightarrow> nat option \<times> 'a dylib_process_scheme" where
  "dylib_loader_load env junk path st =
    (if length (g_macho_dylibs st) \<ge> MAX_MACHO_DYLIBS then (None, st)
     else
       case os_file env path of
         None \<Rightarrow> (None, st)
       | Some bytes \<Rightarrow>
         (case find_arm64_slice junk bytes of
            None \<Rightarrow> (None, st)
          | Some (fat_offset, fat_size) \<Rightarrow>
            let fm = file_mem bytes (unat fat_offset); header = read_header fm 0 in
            if unat fat_offset + 32 > length bytes then (None, st)
            else if mh_magic header \<noteq> MH_MAGIC_64 \<or> mh_filetype header \<noteq> MH_DYLIB then (None, st)
            else if \<not> page_aligned (os_page_size env) (unat fat_offset) \<or> \<not> os_fixed env (p_mmaps st)
            then (None, st\<lparr>p_mmaps := p_mmaps st + 1\<rparr>)
            else
              let st = st\<lparr>p_mmaps := p_mmaps st + 1\<rparr>;
                  segs = file_segments fm;
                  (vm_low, vm_high) = vm_range segs
              in if vm_low = - 1 \<or> vm_high = 0 then (None, st)
                 else
                   let vm_aligned = PAGE_ROUNDUP (vm_high - vm_low);
                       (reservation, st) = mmap_any env 0 (vm_aligned + DYLIB_POOL_PADDING) st
                   in if reservation = 0 then (None, st)
                      else
                        let slide = reservation - vm_low;
                            (r, st) = map_dylib_segments env bytes fm (ucast fat_offset) slide segs (0, 0, 0) st
                        in case r of
                             None \<Rightarrow> (None, st)
                           | Some (mapped_header, text_base, text_size) \<Rightarrow>
                             if mapped_header = 0 then (None, st)
                             else
                               let pool_base = reservation + vm_aligned;
                                   st = set_prot pool_base DYLIB_POOL_PADDING 7 st;
                                   (symtab, strtab, nsyms, strsize) =
                                     (case last_symtab (p_mem st) mapped_header of
                                        None \<Rightarrow> (0, 0, 0, 0)
                                      | Some sc \<Rightarrow>
                                          let (syms, strs) = locate_tables sc slide (bounded_segments (p_mem st) mapped_header) in
                                          if (syms, strs) = (0, 0) then (0, 0, 0, 0)
                                          else (syms, strs, st_nsyms sc, st_strsize sc));
                                   info = \<lparr>md_path = take 255 path, md_mh = mapped_header, md_slide = slide,
                                     md_text_base = text_base, md_text_size = text_size, md_pool_base = pool_base,
                                     md_pool_size = DYLIB_POOL_PADDING, md_pool_used = 0, md_symtab = symtab,
                                     md_strtab = strtab, md_nsyms = nsyms, md_strsize = strsize\<rparr>
                               in (Some (length (g_macho_dylibs st)),
                                   st\<lparr>g_macho_dylibs := g_macho_dylibs st @ [info]\<rparr>)))"

section \<open>Queries\<close>

definition dylib_loader_lookup :: "mem \<Rightarrow> macho_dylib_info \<Rightarrow> cstr \<Rightarrow> u64" where
  "dylib_loader_lookup m info name =
    (if md_symtab info = 0 \<or> md_strtab info = 0 then 0
     else
       case List.find (\<lambda>nl. section_symbol (md_strsize info) nl \<and> n_type nl AND N_EXT \<noteq> 0 \<and>
                            mem_str m (md_strtab info + ucast (n_strx nl)) = name)
              (symbols_at m (md_symtab info) (md_nsyms info)) of
         None \<Rightarrow> 0
       | Some nl \<Rightarrow> n_value nl + md_slide info)"

text \<open>\<^verbatim>\<open>strstr\<close>, as a test.\<close>

fun strstr :: "cstr \<Rightarrow> cstr \<Rightarrow> bool" where
  "strstr [] p = (p = [])"
| "strstr (c # s) p = (starts_with p (c # s) \<or> strstr s p)"

fun find_dylib :: "nat \<Rightarrow> macho_dylib_info list \<Rightarrow> cstr \<Rightarrow> nat option" where
  "find_dylib i [] base = None"
| "find_dylib i (d # ds) base = (if strstr (md_path d) base then Some i else find_dylib (i + 1) ds base)"

definition dylib_loader_find :: "'a dylib_process_scheme \<Rightarrow> cstr \<Rightarrow> nat option" where
  "dylib_loader_find st base = find_dylib 0 (g_macho_dylibs st) base"

section \<open>Initialisers\<close>

text \<open>The functions of the initialiser sections, called in order; a call changes memory as the function does.
  The number of functions is an \<^verbatim>\<open>int\<close>. The initialisers do not change the number of load commands.\<close>

definition init_count :: "u64 \<Rightarrow> nat" where
  "init_count n = nat (sint (ucast n :: u32))"

definition run_section_inits :: "(u64 \<Rightarrow> mem \<Rightarrow> mem) \<Rightarrow> u64 \<Rightarrow> u64 \<Rightarrow> section_64 \<Rightarrow> mem \<Rightarrow> mem" where
  "run_section_inits call mh slide sect m =
    (let sect_type = sec_flags sect AND 0xff; base = sec_addr sect + slide in
     if sect_type = 0x16
     then fold (\<lambda>k m. call (mh + ucast (load32 m (base + 4 * of_nat k))) m) [0..<init_count (sec_size sect div 4)] m
     else if sect_type = 0x09
     then fold (\<lambda>k m. call (load m (base + 8 * of_nat k) 8) m) [0..<init_count (sec_size sect div 8)] m
     else m)"

fun run_segment_inits :: "(u64 \<Rightarrow> mem \<Rightarrow> mem) \<Rightarrow> u64 \<Rightarrow> u64 \<Rightarrow> u64 \<Rightarrow> nat \<Rightarrow> mem \<Rightarrow> mem" where
  "run_segment_inits call mh slide sect 0 m = m"
| "run_segment_inits call mh slide sect (Suc n) m =
     run_segment_inits call mh slide (sect + 80) n (run_section_inits call mh slide (read_section m sect) m)"

fun run_command_inits :: "(u64 \<Rightarrow> mem \<Rightarrow> mem) \<Rightarrow> u64 \<Rightarrow> u64 \<Rightarrow> nat \<Rightarrow> u32 \<Rightarrow> mem \<Rightarrow> mem" where
  "run_command_inits call mh slide 0 p m = m"
| "run_command_inits call mh slide (Suc n) p m =
    (if p < mh_sizeofcmds (read_header m mh) then
       let a = mh + 32 + ucast p;
           m' = (if lc_cmd (read_command m a) = LC_SEGMENT_64
                 then run_segment_inits call mh slide (a + 72) (unat (seg_nsects (read_segment m a))) m
                 else m)
       in run_command_inits call mh slide n (p + lc_cmdsize (read_command m' a)) m'
     else m)"

definition dylib_loader_run_inits :: "(u64 \<Rightarrow> mem \<Rightarrow> mem) \<Rightarrow> macho_dylib_info \<Rightarrow> mem \<Rightarrow> mem" where
  "dylib_loader_run_inits call info m =
    (if md_mh info = 0 then m
     else run_command_inits call (md_mh info) (md_slide info) (unat (mh_ncmds (read_header m (md_mh info)))) 0 m)"

end
