(* ===== verification/Trampoline.thy ===== *)
theory Trampoline
  imports Macho Arm64_Enc
begin

text \<open>
  Model of the island pool and the symbol-driven patching of \<^verbatim>\<open>src/src/trampoline.c\<close>: a function of the
  guest is redirected by a branch instruction at its entry to an island in the pool, which loads the
  address of the host function and jumps to it. The dynamic linker, \<^verbatim>\<open>mprotect\<close>, the page size and the
  address of the abort handler are fields of the environment. The state keeps the static variables
  of the file, the memory, the successful calls of \<^verbatim>\<open>mprotect\<close> (latest first) and the library handles
  that are open. A file is its content and whether reading it ended in an error. Allocations are
  taken to succeed. The verbosity flag only guards messages.
\<close>

section \<open>State\<close>

definition TRAMPOLINE_LDR_X16 :: u32 where "TRAMPOLINE_LDR_X16 = 0x58000050"
definition TRAMPOLINE_BR_X16 :: u32 where "TRAMPOLINE_BR_X16 = 0xd61f0200"
definition ISLAND_SIZE :: u64 where "ISLAND_SIZE = 16"

datatype prot = PROT_RWX | PROT_RX | PROT_NONE

record tramp_env =
  te_mprotect :: "u64 \<Rightarrow> u64 \<Rightarrow> prot \<Rightarrow> bool"
  te_page_size :: int
  te_dlopen :: "cstr option \<Rightarrow> u64"
  te_dlsym :: "u64 \<Rightarrow> cstr \<Rightarrow> u64"
  te_abort :: u64
  te_file :: "cstr \<Rightarrow> (string \<times> bool) option"

record tramp =
  t_mem :: mem
  island_pool :: u64
  island_pool_size :: u64
  island_pool_used :: u64
  stub_island_addr :: u64
  abort_caller_addr :: u64
  text_patch_base :: u64
  text_patch_size :: u64
  guarded_pages :: "(u64 \<times> u64) list"
  t_prots :: "(u64 \<times> u64 \<times> prot) list"
  t_handles :: "u64 list"

definition trampoline_set_pool :: "u64 \<Rightarrow> u64 \<Rightarrow> tramp \<Rightarrow> tramp" where
  "trampoline_set_pool base sz st =
     st\<lparr>island_pool := base, island_pool_size := sz, island_pool_used := 0\<rparr>"

definition init_island_pool :: "tramp \<Rightarrow> bool" where
  "init_island_pool st \<longleftrightarrow> island_pool st \<noteq> 0"

section \<open>Islands\<close>

definition pool_full :: "tramp \<Rightarrow> bool" where
  "pool_full st \<longleftrightarrow> island_pool st = 0 \<or> island_pool_used st + ISLAND_SIZE > island_pool_size st"

definition pool_next :: "tramp \<Rightarrow> u64" where
  "pool_next st = island_pool st + island_pool_used st"

definition store_island :: "mem \<Rightarrow> u64 \<Rightarrow> u64 \<Rightarrow> mem" where
  "store_island m a target =
     store (store32 (store32 m a TRAMPOLINE_LDR_X16) (a + 4) TRAMPOLINE_BR_X16) (a + 8) 8 target"

definition alloc_island :: "u64 \<Rightarrow> tramp \<Rightarrow> u64 \<times> tramp" where
  "alloc_island native_addr st =
    (if pool_full st then (0, st)
     else (pool_next st, st\<lparr>t_mem := store_island (t_mem st) (pool_next st) native_addr,
            island_pool_used := island_pool_used st + ISLAND_SIZE\<rparr>))"

definition get_stub_island :: "tramp \<Rightarrow> u64 \<times> tramp" where
  "get_stub_island st =
    (if stub_island_addr st \<noteq> 0 then (stub_island_addr st, st)
     else if pool_full st then (0, st)
     else
       let code = pool_next st;
           m = store32 (t_mem st) code 0x52800000;
           m = store32 m (code + 4) 0xD65F03C0;
           m = store32 m (code + 8) 0xD503201F;
           m = store32 m (code + 12) 0xD503201F
       in (code, st\<lparr>t_mem := m, stub_island_addr := code,
             island_pool_used := island_pool_used st + ISLAND_SIZE\<rparr>))"

definition get_abort_caller :: "tramp_env \<Rightarrow> tramp \<Rightarrow> u64 \<times> tramp" where
  "get_abort_caller env st =
    (if abort_caller_addr st \<noteq> 0 then (abort_caller_addr st, st)
     else if pool_full st then (0, st)
     else (pool_next st, st\<lparr>t_mem := store_island (t_mem st) (pool_next st) (te_abort env),
            abort_caller_addr := pool_next st,
            island_pool_used := island_pool_used st + ISLAND_SIZE\<rparr>))"

text \<open>The test on a byte offset that \<^verbatim>\<open>write_trampoline\<close>, \<^verbatim>\<open>make_abort_island\<close> and the address hooks share,
  and the branch they encode.\<close>

definition branch_too_far :: "u64 \<Rightarrow> bool" where
  "branch_too_far offset \<longleftrightarrow>
     sint offset < - 128 * 1024 * 1024 \<or> sint offset \<ge> 128 * 1024 * 1024 \<or> offset AND 3 \<noteq> 0"

definition branch_insn :: "u64 \<Rightarrow> u32" where
  "branch_insn offset = 0x14000000 OR ucast (signed_drop_bit 2 offset AND 0x03FFFFFF)"

text \<open>The branch out of range is found after the first word of the island is written.\<close>

definition make_abort_island :: "tramp_env \<Rightarrow> u64 \<Rightarrow> tramp \<Rightarrow> u64 \<times> tramp" where
  "make_abort_island env symbol_name st =
    (let (caller, st) = get_abort_caller env st in
     if caller = 0 then (0, st)
     else if pool_full st then (0, st)
     else
       let island_addr = pool_next st;
           m = store32 (t_mem st) island_addr 0x58000040;
           offset = caller - (island_addr + 4)
       in if branch_too_far offset then (0, st\<lparr>t_mem := m\<rparr>)
          else
            (island_addr, st\<lparr>t_mem := store (store32 m (island_addr + 4) (branch_insn offset)) (island_addr + 8) 8 symbol_name,
               island_pool_used := island_pool_used st + ISLAND_SIZE\<rparr>))"

definition write_trampoline :: "u64 \<Rightarrow> u64 \<Rightarrow> tramp \<Rightarrow> bool \<times> tramp" where
  "write_trampoline func_addr native_addr st =
    (let (island_addr, st) = alloc_island native_addr st in
     if island_addr = 0 then (False, st)
     else
       let offset = island_addr - func_addr in
       if branch_too_far offset then (False, st)
       else (True, st\<lparr>t_mem := store32 (t_mem st) func_addr (branch_insn offset)\<rparr>))"

section \<open>Mangling variants\<close>

text \<open>The first sixteen positions of a character, and the name with a subset of them, given by the bits
  of \<^verbatim>\<open>mask\<close>, replaced.\<close>

definition char_positions :: "char \<Rightarrow> cstr \<Rightarrow> nat list" where
  "char_positions c name = take 16 (filter (\<lambda>i. name ! i = c) [0..<length name])"

definition variant :: "cstr \<Rightarrow> nat list \<Rightarrow> char \<Rightarrow> nat \<Rightarrow> cstr" where
  "variant name pos c k =
     fold (\<lambda>j buf. if bit k j then buf[pos ! j := c] else buf) [0..<length pos] name"

fun try_variants :: "(cstr \<Rightarrow> u64) \<Rightarrow> cstr \<Rightarrow> nat list \<Rightarrow> char \<Rightarrow> nat list \<Rightarrow> u64" where
  "try_variants dlsym name pos c [] = 0"
| "try_variants dlsym name pos c (k # ks) =
    (let addr = dlsym (variant name pos c k) in if addr \<noteq> 0 then addr else try_variants dlsym name pos c ks)"

definition try_mangling_variants :: "(cstr \<Rightarrow> u64) \<Rightarrow> cstr \<Rightarrow> u64" where
  "try_mangling_variants dlsym name =
    (let y_pos = char_positions CHR ''y'' name; m_pos = char_positions CHR ''m'' name in
     if y_pos = [] then 0
     else
       let addr = try_variants dlsym name y_pos CHR ''m'' [1..<2 ^ length y_pos] in
       if addr \<noteq> 0 then addr
       else try_variants dlsym name m_pos CHR ''y'' [1..<2 ^ length m_pos])"

section \<open>The image\<close>

fun segment_of_offset :: "u64 \<Rightarrow> u32 \<Rightarrow> segment_command_64 list \<Rightarrow> u64" where
  "segment_of_offset slide fileoff [] = 0"
| "segment_of_offset slide fileoff (seg # segs) =
    (if ucast fileoff \<ge> seg_fileoff seg \<and> ucast fileoff < seg_fileoff seg + seg_filesize seg
     then seg_vmaddr seg + slide + (ucast fileoff - seg_fileoff seg)
     else segment_of_offset slide fileoff segs)"

definition fileoff_to_mem :: "mem \<Rightarrow> u64 \<Rightarrow> u64 \<Rightarrow> u32 \<Rightarrow> u64" where
  "fileoff_to_mem m mh slide fileoff = segment_of_offset slide fileoff (segments m mh)"

definition mprotect :: "tramp_env \<Rightarrow> u64 \<Rightarrow> u64 \<Rightarrow> prot \<Rightarrow> tramp \<Rightarrow> bool \<times> tramp" where
  "mprotect env a n p st =
    (if te_mprotect env a n p then (True, st\<lparr>t_prots := (a, n, p) # t_prots st\<rparr>) else (False, st))"

definition sys_page_size :: "tramp_env \<Rightarrow> u64" where
  "sys_page_size env = (if te_page_size env \<le> 0 then 4096 else of_int (te_page_size env))"

definition make_text_writable :: "tramp_env \<Rightarrow> u64 \<Rightarrow> u64 \<Rightarrow> tramp \<Rightarrow> bool \<times> tramp" where
  "make_text_writable env mh slide st =
    (case find (\<lambda>seg. mem_str (t_mem st) (seg_segname seg) = ''__TEXT'') (segments (t_mem st) mh) of
       None \<Rightarrow> (False, st)
     | Some seg \<Rightarrow>
         let pmask = NOT (sys_page_size env - 1);
             base = (seg_vmaddr seg + slide) AND pmask;
             fin = (seg_vmaddr seg + slide + seg_vmsize seg + sys_page_size env - 1) AND pmask;
             st = st\<lparr>text_patch_base := base, text_patch_size := fin - base\<rparr>;
             (ok, st) = mprotect env base (fin - base) PROT_RWX st
         in if \<not> ok then (False, st)
            else if \<not> init_island_pool st then (False, st)
            else (True, st))"

definition restore_text_protection :: "tramp_env \<Rightarrow> tramp \<Rightarrow> tramp" where
  "restore_text_protection env st =
    (if text_patch_base st \<noteq> 0 \<and> text_patch_size st \<noteq> 0
     then snd (mprotect env (text_patch_base st) (text_patch_size st) PROT_RX st) else st)"

definition in_text :: "tramp \<Rightarrow> u64 \<Rightarrow> bool" where
  "in_text st a \<longleftrightarrow> \<not> (a < text_patch_base st \<or> a \<ge> text_patch_base st + text_patch_size st)"

section \<open>Patching by symbol\<close>

definition matches_prefix :: "cstr \<Rightarrow> cstr list \<Rightarrow> bool" where
  "matches_prefix name prefixes \<longleftrightarrow> list_ex (\<lambda>p. starts_with p name) prefixes"

fun find_override :: "cstr \<Rightarrow> (cstr \<times> u64) list \<Rightarrow> u64" where
  "find_override name [] = 0"
| "find_override name ((s, t) # os) = (if name = s then t else find_override name os)"

text \<open>The leading underscore of a Mach-O symbol is dropped for the host lookup.\<close>

definition lookup_name :: "cstr \<Rightarrow> cstr" where
  "lookup_name name = (if at0 name 0 = CHR ''_'' then drop 1 name else name)"

record patch_ctx =
  pc_slide :: u64
  pc_nlist :: u64
  pc_strtab :: u64
  pc_strsize :: u32

definition native_target :: "tramp_env \<Rightarrow> u64 \<Rightarrow> cstr \<Rightarrow> u64" where
  "native_target env lib name =
    (let l = lookup_name name; target = te_dlsym env lib l in
     if target = 0 \<and> starts_with ''_ZN'' l then try_mangling_variants (te_dlsym env lib) l else target)"

text \<open>The second half of the loop body: the target of one function, and what is written for it.\<close>

definition patch_lib_function ::
    "tramp_env \<Rightarrow> (cstr \<times> u64) list \<Rightarrow> bool \<Rightarrow> u64 \<Rightarrow> u64 \<Rightarrow> u64 \<Rightarrow> cstr \<Rightarrow> tramp \<times> int \<Rightarrow> tramp \<times> int" where
  "patch_lib_function env overrides stub_mode native_lib func_addr name_addr name = (\<lambda>(st, patched).
    let target = find_override name overrides;
        (target, st) = (if target = 0 \<and> stub_mode then get_stub_island st else (target, st));
        target = (if target = 0 \<and> native_lib \<noteq> 0 then native_target env native_lib name else target)
    in if target = 0 \<and> \<not> stub_mode then
         let (abort_island, st) = make_abort_island env name_addr st in
         if abort_island \<noteq> 0 then (snd (write_trampoline func_addr abort_island st), patched)
         else (st, patched)
       else if target = 0 then (st, patched)
       else let (ok, st) = write_trampoline func_addr target st
            in (st, if ok then patched + 1 else patched))"

definition patch_lib_symbol ::
    "tramp_env \<Rightarrow> patch_ctx \<Rightarrow> cstr list \<Rightarrow> (cstr \<times> u64) list \<Rightarrow> bool \<Rightarrow> u64 \<Rightarrow> nat \<Rightarrow> tramp \<times> int \<Rightarrow> tramp \<times> int" where
  "patch_lib_symbol env ctx prefixes overrides stub_mode native_lib i = (\<lambda>(st, patched).
    let sym = read_nlist (t_mem st) (pc_nlist ctx + 16 * of_nat i) in
    if n_type sym AND N_TYPE \<noteq> N_SECT then (st, patched)
    else if n_type sym AND N_EXT = 0 then (st, patched)
    else if n_type sym AND N_STAB \<noteq> 0 then (st, patched)
    else if n_strx sym \<ge> pc_strsize ctx then (st, patched)
    else
      let name_addr = pc_strtab ctx + ucast (n_strx sym); name = mem_str (t_mem st) name_addr in
      if \<not> matches_prefix name prefixes then (st, patched)
      else
        let func_addr = n_value sym + pc_slide ctx in
        if \<not> in_text st func_addr then (st, patched)
        else patch_lib_function env overrides stub_mode native_lib func_addr name_addr name (st, patched))"

text \<open>The symbol table command is read once; the table itself is read from the memory of the moment.\<close>

definition trampoline_patch_lib ::
    "tramp_env \<Rightarrow> u64 \<Rightarrow> u64 \<Rightarrow> cstr option \<Rightarrow> cstr list \<Rightarrow> (cstr \<times> u64) list \<Rightarrow> tramp \<Rightarrow> int \<times> tramp" where
  "trampoline_patch_lib env mh slide lib_path prefixes overrides st =
    (case commands_of (t_mem st) mh LC_SYMTAB of
       [] \<Rightarrow> (- 1, st)
     | cmd # _ \<Rightarrow>
         let symtab = read_symtab (t_mem st) cmd;
             stub_mode = (lib_path = Some ''STUB'');
             native_lib = (if stub_mode then 0 else te_dlopen env lib_path);
             st = (if native_lib \<noteq> 0 then st\<lparr>t_handles := native_lib # t_handles st\<rparr> else st)
         in if \<not> stub_mode \<and> native_lib = 0 then (- 1, st)
            else
              let nlist_arr = fileoff_to_mem (t_mem st) mh slide (st_symoff symtab);
                  strtab = fileoff_to_mem (t_mem st) mh slide (st_stroff symtab)
              in if nlist_arr = 0 \<or> strtab = 0 then (- 1, st)
                 else
                   let (ok, st) = make_text_writable env mh slide st in
                   if \<not> ok then (- 1, st)
                   else
                     let ctx = \<lparr>pc_slide = slide, pc_nlist = nlist_arr, pc_strtab = strtab, pc_strsize = st_strsize symtab\<rparr>;
                         (st, patched) = fold (patch_lib_symbol env ctx prefixes overrides stub_mode native_lib)
                           [0..<unat (st_nsyms symtab)] (st, 0)
                     in (patched, restore_text_protection env st))"

definition patch_override_symbol ::
    "tramp_env \<Rightarrow> patch_ctx \<Rightarrow> u64 \<Rightarrow> bool \<Rightarrow> nat \<Rightarrow> tramp \<times> int \<Rightarrow> tramp \<times> int" where
  "patch_override_symbol env ctx override_handle match_local i = (\<lambda>(st, patched).
    let sym = read_nlist (t_mem st) (pc_nlist ctx + 16 * of_nat i) in
    if n_type sym AND N_TYPE \<noteq> N_SECT then (st, patched)
    else if \<not> match_local \<and> n_type sym AND N_EXT = 0 then (st, patched)
    else if n_type sym AND N_STAB \<noteq> 0 then (st, patched)
    else if n_strx sym \<ge> pc_strsize ctx then (st, patched)
    else
      let name = mem_str (t_mem st) (pc_strtab ctx + ucast (n_strx sym));
          func_addr = n_value sym + pc_slide ctx
      in if \<not> in_text st func_addr then (st, patched)
         else
           let target = te_dlsym env override_handle (lookup_name name) in
           if target = 0 then (st, patched)
           else let (ok, st) = write_trampoline func_addr target st
                in (st, if ok then patched + 1 else patched))"

definition trampoline_patch_overrides ::
    "tramp_env \<Rightarrow> u64 \<Rightarrow> u64 \<Rightarrow> u64 \<Rightarrow> bool \<Rightarrow> tramp \<Rightarrow> int \<times> tramp" where
  "trampoline_patch_overrides env mh slide override_handle match_local st =
    (case commands_of (t_mem st) mh LC_SYMTAB of
       [] \<Rightarrow> (- 1, st)
     | cmd # _ \<Rightarrow>
         let symtab = read_symtab (t_mem st) cmd;
             nlist_arr = fileoff_to_mem (t_mem st) mh slide (st_symoff symtab);
             strtab = fileoff_to_mem (t_mem st) mh slide (st_stroff symtab)
         in if nlist_arr = 0 \<or> strtab = 0 then (- 1, st)
            else
              let (ok, st) = make_text_writable env mh slide st in
              if \<not> ok then (- 1, st)
              else
                let ctx = \<lparr>pc_slide = slide, pc_nlist = nlist_arr, pc_strtab = strtab, pc_strsize = st_strsize symtab\<rparr>;
                    (st, patched) = fold (patch_override_symbol env ctx override_handle match_local)
                      [0..<unat (st_nsyms symtab)] (st, 0)
                in (patched, restore_text_protection env st))"

text \<open>The values of the two environment variables, if they are set.\<close>

definition trampoline_patch :: "tramp_env \<Rightarrow> u64 \<Rightarrow> u64 \<Rightarrow> cstr option \<Rightarrow> cstr option \<Rightarrow> tramp \<Rightarrow> int \<times> tramp" where
  "trampoline_patch env mh slide var_lib var_prefix st =
    (let lib_path = (case var_lib of None \<Rightarrow> ''libSDL2-2.0.so.0'' | Some l \<Rightarrow> l);
         prefix = (case var_prefix of None \<Rightarrow> ''_SDL_'' | Some p \<Rightarrow> p)
     in trampoline_patch_lib env mh slide (Some lib_path) [prefix] [] st)"

end
