(* ===== verification/Resolver_State.thy ===== *)
theory Resolver_State
  imports Dylib_Loader Trampoline
begin

text \<open>
  Data of \<^verbatim>\<open>src/src/resolver.c\<close> and the helpers of bind resolution: the names of symbols on the Linux side,
  the adapters between the Apple and the Linux ABI, and the return-0 stubs.
\<close>

section \<open>Data\<close>

definition MAX_DYLIBS :: nat where "MAX_DYLIBS = 64"
definition MAX_MAPPINGS :: nat where "MAX_MAPPINGS = 128"
definition MAX_DEFERRED_BINDS :: nat where "MAX_DEFERRED_BINDS = 512"

datatype dylib_action = DYLIB_MAP | DYLIB_STUB | DYLIB_SKIP | DYLIB_MACHO | DYLIB_DEFERRED

record dylib_entry =
  de_ordinal :: nat
  de_name :: cstr
  de_action :: dylib_action
  de_so_path :: cstr
  de_handle :: u64
  de_macho_info :: "nat option"

record seg_info =
  si_vmaddr :: u64
  si_vmsize :: u64
  si_fileoff :: u64
  si_filesize :: u64
  si_prot :: u32

text \<open>The name of a deferred bind is a pointer into the image; \<^const>\<open>None\<close> is the empty literal.\<close>

record deferred_bind =
  db_got_slot :: u64
  db_sym_name :: "u64 option"
  db_lib_ordinal :: int
  db_weak :: bool
  db_addend :: u64

text \<open>The static variables of the file: the pools of adapters, thunks, stubs and weak slots, the deferred
  binds and the hooked functions. They live as long as the process.\<close>

record resolver_globals = dylib_process +
  r_opened :: "cstr list"
  ctor_tramp_pool :: u64
  ctor_tramp_used :: u64
  ctor_tramp_capacity :: u64
  ctor_tramp_count :: nat
  variadic_pool :: u64
  variadic_pool_used :: u64
  variadic_pool_capacity :: u64
  variadic_thunk_count :: nat
  stub_pool :: u64
  stub_used :: u64
  weak_pool :: u64
  weak_pool_used :: u64
  weak_pool_capacity :: u64
  g_deferred_binds :: "deferred_bind list"
  g_deferred_active :: bool
  g_deferred_resolved :: bool
  g_deferred_dylibs :: "dylib_entry list"
  g_deferred_ndylibs :: nat
  g_real_SDL_GL_CreateContext :: u64
  g_real_SDL_GL_SetAttribute :: u64
  shim_malloc_fn :: u64
  shim_free_fn :: u64

text \<open>\<^verbatim>\<open>struct resolver_state\<close>: one run on one image. The array of dylibs holds \<^const>\<open>MAX_DYLIBS\<close> entries, of segments 16.\<close>

record resolver_state = resolver_globals +
  rs_mh :: u64
  rs_slide :: u64
  rs_dylibs :: "dylib_entry list"
  rs_ndylibs :: nat
  rs_linkedit :: seg_info
  rs_segments :: "seg_info list"
  rs_fixups_dataoff :: u32
  rs_fixups_datasize :: u32
  rs_has_chained_fixups :: bool
  rs_has_dyld_info :: bool
  rs_rebase_off :: u32
  rs_rebase_size :: u32
  rs_bind_off :: u32
  rs_bind_size :: u32
  rs_weak_bind_off :: u32
  rs_weak_bind_size :: u32
  rs_lazy_bind_off :: u32
  rs_lazy_bind_size :: u32
  rs_mappings :: "(cstr \<times> cstr) list"
  binds_resolved :: nat
  binds_stubbed :: nat
  binds_failed :: nat
  rebases_applied :: nat

text \<open>The environment: the dynamic linker, which may answer differently as libraries are opened, the
  addresses of the resolver's own hooks, the mapping file, the strict flag, and what lies in memory behind the
  array of dylibs.\<close>

record res_env = os_env +
  re_dlopen :: "cstr list \<Rightarrow> cstr \<Rightarrow> u64"
  re_dlsym :: "cstr list \<Rightarrow> u64 \<Rightarrow> cstr \<Rightarrow> u64"
  re_zeroing_new :: u64
  re_zeroing_delete :: u64
  re_luaopen_jit :: u64
  re_lua_close :: u64
  re_lua_pcall :: u64
  re_SDL_GL_CreateContext :: u64
  re_SDL_GL_SetAttribute :: u64
  re_map_file :: "cstr \<Rightarrow> string option"
  re_strict :: bool
  re_behind_dylibs :: "nat \<Rightarrow> dylib_entry"
  re_junk :: u32

definition RTLD_DEFAULT :: u64 where "RTLD_DEFAULT = 0"

abbreviation dlsym :: "res_env \<Rightarrow> 'a resolver_globals_scheme \<Rightarrow> u64 \<Rightarrow> cstr \<Rightarrow> u64" where
  "dlsym env st handle name \<equiv> re_dlsym env (r_opened st) handle name"

section \<open>Names\<close>

definition ends_with :: "cstr \<Rightarrow> cstr \<Rightarrow> bool" where
  "ends_with suf s \<longleftrightarrow> drop (length s - length suf) s = suf"

text \<open>The leading underscore and one Darwin suffix go; the buffer for the result has \<open>n\<close> bytes.\<close>

fun strip_suffixes :: "nat \<Rightarrow> cstr list \<Rightarrow> cstr \<Rightarrow> cstr" where
  "strip_suffixes n [] s = s"
| "strip_suffixes n (suf # sufs) s =
    (if length s > length suf \<and> ends_with suf s \<and> length s - length suf < n
     then take (length s - length suf) s
     else strip_suffixes n sufs s)"

definition linux_lookup_name :: "nat \<Rightarrow> cstr \<Rightarrow> cstr" where
  "linux_lookup_name storage_size macho_name =
     strip_suffixes storage_size [''$DARWIN_EXTSN'', ''$UNIX2003'', ''$NOCANCEL'', ''$INODE64'']
       (if at0 macho_name 0 = CHR ''_'' then drop 1 macho_name else macho_name)"

text \<open>The resolver tries both directions of the mangling exchange, also for names without the letter y.\<close>

definition resolver_mangling_variants :: "(cstr \<Rightarrow> u64) \<Rightarrow> cstr \<Rightarrow> u64" where
  "resolver_mangling_variants look name =
    (let y_pos = char_positions CHR ''y'' name; m_pos = char_positions CHR ''m'' name;
         addr = try_variants look name y_pos CHR ''m'' [1..<2 ^ length y_pos]
     in if addr \<noteq> 0 then addr else try_variants look name m_pos CHR ''y'' [1..<2 ^ length m_pos])"

definition basename_from_path :: "cstr \<Rightarrow> cstr" where
  "basename_from_path path = rev (takeWhile (\<lambda>c. c \<noteq> CHR ''/'') (rev path))"

end
