(* ===== verification/Resolver_Abi.thy ===== *)
theory Resolver_Abi
  imports Resolver_State
begin

text \<open>
  The adapters \<^verbatim>\<open>src/src/resolver.c\<close> puts between Mach-O callers and Linux functions: wrappers that keep
  \<^verbatim>\<open>this\<close> over a constructor call, thunks that turn Apple's variadic arguments into a Linux \<^verbatim>\<open>va_list\<close>, and
  stubs that return 0 for what cannot be resolved. Each kind has its own pool, mapped when first needed.
\<close>

section \<open>Constructors and destructors by name\<close>

text \<open>The parameter part behind the first constructor or destructor mark.\<close>

fun scan_ctor :: "cstr \<Rightarrow> cstr option" where
  "scan_ctor [] = None"
| "scan_ctor (c # s) =
    (if (c = CHR ''C'' \<or> c = CHR ''D'') \<and> at0 s 0 \<in> {CHR ''0'', CHR ''1'', CHR ''2''} \<and> at0 s 1 = CHR ''E''
     then Some (drop 2 s) else scan_ctor s)"

definition ctor_params :: "cstr \<Rightarrow> cstr option" where
  "ctor_params name =
    (let p = (if at0 name 0 = CHR ''_'' then drop 1 name else name) in
     if at0 p 0 \<noteq> CHR ''_'' \<or> at0 p 1 \<noteq> CHR ''Z'' then None else scan_ctor p)"

definition is_ctor_or_dtor :: "cstr \<Rightarrow> bool" where
  "is_ctor_or_dtor name \<longleftrightarrow> ctor_params name \<noteq> None"

fun count_params :: "cstr \<Rightarrow> nat \<Rightarrow> nat \<Rightarrow> nat \<times> nat" where
  "count_params [] float_count int_count = (float_count, int_count)"
| "count_params (c # s) float_count int_count =
    (if c \<in> set ''fd'' then count_params s (float_count + 1) int_count
     else if c \<in> set ''ijlmxycsbahtw'' then count_params s float_count (int_count + 1)
     else (float_count, int_count))"

definition ctor_has_stack_params :: "cstr \<Rightarrow> bool" where
  "ctor_has_stack_params name =
    (case ctor_params name of
       None \<Rightarrow> False
     | Some params \<Rightarrow>
         if params = [] \<or> at0 params 0 = CHR ''v'' then False
         else let (float_count, int_count) = count_params params 0 0 in float_count > 8 \<or> int_count > 7)"

section \<open>Code in the pools\<close>

fun store_words :: "mem \<Rightarrow> u64 \<Rightarrow> u32 list \<Rightarrow> mem" where
  "store_words m a [] = m"
| "store_words m a (w # ws) = store_words (store32 m a w) (a + 4) ws"

text \<open>\<^verbatim>\<open>struct ctor_abi_trampoline\<close>: six instructions and the target.\<close>

definition ctor_code :: "u32 list" where
  "ctor_code = [0xA9BF03FE, 0x580000B0, 0xD63F0200, 0xA8C103FE, 0xD65F03C0, 0xD503201F]"

definition map_ctor_pool :: "res_env \<Rightarrow> 'a resolver_globals_scheme \<Rightarrow> 'a resolver_globals_scheme" where
  "map_ctor_pool env st =
    (if ctor_tramp_pool st = 0 then
       let cap = of_nat (os_page_size env) * 4; (a, st) = mmap_any env 0 cap st
       in st\<lparr>ctor_tramp_pool := a, ctor_tramp_capacity := cap\<rparr>
     else st)"

definition wrap_ctor_for_apple_abi ::
  "res_env \<Rightarrow> u64 \<Rightarrow> 'a resolver_globals_scheme \<Rightarrow> u64 \<times> 'a resolver_globals_scheme" where
  "wrap_ctor_for_apple_abi env real_addr st =
    (let st = map_ctor_pool env st in
     if ctor_tramp_pool st = 0 then (real_addr, st)
        else if ctor_tramp_used st + 32 > ctor_tramp_capacity st then (real_addr, st)
        else
          let t = ctor_tramp_pool st + ctor_tramp_used st in
          (t, st\<lparr>p_mem := store (store_words (p_mem st) t ctor_code) (t + 24) 8 real_addr,
                 ctor_tramp_used := ctor_tramp_used st + 32, ctor_tramp_count := ctor_tramp_count st + 1\<rparr>))"

record variadic_info =
  vi_name :: cstr
  vi_v_name :: cstr
  vi_dest_reg :: u32
  vi_is_va_list :: bool
  vi_source_reg :: u32

definition variadic_functions :: "variadic_info list" where
  "variadic_functions = map (\<lambda>(n, v, d, l, s). \<lparr>vi_name = n, vi_v_name = v, vi_dest_reg = d, vi_is_va_list = l, vi_source_reg = s\<rparr>)
    [(''printf'', ''vprintf'', 1, False, 0),
     (''fprintf'', ''vfprintf'', 2, False, 0),
     (''sprintf'', ''vsprintf'', 2, False, 0),
     (''snprintf'', ''vsnprintf'', 3, False, 0),
     (''asprintf'', ''vasprintf'', 2, False, 0),
     (''fscanf'', ''vfscanf'', 2, False, 0),
     (''sscanf'', ''vsscanf'', 2, False, 0),
     (''__sprintf_chk'', ''__vsprintf_chk'', 4, False, 0),
     (''vsprintf'', ''vsprintf'', 2, True, 2),
     (''vsnprintf'', ''vsnprintf'', 3, True, 3),
     (''vsscanf'', ''vsscanf'', 2, True, 2),
     (''__vsnprintf_chk'', ''__vsnprintf_chk'', 5, True, 5)]"

definition lookup_variadic :: "cstr \<Rightarrow> variadic_info option" where
  "lookup_variadic name = List.find (\<lambda>vi. vi_name vi = name) variadic_functions"

text \<open>\<^verbatim>\<open>struct variadic_thunk\<close>: twelve instructions and the target.\<close>

definition variadic_code :: "variadic_info \<Rightarrow> u32 list" where
  "variadic_code vi =
    [0xA9BD7BFD, 0x910003FD,
     if vi_is_va_list vi then 0xAA0003E8 OR push_bit 16 (vi_source_reg vi) else 0x9100C3A8,
     0xF9000BE8, 0xF9000FFF, 0xF90013FF, 0x29057FFF, 0x910043E0 OR vi_dest_reg vi,
     0x58000090, 0xD63F0200, 0xA8C37BFD, 0xD65F03C0]"

definition map_variadic_pool :: "res_env \<Rightarrow> 'a resolver_globals_scheme \<Rightarrow> 'a resolver_globals_scheme" where
  "map_variadic_pool env st =
    (if variadic_pool st = 0 then
       let cap = of_nat (os_page_size env) * 2; (a, st) = mmap_any env 0 cap st
       in st\<lparr>variadic_pool := a, variadic_pool_capacity := cap\<rparr>
     else st)"

definition create_variadic_thunk ::
  "res_env \<Rightarrow> u64 \<Rightarrow> variadic_info \<Rightarrow> 'a resolver_globals_scheme \<Rightarrow> u64 \<times> 'a resolver_globals_scheme" where
  "create_variadic_thunk env v_func_addr vi st =
    (let st = map_variadic_pool env st in
     if variadic_pool st = 0 then (0, st)
        else if variadic_pool_used st + 56 > variadic_pool_capacity st then (0, st)
        else
          let t = variadic_pool st + variadic_pool_used st in
          (t, st\<lparr>p_mem := store (store_words (p_mem st) t (variadic_code vi)) (t + 48) 8 v_func_addr,
                 variadic_pool_used := variadic_pool_used st + 56,
                 variadic_thunk_count := variadic_thunk_count st + 1\<rparr>))"

definition stub_cap :: u64 where "stub_cap = 256 * 4096"

definition return0_code :: "u32 list" where "return0_code = [0x52800000, 0xd65f03c0]"

definition map_stub_pool :: "res_env \<Rightarrow> 'a resolver_globals_scheme \<Rightarrow> 'a resolver_globals_scheme" where
  "map_stub_pool env st =
    (if stub_pool st = 0 then let (a, st) = mmap_any env 0 stub_cap st in st\<lparr>stub_pool := a\<rparr> else st)"

definition alloc_return0_stub :: "res_env \<Rightarrow> 'a resolver_globals_scheme \<Rightarrow> u64 \<times> 'a resolver_globals_scheme" where
  "alloc_return0_stub env st =
    (let st = map_stub_pool env st in
     if stub_pool st = 0 then (0, st)
     else if stub_used st + 128 > stub_cap then (0, st)
     else
       let slot = stub_pool st + stub_used st in
       (slot, st\<lparr>p_mem := store_words (p_mem st) slot return0_code, stub_used := stub_used st + 128\<rparr>))"

definition weak_cap :: u64 where "weak_cap = 64 * 4096"

text \<open>A zeroed slot for an unresolved weak symbol; 0 when there is none left.\<close>

definition map_weak_pool :: "res_env \<Rightarrow> 'a resolver_globals_scheme \<Rightarrow> 'a resolver_globals_scheme" where
  "map_weak_pool env st =
    (if weak_pool st = 0 then
       let (a, st) = mmap_any env 0 weak_cap st in st\<lparr>weak_pool := a, weak_pool_capacity := weak_cap\<rparr>
     else st)"

definition alloc_weak_slot :: "res_env \<Rightarrow> 'a resolver_globals_scheme \<Rightarrow> u64 \<times> 'a resolver_globals_scheme" where
  "alloc_weak_slot env st =
    (let st = map_weak_pool env st in
     if weak_pool st = 0 then (0, st)
        else if weak_pool_used st + 128 \<le> weak_pool_capacity st
        then (weak_pool st + weak_pool_used st, st\<lparr>weak_pool_used := weak_pool_used st + 128\<rparr>)
        else (0, st))"

section \<open>Adapting a found function\<close>

definition adapt_ctor :: "res_env \<Rightarrow> cstr \<Rightarrow> u64 \<Rightarrow> 'a resolver_globals_scheme \<Rightarrow> u64 \<times> 'a resolver_globals_scheme" where
  "adapt_ctor env sym_name result st =
    (if is_ctor_or_dtor sym_name \<and> \<not> ctor_has_stack_params sym_name
     then wrap_ctor_for_apple_abi env result st else (result, st))"

definition adapt_variadic :: "res_env \<Rightarrow> cstr \<Rightarrow> u64 \<Rightarrow> 'a resolver_globals_scheme \<Rightarrow> u64 \<times> 'a resolver_globals_scheme" where
  "adapt_variadic env lname result st =
    (case lookup_variadic lname of
       None \<Rightarrow> (result, st)
     | Some vi \<Rightarrow>
         let v_func = dlsym env st RTLD_DEFAULT (vi_v_name vi) in
         if v_func = 0 then (result, st)
         else let (thunk, st) = create_variadic_thunk env v_func vi st in
              if thunk \<noteq> 0 then (thunk, st) else (result, st))"

definition hook_gl :: "res_env \<Rightarrow> cstr \<Rightarrow> u64 \<Rightarrow> 'a resolver_globals_scheme \<Rightarrow> u64 \<times> 'a resolver_globals_scheme" where
  "hook_gl env lname result st =
    (if g_deferred_active st \<and> \<not> g_deferred_resolved st then
       if lname = ''SDL_GL_CreateContext''
       then (re_SDL_GL_CreateContext env, st\<lparr>g_real_SDL_GL_CreateContext := result\<rparr>)
       else if lname = ''SDL_GL_SetAttribute''
       then (re_SDL_GL_SetAttribute env, st\<lparr>g_real_SDL_GL_SetAttribute := result\<rparr>)
       else (result, st)
     else (result, st))"

end
