(* ===== verification/Resolver_Bind.thy ===== *)
theory Resolver_Bind
  imports Resolver_Abi
begin

text \<open>
  Resolution of one bind of \<^verbatim>\<open>src/src/resolver.c\<close>: \<^verbatim>\<open>resolve_import\<close> for the chained fixups,
  \<^verbatim>\<open>resolve_bind_by_name\<close> and \<^verbatim>\<open>do_bind_one\<close> for the opcode streams, and the completion of deferred binds.
\<close>

definition count_resolved :: "resolver_state \<Rightarrow> resolver_state" where
  "count_resolved st = st\<lparr>binds_resolved := binds_resolved st + 1\<rparr>"

definition count_stubbed :: "resolver_state \<Rightarrow> resolver_state" where
  "count_stubbed st = st\<lparr>binds_stubbed := binds_stubbed st + 1\<rparr>"

definition count_failed :: "resolver_state \<Rightarrow> resolver_state" where
  "count_failed st = st\<lparr>binds_failed := binds_failed st + 1\<rparr>"

definition count_missing :: "bool \<Rightarrow> resolver_state \<Rightarrow> resolver_state" where
  "count_missing weak st = (if weak then count_stubbed st else count_failed st)"

text \<open>Symbols the resolver provides itself.\<close>

definition own_hook :: "res_env \<Rightarrow> cstr \<Rightarrow> u64 option" where
  "own_hook env sym_name =
    (if sym_name = ''__Znwm'' \<or> sym_name = ''__Znam'' then Some (re_zeroing_new env)
     else if sym_name = ''__ZdlPv'' \<or> sym_name = ''__ZdaPv'' then Some (re_zeroing_delete env)
     else if sym_name = ''_luaopen_jit'' then Some (re_luaopen_jit env)
     else if sym_name = ''_lua_close'' then Some (re_lua_close env)
     else if sym_name = ''_lua_pcall'' then Some (re_lua_pcall env)
     else None)"

section \<open>Library ordinals\<close>

definition dylib_at :: "res_env \<Rightarrow> resolver_state \<Rightarrow> nat \<Rightarrow> dylib_entry" where
  "dylib_at env st i = (if i < length (rs_dylibs st) then rs_dylibs st ! i else re_behind_dylibs env i)"

fun swap_first :: "cstr \<Rightarrow> cstr" where
  "swap_first [] = []"
| "swap_first (c # s) =
    (if c = CHR ''y'' then CHR ''m'' # s else if c = CHR ''m'' then CHR ''y'' # s else c # swap_first s)"

definition macho_symbol :: "resolver_state \<Rightarrow> dylib_entry \<Rightarrow> cstr \<Rightarrow> u64" where
  "macho_symbol st de sym_name =
    (let look = (\<lambda>name. case de_macho_info de of None \<Rightarrow> 0 | Some i \<Rightarrow> dylib_loader_lookup (p_mem st) (g_macho_dylibs st ! i) name);
         addr = look sym_name
     in if addr = 0 \<and> strstr sym_name ''_ZN'' then look (swap_first sym_name) else addr)"

definition linux_symbol :: "res_env \<Rightarrow> resolver_state \<Rightarrow> u64 \<Rightarrow> cstr \<Rightarrow> u64" where
  "linux_symbol env st handle lname =
    (let addr = dlsym env st handle lname in
     if addr = 0 \<and> starts_with ''_ZN'' lname
     then resolver_mangling_variants (dlsym env st handle) lname else addr)"

text \<open>The part \<^verbatim>\<open>resolve_import\<close> and \<^verbatim>\<open>resolve_bind_by_name\<close> share: an ordinal from 1 names a dylib.\<close>

definition resolve_in_dylib ::
  "res_env \<Rightarrow> int \<Rightarrow> cstr \<Rightarrow> bool \<Rightarrow> u64 \<Rightarrow> resolver_state \<Rightarrow> u64 \<times> resolver_state" where
  "resolve_in_dylib env lib_ordinal sym_name weak addend st =
    (let lname = linux_lookup_name 256 sym_name in
     if lib_ordinal < 1 \<or> lib_ordinal > int (rs_ndylibs st) then alloc_return0_stub env (count_failed st)
     else
       let de = dylib_at env st (nat (lib_ordinal - 1)) in
       case de_action de of
         DYLIB_MAP \<Rightarrow>
           let addr = linux_symbol env st (de_handle de) lname in
           if addr \<noteq> 0 then
             let (result, st) = adapt_ctor env sym_name (addr + addend) st;
                 (result, st) = adapt_variadic env lname result st;
                 (result, st) = hook_gl env lname result st
             in (result, count_resolved st)
           else
             let addr = dlsym env st RTLD_DEFAULT lname in
             if addr \<noteq> 0 then (addr + addend, count_resolved st)
             else alloc_return0_stub env (count_missing weak st)
       | DYLIB_MACHO \<Rightarrow>
           let addr = macho_symbol st de sym_name in
           if addr \<noteq> 0 then (addr + addend, count_resolved st)
           else alloc_return0_stub env (count_missing weak st)
       | DYLIB_STUB \<Rightarrow> alloc_return0_stub env (count_stubbed st)
       | DYLIB_SKIP \<Rightarrow> alloc_return0_stub env (count_missing weak st)
       | DYLIB_DEFERRED \<Rightarrow> alloc_return0_stub env (count_stubbed st))"

text \<open>A flat lookup through the dynamic linker.\<close>

definition resolve_flat ::
  "res_env \<Rightarrow> cstr \<Rightarrow> bool \<Rightarrow> u64 \<Rightarrow> resolver_state \<Rightarrow> u64 \<times> resolver_state" where
  "resolve_flat env sym_name weak addend st =
    (let lname = linux_lookup_name 256 sym_name; addr = dlsym env st RTLD_DEFAULT lname in
     if addr \<noteq> 0 then
       let (result, st) = adapt_ctor env sym_name (addr + addend) st;
           (result, st) = adapt_variadic env lname result st
       in (result, count_resolved st)
     else alloc_return0_stub env (if weak then st else count_failed st))"

section \<open>Chained imports\<close>

record import =
  i_lib_ordinal :: int
  i_weak :: bool
  i_name_offset :: u32
  i_addend :: u64

text \<open>The three formats of the import table; \<^const>\<open>None\<close> for another one.\<close>

definition read_import :: "mem \<Rightarrow> u64 \<Rightarrow> u32 \<Rightarrow> u32 \<Rightarrow> import option" where
  "read_import m imports_base imports_format ordinal =
    (if imports_format = 1 then
       let w = load32 m (imports_base + 4 * ucast ordinal) in
       Some \<lparr>i_lib_ordinal = sint (ucast w :: u8), i_weak = bit w 8, i_name_offset = drop_bit 9 w, i_addend = 0\<rparr>
     else if imports_format = 2 then
       let w = load32 m (imports_base + 8 * ucast ordinal) in
       Some \<lparr>i_lib_ordinal = sint (ucast w :: u8), i_weak = bit w 8, i_name_offset = drop_bit 9 w,
             i_addend = scast (load32 m (imports_base + 8 * ucast ordinal + 4))\<rparr>
     else if imports_format = 3 then
       let w = load m (imports_base + 16 * ucast ordinal) 8 in
       Some \<lparr>i_lib_ordinal = sint (ucast w :: u16), i_weak = bit w 16, i_name_offset = ucast (drop_bit 32 w),
             i_addend = load m (imports_base + 16 * ucast ordinal + 8) 8\<rparr>
     else None)"

text \<open>The symbol of an import by its ordinal.\<close>

definition resolve_symbol ::
  "res_env \<Rightarrow> int \<Rightarrow> cstr \<Rightarrow> bool \<Rightarrow> u64 \<Rightarrow> resolver_state \<Rightarrow> u64 \<times> resolver_state" where
  "resolve_symbol env lib_ordinal sym_name weak addend st =
    (case own_hook env sym_name of
       Some a \<Rightarrow> (a, count_resolved st)
     | None \<Rightarrow>
         if lib_ordinal = - 1 then
           let addr = lookup_macho_symbol (p_mem st) (rs_mh st) (rs_slide st) sym_name in
           if addr \<noteq> 0 then (addr + addend, count_resolved st) else alloc_return0_stub env (count_failed st)
         else if lib_ordinal = - 2 then resolve_flat env sym_name weak addend st
         else if lib_ordinal = - 3 then
           let macho_addr = lookup_macho_symbol (p_mem st) (rs_mh st) (rs_slide st) sym_name in
           if macho_addr \<noteq> 0 then (macho_addr + addend, count_resolved st)
           else
             let lname = linux_lookup_name 256 sym_name; addr = dlsym env st RTLD_DEFAULT lname in
             if addr \<noteq> 0 then
               let (result, st) = adapt_ctor env sym_name (addr + addend) st;
                   (result, st) = adapt_variadic env lname result st
               in (result, count_resolved st)
             else
               let (slot, st) = alloc_weak_slot env st in
               if slot \<noteq> 0 then (slot, count_stubbed st) else alloc_return0_stub env (count_stubbed st)
         else resolve_in_dylib env lib_ordinal sym_name weak addend st)"

definition resolve_import :: "res_env \<Rightarrow> u64 \<Rightarrow> u32 \<Rightarrow> u64 \<Rightarrow> resolver_state \<Rightarrow> u64 \<times> resolver_state" where
  "resolve_import env chain_data ordinal addend st =
    (let m = p_mem st in
     if ordinal \<ge> load32 m (chain_data + 16) then (0, st)
     else
       case read_import m (chain_data + ucast (load32 m (chain_data + 8))) (load32 m (chain_data + 20)) ordinal of
         None \<Rightarrow> (0, st)
       | Some imp \<Rightarrow>
           resolve_symbol env (i_lib_ordinal imp)
             (mem_str m (chain_data + ucast (load32 m (chain_data + 12)) + ucast (i_name_offset imp)))
             (i_weak imp) (addend + i_addend imp) st)"

section \<open>Binds by name\<close>

definition resolve_bind_by_name ::
  "res_env \<Rightarrow> int \<Rightarrow> cstr \<Rightarrow> bool \<Rightarrow> u64 \<Rightarrow> resolver_state \<Rightarrow> u64 \<times> resolver_state" where
  "resolve_bind_by_name env lib_ordinal sym_name weak addend st =
    (case own_hook env sym_name of
       Some a \<Rightarrow> (a, count_resolved st)
     | None \<Rightarrow>
         let lname = linux_lookup_name 256 sym_name in
         if lib_ordinal = 0 \<or> lib_ordinal = - 1 then
           let addr = lookup_macho_symbol (p_mem st) (rs_mh st) (rs_slide st) sym_name in
           if addr \<noteq> 0 then (addr + addend, count_resolved st)
           else
             let fallback = dlsym env st RTLD_DEFAULT lname in
             if fallback \<noteq> 0 then (fallback + addend, count_resolved st)
             else alloc_return0_stub env (count_missing weak st)
         else if lib_ordinal = - 2 then resolve_flat env sym_name weak addend st
         else if lib_ordinal = - 3 then
           let macho_addr = lookup_macho_symbol (p_mem st) (rs_mh st) (rs_slide st) sym_name in
           if macho_addr \<noteq> 0 then (macho_addr + addend, count_resolved st)
           else
             let addr = dlsym env st RTLD_DEFAULT lname in
             if addr \<noteq> 0 then
               let (result, st) = adapt_ctor env sym_name (addr + addend) st in (result, count_resolved st)
             else alloc_return0_stub env (count_stubbed st)
         else resolve_in_dylib env lib_ordinal sym_name weak addend st)"

definition name_of :: "mem \<Rightarrow> u64 option \<Rightarrow> cstr" where
  "name_of m p = (case p of None \<Rightarrow> [] | Some a \<Rightarrow> mem_str m a)"

definition store64 :: "u64 \<Rightarrow> u64 \<Rightarrow> 'a process_scheme \<Rightarrow> 'a process_scheme" where
  "store64 a v st = st\<lparr>p_mem := store (p_mem st) a 8 v\<rparr>"

definition do_bind_one ::
  "res_env \<Rightarrow> nat \<Rightarrow> u64 \<Rightarrow> int \<Rightarrow> u64 option \<Rightarrow> bool \<Rightarrow> u64 \<Rightarrow> resolver_state \<Rightarrow> resolver_state" where
  "do_bind_one env seg_index seg_offset lib_ordinal sym_name weak addend st =
    (if seg_index \<ge> length (rs_segments st) then st
     else
       let addr = si_vmaddr (rs_segments st ! seg_index) + rs_slide st + seg_offset in
       if 1 \<le> lib_ordinal \<and> lib_ordinal \<le> int (rs_ndylibs st) \<and>
          de_action (dylib_at env st (nat (lib_ordinal - 1))) = DYLIB_DEFERRED
       then
         let st = (if length (g_deferred_binds st) < MAX_DEFERRED_BINDS
                   then st\<lparr>g_deferred_binds := g_deferred_binds st @
                     [\<lparr>db_got_slot = addr, db_sym_name = sym_name, db_lib_ordinal = lib_ordinal, db_weak = weak,
                       db_addend = addend\<rparr>]\<rparr>
                   else st);
             (stub, st) = alloc_return0_stub env st
         in count_stubbed (store64 addr stub st)
       else
         let (resolved, st) = resolve_bind_by_name env lib_ordinal (name_of (p_mem st) sym_name) weak addend st
         in store64 addr resolved st)"

section \<open>Deferred libraries\<close>

text \<open>When the GL context exists: open the deferred libraries, then resolve the recorded binds in order.\<close>

fun open_deferred ::
  "res_env \<Rightarrow> dylib_entry list \<Rightarrow> 'a resolver_globals_scheme \<Rightarrow> dylib_entry list \<times> 'a resolver_globals_scheme" where
  "open_deferred env [] st = ([], st)"
| "open_deferred env (de # des) st =
    (if de_action de \<noteq> DYLIB_DEFERRED then let (des, st) = open_deferred env des st in (de # des, st)
     else
       let handle = re_dlopen env (r_opened st) (de_so_path de);
           st = st\<lparr>r_opened := r_opened st @ [de_so_path de]\<rparr>;
           de = (if handle = 0 then de\<lparr>de_handle := 0\<rparr> else de\<lparr>de_handle := handle, de_action := DYLIB_MAP\<rparr>);
           (des, st) = open_deferred env des st
       in (de # des, st))"

definition complete_bind ::
  "res_env \<Rightarrow> deferred_bind \<Rightarrow> 'a resolver_globals_scheme \<Rightarrow> 'a resolver_globals_scheme" where
  "complete_bind env db st =
    (let de = g_deferred_dylibs st ! nat (db_lib_ordinal db - 1) in
     if de_handle de = 0 then st
     else
       let sym_name = name_of (p_mem st) (db_sym_name db);
           lookup = linux_lookup_name 256 sym_name;
           addr = dlsym env st (de_handle de) lookup;
           addr = (if addr = 0 \<and> starts_with ''_ZN'' lookup
                   then resolver_mangling_variants (dlsym env st (de_handle de)) lookup else addr);
           addr = (if addr = 0 then dlsym env st RTLD_DEFAULT lookup else addr)
       in if addr = 0 then st
          else
            let (result, st) = adapt_ctor env sym_name (addr + db_addend db) st;
                page = db_got_slot db AND NOT (of_nat (os_page_size env) - 1)
            in store64 (db_got_slot db) result (set_prot page (of_nat (os_page_size env)) 3 st))"

definition resolver_complete_deferred :: "res_env \<Rightarrow> 'a resolver_globals_scheme \<Rightarrow> 'a resolver_globals_scheme" where
  "resolver_complete_deferred env st =
    (if g_deferred_resolved st then st
     else
       let (des, st) = open_deferred env (take (g_deferred_ndylibs st) (g_deferred_dylibs st)) (st\<lparr>g_deferred_resolved := True\<rparr>);
           st = st\<lparr>g_deferred_dylibs := des\<rparr>
       in fold (complete_bind env) (g_deferred_binds st) st)"

definition wrapped_SDL_GL_SetAttribute :: "int \<Rightarrow> int \<Rightarrow> int \<times> int" where
  "wrapped_SDL_GL_SetAttribute attr val =
    (attr, if attr = 21 \<or> attr = 20 then 4 else if attr = 17 then 2 else if attr = 18 then 0 else val)"

definition wrapped_SDL_GL_CreateContext ::
  "res_env \<Rightarrow> (u64 \<Rightarrow> u64) \<Rightarrow> u64 \<Rightarrow> 'a resolver_globals_scheme \<Rightarrow> u64 \<times> 'a resolver_globals_scheme" where
  "wrapped_SDL_GL_CreateContext env real_create window st =
    (let ctx = real_create window in (ctx, if ctx \<noteq> 0 then resolver_complete_deferred env st else st))"

end
