(* ===== verification/Chained_Fixups.thy ===== *)
theory Chained_Fixups
  imports Resolver_Bind
begin

text \<open>
  The chained fixups of \<^verbatim>\<open>src/src/resolver.c\<close>: every page of a segment starts a chain of 64-bit slots, each of
  which is replaced by a rebased pointer or the address of an import and tells how far the next one is. A chain
  ends with a distance of 0; a chain that never does, by coming back on itself through the end of the
  address space, has no result.
\<close>

definition DYLD_CHAINED_PTR_64 :: u16 where "DYLD_CHAINED_PTR_64 = 2"
definition DYLD_CHAINED_PTR_64_OFFSET :: u16 where "DYLD_CHAINED_PTR_64_OFFSET = 6"
definition DYLD_CHAINED_PTR_START_NONE :: u16 where "DYLD_CHAINED_PTR_START_NONE = 0xFFFF"

definition FIXUP_PTR_BIND :: "u64 \<Rightarrow> bool" where "FIXUP_PTR_BIND raw \<longleftrightarrow> drop_bit 63 raw AND 1 \<noteq> 0"
definition FIXUP_PTR_NEXT :: "u64 \<Rightarrow> u64" where "FIXUP_PTR_NEXT raw = drop_bit 51 raw AND 0xFFF"
definition FIXUP_BIND_ORDINAL :: "u64 \<Rightarrow> u64" where "FIXUP_BIND_ORDINAL raw = raw AND 0xFFFFFF"
definition FIXUP_BIND_ADDEND :: "u64 \<Rightarrow> u64" where "FIXUP_BIND_ADDEND raw = drop_bit 24 raw AND 0xFF"
definition FIXUP_REBASE_TARGET :: "u64 \<Rightarrow> u64" where "FIXUP_REBASE_TARGET raw = raw AND 0xFFFFFFFFF"
definition FIXUP_REBASE_HIGH8 :: "u64 \<Rightarrow> u64" where "FIXUP_REBASE_HIGH8 raw = drop_bit 36 raw AND 0xFF"

definition rebase_value :: "bool \<Rightarrow> u64 \<Rightarrow> u64 \<Rightarrow> u64 \<Rightarrow> u64" where
  "rebase_value is_offset mh slide raw =
     (if is_offset then mh + FIXUP_REBASE_TARGET raw else FIXUP_REBASE_TARGET raw + slide)
       OR push_bit 56 (FIXUP_REBASE_HIGH8 raw)"

text \<open>One slot of a chain.\<close>

definition fixup_slot :: "res_env \<Rightarrow> bool \<Rightarrow> u64 \<Rightarrow> u64 \<Rightarrow> resolver_state \<Rightarrow> resolver_state" where
  "fixup_slot env is_offset chain_data loc st =
    (let raw = load (p_mem st) loc 8 in
     if FIXUP_PTR_BIND raw then
       let (resolved, st) = resolve_import env chain_data (ucast (FIXUP_BIND_ORDINAL raw))
                              (scast (ucast (FIXUP_BIND_ADDEND raw) :: u8)) st
       in store64 loc resolved st
     else
       (store64 loc (rebase_value is_offset (rs_mh st) (rs_slide st) raw) st)
         \<lparr>rebases_applied := rebases_applied st + 1\<rparr>)"

partial_function (option) walk_slots ::
  "res_env \<Rightarrow> bool \<Rightarrow> u64 \<Rightarrow> u64 \<Rightarrow> resolver_state \<Rightarrow> resolver_state option" where
  [code]: "walk_slots env is_offset chain_data loc st =
    (let next = FIXUP_PTR_NEXT (load (p_mem st) loc 8); st' = fixup_slot env is_offset chain_data loc st in
     if next = 0 then Some st' else walk_slots env is_offset chain_data (loc + next * 4) st')"

definition walk_chain :: "res_env \<Rightarrow> u64 \<Rightarrow> u16 \<Rightarrow> u64 \<Rightarrow> resolver_state \<Rightarrow> resolver_state option" where
  "walk_chain env chain_start pointer_format chain_data st =
     walk_slots env (pointer_format = DYLD_CHAINED_PTR_64_OFFSET) chain_data chain_start st"

section \<open>Pages and segments\<close>

definition load16 :: "mem \<Rightarrow> u64 \<Rightarrow> u16" where
  "load16 m a = ucast (load m a 2)"

definition fileoff_in :: "seg_info \<Rightarrow> u32 \<Rightarrow> bool" where
  "fileoff_in si fileoff \<longleftrightarrow> ucast fileoff \<ge> si_fileoff si \<and> ucast fileoff < si_fileoff si + si_filesize si"

definition resolver_fileoff_to_mem :: "resolver_state \<Rightarrow> u32 \<Rightarrow> u64" where
  "resolver_fileoff_to_mem st fileoff =
    (let place = (\<lambda>si. si_vmaddr si + rs_slide st + (ucast fileoff - si_fileoff si)) in
     if fileoff_in (rs_linkedit st) fileoff then place (rs_linkedit st)
     else case List.find (\<lambda>si. fileoff_in si fileoff) (rs_segments st) of None \<Rightarrow> 0 | Some si \<Rightarrow> place si)"

definition make_segment_writable :: "res_env \<Rightarrow> u64 \<Rightarrow> u16 \<Rightarrow> u16 \<Rightarrow> resolver_state \<Rightarrow> resolver_state" where
  "make_segment_writable env seg_base page_count page_size st =
    (let sys_page = of_nat (os_page_size env);
         start = seg_base AND NOT (sys_page - 1);
         fin = seg_base + ucast page_count * ucast page_size;
         fin = (fin + sys_page - 1) AND NOT (sys_page - 1)
     in set_prot start (fin - start) 3 st)"

fun walk_pages ::
  "res_env \<Rightarrow> u64 \<Rightarrow> u64 \<Rightarrow> u64 \<Rightarrow> nat list \<Rightarrow> resolver_state \<Rightarrow> resolver_state option" where
  "walk_pages env chain_data seg_starts seg_base [] st = Some st"
| "walk_pages env chain_data seg_starts seg_base (page # pages) st =
    (let page_start = load16 (p_mem st) (seg_starts + 22 + 2 * of_nat page);
         page_size = load16 (p_mem st) (seg_starts + 4)
     in if page_start = DYLD_CHAINED_PTR_START_NONE then walk_pages env chain_data seg_starts seg_base pages st
        else
          case walk_chain env (seg_base + of_nat page * ucast page_size + ucast page_start)
                 (load16 (p_mem st) (seg_starts + 6)) chain_data st of
            None \<Rightarrow> None
          | Some st \<Rightarrow> walk_pages env chain_data seg_starts seg_base pages st)"

fun walk_segments :: "res_env \<Rightarrow> u64 \<Rightarrow> u64 \<Rightarrow> nat list \<Rightarrow> resolver_state \<Rightarrow> resolver_state option" where
  "walk_segments env chain_data starts [] st = Some st"
| "walk_segments env chain_data starts (seg # segs) st =
    (let offset = load32 (p_mem st) (starts + 4 + 4 * of_nat seg) in
     if offset = 0 then walk_segments env chain_data starts segs st
     else
       let seg_starts = starts + ucast offset; format = load16 (p_mem st) (seg_starts + 6) in
       if format \<noteq> DYLD_CHAINED_PTR_64 \<and> format \<noteq> DYLD_CHAINED_PTR_64_OFFSET
       then walk_segments env chain_data starts segs st
       else
         let seg_base = rs_mh st + load (p_mem st) (seg_starts + 8) 8;
             page_count = load16 (p_mem st) (seg_starts + 20);
             st = make_segment_writable env seg_base page_count (load16 (p_mem st) (seg_starts + 4)) st
         in case walk_pages env chain_data seg_starts seg_base [0..<unat page_count] st of
              None \<Rightarrow> None
            | Some st \<Rightarrow> walk_segments env chain_data starts segs st)"

text \<open>The outer option: no result when a chain does not end; the inner value: success or failure.\<close>

definition process_chained_fixups :: "res_env \<Rightarrow> resolver_state \<Rightarrow> (bool \<times> resolver_state) option" where
  "process_chained_fixups env st =
    (let chain_data = resolver_fileoff_to_mem st (rs_fixups_dataoff st) in
     if chain_data = 0 then Some (False, st)
     else
       let starts = chain_data + ucast (load32 (p_mem st) (chain_data + 4)) in
       map_option (Pair True)
         (walk_segments env chain_data starts [0..<unat (load32 (p_mem st) starts)] st))"

end
