(* ===== verification/Dyld_Info.thy ===== *)
theory Dyld_Info
  imports Chained_Fixups
begin

text \<open>
  The opcode streams of \<^verbatim>\<open>LC_DYLD_INFO\<close> in \<^verbatim>\<open>src/src/resolver.c\<close>: LEB128 numbers, the rebase interpreter and
  the bind interpreter. The streams are read from memory while the opcodes change it. A shift by 64 or more
  takes the distance modulo 64, as the shift instruction of the machine does.
\<close>

section \<open>LEB128\<close>

lemma unat_next:
  fixes p fin :: u64
  assumes "p < fin"
  shows "unat (p + 1) = unat p + 1"
proof -
  have "unat fin < 2 ^ 64" using unsigned_less [of fin] by simp
  then have "unat p + 1 < 2 ^ 64" using assms by (simp add: word_less_nat_alt)
  then show ?thesis by (simp add: unat_word_ariths)
qed

function read_uleb128 :: "mem \<Rightarrow> u64 \<Rightarrow> u64 \<Rightarrow> nat \<Rightarrow> u64 \<Rightarrow> u64 \<times> u64" where
  "read_uleb128 m fin p shift result =
    (if p < fin then
       let byte = m p; result = result OR push_bit (shift mod 64) (ucast (byte AND 0x7f)) in
       if byte AND 0x80 = 0 then (result, p + 1) else read_uleb128 m fin (p + 1) (shift + 7) result
     else (result, p))"
  by pat_completeness auto
termination
  by (relation "measure (\<lambda>(m, fin, p, shift, result). unat fin - unat p)") (auto simp: unat_next word_less_nat_alt)

text \<open>The signed form keeps the last byte for its sign bit.\<close>

function read_sleb128 :: "mem \<Rightarrow> u64 \<Rightarrow> u64 \<Rightarrow> nat \<Rightarrow> u64 \<Rightarrow> u8 \<Rightarrow> u64 \<times> u64" where
  "read_sleb128 m fin p shift result byte =
    (let stop = (\<lambda>p shift result byte.
           (if shift < 64 \<and> byte AND 0x40 \<noteq> 0 then result OR - push_bit shift 1 else result, p))
     in if p < fin then
          let byte = m p; result = result OR push_bit (shift mod 64) (ucast (byte AND 0x7f)) in
          if byte AND 0x80 = 0 then stop (p + 1) (shift + 7) result byte
          else read_sleb128 m fin (p + 1) (shift + 7) result byte
        else stop p shift result byte)"
  by pat_completeness auto
termination
  by (relation "measure (\<lambda>(m, fin, p, shift, result, byte). unat fin - unat p)") (auto simp: unat_next word_less_nat_alt)

declare read_uleb128.simps [simp del] read_sleb128.simps [simp del]

lemma read_uleb128_progress:
  "p \<le> fin \<Longrightarrow> p \<le> snd (read_uleb128 m fin p shift result) \<and> snd (read_uleb128 m fin p shift result) \<le> fin"
proof (induction m fin p shift result rule: read_uleb128.induct)
  case (1 m fin p shift result)
  have "p + 1 \<le> fin \<and> p \<le> p + 1" if "p < fin" using that unat_next [OF that] by (simp add: word_less_nat_alt word_le_nat_alt)
  with 1 show ?case
    by (subst (1 2) read_uleb128.simps) (auto simp: Let_def intro: order_trans)
qed

lemma uleb_ge:
  assumes "p < fin" "read_uleb128 m fin (p + 1) shift result = (v, q)"
  shows "unat p < unat q"
proof -
  have "p + 1 \<le> fin" using assms(1) unat_next [OF assms(1)] by (simp add: word_less_nat_alt word_le_nat_alt)
  then have "p + 1 \<le> q" using read_uleb128_progress [of "p + 1" fin m shift result] assms(2) by simp
  then show ?thesis using unat_next [OF assms(1)] by (simp add: word_le_nat_alt)
qed

lemma uleb_twice_ge:
  assumes "p < fin" "read_uleb128 m fin (p + 1) 0 0 = (v, q)" "read_uleb128 m fin q 0 0 = (w, q')"
  shows "unat p < unat q'"
proof -
  have "p + 1 \<le> fin" using assms(1) unat_next [OF assms(1)] by (simp add: word_less_nat_alt word_le_nat_alt)
  then have "q \<le> fin" using read_uleb128_progress [of "p + 1" fin m 0 0] assms(2) by simp
  then have "q \<le> q'" using read_uleb128_progress [of q fin m 0 0] assms(3) by simp
  then show ?thesis using uleb_ge [OF assms(1,2)] by (simp add: word_le_nat_alt)
qed

lemma stream_progress: "p < (fin :: u64) \<Longrightarrow> unat p < unat q \<Longrightarrow> unat fin - unat q < unat fin - unat p"
  by (simp add: word_less_nat_alt)

lemma stream_next: "p < (fin :: u64) \<Longrightarrow> unat fin - Suc (unat p) < unat fin - unat p"
  by (simp add: word_less_nat_alt)

section \<open>Rebase\<close>

definition rebase_one :: "nat \<Rightarrow> u64 \<Rightarrow> resolver_state \<Rightarrow> resolver_state" where
  "rebase_one seg_index seg_offset st =
    (if seg_index < length (rs_segments st) then
       let addr = si_vmaddr (rs_segments st ! seg_index) + rs_slide st + seg_offset in
       (store64 addr (load (p_mem st) addr 8 + rs_slide st) st)\<lparr>rebases_applied := rebases_applied st + 1\<rparr>
     else st)"

fun rebase_times :: "nat \<Rightarrow> nat \<Rightarrow> u64 \<Rightarrow> u64 \<Rightarrow> resolver_state \<Rightarrow> u64 \<times> resolver_state" where
  "rebase_times 0 seg_index seg_offset step st = (seg_offset, st)"
| "rebase_times (Suc n) seg_index seg_offset step st =
     rebase_times n seg_index (seg_offset + step) step (rebase_one seg_index seg_offset st)"

function rebase_stream :: "u64 \<Rightarrow> u64 \<Rightarrow> nat \<Rightarrow> u64 \<Rightarrow> resolver_state \<Rightarrow> bool \<times> resolver_state" where
  "rebase_stream fin p seg_index seg_offset st =
    (if \<not> p < fin then (True, st)
     else
       let byte = p_mem st p; opcode = byte AND 0xF0; imm = byte AND 0x0F in
       if opcode = 0x00 then (True, st)
       else if opcode = 0x10 then rebase_stream fin (p + 1) seg_index seg_offset st
       else if opcode = 0x20 then
         (case read_uleb128 (p_mem st) fin (p + 1) 0 0 of (v, q) \<Rightarrow> rebase_stream fin q (unat imm) v st)
       else if opcode = 0x30 then
         (case read_uleb128 (p_mem st) fin (p + 1) 0 0 of (v, q) \<Rightarrow> rebase_stream fin q seg_index (seg_offset + v) st)
       else if opcode = 0x40 then rebase_stream fin (p + 1) seg_index (seg_offset + ucast imm * 8) st
       else if opcode = 0x50 then
         (case rebase_times (unat imm) seg_index seg_offset 8 st of (off, st) \<Rightarrow> rebase_stream fin (p + 1) seg_index off st)
       else if opcode = 0x60 then
         (case read_uleb128 (p_mem st) fin (p + 1) 0 0 of (v, q) \<Rightarrow>
          case rebase_times (unat v) seg_index seg_offset 8 st of (off, st) \<Rightarrow> rebase_stream fin q seg_index off st)
       else if opcode = 0x70 then
         (let st = rebase_one seg_index seg_offset st in
          case read_uleb128 (p_mem st) fin (p + 1) 0 0 of (v, q) \<Rightarrow>
            rebase_stream fin q seg_index (seg_offset + (v + 8)) st)
       else if opcode = 0x80 then
         (case read_uleb128 (p_mem st) fin (p + 1) 0 0 of (cnt, q) \<Rightarrow>
          case read_uleb128 (p_mem st) fin q 0 0 of (skip, q') \<Rightarrow>
          case rebase_times (unat cnt) seg_index seg_offset (skip + 8) st of (off, st) \<Rightarrow>
            rebase_stream fin q' seg_index off st)
       else (False, st))"
  by pat_completeness auto
termination
  by (relation "measure (\<lambda>(fin, p, seg_index, seg_offset, st). unat fin - unat p)")
    (auto simp: unat_next intro!: stream_next stream_progress dest: uleb_ge [OF _ sym] uleb_twice_ge [OF _ sym sym])

declare rebase_stream.simps [simp del]

section \<open>Bind\<close>

record bind_state =
  bs_seg_index :: nat
  bs_seg_offset :: u64
  bs_lib_ordinal :: int
  bs_sym_name :: "u64 option"
  bs_sym_flags :: u8
  bs_addend :: u64

definition bind_start :: bind_state where
  "bind_start = \<lparr>bs_seg_index = 0, bs_seg_offset = 0, bs_lib_ordinal = 0, bs_sym_name = None, bs_sym_flags = 0, bs_addend = 0\<rparr>"

definition bind_here :: "res_env \<Rightarrow> bind_state \<Rightarrow> resolver_state \<Rightarrow> resolver_state" where
  "bind_here env b st =
     do_bind_one env (bs_seg_index b) (bs_seg_offset b) (bs_lib_ordinal b) (bs_sym_name b)
       (bs_sym_flags b AND 0x01 \<noteq> 0) (bs_addend b) st"

definition advance :: "u64 \<Rightarrow> bind_state \<Rightarrow> bind_state" where
  "advance n b = b\<lparr>bs_seg_offset := bs_seg_offset b + n\<rparr>"

fun bind_times :: "res_env \<Rightarrow> nat \<Rightarrow> u64 \<Rightarrow> bind_state \<Rightarrow> resolver_state \<Rightarrow> bind_state \<times> resolver_state" where
  "bind_times env 0 step b st = (b, st)"
| "bind_times env (Suc n) step b st = bind_times env n step (advance step b) (bind_here env b st)"

text \<open>One opcode: the stream ends, with success or failure, or goes on at an address.\<close>

datatype bind_outcome = Halt bool resolver_state | Continue u64 bind_state resolver_state

definition bind_opcode :: "res_env \<Rightarrow> bool \<Rightarrow> u64 \<Rightarrow> u64 \<Rightarrow> bind_state \<Rightarrow> resolver_state \<Rightarrow> bind_outcome" where
  "bind_opcode env lazy fin p b st =
    (let byte = p_mem st p; opcode = byte AND 0xF0; imm = byte AND 0x0F;
         (v, q) = read_uleb128 (p_mem st) fin (p + 1) 0 0
     in if opcode = 0x00 then if lazy then Continue (p + 1) b st else Halt True st
     else if opcode = 0x10 then Continue (p + 1) (b\<lparr>bs_lib_ordinal := uint imm\<rparr>) st
     else if opcode = 0x20 then Continue q (b\<lparr>bs_lib_ordinal := sint (ucast v :: u32)\<rparr>) st
     else if opcode = 0x30 then
       Continue (p + 1) (b\<lparr>bs_lib_ordinal := if imm = 0 then 0 else sint (0xF0 OR imm)\<rparr>) st
     else if opcode = 0x40 then
       Continue (p + 1 + of_nat (length (mem_str (p_mem st) (p + 1))) + 1)
         (b\<lparr>bs_sym_flags := imm, bs_sym_name := Some (p + 1)\<rparr>) st
     else if opcode = 0x50 then Continue (p + 1) b st
     else if opcode = 0x60 then
       (let (w, q) = read_sleb128 (p_mem st) fin (p + 1) 0 0 0 in Continue q (b\<lparr>bs_addend := w\<rparr>) st)
     else if opcode = 0x70 then Continue q (b\<lparr>bs_seg_index := unat imm, bs_seg_offset := v\<rparr>) st
     else if opcode = 0x80 then Continue q (advance v b) st
     else if opcode = 0x90 then Continue (p + 1) (advance 8 b) (bind_here env b st)
     else if opcode = 0xA0 then
       (let st = bind_here env b st; (v, q) = read_uleb128 (p_mem st) fin (p + 1) 0 0
        in Continue q (advance (v + 8) b) st)
     else if opcode = 0xB0 then Continue (p + 1) (advance (ucast imm * 8 + 8) b) (bind_here env b st)
     else if opcode = 0xC0 then
       (let (skip, q') = read_uleb128 (p_mem st) fin q 0 0; (b, st) = bind_times env (unat v) (skip + 8) b st
        in Continue q' b st)
     else Halt False st)"

text \<open>The name of a symbol may run over the end of the stream, so the loop can in principle go on for ever.\<close>

partial_function (option) bind_stream ::
  "res_env \<Rightarrow> bool \<Rightarrow> u64 \<Rightarrow> u64 \<Rightarrow> bind_state \<Rightarrow> resolver_state \<Rightarrow> (bool \<times> resolver_state) option" where
  [code]: "bind_stream env lazy fin p b st =
    (if \<not> p < fin then Some (True, st)
     else
       case bind_opcode env lazy fin p b st of
         Halt ok st \<Rightarrow> Some (ok, st)
       | Continue q b st \<Rightarrow> bind_stream env lazy fin q b st)"

section \<open>The streams of an image\<close>

fun bind_passes :: "res_env \<Rightarrow> (u32 \<times> u32 \<times> bool) list \<Rightarrow> resolver_state \<Rightarrow> (bool \<times> resolver_state) option" where
  "bind_passes env [] st = Some (True, st)"
| "bind_passes env ((off, sz, lazy) # passes) st =
    (if sz = 0 then bind_passes env passes st
     else
       let p = resolver_fileoff_to_mem st off in
       if p = 0 then Some (False, st)
       else
         case bind_stream env lazy (p + ucast sz) p bind_start st of
           None \<Rightarrow> None
         | Some (ok, st) \<Rightarrow> if ok then bind_passes env passes st else Some (False, st))"

definition protect_segments :: "(seg_info \<Rightarrow> u32) \<Rightarrow> resolver_state \<Rightarrow> resolver_state" where
  "protect_segments prot st =
     fold (\<lambda>si st. if si_vmsize si = 0 then st else set_prot (si_vmaddr si + rs_slide st) (si_vmsize si) (prot si) st)
       (rs_segments st) st"

definition process_rebases :: "resolver_state \<Rightarrow> bool \<times> resolver_state" where
  "process_rebases st =
    (if rs_rebase_size st = 0 then (True, st)
     else
       let p = resolver_fileoff_to_mem st (rs_rebase_off st) in
       if p = 0 then (False, st) else rebase_stream (p + ucast (rs_rebase_size st)) p 0 0 st)"

definition process_dyld_info :: "res_env \<Rightarrow> resolver_state \<Rightarrow> (bool \<times> resolver_state) option" where
  "process_dyld_info env st =
    (let st = protect_segments (\<lambda>_. 7) st; (ok, st) = process_rebases st in
     if \<not> ok then Some (False, st)
     else
       map_option (\<lambda>(ok, st). (ok, if ok then protect_segments si_prot st else st))
         (bind_passes env [(rs_bind_off st, rs_bind_size st, False), (rs_weak_bind_off st, rs_weak_bind_size st, False),
           (rs_lazy_bind_off st, rs_lazy_bind_size st, True)] st))"

end
