(* ===== verification/Resolver.thy ===== *)
theory Resolver
  imports Dyld_Info
begin

text \<open>
  The run of \<^verbatim>\<open>src/src/resolver.c\<close> on one image: the load commands, the mapping file, the libraries, the fixups.
\<close>

section \<open>Load commands\<close>

definition LC_LOAD_DYLIB :: u32 where "LC_LOAD_DYLIB = 0xc"
definition LC_LOAD_WEAK_DYLIB :: u32 where "LC_LOAD_WEAK_DYLIB = 0x80000018"
definition LC_REEXPORT_DYLIB :: u32 where "LC_REEXPORT_DYLIB = 0x8000001f"
definition LC_DYLD_CHAINED_FIXUPS :: u32 where "LC_DYLD_CHAINED_FIXUPS = 0x80000034"
definition LC_DYLD_INFO :: u32 where "LC_DYLD_INFO = 0x22"
definition LC_DYLD_INFO_ONLY :: u32 where "LC_DYLD_INFO_ONLY = 0x80000022"

definition seg_info_of :: "segment_command_64 \<Rightarrow> seg_info" where
  "seg_info_of seg = \<lparr>si_vmaddr = seg_vmaddr seg, si_vmsize = seg_vmsize seg, si_fileoff = seg_fileoff seg,
     si_filesize = seg_filesize seg, si_prot = seg_initprot seg\<rparr>"

definition parse_command :: "u64 \<Rightarrow> resolver_state \<Rightarrow> resolver_state" where
  "parse_command a st =
    (let m = p_mem st; cmd = lc_cmd (read_command m a) in
     if cmd = LC_LOAD_DYLIB \<or> cmd = LC_LOAD_WEAK_DYLIB \<or> cmd = LC_REEXPORT_DYLIB then
       let name = mem_str m (a + ucast (load32 m (a + 8))); ordinal = rs_ndylibs st + 1;
           st = st\<lparr>rs_ndylibs := ordinal\<rparr>
       in if ordinal \<le> MAX_DYLIBS
          then st\<lparr>rs_dylibs := rs_dylibs st @ [\<lparr>de_ordinal = ordinal, de_name = take 255 (basename_from_path name),
                 de_action = DYLIB_SKIP, de_so_path = [], de_handle = 0, de_macho_info = None\<rparr>]\<rparr>
          else st
     else if cmd = LC_SEGMENT_64 then
       let seg = read_segment m a;
           st = (if mem_str m (seg_segname seg) = ''__LINKEDIT''
                 then st\<lparr>rs_linkedit := (seg_info_of seg)\<lparr>si_prot := si_prot (rs_linkedit st)\<rparr>\<rparr> else st)
       in if length (rs_segments st) < 16 then st\<lparr>rs_segments := rs_segments st @ [seg_info_of seg]\<rparr> else st
     else if cmd = LC_DYLD_CHAINED_FIXUPS then
       st\<lparr>rs_fixups_dataoff := load32 m (a + 8), rs_fixups_datasize := load32 m (a + 12), rs_has_chained_fixups := True\<rparr>
     else if cmd = LC_DYLD_INFO \<or> cmd = LC_DYLD_INFO_ONLY then
       st\<lparr>rs_rebase_off := load32 m (a + 8), rs_rebase_size := load32 m (a + 12),
          rs_bind_off := load32 m (a + 16), rs_bind_size := load32 m (a + 20),
          rs_weak_bind_off := load32 m (a + 24), rs_weak_bind_size := load32 m (a + 28),
          rs_lazy_bind_off := load32 m (a + 32), rs_lazy_bind_size := load32 m (a + 36), rs_has_dyld_info := True\<rparr>
     else st)"

definition parse_load_commands :: "resolver_state \<Rightarrow> resolver_state" where
  "parse_load_commands st = fold parse_command (load_commands (p_mem st) (rs_mh st)) st"

section \<open>The mapping file\<close>

definition blank :: "char \<Rightarrow> bool" where
  "blank c \<longleftrightarrow> c = CHR '' '' \<or> c = CHR 0x09"

text \<open>Trailing blanks go, but never the first character.\<close>

definition trim_end :: "cstr \<Rightarrow> cstr" where
  "trim_end s = (case s of [] \<Rightarrow> [] | c # t \<Rightarrow> c # rev (dropWhile blank (rev t)))"

definition parse_mapping :: "cstr \<Rightarrow> (cstr \<times> cstr) option" where
  "parse_mapping line =
    (let line = takeWhile (\<lambda>c. c \<noteq> CHR 0x0A) line; p = dropWhile blank line in
     if at0 p 0 = CHR ''#'' \<or> p = [] then None
     else
       case split_at CHR ''='' p of
         None \<Rightarrow> None
       | Some (key, val) \<Rightarrow>
           Some (take 255 (trim_end (dropWhile blank key)), take 255 (trim_end (dropWhile blank val))))"

fun parse_mappings :: "cstr list \<Rightarrow> (cstr \<times> cstr) list \<Rightarrow> (cstr \<times> cstr) list" where
  "parse_mappings [] ms = ms"
| "parse_mappings (l # ls) ms =
    (if length ms \<ge> MAX_MAPPINGS then ms
     else parse_mappings ls (case parse_mapping l of None \<Rightarrow> ms | Some m \<Rightarrow> ms @ [m]))"

definition load_mapping_config :: "res_env \<Rightarrow> cstr option \<Rightarrow> resolver_state \<Rightarrow> resolver_state" where
  "load_mapping_config env path st =
    (case re_map_file env (case path of None \<Rightarrow> ''dylib_map.conf'' | Some p \<Rightarrow> p) of
       None \<Rightarrow> st
     | Some content \<Rightarrow> st\<lparr>rs_mappings := parse_mappings (fgets_lines 510 content) (rs_mappings st)\<rparr>)"

definition find_mapping :: "resolver_state \<Rightarrow> cstr \<Rightarrow> cstr option" where
  "find_mapping st dylib_name = map_option snd (List.find (\<lambda>(pattern, path). strstr dylib_name pattern) (rs_mappings st))"

section \<open>Libraries\<close>

definition open_dylib :: "res_env \<Rightarrow> dylib_entry \<Rightarrow> resolver_state \<Rightarrow> dylib_entry \<times> resolver_state" where
  "open_dylib env de st =
    (case find_mapping st (de_name de) of
       None \<Rightarrow> (de\<lparr>de_action := DYLIB_SKIP\<rparr>, st)
     | Some so_path \<Rightarrow>
         if so_path = ''STUB'' then (de\<lparr>de_action := DYLIB_STUB\<rparr>, st)
         else if so_path = ''SKIP'' then (de\<lparr>de_action := DYLIB_SKIP\<rparr>, st)
         else if starts_with ''MACHO:'' so_path then
           let macho_path = drop 6 so_path;
               (mdi, st) = (case dylib_loader_find st macho_path of
                              Some i \<Rightarrow> (Some i, st)
                            | None \<Rightarrow> dylib_loader_load env (re_junk env) macho_path st)
           in (case mdi of
                 Some i \<Rightarrow> (de\<lparr>de_macho_info := Some i, de_action := DYLIB_MACHO, de_so_path := take 255 macho_path\<rparr>, st)
               | None \<Rightarrow> (de\<lparr>de_action := DYLIB_SKIP\<rparr>, st))
         else if starts_with ''DEFERRED:'' so_path then
           (de\<lparr>de_action := DYLIB_DEFERRED, de_so_path := take 255 (drop 9 so_path)\<rparr>, st\<lparr>g_deferred_active := True\<rparr>)
         else
           let handle = re_dlopen env (r_opened st) so_path; st = st\<lparr>r_opened := r_opened st @ [so_path]\<rparr> in
           if handle = 0 then (de\<lparr>de_handle := 0, de_action := DYLIB_SKIP\<rparr>, st)
           else (de\<lparr>de_handle := handle, de_so_path := take 255 so_path, de_action := DYLIB_MAP\<rparr>, st))"

fun open_entries :: "res_env \<Rightarrow> dylib_entry list \<Rightarrow> resolver_state \<Rightarrow> dylib_entry list \<times> resolver_state" where
  "open_entries env [] st = ([], st)"
| "open_entries env (de # des) st =
    (let (de, st) = open_dylib env de st; (des, st) = open_entries env des st in (de # des, st))"

definition open_dylibs :: "res_env \<Rightarrow> resolver_state \<Rightarrow> resolver_state" where
  "open_dylibs env st = (let (des, st) = open_entries env (rs_dylibs st) st in st\<lparr>rs_dylibs := des\<rparr>)"

definition find_shim_malloc :: "res_env \<Rightarrow> resolver_state \<Rightarrow> resolver_state" where
  "find_shim_malloc env st =
    (if shim_malloc_fn st \<noteq> 0 then st
     else
       case List.find (\<lambda>de. de_action de = DYLIB_MAP \<and> strstr (de_name de) ''libSystem'') (rs_dylibs st) of
         None \<Rightarrow> st
       | Some de \<Rightarrow> st\<lparr>shim_malloc_fn := dlsym env st (de_handle de) ''malloc'', shim_free_fn := dlsym env st (de_handle de) ''free''\<rparr>)"

section \<open>Fixups of an image\<close>

definition zero_seg :: seg_info where
  "zero_seg = \<lparr>si_vmaddr = 0, si_vmsize = 0, si_fileoff = 0, si_filesize = 0, si_prot = 0\<rparr>"

definition start_run :: "u64 \<Rightarrow> u64 \<Rightarrow> resolver_globals \<Rightarrow> resolver_state" where
  "start_run mh slide g =
     resolver_globals.extend g
       (resolver_state.fields mh slide [] 0 zero_seg [] 0 0 False False 0 0 0 0 0 0 0 0 [] 0 0 0 0)"

definition run_fixups :: "res_env \<Rightarrow> resolver_state \<Rightarrow> (bool \<times> resolver_state) option" where
  "run_fixups env st = (if rs_has_chained_fixups st then process_chained_fixups env st else process_dyld_info env st)"

definition save_deferred :: "resolver_state \<Rightarrow> resolver_state" where
  "save_deferred st =
    (if g_deferred_active st \<and> \<not> g_deferred_resolved st
     then st\<lparr>g_deferred_dylibs := rs_dylibs st, g_deferred_ndylibs := rs_ndylibs st\<rparr> else st)"

definition resolver_resolve_fixups ::
  "res_env \<Rightarrow> u64 \<Rightarrow> u64 \<Rightarrow> cstr option \<Rightarrow> resolver_globals \<Rightarrow> (bool \<times> resolver_state) option" where
  "resolver_resolve_fixups env mh slide conf_path g =
    (let st = parse_load_commands (start_run mh slide g) in
     if \<not> rs_has_chained_fixups st \<and> \<not> rs_has_dyld_info st then Some (True, st)
     else
       let st = open_dylibs env (load_mapping_config env conf_path st);
           st = st\<lparr>r_opened := r_opened st @ [''libgcc_s.so.1'']\<rparr>;
           st = find_shim_malloc env st
       in case run_fixups env st of
            None \<Rightarrow> None
          | Some (ok, st) \<Rightarrow>
              if \<not> ok then Some (False, st)
              else Some (\<not> (binds_failed st > 0 \<and> re_strict env), save_deferred st))"

end
