(* ===== verification/Resolver_Frame.thy ===== *)
theory Resolver_Frame
  imports Resolver
begin

text \<open>
  What resolving a bind may change: the pools of the resolver, which are memory fresh from \<^verbatim>\<open>mmap\<close>, and its
  counters. The area \<open>F\<close> stands for the addresses the kernel gives out.
\<close>

section \<open>Pools\<close>

definition env_ok :: "(u64 \<Rightarrow> bool) \<Rightarrow> res_env \<Rightarrow> bool" where
  "env_ok F env \<longleftrightarrow> 0 < os_page_size env \<and> os_page_size env < 2 ^ 32 \<and>
     (\<forall>k h n. os_mmap env k h n \<noteq> 0 \<longrightarrow>
        (\<forall>b. in_range b (os_mmap env k h n) (round_up (os_page_size env) (unat n)) \<longrightarrow> F b))"

text \<open>A pool of \<open>cap\<close> bytes at \<open>a\<close>, of which the first \<open>used\<close> are given out; 0 before it is mapped.\<close>

definition area :: "(u64 \<Rightarrow> bool) \<Rightarrow> u64 \<Rightarrow> u64 \<Rightarrow> u64 \<Rightarrow> bool" where
  "area F a cap used \<longleftrightarrow> (a = 0 \<longrightarrow> used = 0) \<and>
     (a \<noteq> 0 \<longrightarrow> used \<le> cap \<and> unat cap < 2 ^ 63 \<and> (\<forall>b. in_range b a (unat cap) \<longrightarrow> F b))"

definition pools_inv :: "(u64 \<Rightarrow> bool) \<Rightarrow> 'a resolver_globals_scheme \<Rightarrow> bool" where
  "pools_inv F st \<longleftrightarrow>
     area F (ctor_tramp_pool st) (ctor_tramp_capacity st) (ctor_tramp_used st) \<and>
     area F (variadic_pool st) (variadic_pool_capacity st) (variadic_pool_used st) \<and>
     area F (stub_pool st) stub_cap (stub_used st) \<and>
     area F (weak_pool st) (weak_pool_capacity st) (weak_pool_used st)"

lemma area_take:
  assumes "area F a cap used" "a \<noteq> 0" "\<not> used + n > cap" "unat n < 2 ^ 32"
  shows "area F a cap (used + n)" "\<And>b. in_range b (a + used) (unat n) \<Longrightarrow> F b"
proof -
  have ar: "unat used \<le> unat cap" "unat cap < 2 ^ 63" "\<And>b. in_range b a (unat cap) \<Longrightarrow> F b"
    using assms(1,2) by (simp_all add: area_def word_le_nat_alt)
  have sum: "unat (used + n) = unat used + unat n"
    using ar(1,2) assms(4) by (simp add: unat_word_ariths)
  with assms(3) have le: "unat used + unat n \<le> unat cap" by (simp add: word_less_nat_alt)
  show "area F a cap (used + n)"
    using assms(2) ar(2,3) sum le by (simp add: area_def word_le_nat_alt)
  show "F b" if "in_range b (a + used) (unat n)" for b
  proof (rule ar(3), rule in_range_sub)
    show "in_range b (a + of_nat (unat used)) (unat n)" using that by simp
  qed (use le ar(2) in simp_all)
qed

lemma area_mapped:
  assumes "env_ok F env" "unat cap < 2 ^ 63"
  shows "area F (os_mmap env k h cap) cap 0"
proof -
  have "unat cap \<le> round_up (os_page_size env) (unat cap)" using assms(1) by (simp add: env_ok_def round_up_ge)
  then show ?thesis using assms by (auto simp: area_def env_ok_def dest: in_range_mono)
qed

section \<open>Frames\<close>

definition frame :: "(u64 \<Rightarrow> bool) \<Rightarrow> resolver_state \<Rightarrow> resolver_state \<Rightarrow> bool" where
  "frame F st st' \<longleftrightarrow> pools_inv F st' \<and> same_outside F (p_mem st) (p_mem st') \<and>
     rs_mh st' = rs_mh st \<and> rs_slide st' = rs_slide st \<and> rs_segments st' = rs_segments st \<and>
     rs_dylibs st' = rs_dylibs st \<and> rs_ndylibs st' = rs_ndylibs st \<and> g_macho_dylibs st' = g_macho_dylibs st \<and>
     r_opened st' = r_opened st \<and> rebases_applied st' = rebases_applied st"

lemma frame_refl [intro]: "pools_inv F st \<Longrightarrow> frame F st st"
  by (simp add: frame_def)

lemma frame_trans [trans]: "frame F st st' \<Longrightarrow> frame F st' st'' \<Longrightarrow> frame F st st''"
  by (auto simp: frame_def same_outside_def)

lemma frame_inv: "frame F st st' \<Longrightarrow> pools_inv F st'"
  by (simp add: frame_def)

lemma frame_count [simp]:
  "frame F st (count_resolved st') = frame F st st'" "frame F st (count_stubbed st') = frame F st st'"
  "frame F st (count_failed st') = frame F st st'" "frame F st (count_missing weak st') = frame F st st'"
  "frame F (count_resolved st) st' = frame F st st'" "frame F (count_stubbed st) st' = frame F st st'"
  "frame F (count_failed st) st' = frame F st st'" "frame F (count_missing weak st) st' = frame F st st'"
  by (simp_all add: frame_def pools_inv_def count_resolved_def count_stubbed_def count_failed_def count_missing_def)

lemma pools_inv_count [simp]:
  "pools_inv F (count_resolved st) = pools_inv F st" "pools_inv F (count_stubbed st) = pools_inv F st"
  "pools_inv F (count_failed st) = pools_inv F st" "pools_inv F (count_missing weak st) = pools_inv F st"
  by (simp_all add: pools_inv_def count_resolved_def count_stubbed_def count_failed_def count_missing_def)

lemma same_outside_store_words:
  assumes "4 * length ws < 2 ^ 64"
  shows "same_outside (\<lambda>b. in_range b a (4 * length ws)) m (store_words m a ws)"
  using assms
proof (induction ws arbitrary: a m)
  case Nil
  then show ?case by simp
next
  case (Cons w ws)
  have "same_outside (\<lambda>b. in_range b (a + 4) (4 * length ws)) (store32 m a w) (store_words m a (w # ws))"
    using Cons by simp
  with same_outside_store32 [of a m w]
  have "same_outside (\<lambda>b. in_range b a 4 \<or> in_range b (a + 4) (4 * length ws)) m (store_words m a (w # ws))"
    by (rule same_outside_trans)
  then show ?case
  proof (rule same_outside_mono)
    fix b assume "in_range b a 4 \<or> in_range b (a + 4) (4 * length ws)"
    then show "in_range b a (4 * length (w # ws))"
      using in_range_sub [of b a 4 "4 * length ws" "4 * length (w # ws)"] Cons.prems by (auto elim: in_range_mono)
  qed
qed

text \<open>Code followed by its target address.\<close>

lemma same_outside_code:
  assumes "\<And>b. in_range b a (4 * length ws + 8) \<Longrightarrow> F b" "4 * length ws + 8 < 2 ^ 32" "off = of_nat (4 * length ws)"
  shows "same_outside F m (store (store_words m a ws) (a + off) 8 v)"
proof -
  have "same_outside (\<lambda>b. in_range b a (4 * length ws) \<or> in_range b (a + off) 8) m (store (store_words m a ws) (a + off) 8 v)"
    by (rule same_outside_trans [OF same_outside_store_words same_outside_store]) (use assms(2) in simp_all)
  then show ?thesis
  proof (rule same_outside_mono)
    fix b assume "in_range b a (4 * length ws) \<or> in_range b (a + off) 8"
    then have "in_range b a (4 * length ws + 8)"
      using in_range_sub [of b a "4 * length ws" 8 "4 * length ws + 8"] assms(2,3) by (auto elim: in_range_mono)
    then show "F b" by (rule assms(1))
  qed
qed

section \<open>The allocators\<close>

lemma mmap_any_frame:
  assumes "env_ok F env" "mmap_any env h n st = (a, st')"
  shows "a = os_mmap env (p_mmaps st) h n"
    and "\<exists>m'. st' = st\<lparr>p_mmaps := p_mmaps st + 1, p_mem := m'\<rparr> \<and> same_outside F (p_mem st) m'"
proof -
  show a: "a = os_mmap env (p_mmaps st) h n" using assms(2) by (auto simp: mmap_any_def Let_def split: if_splits)
  show "\<exists>m'. st' = st\<lparr>p_mmaps := p_mmaps st + 1, p_mem := m'\<rparr> \<and> same_outside F (p_mem st) m'"
  proof (cases "a = 0")
    case True
    with assms(2) have "st' = st\<lparr>p_mmaps := p_mmaps st + 1, p_mem := p_mem st\<rparr>"
      by (auto simp: mmap_any_def Let_def split: if_splits)
    then show ?thesis by blast
  next
    case False
    let ?m = "map_anon (os_page_size env) a (unat n) (p_mem st)"
    have "st' = st\<lparr>p_mmaps := p_mmaps st + 1, p_mem := ?m\<rparr>"
      using assms(2) False by (auto simp: mmap_any_def Let_def split: if_splits)
    moreover have "same_outside F (p_mem st) ?m"
      by (rule same_outside_mono [OF same_outside_map_anon]) (use assms(1) False in \<open>auto simp: env_ok_def a\<close>)
    ultimately show ?thesis by blast
  qed
qed

lemma map_ctor_pool_frame:
  assumes "env_ok F env" "pools_inv F st"
  shows "frame F st (map_ctor_pool env st)"
proof (cases "ctor_tramp_pool st = 0")
  case True
  obtain a st' where mm: "mmap_any env 0 (of_nat (os_page_size env) * 4) st = (a, st')" by fastforce
  from mmap_any_frame [OF assms(1) mm] obtain m' where
    "a = os_mmap env (p_mmaps st) 0 (of_nat (os_page_size env) * 4)" "st' = st\<lparr>p_mmaps := p_mmaps st + 1, p_mem := m'\<rparr>" "same_outside F (p_mem st) m'"
    by auto
  moreover have "area F (os_mmap env (p_mmaps st) 0 (of_nat (os_page_size env) * 4)) (of_nat (os_page_size env) * 4) 0"
    by (rule area_mapped [OF assms(1)]) (use assms(1) in \<open>simp add: env_ok_def unat_word_ariths unat_of_nat\<close>)
  ultimately show ?thesis
    using assms(2) True by (simp add: map_ctor_pool_def mm frame_def pools_inv_def area_def Let_def)
qed (simp add: map_ctor_pool_def frame_refl assms(2))

lemma map_variadic_pool_frame:
  assumes "env_ok F env" "pools_inv F st"
  shows "frame F st (map_variadic_pool env st)"
proof (cases "variadic_pool st = 0")
  case True
  obtain a st' where mm: "mmap_any env 0 (of_nat (os_page_size env) * 2) st = (a, st')" by fastforce
  from mmap_any_frame [OF assms(1) mm] obtain m' where
    "a = os_mmap env (p_mmaps st) 0 (of_nat (os_page_size env) * 2)" "st' = st\<lparr>p_mmaps := p_mmaps st + 1, p_mem := m'\<rparr>" "same_outside F (p_mem st) m'"
    by auto
  moreover have "area F (os_mmap env (p_mmaps st) 0 (of_nat (os_page_size env) * 2)) (of_nat (os_page_size env) * 2) 0"
    by (rule area_mapped [OF assms(1)]) (use assms(1) in \<open>simp add: env_ok_def unat_word_ariths unat_of_nat\<close>)
  ultimately show ?thesis
    using assms(2) True by (simp add: map_variadic_pool_def mm frame_def pools_inv_def area_def Let_def)
qed (simp add: map_variadic_pool_def frame_refl assms(2))

lemma map_stub_pool_frame:
  assumes "env_ok F env" "pools_inv F st"
  shows "frame F st (map_stub_pool env st)"
proof (cases "stub_pool st = 0")
  case True
  obtain a st' where mm: "mmap_any env 0 stub_cap st = (a, st')" by fastforce
  from mmap_any_frame [OF assms(1) mm] obtain m' where
    "a = os_mmap env (p_mmaps st) 0 stub_cap" "st' = st\<lparr>p_mmaps := p_mmaps st + 1, p_mem := m'\<rparr>" "same_outside F (p_mem st) m'"
    by auto
  moreover have "area F (os_mmap env (p_mmaps st) 0 stub_cap) stub_cap 0"
    by (rule area_mapped [OF assms(1)]) (simp add: stub_cap_def)
  ultimately show ?thesis
    using assms(2) True by (simp add: map_stub_pool_def mm frame_def pools_inv_def area_def Let_def)
qed (simp add: map_stub_pool_def frame_refl assms(2))

lemma map_weak_pool_frame:
  assumes "env_ok F env" "pools_inv F st"
  shows "frame F st (map_weak_pool env st)"
proof (cases "weak_pool st = 0")
  case True
  obtain a st' where mm: "mmap_any env 0 weak_cap st = (a, st')" by fastforce
  from mmap_any_frame [OF assms(1) mm] obtain m' where
    "a = os_mmap env (p_mmaps st) 0 weak_cap" "st' = st\<lparr>p_mmaps := p_mmaps st + 1, p_mem := m'\<rparr>" "same_outside F (p_mem st) m'"
    by auto
  moreover have "area F (os_mmap env (p_mmaps st) 0 weak_cap) weak_cap 0"
    by (rule area_mapped [OF assms(1)]) (simp add: weak_cap_def)
  ultimately show ?thesis
    using assms(2) True by (simp add: map_weak_pool_def mm frame_def pools_inv_def area_def Let_def)
qed (simp add: map_weak_pool_def frame_refl assms(2))

lemma area_code:
  assumes "area F a cap used" "a \<noteq> 0" "\<not> used + n > cap" "unat n = 4 * length ws + 8" "4 * length ws + 8 < 2 ^ 32"
    "off = of_nat (4 * length ws)"
  shows "same_outside F m (store (store_words m (a + used) ws) (a + used + off) 8 v)"
  by (rule same_outside_code [OF _ assms(5,6)]) (use area_take(2) [OF assms(1,2,3)] assms(4,5) in simp)

lemma alloc_return0_frame:
  assumes "env_ok F env" "pools_inv F st"
  shows "frame F st (snd (alloc_return0_stub env st))"
proof -
  define st1 where "st1 = map_stub_pool env st"
  have 1: "frame F st st1" using map_stub_pool_frame [OF assms] by (simp add: st1_def)
  then have ar: "area F (stub_pool st1) stub_cap (stub_used st1)" by (simp add: frame_def pools_inv_def)
  have "frame F st1 (snd (alloc_return0_stub env st))"
  proof (cases "stub_pool st1 = 0 \<or> stub_used st1 + 128 > stub_cap")
    case True
    then have "snd (alloc_return0_stub env st) = st1" by (auto simp: alloc_return0_stub_def st1_def Let_def)
    with 1 show ?thesis by (simp add: frame_def)
  next
    case False
    have "same_outside F (p_mem st1) (store_words (p_mem st1) (stub_pool st1 + stub_used st1) return0_code)"
    proof (rule same_outside_mono [OF same_outside_store_words])
      fix b assume "in_range b (stub_pool st1 + stub_used st1) (4 * length return0_code)"
      then have "in_range b (stub_pool st1 + stub_used st1) (unat (128 :: u64))"
        by (rule in_range_mono) (simp add: return0_code_def)
      then show "F b" using area_take(2) [OF ar, of 128] False by simp
    qed (simp add: return0_code_def)
    then show ?thesis
      using False area_take(1) [OF ar, of 128] frame_inv [OF 1]
      by (simp add: alloc_return0_stub_def st1_def [symmetric] Let_def frame_def pools_inv_def)
  qed
  with 1 show ?thesis by (rule frame_trans)
qed

lemma wrap_ctor_frame:
  assumes "env_ok F env" "pools_inv F st"
  shows "frame F st (snd (wrap_ctor_for_apple_abi env real st))"
proof -
  define st1 where "st1 = map_ctor_pool env st"
  have 1: "frame F st st1" using map_ctor_pool_frame [OF assms] by (simp add: st1_def)
  then have ar: "area F (ctor_tramp_pool st1) (ctor_tramp_capacity st1) (ctor_tramp_used st1)" by (simp add: frame_def pools_inv_def)
  have "frame F st1 (snd (wrap_ctor_for_apple_abi env real st))"
  proof (cases "ctor_tramp_pool st1 = 0 \<or> ctor_tramp_used st1 + 32 > ctor_tramp_capacity st1")
    case True
    then have "snd (wrap_ctor_for_apple_abi env real st) = st1" by (auto simp: wrap_ctor_for_apple_abi_def st1_def Let_def)
    with 1 show ?thesis by (simp add: frame_def)
  next
    case False
    have "same_outside F (p_mem st1) (store (store_words (p_mem st1) (ctor_tramp_pool st1 + ctor_tramp_used st1) ctor_code)
        (ctor_tramp_pool st1 + ctor_tramp_used st1 + 24) 8 real)"
      by (rule area_code [OF ar, of 32]) (use False in \<open>simp_all add: ctor_code_def\<close>)
    then show ?thesis
      using False area_take(1) [OF ar, of 32] frame_inv [OF 1]
      by (simp add: wrap_ctor_for_apple_abi_def st1_def [symmetric] Let_def frame_def pools_inv_def)
  qed
  with 1 show ?thesis by (rule frame_trans)
qed

lemma length_variadic_code [simp]: "length (variadic_code vi) = 12"
  by (simp add: variadic_code_def)

lemma variadic_frame:
  assumes "env_ok F env" "pools_inv F st"
  shows "frame F st (snd (create_variadic_thunk env v_func vi st))"
proof -
  define st1 where "st1 = map_variadic_pool env st"
  have 1: "frame F st st1" using map_variadic_pool_frame [OF assms] by (simp add: st1_def)
  then have ar: "area F (variadic_pool st1) (variadic_pool_capacity st1) (variadic_pool_used st1)" by (simp add: frame_def pools_inv_def)
  have "frame F st1 (snd (create_variadic_thunk env v_func vi st))"
  proof (cases "variadic_pool st1 = 0 \<or> variadic_pool_used st1 + 56 > variadic_pool_capacity st1")
    case True
    then have "snd (create_variadic_thunk env v_func vi st) = st1" by (auto simp: create_variadic_thunk_def st1_def Let_def)
    with 1 show ?thesis by (simp add: frame_def)
  next
    case False
    have "same_outside F (p_mem st1) (store (store_words (p_mem st1) (variadic_pool st1 + variadic_pool_used st1) (variadic_code vi))
        (variadic_pool st1 + variadic_pool_used st1 + 48) 8 v_func)"
      by (rule area_code [OF ar, of 56]) (use False in simp_all)
    then show ?thesis
      using False area_take(1) [OF ar, of 56] frame_inv [OF 1]
      by (simp add: create_variadic_thunk_def st1_def [symmetric] Let_def frame_def pools_inv_def)
  qed
  with 1 show ?thesis by (rule frame_trans)
qed

lemma weak_slot_frame:
  assumes "env_ok F env" "pools_inv F st"
  shows "frame F st (snd (alloc_weak_slot env st))"
proof -
  define st1 where "st1 = map_weak_pool env st"
  have 1: "frame F st st1" using map_weak_pool_frame [OF assms] by (simp add: st1_def)
  then have ar: "area F (weak_pool st1) (weak_pool_capacity st1) (weak_pool_used st1)" by (simp add: frame_def pools_inv_def)
  have "frame F st1 (snd (alloc_weak_slot env st))"
  proof (cases "weak_pool st1 = 0 \<or> \<not> weak_pool_used st1 + 128 \<le> weak_pool_capacity st1")
    case True
    then have "snd (alloc_weak_slot env st) = st1" by (auto simp: alloc_weak_slot_def st1_def Let_def)
    with 1 show ?thesis by (simp add: frame_def)
  next
    case False
    then show ?thesis
      using area_take(1) [OF ar, of 128] frame_inv [OF 1]
      by (simp add: alloc_weak_slot_def st1_def [symmetric] Let_def frame_def pools_inv_def not_less)
  qed
  with 1 show ?thesis by (rule frame_trans)
qed

section \<open>Binds\<close>

text \<open>A step whose result state is in the frame can be followed by another one.\<close>

lemma frame_then:
  assumes "frame F st (snd r)" "\<And>v st'. frame F st st' \<Longrightarrow> frame F st (snd (f v st'))"
  shows "frame F st (snd (case r of (v, st') \<Rightarrow> f v st'))"
  using assms by (cases r) simp

lemma adapt_ctor_frame:
  assumes "env_ok F env" "frame F st0 st"
  shows "frame F st0 (snd (adapt_ctor env sym_name r st))"
  using frame_trans [OF assms(2) wrap_ctor_frame [OF assms(1) frame_inv [OF assms(2)]]] assms(2)
  by (simp add: adapt_ctor_def)

lemma adapt_variadic_frame:
  assumes "env_ok F env" "frame F st0 st"
  shows "frame F st0 (snd (adapt_variadic env lname r st))"
  using frame_trans [OF assms(2) variadic_frame [OF assms(1) frame_inv [OF assms(2)]]] assms(2)
  by (simp add: adapt_variadic_def Let_def case_prod_beta split: option.splits)

lemma hook_gl_frame:
  assumes "frame F st0 st"
  shows "frame F st0 (snd (hook_gl env lname r st))"
  using assms by (simp add: hook_gl_def frame_def pools_inv_def)

lemma stub_frame:
  assumes "env_ok F env" "frame F st0 st"
  shows "frame F st0 (snd (alloc_return0_stub env st))"
  using frame_trans [OF assms(2) alloc_return0_frame [OF assms(1) frame_inv [OF assms(2)]]] .

lemma weak_frame:
  assumes "env_ok F env" "frame F st0 st"
  shows "frame F st0 (snd (alloc_weak_slot env st))"
  using frame_trans [OF assms(2) weak_slot_frame [OF assms(1) frame_inv [OF assms(2)]]] .

lemmas frame_rules = adapt_ctor_frame adapt_variadic_frame hook_gl_frame stub_frame weak_frame

lemma resolve_in_dylib_frame:
  assumes "env_ok F env" "pools_inv F st"
  shows "frame F st (snd (resolve_in_dylib env lib_ordinal sym_name weak addend st))"
  using assms frame_refl [OF assms(2)]
  by (auto simp: resolve_in_dylib_def Let_def split: dylib_action.splits intro!: frame_then frame_rules)

lemma resolve_flat_frame:
  assumes "env_ok F env" "pools_inv F st"
  shows "frame F st (snd (resolve_flat env sym_name weak addend st))"
  using assms frame_refl [OF assms(2)]
  by (auto simp: resolve_flat_def Let_def intro!: frame_then frame_rules)

lemma resolve_symbol_frame:
  assumes "env_ok F env" "pools_inv F st"
  shows "frame F st (snd (resolve_symbol env lib_ordinal sym_name weak addend st))"
  using assms frame_refl [OF assms(2)] resolve_flat_frame [OF assms] resolve_in_dylib_frame [OF assms]
  by (auto simp: resolve_symbol_def Let_def split: option.splits intro!: frame_then frame_rules)

lemma resolve_import_frame:
  assumes "env_ok F env" "pools_inv F st"
  shows "frame F st (snd (resolve_import env chain_data ordinal addend st))"
  using assms frame_refl [OF assms(2)] resolve_symbol_frame [OF assms]
  by (simp add: resolve_import_def Let_def split: option.splits)

lemma resolve_bind_by_name_frame:
  assumes "env_ok F env" "pools_inv F st"
  shows "frame F st (snd (resolve_bind_by_name env lib_ordinal sym_name weak addend st))"
  using assms frame_refl [OF assms(2)] resolve_flat_frame [OF assms] resolve_in_dylib_frame [OF assms]
  by (auto simp: resolve_bind_by_name_def Let_def split: option.splits intro!: frame_then frame_rules)

end
