(* ===== verification/Fixups_Correct.thy ===== *)
theory Fixups_Correct
  imports Resolver_Frame
begin

text \<open>
  A well-formed chain is walked to its end: every slot is replaced, nothing else but the pools changes.
\<close>

section \<open>The fields of a slot\<close>

text \<open>The format of a 64-bit chained pointer, by arithmetic on its value: bit 63 tells a bind from a rebase, twelve bits
  from 51 on the distance to the next slot in units of four bytes; a rebase has a target of 36 bits and the high
  byte of the pointer in the eight bits above it, a bind the number of its import in 24 bits and a signed
  addend in the eight above.\<close>

definition ptr_bind :: "u64 \<Rightarrow> bool" where "ptr_bind raw \<longleftrightarrow> 2 ^ 63 \<le> unat raw"
definition ptr_next :: "u64 \<Rightarrow> nat" where "ptr_next raw = unat raw div 2 ^ 51 mod 2 ^ 12"
definition bind_ordinal :: "u64 \<Rightarrow> u32" where "bind_ordinal raw = of_nat (unat raw mod 2 ^ 24)"
definition bind_addend :: "u64 \<Rightarrow> u64" where "bind_addend raw = word_of_int (signed_take_bit 7 (uint raw div 2 ^ 24))"

definition rebased :: "bool \<Rightarrow> u64 \<Rightarrow> u64 \<Rightarrow> u64 \<Rightarrow> u64 \<Rightarrow> bool" where
  "rebased is_offset mh slide raw v \<longleftrightarrow>
    (let p = (unat raw mod 2 ^ 36 + unat (if is_offset then mh else slide)) mod 2 ^ 64
     in unat v = p mod 2 ^ 56 + 2 ^ 56 * (p div 2 ^ 56 OR unat raw div 2 ^ 36 mod 2 ^ 8))"

lemma and_field:
  fixes w :: "'a :: len word"
  assumes "m = mask n"
  shows "unat (w AND m) = unat w mod 2 ^ n"
  by (metis assms take_bit_eq_mask take_bit_eq_mod unsigned_take_bit_eq)

lemma unat_drop: "unat (drop_bit k (w :: u64)) = unat w div 2 ^ k"
  by (metis unat_drop_bit_eq drop_bit_eq_div)

lemma fixup_bind: "FIXUP_PTR_BIND raw \<longleftrightarrow> ptr_bind raw"
proof -
  have "unat (drop_bit 63 raw AND 1) = unat raw div 2 ^ 63 mod 2 ^ 1"
    by (subst and_field [where n = 1]) (simp_all add: unat_drop mask_eq_exp_minus_1)
  moreover have "unat raw < 2 ^ 64" using unsigned_less [of raw] by simp
  then have "unat raw div 2 ^ 63 < 2" by (simp add: less_mult_imp_div_less)
  ultimately have "unat (drop_bit 63 raw AND 1) = unat raw div 2 ^ 63" by simp
  then have "drop_bit 63 raw AND 1 \<noteq> 0 \<longleftrightarrow> unat raw div 2 ^ 63 \<noteq> 0" by (simp add: word_unat_eq_iff)
  also have "\<dots> \<longleftrightarrow> 2 ^ 63 \<le> unat raw" by (simp add: div_eq_0_iff not_less)
  finally show ?thesis by (simp add: FIXUP_PTR_BIND_def ptr_bind_def)
qed

lemma fixup_next: "FIXUP_PTR_NEXT raw = of_nat (ptr_next raw)" "FIXUP_PTR_NEXT raw = 0 \<longleftrightarrow> ptr_next raw = 0"
proof -
  have *: "unat (FIXUP_PTR_NEXT raw) = ptr_next raw"
    unfolding FIXUP_PTR_NEXT_def ptr_next_def by (subst and_field [where n = 12]) (simp_all add: unat_drop mask_eq_exp_minus_1)
  then show "FIXUP_PTR_NEXT raw = 0 \<longleftrightarrow> ptr_next raw = 0" by (simp add: word_unat_eq_iff)
  have "FIXUP_PTR_NEXT raw = of_nat (unat (FIXUP_PTR_NEXT raw))" by simp
  then show "FIXUP_PTR_NEXT raw = of_nat (ptr_next raw)" unfolding * .
qed

lemma fixup_ordinal: "ucast (FIXUP_BIND_ORDINAL raw) = bind_ordinal raw"
proof -
  have *: "unat (FIXUP_BIND_ORDINAL raw) = unat raw mod 2 ^ 24"
    unfolding FIXUP_BIND_ORDINAL_def by (rule and_field) (simp add: mask_eq_exp_minus_1)
  have "ucast (FIXUP_BIND_ORDINAL raw) = (of_nat (unat (FIXUP_BIND_ORDINAL raw)) :: u32)" by simp
  then show ?thesis unfolding * bind_ordinal_def .
qed

lemma fixup_addend: "scast (ucast (FIXUP_BIND_ADDEND raw) :: u8) = bind_addend raw"
proof -
  have "drop_bit 24 raw AND 0xFF = take_bit 8 (drop_bit 24 raw)" by (simp add: take_bit_eq_mask mask_eq_exp_minus_1)
  moreover have "take_bit 64 (uint raw) = uint (take_bit 64 raw)" by (rule unsigned_take_bit_eq [symmetric])
  then have "take_bit 64 (uint raw) = uint raw" by (simp add: take_bit_word_eq_self)
  ultimately have u: "uint (FIXUP_BIND_ADDEND raw) = take_bit 8 (drop_bit 24 (uint raw))"
    by (simp add: FIXUP_BIND_ADDEND_def unsigned_take_bit_eq unsigned_drop_bit_eq)
  have "sint (ucast (FIXUP_BIND_ADDEND raw) :: u8) = signed_take_bit 7 (uint (FIXUP_BIND_ADDEND raw))"
    by (simp add: signed_ucast_eq)
  also have "\<dots> = signed_take_bit 7 (drop_bit 24 (uint raw))" unfolding u by (simp add: signed_take_bit_take_bit)
  finally have "sint (ucast (FIXUP_BIND_ADDEND raw) :: u8) = signed_take_bit 7 (uint raw div 2 ^ 24)" by (simp add: drop_bit_eq_div)
  then show ?thesis unfolding bind_addend_def by (metis of_int_sint)
qed

lemma split_byte:
  fixes x h :: u64
  assumes "h < 256"
  shows "unat (x OR push_bit 56 h) = unat x mod 2 ^ 56 + 2 ^ 56 * (unat x div 2 ^ 56 OR unat h)"
proof -
  let ?v = "x OR push_bit 56 h"
  have h: "unat h < 256" using assms by (simp add: word_less_nat_alt)
  have "take_bit 56 ?v = take_bit 56 x" by (rule bit_eqI) (auto simp: bit_simps)
  then have "unat ?v mod 2 ^ 56 = unat x mod 2 ^ 56" by (metis unsigned_take_bit_eq take_bit_eq_mod)
  moreover have "take_bit 8 (unat h) = unat h" using h by (simp add: take_bit_nat_eq_self)
  then have h8: "take_bit 8 h = h" by (simp add: word_unat_eq_iff unsigned_take_bit_eq)
  have "drop_bit 56 ?v = drop_bit 56 x OR h"
  proof (rule bit_eqI)
    fix n
    have "bit h n \<longleftrightarrow> n < 8 \<and> bit h n" by (metis bit_take_bit_iff h8)
    then show "bit (drop_bit 56 ?v) n = bit (drop_bit 56 x OR h) n" by (cases "n < 8") (auto simp: bit_simps)
  qed
  then have "unat ?v div 2 ^ 56 = (unat x div 2 ^ 56 OR unat h)" by (metis unat_drop unsigned_or_eq)
  ultimately show ?thesis by (metis mod_mult_div_eq)
qed

lemma rebase_value_rebased: "rebased is_offset mh slide raw (rebase_value is_offset mh slide raw)"
proof -
  let ?b = "if is_offset then mh else slide" and ?t = "FIXUP_REBASE_TARGET raw" and ?h = "FIXUP_REBASE_HIGH8 raw"
  have t: "unat ?t = unat raw mod 2 ^ 36"
    unfolding FIXUP_REBASE_TARGET_def by (rule and_field) (simp add: mask_eq_exp_minus_1)
  have h: "unat ?h = unat raw div 2 ^ 36 mod 2 ^ 8"
    unfolding FIXUP_REBASE_HIGH8_def by (subst and_field [where n = 8]) (simp_all add: unat_drop mask_eq_exp_minus_1)
  then have "?h < 256" by (simp add: word_less_nat_alt)
  note v = split_byte [OF this, of "?t + ?b"]
  have p: "unat (?t + ?b) = (unat raw mod 2 ^ 36 + unat ?b) mod 2 ^ 64" by (simp only: unat_word_ariths t) simp
  have "rebase_value is_offset mh slide raw = (?t + ?b) OR push_bit 56 ?h" by (simp add: rebase_value_def add.commute)
  with v show ?thesis unfolding rebased_def Let_def p h by (simp only:)
qed

section \<open>Chains\<close>

text \<open>The slots of a chain in memory, in order.\<close>

fun chain :: "mem \<Rightarrow> u64 list \<Rightarrow> bool" where
  "chain m [] = False"
| "chain m [l] = (ptr_next (load m l 8) = 0)"
| "chain m (l # l' # ls) =
    (ptr_next (load m l 8) \<noteq> 0 \<and> l' = l + of_nat (4 * ptr_next (load m l 8)) \<and> chain m (l' # ls))"

definition slots_apart :: "(u64 \<Rightarrow> bool) \<Rightarrow> u64 list \<Rightarrow> bool" where
  "slots_apart F ls \<longleftrightarrow> sorted_wrt (\<lambda>a b. disj a 8 b 8) ls \<and> (\<forall>l\<in>set ls. \<forall>b. in_range b l 8 \<longrightarrow> \<not> F b)"

definition slot_bytes :: "u64 list \<Rightarrow> u64 \<Rightarrow> bool" where
  "slot_bytes ls b \<longleftrightarrow> (\<exists>l\<in>set ls. in_range b l 8)"

text \<open>Two states of a run in which the image is the same outside some bytes, with the same libraries.\<close>

definition same_image :: "(u64 \<Rightarrow> bool) \<Rightarrow> resolver_state \<Rightarrow> resolver_state \<Rightarrow> bool" where
  "same_image P st st' \<longleftrightarrow> same_outside P (p_mem st) (p_mem st') \<and>
     rs_mh st' = rs_mh st \<and> rs_slide st' = rs_slide st \<and> rs_segments st' = rs_segments st \<and>
     rs_dylibs st' = rs_dylibs st \<and> rs_ndylibs st' = rs_ndylibs st \<and> g_macho_dylibs st' = g_macho_dylibs st \<and>
     r_opened st' = r_opened st"

lemma same_image_refl [simp, intro]: "same_image P st st"
  by (simp add: same_image_def)

lemma same_image_trans:
  "same_image P st st' \<Longrightarrow> same_image Q st' st'' \<Longrightarrow> (\<And>b. P b \<Longrightarrow> R b) \<Longrightarrow> (\<And>b. Q b \<Longrightarrow> R b) \<Longrightarrow> same_image R st st''"
  by (simp add: same_image_def same_outside_def) metis

lemma frame_same_image: "frame F st st' \<Longrightarrow> same_image F st st'"
  by (simp add: frame_def same_image_def)

lemma store64_simps [simp]:
  "p_mem (store64 a v st) = store (p_mem st) a 8 v" "pools_inv F (store64 a v st) = pools_inv F st"
  by (simp_all add: store64_def pools_inv_def)

lemma same_image_store64: "same_image (\<lambda>b. in_range b a 8) st (store64 a v st)"
  using same_outside_store [of 8 a "p_mem st" v] by (simp add: same_image_def store64_def)

text \<open>What a slot holds afterwards: for a rebase the new pointer, for a bind the answer of the import resolution
  in some state of the run.\<close>

definition slot_fixed ::
  "res_env \<Rightarrow> bool \<Rightarrow> u64 \<Rightarrow> (u64 \<Rightarrow> bool) \<Rightarrow> resolver_state \<Rightarrow> u64 \<Rightarrow> u64 \<Rightarrow> bool" where
  "slot_fixed env is_offset chain_data P st raw v \<longleftrightarrow>
    (if ptr_bind raw
     then \<exists>st1. same_image P st st1 \<and> v = fst (resolve_import env chain_data (bind_ordinal raw) (bind_addend raw) st1)
     else rebased is_offset (rs_mh st) (rs_slide st) raw v)"

lemma fixup_slot_effect:
  fixes loc chain_data :: u64 and is_offset :: bool
  assumes "env_ok F env" "pools_inv F st"
  defines "raw \<equiv> load (p_mem st) loc 8" and "st' \<equiv> fixup_slot env is_offset chain_data loc st"
  shows "pools_inv F st'" "same_image (\<lambda>b. F b \<or> in_range b loc 8) st st'"
    "slot_fixed env is_offset chain_data P st raw (load (p_mem st') loc 8)"
    "rebases_applied st' = rebases_applied st + (if ptr_bind raw then 0 else 1)"
proof -
  obtain v st1 where r: "resolve_import env chain_data (bind_ordinal raw) (bind_addend raw) st = (v, st1)" by fastforce
  have f: "frame F st st1" using resolve_import_frame [OF assms(1,2)] r by (metis snd_conv)
  have "st' = (if ptr_bind raw then store64 loc v st1
      else (store64 loc (rebase_value is_offset (rs_mh st) (rs_slide st) raw) st)\<lparr>rebases_applied := rebases_applied st + 1\<rparr>)"
    using r by (simp add: st'_def fixup_slot_def raw_def [symmetric] fixup_bind fixup_ordinal fixup_addend Let_def)
  moreover have "same_image (\<lambda>b. F b \<or> in_range b loc 8) st (store64 loc v st1)"
    by (rule same_image_trans [OF frame_same_image [OF f] same_image_store64]) auto
  moreover have "same_image (\<lambda>b. F b \<or> in_range b loc 8) st (store64 loc w st)" for w
    by (rule same_image_trans [OF same_image_refl same_image_store64]) auto
  ultimately show "pools_inv F st'" "same_image (\<lambda>b. F b \<or> in_range b loc 8) st st'"
    "slot_fixed env is_offset chain_data P st raw (load (p_mem st') loc 8)"
    "rebases_applied st' = rebases_applied st + (if ptr_bind raw then 0 else 1)"
    using f assms(2) r frame_inv [OF f]
    by (auto simp: slot_fixed_def rebase_value_rebased same_image_def pools_inv_def frame_def store64_def load_store_same)
qed

lemma slot_fixed_mono:
  assumes "slot_fixed env is_offset chain_data P st1 raw v" "same_image Q st st1" "\<And>b. P b \<Longrightarrow> R b" "\<And>b. Q b \<Longrightarrow> R b"
  shows "slot_fixed env is_offset chain_data R st raw v"
proof -
  have "same_image R st st2" if "same_image P st1 st2" for st2
    by (rule same_image_trans [OF assms(2) that assms(4,3)])
  moreover have "rs_mh st1 = rs_mh st" "rs_slide st1 = rs_slide st" using assms(2) by (simp_all add: same_image_def)
  ultimately show ?thesis using assms(1) by (auto simp: slot_fixed_def split: if_splits)
qed

lemma chain_cong:
  "(\<And>l. l \<in> set ls \<Longrightarrow> load m' l 8 = load m l 8) \<Longrightarrow> chain m' ls = chain m ls"
  by (induction m ls rule: chain.induct) auto

lemma slots_apart_Cons:
  "slots_apart F (l # ls) \<longleftrightarrow> (\<forall>l'\<in>set ls. disj l 8 l' 8) \<and> (\<forall>b. in_range b l 8 \<longrightarrow> \<not> F b) \<and> slots_apart F ls"
  by (auto simp: slots_apart_def)

lemma walk_slots_chain:
  assumes "env_ok F env" "pools_inv F st" "chain (p_mem st) ls" "slots_apart F ls"
  shows "\<exists>st'. walk_slots env is_offset chain_data (hd ls) st = Some st' \<and> pools_inv F st' \<and>
    same_image (\<lambda>b. F b \<or> slot_bytes ls b) st st' \<and>
    (\<forall>l\<in>set ls. slot_fixed env is_offset chain_data (\<lambda>b. F b \<or> slot_bytes ls b) st (load (p_mem st) l 8) (load (p_mem st') l 8)) \<and>
    rebases_applied st' = rebases_applied st + length (filter (\<lambda>l. \<not> ptr_bind (load (p_mem st) l 8)) ls)"
  using assms(2-4)
proof (induction ls arbitrary: st)
  case Nil
  then show ?case by simp
next
  case (Cons l ls)
  define st1 where "st1 = fixup_slot env is_offset chain_data l st"
  note eff = fixup_slot_effect [OF assms(1) Cons.prems(1), where loc = l and chain_data = chain_data and is_offset = is_offset, folded st1_def]
  have out: "load (p_mem st1) l' 8 = load (p_mem st) l' 8" if "l' \<in> set ls" for l'
  proof (rule same_outside_load)
    show "same_outside (\<lambda>b. F b \<or> in_range b l 8) (p_mem st) (p_mem st1)" using eff(2) by (simp add: same_image_def)
    show "\<not> (F b \<or> in_range b l 8)" if "in_range b l' 8" for b
      using Cons.prems(3) \<open>l' \<in> set ls\<close> that disj_ranges [of l 8 l' 8 b] by (auto simp: slots_apart_def)
  qed simp
  have walk: "walk_slots env is_offset chain_data l st =
    (if ptr_next (load (p_mem st) l 8) = 0 then Some st1
     else walk_slots env is_offset chain_data (l + of_nat (4 * ptr_next (load (p_mem st) l 8))) st1)"
    by (subst walk_slots.simps) (simp add: Let_def st1_def fixup_next(2), simp add: fixup_next(1) mult.commute)
  show ?case
  proof (cases "ls = []")
    case True
    with Cons.prems(2) walk have "walk_slots env is_offset chain_data l st = Some st1" by simp
    with True eff show ?thesis by (simp add: slot_bytes_def)
  next
    case False
    then obtain l' ls' where ls: "ls = l' # ls'" by (cases ls) auto
    have nx: "ptr_next (load (p_mem st) l 8) \<noteq> 0" "hd ls = l + of_nat (4 * ptr_next (load (p_mem st) l 8))"
      and "chain (p_mem st) ls" using Cons.prems(2) ls by auto
    then have ch: "chain (p_mem st1) ls" using chain_cong [of ls "p_mem st1" "p_mem st"] out by blast
    let ?P = "\<lambda>b. F b \<or> slot_bytes (l # ls) b"
    obtain st' where ih: "walk_slots env is_offset chain_data (hd ls) st1 = Some st'" "pools_inv F st'"
      "same_image (\<lambda>b. F b \<or> slot_bytes ls b) st1 st'"
      "\<forall>x\<in>set ls. slot_fixed env is_offset chain_data (\<lambda>b. F b \<or> slot_bytes ls b) st1 (load (p_mem st1) x 8) (load (p_mem st') x 8)"
      "rebases_applied st' = rebases_applied st1 + length (filter (\<lambda>l. \<not> ptr_bind (load (p_mem st1) l 8)) ls)"
      using Cons.IH [OF eff(1) ch] Cons.prems(3) by (auto simp: slots_apart_Cons)
    have "same_image ?P st st'"
      by (rule same_image_trans [OF eff(2) ih(3)]) (auto simp: slot_bytes_def)
    moreover have "load (p_mem st') l 8 = load (p_mem st1) l 8"
    proof (rule same_outside_load)
      show "same_outside (\<lambda>b. F b \<or> slot_bytes ls b) (p_mem st1) (p_mem st')" using ih(3) by (simp add: same_image_def)
      show "\<not> (F b \<or> slot_bytes ls b)" if "in_range b l 8" for b
        using Cons.prems(3) that disj_ranges [of l 8 _ 8 b] by (auto simp: slots_apart_Cons slot_bytes_def)
    qed simp
    moreover have "slot_fixed env is_offset chain_data ?P st (load (p_mem st) x 8) (load (p_mem st') x 8)" if x: "x \<in> set ls" for x
      by (rule slot_fixed_mono [OF bspec [OF ih(4) x, unfolded out [OF x]] eff(2)]) (auto simp: slot_bytes_def)
    moreover have "filter (\<lambda>l. \<not> ptr_bind (load (p_mem st1) l 8)) ls = filter (\<lambda>l. \<not> ptr_bind (load (p_mem st) l 8)) ls"
      using out by (auto intro: filter_cong)
    ultimately show ?thesis using walk nx ih(1,2,5) eff(3,4) by simp
  qed
qed

text \<open>C7: Walking a chain of fixups. If the slots of a chain do not overlap each other or the memory the kernel
  gives out, the walk ends, and afterwards every rebase slot holds its target moved by the slide (or
  relative to the header) with its high byte restored, every bind slot what the import resolution answered, the
  number of rebases is exact, and memory outside the slots and the resolver's pools is untouched.\<close>

theorem walk_chain_fixes_slots:
  assumes "env_ok F env" "pools_inv F st" "chain (p_mem st) slots" "slots_apart F slots"
  shows "\<exists>st'. walk_chain env (hd slots) format chain_data st = Some st' \<and>
    same_outside (\<lambda>b. F b \<or> slot_bytes slots b) (p_mem st) (p_mem st') \<and>
    (\<forall>l\<in>set slots. slot_fixed env (format = DYLD_CHAINED_PTR_64_OFFSET) chain_data (\<lambda>b. F b \<or> slot_bytes slots b) st
       (load (p_mem st) l 8) (load (p_mem st') l 8)) \<and>
    rebases_applied st' = rebases_applied st + length (filter (\<lambda>l. \<not> ptr_bind (load (p_mem st) l 8)) slots)"
  using walk_slots_chain [OF assms, of "format = DYLD_CHAINED_PTR_64_OFFSET" chain_data]
  by (auto simp: walk_chain_def same_image_def)

end
