(* ===== verification/Address_Hooks.thy ===== *)
theory Address_Hooks
  imports Trampoline
begin

text \<open>
  Model of the address hooks of \<^verbatim>\<open>src/src/trampoline.c\<close>: functions of a stripped image, listed by address
  in a hook file, are validated against the table of function starts, the sections and their
  expected first bytes, and then redirected, all or none. Counts and lengths of lists are natural
  numbers: no object has as many bytes as the address space.
\<close>

section \<open>The hook file\<close>

record address_hook =
  h_vmaddr :: u64
  h_lib_path :: cstr
  h_symbol :: cstr
  h_expected :: "u8 list"
  h_lib_handle :: u64
  h_target :: u64
  h_runtime_addr :: u64
  h_original_insn :: u32

definition zero_hook :: address_hook where
  "zero_hook = \<lparr>h_vmaddr = 0, h_lib_path = [], h_symbol = [], h_expected = [], h_lib_handle = 0,
     h_target = 0, h_runtime_addr = 0, h_original_insn = 0\<rparr>"

definition free_address_hooks :: "address_hook list \<Rightarrow> bool \<Rightarrow> tramp \<Rightarrow> tramp" where
  "free_address_hooks hooks close_handles st =
     fold (\<lambda>h st. if close_handles \<and> h_lib_handle h \<noteq> 0
        then st\<lparr>t_handles := remove1 (h_lib_handle h) (t_handles st)\<rparr> else st) hooks st"

definition hex_nibble :: "char \<Rightarrow> nat option" where
  "hex_nibble ch =
    (if 48 \<le> code ch \<and> code ch \<le> 57 then Some (code ch - 48)
     else let c = tolower ch in
       if 97 \<le> code c \<and> code c \<le> 102 then Some (code c - 97 + 10) else None)"

fun parse_byte_pairs :: "cstr \<Rightarrow> u8 list option" where
  "parse_byte_pairs (h # l # s) =
    (case (hex_nibble h, hex_nibble l) of
       (Some high, Some low) \<Rightarrow> map_option ((#) (push_bit 4 (of_nat high) OR of_nat low)) (parse_byte_pairs s)
     | _ \<Rightarrow> None)"
| "parse_byte_pairs _ = Some []"

definition parse_expected_bytes :: "cstr \<Rightarrow> u8 list option" where
  "parse_expected_bytes text =
    (if length text < 8 \<or> odd (length text) then None else parse_byte_pairs text)"

text \<open>The outer \<^const>\<open>None\<close> is the result -1, the inner one the result 0.\<close>

definition parse_address_hook_line :: "cstr \<Rightarrow> address_hook option option" where
  "parse_address_hook_line line =
    (let line = takeWhile (\<lambda>c. c \<noteq> CHR ''#'') line in
     case tokens {CHR '' '', CHR 0x09, CHR 0x0D, CHR 0x0A} [] line of
       [] \<Rightarrow> Some None
     | [address, lib_path, symbol, expected] \<Rightarrow>
         let (parsed_address, range_error, rest) = strtoull16 address in
         if range_error \<or> rest = address \<or> rest \<noteq> [] then None
         else
           (case parse_expected_bytes expected of
              None \<Rightarrow> None
            | Some bytes \<Rightarrow> Some (Some (zero_hook\<lparr>h_vmaddr := parsed_address, h_lib_path := lib_path,
                h_symbol := symbol, h_expected := bytes\<rparr>)))
     | _ \<Rightarrow> None)"

fun parse_hook_lines :: "cstr list \<Rightarrow> address_hook list option" where
  "parse_hook_lines [] = Some []"
| "parse_hook_lines (l # ls) =
    (case parse_address_hook_line l of
       None \<Rightarrow> None
     | Some None \<Rightarrow> parse_hook_lines ls
     | Some (Some h) \<Rightarrow> map_option ((#) h) (parse_hook_lines ls))"

definition load_address_hooks :: "tramp_env \<Rightarrow> cstr \<Rightarrow> address_hook list option" where
  "load_address_hooks env path =
    (case te_file env path of
       None \<Rightarrow> None
     | Some (content, read_error) \<Rightarrow>
         (case parse_hook_lines (getline_lines content) of
            None \<Rightarrow> None
          | Some hooks \<Rightarrow> if read_error then None else if hooks = [] then None else Some hooks))"

section \<open>Function starts\<close>

definition LC_FUNCTION_STARTS_LOCAL :: u32 where "LC_FUNCTION_STARTS_LOCAL = 0x26"

record linkedit_data_command_local =
  le_dataoff :: u32
  le_datasize :: u32

definition read_linkedit :: "mem \<Rightarrow> u64 \<Rightarrow> linkedit_data_command_local" where
  "read_linkedit m a = \<lparr>le_dataoff = load32 m (a + 8), le_datasize = load32 m (a + 12)\<rparr>"

fun segment_of_range :: "u64 \<Rightarrow> u32 \<Rightarrow> u64 \<Rightarrow> segment_command_64 list \<Rightarrow> u64" where
  "segment_of_range slide fileoff range_end [] = 0"
| "segment_of_range slide fileoff range_end (seg # segs) =
    (if ucast fileoff \<ge> seg_fileoff seg \<and> range_end \<le> seg_fileoff seg + seg_filesize seg
     then seg_vmaddr seg + slide + (ucast fileoff - seg_fileoff seg)
     else segment_of_range slide fileoff range_end segs)"

definition file_range_to_mem :: "mem \<Rightarrow> u64 \<Rightarrow> u64 \<Rightarrow> u32 \<Rightarrow> u32 \<Rightarrow> u64" where
  "file_range_to_mem m mh slide fileoff sz =
     segment_of_range slide fileoff (ucast fileoff + ucast sz) (segments m mh)"

definition text_named :: "mem \<Rightarrow> segment_command_64 \<Rightarrow> bool" where
  "text_named m seg \<longleftrightarrow> cstr_at m 16 (seg_segname seg) = ''__TEXT''"

text \<open>One ULEB128 number: seven bits per byte, the high bit tells that more follow; it is malformed if
  the data ends inside it or it needs a shift by 64 or more.\<close>

fun decode_uleb :: "u8 list \<Rightarrow> nat \<Rightarrow> u64 \<Rightarrow> (u64 \<times> u8 list) option" where
  "decode_uleb [] shift delta = None"
| "decode_uleb (b # bs) shift delta =
    (if shift \<ge> 64 then None
     else
       let delta = delta OR push_bit shift (ucast (b AND 0x7f)) in
       if b AND 0x80 \<noteq> 0 then decode_uleb bs (shift + 7) delta else Some (delta, bs))"

lemma decode_uleb_length: "decode_uleb bs shift delta = Some (d, bs') \<Longrightarrow> length bs' < length bs"
  by (induction bs shift delta rule: decode_uleb.induct) (auto simp: Let_def split: if_splits)

function decode_starts :: "u8 list \<Rightarrow> u64 \<Rightarrow> u64 list option" where
  "decode_starts bs current =
    (if bs = [] then Some []
     else
       (case decode_uleb bs 0 0 of
          None \<Rightarrow> None
        | Some (delta, bs) \<Rightarrow>
            if delta = 0 then Some []
            else if delta > - 1 - current then None
            else map_option ((#) (current + delta)) (decode_starts bs (current + delta))))"
  by pat_completeness auto
termination
  by (relation "measure (\<lambda>(bs, _). length bs)") (auto dest: decode_uleb_length)

declare decode_starts.simps [simp del]

definition decode_function_starts :: "mem \<Rightarrow> u64 \<Rightarrow> u64 \<Rightarrow> u64 list option" where
  "decode_function_starts m mh slide =
    (let text_vmaddr = fold (\<lambda>seg v. if text_named m seg then seg_vmaddr seg else v) (segments m mh) 0;
         starts_cmds = commands_of m mh LC_FUNCTION_STARTS_LOCAL
     in if text_vmaddr = 0 \<or> starts_cmds = [] then None
        else
          let starts_cmd = read_linkedit m (last starts_cmds) in
          if le_datasize starts_cmd = 0 then None
          else
            let data = file_range_to_mem m mh slide (le_dataoff starts_cmd) (le_datasize starts_cmd) in
            if data = 0 then None
            else
              (case decode_starts (mem_bytes m data (unat (le_datasize starts_cmd))) text_vmaddr of
                 None \<Rightarrow> None
               | Some starts \<Rightarrow> if starts = [] then None else Some starts))"

definition section_holds :: "u64 \<Rightarrow> section_64 \<Rightarrow> bool" where
  "section_holds vmaddr sec \<longleftrightarrow>
     sec_flags sec AND (S_ATTR_PURE_INSTRUCTIONS OR S_ATTR_SOME_INSTRUCTIONS) \<noteq> 0 \<and>
     vmaddr \<ge> sec_addr sec \<and> vmaddr < sec_addr sec + sec_size sec"

definition executable_section_end :: "mem \<Rightarrow> u64 \<Rightarrow> u64 \<Rightarrow> u64" where
  "executable_section_end m mh vmaddr =
     fold (\<lambda>seg section_end.
        if text_named m seg \<and> seg_initprot seg AND VM_PROT_EXECUTE \<noteq> 0 then
          (case find (section_holds vmaddr) (read_sections m seg) of
             None \<Rightarrow> section_end
           | Some sec \<Rightarrow> sec_addr sec + sec_size sec)
        else section_end) (segments m mh) 0"

fun start_end :: "u64 \<Rightarrow> u64 \<Rightarrow> u64 list \<Rightarrow> u64 option" where
  "start_end vmaddr section_end [] = None"
| "start_end vmaddr section_end (s # ss) =
    (if s \<noteq> vmaddr then start_end vmaddr section_end ss
     else Some (case ss of
        [] \<Rightarrow> section_end
      | s2 # _ \<Rightarrow> if s2 > vmaddr \<and> s2 < section_end then s2 else section_end))"

definition executable_function_end :: "mem \<Rightarrow> u64 \<Rightarrow> u64 \<Rightarrow> u64 list \<Rightarrow> u64 option" where
  "executable_function_end m mh vmaddr starts =
    (let section_end = executable_section_end m mh vmaddr in
     if section_end = 0 then None else start_end vmaddr section_end starts)"

section \<open>Validation\<close>

definition trampoline_validate_function :: "mem \<Rightarrow> u64 \<Rightarrow> u64 \<Rightarrow> u64 \<Rightarrow> cstr option \<Rightarrow> int" where
  "trampoline_validate_function m mh slide vmaddr expected_hex =
    (case expected_hex of
       None \<Rightarrow> - 1
     | Some hex \<Rightarrow>
         if mh = 0 \<or> mh_magic (read_header m mh) \<noteq> MH_MAGIC_64 then - 1
         else
           (case parse_expected_bytes hex of
              None \<Rightarrow> - 1
            | Some expected \<Rightarrow>
                (case decode_function_starts m mh slide of
                   None \<Rightarrow> - 1
                 | Some starts \<Rightarrow>
                     (case executable_function_end m mh vmaddr starts of
                        None \<Rightarrow> - 1
                      | Some function_end \<Rightarrow>
                          if length expected > unat (function_end - vmaddr) \<or> vmaddr > - 1 - slide then - 1
                          else if mem_bytes m (vmaddr + slide) (length expected) \<noteq> expected then - 1
                          else 0))))"

text \<open>One iteration of the validation loop: the hook with the fields it has filled in, and whether the
  loop goes on.\<close>

definition validate_hook ::
    "tramp_env \<Rightarrow> u64 \<Rightarrow> u64 \<Rightarrow> u64 list \<Rightarrow> address_hook list \<Rightarrow> address_hook \<Rightarrow> tramp \<Rightarrow> bool \<times> address_hook \<times> tramp" where
  "validate_hook env mh slide starts earlier hook st =
    (if list_ex (\<lambda>h. h_vmaddr h = h_vmaddr hook) earlier then (False, hook, st)
     else
       (case executable_function_end (t_mem st) mh (h_vmaddr hook) starts of
          None \<Rightarrow> (False, hook, st)
        | Some function_end \<Rightarrow>
            if length (h_expected hook) > unat (function_end - h_vmaddr hook) then (False, hook, st)
            else if h_vmaddr hook > - 1 - slide then (False, hook, st)
            else
              let hook = hook\<lparr>h_runtime_addr := h_vmaddr hook + slide\<rparr> in
              if mem_bytes (t_mem st) (h_runtime_addr hook) (length (h_expected hook)) \<noteq> h_expected hook
              then (False, hook, st)
              else
                let handle = te_dlopen env (Some (h_lib_path hook));
                    hook = hook\<lparr>h_original_insn := load32 (t_mem st) (h_runtime_addr hook), h_lib_handle := handle\<rparr>
                in if handle = 0 then (False, hook, st)
                   else
                     let st = st\<lparr>t_handles := handle # t_handles st\<rparr>;
                         target = te_dlsym env handle (h_symbol hook);
                         hook = hook\<lparr>h_target := target\<rparr>
                     in (target \<noteq> 0, hook, st)))"

fun validate_hooks ::
    "tramp_env \<Rightarrow> u64 \<Rightarrow> u64 \<Rightarrow> u64 list \<Rightarrow> address_hook list \<Rightarrow> address_hook list \<Rightarrow> tramp \<Rightarrow>
     bool \<times> address_hook list \<times> tramp" where
  "validate_hooks env mh slide starts earlier [] st = (True, earlier, st)"
| "validate_hooks env mh slide starts earlier (h # hs) st =
    (let (ok, h, st) = validate_hook env mh slide starts earlier h st in
     if ok then validate_hooks env mh slide starts (earlier @ [h]) hs st
     else (False, earlier @ h # hs, st))"

section \<open>Application\<close>

definition island_capacity_ok :: "nat \<Rightarrow> tramp \<Rightarrow> bool" where
  "island_capacity_ok hook_count st \<longleftrightarrow>
     \<not> (island_pool st = 0 \<or> island_pool_used st > island_pool_size st \<or>
        hook_count > unat ((island_pool_size st - island_pool_used st) div ISLAND_SIZE))"

definition island_ranges_ok :: "address_hook list \<Rightarrow> tramp \<Rightarrow> bool" where
  "island_ranges_ok hooks st \<longleftrightarrow>
     list_all (\<lambda>(i, h). \<not> branch_too_far (pool_next st + of_nat i * ISLAND_SIZE - h_runtime_addr h))
       (zip [0..<length hooks] hooks)"

text \<open>The write loop: the number of hooks written before the first failure.\<close>

fun write_hooks :: "address_hook list \<Rightarrow> nat \<Rightarrow> tramp \<Rightarrow> nat \<times> tramp" where
  "write_hooks [] patched st = (patched, st)"
| "write_hooks (h # hs) patched st =
    (let (ok, st) = write_trampoline (h_runtime_addr h) (h_target h) st in
     if ok then write_hooks hs (patched + 1) st else (patched, st))"

definition rollback_hooks :: "address_hook list \<Rightarrow> u64 \<Rightarrow> tramp \<Rightarrow> tramp" where
  "rollback_hooks hooks pool_start st =
     st\<lparr>t_mem := fold (\<lambda>h m. store32 m (h_runtime_addr h) (h_original_insn h)) hooks (t_mem st),
        island_pool_used := pool_start\<rparr>"

definition apply_hooks :: "tramp_env \<Rightarrow> u64 \<Rightarrow> u64 \<Rightarrow> address_hook list \<Rightarrow> tramp \<Rightarrow> int \<times> tramp" where
  "apply_hooks env mh slide hooks st =
    (if \<not> island_capacity_ok (length hooks) st then (- 1, st)
     else if \<not> island_ranges_ok hooks st then (- 1, st)
     else
       let (ok, st) = make_text_writable env mh slide st in
       if \<not> ok then (- 1, restore_text_protection env st)
       else
         let pool_start = island_pool_used st;
             (patched, st) = write_hooks hooks 0 st
         in if patched \<noteq> length hooks
            then (- 1, restore_text_protection env (rollback_hooks (take patched hooks) pool_start st))
            else (int (length hooks), restore_text_protection env st))"

definition trampoline_patch_addresses ::
    "tramp_env \<Rightarrow> u64 \<Rightarrow> u64 \<Rightarrow> cstr option \<Rightarrow> tramp \<Rightarrow> int \<times> tramp" where
  "trampoline_patch_addresses env mh slide config_path st =
    (case config_path of
       None \<Rightarrow> (- 1, st)
     | Some path \<Rightarrow>
         if mh = 0 \<or> mh_magic (read_header (t_mem st) mh) \<noteq> MH_MAGIC_64 then (- 1, st)
         else
           (case load_address_hooks env path of
              None \<Rightarrow> (- 1, st)
            | Some hooks \<Rightarrow>
                (case decode_function_starts (t_mem st) mh slide of
                   None \<Rightarrow> (- 1, free_address_hooks hooks True st)
                 | Some starts \<Rightarrow>
                     let (ok, hooks, st) = validate_hooks env mh slide starts [] hooks st;
                         (result, st) = (if ok then apply_hooks env mh slide hooks st else (- 1, st))
                     in (result, free_address_hooks hooks (result < 0) st))))"

end
