(* ===== verification/Trampoline_Codec.thy ===== *)
theory Trampoline_Codec
  imports Address_Hooks
begin

text \<open>
  The encodings the trampoline code reads: the table of function starts, which decodes to what an
  encoder wrote, the expected bytes of the hook file, and the variants of mangled names, which are
  searched completely.
\<close>

section \<open>ULEB128\<close>

fun encode_uleb :: "nat \<Rightarrow> u8 list" where
  "encode_uleb n = (if n < 128 then [of_nat n] else (of_nat (n mod 128) OR 0x80) # encode_uleb (n div 128))"

declare encode_uleb.simps [simp del]

lemma septet_byte:
  assumes "d < 128"
  shows "(of_nat d OR 0x80 :: u8) AND 0x7f = of_nat d" "(of_nat d OR 0x80 :: u8) AND 0x80 = 0x80"
    "(of_nat d :: u8) AND 0x7f = of_nat d" "(of_nat d :: u8) AND 0x80 = 0" "ucast (of_nat d :: u8) = (of_nat d :: u64)"
proof -
  have t: "(of_nat d :: u8) = take_bit 7 (of_nat d)"
    using assms by (simp add: take_bit_nat_eq_self flip: of_nat_take_bit)
  have m: "x AND 0x7f = take_bit 7 (x :: u8)" for x by (simp add: take_bit_eq_mask mask_eq_exp_minus_1)
  show a: "(of_nat d :: u8) AND 0x7f = of_nat d" using t m by metis
  show "(of_nat d :: u8) AND 0x80 = 0"
    by (subst t) (simp add: take_bit_eq_mask mask_eq_exp_minus_1 and.assoc)
  show "(of_nat d OR 0x80 :: u8) AND 0x7f = of_nat d" using a by (simp add: bit.conj_disj_distrib2)
  show "(of_nat d OR 0x80 :: u8) AND 0x80 = 0x80" by (simp add: bit.conj_disj_distrib2)
  show "ucast (of_nat d :: u8) = (of_nat d :: u64)"
    using assms by (simp add: word_unat_eq_iff unat_of_nat unsigned_ucast_eq take_bit_nat_eq_self)
qed

lemma septet_split: "(of_nat (n mod 128) :: u64) OR push_bit 7 (of_nat (n div 128)) = of_nat n"
proof -
  have "take_bit 7 n OR push_bit 7 (drop_bit 7 n) = n"
  proof (rule bit_eqI)
    fix i show "bit (take_bit 7 n OR push_bit 7 (drop_bit 7 n)) i = bit n i"
      by (cases "i < 7") (auto simp: bit_simps)
  qed
  then have "(of_nat (take_bit 7 n OR push_bit 7 (drop_bit 7 n)) :: u64) = of_nat n" by simp
  then show ?thesis
    by (simp only: of_nat_or_eq of_nat_push_bit) (simp add: take_bit_eq_mod drop_bit_eq_div)
qed

lemma decode_encode_uleb:
  assumes "n < 2 ^ (64 - shift)" "shift < 64"
  shows "decode_uleb (encode_uleb n @ rest) shift delta = Some (delta OR push_bit shift (of_nat n), rest)"
  using assms
proof (induction n arbitrary: shift delta rule: encode_uleb.induct)
  case (1 n)
  show ?case
  proof (cases "n < 128")
    case True
    then show ?thesis using 1(3) septet_byte(3,4,5) [OF True]
      by (subst encode_uleb.simps) (simp add: Let_def)
  next
    case False
    have ns: "7 < 64 - shift"
    proof (rule ccontr)
      assume "\<not> ?thesis"
      then have "2 ^ (64 - shift) \<le> (2 :: nat) ^ 7" by (intro power_increasing) auto
      with 1(2) False show False by simp
    qed
    then have "64 - shift = (64 - (shift + 7)) + 7" by simp
    then have "(2 :: nat) ^ (64 - shift) = 2 ^ (64 - (shift + 7)) * 2 ^ 7" by (simp only: power_add)
    then have "n < 2 ^ (64 - (shift + 7)) * 128" using 1(2) by simp
    then have "n div 128 < 2 ^ (64 - (shift + 7))" by (rule less_mult_imp_div_less)
    then have "decode_uleb (encode_uleb (n div 128) @ rest) (shift + 7) (delta OR push_bit shift (of_nat (n mod 128))) =
        Some (delta OR push_bit shift (of_nat (n mod 128)) OR push_bit (shift + 7) (of_nat (n div 128)), rest)"
      using 1(1) [OF False] ns by (simp add: or.assoc)
    moreover have "delta OR push_bit shift (of_nat (n mod 128)) OR push_bit (shift + 7) (of_nat (n div 128)) =
        delta OR push_bit shift (of_nat n)"
      by (subst septet_split [symmetric]) (simp add: push_bit_or push_bit_push_bit or.assoc)
    ultimately show ?thesis
      using False 1(3) septet_byte(1,2,5) [of "n mod 128"]
      by (subst encode_uleb.simps) (simp add: Let_def)
  qed
qed

text \<open>The table for an ascending list of addresses: their distances, then any number of zero bytes.\<close>

fun encode_starts :: "u64 \<Rightarrow> u64 list \<Rightarrow> u8 list" where
  "encode_starts current [] = []"
| "encode_starts current (s # ss) = encode_uleb (unat (s - current)) @ encode_starts s ss"

lemma encode_uleb_ne: "encode_uleb n \<noteq> []"
  by (subst encode_uleb.simps) simp

text \<open>Decoding the table of function starts gives back every strictly ascending list of addresses above
  the start of the text, with any padding of zero bytes.\<close>

lemma function_starts_roundtrip:
  assumes "sorted_wrt (<) (base # starts)"
  shows "decode_starts (encode_starts base starts @ replicate k 0) base = Some starts"
  using assms
proof (induction starts arbitrary: base)
  case Nil
  show ?case
  proof (cases k)
    case 0
    then show ?thesis by (subst decode_starts.simps) simp
  next
    case (Suc j)
    then show ?thesis by (subst decode_starts.simps) (simp add: Let_def)
  qed
next
  case (Cons s ss)
  let ?rest = "encode_starts s ss @ replicate k 0"
  have lt: "base < s" and ss: "sorted_wrt (<) (s # ss)" using Cons.prems by auto
  have d: "decode_uleb (encode_uleb (unat (s - base)) @ ?rest) 0 0 = Some (s - base, ?rest)"
    using decode_encode_uleb [of "unat (s - base)" 0 ?rest 0] unsigned_less [of "s - base", where ?'a = nat] by simp
  have "s - base \<noteq> 0" using lt by auto
  moreover have "\<not> s - base > - 1 - base"
  proof -
    have "s \<le> - 1" by simp
    then show ?thesis using lt by (simp add: not_less word_le_minus_mono_left less_imp_le)
  qed
  ultimately show ?case
    using d encode_uleb_ne [of "unat (s - base)"] Cons.IH [OF ss]
    by (subst decode_starts.simps) simp
qed

section \<open>Mangling variants\<close>

text \<open>Some of the occurrences of one character replaced by another.\<close>

definition renames :: "char \<Rightarrow> char \<Rightarrow> cstr \<Rightarrow> cstr \<Rightarrow> bool" where
  "renames c d name v \<longleftrightarrow> length v = length name \<and> v \<noteq> name \<and>
     (\<forall>i<length name. v ! i = name ! i \<or> name ! i = c \<and> v ! i = d)"

lemma variant_nth:
  assumes "i < length name"
  shows "variant name pos d k ! i = (if \<exists>j<length pos. bit k j \<and> pos ! j = i then d else name ! i)"
    "length (variant name pos d k) = length name"
proof -
  have "length (fold (\<lambda>j buf. if bit k j then buf[pos ! j := d] else buf) [0..<n] name) = length name \<and>
    fold (\<lambda>j buf. if bit k j then buf[pos ! j := d] else buf) [0..<n] name ! i =
      (if \<exists>j<n. bit k j \<and> pos ! j = i then d else name ! i)" for n
  proof (induction n)
    case 0
    then show ?case by simp
  next
    case (Suc n)
    then show ?case using assms by (cases "bit k n"; cases "pos ! n = i") (auto simp: less_Suc_eq)
  qed
  then show "variant name pos d k ! i = (if \<exists>j<length pos. bit k j \<and> pos ! j = i then d else name ! i)"
    "length (variant name pos d k) = length name" by (simp_all add: variant_def)
qed

lemma variant_length: "length (variant name pos d k) = length name"
proof -
  have "length (fold (\<lambda>j buf. if bit k j then buf[pos ! j := d] else buf) js buf) = length buf" for js buf
    by (induction js arbitrary: buf) auto
  then show ?thesis by (simp add: variant_def)
qed

lemma char_positions_iff:
  assumes "count_list name c \<le> 16"
  shows "i \<in> set (char_positions c name) \<longleftrightarrow> i < length name \<and> name ! i = c"
proof -
  have "length (filter (\<lambda>i. name ! i = c) [0..<length name]) = count_list name c"
  proof -
    have "map (\<lambda>i. name ! i) [0..<length name] = name" by (rule map_nth)
    then have "filter (\<lambda>x. x = c) name = map (\<lambda>i. name ! i) (filter (\<lambda>i. name ! i = c) [0..<length name])"
      by (metis (mono_tags, lifting) comp_apply filter_cong filter_map)
    then have "length (filter (\<lambda>i. name ! i = c) [0..<length name]) = length (filter (\<lambda>x. x = c) name)" by simp
    also have "\<dots> = count_list name c" by (induction name) auto
    finally show ?thesis .
  qed
  with assms show ?thesis by (simp add: char_positions_def)
qed

lemma char_positions_sub: "i \<in> set (char_positions c name) \<Longrightarrow> i < length name \<and> name ! i = c"
  by (auto simp: char_positions_def dest: in_set_takeD)

lemma variant_renames:
  assumes "1 \<le> k" "k < 2 ^ length (char_positions c name)" "c \<noteq> d"
  shows "renames c d name (variant name (char_positions c name) d k)"
proof -
  let ?pos = "char_positions c name"
  obtain j where j: "bit k j" using assms(1) by (metis bit_eqI bit_0_eq bot_apply bot_bool_def not_one_le_zero)
  have "j < length ?pos"
  proof (rule ccontr)
    assume "\<not> ?thesis"
    then have "2 ^ length ?pos \<le> (2 :: nat) ^ j" by (intro power_increasing) auto
    moreover have "2 ^ j \<le> k" using j by (metis bit_take_bit_iff not_less order_less_irrefl take_bit_nat_eq_self_iff)
    ultimately show False using assms(2) by linarith
  qed
  then have p: "?pos ! j < length name" "name ! (?pos ! j) = c" using char_positions_sub [of "?pos ! j" c name] by auto
  then have "variant name ?pos d k ! (?pos ! j) = d" using j \<open>j < length ?pos\<close> variant_nth(1) [of "?pos ! j" name ?pos d k] by auto
  then have "variant name ?pos d k \<noteq> name" using p(2) assms(3) by auto
  then show ?thesis
    using variant_nth(1) [of _ name ?pos d k] char_positions_sub [of _ c name] by (auto simp: renames_def variant_length)
qed

lemma renames_variant:
  assumes "renames c d name v" "count_list name c \<le> 16" "c \<noteq> d"
  shows "\<exists>k. 1 \<le> k \<and> k < 2 ^ length (char_positions c name) \<and> variant name (char_positions c name) d k = v"
proof -
  let ?pos = "char_positions c name"
  let ?bs = "map (\<lambda>i. v ! i = d) ?pos"
  define k :: nat where "k = horner_sum of_bool 2 ?bs"
  have bit: "bit k j \<longleftrightarrow> j < length ?pos \<and> v ! (?pos ! j) = d" for j
    by (auto simp: k_def bit_horner_sum_bit_iff)
  have v: "variant name ?pos d k = v"
  proof (rule nth_equalityI)
    show "length (variant name ?pos d k) = length v" using assms(1) by (simp add: variant_length renames_def)
    fix i assume "i < length (variant name ?pos d k)"
    then have i: "i < length name" by (simp add: variant_length)
    have "(\<exists>j<length ?pos. bit k j \<and> ?pos ! j = i) \<longleftrightarrow> name ! i = c \<and> v ! i = d"
      using char_positions_iff [OF assms(2), of i] i by (auto simp: bit in_set_conv_nth)
    then show "variant name ?pos d k ! i = v ! i"
      using variant_nth(1) [OF i, of ?pos d k] assms(1) i by (auto simp: renames_def)
  qed
  have "k \<noteq> 0"
  proof
    assume "k = 0"
    moreover have "fold (\<lambda>j buf. buf) js name = name" for js :: "nat list" by (induction js) auto
    ultimately have "variant name ?pos d k = name" by (simp add: variant_def)
    with v assms(1) show False by (simp add: renames_def)
  qed
  moreover have "k < 2 ^ length ?pos" using horner_sum_of_bool_2_less [of ?bs] by (simp add: k_def)
  ultimately show ?thesis using v by (intro exI [of _ k]) simp
qed

lemma try_variants_result:
  "try_variants dlsym name pos d ks = 0 \<longleftrightarrow> (\<forall>k\<in>set ks. dlsym (variant name pos d k) = 0)"
  "try_variants dlsym name pos d ks \<noteq> 0 \<Longrightarrow> \<exists>k\<in>set ks. dlsym (variant name pos d k) = try_variants dlsym name pos d ks"
  by (induction ks) (auto simp: Let_def)

lemma try_variants_renames:
  assumes "count_list name c \<le> 16" "c \<noteq> d"
  shows "try_variants dlsym name (char_positions c name) d [1..<2 ^ length (char_positions c name)] = 0 \<longleftrightarrow>
    (\<forall>v. renames c d name v \<longrightarrow> dlsym v = 0)"
  unfolding try_variants_result(1)
  using variant_renames [OF _ _ assms(2), of _ name] renames_variant [OF _ assms] by fastforce

text \<open>For a name with at most sixteen of each letter, the search over mangling variants finds a symbol
  exactly if the library has one under a name in which some letters \<open>y\<close> became \<open>m\<close>, or the reverse,
  provided that the name has a \<open>y\<close>; what it returns is the address of such a symbol.\<close>

lemma mangling_variants_complete:
  assumes "count_list name CHR ''y'' \<le> 16" "count_list name CHR ''m'' \<le> 16"
  shows "(try_mangling_variants dlsym name \<noteq> 0 \<longleftrightarrow> CHR ''y'' \<in> set name \<and>
      (\<exists>v. (renames CHR ''y'' CHR ''m'' name v \<or> renames CHR ''m'' CHR ''y'' name v) \<and> dlsym v \<noteq> 0)) \<and>
    (try_mangling_variants dlsym name \<noteq> 0 \<longrightarrow>
      (\<exists>v. (renames CHR ''y'' CHR ''m'' name v \<or> renames CHR ''m'' CHR ''y'' name v) \<and> dlsym v = try_mangling_variants dlsym name))"
proof -
  let ?y = "char_positions CHR ''y'' name" and ?m = "char_positions CHR ''m'' name"
  let ?a = "try_variants dlsym name ?y CHR ''m'' [1..<2 ^ length ?y]" and ?b = "try_variants dlsym name ?m CHR ''y'' [1..<2 ^ length ?m]"
  have y: "?y = [] \<longleftrightarrow> CHR ''y'' \<notin> set name"
    using char_positions_iff [OF assms(1)] by (metis in_set_conv_nth length_pos_if_in_set list.set_sel(1) neq_Nil_conv list.set_intros(1) empty_iff list.set(1))
  have a: "?a = 0 \<longleftrightarrow> (\<forall>v. renames CHR ''y'' CHR ''m'' name v \<longrightarrow> dlsym v = 0)" by (rule try_variants_renames [OF assms(1)]) simp
  have b: "?b = 0 \<longleftrightarrow> (\<forall>v. renames CHR ''m'' CHR ''y'' name v \<longrightarrow> dlsym v = 0)" by (rule try_variants_renames [OF assms(2)]) simp
  have av: "?a \<noteq> 0 \<Longrightarrow> \<exists>v. renames CHR ''y'' CHR ''m'' name v \<and> dlsym v = ?a"
    using try_variants_result(2) [of dlsym name ?y "CHR ''m''"] variant_renames [of _ "CHR ''y''" name "CHR ''m''"] by fastforce
  have bv: "?b \<noteq> 0 \<Longrightarrow> \<exists>v. renames CHR ''m'' CHR ''y'' name v \<and> dlsym v = ?b"
    using try_variants_result(2) [of dlsym name ?m "CHR ''y''"] variant_renames [of _ "CHR ''m''" name "CHR ''y''"] by fastforce
  show ?thesis
    using y a b av bv unfolding try_mangling_variants_def Let_def by (cases "?y = []"; cases "?a = 0") auto
qed

end
