(* ===== verification/Rebase_Correct.thy ===== *)
theory Rebase_Correct
  imports Fixups_Correct Trampoline_Codec
begin

text \<open>
  The rebase interpreter against a reference: a program of rebase operations stands for a list of addresses,
  and running its encoding adds the slide to each pointer once.
\<close>

section \<open>Streams in memory\<close>

fun stream :: "mem \<Rightarrow> u64 \<Rightarrow> u8 list \<Rightarrow> bool" where
  "stream m p [] = True"
| "stream m p (b # bs) = (m p = b \<and> stream m (p + 1) bs)"

text \<open>The bytes up to the end of the stream, which does not wrap around.\<close>

definition stream_to :: "mem \<Rightarrow> u64 \<Rightarrow> u64 \<Rightarrow> u8 list \<Rightarrow> bool" where
  "stream_to m p fin bs \<longleftrightarrow> stream m p bs \<and> unat fin = unat p + length bs"

lemma stream_to_Nil: "stream_to m p fin [] \<longleftrightarrow> p = fin"
  by (auto simp: stream_to_def word_unat_eq_iff)

lemma stream_to_Cons: "stream_to m p fin (b # bs) \<longleftrightarrow> p < fin \<and> m p = b \<and> stream_to m (p + 1) fin bs"
proof
  assume s: "stream_to m p fin (b # bs)"
  then have "p < fin" by (simp add: stream_to_def word_less_nat_alt)
  with s show "p < fin \<and> m p = b \<and> stream_to m (p + 1) fin bs"
    using unat_next [of p fin] by (simp add: stream_to_def)
next
  assume "p < fin \<and> m p = b \<and> stream_to m (p + 1) fin bs"
  then show "stream_to m p fin (b # bs)" using unat_next [of p fin] by (simp add: stream_to_def)
qed

text \<open>The decoder of the resolver agrees with the strict one of the address hooks wherever that one accepts.\<close>

lemma read_uleb_stream:
  assumes "decode_uleb bs shift delta = Some (v, rest)" "stream_to m p fin bs"
  shows "\<exists>q. read_uleb128 m fin p shift delta = (v, q) \<and> stream_to m q fin rest"
  using assms
proof (induction bs shift delta arbitrary: p rule: decode_uleb.induct)
  case (1 shift delta)
  then show ?case by simp
next
  case (2 byte bs shift delta)
  let ?d = "delta OR push_bit shift (ucast (byte AND 0x7f))"
  have p: "p < fin" "m p = byte" "stream_to m (p + 1) fin bs" using 2(3) by (simp_all add: stream_to_Cons)
  have s: "shift < 64" using 2(2) by (auto split: if_splits)
  then have *: "read_uleb128 m fin p shift delta =
      (if byte AND 0x80 = 0 then (?d, p + 1) else read_uleb128 m fin (p + 1) (shift + 7) ?d)"
    by (subst read_uleb128.simps) (simp add: p Let_def)
  show ?case
  proof (cases "byte AND 0x80 = 0")
    case True
    then show ?thesis using 2(2) s p(3) * by (auto simp: Let_def)
  next
    case False
    then show ?thesis using 2(1) [OF _ _ _ _ p(3)] 2(2) s * by (auto simp: Let_def)
  qed
qed

lemma read_encoded_uleb:
  assumes "stream_to m p fin (encode_uleb (unat v) @ rest)"
  shows "\<exists>q. read_uleb128 m fin p 0 0 = (v, q) \<and> stream_to m q fin rest"
proof -
  have "decode_uleb (encode_uleb (unat v) @ rest) 0 0 = Some (0 OR push_bit 0 (of_nat (unat v)), rest)"
    by (rule decode_encode_uleb) (use unsigned_less [of v] in simp_all)
  then show ?thesis using read_uleb_stream [OF _ assms] by simp
qed

section \<open>Rebase programs\<close>

datatype rebase_op =
    Rebase_Type u8
  | Rebase_Segment u8 u64
  | Rebase_Add u64
  | Rebase_Add_Scaled u8
  | Rebase_Imm_Times u8
  | Rebase_Times u64
  | Rebase_Then_Add u64
  | Rebase_Skipping u64 u64

text \<open>Immediate operands have four bits.\<close>

fun rebase_imm :: "rebase_op \<Rightarrow> u8" where
  "rebase_imm (Rebase_Type i) = i"
| "rebase_imm (Rebase_Segment i v) = i"
| "rebase_imm (Rebase_Add_Scaled i) = i"
| "rebase_imm (Rebase_Imm_Times i) = i"
| "rebase_imm _ = 0"

fun encode_rebase :: "rebase_op \<Rightarrow> u8 list" where
  "encode_rebase (Rebase_Type i) = [0x10 OR i]"
| "encode_rebase (Rebase_Segment i v) = (0x20 OR i) # encode_uleb (unat v)"
| "encode_rebase (Rebase_Add v) = 0x30 # encode_uleb (unat v)"
| "encode_rebase (Rebase_Add_Scaled i) = [0x40 OR i]"
| "encode_rebase (Rebase_Imm_Times i) = [0x50 OR i]"
| "encode_rebase (Rebase_Times v) = 0x60 # encode_uleb (unat v)"
| "encode_rebase (Rebase_Then_Add v) = 0x70 # encode_uleb (unat v)"
| "encode_rebase (Rebase_Skipping c k) = 0x80 # encode_uleb (unat c) @ encode_uleb (unat k)"

text \<open>The places a program rebases, as segment and offset: the reference.\<close>

definition run_of :: "nat \<Rightarrow> nat \<Rightarrow> u64 \<Rightarrow> u64 \<Rightarrow> (nat \<times> u64) list" where
  "run_of n seg off step = map (\<lambda>i. (seg, off + of_nat i * step)) [0..<n]"

fun rebase_places :: "rebase_op list \<Rightarrow> nat \<Rightarrow> u64 \<Rightarrow> (nat \<times> u64) list" where
  "rebase_places [] seg off = []"
| "rebase_places (Rebase_Type i # ops) seg off = rebase_places ops seg off"
| "rebase_places (Rebase_Segment i v # ops) seg off = rebase_places ops (unat i) v"
| "rebase_places (Rebase_Add v # ops) seg off = rebase_places ops seg (off + v)"
| "rebase_places (Rebase_Add_Scaled i # ops) seg off = rebase_places ops seg (off + 8 * ucast i)"
| "rebase_places (Rebase_Imm_Times i # ops) seg off = run_of (unat i) seg off 8 @ rebase_places ops seg (off + 8 * ucast i)"
| "rebase_places (Rebase_Times v # ops) seg off = run_of (unat v) seg off 8 @ rebase_places ops seg (off + v * 8)"
| "rebase_places (Rebase_Then_Add v # ops) seg off = (seg, off) # rebase_places ops seg (off + v + 8)"
| "rebase_places (Rebase_Skipping c k # ops) seg off =
     run_of (unat c) seg off (k + 8) @ rebase_places ops seg (off + c * (k + 8))"

definition rebase_all :: "(nat \<times> u64) list \<Rightarrow> resolver_state \<Rightarrow> resolver_state" where
  "rebase_all ps st = fold (\<lambda>(seg, off). rebase_one seg off) ps st"

lemma rebase_all_append: "rebase_all (ps @ qs) st = rebase_all qs (rebase_all ps st)"
  by (simp add: rebase_all_def)

lemma rebase_all_Cons: "rebase_all ((seg, off) # ps) st = rebase_all ps (rebase_one seg off st)"
  by (simp add: rebase_all_def)

lemma run_of_Suc: "run_of (Suc n) seg off step = (seg, off) # run_of n seg (off + step) step"
proof -
  have "[0..<Suc n] = 0 # map Suc [0..<n]" by (simp add: map_Suc_upt upt_conv_Cons)
  then show ?thesis by (simp add: run_of_def algebra_simps)
qed

lemma rebase_times_run: "rebase_times n seg off step st = (off + of_nat n * step, rebase_all (run_of n seg off step) st)"
proof (induction n arbitrary: off st)
  case 0
  then show ?case by (simp add: run_of_def rebase_all_def)
next
  case (Suc n)
  then show ?case by (simp add: run_of_Suc rebase_all_Cons algebra_simps)
qed

section \<open>Places and addresses\<close>

definition place_addr :: "resolver_state \<Rightarrow> nat \<times> u64 \<Rightarrow> u64" where
  "place_addr st p = si_vmaddr (rs_segments st ! fst p) + rs_slide st + snd p"

definition place_addrs :: "resolver_state \<Rightarrow> (nat \<times> u64) list \<Rightarrow> u64 list" where
  "place_addrs st ps = map (place_addr st) (filter (\<lambda>p. fst p < length (rs_segments st)) ps)"

lemma rebase_one_image: "rs_segments (rebase_one seg off st) = rs_segments st" "rs_slide (rebase_one seg off st) = rs_slide st"
  by (simp_all add: rebase_one_def store64_def Let_def)

lemma rebase_all_image: "rs_segments (rebase_all ps st) = rs_segments st" "rs_slide (rebase_all ps st) = rs_slide st"
  by (induction ps arbitrary: st) (auto simp: rebase_all_Cons rebase_one_image rebase_all_def)

lemma place_addrs_image: "rs_segments st' = rs_segments st \<Longrightarrow> rs_slide st' = rs_slide st \<Longrightarrow> place_addrs st' ps = place_addrs st ps"
  by (simp add: place_addrs_def place_addr_def)

lemma rebase_one_mem:
  "same_outside (slot_bytes (place_addrs st [(seg, off)])) (p_mem st) (p_mem (rebase_one seg off st))"
  using same_outside_store [of 8]
  by (simp add: rebase_one_def place_addrs_def place_addr_def slot_bytes_def Let_def store64_def same_outside_def)

lemma rebase_all_mem:
  "same_outside (slot_bytes (place_addrs st ps)) (p_mem st) (p_mem (rebase_all ps st))"
proof (induction ps arbitrary: st)
  case Nil
  then show ?case by (simp add: rebase_all_def)
next
  case (Cons p ps)
  obtain seg off where p: "p = (seg, off)" by fastforce
  have "same_outside (slot_bytes (place_addrs st ps)) (p_mem (rebase_one seg off st)) (p_mem (rebase_all ps (rebase_one seg off st)))"
    using Cons [of "rebase_one seg off st"] place_addrs_image [of "rebase_one seg off st" st] by (simp add: rebase_one_image)
  with rebase_one_mem [of st seg off] show ?case
    unfolding p rebase_all_Cons
    by (rule same_outside_mono [OF same_outside_trans]) (auto simp: place_addrs_def slot_bytes_def split: if_splits)
qed

text \<open>Rebasing places that do not overlap adds the slide to each pointer.\<close>

lemma rebase_all_values:
  assumes "slots_apart (\<lambda>_. False) (place_addrs st ps)"
  shows "(\<forall>a\<in>set (place_addrs st ps). load (p_mem (rebase_all ps st)) a 8 = load (p_mem st) a 8 + rs_slide st) \<and>
    rebases_applied (rebase_all ps st) = rebases_applied st + length (place_addrs st ps)"
  using assms
proof (induction ps arbitrary: st)
  case Nil
  then show ?case by (simp add: rebase_all_def place_addrs_def)
next
  case (Cons p ps)
  obtain seg off where p: "p = (seg, off)" by fastforce
  define st1 where "st1 = rebase_one seg off st"
  have addrs: "place_addrs st1 ps = place_addrs st ps"
    by (rule place_addrs_image) (simp_all add: st1_def rebase_one_image)
  have slide: "rs_slide st1 = rs_slide st" by (simp add: st1_def rebase_one_image)
  show ?case
  proof (cases "seg < length (rs_segments st)")
    case False
    then have "place_addrs st (p # ps) = place_addrs st ps" "st1 = st"
      by (simp_all add: p place_addrs_def st1_def rebase_one_def)
    then show ?thesis using Cons.IH [of st] Cons.prems unfolding p rebase_all_Cons st1_def by simp
  next
    case True
    define a where "a = place_addr st (seg, off)"
    have all: "place_addrs st (p # ps) = a # place_addrs st ps" using True by (simp add: p place_addrs_def a_def)
    have st1: "p_mem st1 = store (p_mem st) a 8 (load (p_mem st) a 8 + rs_slide st)" "rebases_applied st1 = rebases_applied st + 1"
      using True by (simp_all add: st1_def rebase_one_def a_def place_addr_def store64_def Let_def)
    have ap: "slots_apart (\<lambda>_. False) (place_addrs st ps)" "\<forall>b\<in>set (place_addrs st ps). disj a 8 b 8"
      using Cons.prems by (simp_all add: all slots_apart_Cons)
    have ih: "\<forall>b\<in>set (place_addrs st ps). load (p_mem (rebase_all ps st1)) b 8 = load (p_mem st1) b 8 + rs_slide st"
      "rebases_applied (rebase_all ps st1) = rebases_applied st1 + length (place_addrs st ps)"
      using Cons.IH [of st1] ap(1) by (simp_all add: addrs slide)
    have "load (p_mem (rebase_all ps st1)) a 8 = load (p_mem st1) a 8"
    proof (rule same_outside_load)
      show "same_outside (slot_bytes (place_addrs st ps)) (p_mem st1) (p_mem (rebase_all ps st1))"
        using rebase_all_mem [of st1 ps] by (simp add: addrs)
      show "\<not> slot_bytes (place_addrs st ps) b" if "in_range b a 8" for b
        using ap(2) that disj_ranges [of a 8 _ 8 b] by (auto simp: slot_bytes_def)
    qed simp
    moreover have "load (p_mem st1) b 8 = load (p_mem st) b 8" if "b \<in> set (place_addrs st ps)" for b
      using ap(2) that by (simp add: st1 load_store_disj disj_sym)
    moreover have "rebase_all (p # ps) st = rebase_all ps st1" by (simp add: p rebase_all_Cons st1_def)
    ultimately show ?thesis using ih st1 by (simp add: all load_store_same)
  qed
qed

section \<open>Running a program\<close>

lemma imm_bits:
  fixes i :: u8
  assumes "i AND 0xF0 = 0"
  shows "i AND 0x0F = i"
proof -
  have "(0xF0 OR 0x0F :: u8) = - 1" by simp
  then have "i = i AND (0xF0 OR 0x0F)" by (metis and.right_neutral)
  also have "\<dots> = (i AND 0xF0) OR (i AND 0x0F)" by (rule bit.conj_disj_distrib)
  finally show ?thesis using assms by simp
qed

lemma stream_to_cong:
  assumes "same_outside P m m'" "stream_to m p fin bs" "\<And>b. P b \<Longrightarrow> \<not> (p \<le> b \<and> b < fin)"
  shows "stream_to m' p fin bs"
  using assms(2,3)
proof (induction bs arbitrary: p)
  case Nil
  then show ?case by (simp add: stream_to_Nil)
next
  case (Cons b bs)
  then have p: "p < fin" "m p = b" "stream_to m (p + 1) fin bs" by (simp_all add: stream_to_Cons)
  have "\<not> P p" using Cons.prems(2) [of p] p(1) by auto
  then have "m' p = b" using assms(1) p(2) by (simp add: same_outside_def)
  moreover have "p \<le> p + 1" using unat_next [OF p(1)] by (simp add: word_le_nat_alt)
  then have "stream_to m' (p + 1) fin bs" by (intro Cons.IH p(3)) (use Cons.prems(2) in \<open>auto intro: order_trans\<close>)
  ultimately show ?case using p(1) by (simp add: stream_to_Cons)
qed

lemma stream_to_le: "stream_to m p fin bs \<Longrightarrow> stream_to m' q fin rest \<Longrightarrow> length rest \<le> length bs \<Longrightarrow> p \<le> q"
  by (simp add: stream_to_def word_le_nat_alt)

lemma rebase_stream_program:
  assumes "\<forall>op\<in>set ops. rebase_imm op AND 0xF0 = 0"
    and "stream_to (p_mem st) p fin (concat (map encode_rebase ops) @ 0 # pad)"
    and "\<And>b. slot_bytes (place_addrs st (rebase_places ops seg off)) b \<Longrightarrow> \<not> (p \<le> b \<and> b < fin)"
  shows "rebase_stream fin p seg off st = (True, rebase_all (rebase_places ops seg off) st)"
  using assms
proof (induction ops arbitrary: p seg off st)
  case Nil
  then have "p < fin" "p_mem st p = 0" by (simp_all add: stream_to_Cons)
  then show ?case by (subst rebase_stream.simps) (simp add: rebase_all_def)
next
  case (Cons op ops)
  let ?rest = "concat (map encode_rebase ops) @ 0 # pad"
  have imm: "rebase_imm op AND 0xF0 = 0" "rebase_imm op AND 0x0F = rebase_imm op" "\<forall>op\<in>set ops. rebase_imm op AND 0xF0 = 0"
    using Cons.prems(1) imm_bits [of "rebase_imm op"] by auto
  have step: "rebase_stream fin q seg' off' (rebase_all ps st) = (True, rebase_all (rebase_places (op # ops) seg off) st)"
    if "rebase_places (op # ops) seg off = ps @ rebase_places ops seg' off'" "stream_to (p_mem st) q fin ?rest" "p \<le> q"
    for q seg' off' ps
  proof -
    have sb: "slot_bytes (place_addrs st (rebase_places (op # ops) seg off)) b \<longleftrightarrow>
        slot_bytes (place_addrs st ps) b \<or> slot_bytes (place_addrs st (rebase_places ops seg' off')) b" for b
      by (auto simp: that(1) slot_bytes_def place_addrs_def)
    have "stream_to (p_mem (rebase_all ps st)) q fin ?rest"
      by (rule stream_to_cong [OF rebase_all_mem that(2)]) (use Cons.prems(3) sb that(3) in \<open>auto intro: order_trans\<close>)
    then have "rebase_stream fin q seg' off' (rebase_all ps st) = (True, rebase_all (rebase_places ops seg' off') (rebase_all ps st))"
      using Cons.prems(3) sb that(3) place_addrs_image [of "rebase_all ps st" st]
      by (intro Cons.IH imm(3)) (auto simp: rebase_all_image intro: order_trans)
    then show ?thesis by (simp add: that(1) rebase_all_append)
  qed
  have p1: "p < fin" "stream_to (p_mem st) (p + 1) fin (tl (encode_rebase op) @ ?rest)" "p_mem st p = hd (encode_rebase op)"
    using Cons.prems(2) by (cases op; simp add: stream_to_Cons)+
  have le: "p \<le> q" if "stream_to (p_mem st) q fin ?rest" for q
    by (rule stream_to_le [OF Cons.prems(2) that]) simp
  show ?case
  proof (cases op)
    case (Rebase_Type i)
    then show ?thesis
      using p1 imm step [of "[]" seg off "p + 1"] le [of "p + 1"]
      by (subst rebase_stream.simps) (simp add: bit.conj_disj_distrib2 rebase_all_def)
  next
    case (Rebase_Segment i v)
    then obtain q where "read_uleb128 (p_mem st) fin (p + 1) 0 0 = (v, q)" "stream_to (p_mem st) q fin ?rest"
      using p1(2) read_encoded_uleb [of "p_mem st" "p + 1" fin v ?rest] by auto
    then show ?thesis
      using p1 imm step [of "[]" "unat i" v q] le [of q] Rebase_Segment
      by (subst rebase_stream.simps) (simp add: bit.conj_disj_distrib2 rebase_all_def)
  next
    case (Rebase_Add v)
    then obtain q where "read_uleb128 (p_mem st) fin (p + 1) 0 0 = (v, q)" "stream_to (p_mem st) q fin ?rest"
      using p1(2) read_encoded_uleb [of "p_mem st" "p + 1" fin v ?rest] by auto
    then show ?thesis
      using p1 step [of "[]" seg "off + v" q] le [of q] Rebase_Add
      by (subst rebase_stream.simps) (simp add: rebase_all_def)
  next
    case (Rebase_Add_Scaled i)
    then show ?thesis
      using p1 imm step [of "[]" seg "off + 8 * ucast i" "p + 1"] le [of "p + 1"]
      by (subst rebase_stream.simps) (simp add: bit.conj_disj_distrib2 rebase_all_def mult.commute)
  next
    case (Rebase_Imm_Times i)
    then show ?thesis
      using p1 imm step [of "run_of (unat i) seg off 8" seg "off + 8 * ucast i" "p + 1"] le [of "p + 1"]
      by (subst rebase_stream.simps) (simp add: bit.conj_disj_distrib2 rebase_times_run mult.commute)
  next
    case (Rebase_Times v)
    then obtain q where "read_uleb128 (p_mem st) fin (p + 1) 0 0 = (v, q)" "stream_to (p_mem st) q fin ?rest"
      using p1(2) read_encoded_uleb [of "p_mem st" "p + 1" fin v ?rest] by auto
    then show ?thesis
      using p1 step [of "run_of (unat v) seg off 8" seg "off + v * 8" q] le [of q] Rebase_Times
      by (subst rebase_stream.simps) (simp add: rebase_times_run)
  next
    case (Rebase_Then_Add v)
    define st1 where "st1 = rebase_one seg off st"
    have enc: "stream_to (p_mem st) (p + 1) fin (encode_uleb (unat v) @ ?rest)" using p1(2) Rebase_Then_Add by simp
    then obtain q where q: "stream_to (p_mem st) q fin ?rest" using read_encoded_uleb by blast
    have "stream_to (p_mem st1) (p + 1) fin (encode_uleb (unat v) @ ?rest)"
      unfolding st1_def
    proof (rule stream_to_cong [OF rebase_one_mem enc])
      fix b assume "slot_bytes (place_addrs st [(seg, off)]) b"
      then have "slot_bytes (place_addrs st (rebase_places (op # ops) seg off)) b"
        using Rebase_Then_Add by (auto simp: slot_bytes_def place_addrs_def split: if_splits)
      moreover have "p \<le> p + 1" using unat_next [OF p1(1)] by (simp add: word_le_nat_alt)
      ultimately show "\<not> (p + 1 \<le> b \<and> b < fin)" using Cons.prems(3) by (meson order_trans)
    qed
    then obtain q' where q': "read_uleb128 (p_mem st1) fin (p + 1) 0 0 = (v, q')" "stream_to (p_mem st1) q' fin ?rest"
      using read_encoded_uleb by blast
    have "q' = q" using q q'(2) by (simp add: stream_to_def word_unat_eq_iff)
    with q' show ?thesis
      using p1 step [of "[(seg, off)]" seg "off + v + 8" q] le [OF q] q Rebase_Then_Add
      by (subst rebase_stream.simps) (simp add: rebase_all_Cons rebase_all_def st1_def add.assoc)
  next
    case (Rebase_Skipping c k)
    then obtain q where q: "read_uleb128 (p_mem st) fin (p + 1) 0 0 = (c, q)"
        "stream_to (p_mem st) q fin (encode_uleb (unat k) @ ?rest)"
      using p1(2) read_encoded_uleb [of "p_mem st" "p + 1" fin c "encode_uleb (unat k) @ ?rest"] by auto
    then obtain q' where "read_uleb128 (p_mem st) fin q 0 0 = (k, q')" "stream_to (p_mem st) q' fin ?rest"
      using read_encoded_uleb by blast
    with q(1) show ?thesis
      using p1 step [of "run_of (unat c) seg off (k + 8)" seg "off + c * (k + 8)" q'] le [of q'] Rebase_Skipping
      by (subst rebase_stream.simps) (simp add: rebase_times_run)
  qed
qed

text \<open>C8: Running a rebase stream. The bytes of any program of rebase operations, followed by the end mark and any
  padding, are interpreted as the program: if the pointers it names do not overlap each other or the
  stream, each of them gets the slide added exactly once, all other memory stays, and the count is exact.\<close>

theorem rebase_stream_applies_program:
  assumes "\<forall>op\<in>set ops. rebase_imm op AND 0xF0 = 0"
    and "stream_to (p_mem st) p fin (concat (map encode_rebase ops) @ 0 # pad)"
    and "slots_apart (\<lambda>b. p \<le> b \<and> b < fin) (place_addrs st (rebase_places ops seg off))"
  shows "\<exists>st'. rebase_stream fin p seg off st = (True, st') \<and>
    (\<forall>a\<in>set (place_addrs st (rebase_places ops seg off)). load (p_mem st') a 8 = load (p_mem st) a 8 + rs_slide st) \<and>
    same_outside (slot_bytes (place_addrs st (rebase_places ops seg off))) (p_mem st) (p_mem st') \<and>
    rebases_applied st' = rebases_applied st + length (place_addrs st (rebase_places ops seg off))"
proof -
  have "slots_apart (\<lambda>_. False) (place_addrs st (rebase_places ops seg off))"
    using assms(3) by (simp add: slots_apart_def)
  moreover have "rebase_stream fin p seg off st = (True, rebase_all (rebase_places ops seg off) st)"
    using assms(3) by (intro rebase_stream_program [OF assms(1,2)]) (auto simp: slots_apart_def slot_bytes_def)
  ultimately show ?thesis using rebase_all_values rebase_all_mem by blast
qed

text \<open>The two ULEB128 decoders agree. On a stream in memory that the strict decoder of the address hooks accepts,
  the decoder of the resolver reads the same number and stops at the same byte.\<close>

lemma uleb_decoders_agree:
  assumes "decode_uleb bs 0 0 = Some (v, rest)" "stream_to m p fin bs"
  shows "read_uleb128 m fin p 0 0 = (v, p + of_nat (length bs - length rest))"
proof -
  obtain q where q: "read_uleb128 m fin p 0 0 = (v, q)" "stream_to m q fin rest"
    using read_uleb_stream [OF assms] by blast
  have "unat q = unat p + (length bs - length rest)"
    using q(2) assms(2) decode_uleb_length [OF assms(1)] unfolding stream_to_def by linarith
  then have "of_nat (unat q) = (of_nat (unat p + (length bs - length rest)) :: u64)" by (rule arg_cong)
  then have "q = p + of_nat (length bs - length rest)" by simp
  with q(1) show ?thesis by simp
qed

end
