(* ===== verification/Abi_Machine.thy ===== *)
theory Abi_Machine
  imports Resolver
begin

text \<open>
  The architecture's meaning of the instructions in the ABI adapters, executed from memory: pairs of registers
  stored to and loaded from the stack, address arithmetic, calls through a register and returns. It is the
  yardstick for the emitted code, not code of the repository.
\<close>

record cpu =
  pc :: u64
  gx :: "nat \<Rightarrow> u64"
  gsp :: u64
  gmem :: mem

text \<open>Register 31 is the stack pointer as a base and in additions, and zero as an operand.\<close>

definition base_reg :: "cpu \<Rightarrow> nat \<Rightarrow> u64" where
  "base_reg s r = (if r = 31 then gsp s else gx s r)"

definition set_base :: "nat \<Rightarrow> u64 \<Rightarrow> cpu \<Rightarrow> cpu" where
  "set_base r v s = (if r = 31 then s\<lparr>gsp := v\<rparr> else s\<lparr>gx := (gx s)(r := v)\<rparr>)"

definition get_reg :: "cpu \<Rightarrow> nat \<Rightarrow> u64" where
  "get_reg s r = (if r = 31 then 0 else gx s r)"

definition set_reg :: "nat \<Rightarrow> u64 \<Rightarrow> cpu \<Rightarrow> cpu" where
  "set_reg r v s = (if r = 31 then s else s\<lparr>gx := (gx s)(r := v)\<rparr>)"

definition imm7 :: "u32 \<Rightarrow> int" where
  "imm7 i = signed_take_bit 6 (uint (drop_bit 15 i))"

definition next_pc :: "cpu \<Rightarrow> cpu" where
  "next_pc s = s\<lparr>pc := pc s + 4\<rparr>"

definition cpu_step :: "cpu \<Rightarrow> cpu option" where
  "cpu_step s =
    (let i = load32 (gmem s) (pc s);
         rt = unat (i AND 31); rn = unat (drop_bit 5 i AND 31); rt2 = unat (drop_bit 10 i AND 31);
         rm = unat (drop_bit 16 i AND 31); imm12 = ucast (drop_bit 10 i AND 0xFFF)
     in
     if i AND 0xFFC00000 = 0xA9800000 then
       let a = base_reg s rn + word_of_int (8 * imm7 i) in
       Some (next_pc (set_base rn a (s\<lparr>gmem := store (store (gmem s) a 8 (get_reg s rt)) (a + 8) 8 (get_reg s rt2)\<rparr>)))
     else if i AND 0xFFC00000 = 0xA8C00000 then
       let a = base_reg s rn in
       Some (next_pc (set_base rn (a + word_of_int (8 * imm7 i))
               (set_reg rt2 (load (gmem s) (a + 8) 8) (set_reg rt (load (gmem s) a 8) s))))
     else if i AND 0xFFC00000 = 0x29000000 then
       let a = base_reg s rn + word_of_int (4 * imm7 i) in
       Some (next_pc (s\<lparr>gmem := store (store (gmem s) a 4 (get_reg s rt)) (a + 4) 4 (get_reg s rt2)\<rparr>))
     else if i AND 0xFFC00000 = 0xF9000000 then
       Some (next_pc (s\<lparr>gmem := store (gmem s) (base_reg s rn + 8 * imm12) 8 (get_reg s rt)\<rparr>))
     else if i AND 0xFFC00000 = 0x91000000 then Some (next_pc (set_base rt (base_reg s rn + imm12) s))
     else if i AND 0xFFE0FFE0 = 0xAA0003E0 then Some (next_pc (set_reg rt (get_reg s rm) s))
     else if i AND 0xFF000000 = 0x58000000 then
       Some (next_pc (set_reg rt (load (gmem s) (pc s + word_of_int (4 * signed_take_bit 18 (uint (drop_bit 5 i)))) 8) s))
     else if i AND 0xFFFFFC1F = 0xD63F0000 then
       Some (s\<lparr>pc := get_reg s rn, gx := (gx s)(30 := pc s + 4)\<rparr>)
     else if i AND 0xFFFFFC1F = 0xD65F0000 then Some (s\<lparr>pc := get_reg s rn\<rparr>)
     else if i AND 0xFFE00000 = 0x52800000 then Some (next_pc (set_reg rt (ucast (drop_bit 5 i AND 0xFFFF)) s))
     else if i = 0xD503201F then Some (next_pc s)
     else None)"

fun cpu_run :: "nat \<Rightarrow> cpu \<Rightarrow> cpu option" where
  "cpu_run 0 s = Some s"
| "cpu_run (Suc n) s = (case cpu_step s of None \<Rightarrow> None | Some s \<Rightarrow> cpu_run n s)"

section \<open>Instructions of the adapters\<close>

named_theorems cpu_defs \<open>the parts of a machine step\<close>
declare base_reg_def [cpu_defs] set_base_def [cpu_defs] get_reg_def [cpu_defs] set_reg_def [cpu_defs]
  imm7_def [cpu_defs] next_pc_def [cpu_defs]

lemma step_stp_lr_x0:
  assumes "load32 (gmem s) (pc s) = 0xA9BF03FE"
  shows "cpu_step s = Some (s\<lparr>pc := pc s + 4, gsp := gsp s - 16,
    gmem := store (store (gmem s) (gsp s - 16) 8 (gx s 30)) (gsp s - 8) 8 (gx s 0)\<rparr>)"
  using assms by (simp only: cpu_step_def Let_def, simp, simp add: cpu_defs)

lemma step_ldr_20:
  assumes "load32 (gmem s) (pc s) = 0x580000B0"
  shows "cpu_step s = Some (s\<lparr>pc := pc s + 4, gx := (gx s)(16 := load (gmem s) (pc s + 20) 8)\<rparr>)"
  using assms by (simp only: cpu_step_def Let_def, simp, simp add: cpu_defs)

lemma step_ldr_16:
  assumes "load32 (gmem s) (pc s) = 0x58000090"
  shows "cpu_step s = Some (s\<lparr>pc := pc s + 4, gx := (gx s)(16 := load (gmem s) (pc s + 16) 8)\<rparr>)"
  using assms by (simp only: cpu_step_def Let_def, simp, simp add: cpu_defs)

lemma step_blr:
  assumes "load32 (gmem s) (pc s) = 0xD63F0200"
  shows "cpu_step s = Some (s\<lparr>pc := gx s 16, gx := (gx s)(30 := pc s + 4)\<rparr>)"
  using assms by (simp only: cpu_step_def Let_def, simp, simp add: cpu_defs)

lemma step_ldp_lr_x0:
  assumes "load32 (gmem s) (pc s) = 0xA8C103FE"
  shows "cpu_step s = Some (s\<lparr>pc := pc s + 4, gsp := gsp s + 16,
    gx := (gx s)(30 := load (gmem s) (gsp s) 8, 0 := load (gmem s) (gsp s + 8) 8)\<rparr>)"
  using assms by (simp only: cpu_step_def Let_def, simp, simp add: cpu_defs)

lemma step_ret:
  assumes "load32 (gmem s) (pc s) = 0xD65F03C0"
  shows "cpu_step s = Some (s\<lparr>pc := gx s 30\<rparr>)"
  using assms by (simp only: cpu_step_def Let_def, simp, simp add: cpu_defs)

lemma step_mov_w0_0:
  assumes "load32 (gmem s) (pc s) = 0x52800000"
  shows "cpu_step s = Some (s\<lparr>pc := pc s + 4, gx := (gx s)(0 := 0)\<rparr>)"
  using assms by (simp only: cpu_step_def Let_def, simp, simp add: cpu_defs)

lemma step_stp_fp_lr:
  assumes "load32 (gmem s) (pc s) = 0xA9BD7BFD"
  shows "cpu_step s = Some (s\<lparr>pc := pc s + 4, gsp := gsp s - 48,
    gmem := store (store (gmem s) (gsp s - 48) 8 (gx s 29)) (gsp s - 40) 8 (gx s 30)\<rparr>)"
  using assms by (simp only: cpu_step_def Let_def, simp, simp add: cpu_defs)

lemma step_mov_fp:
  assumes "load32 (gmem s) (pc s) = 0x910003FD"
  shows "cpu_step s = Some (s\<lparr>pc := pc s + 4, gx := (gx s)(29 := gsp s)\<rparr>)"
  using assms by (simp only: cpu_step_def Let_def, simp, simp add: cpu_defs)

lemma step_add_x8_fp:
  assumes "load32 (gmem s) (pc s) = 0x9100C3A8"
  shows "cpu_step s = Some (s\<lparr>pc := pc s + 4, gx := (gx s)(8 := gx s 29 + 48)\<rparr>)"
  using assms by (simp only: cpu_step_def Let_def, simp, simp add: cpu_defs)

lemma step_str_x8:
  assumes "load32 (gmem s) (pc s) = 0xF9000BE8"
  shows "cpu_step s = Some (s\<lparr>pc := pc s + 4, gmem := store (gmem s) (gsp s + 16) 8 (gx s 8)\<rparr>)"
  using assms by (simp only: cpu_step_def Let_def, simp, simp add: cpu_defs)

lemma step_str_xzr_24:
  assumes "load32 (gmem s) (pc s) = 0xF9000FFF"
  shows "cpu_step s = Some (s\<lparr>pc := pc s + 4, gmem := store (gmem s) (gsp s + 24) 8 0\<rparr>)"
  using assms by (simp only: cpu_step_def Let_def, simp, simp add: cpu_defs)

lemma step_str_xzr_32:
  assumes "load32 (gmem s) (pc s) = 0xF90013FF"
  shows "cpu_step s = Some (s\<lparr>pc := pc s + 4, gmem := store (gmem s) (gsp s + 32) 8 0\<rparr>)"
  using assms by (simp only: cpu_step_def Let_def, simp, simp add: cpu_defs)

lemma step_stp_wzr:
  assumes "load32 (gmem s) (pc s) = 0x29057FFF"
  shows "cpu_step s = Some (s\<lparr>pc := pc s + 4, gmem := store (store (gmem s) (gsp s + 40) 4 0) (gsp s + 44) 4 0\<rparr>)"
  using assms by (simp only: cpu_step_def Let_def, simp, simp add: cpu_defs add.commute [of 44])

lemma step_ldp_fp_lr:
  assumes "load32 (gmem s) (pc s) = 0xA8C37BFD"
  shows "cpu_step s = Some (s\<lparr>pc := pc s + 4, gsp := gsp s + 48,
    gx := (gx s)(29 := load (gmem s) (gsp s) 8, 30 := load (gmem s) (gsp s + 8) 8)\<rparr>)"
  using assms by (simp only: cpu_step_def Let_def, simp, simp add: cpu_defs)

text \<open>The instructions that depend on the function: the source of the arguments and the register for the list.\<close>

lemma step_mov_x8:
  assumes "load32 (gmem s) (pc s) = 0xAA0003E8 OR push_bit 16 (of_nat r)" "r < 8"
  shows "cpu_step s = Some (s\<lparr>pc := pc s + 4, gx := (gx s)(8 := gx s r)\<rparr>)"
proof -
  have "r = 0 \<or> r = 1 \<or> r = 2 \<or> r = 3 \<or> r = 4 \<or> r = 5 \<or> r = 6 \<or> r = 7" using assms(2) by arith
  then show ?thesis
    using assms(1) by (elim disjE)
      (simp only: cpu_step_def Let_def, simp, simp add: cpu_defs)+
qed

lemma step_add_va:
  assumes "load32 (gmem s) (pc s) = 0x910043E0 OR of_nat r" "r < 8"
  shows "cpu_step s = Some (s\<lparr>pc := pc s + 4, gx := (gx s)(r := gsp s + 16)\<rparr>)"
proof -
  have "r = 0 \<or> r = 1 \<or> r = 2 \<or> r = 3 \<or> r = 4 \<or> r = 5 \<or> r = 6 \<or> r = 7" using assms(2) by arith
  then show ?thesis
    using assms(1) by (elim disjE)
      (simp only: cpu_step_def Let_def, simp, simp add: cpu_defs)+
qed

end
