(* ===== verification/Abi_Adapters.thy ===== *)
theory Abi_Adapters
  imports Abi_Machine Resolver_Frame
begin

text \<open>
  The emitted adapters do what they are for, when executed: the constructor wrapper calls the function and
  returns with \<^verbatim>\<open>this\<close>; the variadic thunk calls the function with a Linux argument list that reads the
  caller's arguments; a stub returns 0.
\<close>

section \<open>Code in memory\<close>

fun code_at :: "mem \<Rightarrow> u64 \<Rightarrow> u32 list \<Rightarrow> bool" where
  "code_at m a [] = True"
| "code_at m a (w # ws) = (load32 m a = w \<and> code_at m (a + 4) ws)"

definition agree :: "u64 \<Rightarrow> nat \<Rightarrow> mem \<Rightarrow> mem \<Rightarrow> bool" where
  "agree a n m m' \<longleftrightarrow> (\<forall>b. in_range b a n \<longrightarrow> m' b = m b)"

lemma agree_load:
  assumes "agree a n m m'" "\<And>b. in_range b c k \<Longrightarrow> in_range b a n" "k < 2 ^ 64"
  shows "load m' c k = load m c k"
  by (rule load_cong) (use assms in \<open>auto simp: agree_def\<close>)

lemma agree_sub: "agree a n m m' \<Longrightarrow> (\<And>b. in_range b c k \<Longrightarrow> in_range b a n) \<Longrightarrow> agree c k m m'"
  by (auto simp: agree_def)

lemma agree_code:
  assumes "agree a n m m'" "4 * length ws \<le> n" "n < 2 ^ 64"
  shows "code_at m' a ws = code_at m a ws"
  using assms
proof (induction ws arbitrary: a n)
  case Nil
  then show ?case by simp
next
  case (Cons w ws)
  have "load m' a 4 = load m a 4"
    by (rule agree_load [OF Cons.prems(1)]) (use Cons.prems(2) in \<open>auto elim: in_range_mono\<close>)
  then have "load32 m' a = load32 m a" by (simp add: load32_def)
  moreover have "agree (a + 4) (4 * length ws) m m'"
    using Cons.prems in_range_sub [of _ a 4 "4 * length ws" n] by (intro agree_sub [OF Cons.prems(1)]) simp
  then have "code_at m' (a + 4) ws = code_at m (a + 4) ws" by (rule Cons.IH) (use Cons.prems in simp_all)
  ultimately show ?case by simp
qed

lemma code_at_store_words:
  assumes "4 * length ws < 2 ^ 32"
  shows "code_at (store_words m a ws) a ws"
  using assms
proof (induction ws arbitrary: m a)
  case Nil
  then show ?case by simp
next
  case (Cons w ws)
  have "same_outside (\<lambda>b. in_range b (a + 4) (4 * length ws)) (store32 m a w) (store_words (store32 m a w) (a + 4) ws)"
    using Cons.prems by (intro same_outside_store_words) simp
  then have "load32 (store_words (store32 m a w) (a + 4) ws) a = load32 (store32 m a w) a"
  proof (rule same_outside_load32)
    fix b assume "in_range b a 4"
    moreover have "disj a 4 (a + 4) (4 * length ws)" using Cons.prems by (simp add: disj_def unat_minus_one_word)
    ultimately show "\<not> in_range b (a + 4) (4 * length ws)" using disj_ranges by blast
  qed
  then show ?case using Cons by (simp add: load_store_same)
qed

lemma disj_ahead:
  fixes a :: u64
  assumes "0 < n" "n + k \<le> 2 ^ 64" "n < 2 ^ 64"
  shows "disj a n (a + of_nat n) k"
proof -
  have n: "unat (of_nat n :: u64) = n" using assms(3) by (simp add: unat_of_nat)
  then have "a \<noteq> a + of_nat n" using assms(1) by auto
  then have "unat (a - (a + of_nat n)) + n = 2 ^ 64" using unat_diff_sum [of a "a + of_nat n"] n by simp
  then show ?thesis using n assms(2) by (simp add: disj_def)
qed

text \<open>Code with its target behind it.\<close>

lemma code_with_target:
  fixes m a v
  assumes "ws \<noteq> []" "4 * length ws + 8 < 2 ^ 32" "off = of_nat (4 * length ws)"
  defines "m' \<equiv> store (store_words m a ws) (a + off) 8 v"
  shows "code_at m' a ws" "load m' (a + off) 8 = v"
proof -
  have "agree a (4 * length ws) (store_words m a ws) m'"
    unfolding agree_def m'_def
  proof (intro allI impI)
    fix b assume b: "in_range b a (4 * length ws)"
    have "disj a (4 * length ws) (a + off) 8"
      unfolding assms(3) by (rule disj_ahead) (use assms(1,2) in simp_all)
    then have "\<not> in_range b (a + off) 8" using b disj_ranges by blast
    then show "store (store_words m a ws) (a + off) 8 v b = store_words m a ws b" by (simp add: store_outside)
  qed
  then show "code_at m' a ws" using agree_code [of a "4 * length ws" _ m' ws] code_at_store_words assms(2) by auto
  show "load m' (a + off) 8 = v" by (simp add: m'_def load_store_same)
qed

section \<open>The constructor wrapper\<close>

definition ctor_adapter_at :: "mem \<Rightarrow> u64 \<Rightarrow> u64 \<Rightarrow> bool" where
  "ctor_adapter_at m t f \<longleftrightarrow> code_at m t ctor_code \<and> load m (t + 24) 8 = f"

lemma wrap_ctor_adapter:
  assumes "wrap_ctor_for_apple_abi env f st = (t, st')" "t \<noteq> f"
  shows "ctor_adapter_at (p_mem st') t f"
  using assms code_with_target [of ctor_code 24 "p_mem (map_ctor_pool env st)" t f]
  by (auto simp: wrap_ctor_for_apple_abi_def ctor_adapter_at_def ctor_code_def Let_def split: if_splits)

lemma in_range_sub_word:
  "in_range b (a + k) n \<Longrightarrow> unat k + n \<le> N \<Longrightarrow> N < 2 ^ 64 \<Longrightarrow> in_range b (a :: u64) N"
  using in_range_sub [of b a "unat k" n N] by simp

lemma agree_ctor_adapter:
  assumes "agree t 32 m m'" "ctor_adapter_at m t f"
  shows "ctor_adapter_at m' t f"
proof -
  have "load m' (t + 24) 8 = load m (t + 24) 8"
    by (rule agree_load [OF assms(1)]) (auto intro: in_range_sub_word)
  then show ?thesis using assms agree_code [of t 32 m m' ctor_code] by (simp add: ctor_adapter_at_def ctor_code_def)
qed

lemma store_pair_outside: "same_outside (\<lambda>b. in_range b a 16) m (store (store m a 8 v) (a + 8) 8 w)"
proof (rule same_outside_mono [OF same_outside_trans [OF same_outside_store same_outside_store]])
  fix b assume "in_range b a 8 \<or> in_range b (a + 8) 8"
  then show "in_range b a 16" using in_range_sub_word [of b a 8 8 16] by (auto elim: in_range_mono)
qed simp_all

lemma load_pair: "load (store (store m a 8 v) (a + 8) 8 w) a 8 = v" "load (store (store m a 8 v) (a + 8) 8 w) (a + 8) 8 = w"
  using disj_ahead [of 8 8 a] by (simp_all add: load_store_disj load_store_same)

text \<open>A call in progress has come back: execution is at the return address, the stack pointer is as it was at the call,
  and neither the adapter nor its stack frame was written.\<close>

definition call_returned :: "u64 \<Rightarrow> nat \<Rightarrow> nat \<Rightarrow> cpu \<Rightarrow> cpu \<Rightarrow> bool" where
  "call_returned t n k s s' \<longleftrightarrow> pc s' = gx s 30 \<and> gsp s' = gsp s \<and> agree t n (gmem s) (gmem s') \<and> agree (gsp s) k (gmem s) (gmem s')"

lemma ctor_adapter_run:
  assumes ad: "ctor_adapter_at (gmem s) t f" and pc: "pc s = t" and ap: "disj (gsp s - 16) 16 t 32"
  shows "\<exists>s1. cpu_run 3 s = Some s1 \<and> pc s1 = f \<and> gsp s1 = gsp s - 16 \<and> gx s1 30 = t + 12 \<and>
    (\<forall>r. r \<noteq> 16 \<and> r \<noteq> 30 \<longrightarrow> gx s1 r = gx s r) \<and>
    same_outside (\<lambda>b. in_range b (gsp s - 16) 16) (gmem s) (gmem s1) \<and>
    (\<forall>s2. call_returned t 32 16 s1 s2 \<longrightarrow>
      (\<exists>s3. cpu_run 2 s2 = Some s3 \<and> pc s3 = gx s 30 \<and> gx s3 0 = gx s 0 \<and> gx s3 30 = gx s 30 \<and> gsp s3 = gsp s \<and>
        (\<forall>r. r \<noteq> 0 \<and> r \<noteq> 30 \<longrightarrow> gx s3 r = gx s2 r) \<and> gmem s3 = gmem s2))"
proof -
  let ?a = "gsp s - 16"
  define m1 where "m1 = store (store (gmem s) ?a 8 (gx s 30)) (?a + 8) 8 (gx s 0)"
  have out: "same_outside (\<lambda>b. in_range b ?a 16) (gmem s) m1" unfolding m1_def by (rule store_pair_outside)
  have "agree t 32 (gmem s) m1"
    using out disj_ranges [OF ap] by (auto simp: agree_def same_outside_def)
  then have ad1: "ctor_adapter_at m1 t f" using ad by (rule agree_ctor_adapter)
  have w0: "load32 (gmem s) t = 0xA9BF03FE" using ad by (simp add: ctor_adapter_at_def ctor_code_def)
  have w1: "load32 m1 (t + 4) = 0x580000B0" "load32 m1 (t + 8) = 0xD63F0200" "load m1 (t + 24) 8 = f"
    using ad1 by (simp_all add: ctor_adapter_at_def ctor_code_def add.assoc)
  define s1 where "s1 = s\<lparr>pc := f, gsp := ?a, gmem := m1, gx := (gx s)(16 := f, 30 := t + 12)\<rparr>"
  have "store (store (gmem s) (gsp s - 16) 8 (gx s 30)) (gsp s - 8) 8 (gx s 0) = m1" by (simp add: m1_def)
  then have "cpu_run 3 s = Some s1"
    using w0 w1 step_stp_lr_x0 [of s] pc
    by (simp add: numeral_3_eq_3 step_ldr_20 step_blr s1_def add.assoc)
  moreover have "\<exists>s3. cpu_run 2 s2 = Some s3 \<and> pc s3 = gx s 30 \<and> gx s3 0 = gx s 0 \<and> gx s3 30 = gx s 30 \<and> gsp s3 = gsp s \<and>
        (\<forall>r. r \<noteq> 0 \<and> r \<noteq> 30 \<longrightarrow> gx s3 r = gx s2 r) \<and> gmem s3 = gmem s2"
    if "call_returned t 32 16 s1 s2" for s2
  proof -
    have r: "pc s2 = t + 12" "gsp s2 = ?a" "agree t 32 m1 (gmem s2)" "agree ?a 16 m1 (gmem s2)"
      using that by (simp_all add: call_returned_def s1_def)
    have "ctor_adapter_at (gmem s2) t f" using agree_ctor_adapter [OF r(3) ad1] .
    then have w2: "load32 (gmem s2) (t + 12) = 0xA8C103FE" "load32 (gmem s2) (t + 16) = 0xD65F03C0"
      by (simp_all add: ctor_adapter_at_def ctor_code_def add.assoc)
    have "load (gmem s2) ?a 8 = load m1 ?a 8"
      by (rule agree_load [OF r(4)]) (auto elim: in_range_mono)
    moreover have "load (gmem s2) (?a + 8) 8 = load m1 (?a + 8) 8"
      by (rule agree_load [OF r(4)], rule in_range_sub_word [of _ ?a 8 8]) simp_all
    ultimately have ld: "load (gmem s2) ?a 8 = gx s 30" "load (gmem s2) (?a + 8) 8 = gx s 0"
      unfolding m1_def by (simp_all only: load_pair)
    show ?thesis
      using step_ldp_lr_x0 [of s2] w2 r(1,2) ld
      by (simp add: numeral_2_eq_2 step_ret add.assoc)
  qed
  ultimately show ?thesis using out by (intro exI [of _ s1]) (simp add: s1_def)
qed

text \<open>C16: The constructor adapter. Executing a wrapper made for a constructor or destructor \<open>f\<close>, anywhere with 16 free
  bytes of stack, enters \<open>f\<close> with every argument register as the caller set it and a return address inside
  the wrapper; when \<open>f\<close> has returned, two more instructions bring execution back to the caller with its stack
  pointer and with \<^verbatim>\<open>this\<close> in x0, whatever \<open>f\<close> left there.\<close>

theorem ctor_adapter_returns_this:
  assumes "wrap_ctor_for_apple_abi env f st = (t, st')" "t \<noteq> f"
    and "agree t 32 (p_mem st') (gmem s)" "pc s = t" "disj (gsp s - 16) 16 t 32"
  shows "\<exists>s1. cpu_run 3 s = Some s1 \<and> pc s1 = f \<and> gsp s1 = gsp s - 16 \<and> gx s1 30 = t + 12 \<and>
    (\<forall>r. r \<noteq> 16 \<and> r \<noteq> 30 \<longrightarrow> gx s1 r = gx s r) \<and>
    same_outside (\<lambda>b. in_range b (gsp s - 16) 16) (gmem s) (gmem s1) \<and>
    (\<forall>s2. call_returned t 32 16 s1 s2 \<longrightarrow>
      (\<exists>s3. cpu_run 2 s2 = Some s3 \<and> pc s3 = gx s 30 \<and> gx s3 0 = gx s 0 \<and> gx s3 30 = gx s 30 \<and> gsp s3 = gsp s \<and>
        (\<forall>r. r \<noteq> 0 \<and> r \<noteq> 30 \<longrightarrow> gx s3 r = gx s2 r) \<and> gmem s3 = gmem s2))"
  by (rule ctor_adapter_run [OF agree_ctor_adapter [OF assms(3) wrap_ctor_adapter [OF assms(1,2)]] assms(4,5)])

section \<open>The variadic thunk\<close>

definition variadic_thunk_at :: "mem \<Rightarrow> u64 \<Rightarrow> variadic_info \<Rightarrow> u64 \<Rightarrow> bool" where
  "variadic_thunk_at m t vi f \<longleftrightarrow> code_at m t (variadic_code vi) \<and> load m (t + 48) 8 = f"

lemma create_variadic_thunk_at:
  assumes "create_variadic_thunk env f vi st = (t, st')" "t \<noteq> 0"
  shows "variadic_thunk_at (p_mem st') t vi f"
proof -
  have "variadic_code vi \<noteq> []" by (simp add: variadic_code_def)
  then show ?thesis
    using assms code_with_target [of "variadic_code vi" 48 "p_mem (map_variadic_pool env st)" t f]
    by (auto simp: create_variadic_thunk_def variadic_thunk_at_def Let_def split: if_splits)
qed

lemma agree_variadic_thunk:
  assumes "agree t 56 m m'" "variadic_thunk_at m t vi f"
  shows "variadic_thunk_at m' t vi f"
proof -
  have "load m' (t + 48) 8 = load m (t + 48) 8"
    by (rule agree_load [OF assms(1)]) (auto intro: in_range_sub_word)
  then show ?thesis using assms agree_code [of t 56 m m' "variadic_code vi"] by (simp add: variadic_thunk_at_def)
qed

lemma disj_shift:
  fixes a x y :: u64
  shows "disj (a + x) n (a + y) k = disj x n y k" "disj a n (a + y) k = disj 0 n y k" "disj (a + x) n a k = disj x n 0 k"
  by (simp_all add: disj_def)

text \<open>The frame of the thunk: the saved pair and the Linux argument list, which has the stack pointer of the arguments, two
  null pointers and two zero offsets.\<close>

definition va_frame :: "mem \<Rightarrow> u64 \<Rightarrow> u64 \<Rightarrow> u64 \<Rightarrow> u64 \<Rightarrow> mem" where
  "va_frame m a fp lr args =
     store (store (store (store (store (store (store m a 8 fp) (a + 8) 8 lr)
       (a + 16) 8 args) (a + 24) 8 0) (a + 32) 8 0) (a + 40) 4 0) (a + 44) 4 0"

lemma same_outside_frame_store:
  fixes a k :: u64
  assumes "same_outside (\<lambda>b. in_range b a 48) m m'" "unat k + n \<le> 48"
  shows "same_outside (\<lambda>b. in_range b a 48) m (store m' (a + k) n v)"
proof (rule same_outside_mono [OF same_outside_trans [OF assms(1) same_outside_store]])
  show "n < 2 ^ 64" using assms(2) by simp
  fix b assume "in_range b a 48 \<or> in_range b (a + k) n"
  then show "in_range b a 48" using in_range_sub_word [of b a k n 48] assms(2) by auto
qed

lemma va_frame_outside: "same_outside (\<lambda>b. in_range b a 48) m (va_frame m a fp lr args)"
  unfolding va_frame_def
  by (intro same_outside_frame_store)
    (use same_outside_frame_store [OF same_outside_refl, of 0 8 a m fp] in simp_all)

lemma load_zero4: "load (store m a 4 0) a 4 = 0"
  using load_store_same(2) [of m a 0] load_bound_bits [of 4 "store m a 4 0" a]
  by (simp add: load32_def store32_def word_unat_eq_iff unsigned_ucast_eq) (metis unsigned_take_bit_eq take_bit_word_eq_self)

lemma va_frame_loads:
  "load (va_frame m a fp lr args) a 8 = fp" "load (va_frame m a fp lr args) (a + 8) 8 = lr"
  "load (va_frame m a fp lr args) (a + 16) 8 = args" "load (va_frame m a fp lr args) (a + 24) 8 = 0"
  "load (va_frame m a fp lr args) (a + 32) 8 = 0" "load32 (va_frame m a fp lr args) (a + 40) = 0"
  "load32 (va_frame m a fp lr args) (a + 44) = 0"
  by (simp_all add: va_frame_def load32_def load_store_disj load_store_same load_zero4 disj_shift disj_def)

text \<open>Where the arguments of the caller are: on its stack, or where the list in the source register points.\<close>

definition variadic_args :: "variadic_info \<Rightarrow> cpu \<Rightarrow> u64" where
  "variadic_args vi s = (if vi_is_va_list vi then gx s (unat (vi_source_reg vi)) else gsp s)"

lemma variadic_enter:
  assumes th: "variadic_thunk_at (gmem s) t vi f" and pc: "pc s = t" and ap: "disj (gsp s - 48) 48 t 56"
    and regs: "unat (vi_dest_reg vi) < 8" "unat (vi_source_reg vi) < 8"
  shows "cpu_run 10 s = Some (s\<lparr>pc := f, gsp := gsp s - 48,
    gmem := va_frame (gmem s) (gsp s - 48) (gx s 29) (gx s 30) (variadic_args vi s),
    gx := (gx s)(29 := gsp s - 48, 8 := variadic_args vi s, unat (vi_dest_reg vi) := gsp s - 32, 16 := f, 30 := t + 40)\<rparr>)"
proof -
  define a where "a = gsp s - 48"
  have sp: "gsp s = a + 48" by (simp add: a_def)
  let ?args = "variadic_args vi s" and ?d = "unat (vi_dest_reg vi)" and ?r = "unat (vi_source_reg vi)"
  define m1 where "m1 = store (store (gmem s) a 8 (gx s 29)) (a + 8) 8 (gx s 30)"
  define m2 where "m2 = store m1 (a + 16) 8 ?args"
  define m3 where "m3 = store m2 (a + 24) 8 0"
  define m4 where "m4 = store m3 (a + 32) 8 0"
  define m5 where "m5 = store (store m4 (a + 40) 4 0) (a + 44) 4 0"
  have m5: "m5 = va_frame (gmem s) a (gx s 29) (gx s 30) ?args"
    by (simp add: m1_def m2_def m3_def m4_def m5_def va_frame_def)
  have o1: "same_outside (\<lambda>b. in_range b a 48) (gmem s) m1"
    unfolding m1_def by (rule same_outside_frame_store)
      (use same_outside_frame_store [OF same_outside_refl, of 0 8 a "gmem s" "gx s 29"] in simp_all)
  have o2: "same_outside (\<lambda>b. in_range b a 48) (gmem s) m2" unfolding m2_def by (rule same_outside_frame_store [OF o1]) simp
  have o3: "same_outside (\<lambda>b. in_range b a 48) (gmem s) m3" unfolding m3_def by (rule same_outside_frame_store [OF o2]) simp
  have o4: "same_outside (\<lambda>b. in_range b a 48) (gmem s) m4" unfolding m4_def by (rule same_outside_frame_store [OF o3]) simp
  have o5: "same_outside (\<lambda>b. in_range b a 48) (gmem s) m5" unfolding m5 by (rule va_frame_outside)
  have th': "variadic_thunk_at m t vi f" if "same_outside (\<lambda>b. in_range b a 48) (gmem s) m" for m
  proof (rule agree_variadic_thunk [OF _ th])
    show "agree t 56 (gmem s) m" using that disj_ranges [OF ap] by (auto simp: agree_def same_outside_def a_def)
  qed
  note code = variadic_thunk_at_def variadic_code_def add.assoc
  define g1 where "g1 = (gx s)(29 := a)"
  define g2 where "g2 = g1(8 := ?args)"
  define g3 where "g3 = g2(?d := a + 16)"
  define g4 where "g4 = g3(16 := f)"
  have 0: "cpu_step s = Some (s\<lparr>pc := t + 4, gsp := a, gmem := m1\<rparr>)"
    using step_stp_fp_lr [of s] th pc by (simp add: code m1_def a_def)
  have 1: "cpu_step (s\<lparr>pc := t + 4, gsp := a, gmem := m1\<rparr>) = Some (s\<lparr>pc := t + 8, gsp := a, gmem := m1, gx := g1\<rparr>)"
    using th' [OF o1] by (subst step_mov_fp) (simp_all add: code g1_def)
  have 2: "cpu_step (s\<lparr>pc := t + 8, gsp := a, gmem := m1, gx := g1\<rparr>) = Some (s\<lparr>pc := t + 12, gsp := a, gmem := m1, gx := g2\<rparr>)"
  proof (cases "vi_is_va_list vi")
    case True
    with th' [OF o1] show ?thesis
      by (subst step_mov_x8 [of _ ?r]) (use regs in \<open>auto simp: code g2_def g1_def variadic_args_def\<close>)
  next
    case False
    with th' [OF o1] show ?thesis
      by (subst step_add_x8_fp) (simp_all add: code g2_def g1_def variadic_args_def sp)
  qed
  have 3: "cpu_step (s\<lparr>pc := t + 12, gsp := a, gmem := m1, gx := g2\<rparr>) = Some (s\<lparr>pc := t + 16, gsp := a, gmem := m2, gx := g2\<rparr>)"
    using th' [OF o1] by (subst step_str_x8) (simp_all add: code m2_def g2_def)
  have 4: "cpu_step (s\<lparr>pc := t + 16, gsp := a, gmem := m2, gx := g2\<rparr>) = Some (s\<lparr>pc := t + 20, gsp := a, gmem := m3, gx := g2\<rparr>)"
    using th' [OF o2] by (subst step_str_xzr_24) (simp_all add: code m3_def)
  have 5: "cpu_step (s\<lparr>pc := t + 20, gsp := a, gmem := m3, gx := g2\<rparr>) = Some (s\<lparr>pc := t + 24, gsp := a, gmem := m4, gx := g2\<rparr>)"
    using th' [OF o3] by (subst step_str_xzr_32) (simp_all add: code m4_def)
  have 6: "cpu_step (s\<lparr>pc := t + 24, gsp := a, gmem := m4, gx := g2\<rparr>) = Some (s\<lparr>pc := t + 28, gsp := a, gmem := m5, gx := g2\<rparr>)"
    using th' [OF o4] by (subst step_stp_wzr) (simp_all add: code m5_def)
  have 7: "cpu_step (s\<lparr>pc := t + 28, gsp := a, gmem := m5, gx := g2\<rparr>) = Some (s\<lparr>pc := t + 32, gsp := a, gmem := m5, gx := g3\<rparr>)"
    using th' [OF o5] by (subst step_add_va [of _ ?d]) (use regs in \<open>simp_all add: code g3_def\<close>)
  have 8: "cpu_step (s\<lparr>pc := t + 32, gsp := a, gmem := m5, gx := g3\<rparr>) = Some (s\<lparr>pc := t + 36, gsp := a, gmem := m5, gx := g4\<rparr>)"
    using th' [OF o5] by (subst step_ldr_16) (simp_all add: code g4_def)
  have 9: "cpu_step (s\<lparr>pc := t + 36, gsp := a, gmem := m5, gx := g4\<rparr>) = Some (s\<lparr>pc := f, gsp := a, gmem := m5, gx := g4(30 := t + 40)\<rparr>)"
    using th' [OF o5] by (subst step_blr) (simp_all add: code g4_def)
  have ten: "(10 :: nat) = Suc (Suc (Suc (Suc (Suc (Suc (Suc (Suc (Suc (Suc 0)))))))))" by simp
  have e: "gsp s - 32 = a + 16" by (simp add: a_def)
  show ?thesis
    unfolding ten by (simp add: 0 1 2 3 4 5 6 7 8 9 m5 [symmetric] a_def [symmetric] g1_def [symmetric] g2_def [symmetric])
      (simp add: g4_def g3_def e)
qed

lemma variadic_leave:
  assumes th: "variadic_thunk_at (gmem s2) t vi f" and s2: "pc s2 = t + 40" "gsp s2 = a"
    and ld: "load (gmem s2) a 8 = fp" "load (gmem s2) (a + 8) 8 = lr"
  shows "cpu_run 2 s2 = Some (s2\<lparr>pc := lr, gsp := a + 48, gx := (gx s2)(29 := fp, 30 := lr)\<rparr>)"
proof -
  have "load32 (gmem s2) (t + 40) = 0xA8C37BFD" "load32 (gmem s2) (t + 44) = 0xD65F03C0"
    using th by (simp_all add: variadic_thunk_at_def variadic_code_def add.assoc)
  then show ?thesis using step_ldp_fp_lr [of s2] s2 ld by (simp add: numeral_2_eq_2 step_ret add.assoc)
qed

lemma variadic_regs: "vi \<in> set variadic_functions \<Longrightarrow> unat (vi_dest_reg vi) < 8 \<and> unat (vi_source_reg vi) < 8"
  by (auto simp: variadic_functions_def)

text \<open>C17: The variadic thunk. Executing the thunk made for a function of the table, anywhere with 48 free bytes of stack,
  enters its \<^verbatim>\<open>v*\<close> counterpart with the fixed arguments as the caller set them and, in the register of the last
  argument, the address of a Linux \<^verbatim>\<open>va_list\<close> that takes every argument from where Apple's convention put it; when
  the counterpart has returned, two more instructions bring execution back to the caller with its stack and frame
  pointer and the counterpart's result.\<close>

theorem variadic_thunk_passes_arguments:
  assumes "create_variadic_thunk env f vi st = (t, st')" "t \<noteq> 0" "vi \<in> set variadic_functions"
    and "agree t 56 (p_mem st') (gmem s)" "pc s = t" "disj (gsp s - 48) 48 t 56"
  shows "\<exists>s1. cpu_run 10 s = Some s1 \<and> pc s1 = f \<and> gsp s1 = gsp s - 48 \<and>
    (\<forall>r<8. r \<noteq> unat (vi_dest_reg vi) \<longrightarrow> gx s1 r = gx s r) \<and>
    (let va = gx s1 (unat (vi_dest_reg vi)) in
       load (gmem s1) va 8 = variadic_args vi s \<and> load (gmem s1) (va + 8) 8 = 0 \<and> load (gmem s1) (va + 16) 8 = 0 \<and>
       load32 (gmem s1) (va + 24) = 0 \<and> load32 (gmem s1) (va + 28) = 0) \<and>
    same_outside (\<lambda>b. in_range b (gsp s - 48) 48) (gmem s) (gmem s1) \<and>
    (\<forall>s2. call_returned t 56 48 s1 s2 \<longrightarrow>
      (\<exists>s3. cpu_run 2 s2 = Some s3 \<and> pc s3 = gx s 30 \<and> gx s3 0 = gx s2 0 \<and> gx s3 29 = gx s 29 \<and>
        gsp s3 = gsp s \<and> gmem s3 = gmem s2))"
proof -
  let ?a = "gsp s - 48" and ?d = "unat (vi_dest_reg vi)"
  let ?m = "va_frame (gmem s) ?a (gx s 29) (gx s 30) (variadic_args vi s)"
  have regs: "?d < 8" "unat (vi_source_reg vi) < 8" using variadic_regs [OF assms(3)] by simp_all
  have th: "variadic_thunk_at (gmem s) t vi f"
    by (rule agree_variadic_thunk [OF assms(4) create_variadic_thunk_at [OF assms(1,2)]])
  define s1 where "s1 = s\<lparr>pc := f, gsp := ?a, gmem := ?m,
    gx := (gx s)(29 := ?a, 8 := variadic_args vi s, ?d := gsp s - 32, 16 := f, 30 := t + 40)\<rparr>"
  have run: "cpu_run 10 s = Some s1" unfolding s1_def by (rule variadic_enter [OF th assms(5,6) regs])
  have va: "gx s1 ?d = ?a + 16" using regs by (simp add: s1_def)
  have ret: "\<exists>s3. cpu_run 2 s2 = Some s3 \<and> pc s3 = gx s 30 \<and> gx s3 0 = gx s2 0 \<and> gx s3 29 = gx s 29 \<and>
        gsp s3 = gsp s \<and> gmem s3 = gmem s2" if "call_returned t 56 48 s1 s2" for s2
  proof -
    have r: "pc s2 = t + 40" "gsp s2 = ?a" "agree t 56 ?m (gmem s2)" "agree ?a 48 ?m (gmem s2)"
      using that by (simp_all add: call_returned_def s1_def)
    have "agree t 56 (gmem s) ?m"
      using va_frame_outside [of ?a "gmem s"] disj_ranges [OF assms(6)] unfolding agree_def same_outside_def by blast
    then have "variadic_thunk_at (gmem s2) t vi f" using th r(3) agree_variadic_thunk by blast
    moreover have "load (gmem s2) ?a 8 = load ?m ?a 8"
      by (rule agree_load [OF r(4)]) (auto elim: in_range_mono)
    then have "load (gmem s2) ?a 8 = gx s 29" by (simp only: va_frame_loads)
    moreover have "load (gmem s2) (?a + 8) 8 = load ?m (?a + 8) 8"
      by (rule agree_load [OF r(4)], rule in_range_sub_word [of _ ?a 8 8]) simp_all
    then have "load (gmem s2) (?a + 8) 8 = gx s 30" by (simp only: va_frame_loads)
    ultimately show ?thesis using variadic_leave [OF _ r(1,2)] by simp
  qed
  have "load (gmem s1) (?a + 16 + 8) 8 = 0" "load (gmem s1) (?a + 16 + 16) 8 = 0" "load32 (gmem s1) (?a + 16 + 24) = 0"
    "load32 (gmem s1) (?a + 16 + 28) = 0" "load (gmem s1) (?a + 16) 8 = variadic_args vi s"
    using va_frame_loads [of "gmem s" ?a] by (simp_all add: s1_def)
  with run va ret va_frame_outside [of ?a "gmem s"] show ?thesis
    by (intro exI [of _ s1]) (simp add: s1_def Let_def)
qed

section \<open>Stubs\<close>

text \<open>A return-0 stub. Calling the stub given out for an unresolved symbol returns to the caller in two
  instructions with 0 as result and nothing else changed.\<close>

lemma return0_stub_returns_zero:
  assumes "alloc_return0_stub env st = (t, st')" "t \<noteq> 0" "agree t 8 (p_mem st') (gmem s)" "pc s = t"
  shows "cpu_run 2 s = Some (s\<lparr>pc := gx s 30, gx := (gx s)(0 := 0)\<rparr>)"
proof -
  have "code_at (p_mem st') t return0_code"
    using assms(1,2) code_at_store_words [of return0_code "p_mem (map_stub_pool env st)" t]
    by (auto simp: alloc_return0_stub_def return0_code_def Let_def split: if_splits)
  then have "code_at (gmem s) t return0_code" using agree_code [OF assms(3), of return0_code] by (simp add: return0_code_def)
  then have "load32 (gmem s) t = 0x52800000" "load32 (gmem s) (t + 4) = 0xD65F03C0" by (simp_all add: return0_code_def)
  then show ?thesis using step_mov_w0_0 [of s] assms(4) by (simp add: numeral_2_eq_2 step_ret)
qed

end
