(* ===== verification/Hooks_Valid.thy ===== *)
theory Hooks_Valid
  imports Address_Hooks "HOL-Library.Multiset"
begin

text \<open>
  What the validation of the address hooks establishes: every hook sits at the start of a function of
  its own in an executable section, with room for its expected bytes, which are there; its host
  function is found; and the library handles that were opened are exactly those of the hooks.
\<close>

section \<open>Parsing\<close>

lemma parse_byte_pairs_length: "parse_byte_pairs s = Some bs \<Longrightarrow> length bs = length s div 2"
  by (induction s arbitrary: bs rule: parse_byte_pairs.induct) (auto split: option.splits)

lemma parse_expected_bytes_length: "parse_expected_bytes s = Some bs \<Longrightarrow> 4 \<le> length bs"
  by (auto simp: parse_expected_bytes_def dest!: parse_byte_pairs_length split: if_splits)

definition hook_fresh :: "address_hook \<Rightarrow> bool" where
  "hook_fresh h \<longleftrightarrow> 4 \<le> length (h_expected h) \<and> h_lib_handle h = 0"

lemma parse_address_hook_line_fresh:
  "parse_address_hook_line l = Some (Some h) \<Longrightarrow> hook_fresh h"
  by (auto simp: parse_address_hook_line_def hook_fresh_def zero_hook_def Let_def parse_expected_bytes_length
      split: list.splits prod.splits option.splits if_splits)

lemma parse_hook_lines_fresh: "parse_hook_lines ls = Some hooks \<Longrightarrow> list_all hook_fresh hooks"
  by (induction ls arbitrary: hooks) (auto dest: parse_address_hook_line_fresh split: option.splits)

lemma load_address_hooks_fresh: "load_address_hooks env path = Some hooks \<Longrightarrow> list_all hook_fresh hooks \<and> hooks \<noteq> []"
  by (auto simp: load_address_hooks_def dest: parse_hook_lines_fresh split: option.splits if_splits)

section \<open>Function starts\<close>

lemma decode_starts_sorted:
  "decode_starts bs current = Some ss \<Longrightarrow> sorted_wrt (<) ss \<and> (\<forall>s\<in>set ss. current < s)"
proof (induction bs current arbitrary: ss rule: decode_starts.induct)
  case (1 bs current)
  consider "ss = []" | delta bs' ss' where "bs \<noteq> []" "decode_uleb bs 0 0 = Some (delta, bs')" "delta \<noteq> 0"
      "\<not> delta > - 1 - current" "decode_starts bs' (current + delta) = Some ss'" "ss = (current + delta) # ss'"
    using 1(2) by (subst (asm) decode_starts.simps) (auto split: if_splits option.splits)
  then show ?case
  proof cases
    case 1
    then show ?thesis by simp
  next
    case 2
    have lt: "current < current + delta"
    proof -
      have "unat delta \<le> unat (- 1 - current)" using 2(4) by (simp add: word_le_nat_alt not_less)
      moreover have "unat (- 1 - current) = 2 ^ 64 - 1 - unat current"
        using unat_minus_one_word unsigned_less [of current, where ?'a = nat] by (subst unat_sub) (simp_all add: word_le_nat_alt)
      ultimately have "unat current + unat delta < 2 ^ 64"
        using unsigned_less [of current, where ?'a = nat] by simp
      moreover have "0 < unat delta" using 2(3) by (simp add: unat_gt_0)
      ultimately show ?thesis by (simp add: word_less_nat_alt unat_word_ariths)
    qed
    have "sorted_wrt (<) ss' \<and> (\<forall>s\<in>set ss'. current + delta < s)"
      using "1.IH" [OF 2(1,2) refl 2(3,4,5)] .
    with lt 2(6) show ?thesis by auto
  qed
qed

lemma decode_function_starts_sorted:
  "decode_function_starts m mh slide = Some ss \<Longrightarrow> sorted_wrt (<) ss"
  by (auto simp: decode_function_starts_def Let_def dest: decode_starts_sorted split: if_splits option.splits)

lemma start_end_Some:
  assumes "start_end v fin ss = Some e" "sorted_wrt (<) ss" "v < fin"
  shows "v \<in> set ss \<and> v < e \<and> e \<le> fin \<and> (\<forall>s\<in>set ss. v < s \<longrightarrow> e \<le> s)"
  using assms
proof (induction ss)
  case Nil
  then show ?case by simp
next
  case (Cons s ss)
  show ?case
  proof (cases "s = v")
    case False
    with Cons have "v \<in> set ss \<and> v < e \<and> e \<le> fin \<and> (\<forall>s\<in>set ss. v < s \<longrightarrow> e \<le> s)" by simp
    moreover from this Cons.prems(2) have "\<not> v < s" by (auto dest: less_asym)
    ultimately show ?thesis by simp
  next
    case True
    show ?thesis
    proof (cases ss)
      case Nil
      with True Cons.prems show ?thesis by simp
    next
      case (Cons s2 ss')
      with True Cons.prems show ?thesis by (auto split: if_splits intro: less_imp_le)
    qed
  qed
qed

lemma executable_section_end_holds:
  assumes "executable_section_end m mh v \<noteq> 0"
  shows "\<exists>seg\<in>set (segments m mh). \<exists>sec\<in>set (read_sections m seg). text_named m seg \<and>
    seg_initprot seg AND VM_PROT_EXECUTE \<noteq> 0 \<and> section_holds v sec \<and>
    executable_section_end m mh v = sec_addr sec + sec_size sec"
proof -
  let ?f = "\<lambda>seg section_end. if text_named m seg \<and> seg_initprot seg AND VM_PROT_EXECUTE \<noteq> 0 then
      (case find (section_holds v) (read_sections m seg) of None \<Rightarrow> section_end | Some sec \<Rightarrow> sec_addr sec + sec_size sec)
      else section_end"
  have "fold ?f segs 0 = 0 \<or> (\<exists>seg\<in>set segs. \<exists>sec\<in>set (read_sections m seg). text_named m seg \<and>
      seg_initprot seg AND VM_PROT_EXECUTE \<noteq> 0 \<and> section_holds v sec \<and> fold ?f segs 0 = sec_addr sec + sec_size sec)" for segs
  proof (induction segs rule: rev_induct)
    case Nil
    then show ?case by simp
  next
    case (snoc seg segs)
    show ?case
    proof (cases "text_named m seg \<and> seg_initprot seg AND VM_PROT_EXECUTE \<noteq> 0 \<and> find (section_holds v) (read_sections m seg) \<noteq> None")
      case True
      then obtain sec where "find (section_holds v) (read_sections m seg) = Some sec" by auto
      moreover from this have "sec \<in> set (read_sections m seg)" "section_holds v sec"
        by (auto simp: find_Some_iff)
      ultimately show ?thesis using True by auto
    next
      case False
      then have "?f seg x = x" for x by auto
      with snoc show ?thesis by auto
    qed
  qed
  from this [of "segments m mh"] show ?thesis using assms unfolding executable_section_end_def by blast
qed

lemma section_holds_bounds:
  assumes "section_holds v sec"
  shows "unat (sec_addr sec + sec_size sec) = unat (sec_addr sec) + unat (sec_size sec)"
    "unat (sec_addr sec) \<le> unat v" "unat v < unat (sec_addr sec) + unat (sec_size sec)"
proof -
  have b: "sec_addr sec \<le> v" "v < sec_addr sec + sec_size sec" using assms by (auto simp: section_holds_def)
  then have "sec_addr sec \<le> sec_addr sec + sec_size sec" by simp
  then show "unat (sec_addr sec + sec_size sec) = unat (sec_addr sec) + unat (sec_size sec)"
    by (simp add: unat_plus_simple)
  with b show "unat (sec_addr sec) \<le> unat v" "unat v < unat (sec_addr sec) + unat (sec_size sec)"
    by (simp_all add: word_le_nat_alt word_less_nat_alt)
qed

section \<open>Validation\<close>

text \<open>The facts a validated hook carries, relative to the memory of the run.\<close>

definition hook_valid :: "tramp_env \<Rightarrow> mem \<Rightarrow> u64 \<Rightarrow> u64 \<Rightarrow> u64 list \<Rightarrow> address_hook \<Rightarrow> address_hook \<Rightarrow> bool" where
  "hook_valid env m mh slide starts h0 h \<longleftrightarrow>
     h_vmaddr h = h_vmaddr h0 \<and> h_lib_path h = h_lib_path h0 \<and> h_symbol h = h_symbol h0 \<and> h_expected h = h_expected h0 \<and>
     h_runtime_addr h = h_vmaddr h0 + slide \<and> \<not> h_vmaddr h0 > - 1 - slide \<and>
     (\<exists>e. executable_function_end m mh (h_vmaddr h0) starts = Some e \<and>
        \<not> length (h_expected h0) > unat (e - h_vmaddr h0)) \<and>
     mem_bytes m (h_vmaddr h0 + slide) (length (h_expected h0)) = h_expected h0 \<and>
     h_original_insn h = load32 m (h_vmaddr h0 + slide) \<and>
     h_lib_handle h = te_dlopen env (Some (h_lib_path h0)) \<and> h_lib_handle h \<noteq> 0 \<and>
     h_target h = te_dlsym env (h_lib_handle h) (h_symbol h0) \<and> h_target h \<noteq> 0"

definition open_handles :: "address_hook list \<Rightarrow> u64 multiset" where
  "open_handles hooks = mset (filter (\<lambda>x. x \<noteq> 0) (map h_lib_handle hooks))"

definition only_handles :: "tramp \<Rightarrow> tramp \<Rightarrow> bool" where
  "only_handles st st' \<longleftrightarrow> (\<exists>hs. st' = st\<lparr>t_handles := hs\<rparr>)"

lemma only_handles_trans: "only_handles a b \<Longrightarrow> only_handles b c \<Longrightarrow> only_handles a c"
  by (auto simp: only_handles_def)

lemma only_handles_intro [simp]: "only_handles st (st\<lparr>t_handles := hs\<rparr>)" "only_handles st st"
  by (auto simp: only_handles_def intro: exI [of _ "t_handles st"])

lemma only_handles_fields:
  assumes "only_handles st st'"
  shows "t_mem st' = t_mem st" "island_pool st' = island_pool st" "island_pool_size st' = island_pool_size st"
    "island_pool_used st' = island_pool_used st" "t_prots st' = t_prots st" "stub_island_addr st' = stub_island_addr st"
    "abort_caller_addr st' = abort_caller_addr st"
  using assms by (auto simp: only_handles_def)

lemma validate_hook_result:
  assumes "validate_hook env mh slide starts earlier h0 st = (ok, h, st')" "h_lib_handle h0 = 0"
  shows "only_handles st st' \<and> mset (t_handles st') = open_handles [h] + mset (t_handles st) \<and>
    h_lib_handle h0 = 0 \<and> (ok \<longrightarrow> hook_valid env (t_mem st) mh slide starts h0 h \<and> h_vmaddr h0 \<notin> h_vmaddr ` set earlier)"
  using assms
  by (auto simp: validate_hook_def hook_valid_def open_handles_def list_ex_iff Let_def split: if_splits option.splits)

lemma validate_hooks_result:
  assumes "validate_hooks env mh slide starts earlier hooks0 st = (ok, hooks, st')" "list_all (\<lambda>h. h_lib_handle h = 0) hooks0"
    and "distinct (map h_vmaddr earlier)"
  shows "only_handles st st' \<and>
    mset (t_handles st') + open_handles earlier = open_handles hooks + mset (t_handles st) \<and>
    (ok \<longrightarrow> (\<exists>hs. hooks = earlier @ hs \<and> list_all2 (hook_valid env (t_mem st) mh slide starts) hooks0 hs) \<and>
       distinct (map h_vmaddr hooks))"
  using assms
proof (induction hooks0 arbitrary: earlier st)
  case Nil
  then show ?case by auto
next
  case (Cons h0 hs0)
  obtain ok1 h st1 where v: "validate_hook env mh slide starts earlier h0 st = (ok1, h, st1)"
    by (metis surj_pair)
  have r: "only_handles st st1" "mset (t_handles st1) = open_handles [h] + mset (t_handles st)"
    "ok1 \<Longrightarrow> hook_valid env (t_mem st) mh slide starts h0 h \<and> h_vmaddr h0 \<notin> h_vmaddr ` set earlier"
    using validate_hook_result [OF v] Cons.prems(2) by auto
  have z: "open_handles hs0 = {#}"
    using Cons.prems(2) by (auto simp: open_handles_def list_all_iff intro!: filter_False)
  have m1: "t_mem st1 = t_mem st" using only_handles_fields [OF r(1)] by simp
  show ?case
  proof (cases ok1)
    case False
    then have e: "ok = False" "hooks = earlier @ h # hs0" "st' = st1" using Cons.prems(1) v by auto
    show ?thesis using r z by (simp add: e) (simp add: open_handles_def)
  next
    case True
    then have "validate_hooks env mh slide starts (earlier @ [h]) hs0 st1 = (ok, hooks, st')" using Cons.prems(1) v by simp
    moreover have "distinct (map h_vmaddr (earlier @ [h]))" using Cons.prems(3) r(3) [OF True] by (simp add: hook_valid_def)
    ultimately have ih: "only_handles st1 st'"
      "mset (t_handles st') + open_handles (earlier @ [h]) = open_handles hooks + mset (t_handles st1)"
      "ok \<longrightarrow> (\<exists>hs. hooks = (earlier @ [h]) @ hs \<and> list_all2 (hook_valid env (t_mem st1) mh slide starts) hs0 hs) \<and>
         distinct (map h_vmaddr hooks)"
      using Cons.IH [of "earlier @ [h]" st1] Cons.prems(2) by auto
    have "only_handles st st'" using only_handles_trans [OF r(1) ih(1)] .
    moreover have "mset (t_handles st') + open_handles earlier = open_handles hooks + mset (t_handles st)"
      using ih(2) r(2) by (simp add: open_handles_def)
    ultimately show ?thesis using ih(3) r(3) [OF True] m1 by auto
  qed
qed

lemma free_address_hooks_fields: "only_handles st (free_address_hooks hooks c st)"
proof (induction hooks arbitrary: st)
  case Nil
  then show ?case by (simp add: free_address_hooks_def)
next
  case (Cons h hooks)
  let ?st = "if c \<and> h_lib_handle h \<noteq> 0 then st\<lparr>t_handles := remove1 (h_lib_handle h) (t_handles st)\<rparr> else st"
  have "only_handles st ?st" by simp
  from only_handles_trans [OF this Cons] show ?case by (simp add: free_address_hooks_def)
qed

lemma free_address_hooks_handles:
  "mset (t_handles (free_address_hooks hooks c st)) = mset (t_handles st) - (if c then open_handles hooks else {#})"
  by (induction hooks arbitrary: st) (auto simp: free_address_hooks_def open_handles_def)

lemma free_address_hooks_False [simp]: "free_address_hooks hooks False st = st"
  by (induction hooks arbitrary: st) (auto simp: free_address_hooks_def)

lemma free_address_hooks_no_handle:
  "list_all (\<lambda>h. h_lib_handle h = 0) hooks \<Longrightarrow> free_address_hooks hooks c st = st"
  by (induction hooks arbitrary: st) (auto simp: free_address_hooks_def)

end
