(* ===== verification/Trampoline_Correct.thy ===== *)
theory Trampoline_Correct
  imports Trampoline Guest_Memory Arm64_Enc
begin

text \<open>
  Islands and trampolines: a patched entry reaches its target with only \<open>x16\<close> changed, the pool is never
  exceeded, and a write touches only the entry word and a free island.
\<close>

section \<open>The machine of a trampoline\<close>

text \<open>
  The instructions that make up a trampoline, executed from memory: an unconditional branch, a load
  of a 64-bit literal, a branch to a register, and the moves and returns of a stub. The state is the
  program counter and the registers \<open>x0\<close> to \<open>x30\<close>.
\<close>

definition jump_step :: "mem \<Rightarrow> u64 \<times> (nat \<Rightarrow> u64) \<Rightarrow> (u64 \<times> (nat \<Rightarrow> u64)) option" where
  "jump_step m = (\<lambda>(pc, r).
    let i = load32 m pc; rd = unat (i AND 31); rn = unat (drop_bit 5 i AND 31) in
    if i AND 0xFC000000 = 0x14000000 then Some (branch_target pc i, r)
    else if i AND 0xFF000000 = 0x58000000 \<and> rd < 31 then
      Some (pc + 4, r(rd := load m (pc + word_of_int (4 * signed_take_bit 18 (uint (drop_bit 5 i)))) 8))
    else if i AND 0xFFFFFC1F = 0xD61F0000 \<and> rn < 31 then Some (r rn, r)
    else if i AND 0xFFFFFC1F = 0xD65F0000 \<and> rn < 31 then Some (r rn, r)
    else if i AND 0xFFE00000 = 0x52800000 \<and> rd < 31 then
      Some (pc + 4, r(rd := ucast (drop_bit 5 i AND 0xFFFF)))
    else None)"

fun jump_run :: "mem \<Rightarrow> nat \<Rightarrow> u64 \<times> (nat \<Rightarrow> u64) \<Rightarrow> (u64 \<times> (nat \<Rightarrow> u64)) option" where
  "jump_run m 0 s = Some s"
| "jump_run m (Suc n) s = (case jump_step m s of None \<Rightarrow> None | Some s \<Rightarrow> jump_run m n s)"

lemma jump_step_branch:
  assumes "load32 m pc = w" "w AND 0xFC000000 = 0x14000000"
  shows "jump_step m (pc, r) = Some (branch_target pc w, r)"
  using assms by (simp add: jump_step_def)

lemma jump_step_ldr:
  assumes "load32 m pc = 0x58000050"
  shows "jump_step m (pc, r) = Some (pc + 4, r(16 := load m (pc + 8) 8))"
  using assms by (simp add: jump_step_def)

lemma jump_step_ldr_x0:
  assumes "load32 m pc = 0x58000040"
  shows "jump_step m (pc, r) = Some (pc + 4, r(0 := load m (pc + 8) 8))"
  using assms by (simp add: jump_step_def)

lemma jump_step_br:
  assumes "load32 m pc = 0xd61f0200"
  shows "jump_step m (pc, r) = Some (r 16, r)"
  using assms by (simp add: jump_step_def)

lemma jump_step_mov_w0:
  assumes "load32 m pc = 0x52800000"
  shows "jump_step m (pc, r) = Some (pc + 4, r(0 := 0))"
  using assms by (simp add: jump_step_def)

lemma jump_step_ret:
  assumes "load32 m pc = 0xD65F03C0"
  shows "jump_step m (pc, r) = Some (r 30, r)"
  using assms by (simp add: jump_step_def)

section \<open>Islands\<close>

section \<open>Branches\<close>

lemma sint_drop_2: "sint (signed_drop_bit 2 (d :: u64)) = sint d div 4"
  by (simp add: sint_signed_drop_bit_eq drop_bit_eq_div)

lemma branch_too_far_iff: "branch_too_far d \<longleftrightarrow> \<not> arm64_branch_in_range d"
  unfolding branch_too_far_def arm64_branch_in_range_def Let_def sint_drop_2 by auto

lemma branch_insn_enc: "branch_insn d = enc_b (ucast (signed_drop_bit 2 d))"
proof -
  have "(ucast (x AND 0x03FFFFFF) :: u32) = ucast x AND 0x03FFFFFF" for x :: u64
    by (simp add: unsigned_and_eq)
  then show ?thesis by (simp add: branch_insn_def enc_b_def)
qed

lemma enc_b_top [simp]: "enc_b w AND 0xFC000000 = 0x14000000"
  by (simp add: enc_defs bit.conj_disj_distrib2 and.assoc)

lemma branch_insn_target:
  assumes "\<not> branch_too_far (t - a)"
  shows "branch_target a (branch_insn (t - a)) = t"
  using in_range_word_offset [of "t - a"] assms
  by (simp add: branch_too_far_iff branch_insn_enc branch_target_def branch_displacement_enc)

lemma jump_step_branch_insn:
  assumes "load32 m pc = branch_insn (t - pc)" "\<not> branch_too_far (t - pc)"
  shows "jump_step m (pc, r) = Some (t, r)"
  using jump_step_branch [OF assms(1)] branch_insn_target [OF assms(2)] by (simp add: branch_insn_enc)

section \<open>Islands in memory\<close>

lemma in_range_16:
  "in_range b a 4 \<Longrightarrow> in_range b a 16"
  "in_range b (a + 4) 4 \<Longrightarrow> in_range b a 16"
  "in_range b (a + 8) 8 \<Longrightarrow> in_range b a 16"
  "in_range b (a + 8) 4 \<Longrightarrow> in_range b a 16"
  "in_range b (a + 12) 4 \<Longrightarrow> in_range b a 16"
  using in_range_sub [of b a 4 4 16] in_range_sub [of b a 8 8 16] in_range_sub [of b a 8 4 16] in_range_sub [of b a 12 4 16]
  by (auto elim: in_range_mono)

lemma same_outside_island: "same_outside (\<lambda>b. in_range b a 16) m (store_island m a t)"
  unfolding same_outside_def store_island_def store32_def
proof (intro allI impI)
  fix b assume "\<not> in_range b a 16"
  then have "\<not> in_range b a 4" "\<not> in_range b (a + 4) 4" "\<not> in_range b (a + 8) 8"
    using in_range_16(1,2,3) [of b a] by blast+
  then show "store (store (store m a 4 (ucast TRAMPOLINE_LDR_X16)) (a + 4) 4 (ucast TRAMPOLINE_BR_X16)) (a + 8) 8 t b = m b"
    using store_outside [of b a 4] store_outside [of b "a + 4" 4] store_outside [of b "a + 8" 8] by simp
qed

section \<open>Islands\<close>

definition island_at :: "mem \<Rightarrow> u64 \<Rightarrow> u64 \<Rightarrow> bool" where
  "island_at m a t \<longleftrightarrow> load32 m a = TRAMPOLINE_LDR_X16 \<and> load32 m (a + 4) = TRAMPOLINE_BR_X16 \<and> load m (a + 8) 8 = t"

lemma island_at_store: "island_at (store_island m a t) a t"
proof -
  have d: "disj a 4 (a + 4) 4" "disj a 4 (a + 8) 8" "disj (a + 4) 4 (a + 8) 8"
    by (simp_all add: disj_def)
  let ?m = "store32 (store32 m a TRAMPOLINE_LDR_X16) (a + 4) TRAMPOLINE_BR_X16"
  have "load32 (store ?m (a + 8) 8 t) a = load32 ?m a" "load32 (store ?m (a + 8) 8 t) (a + 4) = load32 ?m (a + 4)"
    using d by (simp_all add: load32_def load_store_disj)
  then show ?thesis
    using load32_store32_disj [OF d(1)] by (simp add: island_at_def store_island_def load_store_same)
qed

lemma island_at_outside:
  assumes "island_at m a t" "same_outside P m m'" "\<And>b. in_range b a 16 \<Longrightarrow> \<not> P b"
  shows "island_at m' a t"
  using assms(1) same_outside_load32 [OF assms(2)] same_outside_load [OF assms(2)] assms(3) in_range_16(1,2,3)
  unfolding island_at_def by simp

lemma island_jumps:
  assumes "island_at m a t"
  shows "jump_run m 2 (a, r) = Some (t, r(16 := t))"
  using assms jump_step_ldr [of m a r] jump_step_br [of m "a + 4" "r(16 := t)"]
  by (simp add: island_at_def TRAMPOLINE_LDR_X16_def TRAMPOLINE_BR_X16_def numeral_2_eq_2)

text \<open>A redirected function: the entry reaches the target in three instructions, with no register but
  \<open>x16\<close> changed.\<close>

definition redirects :: "mem \<Rightarrow> u64 \<Rightarrow> u64 \<Rightarrow> bool" where
  "redirects m func target \<longleftrightarrow> (\<forall>r. jump_run m 3 (func, r) = Some (target, r(16 := target)))"

lemma redirectsI:
  assumes "load32 m func = branch_insn (a - func)" "\<not> branch_too_far (a - func)" "island_at m a t"
  shows "redirects m func t"
  using jump_step_branch_insn [OF assms(1,2)] island_jumps [OF assms(3)]
  by (simp add: redirects_def numeral_3_eq_3 numeral_2_eq_2)

section \<open>The pool\<close>

text \<open>The pool ends an island before the end of the address space and its islands in use fit.\<close>

definition pool_ok :: "tramp \<Rightarrow> bool" where
  "pool_ok st \<longleftrightarrow> unat (island_pool st) + unat (island_pool_size st) + 16 < 2 ^ 64 \<and>
     island_pool_used st \<le> island_pool_size st"

abbreviation pool_addr :: "tramp \<Rightarrow> u64 \<Rightarrow> bool" where
  "pool_addr st b \<equiv> in_range b (island_pool st) (unat (island_pool_size st))"

abbreviation pool_free :: "tramp \<Rightarrow> u64 \<Rightarrow> bool" where
  "pool_free st b \<equiv> in_range b (pool_next st) (unat (island_pool_size st) - unat (island_pool_used st))"

lemma pool_arith:
  assumes "pool_ok st" "\<not> pool_full st"
  shows "unat (island_pool_used st + 16) = unat (island_pool_used st) + 16"
    "unat (island_pool_used st) + 16 \<le> unat (island_pool_size st)"
    "pool_next st \<noteq> 0"
proof -
  have lt: "unat (island_pool st) + unat (island_pool_size st) + 16 < 2 ^ 64"
    "unat (island_pool_used st) \<le> unat (island_pool_size st)" "unat (island_pool st) \<noteq> 0"
    using assms by (auto simp: pool_ok_def pool_full_def word_le_nat_alt unat_eq_0)
  show u: "unat (island_pool_used st + 16) = unat (island_pool_used st) + 16"
    using lt by (simp add: unat_word_ariths)
  show "unat (island_pool_used st) + 16 \<le> unat (island_pool_size st)"
    using assms(2) unfolding u [symmetric] by (simp add: pool_full_def ISLAND_SIZE_def word_less_nat_alt)
  have "unat (pool_next st) = unat (island_pool st) + unat (island_pool_used st)"
    using lt by (simp add: pool_next_def unat_word_ariths)
  then show "pool_next st \<noteq> 0" using lt(3) by (metis add_is_0 unat_0)
qed

lemma pool_ok_mem [simp]: "pool_ok (st\<lparr>t_mem := m\<rparr>) = pool_ok st"
  "pool_ok (st\<lparr>t_mem := m, island_pool_used := u\<rparr>) = pool_ok (st\<lparr>island_pool_used := u\<rparr>)"
  by (simp_all add: pool_ok_def)

lemma pool_ok_used:
  assumes "pool_ok st" "\<not> pool_full st"
  shows "pool_ok (st\<lparr>island_pool_used := island_pool_used st + ISLAND_SIZE\<rparr>)"
  using pool_arith [OF assms] assms(1) by (simp add: pool_ok_def ISLAND_SIZE_def word_le_nat_alt)

text \<open>What one trampoline does.\<close>

lemma write_trampoline_ok:
  assumes "\<not> pool_full st" "pool_ok st" "\<not> branch_too_far (pool_next st - func)"
  shows "write_trampoline func target st =
    (True, st\<lparr>t_mem := store32 (store_island (t_mem st) (pool_next st) target) func (branch_insn (pool_next st - func)),
       island_pool_used := island_pool_used st + ISLAND_SIZE\<rparr>)"
  using assms pool_arith(3) by (simp add: write_trampoline_def alloc_island_def Let_def)

lemma write_trampoline_inv:
  assumes "pool_ok st" "write_trampoline func target st = (ok, st')"
  shows "pool_ok st' \<and> island_pool st' = island_pool st \<and> island_pool_size st' = island_pool_size st \<and>
    island_pool_used st \<le> island_pool_used st' \<and>
    text_patch_base st' = text_patch_base st \<and> text_patch_size st' = text_patch_size st \<and>
    same_outside (\<lambda>b. in_range b (pool_next st) 16 \<and> \<not> pool_full st \<or> ok \<and> in_range b func 4) (t_mem st) (t_mem st')"
proof (cases "pool_full st")
  case True
  then show ?thesis using assms by (auto simp: write_trampoline_def alloc_island_def)
next
  case False
  note ar = pool_arith [OF assms(1) False]
  have le: "island_pool_used st \<le> island_pool_used st + ISLAND_SIZE"
    using ar(1) by (simp add: word_le_nat_alt ISLAND_SIZE_def)
  have i: "same_outside (\<lambda>b. in_range b (pool_next st) 16) (t_mem st) (store_island (t_mem st) (pool_next st) target)"
    by (rule same_outside_island)
  show ?thesis
    using assms(2) False ar le pool_ok_used [OF assms(1) False]
      i same_outside_trans [OF i same_outside_store32 [of func]]
    by (auto simp: write_trampoline_def alloc_island_def Let_def split: if_splits)
qed

lemma write_trampoline_jumps:
  assumes "pool_ok st" "write_trampoline func target st = (True, st')"
    and "disj func 4 (island_pool st) (unat (island_pool_size st))"
  shows "redirects (t_mem st') func target \<and> pool_ok st' \<and>
    same_outside (\<lambda>b. pool_free st b \<or> in_range b func 4) (t_mem st) (t_mem st')"
proof -
  have nf: "\<not> pool_full st" using assms(2) by (auto simp: write_trampoline_def alloc_island_def)
  note ar = pool_arith [OF assms(1) nf]
  let ?a = "pool_next st"
  have far: "\<not> branch_too_far (?a - func)"
    using assms(2) nf ar(3) by (auto simp: write_trampoline_def alloc_island_def Let_def split: if_splits)
  note st' = write_trampoline_ok [OF nf assms(1) far, of target]
  have sub: "in_range b ?a 16 \<Longrightarrow> pool_addr st b" for b
    using in_range_sub [of b "island_pool st" "unat (island_pool_used st)" 16 "unat (island_pool_size st)"] ar(2)
      unsigned_less [of "island_pool_size st", where ?'a = nat] by (simp add: pool_next_def)
  have free: "in_range b ?a 16 \<Longrightarrow> pool_free st b" for b
    using ar(2) by (auto elim!: in_range_mono)
  let ?m = "store_island (t_mem st) ?a target"
  have m': "t_mem st' = store32 ?m func (branch_insn (?a - func))" using st' assms(2) by simp
  have "island_at (t_mem st') ?a target"
    unfolding m' by (rule island_at_outside [OF island_at_store same_outside_store32])
      (use sub disj_ranges [OF assms(3)] in blast)
  moreover have "load32 (t_mem st') func = branch_insn (?a - func)"
    by (simp add: m' load_store_same)
  ultimately have "redirects (t_mem st') func target" using far by (metis redirectsI)
  moreover have "same_outside (\<lambda>b. pool_free st b \<or> in_range b func 4) (t_mem st) (t_mem st')"
    using write_trampoline_inv [OF assms(1,2)] free by (auto elim!: same_outside_mono)
  ultimately show ?thesis using write_trampoline_inv [OF assms(1,2)] by blast
qed

end
