(* ===== verification/Trampoline_Symbols.thy ===== *)
theory Trampoline_Symbols
  imports Trampoline_Correct
begin

text \<open>
  The symbol-driven passes keep the pool in order: islands once written stay intact, everything
  written lies in the free part of the pool or in the entry words of functions in \<^verbatim>\<open>__TEXT\<close>. The
  symbol that a pass handles is redirected to its override, its host function, or a trap that
  reports its name.
\<close>

section \<open>Growth of the pool\<close>

definition slot_used :: "tramp \<Rightarrow> u64 \<Rightarrow> bool" where
  "slot_used st a \<longleftrightarrow> unat (a - island_pool st) + 16 \<le> unat (island_pool_used st)"

definition text_apart :: "tramp \<Rightarrow> bool" where
  "text_apart st \<longleftrightarrow> (\<forall>f. in_text st f \<longrightarrow> disj f 4 (island_pool st) (unat (island_pool_size st)))"

definition entry_word :: "tramp \<Rightarrow> u64 \<Rightarrow> bool" where
  "entry_word st b \<longleftrightarrow> (\<exists>f. in_text st f \<and> in_range b f 4)"

definition grows :: "tramp \<Rightarrow> tramp \<Rightarrow> bool" where
  "grows st st' \<longleftrightarrow> island_pool st' = island_pool st \<and> island_pool_size st' = island_pool_size st \<and>
     text_patch_base st' = text_patch_base st \<and> text_patch_size st' = text_patch_size st \<and>
     island_pool_used st \<le> island_pool_used st' \<and>
     same_outside (\<lambda>b. pool_free st b \<or> entry_word st b) (t_mem st) (t_mem st')"

lemma grows_refl [simp, intro]: "grows st st"
  by (simp add: grows_def)

lemma grows_fields [simp]:
  "grows st (st'\<lparr>stub_island_addr := x\<rparr>) = grows st st'"
  "grows st (st'\<lparr>abort_caller_addr := x\<rparr>) = grows st st'"
  by (simp_all add: grows_def)

lemma grows_text:
  assumes "grows st st'"
  shows "in_text st' = in_text st" "entry_word st' = entry_word st" "text_apart st' = text_apart st"
    "pool_addr st' = pool_addr st"
  using assms by (auto simp: grows_def in_text_def entry_word_def text_apart_def fun_eq_iff)

lemma pool_next_diff:
  assumes "pool_ok st" "pool_ok st'" "island_pool st' = island_pool st" "island_pool_used st \<le> island_pool_used st'"
  shows "pool_next st' = pool_next st + of_nat (unat (island_pool_used st') - unat (island_pool_used st))"
proof -
  have "of_nat (unat (island_pool_used st') - unat (island_pool_used st)) = island_pool_used st' - island_pool_used st"
    using assms(4) by (simp add: word_le_nat_alt of_nat_diff)
  then show ?thesis by (simp add: pool_next_def assms(3))
qed

lemma pool_free_mono:
  assumes "pool_ok st" "pool_ok st'" "grows st st'" "pool_free st' b"
  shows "pool_free st b"
proof (rule in_range_sub)
  have g: "island_pool st' = island_pool st" "island_pool_size st' = island_pool_size st" "island_pool_used st \<le> island_pool_used st'"
    using assms(3) by (auto simp: grows_def)
  show "in_range b (pool_next st + of_nat (unat (island_pool_used st') - unat (island_pool_used st)))
      (unat (island_pool_size st) - unat (island_pool_used st'))"
    using assms(4) pool_next_diff [OF assms(1,2) g(1,3)] by (simp add: g(2))
  show "unat (island_pool_used st') - unat (island_pool_used st) + (unat (island_pool_size st) - unat (island_pool_used st')) \<le>
      unat (island_pool_size st) - unat (island_pool_used st)"
    using g assms(2) by (simp add: pool_ok_def word_le_nat_alt)
  show "unat (island_pool_size st) - unat (island_pool_used st) < 2 ^ 64"
    using unsigned_less [of "island_pool_size st", where ?'a = nat] by simp
qed

lemma grows_trans:
  assumes "pool_ok st" "pool_ok st'" "grows st st'" "grows st' st''"
  shows "grows st st''"
proof -
  have "same_outside (\<lambda>b. pool_free st b \<or> entry_word st b) (t_mem st') (t_mem st'')"
    using assms(4) pool_free_mono [OF assms(1,2,3)] grows_text(2) [OF assms(3)]
    by (auto simp: grows_def elim!: same_outside_mono)
  then show ?thesis using assms(3,4) by (auto simp: grows_def same_outside_def)
qed

section \<open>Islands in use stay\<close>

lemma slot_used_disj:
  assumes "pool_ok st" "slot_used st a" "in_range b a 16"
  shows "\<not> pool_free st b" "pool_addr st b"
proof -
  let ?d = "unat (a - island_pool st)" and ?u = "unat (island_pool_used st)" and ?n = "unat (island_pool_size st)"
  have le: "?d + 16 \<le> ?u" "?u \<le> ?n" "?n < 2 ^ 64"
    using assms(1,2) unsigned_less [of "island_pool_size st", where ?'a = nat]
    by (auto simp: slot_used_def pool_ok_def word_le_nat_alt)
  have "unat (pool_next st - a) = ?u - ?d"
  proof -
    have "pool_next st - a = island_pool_used st - (a - island_pool st)" by (simp add: pool_next_def)
    moreover have "a - island_pool st \<le> island_pool_used st" using le by (simp add: word_le_nat_alt)
    ultimately show ?thesis by (simp only: unat_sub)
  qed
  moreover from this have "pool_next st \<noteq> a" using le by auto
  then have "unat (pool_next st - a) + unat (a - pool_next st) = 2 ^ 64" by (rule unat_diff_sum)
  ultimately have "disj a 16 (pool_next st) (?n - ?u)"
    using le unfolding disj_def by (intro conjI; linarith)
  then show "\<not> pool_free st b" using disj_ranges assms(3) by blast
  show "pool_addr st b"
  proof (rule in_range_sub)
    show "in_range b (island_pool st + of_nat ?d) 16" using assms(3) by simp
  qed (use le in simp_all)
qed

lemma grows_same_slot:
  assumes "pool_ok st" "text_apart st" "grows st st'" "slot_used st a" "in_range b a 16"
  shows "t_mem st' b = t_mem st b"
proof -
  have "\<not> entry_word st b"
    using assms(2) slot_used_disj(2) [OF assms(1,4,5)] disj_ranges by (auto simp: text_apart_def entry_word_def)
  then show ?thesis
    using assms(3) slot_used_disj(1) [OF assms(1,4,5)] by (auto simp: grows_def same_outside_def)
qed

lemma slot_used_grows: "grows st st' \<Longrightarrow> slot_used st a \<Longrightarrow> slot_used st' a"
  by (auto simp: grows_def slot_used_def word_le_nat_alt)

definition stub_at :: "mem \<Rightarrow> u64 \<Rightarrow> bool" where
  "stub_at m a \<longleftrightarrow> load32 m a = 0x52800000 \<and> load32 m (a + 4) = 0xD65F03C0"

definition trap_at :: "mem \<Rightarrow> u64 \<Rightarrow> u64 \<Rightarrow> u64 \<Rightarrow> bool" where
  "trap_at m a caller name \<longleftrightarrow> load32 m a = 0x58000040 \<and> load32 m (a + 4) = branch_insn (caller - (a + 4)) \<and>
     \<not> branch_too_far (caller - (a + 4)) \<and> load m (a + 8) 8 = name"

lemma slot_loads:
  assumes "\<And>b. in_range b a 16 \<Longrightarrow> m' b = m b"
  shows "load32 m' a = load32 m a" "load32 m' (a + 4) = load32 m (a + 4)" "load m' (a + 8) 8 = load m (a + 8) 8"
  using assms in_range_16(1,2,3) [of _ a] by (auto simp: load32_def intro!: load_cong arg_cong [where f = ucast])

lemma slots_grow:
  assumes "pool_ok st" "text_apart st" "grows st st'" "slot_used st a"
  shows "island_at (t_mem st') a t = island_at (t_mem st) a t" "stub_at (t_mem st') a = stub_at (t_mem st) a"
    "trap_at (t_mem st') a c n = trap_at (t_mem st) a c n"
  using slot_loads [of a "t_mem st'" "t_mem st", OF grows_same_slot [OF assms]]
  by (simp_all add: island_at_def stub_at_def trap_at_def)

text \<open>The invariant: the shared islands, once allocated, are where the static variables say.\<close>

definition tramp_inv :: "tramp_env \<Rightarrow> tramp \<Rightarrow> bool" where
  "tramp_inv env st \<longleftrightarrow> pool_ok st \<and>
     (abort_caller_addr st \<noteq> 0 \<longrightarrow> slot_used st (abort_caller_addr st) \<and> island_at (t_mem st) (abort_caller_addr st) (te_abort env)) \<and>
     (stub_island_addr st \<noteq> 0 \<longrightarrow> slot_used st (stub_island_addr st) \<and> stub_at (t_mem st) (stub_island_addr st))"

lemma tramp_inv_grows:
  assumes "tramp_inv env st" "text_apart st" "grows st st'" "pool_ok st'"
    and "abort_caller_addr st' = abort_caller_addr st" "stub_island_addr st' = stub_island_addr st"
  shows "tramp_inv env st'"
  using assms slots_grow [of st st'] slot_used_grows [OF assms(3)] by (auto simp: tramp_inv_def)

section \<open>Operations\<close>

text \<open>What all allocations have in common.\<close>

lemma take_slot:
  assumes "pool_ok st" "\<not> pool_full st" "same_outside (\<lambda>b. in_range b (pool_next st) 16) (t_mem st) m'"
  defines "st' \<equiv> st\<lparr>t_mem := m', island_pool_used := island_pool_used st + ISLAND_SIZE\<rparr>"
  shows "pool_ok st'" "grows st st'" "slot_used st' (pool_next st)"
proof -
  note ar = pool_arith [OF assms(1,2)]
  show "pool_ok st'" using pool_ok_used [OF assms(1,2)] by (simp add: st'_def)
  have "same_outside (\<lambda>b. pool_free st b \<or> entry_word st b) (t_mem st) m'"
    using assms(3) ar(2) by (auto elim!: same_outside_mono in_range_mono)
  then show "grows st st'"
    using ar(1) by (simp add: st'_def grows_def ISLAND_SIZE_def word_le_nat_alt)
  show "slot_used st' (pool_next st)"
    using ar(1) by (simp add: st'_def slot_used_def pool_next_def ISLAND_SIZE_def)
qed

lemma same_outside_slot_words:
  "same_outside (\<lambda>b. in_range b a 16) m (store32 (store32 (store32 (store32 m a v) (a + 4) w) (a + 8) x) (a + 12) y)"
  "same_outside (\<lambda>b. in_range b a 16) m (store (store32 (store32 m a v) (a + 4) w) (a + 8) 8 z)"
proof -
  have w: "same_outside (\<lambda>b. in_range b a 16) m m' \<Longrightarrow> (\<And>b. in_range b c 4 \<Longrightarrow> in_range b a 16) \<Longrightarrow>
      same_outside (\<lambda>b. in_range b a 16) m (store32 m' c u)" for m' c u
    using same_outside_store32 [of c m' u] by (fastforce simp: same_outside_def)
  have q: "same_outside (\<lambda>b. in_range b a 16) m m' \<Longrightarrow> same_outside (\<lambda>b. in_range b a 16) m (store m' (a + 8) 8 z)" for m'
    using store_outside [of _ "a + 8" 8 m' z] in_range_16(3) [of _ a] by (fastforce simp: same_outside_def)
  show "same_outside (\<lambda>b. in_range b a 16) m (store32 (store32 (store32 (store32 m a v) (a + 4) w) (a + 8) x) (a + 12) y)"
    "same_outside (\<lambda>b. in_range b a 16) m (store (store32 (store32 m a v) (a + 4) w) (a + 8) 8 z)"
    by (intro w q same_outside_refl; rule in_range_16; assumption)+
qed

lemma load32_store_disj: "disj a 4 b 8 \<Longrightarrow> load32 (store m b 8 v) a = load32 m a"
  by (simp add: load32_def load_store_disj)

lemma get_stub_island_ok:
  assumes "tramp_inv env st" "text_apart st" "get_stub_island st = (a, st')"
  shows "tramp_inv env st' \<and> grows st st' \<and> (a \<noteq> 0 \<longrightarrow> slot_used st' a \<and> stub_at (t_mem st') a)"
proof (cases "stub_island_addr st \<noteq> 0 \<or> pool_full st")
  case True
  then show ?thesis using assms by (auto simp: get_stub_island_def tramp_inv_def split: if_splits)
next
  case False
  let ?a = "pool_next st"
  let ?m = "store32 (store32 (store32 (store32 (t_mem st) ?a 0x52800000) (?a + 4) 0xD65F03C0) (?a + 8) 0xD503201F) (?a + 12) 0xD503201F"
  let ?st = "st\<lparr>t_mem := ?m, island_pool_used := island_pool_used st + ISLAND_SIZE\<rparr>"
  have ok: "pool_ok st" using assms(1) by (simp add: tramp_inv_def)
  note slot = take_slot [OF ok _ same_outside_slot_words(1) [of ?a "t_mem st" "0x52800000" "0xD65F03C0" "0xD503201F" "0xD503201F"]]
  have d: "disj ?a 4 (?a + 4) 4" "disj ?a 4 (?a + 8) 4" "disj ?a 4 (?a + 12) 4" "disj (?a + 4) 4 (?a + 8) 4" "disj (?a + 4) 4 (?a + 12) 4"
    by (simp_all add: disj_def)
  have stub: "stub_at ?m ?a" using d by (simp add: stub_at_def load32_store32_disj load_store_same)
  have inv: "tramp_inv env ?st"
    by (rule tramp_inv_grows [OF assms(1,2)]) (use slot False in auto)
  have r: "a = ?a" "st' = ?st\<lparr>stub_island_addr := ?a\<rparr>"
    using assms(3) False by (auto simp: get_stub_island_def Let_def)
  have "tramp_inv env st'" using inv stub slot(3) False by (simp add: r tramp_inv_def slot_used_def pool_ok_def)
  then show ?thesis using slot False stub by (simp add: r slot_used_def)
qed

lemma get_abort_caller_ok:
  assumes "tramp_inv env st" "text_apart st" "get_abort_caller env st = (a, st')"
  shows "tramp_inv env st' \<and> grows st st' \<and> (a \<noteq> 0 \<longrightarrow> slot_used st' a \<and> island_at (t_mem st') a (te_abort env))"
proof (cases "abort_caller_addr st \<noteq> 0 \<or> pool_full st")
  case True
  then show ?thesis using assms by (auto simp: get_abort_caller_def tramp_inv_def split: if_splits)
next
  case False
  let ?a = "pool_next st" and ?m = "store_island (t_mem st) (pool_next st) (te_abort env)"
  let ?st = "st\<lparr>t_mem := ?m, island_pool_used := island_pool_used st + ISLAND_SIZE\<rparr>"
  have ok: "pool_ok st" using assms(1) by (simp add: tramp_inv_def)
  note slot = take_slot [OF ok _ same_outside_island [of _ _ "te_abort env"]]
  have inv: "tramp_inv env ?st"
    by (rule tramp_inv_grows [OF assms(1,2)]) (use slot False in auto)
  have r: "a = ?a" "st' = ?st\<lparr>abort_caller_addr := ?a\<rparr>"
    using assms(3) False by (auto simp: get_abort_caller_def)
  have "tramp_inv env st'" using inv island_at_store slot(3) False by (simp add: r tramp_inv_def slot_used_def pool_ok_def)
  then show ?thesis using slot False island_at_store by (simp add: r slot_used_def)
qed

lemma make_abort_island_ok:
  assumes "tramp_inv env st" "text_apart st" "make_abort_island env name st = (a, st')"
  shows "tramp_inv env st' \<and> grows st st' \<and>
    (a \<noteq> 0 \<longrightarrow> (\<exists>caller. slot_used st' a \<and> trap_at (t_mem st') a caller name \<and>
      slot_used st' caller \<and> island_at (t_mem st') caller (te_abort env)))"
proof -
  obtain caller st1 where c: "get_abort_caller env st = (caller, st1)" by (cases "get_abort_caller env st")
  have i1: "tramp_inv env st1" "grows st st1" "caller \<noteq> 0 \<Longrightarrow> slot_used st1 caller \<and> island_at (t_mem st1) caller (te_abort env)"
    using get_abort_caller_ok [OF assms(1,2) c] by auto
  have ok: "pool_ok st" "pool_ok st1" and ap: "text_apart st1"
    using assms(1,2) i1 grows_text(3) by (auto simp: tramp_inv_def)
  let ?a = "pool_next st1"
  let ?off = "caller - (?a + 4)"
  let ?first = "store32 (t_mem st1) ?a 0x58000040"
  let ?m = "store (store32 ?first (?a + 4) (branch_insn ?off)) (?a + 8) 8 name"
  consider "caller = 0 \<or> pool_full st1" | "caller \<noteq> 0" "\<not> pool_full st1" "branch_too_far ?off"
    | "caller \<noteq> 0" "\<not> pool_full st1" "\<not> branch_too_far ?off" by blast
  then show ?thesis
  proof cases
    case 1
    then have "a = 0" "st' = st1" using assms(3) c by (auto simp: make_abort_island_def split: if_splits)
    then show ?thesis using i1 by simp
  next
    case 2
    then have r: "a = 0" "st' = st1\<lparr>t_mem := ?first\<rparr>"
      using assms(3) c by (auto simp: make_abort_island_def Let_def)
    have g: "grows st1 st'"
      using same_outside_store32 [of ?a "t_mem st1" "0x58000040"] pool_arith(2) [OF ok(2) 2(2)]
      by (auto simp: r grows_def elim!: same_outside_mono in_range_mono)
    have "tramp_inv env st'" by (rule tramp_inv_grows [OF i1(1) ap g]) (use ok in \<open>simp_all add: r\<close>)
    then show ?thesis using grows_trans [OF ok i1(2) g] r by simp
  next
    case 3
    then have r: "a = ?a" "st' = st1\<lparr>t_mem := ?m, island_pool_used := island_pool_used st1 + ISLAND_SIZE\<rparr>"
      using assms(3) c by (auto simp: make_abort_island_def Let_def)
    note slot = take_slot [OF ok(2) 3(2) same_outside_slot_words(2) [of ?a "t_mem st1" "0x58000040" "branch_insn ?off" name], folded r]
    have d: "disj ?a 4 (?a + 4) 4" "disj ?a 4 (?a + 8) 8" "disj (?a + 4) 4 (?a + 8) 8" by (simp_all add: disj_def)
    have t: "trap_at (t_mem st') a caller name"
      using d 3 by (simp add: r trap_at_def load32_store_disj load32_store32_disj load_store_same)
    have "tramp_inv env st'" by (rule tramp_inv_grows [OF i1(1) ap slot(2,1)]) (simp_all add: r)
    then show ?thesis
      using grows_trans [OF ok i1(2) slot(2)] t slot(3) r(1) slot_used_grows [OF slot(2)] i1(3) 3(1)
        slots_grow(1) [OF ok(2) ap slot(2)] by auto
  qed
qed

lemma write_trampoline_grows:
  assumes "tramp_inv env st" "text_apart st" "in_text st func" "write_trampoline func target st = (ok, st')"
  shows "tramp_inv env st' \<and> grows st st' \<and> (ok \<longrightarrow> redirects (t_mem st') func target)"
proof -
  have pok: "pool_ok st" using assms(1) by (simp add: tramp_inv_def)
  note w = write_trampoline_inv [OF pok assms(4)]
  have "\<not> pool_full st \<Longrightarrow> in_range b (pool_next st) 16 \<Longrightarrow> pool_free st b" for b
    using pool_arith(2) [OF pok] by (auto elim!: in_range_mono)
  then have g: "grows st st'"
    using w assms(3) by (auto simp: grows_def entry_word_def elim!: same_outside_mono)
  have "abort_caller_addr st' = abort_caller_addr st" "stub_island_addr st' = stub_island_addr st"
    using assms(4) by (auto simp: write_trampoline_def alloc_island_def Let_def split: if_splits)
  then have "tramp_inv env st'" using tramp_inv_grows [OF assms(1,2) g] w by simp
  moreover have "ok \<Longrightarrow> redirects (t_mem st') func target"
    using write_trampoline_jumps [OF pok _ , of func target st'] assms(2,3,4) by (auto simp: text_apart_def)
  ultimately show ?thesis using g by simp
qed

section \<open>Symbols\<close>

text \<open>A function that is trapped: its entry reaches the abort handler with the address of the name in \<open>x0\<close>.\<close>

definition traps :: "tramp_env \<Rightarrow> mem \<Rightarrow> u64 \<Rightarrow> u64 \<Rightarrow> bool" where
  "traps env m func name \<longleftrightarrow>
     (\<forall>r. jump_run m 7 (func, r) = Some (te_abort env, r(16 := te_abort env, 0 := name)))"

lemma jump_run_add: "jump_run m (j + k) s = (case jump_run m j s of None \<Rightarrow> None | Some s \<Rightarrow> jump_run m k s)"
  by (induction j arbitrary: s) (auto split: option.splits)

lemma trap_jumps:
  assumes "trap_at m a caller name" "island_at m caller t"
  shows "jump_run m 4 (a, r) = Some (t, r(0 := name, 16 := t))"
proof -
  have "jump_step m (a, r) = Some (a + 4, r(0 := name))"
    using assms(1) jump_step_ldr_x0 [of m a r] by (simp add: trap_at_def)
  moreover have "jump_step m (a + 4, r(0 := name)) = Some (caller, r(0 := name))"
    using assms(1) by (intro jump_step_branch_insn) (auto simp: trap_at_def)
  ultimately have "jump_run m 2 (a, r) = Some (caller, r(0 := name))" by (simp add: numeral_2_eq_2)
  then show ?thesis using jump_run_add [of m 2 2 "(a, r)"] island_jumps [OF assms(2), of "r(0 := name)"] by simp
qed

lemma trapsI:
  assumes "redirects m func a" "trap_at m a caller name" "island_at m caller (te_abort env)"
  shows "traps env m func name"
proof -
  have "jump_run m 7 (func, r) = jump_run m 4 (a, r(16 := a))" for r
    using jump_run_add [of m 3 4 "(func, r)"] assms(1) by (simp add: redirects_def)
  then show ?thesis using trap_jumps [OF assms(2,3)] by (simp add: traps_def fun_upd_twist)
qed

definition redirects_to_stub :: "mem \<Rightarrow> u64 \<Rightarrow> bool" where
  "redirects_to_stub m func \<longleftrightarrow> (\<forall>r. \<exists>t. jump_run m 5 (func, r) = Some (r 30, r(16 := t, 0 := 0)))"

lemma redirects_to_stubI:
  assumes "redirects m func a" "stub_at m a"
  shows "redirects_to_stub m func"
  unfolding redirects_to_stub_def
proof (intro allI exI)
  fix r :: "nat \<Rightarrow> u64"
  let ?r = "r(16 := a) :: nat \<Rightarrow> u64"
  have "jump_step m (a, ?r) = Some (a + 4, ?r(0 := 0))" "jump_step m (a + 4, ?r(0 := 0)) = Some (r 30, ?r(0 := 0))"
    using assms(2) jump_step_mov_w0 [of m a ?r] jump_step_ret [of m "a + 4" "?r(0 := 0)"] by (auto simp: stub_at_def)
  then have "jump_run m 2 (a, ?r) = Some (r 30, ?r(0 := 0))" by (simp add: numeral_2_eq_2)
  then show "jump_run m 5 (func, r) = Some (r 30, r(16 := a, 0 := 0))"
    using jump_run_add [of m 3 2 "(func, r)"] assms(1) by (simp add: redirects_def)
qed

text \<open>What a symbol is: one that the pass takes, at an address in \<^verbatim>\<open>__TEXT\<close>.\<close>

definition lib_symbol :: "patch_ctx \<Rightarrow> cstr list \<Rightarrow> nat \<Rightarrow> tramp \<Rightarrow> bool" where
  "lib_symbol ctx prefixes i st \<longleftrightarrow>
    (let sym = read_nlist (t_mem st) (pc_nlist ctx + 16 * of_nat i) in
     n_type sym AND N_TYPE = N_SECT \<and> n_type sym AND N_EXT \<noteq> 0 \<and> n_type sym AND N_STAB = 0 \<and>
     \<not> n_strx sym \<ge> pc_strsize ctx \<and>
     matches_prefix (mem_str (t_mem st) (pc_strtab ctx + ucast (n_strx sym))) prefixes \<and>
     in_text st (n_value sym + pc_slide ctx))"

definition symbol_func :: "patch_ctx \<Rightarrow> nat \<Rightarrow> tramp \<Rightarrow> u64" where
  "symbol_func ctx i st = n_value (read_nlist (t_mem st) (pc_nlist ctx + 16 * of_nat i)) + pc_slide ctx"

definition symbol_name_addr :: "patch_ctx \<Rightarrow> nat \<Rightarrow> tramp \<Rightarrow> u64" where
  "symbol_name_addr ctx i st = pc_strtab ctx + ucast (n_strx (read_nlist (t_mem st) (pc_nlist ctx + 16 * of_nat i)))"

definition symbol_name :: "patch_ctx \<Rightarrow> nat \<Rightarrow> tramp \<Rightarrow> cstr" where
  "symbol_name ctx i st = mem_str (t_mem st) (symbol_name_addr ctx i st)"

lemma patch_lib_symbol_cases:
  "patch_lib_symbol env ctx prefixes overrides stub_mode lib i (st, n) =
    (if lib_symbol ctx prefixes i st then
       patch_lib_function env overrides stub_mode lib (symbol_func ctx i st) (symbol_name_addr ctx i st)
         (symbol_name ctx i st) (st, n)
     else (st, n))"
  unfolding patch_lib_symbol_def lib_symbol_def symbol_name_def symbol_func_def symbol_name_addr_def Let_def by simp

text \<open>The target of a symbol by the rules of the pass, zero if there is none.\<close>

definition symbol_target :: "tramp_env \<Rightarrow> (cstr \<times> u64) list \<Rightarrow> u64 \<Rightarrow> cstr \<Rightarrow> u64" where
  "symbol_target env overrides lib name =
    (let t = find_override name overrides in if t \<noteq> 0 then t else if lib = 0 then 0 else native_target env lib name)"

text \<open>Both passes keep this of the state they start in.\<close>

definition pass_inv :: "tramp_env \<Rightarrow> tramp \<Rightarrow> tramp \<times> int \<Rightarrow> bool" where
  "pass_inv env st = (\<lambda>(st', n). tramp_inv env st' \<and> grows st st' \<and> 0 \<le> n)"

text \<open>Islands are written outside of the text, so a failed write leaves the entry word as it was.\<close>

definition pool_only :: "tramp \<Rightarrow> tramp \<Rightarrow> bool" where
  "pool_only st st' \<longleftrightarrow> same_outside (pool_addr st) (t_mem st) (t_mem st')"

lemma entry_kept:
  assumes "text_apart st" "in_text st func" "pool_only st st'"
  shows "load32 (t_mem st') func = load32 (t_mem st) func"
  using assms disj_ranges unfolding pool_only_def text_apart_def
  by (intro same_outside_load32 [where P = "pool_addr st"]) blast+

lemma slot_in_pool:
  assumes "pool_ok st" "\<not> pool_full st" "in_range b (pool_next st) 16"
  shows "pool_addr st b"
  using in_range_sub [of b "island_pool st" "unat (island_pool_used st)" 16 "unat (island_pool_size st)"] assms(3)
    pool_arith(2) [OF assms(1,2)] unsigned_less [of "island_pool_size st", where ?'a = nat] by (simp add: pool_next_def)

lemma pool_only_slot:
  assumes "pool_ok st" "\<not> pool_full st" "same_outside (\<lambda>b. in_range b (pool_next st) 16) (t_mem st) (t_mem st')"
  shows "pool_only st st'"
  using assms slot_in_pool by (auto simp: pool_only_def elim!: same_outside_mono)

lemma pool_only_trans:
  "pool_only st st1 \<Longrightarrow> grows st st1 \<Longrightarrow> pool_only st1 st2 \<Longrightarrow> pool_only st st2"
  by (simp add: pool_only_def same_outside_def grows_def)

lemma pool_only_refl [simp]: "pool_only st st"
  by (simp add: pool_only_def)

lemma get_stub_island_pool: "pool_ok st \<Longrightarrow> pool_only st (snd (get_stub_island st))"
  by (auto simp: get_stub_island_def Let_def intro!: pool_only_slot same_outside_slot_words)

lemma get_abort_caller_pool: "pool_ok st \<Longrightarrow> pool_only st (snd (get_abort_caller env st))"
  by (auto simp: get_abort_caller_def intro!: pool_only_slot same_outside_island)

lemma make_abort_island_pool:
  assumes "tramp_inv env st" "text_apart st"
  shows "pool_only st (snd (make_abort_island env name st))"
proof -
  obtain caller st1 where c: "get_abort_caller env st = (caller, st1)" by (cases "get_abort_caller env st")
  have g: "grows st st1" "pool_ok st1" using get_abort_caller_ok [OF assms c] by (auto simp: tramp_inv_def)
  have p: "pool_only st st1" using get_abort_caller_pool [of st env] assms(1) c by (simp add: tramp_inv_def)
  have m0: "same_outside (\<lambda>b. in_range b (pool_next st1) 16) (t_mem st1) (store32 (t_mem st1) (pool_next st1) w)" for w
    using same_outside_store32 [of "pool_next st1" "t_mem st1" w] by (auto elim!: same_outside_mono in_range_mono)
  have "pool_only st1 (snd (make_abort_island env name st))"
  proof (cases "caller = 0 \<or> pool_full st1")
    case True
    then show ?thesis by (auto simp: make_abort_island_def c)
  next
    case False
    then show ?thesis
      using m0 same_outside_slot_words(2) [of "pool_next st1" "t_mem st1"]
      by (intro pool_only_slot) (auto simp: make_abort_island_def c Let_def g(2))
  qed
  then show ?thesis using pool_only_trans [OF p g(1)] by simp
qed

lemma write_trampoline_pool:
  assumes "pool_ok st" "write_trampoline func target st = (False, st')"
  shows "pool_only st st'"
proof (cases "pool_full st")
  case True
  then show ?thesis using assms by (simp add: write_trampoline_def alloc_island_def)
next
  case False
  then show ?thesis
    using write_trampoline_inv [OF assms] by (intro pool_only_slot [OF assms(1)]) simp_all
qed

text \<open>What can become of a function that the pass takes.\<close>

definition patched_or_trapped ::
    "tramp_env \<Rightarrow> (cstr \<times> u64) list \<Rightarrow> bool \<Rightarrow> u64 \<Rightarrow> u64 \<Rightarrow> u64 \<Rightarrow> cstr \<Rightarrow> tramp \<Rightarrow> tramp \<Rightarrow> int \<Rightarrow> bool" where
  "patched_or_trapped env overrides stub_mode lib func name_addr name st st' k =
    (let t = symbol_target env overrides lib name in
     k = 1 \<and> t \<noteq> 0 \<and> redirects (t_mem st') func t \<or>
     k = 1 \<and> t = 0 \<and> stub_mode \<and> redirects_to_stub (t_mem st') func \<or>
     k = 0 \<and> t = 0 \<and> \<not> stub_mode \<and> traps env (t_mem st') func name_addr \<or>
     k = 0 \<and> load32 (t_mem st') func = load32 (t_mem st) func)"

lemma patch_target_ok:
  assumes "tramp_inv env st" "text_apart st" "in_text st func" "write_trampoline func t st = (ok, st')"
  shows "tramp_inv env st'" "grows st st'" "ok \<Longrightarrow> redirects (t_mem st') func t"
    "\<not> ok \<Longrightarrow> load32 (t_mem st') func = load32 (t_mem st) func"
proof -
  show "tramp_inv env st'" "grows st st'" "ok \<Longrightarrow> redirects (t_mem st') func t"
    using write_trampoline_grows [OF assms] by simp_all
  assume "\<not> ok"
  then have "pool_only st st'" using write_trampoline_pool [of st func t st'] assms(1,4) by (simp add: tramp_inv_def)
  then show "load32 (t_mem st') func = load32 (t_mem st) func" by (rule entry_kept [OF assms(2,3)])
qed

lemma patch_stub_ok:
  assumes "tramp_inv env st" "text_apart st" "in_text st func"
  defines "st1 \<equiv> snd (get_stub_island st)"
  shows "tramp_inv env st1" "grows st st1" "text_apart st1" "in_text st1 func"
    "load32 (t_mem st1) func = load32 (t_mem st) func"
    "fst (get_stub_island st) \<noteq> 0 \<Longrightarrow> slot_used st1 (fst (get_stub_island st)) \<and> stub_at (t_mem st1) (fst (get_stub_island st))"
proof -
  note s = get_stub_island_ok [OF assms(1,2) surjective_pairing, folded st1_def]
  have "pool_ok st" using assms(1) by (simp add: tramp_inv_def)
  then have "pool_only st st1" by (simp add: st1_def get_stub_island_pool)
  then show "load32 (t_mem st1) func = load32 (t_mem st) func" by (rule entry_kept [OF assms(2,3)])
  show "tramp_inv env st1" "grows st st1" "text_apart st1" "in_text st1 func"
    "fst (get_stub_island st) \<noteq> 0 \<Longrightarrow> slot_used st1 (fst (get_stub_island st)) \<and> stub_at (t_mem st1) (fst (get_stub_island st))"
    using s grows_text [of st st1] assms(2,3) by simp_all
qed

lemma patch_trap_ok:
  assumes "tramp_inv env st" "text_apart st" "in_text st func"
    and "make_abort_island env name st = (a, st1)" "a \<noteq> 0" "write_trampoline func a st1 = (ok, st')"
  shows "tramp_inv env st' \<and> grows st st' \<and> (if ok then traps env (t_mem st') func name
    else load32 (t_mem st') func = load32 (t_mem st) func)"
proof -
  note m = make_abort_island_ok [OF assms(1,2,4)]
  then obtain caller where c: "tramp_inv env st1" "grows st st1" "slot_used st1 a" "trap_at (t_mem st1) a caller name"
    "slot_used st1 caller" "island_at (t_mem st1) caller (te_abort env)" using assms(5) by blast
  have ok: "pool_ok st" "pool_ok st1" using assms(1) c(1) by (auto simp: tramp_inv_def)
  have ap: "text_apart st1" "in_text st1 func" using grows_text [OF c(2)] assms(2,3) by auto
  note w = patch_target_ok [OF c(1) ap assms(6)]
  have k: "load32 (t_mem st1) func = load32 (t_mem st) func"
    by (rule entry_kept [OF assms(2,3)]) (use make_abort_island_pool [OF assms(1,2), of name] assms(4) in simp)
  have "ok \<Longrightarrow> traps env (t_mem st') func name"
    using trapsI [of "t_mem st'" func a caller name env] w(3) c(4,6) slots_grow [OF ok(2) ap(1) w(2)] c(3,5) by simp
  then show ?thesis using w k grows_trans [OF ok c(2) w(2)] by simp
qed

lemma patch_lib_function_ok:
  assumes "tramp_inv env st" "text_apart st" "in_text st func" "stub_mode \<Longrightarrow> lib = 0"
    and "patch_lib_function env overrides stub_mode lib func name_addr name (st, n) = (st', n')"
  shows "tramp_inv env st' \<and> grows st st' \<and>
    patched_or_trapped env overrides stub_mode lib func name_addr name st st' (n' - n)"
proof -
  let ?t = "symbol_target env overrides lib name"
  have ok: "pool_ok st" using assms(1) by (simp add: tramp_inv_def)
  consider (target) "?t \<noteq> 0" | (stub) "?t = 0" "stub_mode" | (trap) "?t = 0" "\<not> stub_mode" by blast
  then show ?thesis
  proof cases
    case target
    then have "patch_lib_function env overrides stub_mode lib func name_addr name (st, n) =
        (let (ok, st) = write_trampoline func ?t st in (st, if ok then n + 1 else n))"
      using assms(4)
      by (cases stub_mode; cases "find_override name overrides = 0"; cases "lib = 0")
         (simp_all add: patch_lib_function_def symbol_target_def Let_def)
    with assms(5) obtain ok where "write_trampoline func ?t st = (ok, st')" "n' = (if ok then n + 1 else n)"
      by (auto split: prod.splits)
    with target patch_target_ok [OF assms(1-3) this(1)] show ?thesis
      by (cases ok) (auto simp: patched_or_trapped_def Let_def)
  next
    case stub
    note s = patch_stub_ok [OF assms(1-3)]
    let ?a = "fst (get_stub_island st)" and ?st = "snd (get_stub_island st)"
    have e: "patch_lib_function env overrides stub_mode lib func name_addr name (st, n) =
        (if ?a = 0 then (?st, n) else let (ok, st) = write_trampoline func ?a ?st in (st, if ok then n + 1 else n))"
      using assms(4) stub
      by (cases "find_override name overrides = 0") (simp_all add: patch_lib_function_def symbol_target_def Let_def case_prod_beta)
    show ?thesis
    proof (cases "?a = 0")
      case True
      with e assms(5) s stub show ?thesis by (auto simp: patched_or_trapped_def Let_def)
    next
      case False
      with e assms(5) obtain ok where w: "write_trampoline func ?a ?st = (ok, st')" "n' = (if ok then n + 1 else n)"
        by (auto split: prod.splits)
      note t = patch_target_ok [OF s(1,3,4) w(1)]
      have ok1: "pool_ok ?st" using s(1) by (simp add: tramp_inv_def)
      have "ok \<Longrightarrow> redirects_to_stub (t_mem st') func"
        using redirects_to_stubI [of "t_mem st'" func ?a] t(3) s(6) [OF False] slots_grow(2) [OF ok1 s(3) t(2)] by simp
      then show ?thesis
        using t grows_trans [OF ok ok1 s(2) t(2)] s(5) w(2) stub by (cases ok) (auto simp: patched_or_trapped_def Let_def)
    qed
  next
    case trap
    obtain a st1 where m: "make_abort_island env name_addr st = (a, st1)" by (cases "make_abort_island env name_addr st")
    have e: "patch_lib_function env overrides stub_mode lib func name_addr name (st, n) =
        (if a \<noteq> 0 then (snd (write_trampoline func a st1), n) else (st1, n))"
      using trap m
      by (cases "find_override name overrides = 0"; cases "lib = 0") (simp_all add: patch_lib_function_def symbol_target_def Let_def)
    show ?thesis
    proof (cases "a = 0")
      case True
      then show ?thesis
        using e assms(5) make_abort_island_ok [OF assms(1,2) m] entry_kept [OF assms(2,3), of st1]
          make_abort_island_pool [OF assms(1,2), of name_addr] m by (simp add: patched_or_trapped_def Let_def)
    next
      case False
      then have "st' = snd (write_trampoline func a st1)" "n' = n" using e assms(5) by auto
      then show ?thesis
        using patch_trap_ok [OF assms(1-3) m False surjective_pairing] trap
        by (auto simp: patched_or_trapped_def Let_def split: if_splits)
    qed
  qed
qed

lemma patch_lib_symbol_step:
  assumes "tramp_inv env st" "text_apart st" "stub_mode \<Longrightarrow> lib = 0"
    and "patch_lib_symbol env ctx prefixes overrides stub_mode lib i (st, n) = (st', n')"
  shows "tramp_inv env st' \<and> grows st st' \<and>
    (if lib_symbol ctx prefixes i st then
       patched_or_trapped env overrides stub_mode lib (symbol_func ctx i st) (symbol_name_addr ctx i st)
         (symbol_name ctx i st) st st' (n' - n)
     else st' = st \<and> n' = n)"
proof (cases "lib_symbol ctx prefixes i st")
  case True
  then have "in_text st (symbol_func ctx i st)" by (simp add: lib_symbol_def symbol_func_def Let_def)
  with patch_lib_function_ok [OF assms(1,2) this assms(3)] True assms(4) show ?thesis
    by (simp add: patch_lib_symbol_cases)
next
  case False
  then show ?thesis using assms by (simp add: patch_lib_symbol_cases)
qed

end
