(* ===== verification/Trampoline_Passes.thy ===== *)
theory Trampoline_Passes
  imports Trampoline_Symbols
begin

text \<open>
  The whole symbol-driven passes, as folds over the symbol table that keep the invariant of the pool.
\<close>

section \<open>Making the text writable\<close>

lemma make_text_writable_fields:
  assumes "make_text_writable env mh slide st = (ok, st')"
  shows "t_mem st' = t_mem st \<and> island_pool st' = island_pool st \<and> island_pool_size st' = island_pool_size st \<and>
    island_pool_used st' = island_pool_used st \<and> stub_island_addr st' = stub_island_addr st \<and>
    abort_caller_addr st' = abort_caller_addr st \<and> guarded_pages st' = guarded_pages st \<and> t_handles st' = t_handles st"
  using assms by (auto simp: make_text_writable_def mprotect_def Let_def split: option.splits if_splits)

lemma restore_text_fields [simp]:
  "t_mem (restore_text_protection env st) = t_mem st"
  "island_pool (restore_text_protection env st) = island_pool st"
  "island_pool_size (restore_text_protection env st) = island_pool_size st"
  "island_pool_used (restore_text_protection env st) = island_pool_used st"
  "stub_island_addr (restore_text_protection env st) = stub_island_addr st"
  "abort_caller_addr (restore_text_protection env st) = abort_caller_addr st"
  "text_patch_base (restore_text_protection env st) = text_patch_base st"
  "text_patch_size (restore_text_protection env st) = text_patch_size st"
  "t_handles (restore_text_protection env st) = t_handles st"
  by (simp_all add: restore_text_protection_def mprotect_def)

lemma tramp_inv_cong:
  assumes "t_mem st' = t_mem st" "island_pool st' = island_pool st" "island_pool_size st' = island_pool_size st"
    "island_pool_used st' = island_pool_used st" "stub_island_addr st' = stub_island_addr st"
    "abort_caller_addr st' = abort_caller_addr st"
  shows "tramp_inv env st' = tramp_inv env st"
  using assms by (simp add: tramp_inv_def pool_ok_def slot_used_def)

lemma tramp_inv_restore [simp]: "tramp_inv env (restore_text_protection env' st) = tramp_inv env st"
  by (rule tramp_inv_cong) simp_all

lemma tramp_inv_writable:
  "make_text_writable env mh slide st = (ok, st') \<Longrightarrow> tramp_inv env st' = tramp_inv env st"
  using make_text_writable_fields by (intro tramp_inv_cong) blast+

text \<open>The pool is apart from the segment that the passes patch.\<close>

definition image_apart :: "tramp_env \<Rightarrow> u64 \<Rightarrow> u64 \<Rightarrow> tramp \<Rightarrow> bool" where
  "image_apart env mh slide st \<longleftrightarrow> text_apart (snd (make_text_writable env mh slide st))"

lemma make_text_writable_handles:
  "make_text_writable env mh slide (st\<lparr>t_handles := hs\<rparr>) =
    (fst (make_text_writable env mh slide st), (snd (make_text_writable env mh slide st))\<lparr>t_handles := hs\<rparr>)"
  by (auto simp: make_text_writable_def mprotect_def init_island_pool_def Let_def split: option.splits)

lemma image_apart_handles [simp]: "image_apart env mh slide (st\<lparr>t_handles := hs\<rparr>) = image_apart env mh slide st"
  by (simp add: image_apart_def make_text_writable_handles text_apart_def in_text_def)

section \<open>The passes keep the invariant\<close>

definition lib_pass_inv :: "tramp_env \<Rightarrow> tramp \<Rightarrow> bool \<Rightarrow> u64 \<Rightarrow> tramp \<times> int \<Rightarrow> bool" where
  "lib_pass_inv env st stub_mode lib = (\<lambda>(st', n). pool_ok st \<and> text_apart st \<and> (stub_mode \<longrightarrow> lib = 0) \<and>
     tramp_inv env st' \<and> grows st st' \<and> 0 \<le> n)"

lemma tramp_inv_pool: "tramp_inv env st \<Longrightarrow> pool_ok st"
  by (simp add: tramp_inv_def)

interpretation lib_pass: step_invariant
  "patch_lib_symbol env ctx prefixes overrides stub_mode lib" "lib_pass_inv env st stub_mode lib"
  for env ctx prefixes overrides stub_mode lib st
proof unfold_locales
  fix s :: "tramp \<times> int" and i
  assume inv: "lib_pass_inv env st stub_mode lib s"
  obtain st1 n st2 n2 where s: "s = (st1, n)" and r: "patch_lib_symbol env ctx prefixes overrides stub_mode lib i (st1, n) = (st2, n2)"
    by (metis surj_pair)
  have i: "pool_ok st" "text_apart st1" "tramp_inv env st1" "grows st st1" "stub_mode \<Longrightarrow> lib = 0" "0 \<le> n"
    using inv grows_text(3) by (auto simp: lib_pass_inv_def s)
  note e = patch_lib_symbol_step [OF i(3,2,5) r]
  have "grows st st2" using grows_trans [OF i(1) tramp_inv_pool [OF i(3)] i(4)] e by blast
  moreover have "0 \<le> n2" using e i(6) by (auto simp: patched_or_trapped_def Let_def split: if_splits)
  ultimately show "lib_pass_inv env st stub_mode lib (patch_lib_symbol env ctx prefixes overrides stub_mode lib i s)"
    using e inv by (simp add: lib_pass_inv_def s r)
qed

definition override_pass_inv :: "tramp_env \<Rightarrow> tramp \<Rightarrow> tramp \<times> int \<Rightarrow> bool" where
  "override_pass_inv env st = lib_pass_inv env st False 0"

lemma patch_override_symbol_effect:
  assumes "tramp_inv env st" "text_apart st" "patch_override_symbol env ctx handle match_local i (st, n) = (st', n')"
  shows "tramp_inv env st' \<and> grows st st' \<and> (n' = n + 1 \<and>
      redirects (t_mem st') (symbol_func ctx i st) (te_dlsym env handle (lookup_name (symbol_name ctx i st))) \<or>
    n' = n \<and> (in_text st (symbol_func ctx i st) \<longrightarrow>
      load32 (t_mem st') (symbol_func ctx i st) = load32 (t_mem st) (symbol_func ctx i st)))"
proof -
  let ?f = "symbol_func ctx i st" and ?t = "te_dlsym env handle (lookup_name (symbol_name ctx i st))"
  have "patch_override_symbol env ctx handle match_local i (st, n) = (st, n) \<or>
    in_text st ?f \<and> patch_override_symbol env ctx handle match_local i (st, n) =
      (let (ok, st) = write_trampoline ?f ?t st in (st, if ok then n + 1 else n))"
    by (simp add: patch_override_symbol_def symbol_func_def symbol_name_def symbol_name_addr_def Let_def)
  then consider "st' = st" "n' = n" | ok where "in_text st ?f" "write_trampoline ?f ?t st = (ok, st')" "n' = (if ok then n + 1 else n)"
    using assms(3) by (auto split: prod.splits)
  then show ?thesis
  proof cases
    case 1
    then show ?thesis using assms(1) by simp
  next
    case 2
    then show ?thesis using patch_target_ok [OF assms(1,2) 2(1,2)] by (cases ok) auto
  qed
qed

interpretation override_pass: step_invariant
  "patch_override_symbol env ctx handle match_local" "override_pass_inv env st"
  for env ctx handle match_local st
proof unfold_locales
  fix s :: "tramp \<times> int" and i
  assume inv: "override_pass_inv env st s"
  obtain st1 n st2 n2 where s: "s = (st1, n)" and r: "patch_override_symbol env ctx handle match_local i (st1, n) = (st2, n2)"
    by (metis surj_pair)
  have i: "pool_ok st" "text_apart st1" "tramp_inv env st1" "grows st st1" "0 \<le> n"
    using inv grows_text(3) by (auto simp: override_pass_inv_def lib_pass_inv_def s)
  note e = patch_override_symbol_effect [OF i(3,2) r]
  have "grows st st2" using grows_trans [OF i(1) tramp_inv_pool [OF i(3)] i(4)] e by blast
  moreover have "0 \<le> n2" using e i(5) by auto
  ultimately show "override_pass_inv env st (patch_override_symbol env ctx handle match_local i s)"
    using e inv by (simp add: override_pass_inv_def lib_pass_inv_def s r)
qed

text \<open>What a whole pass may change: on failure nothing in memory, otherwise free islands and entry words of
  the text.\<close>

definition pass_effect :: "tramp_env \<Rightarrow> tramp \<Rightarrow> int \<times> tramp \<Rightarrow> bool" where
  "pass_effect env st = (\<lambda>(n, st'). - 1 \<le> n \<and> tramp_inv env st' \<and>
     (n = - 1 \<longrightarrow> t_mem st' = t_mem st \<and> island_pool_used st' = island_pool_used st) \<and>
     same_outside (\<lambda>b. pool_free st b \<or> entry_word st' b) (t_mem st) (t_mem st'))"

lemma pass_effect_fail:
  "tramp_inv env st \<Longrightarrow> pass_effect env st (- 1, st)"
  "tramp_inv env st \<Longrightarrow> make_text_writable env mh slide st = (ok, st') \<Longrightarrow> pass_effect env st (- 1, st')"
  using make_text_writable_fields [of env mh slide st ok st'] by (simp_all add: pass_effect_def tramp_inv_writable)

lemma pass_effect_run:
  assumes "tramp_inv env st" "make_text_writable env mh slide st = (ok, st1)" "lib_pass_inv env st1 stub lib s"
  shows "pass_effect env st (snd s, restore_text_protection env (fst s))"
proof -
  obtain st2 n where s: "s = (st2, n)" by (cases s)
  note f = make_text_writable_fields [OF assms(2)]
  have g: "grows st1 st2" "tramp_inv env st2" "0 \<le> n" using assms(3) by (auto simp: lib_pass_inv_def s)
  have "pool_free st1 b = pool_free st b" for b using f by (simp add: pool_next_def)
  moreover have "entry_word (restore_text_protection env st2) = entry_word st1"
    using grows_text(2) [OF g(1)] by (simp add: entry_word_def in_text_def fun_eq_iff)
  ultimately show ?thesis using g f by (simp add: pass_effect_def grows_def s)
qed

lemma image_apart_text:
  "image_apart env mh slide st \<Longrightarrow> make_text_writable env mh slide st = (ok, st1) \<Longrightarrow> text_apart st1"
  by (simp add: image_apart_def)

lemma lib_pass_start:
  assumes "tramp_inv env st" "image_apart env mh slide st" "make_text_writable env mh slide st = (ok, st1)" "stub \<Longrightarrow> lib = 0"
  shows "lib_pass_inv env st1 stub lib (st1, 0)"
  using assms tramp_inv_writable [OF assms(3)] image_apart_text [OF assms(2,3)]
  by (auto simp: lib_pass_inv_def dest: tramp_inv_pool)

section \<open>Properties\<close>

text \<open>C9: A trampoline that reports success makes the function reach the target in three instructions with
  only \<open>x16\<close> changed, if the entry word is not inside the pool. It writes nothing but the entry word
  and one free island, and the pool stays within its bounds.\<close>

theorem write_trampoline_redirects:
  assumes "pool_ok st" "write_trampoline func target st = (True, st')"
    and "disj func 4 (island_pool st) (unat (island_pool_size st))"
  shows "redirects (t_mem st') func target \<and> pool_ok st' \<and>
    same_outside (\<lambda>b. pool_free st b \<or> in_range b func 4) (t_mem st) (t_mem st')"
  using assms by (rule write_trampoline_jumps)



text \<open>The same for the pass over the overrides of a host library.\<close>

theorem trampoline_patch_overrides_effect:
  assumes "tramp_inv env st" "image_apart env mh slide st"
  shows "pass_effect env st (trampoline_patch_overrides env mh slide handle match_local st)"
proof (cases "commands_of (t_mem st) mh LC_SYMTAB")
  case Nil
  then show ?thesis using pass_effect_fail(1) [OF assms(1)] by (simp add: trampoline_patch_overrides_def)
next
  case (Cons cmd rest)
  obtain ok st1 where w: "make_text_writable env mh slide st = (ok, st1)" by (cases "make_text_writable env mh slide st")
  have inv: "lib_pass_inv env st1 False 0
      (fold (patch_override_symbol env ctx handle match_local) is (st1, 0))" for ctx "is"
    by (rule override_pass.run_inv [unfolded override_pass_inv_def, OF lib_pass_start [OF assms w]]) simp
  show ?thesis
    unfolding trampoline_patch_overrides_def Cons list.case Let_def
    using pass_effect_fail [OF assms(1)] w pass_effect_run [OF assms(1) w inv]
    by (auto simp: case_prod_beta)
qed

end
