(* ===== verification/Hooks_Correct.thy ===== *)
theory Hooks_Correct
  imports Hooks_Valid Trampoline_Passes
begin

text \<open>
  The address hooks are applied all or none: a failing run leaves memory, pool and library handles as
  they were, a successful one redirects every function of the hook file to its host function.
\<close>

section \<open>The hooked entries do not overlap\<close>

lemma disjI:
  assumes "\<And>c. in_range c a n \<Longrightarrow> \<not> in_range c b k" "0 < n" "0 < k"
  shows "disj a n b k"
  using assms(1) [of a] assms(1) [of b] assms(2,3) by (force simp: disj_def in_range_def not_less)

lemma disjD: "disj a n b k \<Longrightarrow> in_range c a n \<Longrightarrow> in_range c b k \<Longrightarrow> False"
  using disj_ranges by blast

lemma no_wrap_sum:
  fixes v slide :: u64
  assumes "\<not> v > - 1 - slide"
  shows "unat (v + slide) = unat v + unat slide"
proof -
  have "unat v \<le> unat (- 1 - slide)" using assms by (simp add: word_le_nat_alt not_less)
  moreover have "unat (- 1 - slide) = 2 ^ 64 - 1 - unat slide"
    using unat_minus_one_word unsigned_less [of slide, where ?'a = nat] by (subst unat_sub) (simp_all add: word_le_nat_alt)
  ultimately show ?thesis
    using unsigned_less [of slide, where ?'a = nat] by (simp add: unat_word_ariths)
qed

lemma hook_extent:
  assumes "hook_valid env m mh slide starts h0 h" "hook_fresh h0" "sorted_wrt (<) starts"
  shows "\<exists>e sec seg. seg \<in> set (segments m mh) \<and> sec \<in> set (read_sections m seg) \<and> text_named m seg \<and> section_holds (h_vmaddr h) sec \<and>
    h_vmaddr h \<in> set starts \<and> unat (h_vmaddr h) + 4 \<le> unat e \<and> e \<le> sec_addr sec + sec_size sec \<and>
    (\<forall>s\<in>set starts. h_vmaddr h < s \<longrightarrow> e \<le> s) \<and> unat (h_runtime_addr h) = unat (h_vmaddr h) + unat slide"
proof -
  let ?v = "h_vmaddr h"
  obtain e where e: "executable_function_end m mh ?v starts = Some e" "\<not> length (h_expected h0) > unat (e - ?v)"
    using assms(1) by (auto simp: hook_valid_def)
  let ?fin = "executable_section_end m mh ?v"
  have f: "?fin \<noteq> 0" "start_end ?v ?fin starts = Some e"
    using e(1) by (auto simp: executable_function_end_def Let_def split: if_splits)
  obtain seg sec where s: "seg \<in> set (segments m mh)" "sec \<in> set (read_sections m seg)" "text_named m seg"
    "section_holds ?v sec" "?fin = sec_addr sec + sec_size sec"
    using executable_section_end_holds [OF f(1)] by blast
  have lt: "?v < ?fin" using s(4,5) by (simp add: section_holds_def)
  have se: "?v \<in> set starts" "?v < e" "e \<le> ?fin" "\<forall>s\<in>set starts. ?v < s \<longrightarrow> e \<le> s"
    using start_end_Some [OF f(2) assms(3) lt] by auto
  have d: "unat (e - ?v) = unat e - unat ?v" using se(2) by (simp add: unat_sub less_imp_le)
  have "4 \<le> unat e - unat ?v" using e(2) assms(2) d by (simp add: hook_fresh_def)
  then have "unat ?v + 4 \<le> unat e" using se(2) by (simp add: word_less_nat_alt)
  moreover have "unat (h_runtime_addr h) = unat ?v + unat slide"
  proof -
    have "h_runtime_addr h = ?v + slide" "\<not> ?v > - 1 - slide" using assms(1) by (simp_all add: hook_valid_def)
    then show ?thesis using no_wrap_sum by metis
  qed
  ultimately show ?thesis using s se by metis
qed

text \<open>The pool is apart from the executable sections of the text.\<close>

definition sections_apart :: "mem \<Rightarrow> u64 \<Rightarrow> u64 \<Rightarrow> tramp \<Rightarrow> bool" where
  "sections_apart m mh slide st \<longleftrightarrow> (\<forall>seg\<in>set (segments m mh). \<forall>sec\<in>set (read_sections m seg). text_named m seg \<longrightarrow>
     disj (sec_addr sec + slide) (unat (sec_size sec)) (island_pool st) (unat (island_pool_size st)))"

lemma hook_site_apart:
  assumes "hook_valid env m mh slide starts h0 h" "hook_fresh h0" "sorted_wrt (<) starts"
    and "sections_apart m mh slide st" "0 < unat (island_pool_size st)"
  shows "disj (h_runtime_addr h) 4 (island_pool st) (unat (island_pool_size st))"
proof (rule disjI)
  fix b assume b: "in_range b (h_runtime_addr h) 4"
  obtain e sec seg where s: "seg \<in> set (segments m mh)" "sec \<in> set (read_sections m seg)" "text_named m seg"
    "section_holds (h_vmaddr h) sec" "unat (h_vmaddr h) + 4 \<le> unat e" "e \<le> sec_addr sec + sec_size sec"
    using hook_extent [OF assms(1-3)] by blast
  note sb = section_holds_bounds [OF s(4)]
  have le: "unat (h_vmaddr h) - unat (sec_addr sec) + 4 \<le> unat (sec_size sec)"
    using s(5,6) sb by (simp add: word_le_nat_alt)
  have "h_runtime_addr h = h_vmaddr h + slide" using assms(1) by (simp add: hook_valid_def)
  then have "h_runtime_addr h = sec_addr sec + slide + of_nat (unat (h_vmaddr h) - unat (sec_addr sec))"
    using sb(2) by (simp add: of_nat_diff)
  with b have "in_range b (sec_addr sec + slide) (unat (sec_size sec))"
    using in_range_sub [of b "sec_addr sec + slide" _ 4 "unat (sec_size sec)"] le
      unsigned_less [of "sec_size sec", where ?'a = nat] by simp
  then show "\<not> pool_addr st b" using assms(4) s(1-3) disjD unfolding sections_apart_def by blast
qed (use assms(5) in simp_all)

lemma disj_of_gap:
  fixes r r' :: u64
  assumes "unat r + 4 \<le> unat r'" "unat r' - unat r \<le> 2 ^ 64 - 4"
  shows "disj r 4 r' 4"
proof -
  have "unat (r' - r) = unat r' - unat r" using assms(1) by (simp add: unat_sub word_le_nat_alt)
  moreover have "unat (r' - r) + unat (r - r') = 2 ^ 64" using assms(1) by (intro unat_diff_sum) auto
  ultimately show ?thesis using assms unfolding disj_def by (intro conjI; linarith)
qed

lemma hook_sites_disj:
  assumes "hook_valid env m mh slide starts h0 h" "hook_fresh h0" "sorted_wrt (<) starts"
    and "hook_valid env m mh slide starts h0' h'" "hook_fresh h0'" "h_vmaddr h \<noteq> h_vmaddr h'"
  shows "disj (h_runtime_addr h) 4 (h_runtime_addr h') 4"
proof -
  have lt: "disj (h_runtime_addr h) 4 (h_runtime_addr h') 4"
    if v: "hook_valid env m mh slide starts h0 h" "hook_fresh h0" "hook_valid env m mh slide starts h0' h'" "hook_fresh h0'"
      "h_vmaddr h < h_vmaddr h'" for h0 h h0' h'
  proof -
    obtain e where e: "unat (h_vmaddr h) + 4 \<le> unat e" "\<forall>s\<in>set starts. h_vmaddr h < s \<longrightarrow> e \<le> s"
      "unat (h_runtime_addr h) = unat (h_vmaddr h) + unat slide"
      using hook_extent [OF v(1,2) assms(3)] by blast
    obtain e' :: u64 where e': "h_vmaddr h' \<in> set starts" "unat (h_vmaddr h') + 4 \<le> unat e'"
      "unat (h_runtime_addr h') = unat (h_vmaddr h') + unat slide"
      using hook_extent [OF v(3,4) assms(3)] by metis
    have "unat e \<le> unat (h_vmaddr h')" using e(2) e'(1) v(5) by (simp add: word_le_nat_alt)
    then show ?thesis
      using e e' unsigned_less [of e', where ?'a = nat] by (intro disj_of_gap) simp_all
  qed
  from assms(6) consider "h_vmaddr h < h_vmaddr h'" | "h_vmaddr h' < h_vmaddr h" by (metis linorder_neqE)
  then show ?thesis
    using lt [OF assms(1,2,4,5)] lt [OF assms(4,5,1,2)] disj_sym by cases blast+
qed

section \<open>Writing\<close>

lemma pool_not_full:
  assumes "pool_ok st" "island_pool st \<noteq> 0" "unat (island_pool_used st) + 16 \<le> unat (island_pool_size st)"
  shows "\<not> pool_full st"
proof -
  have "unat (island_pool_used st + 16) = unat (island_pool_used st) + 16"
    using assms(1,3) by (simp add: pool_ok_def unat_word_ariths)
  with assms(2,3) show ?thesis by (simp add: pool_full_def ISLAND_SIZE_def word_less_nat_alt)
qed

lemma write_hooks_ok:
  assumes "pool_ok st" "island_pool st \<noteq> 0" "unat (island_pool_used st) + 16 * length hs \<le> unat (island_pool_size st)"
    and "\<And>i. i < length hs \<Longrightarrow> \<not> branch_too_far (pool_next st + of_nat i * 16 - h_runtime_addr (hs ! i))"
    and "\<And>h. h \<in> set hs \<Longrightarrow> disj (h_runtime_addr h) 4 (island_pool st) (unat (island_pool_size st))"
    and "sorted_wrt (\<lambda>h h'. disj (h_runtime_addr h) 4 (h_runtime_addr h') 4) hs"
  shows "\<exists>m' u. write_hooks hs k st = (k + length hs, st\<lparr>t_mem := m', island_pool_used := u\<rparr>) \<and>
    unat u = unat (island_pool_used st) + 16 * length hs \<and>
    same_outside (\<lambda>b. pool_free st b \<or> (\<exists>h\<in>set hs. in_range b (h_runtime_addr h) 4)) (t_mem st) m' \<and>
    (\<forall>h\<in>set hs. redirects m' (h_runtime_addr h) (h_target h))"
  using assms
proof (induction hs arbitrary: st k)
  case Nil
  show ?case by (rule exI [of _ "t_mem st"], rule exI [of _ "island_pool_used st"]) simp
next
  case (Cons h hs)
  let ?a = "pool_next st" and ?f = "h_runtime_addr h"
  have nf: "\<not> pool_full st" using pool_not_full Cons.prems(1,2,3) by simp
  have far: "\<not> branch_too_far (?a - ?f)" using Cons.prems(4) [of 0] by simp
  note ar = pool_arith [OF Cons.prems(1) nf]
  define m1 where "m1 = store32 (store_island (t_mem st) ?a (h_target h)) ?f (branch_insn (?a - ?f))"
  define st1 where "st1 = st\<lparr>t_mem := m1, island_pool_used := island_pool_used st + ISLAND_SIZE\<rparr>"
  have w: "write_trampoline ?f (h_target h) st = (True, st1)"
    using write_trampoline_ok [OF nf Cons.prems(1) far] by (simp add: st1_def m1_def)
  have ok1: "pool_ok st1" using pool_ok_used [OF Cons.prems(1) nf] by (simp add: st1_def)
  have u1: "unat (island_pool_used st1) = unat (island_pool_used st) + 16" using ar(1) by (simp add: st1_def ISLAND_SIZE_def)
  have a1: "pool_next st1 = ?a + 16" by (simp add: st1_def pool_next_def ISLAND_SIZE_def)
  have far1: "\<not> branch_too_far (pool_next st1 + of_nat i * 16 - h_runtime_addr (hs ! i))" if "i < length hs" for i
    using Cons.prems(4) [of "Suc i"] that by (simp add: a1 algebra_simps)
  obtain m2 u where ih: "write_hooks hs (k + 1) st1 = (k + 1 + length hs, st1\<lparr>t_mem := m2, island_pool_used := u\<rparr>)"
    "unat u = unat (island_pool_used st1) + 16 * length hs"
    "same_outside (\<lambda>b. pool_free st1 b \<or> (\<exists>h\<in>set hs. in_range b (h_runtime_addr h) 4)) (t_mem st1) m2"
    "\<forall>h\<in>set hs. redirects m2 (h_runtime_addr h) (h_target h)"
    using Cons.IH [OF ok1, of "k + 1"] Cons.prems(2,3,5,6) far1 u1 by (auto simp: st1_def)
  have site: "\<not> pool_addr st b" if "in_range b ?f 4" for b
    using Cons.prems(5) [of h] disjD that by auto
  have slot: "slot_used st1 ?a" using u1 by (simp add: slot_used_def st1_def pool_next_def)
  have free1: "pool_free st1 b \<Longrightarrow> pool_free st b" for b
    using in_range_sub [of b ?a 16 _ "unat (island_pool_size st) - unat (island_pool_used st)"] u1 a1 ar(2)
      unsigned_less [of "island_pool_size st", where ?'a = nat] by (simp add: st1_def)
  have free_pool: "pool_free st b \<Longrightarrow> pool_addr st b" for b
    using in_range_sub [of b "island_pool st" "unat (island_pool_used st)" _ "unat (island_pool_size st)"] ar(2)
      unsigned_less [of "island_pool_size st", where ?'a = nat] by (simp add: pool_next_def)
  have free0: "in_range b ?a 16 \<Longrightarrow> pool_free st b" for b
    by (erule in_range_mono) (use ar(2) in linarith)
  have entry: "load32 m2 ?f = branch_insn (?a - ?f)"
  proof -
    have "load32 m2 ?f = load32 (t_mem st1) ?f"
    proof (rule same_outside_load32 [OF ih(3)])
      fix b assume b: "in_range b ?f 4"
      have "\<not> (\<exists>h\<in>set hs. in_range b (h_runtime_addr h) 4)" using Cons.prems(6) b disjD unfolding sorted_wrt.simps by blast
      with site [OF b] free1 free_pool show "\<not> (pool_free st1 b \<or> (\<exists>h\<in>set hs. in_range b (h_runtime_addr h) 4))" by blast
    qed
    then show ?thesis by (simp add: st1_def m1_def load_store_same)
  qed
  have isl: "island_at m2 ?a (h_target h)"
  proof (rule island_at_outside [OF _ ih(3)])
    show "island_at (t_mem st1) ?a (h_target h)"
      unfolding st1_def m1_def by (simp, rule island_at_outside [OF island_at_store same_outside_store32])
        (use site slot_in_pool [OF Cons.prems(1) nf] in blast)
    fix b assume b: "in_range b ?a 16"
    have "\<not> pool_free st1 b" by (rule slot_used_disj(1) [OF ok1 slot b])
    moreover have "\<not> (\<exists>h\<in>set hs. in_range b (h_runtime_addr h) 4)"
      using Cons.prems(5) slot_in_pool [OF Cons.prems(1) nf b] disjD by (meson list.set_intros(2))
    ultimately show "\<not> (pool_free st1 b \<or> (\<exists>h\<in>set hs. in_range b (h_runtime_addr h) 4))" by blast
  qed
  have "same_outside (\<lambda>b. in_range b ?a 16 \<or> in_range b ?f 4) (t_mem st) (t_mem st1)"
    using same_outside_trans [OF same_outside_island same_outside_store32] by (simp add: st1_def m1_def)
  from same_outside_trans [OF this ih(3)]
  have "same_outside (\<lambda>b. pool_free st b \<or> (\<exists>h\<in>set (h # hs). in_range b (h_runtime_addr h) 4)) (t_mem st) m2"
    by (rule same_outside_mono) (use free1 free0 in auto)
  moreover have "redirects m2 ?f (h_target h)" by (rule redirectsI [OF entry far isl])
  ultimately show ?case
    using ih w u1 by (intro exI [of _ m2] exI [of _ u]) (auto simp: st1_def)
qed

section \<open>All or none\<close>

lemma capacity_room:
  assumes "island_capacity_ok n st"
  shows "island_pool st \<noteq> 0" "unat (island_pool_used st) + 16 * n \<le> unat (island_pool_size st)"
proof -
  have c: "island_pool st \<noteq> 0" "island_pool_used st \<le> island_pool_size st"
    "n \<le> unat ((island_pool_size st - island_pool_used st) div 16)"
    using assms by (auto simp: island_capacity_ok_def ISLAND_SIZE_def not_less)
  show "island_pool st \<noteq> 0" by (rule c(1))
  have "n \<le> (unat (island_pool_size st) - unat (island_pool_used st)) div 16"
    using c(2,3) by (simp add: unat_div unat_sub)
  then have "16 * n \<le> unat (island_pool_size st) - unat (island_pool_used st)" by simp
  then show "unat (island_pool_used st) + 16 * n \<le> unat (island_pool_size st)"
    using c(2) by (simp add: word_le_nat_alt)
qed

lemma list_all2_sites:
  assumes "list_all2 (hook_valid env m mh slide starts) hooks0 hooks" "list_all hook_fresh hooks0" "sorted_wrt (<) starts"
    and "distinct (map h_vmaddr hooks)"
  shows "sorted_wrt (\<lambda>h h'. disj (h_runtime_addr h) 4 (h_runtime_addr h') 4) hooks"
proof (rule sorted_wrt_iff_nth_less [THEN iffD2], intro allI impI)
  fix i j assume ij: "i < j" "j < length hooks"
  have l: "length hooks0 = length hooks" using assms(1) by (rule list_all2_lengthD)
  have "h_vmaddr (hooks ! i) \<noteq> h_vmaddr (hooks ! j)"
    using assms(4) ij by (simp add: distinct_conv_nth)
  then show "disj (h_runtime_addr (hooks ! i)) 4 (h_runtime_addr (hooks ! j)) 4"
    using assms(1-3) ij l
    by (intro hook_sites_disj [where ?h0.0 = "hooks0 ! i" and ?h0'.0 = "hooks0 ! j"])
       (auto simp: list_all2_conv_all_nth list_all_length)
qed

lemma apply_hooks_result:
  assumes "apply_hooks env mh slide hooks st = (n, st')" "pool_ok st" "hooks \<noteq> []"
    and "list_all2 (hook_valid env (t_mem st) mh slide starts) hooks0 hooks" "list_all hook_fresh hooks0"
    and "sorted_wrt (<) starts" "distinct (map h_vmaddr hooks)" "sections_apart (t_mem st) mh slide st"
  shows "t_handles st' = t_handles st \<and>
    (n = - 1 \<and> t_mem st' = t_mem st \<and> island_pool_used st' = island_pool_used st \<or>
     n = int (length hooks) \<and> unat (island_pool_used st') = unat (island_pool_used st) + 16 * length hooks \<and>
     same_outside (\<lambda>b. pool_free st b \<or> (\<exists>h\<in>set hooks. in_range b (h_runtime_addr h) 4)) (t_mem st) (t_mem st') \<and>
     (\<forall>h\<in>set hooks. redirects (t_mem st') (h_runtime_addr h) (h_target h)))"
proof (cases "island_capacity_ok (length hooks) st \<and> island_ranges_ok hooks st")
  case False
  then show ?thesis using assms(1) by (auto simp: apply_hooks_def split: if_splits)
next
  case True
  obtain ok st1 where w: "make_text_writable env mh slide st = (ok, st1)" by (cases "make_text_writable env mh slide st")
  note f = make_text_writable_fields [OF w]
  show ?thesis
  proof (cases ok)
    case False
    then show ?thesis using assms(1) True w f by (auto simp: apply_hooks_def)
  next
    case ok: True
    note room = capacity_room [OF True [THEN conjunct1]]
    have "0 < unat (island_pool_size st)" using room(2) assms(3) by (cases hooks) auto
    then have sites: "disj (h_runtime_addr h) 4 (island_pool st) (unat (island_pool_size st))" if "h \<in> set hooks" for h
      using hook_site_apart [OF _ _ assms(6,8)] assms(4,5) that
      by (metis (no_types, lifting) in_set_conv_nth list_all2_conv_all_nth list_all_length)
    have far: "\<not> branch_too_far (pool_next st + of_nat i * 16 - h_runtime_addr (hooks ! i))" if "i < length hooks" for i
      using True that by (auto simp: island_ranges_ok_def list_all_length ISLAND_SIZE_def)
    have next1: "pool_next st1 = pool_next st" using f by (simp add: pool_next_def)
    have "pool_ok st1" using assms(2) f by (simp add: pool_ok_def)
    then have "\<exists>m' u. write_hooks hooks 0 st1 = (0 + length hooks, st1\<lparr>t_mem := m', island_pool_used := u\<rparr>) \<and>
        unat u = unat (island_pool_used st1) + 16 * length hooks \<and>
        same_outside (\<lambda>b. pool_free st1 b \<or> (\<exists>h\<in>set hooks. in_range b (h_runtime_addr h) 4)) (t_mem st1) m' \<and>
        (\<forall>h\<in>set hooks. redirects m' (h_runtime_addr h) (h_target h))"
      by (rule write_hooks_ok) (use room f sites far next1 list_all2_sites [OF assms(4-7)] in auto)
    then obtain m' u where r: "write_hooks hooks 0 st1 = (length hooks, st1\<lparr>t_mem := m', island_pool_used := u\<rparr>)"
      "unat u = unat (island_pool_used st) + 16 * length hooks"
      "same_outside (\<lambda>b. pool_free st b \<or> (\<exists>h\<in>set hooks. in_range b (h_runtime_addr h) 4)) (t_mem st) m'"
      "\<forall>h\<in>set hooks. redirects m' (h_runtime_addr h) (h_target h)"
      using f next1 by auto
    show ?thesis using assms(1) True ok w f r by (auto simp: apply_hooks_def)
  qed
qed

text \<open>The runs of \<^verbatim>\<open>trampoline_patch_addresses\<close> that get as far as the application.\<close>

lemma patch_addresses_cases:
  assumes "trampoline_patch_addresses env mh slide path st = (n, st')" "pool_ok st" "sections_apart (t_mem st) mh slide st"
  obtains (early) "n = - 1" "only_handles st st'" "mset (t_handles st') = mset (t_handles st)"
  | (run) p hooks0 starts hooks st1 st2 where "path = Some p" "load_address_hooks env p = Some hooks0"
      "decode_function_starts (t_mem st) mh slide = Some starts" "only_handles st st1"
      "mset (t_handles st1) = open_handles hooks + mset (t_handles st)"
      "list_all2 (hook_valid env (t_mem st) mh slide starts) hooks0 hooks"
      "apply_hooks env mh slide hooks st1 = (n, st2)" "st' = free_address_hooks hooks (n < 0) st2"
      "t_handles st2 = t_handles st1"
      "n = - 1 \<and> t_mem st2 = t_mem st \<and> island_pool_used st2 = island_pool_used st \<or>
       n = int (length hooks) \<and> unat (island_pool_used st2) = unat (island_pool_used st) + 16 * length hooks \<and>
       same_outside (\<lambda>b. pool_free st b \<or> (\<exists>h\<in>set hooks. in_range b (h_runtime_addr h) 4)) (t_mem st) (t_mem st2) \<and>
       (\<forall>h\<in>set hooks. redirects (t_mem st2) (h_runtime_addr h) (h_target h))"
proof -
  consider "(n, st') = (- 1, st)" | p hooks0 where "path = Some p" "load_address_hooks env p = Some hooks0"
      "mh \<noteq> 0" "mh_magic (read_header (t_mem st) mh) = MH_MAGIC_64"
    using assms(1) by (auto simp: trampoline_patch_addresses_def split: option.splits if_splits)
  then show thesis
  proof cases
    case 1
    then show ?thesis by (intro early) simp_all
  next
    case 2
    have fresh: "list_all hook_fresh hooks0" "hooks0 \<noteq> []" using load_address_hooks_fresh [OF 2(2)] by auto
    then have h0: "list_all (\<lambda>h. h_lib_handle h = 0) hooks0" by (auto simp: list_all_iff hook_fresh_def)
    show ?thesis
    proof (cases "decode_function_starts (t_mem st) mh slide")
      case None
      then have "(n, st') = (- 1, st)"
        using assms(1) 2 free_address_hooks_no_handle [OF h0] by (simp add: trampoline_patch_addresses_def)
      then show ?thesis by (intro early) simp_all
    next
      case (Some starts)
      obtain ok hooks st1 where v: "validate_hooks env mh slide starts [] hooks0 st = (ok, hooks, st1)"
        by (metis surj_pair)
      have r: "only_handles st st1" "mset (t_handles st1) = open_handles hooks + mset (t_handles st)"
        "ok \<Longrightarrow> list_all2 (hook_valid env (t_mem st) mh slide starts) hooks0 hooks \<and> distinct (map h_vmaddr hooks)"
        using validate_hooks_result [OF v h0] by (auto simp: open_handles_def)
      note f1 = only_handles_fields [OF r(1)]
      show ?thesis
      proof (cases ok)
        case False
        then have e: "n = - 1" "st' = free_address_hooks hooks True st1"
          using assms(1) 2 Some v by (simp_all add: trampoline_patch_addresses_def)
        then show ?thesis
          using free_address_hooks_handles [of hooks True st1] r(2) only_handles_trans [OF r(1) free_address_hooks_fields]
          by (intro early) simp_all
      next
        case True
        obtain st2 where a: "apply_hooks env mh slide hooks st1 = (n, st2)" "st' = free_address_hooks hooks (n < 0) st2"
          using assms(1) 2 Some v True by (auto simp: trampoline_patch_addresses_def split: prod.splits)
        have ne: "hooks \<noteq> []" using r(3) [OF True] fresh(2) by auto
        have next1: "pool_next st1 = pool_next st" using f1 by (simp add: pool_next_def)
        have "pool_ok st1" "sections_apart (t_mem st1) mh slide st1" using assms(2,3) f1 by (simp_all add: pool_ok_def sections_apart_def)
        from apply_hooks_result [OF a(1) this(1) ne _ fresh(1) decode_function_starts_sorted [OF Some] _ this(2)]
        show ?thesis
          using run [OF 2(1,2) Some r(1,2) _ a] r(3) [OF True] f1 next1 by simp
      qed
    qed
  qed
qed

text \<open>C6: A failing run of the address hooks changes nothing: memory and pool are as before and every
  library handle it opened is closed again. The roll-back of half-written hooks is never needed.\<close>

theorem patch_addresses_failure:
  assumes "pool_ok st" "sections_apart (t_mem st) mh slide st"
    and "trampoline_patch_addresses env mh slide path st = (n, st')" "n < 0"
  shows "n = - 1 \<and> t_mem st' = t_mem st \<and> island_pool_used st' = island_pool_used st \<and>
    mset (t_handles st') = mset (t_handles st)"
  using assms(3,1,2)
proof (cases rule: patch_addresses_cases)
  case early
  then show ?thesis using only_handles_fields by blast
next
  case (run p hooks0 starts hooks st1 st2)
  then have "n = - 1" "t_mem st2 = t_mem st" "island_pool_used st2 = island_pool_used st" using assms(4) by auto
  then show ?thesis
    using run(5,8,9) only_handles_fields [OF free_address_hooks_fields, of hooks "n < 0" st2]
      free_address_hooks_handles [of hooks "n < 0" st2] by simp
qed

text \<open>C5: A successful run has redirected every function of the hook file, in three instructions, to the
  host function that the line names: each address is the start of a function of an executable
  section, where the expected bytes were found. Only these entries and free islands are written, and
  one island per hook is used.\<close>

theorem patch_addresses_success:
  assumes "pool_ok st" "sections_apart (t_mem st) mh slide st"
    and "trampoline_patch_addresses env mh slide path st = (n, st')" "0 \<le> n"
  shows "\<exists>p hooks starts. path = Some p \<and> load_address_hooks env p = Some hooks \<and> n = int (length hooks) \<and>
    decode_function_starts (t_mem st) mh slide = Some starts \<and>
    (\<forall>h\<in>set hooks. h_vmaddr h \<in> set starts \<and>
       mem_bytes (t_mem st) (h_vmaddr h + slide) (length (h_expected h)) = h_expected h \<and>
       redirects (t_mem st') (h_vmaddr h + slide) (te_dlsym env (te_dlopen env (Some (h_lib_path h))) (h_symbol h))) \<and>
    same_outside (\<lambda>b. pool_free st b \<or> (\<exists>h\<in>set hooks. in_range b (h_vmaddr h + slide) 4)) (t_mem st) (t_mem st') \<and>
    unat (island_pool_used st') = unat (island_pool_used st) + 16 * length hooks"
  using assms(3,1,2)
proof (cases rule: patch_addresses_cases)
  case early
  then show ?thesis using assms(4) by simp
next
  case (run p hooks0 starts hooks st1 st2)
  have len: "length hooks0 = length hooks" using run(6) by (rule list_all2_lengthD)
  have st': "st' = st2" using run(8) assms(4) by simp
  have fresh: "list_all hook_fresh hooks0" using load_address_hooks_fresh [OF run(2)] by simp
  have runtime: "h_runtime_addr ` set hooks = (\<lambda>h. h_vmaddr h + slide) ` set hooks0"
    using run(6) by (force simp: list_all2_conv_all_nth hook_valid_def set_conv_nth image_iff)
  have eff: "n = int (length hooks)" "unat (island_pool_used st2) = unat (island_pool_used st) + 16 * length hooks"
    "same_outside (\<lambda>b. pool_free st b \<or> (\<exists>h\<in>set hooks. in_range b (h_runtime_addr h) 4)) (t_mem st) (t_mem st2)"
    "\<forall>h\<in>set hooks. redirects (t_mem st2) (h_runtime_addr h) (h_target h)"
    using run(10) assms(4) by auto
  have "(\<exists>h\<in>set hooks. in_range b (h_runtime_addr h) 4) \<longleftrightarrow> (\<exists>h\<in>set hooks0. in_range b (h_vmaddr h + slide) 4)" for b
    using arg_cong [OF runtime, of "\<lambda>X. \<exists>a\<in>X. in_range b a 4"] by simp
  moreover have "h_vmaddr h0 \<in> set starts \<and>
       mem_bytes (t_mem st) (h_vmaddr h0 + slide) (length (h_expected h0)) = h_expected h0 \<and>
       redirects (t_mem st') (h_vmaddr h0 + slide) (te_dlsym env (te_dlopen env (Some (h_lib_path h0))) (h_symbol h0))"
    if h0: "h0 \<in> set hooks0" for h0
  proof -
    obtain h where h: "h \<in> set hooks" "hook_valid env (t_mem st) mh slide starts h0 h"
      using run(6) h0 len by (metis in_set_conv_nth list_all2_conv_all_nth)
    have "hook_fresh h0" using fresh h0 by (simp add: list_all_iff)
    then show ?thesis
      using hook_extent [OF h(2) _ decode_function_starts_sorted [OF run(3)]] eff(4) h by (auto simp: hook_valid_def st')
  qed
  ultimately show ?thesis using run(1,2,3) eff(1,2,3) len
    by (intro exI [of _ p] exI [of _ hooks0] exI [of _ starts]) (simp add: st')
qed

end
