(* ===== verification/Stale_Guard.thy ===== *)
theory Stale_Guard
  imports Trampoline
begin

text \<open>
  Model of the stale data guard of \<^verbatim>\<open>src/src/trampoline.c\<close>: pages of \<^verbatim>\<open>__DATA\<close> that hold only symbols of
  replaced libraries are made inaccessible, so that code which still uses the state of the guest's copy
  of a library faults. The crash handler asks whether a fault lies in such a page.
\<close>

section \<open>The guard\<close>

definition MAX_GUARDED_PAGES :: nat where "MAX_GUARDED_PAGES = 4096"

definition trampoline_is_guarded_fault :: "tramp \<Rightarrow> u64 \<Rightarrow> bool" where
  "trampoline_is_guarded_fault st addr \<longleftrightarrow>
     list_ex (\<lambda>(base, n). addr \<ge> base \<and> addr < base + n) (guarded_pages st)"

text \<open>The pages seen so far with a library symbol and with another one, and the number of library symbols.\<close>

definition classify_symbol ::
    "mem \<Rightarrow> patch_ctx \<Rightarrow> cstr list \<Rightarrow> u64 \<Rightarrow> u64 \<Rightarrow> u64 \<Rightarrow> nat \<Rightarrow> nat \<Rightarrow>
     bool list \<times> bool list \<times> int \<Rightarrow> bool list \<times> bool list \<times> int" where
  "classify_symbol m ctx prefixes data_base data_end page_size num_pages i = (\<lambda>(has_library, has_other, count).
    let sym = read_nlist m (pc_nlist ctx + 16 * of_nat i); unchanged = (has_library, has_other, count) in
    if n_type sym AND N_TYPE \<noteq> N_SECT then unchanged
    else if n_type sym AND N_STAB \<noteq> 0 then unchanged
    else if n_strx sym \<ge> pc_strsize ctx then unchanged
    else
      let addr = n_value sym + pc_slide ctx in
      if addr < data_base \<or> addr \<ge> data_end then unchanged
      else
        let page_idx = unat ((addr - data_base) div page_size) in
        if page_idx \<ge> num_pages then unchanged
        else if matches_prefix (mem_str m (pc_strtab ctx + ucast (n_strx sym))) prefixes
        then (has_library[page_idx := True], has_other, count + 1)
        else (has_library, has_other[page_idx := True], count))"

fun guard_pages :: "tramp_env \<Rightarrow> u64 \<Rightarrow> u64 \<Rightarrow> bool list \<Rightarrow> bool list \<Rightarrow> nat list \<Rightarrow> tramp \<Rightarrow> tramp" where
  "guard_pages env data_base page_size has_library has_other [] st = st"
| "guard_pages env data_base page_size has_library has_other (i # is) st =
    (if \<not> has_library ! i then guard_pages env data_base page_size has_library has_other is st
     else if has_other ! i then guard_pages env data_base page_size has_library has_other is st
     else if length (guarded_pages st) \<ge> MAX_GUARDED_PAGES then st
     else
       let page_addr = data_base + of_nat i * page_size;
           (ok, st) = mprotect env page_addr page_size PROT_NONE st;
           st = (if ok then st\<lparr>guarded_pages := guarded_pages st @ [(page_addr, page_size)]\<rparr> else st)
       in guard_pages env data_base page_size has_library has_other is st)"

definition trampoline_guard_stale_data :: "tramp_env \<Rightarrow> u64 \<Rightarrow> u64 \<Rightarrow> cstr list \<Rightarrow> tramp \<Rightarrow> tramp" where
  "trampoline_guard_stale_data env mh slide prefixes st =
    (let m = t_mem st; page_size = sys_page_size env in
     case find (\<lambda>seg. mem_str m (seg_segname seg) = ''__DATA'') (segments m mh) of
       None \<Rightarrow> st
     | Some seg \<Rightarrow>
         let data_base = seg_vmaddr seg + slide; data_end = data_base + seg_vmsize seg in
         if data_base = 0 then st
         else
           let num_pages = unat ((data_end - data_base + page_size - 1) div page_size) in
           if num_pages = 0 then st
           else
             (case commands_of m mh LC_SYMTAB of
                [] \<Rightarrow> st
              | cmd # _ \<Rightarrow>
                  let symtab = read_symtab m cmd;
                      nlist_arr = fileoff_to_mem m mh slide (st_symoff symtab);
                      strtab = fileoff_to_mem m mh slide (st_stroff symtab)
                  in if nlist_arr = 0 \<or> strtab = 0 then st
                     else
                       let ctx = \<lparr>pc_slide = slide, pc_nlist = nlist_arr, pc_strtab = strtab, pc_strsize = st_strsize symtab\<rparr>;
                           (has_library, has_other, lib_data_syms) =
                             fold (classify_symbol m ctx prefixes data_base data_end page_size num_pages)
                               [0..<unat (st_nsyms symtab)] (replicate num_pages False, replicate num_pages False, 0)
                       in if lib_data_syms = 0 then st
                          else guard_pages env data_base page_size has_library has_other [0..<num_pages] st))"

section \<open>Which pages are guarded\<close>

text \<open>The symbols of the data segment that take part, by their address.\<close>

definition data_symbol :: "mem \<Rightarrow> patch_ctx \<Rightarrow> u64 \<Rightarrow> u64 \<Rightarrow> nat \<Rightarrow> bool" where
  "data_symbol m ctx data_base data_end i \<longleftrightarrow>
    (let sym = read_nlist m (pc_nlist ctx + 16 * of_nat i); addr = n_value sym + pc_slide ctx in
     n_type sym AND N_TYPE = N_SECT \<and> n_type sym AND N_STAB = 0 \<and> \<not> n_strx sym \<ge> pc_strsize ctx \<and>
     \<not> addr < data_base \<and> \<not> addr \<ge> data_end)"

definition data_addr :: "mem \<Rightarrow> patch_ctx \<Rightarrow> nat \<Rightarrow> u64" where
  "data_addr m ctx i = n_value (read_nlist m (pc_nlist ctx + 16 * of_nat i)) + pc_slide ctx"

definition library_symbol :: "mem \<Rightarrow> patch_ctx \<Rightarrow> cstr list \<Rightarrow> nat \<Rightarrow> bool" where
  "library_symbol m ctx prefixes i \<longleftrightarrow>
     matches_prefix (mem_str m (pc_strtab ctx + ucast (n_strx (read_nlist m (pc_nlist ctx + 16 * of_nat i))))) prefixes"

definition page_of :: "mem \<Rightarrow> patch_ctx \<Rightarrow> u64 \<Rightarrow> u64 \<Rightarrow> nat \<Rightarrow> nat" where
  "page_of m ctx data_base page_size i = unat ((data_addr m ctx i - data_base) div page_size)"

lemma classify_symbol_cases:
  "classify_symbol m ctx prefixes db de ps np i (hl, ho, c) =
    (if data_symbol m ctx db de i \<and> \<not> page_of m ctx db ps i \<ge> np then
       if library_symbol m ctx prefixes i then (hl[page_of m ctx db ps i := True], ho, c + 1)
       else (hl, ho[page_of m ctx db ps i := True], c)
     else (hl, ho, c))"
  unfolding classify_symbol_def data_symbol_def library_symbol_def page_of_def data_addr_def Let_def by simp

lemma classify_result:
  assumes "fold (classify_symbol m ctx prefixes db de ps np) [0..<n] (replicate np False, replicate np False, 0) = (hl, ho, c)"
  shows "length hl = np \<and> length ho = np \<and> 0 \<le> c \<and> (c = 0 \<longrightarrow> (\<forall>p<np. \<not> hl ! p)) \<and> (\<forall>p<np.
    (hl ! p \<longleftrightarrow> (\<exists>i<n. data_symbol m ctx db de i \<and> library_symbol m ctx prefixes i \<and> page_of m ctx db ps i = p)) \<and>
    (ho ! p \<longleftrightarrow> (\<exists>i<n. data_symbol m ctx db de i \<and> \<not> library_symbol m ctx prefixes i \<and> page_of m ctx db ps i = p)))"
  using assms
proof (induction n arbitrary: hl ho c)
  case 0
  then show ?case by auto
next
  case (Suc n)
  obtain hl1 ho1 c1 where f: "fold (classify_symbol m ctx prefixes db de ps np) [0..<n] (replicate np False, replicate np False, 0) = (hl1, ho1, c1)"
    by (metis surj_pair)
  have st: "(hl, ho, c) = classify_symbol m ctx prefixes db de ps np n (hl1, ho1, c1)" using Suc.prems f by simp
  note ih = Suc.IH [OF f]
  let ?p = "page_of m ctx db ps n"
  consider "\<not> (data_symbol m ctx db de n \<and> ?p < np)" | "data_symbol m ctx db de n" "?p < np" "library_symbol m ctx prefixes n"
    | "data_symbol m ctx db de n" "?p < np" "\<not> library_symbol m ctx prefixes n" by blast
  then show ?case
  proof cases
    case 1
    then have "hl = hl1" "ho = ho1" "c = c1" using st by (auto simp: classify_symbol_cases)
    with ih 1 show ?thesis by (auto simp: less_Suc_eq)
  next
    case 2
    then have "hl = hl1[?p := True]" "ho = ho1" "c = c1 + 1" using st by (auto simp: classify_symbol_cases)
    with ih 2 show ?thesis by (auto simp: less_Suc_eq nth_list_update)
  next
    case 3
    then have "hl = hl1" "ho = ho1[?p := True]" "c = c1" using st by (auto simp: classify_symbol_cases)
    with ih 3 show ?thesis by (auto simp: less_Suc_eq nth_list_update)
  qed
qed

text \<open>The pages with library symbols only, and what the loop over the pages adds for them.\<close>

lemma guard_pages_result:
  "\<exists>is'. guarded_pages (guard_pages env db ps hl ho is st) = guarded_pages st @ map (\<lambda>i. (db + of_nat i * ps, ps)) is' \<and>
     set is' \<subseteq> {i \<in> set is. hl ! i \<and> \<not> ho ! i} \<and>
     ((\<forall>a n. te_mprotect env a n PROT_NONE) \<longrightarrow>
      length (guarded_pages st) + length (filter (\<lambda>i. hl ! i \<and> \<not> ho ! i) is) \<le> MAX_GUARDED_PAGES \<longrightarrow>
      is' = filter (\<lambda>i. hl ! i \<and> \<not> ho ! i) is)"
proof (induction "is" arbitrary: st)
  case Nil
  show ?case by (rule exI [of _ "[]"]) simp
next
  case (Cons i "is")
  show ?case
  proof (cases "hl ! i \<and> \<not> ho ! i")
    case False
    with Cons.IH [of st] show ?thesis by auto
  next
    case True
    show ?thesis
    proof (cases "length (guarded_pages st) \<ge> MAX_GUARDED_PAGES")
      case full: True
      then show ?thesis using True by (intro exI [of _ "[]"]) auto
    next
      case room: False
      let ?a = "db + of_nat i * ps"
      define ok where "ok = te_mprotect env ?a ps PROT_NONE"
      define st1 where "st1 = (if ok then st\<lparr>t_prots := (?a, ps, PROT_NONE) # t_prots st, guarded_pages := guarded_pages st @ [(?a, ps)]\<rparr> else st)"
      have e: "guard_pages env db ps hl ho (i # is) st = guard_pages env db ps hl ho is st1"
        using True room by (simp add: mprotect_def st1_def ok_def Let_def)
      have g: "guarded_pages st1 = guarded_pages st @ (if ok then [(?a, ps)] else [])" by (simp add: st1_def)
      from Cons.IH [of st1] obtain is' where ih:
        "guarded_pages (guard_pages env db ps hl ho is st1) = guarded_pages st1 @ map (\<lambda>i. (db + of_nat i * ps, ps)) is'"
        "set is' \<subseteq> {i \<in> set is. hl ! i \<and> \<not> ho ! i}"
        "(\<forall>a n. te_mprotect env a n PROT_NONE) \<Longrightarrow>
         length (guarded_pages st1) + length (filter (\<lambda>i. hl ! i \<and> \<not> ho ! i) is) \<le> MAX_GUARDED_PAGES \<Longrightarrow>
         is' = filter (\<lambda>i. hl ! i \<and> \<not> ho ! i) is" by blast
      show ?thesis
        using ih True by (intro exI [of _ "if ok then i # is' else is'"]) (auto simp: e g ok_def simp del: guard_pages.simps)
    qed
  qed
qed

lemma div_interval:
  fixes x d p :: nat
  assumes "0 < d"
  shows "x div d = p \<longleftrightarrow> p * d \<le> x \<and> x < p * d + d"
proof
  assume p: "x div d = p"
  have "x = p * d + x mod d" unfolding p [symmetric] by simp
  moreover have "x mod d < d" using assms by simp
  ultimately show "p * d \<le> x \<and> x < p * d + d" by linarith
next
  assume "p * d \<le> x \<and> x < p * d + d"
  then show "x div d = p" by (intro div_nat_eqI) (simp_all add: mult.commute)
qed

lemma page_interval:
  fixes addr db ps :: u64
  assumes "unat db + n + unat ps < 2 ^ 64" "0 < unat ps" "p * unat ps < n"
  shows "addr \<ge> db + of_nat p * ps \<and> addr < db + of_nat p * ps + ps \<longleftrightarrow>
    db \<le> addr \<and> unat ((addr - db) div ps) = p"
proof -
  have pp: "unat (of_nat p * ps) = p * unat ps"
  proof -
    have "p \<le> p * unat ps" using assms(2) by simp
    then have "p < 2 ^ 64" using assms by linarith
    then show ?thesis using assms by (simp add: unat_word_ariths unat_of_nat)
  qed
  have b: "unat (db + of_nat p * ps) = unat db + p * unat ps"
    using assms by (simp add: unat_word_ariths(1) pp)
  have e: "unat (db + of_nat p * ps + ps) = unat db + p * unat ps + unat ps"
    using assms by (simp add: unat_word_ariths(1) [of "db + of_nat p * ps"] b)
  have "db \<le> addr \<Longrightarrow> unat ((addr - db) div ps) = (unat addr - unat db) div unat ps"
    by (simp add: unat_div unat_sub)
  moreover have "(unat addr - unat db) div unat ps = p \<longleftrightarrow>
      p * unat ps \<le> unat addr - unat db \<and> unat addr - unat db < p * unat ps + unat ps"
    by (rule div_interval [OF assms(2)])
  ultimately have r: "db \<le> addr \<Longrightarrow> unat ((addr - db) div ps) = p \<longleftrightarrow>
      p * unat ps \<le> unat addr - unat db \<and> unat addr - unat db < p * unat ps + unat ps" by simp
  have l: "addr \<ge> db + of_nat p * ps \<and> addr < db + of_nat p * ps + ps \<longleftrightarrow>
      unat db + p * unat ps \<le> unat addr \<and> unat addr < unat db + p * unat ps + unat ps"
    by (simp only: word_le_nat_alt word_less_nat_alt b e)
  show ?thesis
  proof (cases "db \<le> addr")
    case True
    then have "unat db \<le> unat addr" by (simp add: word_le_nat_alt)
    then show ?thesis unfolding l using r [OF True] True by linarith
  next
    case False
    then show ?thesis unfolding l by (simp add: word_le_nat_alt)
  qed
qed

section \<open>Soundness and completeness of the guard\<close>

text \<open>The data segment, its symbols and their number, if the image has them.\<close>

definition guard_scope :: "mem \<Rightarrow> u64 \<Rightarrow> u64 \<Rightarrow> (patch_ctx \<times> u64 \<times> u64 \<times> nat) option" where
  "guard_scope m mh slide =
    (case find (\<lambda>seg. mem_str m (seg_segname seg) = ''__DATA'') (segments m mh) of
       None \<Rightarrow> None
     | Some seg \<Rightarrow>
         (case commands_of m mh LC_SYMTAB of
            [] \<Rightarrow> None
          | cmd # _ \<Rightarrow>
              let symtab = read_symtab m cmd; data_base = seg_vmaddr seg + slide;
                  nlist_arr = fileoff_to_mem m mh slide (st_symoff symtab);
                  strtab = fileoff_to_mem m mh slide (st_stroff symtab)
              in if data_base = 0 \<or> nlist_arr = 0 \<or> strtab = 0 then None
                 else Some (\<lparr>pc_slide = slide, pc_nlist = nlist_arr, pc_strtab = strtab, pc_strsize = st_strsize symtab\<rparr>,
                   data_base, data_base + seg_vmsize seg, unat (st_nsyms symtab))))"

text \<open>A page, by its number, that holds library data only.\<close>

definition stale_page :: "mem \<Rightarrow> patch_ctx \<Rightarrow> cstr list \<Rightarrow> u64 \<Rightarrow> u64 \<Rightarrow> nat \<Rightarrow> u64 \<Rightarrow> nat \<Rightarrow> bool" where
  "stale_page m ctx prefixes data_base data_end n page_size p \<longleftrightarrow>
     (\<exists>i<n. data_symbol m ctx data_base data_end i \<and> library_symbol m ctx prefixes i \<and> page_of m ctx data_base page_size i = p) \<and>
     \<not> (\<exists>i<n. data_symbol m ctx data_base data_end i \<and> \<not> library_symbol m ctx prefixes i \<and> page_of m ctx data_base page_size i = p)"

lemma num_pages_bound:
  fixes db de ps :: u64
  assumes "unat db + unat (de - db) + unat ps < 2 ^ 64" "0 < unat ps"
  shows "p < unat ((de - db + ps - 1) div ps) \<longleftrightarrow> p * unat ps < unat (de - db)"
proof -
  have "unat (de - db + ps) = unat (de - db) + unat ps" using assms(1) by (simp add: unat_word_ariths(1))
  moreover from this have "de - db + ps \<noteq> 0" using assms(2) by (metis add_is_0 not_less0 unat_0)
  ultimately have "unat (de - db + ps - 1) = unat (de - db) + unat ps - 1" by (simp add: unat_minus_one)
  then have "unat ((de - db + ps - 1) div ps) = (unat (de - db) + unat ps - 1) div unat ps" by (simp add: unat_div)
  moreover have "p < (unat (de - db) + unat ps - 1) div unat ps \<longleftrightarrow> p * unat ps < unat (de - db)"
    using assms(2) by (simp add: less_eq_Suc_le less_eq_div_iff_mult_less_eq mult.commute) linarith
  ultimately show ?thesis by simp
qed

lemma data_symbol_page:
  assumes "data_symbol m ctx db de i" "unat db + unat (de - db) + unat ps < 2 ^ 64" "0 < unat ps"
  shows "page_of m ctx db ps i * unat ps < unat (de - db)"
proof -
  let ?a = "data_addr m ctx i"
  have a: "db \<le> ?a" "?a < de" using assms(1) by (auto simp: data_symbol_def data_addr_def Let_def not_less)
  have "page_of m ctx db ps i * unat ps \<le> unat ?a - unat db"
    using a(1) by (simp add: page_of_def unat_div unat_sub)
  also have "\<dots> < unat (de - db)"
    using a by (simp add: unat_sub word_le_nat_alt word_less_nat_alt)
  finally show ?thesis .
qed

lemma guard_stale_data_pages:
  assumes "guard_scope (t_mem st) mh slide = Some (ctx, db, de, n)"
    and "unat db + unat (de - db) + unat (sys_page_size env) < 2 ^ 64" "0 < unat (sys_page_size env)"
  shows "\<exists>is. guarded_pages (trampoline_guard_stale_data env mh slide prefixes st) =
      guarded_pages st @ map (\<lambda>i. (db + of_nat i * sys_page_size env, sys_page_size env)) is \<and>
    (\<forall>p\<in>set is. p * unat (sys_page_size env) < unat (de - db) \<and> stale_page (t_mem st) ctx prefixes db de n (sys_page_size env) p) \<and>
    ((\<forall>a n. te_mprotect env a n PROT_NONE) \<longrightarrow>
     length (guarded_pages st) + unat (de - db) div unat (sys_page_size env) < MAX_GUARDED_PAGES \<longrightarrow>
     (\<forall>p. p * unat (sys_page_size env) < unat (de - db) \<longrightarrow>
        stale_page (t_mem st) ctx prefixes db de n (sys_page_size env) p \<longrightarrow> p \<in> set is))"
proof -
  let ?ps = "sys_page_size env" and ?m = "t_mem st"
  let ?np = "unat ((de - db + ?ps - 1) div ?ps)"
  obtain hl ho c where cl: "fold (classify_symbol ?m ctx prefixes db de ?ps ?np) [0..<n]
      (replicate ?np False, replicate ?np False, 0) = (hl, ho, c)" by (metis surj_pair)
  have run: "trampoline_guard_stale_data env mh slide prefixes st =
      (if ?np = 0 \<or> c = 0 then st else guard_pages env db ?ps hl ho [0..<?np] st)"
    using assms(1) cl
    by (auto simp: trampoline_guard_stale_data_def guard_scope_def Let_def split: option.splits list.splits if_splits)
  note np = num_pages_bound [OF assms(2,3)]
  note r = classify_result [OF cl]
  have sp: "hl ! p \<and> \<not> ho ! p \<longleftrightarrow> stale_page ?m ctx prefixes db de n ?ps p" if "p < ?np" for p
    using r that by (auto simp: stale_page_def)
  show ?thesis
  proof (cases "?np = 0 \<or> c = 0")
    case True
    have "\<not> stale_page ?m ctx prefixes db de n ?ps p" if "p * unat ?ps < unat (de - db)" for p
      using True r np [of p] that sp [of p] by auto
    then show ?thesis using True run by (intro exI [of _ "[]"]) simp
  next
    case False
    from guard_pages_result [of env db ?ps hl ho "[0..<?np]" st] obtain is' where g:
      "guarded_pages (guard_pages env db ?ps hl ho [0..<?np] st) = guarded_pages st @ map (\<lambda>i. (db + of_nat i * ?ps, ?ps)) is'"
      "set is' \<subseteq> {i \<in> set [0..<?np]. hl ! i \<and> \<not> ho ! i}"
      "(\<forall>a n. te_mprotect env a n PROT_NONE) \<Longrightarrow>
       length (guarded_pages st) + length (filter (\<lambda>i. hl ! i \<and> \<not> ho ! i) [0..<?np]) \<le> MAX_GUARDED_PAGES \<Longrightarrow>
       is' = filter (\<lambda>i. hl ! i \<and> \<not> ho ! i) [0..<?np]" by blast
    have few: "length (filter (\<lambda>i. hl ! i \<and> \<not> ho ! i) [0..<?np]) \<le> unat (de - db) div unat ?ps + 1"
    proof -
      have "?np \<le> unat (de - db) div unat ?ps + 1"
      proof (rule ccontr)
        assume "\<not> ?thesis"
        then have "Suc (unat (de - db) div unat ?ps) < ?np" by simp
        then have "Suc (unat (de - db) div unat ?ps) * unat ?ps < unat (de - db)" by (simp only: np)
        then show False using assms(3) div_interval [of "unat ?ps" "unat (de - db)" "unat (de - db) div unat ?ps"] by simp
      qed
      then show ?thesis
        using length_filter_le [of "\<lambda>i. hl ! i \<and> \<not> ho ! i" "[0..<?np]"] unfolding length_upt by linarith
    qed
    show ?thesis
    proof (intro exI [of _ is'] conjI ballI impI allI)
      show "guarded_pages (trampoline_guard_stale_data env mh slide prefixes st) =
          guarded_pages st @ map (\<lambda>i. (db + of_nat i * ?ps, ?ps)) is'" using g(1) run False by simp
      fix p assume "p \<in> set is'"
      then have p: "p < ?np" "hl ! p \<and> \<not> ho ! p" using g(2) by auto
      show "p * unat ?ps < unat (de - db)" using p(1) by (simp only: np)
      show "stale_page ?m ctx prefixes db de n ?ps p" using sp [OF p(1)] p(2) by blast
    next
      fix p assume a: "\<forall>a n. te_mprotect env a n PROT_NONE" "length (guarded_pages st) + unat (de - db) div unat ?ps < MAX_GUARDED_PAGES"
        "p * unat ?ps < unat (de - db)" "stale_page ?m ctx prefixes db de n ?ps p"
      have "is' = filter (\<lambda>i. hl ! i \<and> \<not> ho ! i) [0..<?np]" by (rule g(3) [OF a(1)]) (use few a(2) in linarith)
      moreover have "p < ?np" using a(3) by (simp only: np)
      ultimately show "p \<in> set is'" using sp [of p] a(4) by simp
    qed
  qed
qed

text \<open>C26: After the guard has run on a state without guarded pages, a fault is reported as stale exactly if
  its page, counted from the start of the data segment, holds a symbol of a replaced library and no
  other symbol: no data of the game is ever taken away. Completeness needs the protection to succeed and
  the table of pages to have room; the segment ends before the last page of the address space.\<close>

theorem guard_stale_data_faults:
  assumes "guard_scope (t_mem st) mh slide = Some (ctx, db, de, n)" "guarded_pages st = []"
    and "unat db + unat (de - db) + unat (sys_page_size env) < 2 ^ 64" "0 < unat (sys_page_size env)"
    and "\<forall>a n. te_mprotect env a n PROT_NONE" "unat (de - db) div unat (sys_page_size env) < MAX_GUARDED_PAGES"
  shows "trampoline_is_guarded_fault (trampoline_guard_stale_data env mh slide prefixes st) addr \<longleftrightarrow>
    db \<le> addr \<and> stale_page (t_mem st) ctx prefixes db de n (sys_page_size env) (unat ((addr - db) div sys_page_size env))"
proof -
  let ?ps = "sys_page_size env" and ?stale = "stale_page (t_mem st) ctx prefixes db de n (sys_page_size env)"
  obtain ps where g: "guarded_pages (trampoline_guard_stale_data env mh slide prefixes st) = map (\<lambda>i. (db + of_nat i * ?ps, ?ps)) ps"
    "\<And>p. p \<in> set ps \<longleftrightarrow> p * unat ?ps < unat (de - db) \<and> ?stale p"
  proof -
    from guard_stale_data_pages [OF assms(1,3,4), of prefixes] obtain ps where
      "guarded_pages (trampoline_guard_stale_data env mh slide prefixes st) = map (\<lambda>i. (db + of_nat i * ?ps, ?ps)) ps"
      "\<forall>p\<in>set ps. p * unat ?ps < unat (de - db) \<and> ?stale p"
      "\<forall>p. p * unat ?ps < unat (de - db) \<longrightarrow> ?stale p \<longrightarrow> p \<in> set ps"
      using assms(2,5,6) by auto
    then show thesis by (intro that [of ps]) blast+
  qed
  have stale: "p * unat ?ps < unat (de - db)" if "?stale p" for p
    using that data_symbol_page [OF _ assms(3,4)] by (auto simp: stale_page_def)
  have "trampoline_is_guarded_fault (trampoline_guard_stale_data env mh slide prefixes st) addr \<longleftrightarrow>
      (\<exists>p\<in>set ps. addr \<ge> db + of_nat p * ?ps \<and> addr < db + of_nat p * ?ps + ?ps)"
    by (simp add: trampoline_is_guarded_fault_def g(1) list_ex_iff)
  also have "\<dots> \<longleftrightarrow> (\<exists>p\<in>set ps. db \<le> addr \<and> unat ((addr - db) div ?ps) = p)"
    using page_interval [OF assms(3,4)] g(2) by (intro bex_cong) auto
  also have "\<dots> \<longleftrightarrow> db \<le> addr \<and> ?stale (unat ((addr - db) div ?ps))"
    using g(2) stale by auto
  finally show ?thesis .
qed

end
