(* ===== verification/Mem_Image.thy ===== *)
theory Mem_Image
  imports Macho
begin

text \<open>
  Concrete memories for examples: the 64-bit words at aligned addresses, zero elsewhere, with rules that
  evaluate loads from them.
\<close>

definition word_at :: "(u64 \<times> u64) list \<Rightarrow> u64 \<Rightarrow> u64" where
  "word_at ws a = (case map_of ws a of None \<Rightarrow> 0 | Some w \<Rightarrow> w)"

definition image :: "(u64 \<times> u64) list \<Rightarrow> mem" where
  "image ws a = ucast (drop_bit (8 * unat (a AND 7)) (word_at ws (a AND NOT 7)))"

lemma and_plus:
  fixes a k :: u64
  assumes "a AND 7 = 0" "k < 8"
  shows "(a + k) AND 7 = k" "(a + k) AND NOT 7 = a"
proof -
  have k7: "k AND 7 = k"
  proof -
    have "take_bit 3 (unat k) = unat k" using assms(2) by (simp add: word_less_nat_alt take_bit_nat_eq_self)
    then have "take_bit 3 k = k" by (simp add: word_unat_eq_iff unsigned_take_bit_eq)
    then show ?thesis by (simp add: take_bit_eq_mask mask_eq_exp_minus_1)
  qed
  have "a AND (k AND 7) = (a AND 7) AND k" by (simp only: and.assoc and.commute and.left_commute)
  then have "a AND k = 0" using assms(1) k7 by simp
  then have o: "a + k = a OR k" by (simp add: disjunctive_add_eq_or)
  show "(a + k) AND 7 = k" using assms(1) k7 by (simp add: o bit.conj_disj_distrib2)
  have "a AND NOT 7 = a"
  proof -
    have "a = a AND (7 OR NOT 7)" by (simp only: bit.disj_cancel_right bit.conj_one_right)
    then have "a = (a AND 7) OR (a AND NOT 7)" by (simp only: bit.conj_disj_distrib)
    then show ?thesis using assms(1) by simp
  qed
  moreover have "k AND NOT 7 = 0"
  proof -
    have "(k AND 7) AND NOT 7 = k AND (7 AND NOT 7)" by (rule and.assoc)
    then show ?thesis using k7 by (simp only: bit.conj_cancel_right) simp
  qed
  ultimately show "(a + k) AND NOT 7 = a" by (simp add: o bit.conj_disj_distrib2)
qed

lemma image_byte:
  assumes "a AND 7 = 0" "k < 8"
  shows "image ws (a + of_nat k) = ucast (drop_bit (8 * k) (word_at ws a))"
proof -
  have "(of_nat k :: u64) < 8" using assms(2) by (simp add: word_less_nat_alt unat_of_nat)
  note ap = and_plus [OF assms(1) this]
  show ?thesis using assms(2) unfolding image_def ap by (simp add: unat_of_nat)
qed

lemma load_image:
  assumes "a AND 7 = 0" "k + n \<le> 8"
  shows "load (image ws) (a + of_nat k) n = take_bit (8 * n) (drop_bit (8 * k) (word_at ws a))"
  using assms(2)
proof (induction n arbitrary: k)
  case 0
  then show ?case by simp
next
  case (Suc n)
  have s: "a + of_nat k + 1 = a + of_nat (Suc k)" by simp
  have "load (image ws) (a + of_nat k) (Suc n) =
      ucast (ucast (drop_bit (8 * k) (word_at ws a)) :: u8) OR push_bit 8 (take_bit (8 * n) (drop_bit (8 * Suc k) (word_at ws a)))"
    using Suc image_byte [OF assms(1), of k ws] Suc.IH [of "Suc k"] unfolding load.simps s by simp
  also have "\<dots> = take_bit (8 * Suc n) (drop_bit (8 * k) (word_at ws a))"
  proof (rule bit_word_eqI)
    fix i assume "i < LENGTH(64)"
    then have i: "i < 64" by simp
    show "bit (ucast (ucast (drop_bit (8 * k) (word_at ws a)) :: u8) OR push_bit 8 (take_bit (8 * n) (drop_bit (8 * Suc k) (word_at ws a)))) i =
        bit (take_bit (8 * Suc n) (drop_bit (8 * k) (word_at ws a))) i"
      using i by (cases "i < 8") (auto simp: bit_simps)
  qed
  finally show ?case .
qed

lemma load8_image: "a AND 7 = 0 \<Longrightarrow> load (image ws) a 8 = word_at ws a"
  using load_image [of a 0 8 ws] by (simp add: take_bit_word_eq_self)

lemma load32_image:
  "a AND 7 = 0 \<Longrightarrow> load32 (image ws) a = ucast (word_at ws a)"
  "a AND 7 = 4 \<Longrightarrow> load32 (image ws) a = ucast (drop_bit 32 (word_at ws (a - 4)))"
proof -
  show "a AND 7 = 0 \<Longrightarrow> load32 (image ws) a = ucast (word_at ws a)"
    using load_image [of a 0 4 ws] by (simp add: load32_def) (rule bit_eqI, auto simp: bit_simps)
  assume a: "a AND 7 = 4"
  have "(a - 4) AND 7 = 0"
  proof -
    have "a = a AND (7 OR NOT 7)" by (simp only: bit.disj_cancel_right bit.conj_one_right)
    then have "a = (a AND 7) OR (a AND NOT 7)" by (simp only: bit.conj_disj_distrib)
    moreover have z: "(a AND NOT 7) AND 7 = 0"
    proof -
      have "(a AND NOT 7) AND 7 = a AND (7 AND NOT 7)" by (simp only: and.assoc and.commute and.left_commute)
      then show ?thesis by (simp only: bit.conj_cancel_right) simp
    qed
    moreover have "(a AND 7) AND (a AND NOT 7) = 0"
    proof -
      have "(a AND 7) AND (a AND NOT 7) = a AND ((a AND NOT 7) AND 7)" by (simp only: and.assoc and.commute and.left_commute)
      then show ?thesis by (simp only: z) simp
    qed
    ultimately have "a = (a AND 7) + (a AND NOT 7)" by (simp only: disjunctive_add_eq_or)
    then have "a - 4 = a AND NOT 7" unfolding a by (metis add_diff_cancel_left')
    then show ?thesis using z by simp
  qed
  then show "load32 (image ws) a = ucast (drop_bit 32 (word_at ws (a - 4)))"
    using load_image [of "a - 4" 4 4 ws] by (simp add: load32_def) (rule bit_eqI, auto simp: bit_simps)
qed

end
