(* ===== verification/Trampoline_Example.thy ===== *)
theory Trampoline_Example
  imports Hooks_Correct Stale_Guard Trampoline_Codec Mem_Image
begin

text \<open>
  A small image with a text and a data segment, a table of function starts, and two symbols, on which
  the properties of the trampolines are used.
\<close>

section \<open>The image\<close>

definition words0 :: "(u64 \<times> u64) list" where
  "words0 = [
    (0x110000, 0x0100000CFEEDFACF), (0x110008, 0x0000000200000000), (0x110010, 0x0000010800000004),
    (0x110020, 0x0000009800000019), (0x110028, 0x0000545845545F5F), (0x110038, 0x10000), (0x110040, 0x1000),
    (0x110048, 0), (0x110050, 0x1000), (0x110058, 0x0000000500000005), (0x110060, 1),
    (0x110088, 0x10200), (0x110090, 0x10), (0x1100A8, 0x80000400),
    (0x1100B8, 0x0000001000000026), (0x1100C0, 0x0000000400000300),
    (0x1100C8, 0x0000001800000002), (0x1100D0, 0x0000000200000400), (0x1100D8, 0x0000000800000500),
    (0x1100E0, 0x0000004800000019), (0x1100E8, 0x0000415441445F5F), (0x1100F8, 0x11000), (0x110100, 0x1000),
    (0x110108, 0x1000), (0x110110, 0x1000), (0x110118, 0x0000000300000003), (0x110120, 0),
    (0x110200, 0xD65F03C0D503201F), (0x110208, 0xD65F03C0D503201F), (0x110300, 0x00080480),
    (0x110400, 0x0000010F00000001), (0x110408, 0x10208), (0x110410, 0x0000020F00000001), (0x110418, 0x11010),
    (0x110500, 0x00006F6F665F00)]"

definition m0 :: mem where "m0 = image words0"

definition mh0 :: u64 where "mh0 = 0x110000"
definition slide0 :: u64 where "slide0 = 0x100000"

lemmas ex_defs = m0_def mh0_def slide0_def

definition tenv0 :: tramp_env where
  "tenv0 = \<lparr>te_mprotect = (\<lambda>_ _ _. True), te_page_size = 4096, te_dlopen = (\<lambda>_. 7),
     te_dlsym = (\<lambda>_ s. if s = ''f'' \<or> s = ''foo'' then 0x7000 else 0), te_abort = 0x6000,
     te_file = (\<lambda>p. if p = ''hooks'' then Some (''10200 lib f 1f2003d5'' @ [CHR 0x0A], False) else None)\<rparr>"

definition st0 :: tramp where
  "st0 = \<lparr>t_mem = m0, island_pool = 0x120000, island_pool_size = 0x1000, island_pool_used = 0,
     stub_island_addr = 0, abort_caller_addr = 0, text_patch_base = 0, text_patch_size = 0,
     guarded_pages = [], t_prots = [], t_handles = []\<rparr>"

lemma load32_m0: "a AND 7 = 0 \<Longrightarrow> load32 m0 a = ucast (word_at words0 a)"
  "a AND 7 = 4 \<Longrightarrow> load32 m0 a = ucast (drop_bit 32 (word_at words0 (a - 4)))"
  by (simp_all add: m0_def load32_image)

lemma load8_m0: "a AND 7 = 0 \<Longrightarrow> load m0 a 8 = word_at words0 a"
  by (simp add: m0_def load8_image)

lemma four: "(4 :: nat) = Suc (Suc (Suc (Suc 0)))" by simp

lemma commands0: "load_commands m0 mh0 = [0x110020, 0x1100B8, 0x1100C8, 0x1100E0]"
proof -
  have "mh_ncmds (read_header m0 mh0) = 4" by (simp add: read_header_def mh0_def load32_m0 word_at_def words0_def)
  then have "load_commands m0 mh0 = command_addrs m0 4 0x110020" by (simp add: load_commands_def mh0_def)
  also have "\<dots> = [0x110020, 0x1100B8, 0x1100C8, 0x1100E0]"
    unfolding four by (simp add: read_command_def load32_m0 word_at_def words0_def)
  finally show ?thesis .
qed

lemma command_kinds0:
  "commands_of m0 mh0 LC_SEGMENT_64 = [0x110020, 0x1100E0]"
  "commands_of m0 mh0 LC_FUNCTION_STARTS_LOCAL = [0x1100B8]"
  "commands_of m0 mh0 LC_SYMTAB = [0x1100C8]"
  by (simp_all add: commands_of_def commands0 read_command_def load32_m0 word_at_def words0_def
      LC_SEGMENT_64_def LC_SYMTAB_def LC_FUNCTION_STARTS_LOCAL_def)

definition seg_text0 :: segment_command_64 where
  "seg_text0 = \<lparr>seg_segname = 0x110028, seg_vmaddr = 0x10000, seg_vmsize = 0x1000, seg_fileoff = 0,
     seg_filesize = 0x1000, seg_maxprot = 5, seg_initprot = 5, seg_nsects = 1, seg_flags = 0, seg_sections = 0x110068\<rparr>"

definition seg_data0 :: segment_command_64 where
  "seg_data0 = \<lparr>seg_segname = 0x1100E8, seg_vmaddr = 0x11000, seg_vmsize = 0x1000, seg_fileoff = 0x1000,
     seg_filesize = 0x1000, seg_maxprot = 3, seg_initprot = 3, seg_nsects = 0, seg_flags = 0, seg_sections = 0x110128\<rparr>"

lemma segments0: "segments m0 mh0 = [seg_text0, seg_data0]"
  by (simp add: segments_def command_kinds0 read_segment_def seg_text0_def seg_data0_def load8_m0 load32_m0 word_at_def words0_def)

lemma names0: "mem_str m0 0x110028 = ''__TEXT''" "mem_str m0 0x1100E8 = ''__DATA''" "mem_str m0 0x110501 = ''_foo''"
  "cstr_at m0 16 0x110028 = ''__TEXT''" "cstr_at m0 16 0x1100E8 = ''__DATA''"
  by (simp_all add: mem_str_def m0_def image_def word_at_def words0_def char_of_def bit_0)

section \<open>The pool and the text\<close>

lemma pool_ok0: "pool_ok st0"
  by (simp add: pool_ok_def st0_def)

lemma tramp_inv0: "tramp_inv tenv0 st0"
  using pool_ok0 by (simp add: tramp_inv_def st0_def)

lemma page_size0: "sys_page_size tenv0 = 0x1000"
  by (simp add: sys_page_size_def tenv0_def)

definition st0w :: tramp where
  "st0w = st0\<lparr>text_patch_base := 0x110000, text_patch_size := 0x1000, t_prots := [(0x110000, 0x1000, PROT_RWX)]\<rparr>"

lemma writable0: "make_text_writable tenv0 mh0 slide0 st0 = (True, st0w)"
proof -
  have m: "t_mem st0 = m0" by (simp add: st0_def)
  have "mprotect tenv0 a n p st = (True, st\<lparr>t_prots := (a, n, p) # t_prots st\<rparr>)" for a n p st
    by (simp add: mprotect_def tenv0_def)
  then show ?thesis
    by (simp add: make_text_writable_def m segments0 seg_text0_def names0 page_size0 slide0_def Let_def
        init_island_pool_def st0w_def) (simp add: st0_def)
qed

lemma disj_below:
  assumes "unat f < 0x111000" "0x10000 \<le> unat f"
  shows "disj f 4 (0x120000 :: u64) 0x1000"
proof -
  have "unat (0x120000 - f) = 0x120000 - unat f" using assms by (subst unat_sub) (simp_all add: word_le_nat_alt)
  moreover have "unat (f - 0x120000) + unat (0x120000 - f) = 2 ^ 64" using assms by (intro unat_diff_sum) auto
  ultimately show ?thesis using assms by (simp add: disj_def) linarith
qed

lemma image_apart0: "image_apart tenv0 mh0 slide0 st0"
  unfolding image_apart_def writable0 snd_conv text_apart_def
proof (intro allI impI)
  fix f assume "in_text st0w f"
  then have "unat f < 0x111000" "0x10000 \<le> unat f"
    by (simp_all add: in_text_def st0w_def word_less_nat_alt word_le_nat_alt)
  then show "disj f 4 (island_pool st0w) (unat (island_pool_size st0w))"
    using disj_below by (simp add: st0w_def st0_def)
qed

lemma sections0: "read_sections m0 seg_text0 = [\<lparr>sec_addr = 0x10200, sec_size = 0x10, sec_flags = 0x80000400\<rparr>]"
  "read_sections m0 seg_data0 = []"
  by (simp_all add: read_sections_def read_section_def seg_text0_def seg_data0_def load8_m0 load32_m0 word_at_def words0_def)

lemma sections_apart0: "sections_apart (t_mem st0) mh0 slide0 st0"
  by (simp add: sections_apart_def st0_def segments0 sections0 slide0_def disj_def)

section \<open>Symbol passes\<close>

definition ctx0 :: patch_ctx where
  "ctx0 = \<lparr>pc_slide = slide0, pc_nlist = 0x110400, pc_strtab = 0x110500, pc_strsize = 8\<rparr>"

lemma nlist0: "read_nlist m0 0x110400 = \<lparr>n_strx = 1, n_type = 0x0F, n_sect = 1, n_desc = 0, n_value = 0x10208\<rparr>"
  "read_nlist m0 0x110410 = \<lparr>n_strx = 1, n_type = 0x0F, n_sect = 2, n_desc = 0, n_value = 0x11010\<rparr>"
proof -
  have "load m0 0x110406 2 = 0" "load m0 0x110416 2 = 0"
    using load_image [of "0x110400" 6 2 words0] load_image [of "0x110410" 6 2 words0]
    by (simp_all add: m0_def word_at_def words0_def)
  then show "read_nlist m0 0x110400 = \<lparr>n_strx = 1, n_type = 0x0F, n_sect = 1, n_desc = 0, n_value = 0x10208\<rparr>"
    "read_nlist m0 0x110410 = \<lparr>n_strx = 1, n_type = 0x0F, n_sect = 2, n_desc = 0, n_value = 0x11010\<rparr>"
    by (simp_all add: read_nlist_def load8_m0 load32_m0 word_at_def words0_def) (simp_all add: m0_def image_def word_at_def words0_def)
qed

lemma lib_symbol0: "lib_symbol ctx0 [''_f''] 0 st0w" "symbol_func ctx0 0 st0w = 0x110208"
  "symbol_name_addr ctx0 0 st0w = 0x110501" "symbol_name ctx0 0 st0w = ''_foo''"
  by (simp_all add: lib_symbol_def symbol_func_def symbol_name_addr_def symbol_name_def st0w_def st0_def ctx0_def nlist0 names0
      N_TYPE_def N_SECT_def N_EXT_def N_STAB_def matches_prefix_def starts_with_def in_text_def slide0_def word_le_nat_alt)

theorem write_trampoline_redirects_witness:
  "redirects (t_mem (snd (write_trampoline 0x110208 0x7000 st0))) 0x110208 0x7000"
proof -
  have "fst (write_trampoline 0x110208 0x7000 st0)"
    by (simp add: write_trampoline_def alloc_island_def pool_full_def pool_next_def st0_def ISLAND_SIZE_def
        branch_too_far_def Let_def)
  then have "write_trampoline 0x110208 0x7000 st0 = (True, snd (write_trampoline 0x110208 0x7000 st0))"
    by (metis prod.collapse)
  moreover have "disj 0x110208 4 (island_pool st0) (unat (island_pool_size st0))" by (simp add: st0_def disj_def)
  ultimately show ?thesis using write_trampoline_redirects [OF pool_ok0] by blast
qed

lemma tramp_inv0w: "tramp_inv tenv0 st0w" "text_apart st0w"
  using tramp_inv_writable [OF writable0] tramp_inv0 image_apart_text [OF image_apart0 writable0] by simp_all

lemma native_target0: "symbol_target tenv0 [] 7 ''_foo'' = 0x7000"
  by (simp add: symbol_target_def native_target_def lookup_name_def tenv0_def Let_def)



theorem trampoline_patch_overrides_effect_witness:
  "pass_effect tenv0 st0 (trampoline_patch_overrides tenv0 mh0 slide0 7 True st0)"
  by (rule trampoline_patch_overrides_effect [OF tramp_inv0 image_apart0])

section \<open>Address hooks\<close>

lemma hooks0: "load_address_hooks tenv0 ''hooks'' = Some [zero_hook\<lparr>h_vmaddr := 0x10200, h_lib_path := ''lib'', h_symbol := ''f'',
    h_expected := [0x1f, 0x20, 0x03, 0xd5]\<rparr>]"
  by (simp add: load_address_hooks_def tenv0_def getline_lines_def parse_address_hook_line_def strtoull16_def isspace_def
      is_hex_digit_def code_def hex_number_def hex_value_def ULLONG_MAX_def parse_expected_bytes_def hex_nibble_def tolower_def
      at0_def Let_def)

lemma text_named0: "text_named m0 seg_text0" "\<not> text_named m0 seg_data0"
  using names0 unfolding text_named_def seg_text0_def seg_data0_def segment_command_64.simps by simp_all

lemma linkedit0: "read_linkedit m0 0x1100B8 = \<lparr>le_dataoff = 0x300, le_datasize = 4\<rparr>"
  by (simp add: read_linkedit_def load32_m0 word_at_def words0_def)

lemma starts0: "decode_function_starts m0 mh0 slide0 = Some [0x10200, 0x10208]"
proof -
  have b: "mem_bytes m0 0x110300 4 = [0x80, 0x04, 0x08, 0x00]"
    unfolding four by (simp add: mem_bytes_def) (simp add: m0_def image_def word_at_def words0_def)
  have "decode_starts [0x80, 0x04, 0x08, 0x00] 0x10000 = Some [0x10200, 0x10208]"
    by (subst decode_starts.simps, simp add: Let_def)+
  moreover have "file_range_to_mem m0 mh0 slide0 0x300 4 = 0x110300"
    by (simp add: file_range_to_mem_def segments0) (simp add: seg_text0_def slide0_def)
  ultimately show ?thesis
    using b by (simp add: decode_function_starts_def segments0 command_kinds0 text_named0 linkedit0)
      (simp add: seg_text0_def linkedit0 Let_def)
qed

definition hook0 :: address_hook where
  "hook0 = zero_hook\<lparr>h_vmaddr := 0x10200, h_lib_path := ''lib'', h_symbol := ''f'', h_expected := [0x1f, 0x20, 0x03, 0xd5],
     h_runtime_addr := 0x110200, h_original_insn := 0xD503201F, h_lib_handle := 7, h_target := 0x7000\<rparr>"

lemma function_end0: "executable_function_end m0 mh0 0x10200 [0x10200, 0x10208] = Some 0x10208"
proof -
  have "seg_initprot seg_text0 AND VM_PROT_EXECUTE \<noteq> 0" by (simp add: seg_text0_def VM_PROT_EXECUTE_def)
  then have "executable_section_end m0 mh0 0x10200 = 0x10210"
    by (simp add: executable_section_end_def segments0 text_named0 sections0 section_holds_def
        S_ATTR_PURE_INSTRUCTIONS_def S_ATTR_SOME_INSTRUCTIONS_def)
  then show ?thesis by (simp add: executable_function_end_def)
qed

lemma bytes0: "mem_bytes m0 0x110200 4 = [0x1f, 0x20, 0x03, 0xd5]"
  unfolding four by (simp add: mem_bytes_def) (simp add: m0_def image_def word_at_def words0_def)

lemma validate0:
  "validate_hook tenv0 mh0 slide0 [0x10200, 0x10208] [] (zero_hook\<lparr>h_vmaddr := 0x10200, h_lib_path := ''lib'', h_symbol := ''f'',
    h_expected := [0x1f, 0x20, 0x03, 0xd5]\<rparr>) st0 = (True, hook0, st0\<lparr>t_handles := [7]\<rparr>)"
proof -
  have "load32 m0 0x110200 = 0xD503201F" by (simp add: load32_m0 word_at_def words0_def)
  then show ?thesis
    using function_end0 bytes0 bytes0 [unfolded four]
    by (simp add: validate_hook_def st0_def slide0_def hook0_def zero_hook_def tenv0_def Let_def word_less_nat_alt)
qed

lemma hook_room0: "island_capacity_ok 1 st0" "island_ranges_ok [hook0] st0"
  by (simp_all add: island_capacity_ok_def island_ranges_ok_def st0_def ISLAND_SIZE_def pool_next_def branch_too_far_def
      hook0_def zero_hook_def)

lemma apply0: "fst (apply_hooks tenv0 mh0 slide0 [hook0] (st0\<lparr>t_handles := [7]\<rparr>)) = 1"
proof -
  let ?st = "st0w\<lparr>t_handles := [7]\<rparr>"
  have w: "make_text_writable tenv0 mh0 slide0 (st0\<lparr>t_handles := [7]\<rparr>) = (True, ?st)"
    by (simp add: make_text_writable_handles writable0)
  have c: "island_capacity_ok 1 (st0\<lparr>t_handles := [7]\<rparr>)" "island_ranges_ok [hook0] (st0\<lparr>t_handles := [7]\<rparr>)"
    using hook_room0 by (simp_all add: island_capacity_ok_def island_ranges_ok_def pool_next_def)
  have "fst (write_trampoline 0x110200 0x7000 ?st)"
    by (simp add: write_trampoline_def alloc_island_def pool_full_def pool_next_def st0w_def st0_def ISLAND_SIZE_def
        branch_too_far_def Let_def)
  then have "fst (write_hooks [hook0] 0 ?st) = 1"
    by (simp add: hook0_def zero_hook_def case_prod_beta Let_def)
  then show ?thesis using w c by (simp add: apply_hooks_def case_prod_beta Let_def)
qed

lemma patch0: "fst (trampoline_patch_addresses tenv0 mh0 slide0 (Some ''hooks'') st0) = 1"
proof -
  have m: "t_mem st0 = m0" by (simp add: st0_def)
  have "mh0 \<noteq> 0" "mh_magic (read_header m0 mh0) = MH_MAGIC_64"
    by (simp_all add: read_header_def mh0_def MH_MAGIC_64_def load32_m0 word_at_def words0_def)
  then show ?thesis
    using apply0 by (simp add: trampoline_patch_addresses_def m hooks0 starts0 validate0 case_prod_beta Let_def)
qed

lemma dlsym0: "te_dlsym tenv0 (te_dlopen tenv0 p) ''f'' = 0x7000"
  by (simp add: tenv0_def)

theorem patch_addresses_success_witness:
  "redirects (t_mem (snd (trampoline_patch_addresses tenv0 mh0 slide0 (Some ''hooks'') st0))) 0x110200 0x7000"
proof -
  have "0 \<le> fst (trampoline_patch_addresses tenv0 mh0 slide0 (Some ''hooks'') st0)" by (simp add: patch0)
  from patch_addresses_success [OF pool_ok0 sections_apart0 prod.collapse [symmetric] this]
  show ?thesis by (auto simp: hooks0 slide0_def dlsym0)
qed

theorem patch_addresses_failure_witness:
  "fst (trampoline_patch_addresses tenv0 mh0 slide0 (Some ''nothing'') st0) = - 1 \<and>
   t_mem (snd (trampoline_patch_addresses tenv0 mh0 slide0 (Some ''nothing'') st0)) = m0"
proof -
  have "load_address_hooks tenv0 ''nothing'' = None" by (simp add: load_address_hooks_def tenv0_def)
  then have "fst (trampoline_patch_addresses tenv0 mh0 slide0 (Some ''nothing'') st0) < 0"
    by (simp add: trampoline_patch_addresses_def)
  from patch_addresses_failure [OF pool_ok0 sections_apart0 prod.collapse [symmetric] this]
  show ?thesis by (simp add: st0_def)
qed

section \<open>Data guard and encodings\<close>

lemma scope0: "guard_scope m0 mh0 slide0 = Some (ctx0, 0x111000, 0x112000, 2)"
proof -
  have "mem_str m0 (seg_segname seg_text0) = ''__TEXT''" "mem_str m0 (seg_segname seg_data0) = ''__DATA''"
    using names0 by (simp_all only: seg_text0_def seg_data0_def segment_command_64.simps)
  then show ?thesis
    by (simp add: guard_scope_def segments0 command_kinds0 read_symtab_def load32_m0 word_at_def words0_def fileoff_to_mem_def
        Let_def) (simp add: seg_text0_def seg_data0_def ctx0_def slide0_def)
qed

theorem guard_stale_data_faults_witness:
  "trampoline_is_guarded_fault (trampoline_guard_stale_data tenv0 mh0 slide0 [''_f''] st0) 0x111020"
proof -
  have d: "data_symbol m0 ctx0 0x111000 0x112000 1" "library_symbol m0 ctx0 [''_f''] 1" "page_of m0 ctx0 0x111000 0x1000 1 = 0"
    "\<not> data_symbol m0 ctx0 0x111000 0x112000 0"
    by (simp_all add: data_symbol_def library_symbol_def page_of_def data_addr_def ctx0_def nlist0 slide0_def names0
        matches_prefix_def starts_with_def N_TYPE_def N_SECT_def N_STAB_def word_le_nat_alt Let_def)
  then have "stale_page m0 ctx0 [''_f''] 0x111000 0x112000 2 0x1000 0"
    unfolding stale_page_def less_2_cases_iff by (auto intro!: gr0I)
  then show ?thesis
    using guard_stale_data_faults [of st0 mh0 slide0 ctx0 "0x111000" "0x112000" 2 tenv0 "[''_f'']" "0x111020"] scope0
    by (simp add: page_size0 MAX_GUARDED_PAGES_def) (simp add: st0_def tenv0_def)
qed

theorem function_starts_roundtrip_witness:
  "decode_starts (encode_starts 0x10000 [0x10200, 0x10208] @ [0, 0]) 0x10000 = Some [0x10200, 0x10208]"
proof -
  have "sorted_wrt (<) [0x10000, 0x10200, 0x10208 :: u64]" by simp
  moreover have "replicate 2 (0 :: u8) = [0, 0]" by (simp add: numeral_2_eq_2)
  ultimately show ?thesis using function_starts_roundtrip [of "0x10000" "[0x10200, 0x10208]" 2] by metis
qed

theorem mangling_variants_complete_witness:
  "try_mangling_variants (\<lambda>s. if s = ''_ZN1am'' then 5 else 0) ''_ZN1ay'' \<noteq> 0"
proof -
  have "renames CHR ''y'' CHR ''m'' ''_ZN1ay'' ''_ZN1am''"
    by (simp add: renames_def nth_Cons' numeral_eq_Suc)
  moreover have "count_list ''_ZN1ay'' CHR ''y'' \<le> 16" "count_list ''_ZN1ay'' CHR ''m'' \<le> 16" by simp_all
  from mangling_variants_complete [OF this, of "\<lambda>s. if s = ''_ZN1am'' then 5 else 0"] calculation
  show ?thesis by auto
qed

end
