(* ===== verification/Resolver_Example.thy ===== *)
theory Resolver_Example
  imports Rebase_Correct Abi_Adapters Trampoline_Example
begin

text \<open>
  Uses of the resolver's properties on small images and a process whose kernel grants one mapping of up to
  a megabyte.
\<close>

section \<open>A process\<close>

definition renv0 :: res_env where
  "renv0 = \<lparr>os_page_size = 4096, os_mmap = (\<lambda>k h n. if k = 0 \<and> n \<le> 0x100000 then 0x700000 else 0), os_fixed = (\<lambda>_. True),
     os_file = (\<lambda>_. None), re_dlopen = (\<lambda>_ _. 0), re_dlsym = (\<lambda>_ _ _. 0), re_zeroing_new = 0, re_zeroing_delete = 0,
     re_luaopen_jit = 0, re_lua_close = 0, re_lua_pcall = 0, re_SDL_GL_CreateContext = 0, re_SDL_GL_SetAttribute = 0,
     re_map_file = (\<lambda>_. None), re_strict = False,
     re_behind_dylibs = (\<lambda>n. \<lparr>de_ordinal = n, de_name = [], de_action = DYLIB_SKIP, de_so_path = [], de_handle = 0,
       de_macho_info = None\<rparr>), re_junk = 0\<rparr>"

definition granted0 :: "u64 \<Rightarrow> bool" where
  "granted0 b \<longleftrightarrow> in_range b 0x700000 0x100000"

lemma env_ok0: "env_ok granted0 renv0"
  unfolding env_ok_def
proof (intro conjI allI impI)
  fix k h n b
  assume "os_mmap renv0 k h n \<noteq> 0" and b: "in_range b (os_mmap renv0 k h n) (round_up (os_page_size renv0) (unat n))"
  then have "n \<le> 0x100000" and a: "os_mmap renv0 k h n = 0x700000" by (auto simp: renv0_def split: if_splits)
  then have "unat n \<le> 0x100000" by (simp add: word_le_nat_alt)
  then have "round_up (os_page_size renv0) (unat n) \<le> round_up 4096 0x100000"
    by (simp only: renv0_def os_env.simps) (rule round_up_mono)
  also have "\<dots> = 0x100000" by (simp add: round_up_def)
  finally show "granted0 b" using b unfolding a granted0_def by (rule in_range_mono [rotated])
qed (simp_all add: renv0_def)

definition globals0 :: "mem \<Rightarrow> resolver_globals" where
  "globals0 m = \<lparr>p_mem = m, p_mmaps = 0, p_prots = [], g_macho_dylibs = [], r_opened = [], ctor_tramp_pool = 0,
     ctor_tramp_used = 0, ctor_tramp_capacity = 0, ctor_tramp_count = 0, variadic_pool = 0, variadic_pool_used = 0,
     variadic_pool_capacity = 0, variadic_thunk_count = 0, stub_pool = 0, stub_used = 0, weak_pool = 0, weak_pool_used = 0,
     weak_pool_capacity = 0, g_deferred_binds = [], g_deferred_active = False, g_deferred_resolved = False,
     g_deferred_dylibs = [], g_deferred_ndylibs = 0, g_real_SDL_GL_CreateContext = 0, g_real_SDL_GL_SetAttribute = 0,
     shim_malloc_fn = 0, shim_free_fn = 0\<rparr>"

definition run0 :: "mem \<Rightarrow> resolver_state" where
  "run0 m = (start_run mh0 slide0 (globals0 m))\<lparr>rs_segments := [zero_seg, zero_seg\<lparr>si_vmaddr := 0x30000, si_vmsize := 0x1000\<rparr>]\<rparr>"

lemma run0_simps [simp]:
  "p_mem (run0 m) = m" "rs_slide (run0 m) = slide0" "rs_mh (run0 m) = mh0" "rebases_applied (run0 m) = 0"
  "rs_segments (run0 m) = [zero_seg, zero_seg\<lparr>si_vmaddr := 0x30000, si_vmsize := 0x1000\<rparr>]"
  by (simp_all add: run0_def start_run_def globals0_def resolver_globals.defs resolver_state.defs)

lemma pools_inv0: "pools_inv F (run0 m)"
  by (simp add: pools_inv_def area_def run0_def start_run_def globals0_def resolver_globals.defs resolver_state.defs)

section \<open>Symbols\<close>

lemma bounded0: "bounded_commands m0 mh0 = [0x110020, 0x1100B8, 0x1100C8, 0x1100E0]"
proof -
  have "mh_ncmds (read_header m0 mh0) = 4" "mh_sizeofcmds (read_header m0 mh0) = 0x108"
    by (simp_all add: read_header_def mh0_def load32_m0 word_at_def words0_def)
  then have "bounded_commands m0 mh0 = walk_commands m0 0x110020 0x108 4 0" by (simp add: bounded_commands_def mh0_def)
  also have "\<dots> = [0x110020, 0x1100B8, 0x1100C8, 0x1100E0]"
    unfolding four by (simp add: read_command_def load32_m0 word_at_def words0_def)
  finally show ?thesis .
qed

lemma bounded_segments0: "bounded_segments m0 mh0 = [seg_text0, seg_data0]"
  using segments0 commands0 bounded0 by (simp add: bounded_segments_def segments_def commands_of_def)

lemma symtab0: "last_symtab m0 mh0 = Some \<lparr>st_symoff = 0x400, st_nsyms = 2, st_stroff = 0x500, st_strsize = 8\<rparr>"
  using command_kinds0(3) commands0 bounded0
  by (simp add: last_symtab_def commands_of_def) (simp add: read_symtab_def load32_m0 word_at_def words0_def)

lemma tables0: "locate_tables \<lparr>st_symoff = 0x400, st_nsyms = 2, st_stroff = 0x500, st_strsize = 8\<rparr> slide0 [seg_text0, seg_data0]
    = (0x110400, 0x110500)"
  by (simp add: locate_tables_def seg_text0_def seg_data0_def slide0_def)

lemma symbols0: "symbols_at m0 0x110400 2 =
   [\<lparr>n_strx = 1, n_type = 0x0F, n_sect = 1, n_desc = 0, n_value = 0x10208\<rparr>,
    \<lparr>n_strx = 1, n_type = 0x0F, n_sect = 2, n_desc = 0, n_value = 0x11010\<rparr>]"
  by (simp add: symbols_at_def upt_rec nlist0)

lemma extent0: "fst (resolver_symbol_extent (sort_key se_vmaddr) m0 mh0 slide0 ''_foo'' empty_cache) = Some (0x110208, 0x110210)"
proof -
  have "section_ends m0 mh0 = [0, 0x10210]" by (simp add: section_ends_def bounded_segments0 sections0)
  then show ?thesis
    by (simp add: resolver_symbol_extent_def build_extent_cache_def empty_cache_def mh0_def [symmetric] symtab0 bounded_segments0 tables0
        symbols0 section_symbol_def N_STAB_def N_TYPE_def N_SECT_def sym_entry_of_def extent_query_def names0)
      (simp add: slide0_def)
qed

theorem symbol_extent_sound_witness:
  "fst (resolver_symbol_extent (sort_key se_vmaddr) m0 mh0 slide0 ''_foo'' empty_cache) = Some (0x110208, 0x110210) \<and>
   (\<exists>e\<in>set (image_entries m0 mh0 slide0). 0x110208 = se_vmaddr e + slide0)"
  using symbol_extent_sound [OF stable_qsort.qsort_contract_axioms extent0] extent0 by blast

section \<open>Fixups\<close>

text \<open>A rebase slot with a tagged target, 16 bytes before a bind slot that ends the chain.\<close>

definition chain0 :: mem where
  "chain0 = image [(0x130000, 0x0020080000010208), (0x130010, 0x8000000000000000)]"

lemma chain0_loads: "load chain0 0x130000 8 = 0x0020080000010208" "load chain0 0x130010 8 = 0x8000000000000000"
  by (simp_all add: chain0_def load8_image word_at_def)

lemma slots_below:
  assumes "\<forall>l\<in>set ls. unat l < 0x131000" "sorted_wrt (\<lambda>a b. disj a 8 b 8) ls" "\<And>b. F b \<Longrightarrow> 0x131008 \<le> unat b"
  shows "slots_apart F ls"
proof -
  have "unat b < 0x131008" if "l \<in> set ls" "in_range b l 8" for l b
  proof -
    have "unat (b - l) < 8" "unat l < 0x131000" using that assms(1) by (auto simp: in_range_def)
    then have "unat (l + (b - l)) < 0x131008" by (simp only: unat_word_ariths) simp
    then show ?thesis by simp
  qed
  then show ?thesis using assms(2,3) by (force simp: slots_apart_def)
qed

lemma granted0_above: "granted0 b \<Longrightarrow> 0x131008 \<le> unat b"
proof -
  assume "granted0 b"
  then have "unat (b - 0x700000) < 0x100000" by (simp add: granted0_def in_range_def)
  then have "unat (0x700000 + (b - 0x700000)) = 0x700000 + unat (b - 0x700000)" by (simp only: unat_word_ariths) simp
  then show ?thesis by simp
qed

theorem walk_chain_fixes_slots_witness:
  "\<exists>st'. walk_chain renv0 0x130000 DYLD_CHAINED_PTR_64 0x140000 (run0 chain0) = Some st' \<and>
     load (p_mem st') 0x130000 8 = 0x8000000000110208 \<and> rebases_applied st' = 1"
proof -
  let ?ls = "[0x130000, 0x130010] :: u64 list"
  have "chain (p_mem (run0 chain0)) ?ls" by (simp add: chain0_loads ptr_next_def)
  moreover have "slots_apart granted0 ?ls" by (rule slots_below) (simp_all add: disj_def granted0_above)
  ultimately have "\<exists>st'. walk_chain renv0 (hd ?ls) DYLD_CHAINED_PTR_64 0x140000 (run0 chain0) = Some st' \<and>
    same_outside (\<lambda>b. granted0 b \<or> slot_bytes ?ls b) (p_mem (run0 chain0)) (p_mem st') \<and>
    (\<forall>l\<in>set ?ls. slot_fixed renv0 (DYLD_CHAINED_PTR_64 = DYLD_CHAINED_PTR_64_OFFSET) 0x140000 (\<lambda>b. granted0 b \<or> slot_bytes ?ls b)
       (run0 chain0) (load (p_mem (run0 chain0)) l 8) (load (p_mem st') l 8)) \<and>
    rebases_applied st' = rebases_applied (run0 chain0) + length (filter (\<lambda>l. \<not> ptr_bind (load (p_mem (run0 chain0)) l 8)) ?ls)"
    by (rule walk_chain_fixes_slots [OF env_ok0 pools_inv0])
  then show ?thesis
    by (auto simp: chain0_loads ptr_bind_def slot_fixed_def rebased_def word_unat_eq_iff
        slide0_def mh0_def DYLD_CHAINED_PTR_64_def DYLD_CHAINED_PTR_64_OFFSET_def)
qed

text \<open>The stream sets the type, goes to offset 8 of segment 1 and rebases two pointers.\<close>

definition rebase0 :: mem where
  "rebase0 = image [(0x130008, 0x10200), (0x130010, 0x10208), (0x140000, 0x0000000052082111)]"

theorem rebase_stream_applies_program_witness:
  "\<exists>st'. rebase_stream 0x140008 0x140000 0 0 (run0 rebase0) = (True, st') \<and>
     load (p_mem st') 0x130008 8 = 0x110200 \<and> load (p_mem st') 0x130010 8 = 0x110208 \<and> rebases_applied st' = 2"
proof -
  let ?ops = "[Rebase_Type 1, Rebase_Segment 1 8, Rebase_Imm_Times 2]"
  have st: "stream_to (p_mem (run0 rebase0)) 0x140000 0x140008 (concat (map encode_rebase ?ops) @ 0 # [0, 0, 0])"
    by (simp add: stream_to_def encode_uleb.simps) (simp add: rebase0_def image_def word_at_def)
  have pl: "place_addrs (run0 rebase0) (rebase_places ?ops 0 0) = [0x130008, 0x130010]"
    by (simp add: place_addrs_def place_addr_def run_of_def upt_rec slide0_def)
  have ap: "slots_apart (\<lambda>b. 0x140000 \<le> b \<and> b < 0x140008) (place_addrs (run0 rebase0) (rebase_places ?ops 0 0))"
    unfolding pl by (rule slots_below) (auto simp: disj_def word_le_nat_alt)
  have ld: "load rebase0 0x130008 8 = 0x10200" "load rebase0 0x130010 8 = 0x10208"
    by (simp_all add: rebase0_def load8_image word_at_def)
  show ?thesis
    using rebase_stream_applies_program [OF _ st ap] unfolding pl by (auto simp: ld slide0_def)
qed

theorem uleb_decoders_agree_witness:
  "read_uleb128 m0 0x110304 0x110300 0 0 = (0x200, 0x110302)"
proof -
  have "decode_uleb [0x80, 0x04, 0x08, 0x00] 0 0 = Some (0x200, [0x08, 0x00])" by (simp add: Let_def)
  moreover have "stream_to m0 0x110300 0x110304 [0x80, 0x04, 0x08, 0x00]"
    by (simp add: stream_to_def) (simp add: m0_def image_def word_at_def words0_def)
  ultimately show ?thesis using uleb_decoders_agree by fastforce
qed

section \<open>Adapters\<close>

definition machine0 :: "mem \<Rightarrow> cpu" where
  "machine0 m = \<lparr>pc = 0x700000, gx = (\<lambda>r. of_nat r + 5), gsp = 0x680000, gmem = m\<rparr>"

lemma machine0_simps [simp]:
  "pc (machine0 m) = 0x700000" "gsp (machine0 m) = 0x680000" "gmem (machine0 m) = m" "gx (machine0 m) r = of_nat r + 5"
  by (simp_all add: machine0_def)

lemma agree_refl [simp]: "agree a n m m"
  by (simp add: agree_def)

theorem ctor_adapter_returns_this_witness:
  "\<exists>s1. cpu_run 3 (machine0 (p_mem (snd (wrap_ctor_for_apple_abi renv0 0x7000 (globals0 m0))))) = Some s1 \<and> pc s1 = 0x7000 \<and>
     (\<exists>s3. cpu_run 2 (s1\<lparr>pc := 0x70000C, gx := (gx s1)(0 := 9)\<rparr>) = Some s3 \<and> pc s3 = 35 \<and> gx s3 0 = 5 \<and> gsp s3 = 0x680000)"
proof -
  let ?st = "snd (wrap_ctor_for_apple_abi renv0 0x7000 (globals0 m0))"
  have w: "wrap_ctor_for_apple_abi renv0 0x7000 (globals0 m0) = (0x700000, ?st)"
    by (simp add: wrap_ctor_for_apple_abi_def map_ctor_pool_def mmap_any_def renv0_def globals0_def Let_def word_le_nat_alt word_less_nat_alt)
  have d: "disj (gsp (machine0 (p_mem ?st)) - 16) 16 0x700000 32" by (simp add: disj_def)
  have p: "0x700000 \<noteq> (0x7000 :: u64)" "agree 0x700000 32 (p_mem ?st) (gmem (machine0 (p_mem ?st)))" "pc (machine0 (p_mem ?st)) = 0x700000"
    by simp_all
  obtain s1 where s1: "cpu_run 3 (machine0 (p_mem ?st)) = Some s1" "pc s1 = 0x7000" "gx s1 30 = 0x700000 + 12"
    and ret: "\<forall>s2. call_returned 0x700000 32 16 s1 s2 \<longrightarrow>
      (\<exists>s3. cpu_run 2 s2 = Some s3 \<and> pc s3 = gx (machine0 (p_mem ?st)) 30 \<and> gx s3 0 = gx (machine0 (p_mem ?st)) 0 \<and>
        gx s3 30 = gx (machine0 (p_mem ?st)) 30 \<and> gsp s3 = gsp (machine0 (p_mem ?st)) \<and>
        (\<forall>r. r \<noteq> 0 \<and> r \<noteq> 30 \<longrightarrow> gx s3 r = gx s2 r) \<and> gmem s3 = gmem s2)"
    using ctor_adapter_returns_this [OF w p d] by (elim exE conjE) (rule that, assumption+)
  have "call_returned 0x700000 32 16 s1 (s1\<lparr>pc := 0x70000C, gx := (gx s1)(0 := 9)\<rparr>)"
    using s1(3) by (simp add: call_returned_def)
  from ret [rule_format, OF this] s1 show ?thesis by auto
qed

theorem variadic_thunk_passes_arguments_witness:
  "\<exists>s1. cpu_run 10 (machine0 (p_mem (snd (create_variadic_thunk renv0 0x7000 (hd variadic_functions) (globals0 m0))))) = Some s1 \<and>
     pc s1 = 0x7000 \<and> gx s1 0 = 5 \<and> load (gmem s1) (gx s1 1) 8 = 0x680000"
proof -
  let ?vi = "hd variadic_functions"
  let ?st = "snd (create_variadic_thunk renv0 0x7000 ?vi (globals0 m0))"
  have w: "create_variadic_thunk renv0 0x7000 ?vi (globals0 m0) = (0x700000, ?st)"
    by (simp add: create_variadic_thunk_def map_variadic_pool_def mmap_any_def renv0_def globals0_def Let_def word_le_nat_alt word_less_nat_alt)
  have v: "?vi \<in> set variadic_functions" "vi_dest_reg ?vi = 1" "\<not> vi_is_va_list ?vi" by (simp_all add: variadic_functions_def)
  have d: "disj (gsp (machine0 (p_mem ?st)) - 48) 48 0x700000 56" by (simp add: disj_def)
  show ?thesis
    using variadic_thunk_passes_arguments [OF w _ v(1) _ _ d] v(2,3) by (auto simp: Let_def variadic_args_def)
qed

theorem return0_stub_returns_zero_witness:
  "cpu_run 2 (machine0 (p_mem (snd (alloc_return0_stub renv0 (globals0 m0)))))
   = Some ((machine0 (p_mem (snd (alloc_return0_stub renv0 (globals0 m0)))))\<lparr>pc := 35, gx := (\<lambda>r. of_nat r + 5)(0 := 0)\<rparr>)"
proof -
  let ?st = "snd (alloc_return0_stub renv0 (globals0 m0))"
  have w: "alloc_return0_stub renv0 (globals0 m0) = (0x700000, ?st)"
    by (simp add: alloc_return0_stub_def map_stub_pool_def mmap_any_def renv0_def globals0_def stub_cap_def Let_def word_le_nat_alt word_less_nat_alt)
  show ?thesis
    using return0_stub_returns_zero [OF w, of "machine0 (p_mem ?st)"] by (simp add: machine0_def)
qed

end
