(* ===== verification/Dylib_Correct.thy ===== *)
theory Dylib_Correct
  imports Dylib_Loader
begin

text \<open>
  A loaded dylib is where its load commands say: every segment holds the bytes of the file and zeros behind them, all
  of it inside the memory the kernel reserved, with the island pool behind the segments.
\<close>

section \<open>One segment\<close>

definition map_segment :: "nat \<Rightarrow> u8 list \<Rightarrow> u64 \<Rightarrow> u64 \<Rightarrow> segment_command_64 \<Rightarrow> mem \<Rightarrow> mem" where
  "map_segment ps bytes fat slide seg m =
    (let a = seg_vmaddr seg + slide;
         m = (if seg_vmsize seg > 0 then map_anon ps a (unat (seg_vmsize seg)) m else m)
     in if seg_filesize seg > 0 then map_file ps bytes a (unat (seg_filesize seg)) (unat (seg_fileoff seg + fat)) m else m)"

text \<open>The pages of a segment, and what byte \<open>k\<close> of it holds.\<close>

definition seg_covers :: "nat \<Rightarrow> u64 \<Rightarrow> segment_command_64 \<Rightarrow> u64 \<Rightarrow> bool" where
  "seg_covers ps slide seg b \<longleftrightarrow>
     in_range b (seg_vmaddr seg + slide) (max (round_up ps (unat (seg_filesize seg))) (round_up ps (unat (seg_vmsize seg))))"

definition segment_byte :: "nat \<Rightarrow> u8 list \<Rightarrow> u64 \<Rightarrow> segment_command_64 \<Rightarrow> nat \<Rightarrow> u8" where
  "segment_byte ps bytes fat seg k =
    (if k < round_up ps (unat (seg_filesize seg)) then byte_at bytes (unat (seg_fileoff seg + fat) + k) else 0)"

lemma round_up_0 [simp]: "0 < ps \<Longrightarrow> round_up ps 0 = 0"
  by (simp add: round_up_def)

lemma map_segment_byte:
  assumes "0 < ps"
  shows "map_segment ps bytes fat slide seg m b =
    (if seg_covers ps slide seg b then segment_byte ps bytes fat seg (unat (b - (seg_vmaddr seg + slide))) else m b)"
proof -
  have z: "seg_filesize seg = 0 \<Longrightarrow> round_up ps (unat (seg_filesize seg)) = 0"
    "seg_vmsize seg = 0 \<Longrightarrow> round_up ps (unat (seg_vmsize seg)) = 0" using assms by simp_all
  show ?thesis
    by (cases "seg_filesize seg = 0"; cases "seg_vmsize seg = 0")
      (simp_all add: map_segment_def seg_covers_def segment_byte_def map_anon_def map_file_def in_range_def Let_def word_neq_0_conv
        less_max_iff_disj z assms)
qed

text \<open>A byte of a segment survives the segments after it that do not cover it.\<close>

lemma fold_untouched:
  assumes "0 < ps" "\<forall>s\<in>set segs. \<not> seg_covers ps slide s b"
  shows "fold (map_segment ps bytes fat slide) segs m b = m b"
  using assms by (induction segs arbitrary: m) (auto simp: map_segment_byte)

lemma fold_segment_byte:
  assumes "0 < ps" "seg_covers ps slide seg b" "\<forall>s\<in>set post. \<not> seg_covers ps slide s b"
  shows "fold (map_segment ps bytes fat slide) (pre @ seg # post) m b = segment_byte ps bytes fat seg (unat (b - (seg_vmaddr seg + slide)))"
  using assms by (simp add: fold_untouched map_segment_byte)

section \<open>All segments\<close>

lemma mmap_fixed_anon_cases:
  assumes "mmap_fixed_anon env a n prot st = (ok, st')"
  shows "ok \<longrightarrow> page_aligned (os_page_size env) (unat a) \<and> p_mem st' = map_anon (os_page_size env) a (unat n) (p_mem st)"
    "g_macho_dylibs st' = g_macho_dylibs st"
  using assms by (auto simp: mmap_fixed_anon_def Let_def split: if_splits)

lemma mmap_fixed_file_cases:
  assumes "mmap_fixed_file env bytes a n prot off st = (ok, st')"
  shows "ok \<longrightarrow> page_aligned (os_page_size env) (unat a) \<and> p_mem st' = map_file (os_page_size env) bytes a (unat n) (unat off) (p_mem st)"
    "g_macho_dylibs st' = g_macho_dylibs st"
  using assms by (auto simp: mmap_fixed_file_def Let_def split: if_splits)

lemma map_dylib_segments_effect:
  fixes st :: "'a dylib_process_scheme"
  assumes "map_dylib_segments env bytes fm fat slide segs acc st = (Some acc', st')"
  shows "p_mem st' = fold (map_segment (os_page_size env) bytes fat slide) segs (p_mem st) \<and>
    g_macho_dylibs st' = g_macho_dylibs st \<and>
    (\<forall>seg\<in>set segs. 0 < seg_vmsize seg \<longrightarrow> page_aligned (os_page_size env) (unat (seg_vmaddr seg + slide)))"
  using assms
proof (induction segs arbitrary: acc st)
  case Nil
  then show ?case by simp
next
  case (Cons seg segs)
  let ?ps = "os_page_size env" and ?a = "seg_vmaddr seg + slide"
  obtain header text_base text_size where acc: "acc = (header, text_base, text_size)" by (cases acc)
  obtain ok st1 where 1: "(if seg_vmsize seg > 0 then mmap_fixed_anon env ?a (seg_vmsize seg) (use_prot seg) st else (True, st)) = (ok, st1)"
    by fastforce
  obtain ok' st2 where 2: "(if seg_filesize seg > 0 then mmap_fixed_file env bytes ?a (seg_filesize seg) (use_prot seg) (seg_fileoff seg + fat) st1
      else (True, st1)) = (ok', st2)" by fastforce
  have ok: ok ok' using Cons.prems 1 2 by (auto simp: acc Let_def split: if_splits)
  then obtain acc1 where rest: "map_dylib_segments env bytes fm fat slide segs acc1 st2 = (Some acc', st')"
    using Cons.prems 1 2 by (auto simp: acc Let_def split: if_splits)
  have "p_mem st1 = (if seg_vmsize seg > 0 then map_anon ?ps ?a (unat (seg_vmsize seg)) (p_mem st) else p_mem st)"
    "g_macho_dylibs st1 = g_macho_dylibs st" "0 < seg_vmsize seg \<longrightarrow> page_aligned ?ps (unat ?a)"
    using 1 ok mmap_fixed_anon_cases [of env ?a "seg_vmsize seg" "use_prot seg" st ok st1] by (auto split: if_splits)
  moreover have "p_mem st2 = (if seg_filesize seg > 0 then map_file ?ps bytes ?a (unat (seg_filesize seg)) (unat (seg_fileoff seg + fat)) (p_mem st1)
      else p_mem st1)" "g_macho_dylibs st2 = g_macho_dylibs st1"
    using 2 ok mmap_fixed_file_cases [of env bytes ?a "seg_filesize seg" "use_prot seg" "seg_fileoff seg + fat" st1 ok' st2]
    by (auto split: if_splits)
  ultimately have "p_mem st2 = map_segment ?ps bytes fat slide seg (p_mem st)" "g_macho_dylibs st2 = g_macho_dylibs st"
    "0 < seg_vmsize seg \<longrightarrow> page_aligned ?ps (unat ?a)" by (simp_all add: map_segment_def Let_def)
  with Cons.IH [OF rest] show ?case by simp
qed

section \<open>The reservation\<close>

definition vm_step :: "segment_command_64 \<Rightarrow> u64 \<times> u64 \<Rightarrow> u64 \<times> u64" where
  "vm_step seg r = (if seg_vmaddr seg < fst r then seg_vmaddr seg else fst r,
     if seg_vmaddr seg + seg_vmsize seg > snd r then seg_vmaddr seg + seg_vmsize seg else snd r)"

lemma vm_range_steps: "vm_range segs = fold vm_step segs (- 1, 0)"
  unfolding vm_range_def by (rule fold_cong) (auto simp: vm_step_def fun_eq_iff)

lemma vm_range_bounds:
  assumes "vm_range segs = (low, high)" "seg \<in> set segs"
  shows "low \<le> seg_vmaddr seg" "seg_vmaddr seg + seg_vmsize seg \<le> high"
proof -
  have one: "fst (vm_step s acc) \<le> fst acc \<and> snd acc \<le> snd (vm_step s acc)" for s acc
    by (auto simp: vm_step_def split: prod.splits)
  have mono: "fst (fold vm_step segs acc) \<le> fst acc \<and> snd acc \<le> snd (fold vm_step segs acc)" for segs acc
  proof (induction segs arbitrary: acc)
    case (Cons s segs)
    show ?case using one [of s acc] Cons.IH [of "vm_step s acc"] by (auto intro: order_trans)
  qed simp
  have "fst (fold vm_step segs acc) \<le> seg_vmaddr seg \<and> seg_vmaddr seg + seg_vmsize seg \<le> snd (fold vm_step segs acc)" for acc
    using assms(2)
  proof (induction segs arbitrary: acc)
    case Nil
    then show ?case by simp
  next
    case (Cons s segs)
    show ?case
    proof (cases "s = seg")
      case True
      have "fst (vm_step seg acc) \<le> seg_vmaddr seg" "seg_vmaddr seg + seg_vmsize seg \<le> snd (vm_step seg acc)"
        by (auto simp: vm_step_def split: prod.splits)
      then show ?thesis using mono [of segs "vm_step seg acc"] True by (auto intro: order_trans)
    next
      case False
      then show ?thesis using Cons by simp
    qed
  qed
  moreover note vm_range_steps [of segs]
  ultimately show "low \<le> seg_vmaddr seg" "seg_vmaddr seg + seg_vmsize seg \<le> high" using assms(1) by (metis fst_conv snd_conv)+
qed

lemma PAGE_ROUNDUP_eq:
  assumes "unat x \<le> 2 ^ 63"
  shows "unat (PAGE_ROUNDUP x) = round_up 4096 (unat x)"
proof (cases "x = 0")
  case True
  have "PAGE_ROUNDUP 0 = 0" by (simp add: PAGE_ROUNDUP_def)
  with True show ?thesis by simp
next
  case False
  then have u: "unat (x - 1) = unat x - 1" "0 < unat x" by (simp_all add: unat_minus_one unat_gt_0)
  define q where "q = (unat x - 1) div 4096"
  have q: "q < 2 ^ 52" using assms u(2) by (simp add: q_def less_mult_imp_div_less)
  have "unat ((x - 1) div 4096) = q" by (simp add: unat_div u q_def)
  then have "unat ((x - 1) div 4096 + 1) = q + 1" using q by (simp add: unat_word_ariths)
  then have "unat (PAGE_ROUNDUP x) = (q + 1) * 4096 mod 2 ^ 64" unfolding PAGE_ROUNDUP_def by (simp only: unat_word_ariths) simp
  also have "\<dots> = (q + 1) * 4096"
  proof -
    have "unat x - 1 < 2 ^ 63" using assms u(2) by simp
    then have "q < 2 ^ 51" by (simp add: q_def less_mult_imp_div_less)
    then show ?thesis by simp
  qed
  also have "q + 1 = (unat x + 4096 - 1) div 4096" using u(2) by (simp add: q_def)
  finally show ?thesis by (simp add: round_up_def)
qed

lemma round_up_add:
  assumes "0 < ps" "ps dvd d"
  shows "round_up ps (d + n) = d + round_up ps n"
proof -
  obtain k where d: "d = k * ps" using assms(2) by (metis dvd_def mult.commute)
  have e: "d + n + ps - 1 = n + ps - 1 + k * ps" using assms(1) d by simp
  have "(n + ps - 1 + k * ps) div ps = k + (n + ps - 1) div ps" using assms(1) by (intro div_mult_self1) simp
  then show ?thesis unfolding round_up_def e by (simp add: d add_mult_distrib)
qed

lemma round_up_less: "0 < ps \<Longrightarrow> round_up ps n < n + ps"
proof -
  assume "0 < ps"
  then have "(n + ps - 1) div ps * ps \<le> n + ps - 1" by simp
  with \<open>0 < ps\<close> show ?thesis unfolding round_up_def by linarith
qed

lemma unat_align_down:
  fixes w :: u64
  assumes "k < 64"
  shows "unat (w AND NOT (2 ^ k - 1)) = unat w div 2 ^ k * 2 ^ k"
proof -
  have "w AND NOT (2 ^ k - 1) = push_bit k (drop_bit k w)"
    by (rule bit_eqI) (auto simp: bit_simps mask_eq_exp_minus_1 [symmetric])
  moreover have "unat (push_bit k (drop_bit k w)) = push_bit k (drop_bit k (unat w))"
    by (rule bit_eqI) (auto simp: bit_simps dest: bit_imp_le_length)
  ultimately show ?thesis by (simp add: push_bit_eq_mult drop_bit_eq_div)
qed

lemma align_up_page:
  assumes "unat x \<le> 2 ^ 63"
  shows "unat ((x + 4095) AND NOT 4095 :: u64) = round_up 4096 (unat x)"
proof -
  have "unat (x + 4095) = unat x + 4095" using assms by (simp add: unat_word_ariths)
  then show ?thesis using unat_align_down [of 12 "x + 4095"] by (simp add: round_up_def)
qed

definition well_placed :: "segment_command_64 list \<Rightarrow> bool" where
  "well_placed segs \<longleftrightarrow>
    (\<forall>seg\<in>set segs. seg_filesize seg \<le> seg_vmsize seg \<and> unat (seg_vmaddr seg) + unat (seg_vmsize seg) < 2 ^ 62)"

lemma vm_range_high: "well_placed segs \<Longrightarrow> vm_range segs = (low, high) \<Longrightarrow> unat high < 2 ^ 62"
proof -
  assume w: "well_placed segs" and r: "vm_range segs = (low, high)"
  have "unat (snd (fold vm_step segs acc)) < 2 ^ 62" if "unat (snd acc) < 2 ^ 62" for acc
    using w that
  proof (induction segs arbitrary: acc)
    case Nil
    then show ?case by simp
  next
    case (Cons s segs)
    have "unat (seg_vmaddr s + seg_vmsize s) < 2 ^ 62"
      using Cons.prems(1) by (simp add: well_placed_def unat_word_ariths)
    then have "unat (snd (vm_step s acc)) < 2 ^ 62" using Cons.prems(2) by (auto simp: vm_step_def split: prod.splits)
    then show ?case using Cons by (simp add: well_placed_def)
  qed
  moreover note vm_range_steps [of segs]
  ultimately show ?thesis using r by (metis snd_conv unsigned_0 zero_less_numeral zero_less_power)
qed

text \<open>A page of a segment lies in the reservation.\<close>

lemma covers_span:
  assumes sz: "unat (seg_filesize seg) \<le> unat (seg_vmsize seg)" "unat (seg_vmaddr seg) + unat (seg_vmsize seg) \<le> unat high" "unat high < 2 ^ 62"
    and low: "unat low \<le> unat (seg_vmaddr seg)"
    and base: "4096 dvd unat base" and al: "0 < seg_vmsize seg \<longrightarrow> page_aligned 4096 (unat (seg_vmaddr seg + (base - low)))"
    and b: "seg_covers 4096 (base - low) seg b"
  shows "in_range b base (round_up 4096 (unat (high - low)))"
proof -
  have n: "in_range b (seg_vmaddr seg + (base - low)) (round_up 4096 (unat (seg_vmsize seg)))"
    using b round_up_mono [OF sz(1), of 4096] by (simp add: seg_covers_def max_absorb2)
  then have pos: "0 < seg_vmsize seg" by (cases "seg_vmsize seg = 0") (auto simp: word_neq_0_conv)
  define d where "d = unat (seg_vmaddr seg) - unat low"
  have ud: "unat (seg_vmaddr seg - low) = d" using low by (simp add: d_def unat_sub word_le_nat_alt)
  have d: "seg_vmaddr seg - low = of_nat d" unfolding ud [symmetric] by simp
  then have a: "seg_vmaddr seg + (base - low) = base + of_nat d" by (simp add: algebra_simps)
  have span: "unat (high - low) = unat high - unat low" using low sz(2) by (simp add: unat_sub word_le_nat_alt)
  have "d < 2 ^ 62" using sz(2,3) by (simp add: d_def)
  then have "unat (base + of_nat d) = (unat base + d) mod 2 ^ 64" by (simp add: unat_word_ariths unat_of_nat)
  moreover have "4096 dvd unat (base + of_nat d)" using al pos by (simp add: a page_aligned_def mod_eq_0_iff_dvd)
  moreover have "(4096 :: nat) dvd 2 ^ 64" by simp
  ultimately have "4096 dvd unat base + d" by (metis dvd_mod_iff)
  then have dv: "4096 dvd d" using base by (simp add: dvd_add_right_iff)
  have "d + round_up 4096 (unat (seg_vmsize seg)) = round_up 4096 (d + unat (seg_vmsize seg))"
    using dv by (simp add: round_up_add)
  also have "\<dots> \<le> round_up 4096 (unat (high - low))" unfolding span by (rule round_up_mono) (use sz(2) low in \<open>simp add: d_def\<close>)
  finally have le: "d + round_up 4096 (unat (seg_vmsize seg)) \<le> round_up 4096 (unat (high - low))" .
  have "round_up 4096 (unat (high - low)) < 2 ^ 64"
    using round_up_less [of 4096 "unat (high - low)"] sz(3) span by simp
  with n le show ?thesis unfolding a by (blast intro: in_range_sub)
qed

lemma covers_inside:
  assumes w: "well_placed segs" and r: "vm_range segs = (low, high)" and seg: "seg \<in> set segs"
    and base: "4096 dvd unat base" and al: "0 < seg_vmsize seg \<longrightarrow> page_aligned 4096 (unat (seg_vmaddr seg + (base - low)))"
    and b: "seg_covers 4096 (base - low) seg b"
  shows "in_range b base (round_up 4096 (unat (high - low)))"
proof -
  have sz: "unat (seg_filesize seg) \<le> unat (seg_vmsize seg)" "unat (seg_vmaddr seg) + unat (seg_vmsize seg) < 2 ^ 62"
    using w seg by (auto simp: well_placed_def word_le_nat_alt)
  have low: "unat low \<le> unat (seg_vmaddr seg)" using vm_range_bounds(1) [OF r seg] by (simp add: word_le_nat_alt)
  have "unat (seg_vmaddr seg + seg_vmsize seg) = unat (seg_vmaddr seg) + unat (seg_vmsize seg)"
    using sz(2) by (simp add: unat_word_ariths)
  then have high: "unat (seg_vmaddr seg) + unat (seg_vmsize seg) \<le> unat high"
    using vm_range_bounds(2) [OF r seg] by (simp add: word_le_nat_alt)
  show ?thesis by (rule covers_span [OF sz(1) high vm_range_high [OF w r] low base al b])
qed

text \<open>What memory holds once the segments are mapped into a zeroed reservation of \<open>n + p\<close> bytes, of which they cover only the first \<open>n\<close>.\<close>

lemma segments_in_place:
  assumes inside: "\<forall>s \<in> set segs. \<forall>b. seg_covers 4096 slide s b \<longrightarrow> in_range b base n"
    and m': "m' = fold (map_segment 4096 bytes fat slide) segs m1" and m1: "m1 = (\<lambda>b. if in_range b base (n + p) then 0 else m b)"
    and small: "n + p < 2 ^ 64"
  shows "same_outside (\<lambda>b. in_range b base (n + p)) m m'"
    and "k < p \<Longrightarrow> m' (base + of_nat n + of_nat k) = 0"
    and "segs = pre @ seg # post \<Longrightarrow> i < unat (seg_vmsize seg) \<Longrightarrow>
      \<forall>s \<in> set post. \<not> seg_covers 4096 slide s (seg_vmaddr seg + slide + of_nat i) \<Longrightarrow>
      in_range (seg_vmaddr seg + slide + of_nat i) base n \<and>
      m' (seg_vmaddr seg + slide + of_nat i) = segment_byte 4096 bytes fat seg i"
proof -
  have rest: "m' b = m1 b" if "\<not> in_range b base n" for b
  proof -
    have "\<forall>s \<in> set segs. \<not> seg_covers 4096 slide s b" using inside that by blast
    then show ?thesis by (simp add: m' fold_untouched)
  qed
  show "same_outside (\<lambda>b. in_range b base (n + p)) m m'"
    unfolding same_outside_def
  proof (intro allI impI)
    fix b assume b: "\<not> in_range b base (n + p)"
    then have "\<not> in_range b base n" using in_range_mono [of b base n "n + p"] by auto
    with b show "m' b = m b" by (simp add: rest m1)
  qed
  show "m' (base + of_nat n + of_nat k) = 0" if "k < p"
  proof -
    have "unat (of_nat (n + k) :: u64) = n + k" using small that by (subst unat_of_nat) simp
    then have "unat (base + of_nat n + of_nat k - base) = n + k" by (simp add: algebra_simps)
    then show ?thesis using that by (simp add: rest m1 in_range_def)
  qed
  show "in_range (seg_vmaddr seg + slide + of_nat i) base n \<and>
      m' (seg_vmaddr seg + slide + of_nat i) = segment_byte 4096 bytes fat seg i"
    if "segs = pre @ seg # post" "i < unat (seg_vmsize seg)"
      and post: "\<forall>s \<in> set post. \<not> seg_covers 4096 slide s (seg_vmaddr seg + slide + of_nat i)"
  proof -
    define b where "b = seg_vmaddr seg + slide + of_nat i"
    have "unat (seg_vmsize seg) < 2 ^ 64" using unsigned_less [of "seg_vmsize seg"] by simp
    with that(2) have i: "unat (b - (seg_vmaddr seg + slide)) = i" by (simp add: b_def unat_of_nat)
    have c: "seg_covers 4096 slide seg b"
      using that(2) round_up_ge [of 4096 "unat (seg_vmsize seg)"] by (simp add: seg_covers_def in_range_def i less_max_iff_disj)
    show ?thesis
      using inside c fold_segment_byte [OF _ c post [folded b_def], of bytes fat pre m1] that(1) by (simp add: m' i flip: b_def)
  qed
qed

lemma vm_range_span:
  assumes "well_placed segs" "vm_range segs = (low, high)" "high \<noteq> 0"
  shows "unat (high - low) < 2 ^ 62"
proof -
  have "segs \<noteq> []" using assms(2,3) by (auto simp: vm_range_def)
  then have seg: "hd segs \<in> set segs" by simp
  have "unat (seg_vmaddr (hd segs)) + unat (seg_vmsize (hd segs)) < 2 ^ 62" using assms(1) seg by (simp only: well_placed_def)
  then have "unat (seg_vmaddr (hd segs) + seg_vmsize (hd segs)) = unat (seg_vmaddr (hd segs)) + unat (seg_vmsize (hd segs))"
    by (simp add: unat_word_ariths)
  then have "low \<le> high" using vm_range_bounds [OF assms(2) seg] by (simp add: word_le_nat_alt)
  then show ?thesis using vm_range_high [OF assms(1,2)] by (simp add: unat_sub)
qed

lemma mmap_any_effect:
  fixes st :: "'a dylib_process_scheme"
  assumes "mmap_any env h n st = (a, st')" "a \<noteq> 0"
  shows "\<exists>k. a = os_mmap env k h n" "p_mem st' = map_anon (os_page_size env) a (unat n) (p_mem st)"
    "g_macho_dylibs st' = g_macho_dylibs st"
  using assms by (auto simp: mmap_any_def Let_def split: if_splits)

section \<open>Loading\<close>

lemma dylib_load_cases:
  fixes st :: "'a dylib_process_scheme"
  assumes "dylib_loader_load env junk path st = (Some i, st')"
  obtains bytes fat fatsize low high base st1 st2 acc info where "os_file env path = Some bytes"
    "find_arm64_slice junk bytes = Some (fat, fatsize)" "vm_range (file_segments (file_mem bytes (unat fat))) = (low, high)"
    "mmap_any env 0 (PAGE_ROUNDUP (high - low) + DYLIB_POOL_PADDING) (st\<lparr>p_mmaps := p_mmaps st + 1\<rparr>) = (base, st1)" "base \<noteq> 0" "high \<noteq> 0"
    "map_dylib_segments env bytes (file_mem bytes (unat fat)) (ucast fat) (base - low)
       (file_segments (file_mem bytes (unat fat))) (0, 0, 0) st1 = (Some acc, st2)"
    "p_mem st' = p_mem st2" "g_macho_dylibs st' = g_macho_dylibs st2 @ [info]" "i = length (g_macho_dylibs st2)"
    "md_slide info = base - low" "md_pool_base info = base + PAGE_ROUNDUP (high - low)" "md_path info = take 255 path"
    "length (g_macho_dylibs st) < MAX_MACHO_DYLIBS"
proof -
  obtain bytes where fl: "os_file env path = Some bytes" and room: "length (g_macho_dylibs st) < MAX_MACHO_DYLIBS"
    using assms by (auto simp: dylib_loader_load_def not_le split: if_splits option.splits)
  obtain fat fatsize where slice: "find_arm64_slice junk bytes = Some (fat, fatsize)"
    using assms fl room by (auto simp: dylib_loader_load_def split: option.splits)
  let ?fm = "file_mem bytes (unat fat)"
  obtain low high where range: "vm_range (file_segments ?fm) = (low, high)" by fastforce
  obtain base st1 where map: "mmap_any env 0 (PAGE_ROUNDUP (high - low) + DYLIB_POOL_PADDING) (st\<lparr>p_mmaps := p_mmaps st + 1\<rparr>) = (base, st1)"
    by fastforce
  obtain r st2 where segs: "map_dylib_segments env bytes ?fm (ucast fat) (base - low) (file_segments ?fm) (0, 0, 0) st1 = (r, st2)"
    by fastforce
  note load = assms [unfolded dylib_loader_load_def Let_def, simplified fl slice option.case prod.case range map segs]
  have ne: "base \<noteq> 0" "high \<noteq> 0" using load room by (auto split: if_splits)
  have "r \<noteq> None" using load room by (cases r) (auto split: if_splits)
  then obtain acc where r: "r = Some acc" by blast
  have "p_mem st' = p_mem st2" "\<exists>info. g_macho_dylibs st' = g_macho_dylibs st2 @ [info] \<and> md_slide info = base - low \<and>
      md_pool_base info = base + PAGE_ROUNDUP (high - low) \<and> md_path info = take 255 path" "i = length (g_macho_dylibs st2)"
    using load room r by (auto simp: set_prot_def case_prod_beta split: if_splits)
  then show thesis using that [OF fl slice range map ne segs [unfolded r]] room by blast
qed

text \<open>C10: Loading a dylib. With pages of 4096 bytes, a kernel that gives out page-aligned memory and segments whose sizes
  make sense, a successful load changes memory only inside the reserved range; there every byte of a segment that no
  later segment covers is the byte of the file at its offset in the arm64 slice, or 0 behind the file's part;
  the island pool lies behind all segments and is zero; and the dylib is entered once, as the last of at most
  eight, with the slide at which its segments are mapped.\<close>

theorem dylib_load_maps_segments:
  fixes st :: "'a dylib_process_scheme"
  assumes "os_page_size env = 4096" "\<forall>k h n. 4096 dvd unat (os_mmap env k h n)"
    and "os_file env path = Some bytes" "find_arm64_slice junk bytes = Some (fat, fatsize)"
    and "well_placed (file_segments (file_mem bytes (unat fat)))"
    and "dylib_loader_load env junk path st = (Some i, st')"
  shows "\<exists>info base n. i = length (g_macho_dylibs st) \<and> i < 8 \<and> g_macho_dylibs st' = g_macho_dylibs st @ [info] \<and>
    md_path info = take 255 path \<and> md_pool_base info = base + of_nat n \<and>
    same_outside (\<lambda>b. in_range b base (n + 0x10000)) (p_mem st) (p_mem st') \<and>
    (\<forall>pre seg post k. file_segments (file_mem bytes (unat fat)) = pre @ seg # post \<and> k < unat (seg_vmsize seg) \<and>
       (\<forall>s\<in>set post. \<not> seg_covers 4096 (md_slide info) s (seg_vmaddr seg + md_slide info + of_nat k)) \<longrightarrow>
       in_range (seg_vmaddr seg + md_slide info + of_nat k) base n \<and>
       p_mem st' (seg_vmaddr seg + md_slide info + of_nat k) = segment_byte 4096 bytes (ucast fat) seg k) \<and>
    (\<forall>k<0x10000. p_mem st' (md_pool_base info + of_nat k) = 0)"
proof -
  let ?segs = "file_segments (file_mem bytes (unat fat))"
  obtain low high base st1 st2 acc info where
    range: "vm_range ?segs = (low, high)"
    and map: "mmap_any env 0 (PAGE_ROUNDUP (high - low) + DYLIB_POOL_PADDING) (st\<lparr>p_mmaps := p_mmaps st + 1\<rparr>) = (base, st1)" "base \<noteq> 0" "high \<noteq> 0"
    and segs: "map_dylib_segments env bytes (file_mem bytes (unat fat)) (ucast fat) (base - low) ?segs (0, 0, 0) st1 = (Some acc, st2)"
    and info: "p_mem st' = p_mem st2" "g_macho_dylibs st' = g_macho_dylibs st2 @ [info]" "i = length (g_macho_dylibs st2)"
      "md_slide info = base - low" "md_pool_base info = base + PAGE_ROUNDUP (high - low)" "md_path info = take 255 path"
      "length (g_macho_dylibs st) < MAX_MACHO_DYLIBS"
    using assms(6) by (rule dylib_load_cases) (use assms(3,4) in auto)
  define n where "n = round_up 4096 (unat (high - low))"
  have span: "unat (high - low) < 2 ^ 62" using vm_range_span [OF assms(5) range map(3)] .
  have n: "unat (PAGE_ROUNDUP (high - low)) = n" "n < 2 ^ 63" "4096 dvd n"
    using span round_up_less [of 4096 "unat (high - low)"] by (simp_all add: n_def PAGE_ROUNDUP_eq) (simp add: round_up_def)
  have sz: "unat (PAGE_ROUNDUP (high - low) + DYLIB_POOL_PADDING) = n + 0x10000"
    using n(2) by (simp add: unat_word_ariths n(1) DYLIB_POOL_PADDING_def)
  have "round_up 4096 (n + 0x10000) = n + 0x10000" using n(3) by (simp add: round_up_add) (simp add: round_up_def)
  then have m1: "p_mem st1 = (\<lambda>b. if in_range b base (n + 0x10000) then 0 else p_mem st b)"
    using mmap_any_effect(2) [OF map(1,2)] by (simp add: sz assms(1) map_anon_def)
  have base: "4096 dvd unat base" using mmap_any_effect(1) [OF map(1,2)] assms(2) by blast
  note eff = map_dylib_segments_effect [OF segs, unfolded assms(1)]
  have inside: "in_range b base n" if "seg \<in> set ?segs" "seg_covers 4096 (base - low) seg b" for seg b
    using covers_inside [OF assms(5) range that(1) base _ that(2)] eff that(1) by (simp add: n_def)
  have small: "n + 0x10000 < 2 ^ 64" using n(2) by simp
  have all: "\<forall>s \<in> set ?segs. \<forall>b. seg_covers 4096 (base - low) s b \<longrightarrow> in_range b base n" using inside by blast
  have m': "p_mem st' = fold (map_segment 4096 bytes (ucast fat) (base - low)) ?segs (p_mem st1)" using eff info(1) by simp
  note place = segments_in_place [OF all m' m1 small]
  have byte: "\<forall>pre seg post k. ?segs = pre @ seg # post \<and> k < unat (seg_vmsize seg) \<and>
       (\<forall>s\<in>set post. \<not> seg_covers 4096 (base - low) s (seg_vmaddr seg + (base - low) + of_nat k)) \<longrightarrow>
       in_range (seg_vmaddr seg + (base - low) + of_nat k) base n \<and>
       p_mem st' (seg_vmaddr seg + (base - low) + of_nat k) = segment_byte 4096 bytes (ucast fat) seg k"
    using place(3) by blast
  have pool: "md_pool_base info = base + of_nat n" by (simp add: info(5) flip: n(1))
  have "g_macho_dylibs st2 = g_macho_dylibs st" using eff mmap_any_effect(3) [OF map(1,2)] by simp
  then show ?thesis
    using info(2,3,6,7) pool place(1,2) byte
    by (intro exI [of _ info] exI [of _ base] exI [of _ n]) (simp add: info(4) MAX_MACHO_DYLIBS_def)
qed

end
