(* ===== verification/Dylib_Example.thy ===== *)
theory Dylib_Example
  imports Dylib_Correct Mem_Image
begin

text \<open>A dylib of one segment, and what loading it does.\<close>

definition dylib_words :: "(u64 \<times> u64) list" where
  "dylib_words = [(0, 0x0100000CFEEDFACF), (8, 0x0000000600000000), (16, 0x0000004800000001), (32, 0x0000004800000019),
     (40, 0x0000545845545F5F), (56, 0x10000), (64, 0x1000), (80, 104), (88, 0x0000000500000005)]"

definition dylib_file :: "u8 list" where
  "dylib_file = map (\<lambda>i. image dylib_words (of_nat i)) [0..<104]"

definition denv0 :: os_env where
  "denv0 = \<lparr>os_page_size = 4096, os_mmap = (\<lambda>k h n. 0x700000), os_fixed = (\<lambda>_. True), os_file = (\<lambda>_. Some dylib_file)\<rparr>"

definition dst0 :: dylib_process where
  "dst0 = \<lparr>p_mem = (\<lambda>_. 0), p_mmaps = 0, p_prots = [], g_macho_dylibs = []\<rparr>"

lemma dylib_file_byte: "unat b < 104 \<Longrightarrow> file_mem dylib_file 0 b = image dylib_words b"
  by (simp add: file_mem_def byte_at_def dylib_file_def)

lemma dylib_file_load:
  assumes "unat a + n \<le> 104"
  shows "load (file_mem dylib_file 0) a n = load (image dylib_words) a n"
proof (rule load_cong)
  fix b assume "in_range b a n"
  then have "unat (b - a) < n" by (simp add: in_range_def)
  then have "unat (a + (b - a)) < 104" using assms by (simp only: unat_word_ariths) simp
  then show "file_mem dylib_file 0 b = image dylib_words b" by (simp add: dylib_file_byte)
qed (use assms in simp)

lemma dylib_file_load32: "unat a + 4 \<le> 104 \<Longrightarrow> load32 (file_mem dylib_file 0) a = load32 (image dylib_words) a"
  by (simp add: load32_def dylib_file_load)

lemmas dylib_eval = dylib_file_load dylib_file_load32 load8_image load32_image word_at_def dylib_words_def

lemma dylib_header:
  "mh_magic (read_header (file_mem dylib_file 0) 0) = MH_MAGIC_64" "mh_filetype (read_header (file_mem dylib_file 0) 0) = MH_DYLIB"
  "mh_ncmds (read_header (file_mem dylib_file 0) 0) = 1" "mh_sizeofcmds (read_header (file_mem dylib_file 0) 0) = 72"
  by (simp_all add: read_header_def MH_MAGIC_64_def MH_DYLIB_def dylib_eval)

definition dylib_seg :: segment_command_64 where
  "dylib_seg = \<lparr>seg_segname = 40, seg_vmaddr = 0x10000, seg_vmsize = 0x1000, seg_fileoff = 0,
     seg_filesize = 104, seg_maxprot = 5, seg_initprot = 5, seg_nsects = 0, seg_flags = 0, seg_sections = 104\<rparr>"

lemma dylib_name: "mem_str (file_mem dylib_file 0) 40 = ''__TEXT''"
  by (simp add: mem_str_def dylib_file_byte) (simp add: image_def word_at_def dylib_words_def char_of_def bit_0)

lemma dylib_segs: "file_segments (file_mem dylib_file 0) = [dylib_seg]"
proof -
  have "read_segment (file_mem dylib_file 0) 32 = dylib_seg"
    by (simp add: read_segment_def dylib_seg_def dylib_eval)
  moreover have "bounded_commands (file_mem dylib_file 0) 0 = [32]"
    by (simp add: bounded_commands_def dylib_header)
  moreover have "load32 (file_mem dylib_file 0) 32 = LC_SEGMENT_64" by (simp add: dylib_eval LC_SEGMENT_64_def)
  ultimately show ?thesis by (simp add: file_segments_def loadable_def) (simp add: dylib_seg_def dylib_name)
qed

lemma dylib_slice: "find_arm64_slice 0 dylib_file = Some (0, 104)"
proof -
  have "file32 dylib_file 0 = 0xFEEDFACF" by (simp add: file32_def dylib_eval)
  moreover have "length dylib_file = 104" by (simp add: dylib_file_def)
  ultimately show ?thesis by (simp add: find_arm64_slice_def FAT_MAGIC_def FAT_CIGAM_def)
qed

lemma dylib_load0: "fst (dylib_loader_load denv0 0 ''d'' dst0) = Some 0"
proof -
  have v: "vm_range [dylib_seg] = (0x10000, 0x11000)" by (simp add: vm_range_def) (simp add: dylib_seg_def)
  have len: "length dylib_file = 104" by (simp add: dylib_file_def)
  obtain st1 where m: "mmap_any denv0 0 0x11000 (dst0\<lparr>p_mmaps := Suc 0\<rparr>) = (0x700000, st1)"
    by (simp add: mmap_any_def denv0_def Let_def)
  have "\<exists>st'. map_dylib_segments denv0 dylib_file (file_mem dylib_file 0) 0 0x6F0000 [dylib_seg] (0, 0, 0) st
      = (Some (0x700000, 0x700000, 0x1000), st')" for st :: dylib_process
    by (simp add: dylib_seg_def dylib_name mmap_fixed_anon_def mmap_fixed_file_def denv0_def page_aligned_def Let_def)
  then obtain st' where s: "map_dylib_segments denv0 dylib_file (file_mem dylib_file 0) 0 0x6F0000 [dylib_seg] (0, 0, 0) st1
      = (Some (0x700000, 0x700000, 0x1000), st')" by blast
  have "g_macho_dylibs st' = []"
    using map_dylib_segments_effect [OF s] mmap_any_effect(3) [OF m] by (simp add: dst0_def)
  moreover have "PAGE_ROUNDUP 0x1000 = 0x1000" by (simp add: PAGE_ROUNDUP_def)
  moreover have "os_file denv0 ''d'' = Some dylib_file" "os_fixed denv0 0" "os_page_size denv0 = 4096" by (simp_all add: denv0_def)
  moreover have "g_macho_dylibs dst0 = []" "p_mmaps dst0 = 0" by (simp_all add: dst0_def)
  ultimately show ?thesis
    using m s by (simp add: dylib_loader_load_def dylib_slice dylib_header dylib_segs v len MAX_MACHO_DYLIBS_def page_aligned_def
        DYLIB_POOL_PADDING_def set_prot_def case_prod_beta Let_def
        del: map_dylib_segments.simps)
qed

theorem dylib_load_maps_segments_witness:
  "\<exists>info. g_macho_dylibs (snd (dylib_loader_load denv0 0 ''d'' dst0)) = [info] \<and>
     p_mem (snd (dylib_loader_load denv0 0 ''d'' dst0)) (0x10000 + md_slide info + 3) = 0xFE"
proof -
  let ?st = "snd (dylib_loader_load denv0 0 ''d'' dst0)"
  have load: "dylib_loader_load denv0 0 ''d'' dst0 = (Some 0, ?st)" using dylib_load0 by (metis prod.collapse)
  have env: "os_page_size denv0 = 4096" "\<forall>k h n. 4096 dvd unat (os_mmap denv0 k h n)" "os_file denv0 ''d'' = Some dylib_file"
    by (simp_all add: denv0_def)
  have w: "well_placed (file_segments (file_mem dylib_file (unat (0 :: u32))))"
    by (simp add: dylib_segs well_placed_def) (simp add: dylib_seg_def word_le_nat_alt)
  obtain info where i: "g_macho_dylibs ?st = g_macho_dylibs dst0 @ [info]"
    and b: "\<And>pre seg post k. file_segments (file_mem dylib_file (unat (0 :: u32))) = pre @ seg # post \<and> k < unat (seg_vmsize seg) \<and>
       (\<forall>s\<in>set post. \<not> seg_covers 4096 (md_slide info) s (seg_vmaddr seg + md_slide info + of_nat k)) \<Longrightarrow>
       p_mem ?st (seg_vmaddr seg + md_slide info + of_nat k) = segment_byte 4096 dylib_file (ucast (0 :: u32)) seg k"
    using dylib_load_maps_segments [OF env dylib_slice w load] by blast
  have "p_mem ?st (seg_vmaddr dylib_seg + md_slide info + of_nat 3) = segment_byte 4096 dylib_file (ucast (0 :: u32)) dylib_seg 3"
    by (rule b [of "[]" dylib_seg "[]" 3]) (simp add: dylib_segs, simp add: dylib_seg_def)
  also have "\<dots> = 0xFE"
    using dylib_file_byte [of 3] by (simp add: segment_byte_def dylib_seg_def round_up_def file_mem_def)
      (simp add: image_def word_at_def dylib_words_def)
  finally show ?thesis using i by (simp add: dst0_def dylib_seg_def)
qed

end
