(* ===== verification/Sgr_Codec.thy ===== *)
theory Sgr_Codec
  imports C_String
begin

text \<open>
  The parts the archive tools \<^verbatim>\<open>src/tools/sgr_extract.c\<close> and \<^verbatim>\<open>src/tools/sgr_repack.c\<close> share: the pseudo-random
  generator of the Sugar engine, the stream cipher over every other byte, big-endian numbers and the names of
  entries on disk. The C strings of archives are bytes; \<open>to_chars\<close> and \<open>of_chars\<close> convert between the two views.
\<close>

text \<open>What C sees of a zero-terminated buffer.\<close>

definition c_bytes :: "u8 list \<Rightarrow> u8 list" where "c_bytes bs = takeWhile (\<lambda>b. b \<noteq> 0) bs"

section \<open>The generator\<close>

record sugar_state =
  sx :: u32
  sy :: u32
  sz :: u32
  sw :: u32
  sv :: u32

definition sugar_srand :: "u32 \<Rightarrow> sugar_state" where
  "sugar_srand seed =
     \<lparr>sx = seed, sy = drop_bit 1 seed + 0x159a55e5, sz = drop_bit 3 seed + 0x1f123bb5,
      sw = drop_bit 5 seed + 0x05491333, sv = drop_bit 7 seed + 0x34dad465\<rparr>"

definition sugar_rnd :: "sugar_state \<Rightarrow> u32 \<times> sugar_state" where
  "sugar_rnd s =
    (let t = sz s; u = sx s XOR drop_bit 7 (sx s);
         v = u XOR push_bit 13 u XOR sv s XOR push_bit 6 (sv s)
     in (v * (push_bit 1 t OR 1), \<lparr>sx = sy s, sy = sz s, sz = sw s, sw = sv s, sv = v\<rparr>))"

fun skip_rnd :: "nat \<Rightarrow> sugar_state \<Rightarrow> sugar_state" where
  "skip_rnd 0 s = s"
| "skip_rnd (Suc n) s = skip_rnd n (snd (sugar_rnd s))"

text \<open>Seeding, with the calls that are skipped.\<close>

definition seeded :: "u32 \<Rightarrow> sugar_state" where
  "seeded seed = (let (skip, s) = sugar_rnd (sugar_srand seed) in skip_rnd (unat (skip AND 0xf)) s)"

section \<open>The cipher\<close>

fun xor_stride :: "u8 list \<Rightarrow> sugar_state \<Rightarrow> u8 list" where
  "xor_stride [] s = []"
| "xor_stride [b] s = [b XOR ucast (fst (sugar_rnd s))]"
| "xor_stride (b # c # bs) s = (b XOR ucast (fst (sugar_rnd s))) # c # xor_stride bs (snd (sugar_rnd s))"

definition read_be32 :: "u8 list \<Rightarrow> u32" where
  "read_be32 p = push_bit 24 (ucast (p ! 0)) OR push_bit 16 (ucast (p ! 1)) OR push_bit 8 (ucast (p ! 2)) OR ucast (p ! 3)"

definition read_be16 :: "u8 list \<Rightarrow> u16" where
  "read_be16 p = push_bit 8 (ucast (p ! 0)) OR ucast (p ! 1)"

definition write_be32 :: "u32 \<Rightarrow> u8 list" where
  "write_be32 v = [ucast (drop_bit 24 v), ucast (drop_bit 16 v), ucast (drop_bit 8 v), ucast v]"

definition write_be16 :: "u16 \<Rightarrow> u8 list" where
  "write_be16 v = [ucast (drop_bit 8 v), ucast v]"

definition SGR_MAGIC :: u32 where "SGR_MAGIC = 0x550f0f55"

definition encode_buffer :: "u8 list \<Rightarrow> u32 \<Rightarrow> u8 list" where
  "encode_buffer buf seed = xor_stride buf (seeded seed)"

text \<open>The buffer has at least the four bytes of the seed.\<close>

definition decode_buffer :: "u8 list \<Rightarrow> u8 list" where
  "decode_buffer buf =
    (let data_len = length buf - 4; tail = read_be32 (drop data_len buf)
     in xor_stride (take data_len buf) (seeded (tail XOR SGR_MAGIC)) @ drop data_len buf)"

section \<open>Names on disk\<close>

definition fs_replacement :: "char \<Rightarrow> cstr" where
  "fs_replacement c =
    (if c = CHR ''*'' then ''__SGR_STAR__'' else if c = CHR ''?'' then ''__SGR_QMARK__''
     else if c = CHR '':'' then ''__SGR_COLON__'' else if c = CHR ''<'' then ''__SGR_LT__''
     else if c = CHR ''>'' then ''__SGR_GT__'' else if c = CHR ''|'' then ''__SGR_PIPE__''
     else if c = CHR 0x22 then ''__SGR_QUOT__'' else [c])"

text \<open>With \<open>j\<close> characters written into a buffer of \<open>outsz\<close> bytes.\<close>

fun encode_fs_name :: "nat \<Rightarrow> nat \<Rightarrow> cstr \<Rightarrow> cstr" where
  "encode_fs_name j outsz [] = []"
| "encode_fs_name j outsz (c # s) =
    (if j + 12 < outsz
     then fs_replacement c @ encode_fs_name (j + length (fs_replacement c)) outsz s
     else [])"

function disk_name :: "cstr \<Rightarrow> cstr" where
  "disk_name s = (if starts_with ''../'' s then disk_name (drop 3 s) else s)"
  by pat_completeness auto
termination
  by (relation "measure length") (auto simp: starts_with_def intro!: diff_less)

declare disk_name.simps [simp del]

section \<open>Round trips\<close>

lemma xor_stride_length [simp]: "length (xor_stride bs s) = length bs"
  by (induction bs s rule: xor_stride.induct) auto

lemma xor_stride_twice [simp]: "xor_stride (xor_stride bs s) s = bs"
  by (induction bs s rule: xor_stride.induct) (auto simp: xor.assoc)

lemma length_write [simp]: "length (write_be32 v) = 4" "length (write_be16 w) = 2"
  by (simp_all add: write_be32_def write_be16_def)

lemma read_write_be32 [simp]: "read_be32 (write_be32 v @ rest) = v"
proof (rule bit_eqI)
  fix n :: nat
  consider "n < 8" | "8 \<le> n" "n < 16" | "16 \<le> n" "n < 24" | "24 \<le> n" by linarith
  then show "bit (read_be32 (write_be32 v @ rest)) n = bit v n" if "possible_bit TYPE(u32) n"
    by cases (use that in \<open>auto simp: read_be32_def write_be32_def bit_simps nth_append\<close>)
qed

lemma read_write_be16 [simp]: "read_be16 (write_be16 v @ rest) = v"
  by (rule bit_eqI) (auto simp: read_be16_def write_be16_def bit_simps nth_append)

lemma decode_encode_buffer: "decode_buffer (encode_buffer d seed @ write_be32 (seed XOR SGR_MAGIC)) = d @ write_be32 (seed XOR SGR_MAGIC)"
  using read_write_be32 [of "seed XOR SGR_MAGIC" "[]"]
  by (simp add: decode_buffer_def encode_buffer_def Let_def xor.assoc)

end
