(* ===== verification/Sgr_Archive.thy ===== *)
theory Sgr_Archive
  imports Sgr_Codec
begin

text \<open>
  The two archive tools. The file system is a record of the operations the tools call, on a state of any type; a
  file is read and written as a whole, and a stream's contents reach the file when it is closed. The functions of
  zlib, the random numbers of the C library and the time are arguments. The messages of the tools are left out,
  and memory is taken to be available.
\<close>

record 'fs file_system =
  fs_reg :: "'fs \<Rightarrow> cstr \<Rightarrow> bool"
  fs_rename :: "cstr \<Rightarrow> cstr \<Rightarrow> 'fs \<Rightarrow> 'fs"
  fs_mkdir :: "cstr \<Rightarrow> 'fs \<Rightarrow> 'fs"
  fs_write :: "cstr \<Rightarrow> u8 list \<Rightarrow> 'fs \<Rightarrow> 'fs option"
  fs_read :: "'fs \<Rightarrow> cstr \<Rightarrow> u8 list option"

section \<open>Extracting\<close>

abbreviation TAB :: char where "TAB \<equiv> CHR 0x09"
abbreviation CR :: char where "CR \<equiv> CHR 0x0D"

definition handle_file_dir_conflict :: "'fs file_system \<Rightarrow> cstr \<Rightarrow> 'fs \<Rightarrow> 'fs" where
  "handle_file_dir_conflict F path fs =
    (if fs_reg F fs path then fs_rename F path (take 4095 (path @ ''.__sgr_entry__'')) fs else fs)"

definition make_dir :: "'fs file_system \<Rightarrow> cstr \<Rightarrow> 'fs \<Rightarrow> 'fs" where
  "make_dir F path fs = fs_mkdir F path (handle_file_dir_conflict F path fs)"

definition mkdirs :: "'fs file_system \<Rightarrow> cstr \<Rightarrow> 'fs \<Rightarrow> 'fs" where
  "mkdirs F path fs =
    (let tmp = take 4095 path
     in fold (make_dir F) (map (\<lambda>i. take i tmp) (filter (\<lambda>i. tmp ! i = CHR ''/'') [1..<length tmp]) @ [tmp]) fs)"

text \<open>The part of a path before its last slash.\<close>

definition parent_dir :: "cstr \<Rightarrow> cstr" where
  "parent_dir path = rev (drop 1 (dropWhile (\<lambda>c. c \<noteq> CHR ''/'') (rev path)))"

definition entry_path :: "cstr \<Rightarrow> cstr \<Rightarrow> cstr" where
  "entry_path dir name = take 4095 (dir @ ''/'' @ encode_fs_name 0 4096 (disk_name name))"

definition write_file :: "'fs file_system \<Rightarrow> cstr \<Rightarrow> cstr \<Rightarrow> u8 list \<Rightarrow> 'fs \<Rightarrow> 'fs" where
  "write_file F dir name data fs =
    (let path = entry_path dir name;
         fs = (if CHR ''/'' \<in> set path then mkdirs F (parent_dir path) fs else fs)
     in case fs_write F path data fs of None \<Rightarrow> fs | Some fs \<Rightarrow> fs)"

text \<open>A string of the header: its length in two bytes, and at most 255 of its bytes copied to a buffer of 256.
  Reading past the decompressed data is an error of its own.\<close>

definition c_text :: "u8 list \<Rightarrow> cstr" where "c_text bs = to_chars (c_bytes bs)"

definition header_string :: "u8 list \<Rightarrow> (cstr \<times> u8 list) option" where
  "header_string rest =
    (if length rest < 2 then None
     else let len = unat (read_be16 rest); rest = drop 2 rest; n = (if len < 255 then len else 255)
          in if length rest < n then None else Some (c_text (take n rest), drop len rest))"

definition extract_header :: "u8 list \<Rightarrow> ((cstr \<times> cstr \<times> cstr) \<times> u8 list) option" where
  "extract_header dec =
    (case header_string dec of None \<Rightarrow> None
     | Some (title, rest) \<Rightarrow>
         (case header_string rest of None \<Rightarrow> None
          | Some (dev, rest) \<Rightarrow> map_option (\<lambda>(root, rest). ((title, dev, root), rest)) (header_string rest)))"

text \<open>One round of the loop over the entries: name, type and the data that is written to disk; None where the loop
  ends.\<close>

definition next_entry :: "u8 list \<Rightarrow> ((cstr \<times> u8 \<times> u8 list) \<times> u8 list) option" where
  "next_entry rest =
    (if length rest \<le> 7 then None
     else let name_len = unat (read_be16 rest); rest = drop 2 rest
     in if name_len = 0 \<or> 2000 < name_len \<or> length rest < name_len + 5 then None
     else let name = c_text (take (if name_len < 4095 then name_len else 4095) rest);
              rest = drop name_len rest;
              type_char = rest ! 0;
              data_size = unat (read_be32 (drop 1 rest));
              rest = drop 5 rest
     in if length rest < data_size then None
     else Some ((name, type_char,
                 if 4 < data_size then take (data_size - 4) (decode_buffer (take data_size rest))
                 else take data_size rest), drop data_size rest))"

lemma next_entry_shorter: "next_entry rest = Some (e, rest') \<Longrightarrow> length rest' < length rest"
  by (auto simp: next_entry_def Let_def split: if_splits)

definition entry_line :: "cstr \<Rightarrow> u8 \<Rightarrow> cstr" where
  "entry_line name type_char = ''ENTRY'' @ [TAB] @ dec_digits (unat type_char) @ [TAB] @ name @ [NL]"

function extract_entries :: "'fs file_system \<Rightarrow> cstr \<Rightarrow> u8 list \<Rightarrow> 'fs \<times> cstr \<times> nat \<Rightarrow> 'fs \<times> cstr \<times> nat" where
  "extract_entries F out_dir rest (fs, manifest, n) =
    (case next_entry rest of
       None \<Rightarrow> (fs, manifest, n)
     | Some ((name, type_char, data), rest') \<Rightarrow>
         extract_entries F out_dir rest'
           (write_file F out_dir name data fs, manifest @ entry_line name type_char, n + 1))"
  by pat_completeness auto
termination
  by (relation "measure (\<lambda>(F, out_dir, rest, st). length rest)") (auto dest: next_entry_shorter)

declare extract_entries.simps [simp del]

datatype extract_error = Cannot_Open | Short_File | Uncompress_Failed | Header_Overrun | Cannot_Create_Manifest

definition manifest_path :: "cstr \<Rightarrow> cstr" where
  "manifest_path dir = take 4095 (dir @ ''/.sgr_manifest'')"

definition header_lines :: "cstr \<Rightarrow> cstr \<Rightarrow> cstr \<Rightarrow> cstr" where
  "header_lines title dev root =
    ''TITLE'' @ [TAB] @ title @ [NL] @ ''DEV'' @ [TAB] @ dev @ [NL] @ ''ROOT'' @ [TAB] @ root @ [NL]"

text \<open>The number of entries extracted is part of the result, as the last message has it.\<close>

definition extract_archive ::
    "'fs file_system \<Rightarrow> (nat \<Rightarrow> u8 list \<Rightarrow> u8 list option) \<Rightarrow> cstr \<Rightarrow> u8 list \<Rightarrow> 'fs \<Rightarrow> extract_error + 'fs \<times> nat" where
  "extract_archive F uncompress out_dir raw fs =
    (if length raw < 8 then Inl Short_File
     else let raw' = decode_buffer raw; dec_size = unat (read_be32 raw')
     in case uncompress dec_size (take (length raw - 8) (drop 4 raw')) of None \<Rightarrow> Inl Uncompress_Failed
     | Some dec \<Rightarrow>
       (case extract_header dec of None \<Rightarrow> Inl Header_Overrun
        | Some ((title, dev, root), rest) \<Rightarrow>
          (case fs_write F (manifest_path out_dir) [] (mkdirs F out_dir fs) of
             None \<Rightarrow> Inl Cannot_Create_Manifest
           | Some fs \<Rightarrow>
               let (fs, manifest, n) = extract_entries F out_dir rest (fs, header_lines title dev root, 0)
               in Inr (case fs_write F (manifest_path out_dir) (of_chars manifest) fs of
                         None \<Rightarrow> fs | Some fs \<Rightarrow> fs, n))))"

definition sgr_extract_main ::
    "'fs file_system \<Rightarrow> (nat \<Rightarrow> u8 list \<Rightarrow> u8 list option) \<Rightarrow> cstr \<Rightarrow> cstr option \<Rightarrow> 'fs \<Rightarrow> extract_error + 'fs \<times> nat" where
  "sgr_extract_main F uncompress sgr_path out_arg fs =
    (case fs_read F fs sgr_path of None \<Rightarrow> Inl Cannot_Open
     | Some raw \<Rightarrow> extract_archive F uncompress (case out_arg of None \<Rightarrow> ''sgr_out'' | Some d \<Rightarrow> d) raw fs)"

section \<open>Repacking\<close>

subsection \<open>The growing buffer\<close>

text \<open>The capacity is doubled until the buffer has room; None is a loop that does not end. Sizes are unbounded.\<close>

record sbuf =
  b_data :: "u8 list"
  b_cap :: nat

definition buf_init :: sbuf where "buf_init = \<lparr>b_data = [], b_cap = 1024 * 1024\<rparr>"

partial_function (option) grow_cap :: "nat \<Rightarrow> nat \<Rightarrow> nat option" where
  "grow_cap want cap = (if want > cap then grow_cap want (cap * 2) else Some cap)"

definition buf_ensure :: "sbuf \<Rightarrow> nat \<Rightarrow> sbuf option" where
  "buf_ensure b need = map_option (\<lambda>c. b\<lparr>b_cap := c\<rparr>) (grow_cap (length (b_data b) + need) (b_cap b))"

definition buf_append :: "u8 list \<Rightarrow> sbuf \<Rightarrow> sbuf option" where
  "buf_append src b = map_option (\<lambda>b. b\<lparr>b_data := b_data b @ src\<rparr>) (buf_ensure b (length src))"

definition buf_append_be16 :: "u16 \<Rightarrow> sbuf \<Rightarrow> sbuf option" where
  "buf_append_be16 v b = buf_append (write_be16 v) b"

definition buf_append_be32 :: "u32 \<Rightarrow> sbuf \<Rightarrow> sbuf option" where
  "buf_append_be32 v b = buf_append (write_be32 v) b"

definition buf_append_str :: "cstr \<Rightarrow> sbuf \<Rightarrow> sbuf option" where
  "buf_append_str s b =
    (let len = word_of_nat (length s) :: u16
     in Option.bind (buf_append_be16 len b) (buf_append (take (unat len) (of_chars s))))"

subsection \<open>The manifest\<close>

record manifest =
  m_title :: cstr
  m_dev :: cstr
  m_root :: cstr
  m_entries :: "(cstr \<times> u8) list"

definition strip_eol :: "cstr \<Rightarrow> cstr" where
  "strip_eol l = rev (dropWhile (\<lambda>c. c = NL \<or> c = CR) (rev l))"

text \<open>\<^verbatim>\<open>atoi\<close> up to the conversion to \<^verbatim>\<open>int\<close>, which the caller narrows further.\<close>

definition atoi :: "cstr \<Rightarrow> int" where
  "atoi s =
    (let s = dropWhile isspace s; neg = (at0 s 0 = CHR ''-'');
         s = (if at0 s 0 = CHR ''-'' \<or> at0 s 0 = CHR ''+'' then drop 1 s else s);
         v = int (dec_number (takeWhile is_digit s))
     in if neg then max (- (2 ^ 63)) (- v) else min (2 ^ 63 - 1) v)"

definition MAX_ENTRIES :: nat where "MAX_ENTRIES = 4096"
definition MAX_NAME :: nat where "MAX_NAME = 512"

definition manifest_line :: "cstr \<Rightarrow> manifest \<Rightarrow> manifest" where
  "manifest_line line0 m =
    (let line = strip_eol line0
     in if starts_with (''TITLE'' @ [TAB]) line then m\<lparr>m_title := take 255 (drop 6 line)\<rparr>
        else if starts_with (''DEV'' @ [TAB]) line then m\<lparr>m_dev := take 255 (drop 4 line)\<rparr>
        else if starts_with (''ROOT'' @ [TAB]) line then m\<lparr>m_root := take 255 (drop 5 line)\<rparr>
        else if starts_with (''ENTRY'' @ [TAB]) line then
          if length (m_entries m) < MAX_ENTRIES then
            let rest = drop 6 line;
                (type_char, name) = (case split_at TAB rest of
                   None \<Rightarrow> (0, rest) | Some (_, after) \<Rightarrow> (word_of_int (atoi rest), after))
            in m\<lparr>m_entries := m_entries m @ [(take (MAX_NAME - 1) name, type_char)]\<rparr>
          else m
        else m)"

definition read_manifest :: "u8 list \<Rightarrow> manifest" where
  "read_manifest content =
    fold manifest_line (fgets_lines 8190 (to_chars content)) \<lparr>m_title = [], m_dev = [], m_root = [], m_entries = []\<rparr>"

subsection \<open>Building the archive\<close>

datatype repack_error = No_Manifest | Cannot_Read cstr | Compress_Failed | Cannot_Write | Buffer_Diverges

text \<open>The two names an entry without a directory may have on disk.\<close>

definition read_entry :: "'fs file_system \<Rightarrow> 'fs \<Rightarrow> cstr \<Rightarrow> cstr \<Rightarrow> u8 list option" where
  "read_entry F fs in_dir entry_name =
    (let encoded = encode_fs_name 0 4096 (disk_name entry_name);
         ef = (if CHR ''/'' \<notin> set encoded
               then fs_read F fs (take 8191 (in_dir @ ''/'' @ encoded @ ''.__sgr_entry__'')) else None)
     in case ef of Some d \<Rightarrow> Some d | None \<Rightarrow> fs_read F fs (take 8191 (in_dir @ ''/'' @ encoded)))"

text \<open>\<open>rand s i\<close> is the \<open>i\<close>th random number after seeding with \<open>s\<close>; a program that has not seeded the generator
  gets the numbers of the seed 1.\<close>

definition rand_seed :: "(u32 \<Rightarrow> nat \<Rightarrow> u32) \<Rightarrow> u32 \<Rightarrow> nat \<Rightarrow> u32" where
  "rand_seed rand s i = rand s (2 * i) XOR push_bit 16 (rand s (2 * i + 1))"

definition append_entry :: "cstr \<Rightarrow> u8 \<Rightarrow> u8 list \<Rightarrow> u32 \<Rightarrow> sbuf \<Rightarrow> sbuf option" where
  "append_entry entry_name type_byte edata entry_seed archive =
    (let enc_data = encode_buffer edata entry_seed @ write_be32 (entry_seed XOR SGR_MAGIC);
         name_len = word_of_nat (length entry_name) :: u16
     in Option.bind (buf_append_be16 name_len archive) (\<lambda>b.
        Option.bind (buf_append (take (unat name_len) (of_chars entry_name)) b) (\<lambda>b.
        Option.bind (buf_append [type_byte] b) (\<lambda>b.
        Option.bind (buf_append_be32 (word_of_nat (length edata + 4)) b) (buf_append enc_data)))))"

fun append_entries ::
    "'fs file_system \<Rightarrow> (u32 \<Rightarrow> nat \<Rightarrow> u32) \<Rightarrow> 'fs \<Rightarrow> cstr \<Rightarrow> nat \<Rightarrow> (cstr \<times> u8) list \<Rightarrow> sbuf \<Rightarrow> repack_error + sbuf" where
  "append_entries F rand fs in_dir i [] archive = Inr archive"
| "append_entries F rand fs in_dir i ((entry_name, type_byte) # es) archive =
    (case read_entry F fs in_dir entry_name of None \<Rightarrow> Inl (Cannot_Read entry_name)
     | Some edata \<Rightarrow>
        (case append_entry entry_name type_byte edata (rand_seed rand 1 i) archive of None \<Rightarrow> Inl Buffer_Diverges
         | Some archive \<Rightarrow> append_entries F rand fs in_dir (i + 1) es archive))"

definition build_archive ::
    "'fs file_system \<Rightarrow> (u32 \<Rightarrow> nat \<Rightarrow> u32) \<Rightarrow> 'fs \<Rightarrow> cstr \<Rightarrow> manifest \<Rightarrow> repack_error + sbuf" where
  "build_archive F rand fs in_dir m =
    (case Option.bind (buf_append_str (m_title m) buf_init) (\<lambda>b.
          Option.bind (buf_append_str (m_dev m) b) (buf_append_str (m_root m))) of
       None \<Rightarrow> Inl Buffer_Diverges
     | Some archive \<Rightarrow> append_entries F rand fs in_dir 0 (m_entries m) archive)"

definition repack_archive ::
    "'fs file_system \<Rightarrow> (u8 list \<Rightarrow> u8 list option) \<Rightarrow> (u32 \<Rightarrow> nat \<Rightarrow> u32) \<Rightarrow> u32 \<Rightarrow> cstr \<Rightarrow> manifest \<Rightarrow> 'fs
     \<Rightarrow> repack_error + u8 list" where
  "repack_archive F compress rand now in_dir m fs =
    (case build_archive F rand fs in_dir m of Inl e \<Rightarrow> Inl e
     | Inr archive \<Rightarrow>
        (case compress (b_data archive) of None \<Rightarrow> Inl Compress_Failed
         | Some compressed \<Rightarrow>
            let outer = write_be32 (word_of_nat (length (b_data archive))) @ compressed; seed = rand_seed rand now 0
            in Inr (encode_buffer outer seed @ write_be32 (seed XOR SGR_MAGIC))))"

definition sgr_repack_main ::
    "'fs file_system \<Rightarrow> (u8 list \<Rightarrow> u8 list option) \<Rightarrow> (u32 \<Rightarrow> nat \<Rightarrow> u32) \<Rightarrow> u32 \<Rightarrow> cstr \<Rightarrow> cstr \<Rightarrow> 'fs
     \<Rightarrow> repack_error + 'fs" where
  "sgr_repack_main F compress rand now in_dir out_path fs =
    (case fs_read F fs (manifest_path in_dir) of None \<Rightarrow> Inl No_Manifest
     | Some content \<Rightarrow>
        (case repack_archive F compress rand now in_dir (read_manifest content) fs of Inl e \<Rightarrow> Inl e
         | Inr bytes \<Rightarrow> (case fs_write F out_path bytes fs of None \<Rightarrow> Inl Cannot_Write | Some fs \<Rightarrow> Inr fs)))"

end
