(* ===== verification/Sgr_Correct.thy ===== *)
theory Sgr_Correct
  imports Sgr_Archive
begin

text \<open>
  What the archive tools promise: the growing buffer always has room, what is repacked extracts again to the same
  files, and the manifest one tool writes is the one the other reads.
\<close>

section \<open>The growing buffer\<close>

lemma grow_cap_some: "0 < cap \<Longrightarrow> \<exists>c. grow_cap want cap = Some c \<and> want \<le> c \<and> 0 < c"
proof (induction "want - cap" arbitrary: cap rule: less_induct)
  case less
  then show ?case
    by (cases "want > cap") (auto simp: grow_cap.simps [of want cap] intro!: less.hyps)
qed

definition buf_ok :: "sbuf \<Rightarrow> bool" where
  "buf_ok b \<longleftrightarrow> 0 < b_cap b \<and> length (b_data b) \<le> b_cap b"

lemma buf_init_ok [simp]: "buf_ok buf_init" "b_data buf_init = []"
  by (simp_all add: buf_ok_def buf_init_def)

lemma buf_append_some:
  assumes "buf_ok b"
  obtains b' where "buf_append src b = Some b'" "b_data b' = b_data b @ src" "buf_ok b'"
proof -
  obtain c where "grow_cap (length (b_data b) + length src) (b_cap b) = Some c"
    "length (b_data b) + length src \<le> c" "0 < c"
    using assms grow_cap_some [of "b_cap b"] by (auto simp: buf_ok_def)
  then show thesis by (intro that) (auto simp: buf_append_def buf_ensure_def buf_ok_def)
qed

lemma buf_append_data:
  assumes "buf_ok b" "buf_append src b = Some b'"
  shows "b_data b' = b_data b @ src" "buf_ok b'"
  using buf_append_some [OF assms(1), of src] assms(2) by auto

definition str_bytes :: "cstr \<Rightarrow> u8 list" where
  "str_bytes s = write_be16 (word_of_nat (length s)) @ of_chars s"

definition entry_bytes :: "cstr \<Rightarrow> u8 \<Rightarrow> u8 list \<Rightarrow> u32 \<Rightarrow> u8 list" where
  "entry_bytes name ty d seed =
    str_bytes name @ [ty] @ write_be32 (word_of_nat (length d + 4)) @ encode_buffer d seed @ write_be32 (seed XOR SGR_MAGIC)"

lemma unat_length16 [simp]: "n < 2 ^ 16 \<Longrightarrow> unat (word_of_nat n :: u16) = n"
  by (simp add: unat_of_nat take_bit_nat_eq_self)

lemma unat_length32: "n < 2 ^ 32 \<Longrightarrow> unat (word_of_nat n :: u32) = n"
  by (simp add: unat_of_nat)

lemma buf_append_str_data:
  assumes "buf_ok b" "length s < 2 ^ 16"
  obtains b' where "buf_append_str s b = Some b'" "b_data b' = b_data b @ str_bytes s" "buf_ok b'"
proof -
  obtain b1 where b1: "buf_append_be16 (word_of_nat (length s)) b = Some b1"
    "b_data b1 = b_data b @ write_be16 (word_of_nat (length s))" "buf_ok b1"
    using buf_append_some [OF assms(1)] unfolding buf_append_be16_def by metis
  obtain b2 where "buf_append (of_chars s) b1 = Some b2" "b_data b2 = b_data b1 @ of_chars s" "buf_ok b2"
    using buf_append_some [OF b1(3)] by metis
  then show thesis using b1 assms(2) by (intro that) (auto simp: buf_append_str_def str_bytes_def)
qed

lemma append_entry_data:
  assumes "buf_ok b" "length name < 2 ^ 16"
  obtains b' where "append_entry name ty d seed b = Some b'" "b_data b' = b_data b @ entry_bytes name ty d seed" "buf_ok b'"
proof -
  obtain b1 where b1: "buf_append_str name b = Some b1" "b_data b1 = b_data b @ str_bytes name" "buf_ok b1"
    using buf_append_str_data [OF assms] .
  obtain b2 where b2: "buf_append [ty] b1 = Some b2" "b_data b2 = b_data b1 @ [ty]" "buf_ok b2"
    using buf_append_some [OF b1(3)] .
  obtain b3 where b3: "buf_append_be32 (word_of_nat (length d + 4)) b2 = Some b3"
    "b_data b3 = b_data b2 @ write_be32 (word_of_nat (length d + 4))" "buf_ok b3"
    using buf_append_some [OF b2(3)] unfolding buf_append_be32_def by metis
  obtain b4 where b4: "buf_append (encode_buffer d seed @ write_be32 (seed XOR SGR_MAGIC)) b3 = Some b4"
    "b_data b4 = b_data b3 @ encode_buffer d seed @ write_be32 (seed XOR SGR_MAGIC)" "buf_ok b4"
    using buf_append_some [OF b3(3)] .
  have "append_entry name ty d seed b = Some b4"
    using b1(1) b2(1) b3(1) b4(1) unfolding append_entry_def buf_append_str_def Let_def
    by (auto simp: Option.bind_eq_Some_conv)
  then show thesis using b1 b2 b3 b4 by (intro that [of b4]) (auto simp: entry_bytes_def)
qed

section \<open>One entry\<close>

lemma c_text_of_chars: "NUL \<notin> set s \<Longrightarrow> c_text (of_chars s) = s"
proof -
  assume "NUL \<notin> set s"
  then have "\<forall>c \<in> set s. (of_char c :: u8) \<noteq> 0"
    using byte_zero by metis
  then have "takeWhile (\<lambda>b. b \<noteq> 0) (of_chars s) = of_chars s"
    by (subst takeWhile_eq_all_conv) (auto simp: of_chars_def)
  then show ?thesis unfolding c_text_def c_bytes_def by (simp only: chars_bytes)
qed

lemma read_be16_length: "read_be16 (write_be16 w) = w" "read_be32 (write_be32 v) = v"
  using read_write_be16 [of w "[]"] read_write_be32 [of v "[]"] by simp_all

lemma header_string_bytes:
  assumes "length s \<le> 255" "NUL \<notin> set s"
  shows "header_string (str_bytes s @ rest) = Some (s, rest)"
  using assms by (auto simp: header_string_def str_bytes_def Let_def c_text_of_chars)

lemma next_entry_bytes:
  assumes "name \<noteq> []" "length name \<le> 2000" "NUL \<notin> set name" "d \<noteq> []" "length d + 4 < 2 ^ 32"
  shows "next_entry (entry_bytes name ty d seed @ rest) = Some ((name, ty, d), rest)"
proof -
  let ?enc = "encode_buffer d seed @ write_be32 (seed XOR SGR_MAGIC)"
  have enc: "length (encode_buffer d seed) = length d" by (simp add: encode_buffer_def)
  have name: "unat (word_of_nat (length name) :: u16) = length name" using assms(2) by (intro unat_length16) simp
  have sz: "unat (word_of_nat (length d + 4) :: u32) = length d + 4" using assms(5) by (rule unat_length32)
  have dec: "take (length d) (decode_buffer ?enc) = d" by (simp add: decode_encode_buffer)
  show ?thesis using assms(1-4)
    by (simp add: next_entry_def entry_bytes_def str_bytes_def Let_def name sz enc dec c_text_of_chars
        del: of_nat_add)
qed

section \<open>The whole archive\<close>

text \<open>The entries of an archive, with the data each has, and the bytes they become.\<close>

fun entries_bytes :: "(nat \<Rightarrow> u32) \<Rightarrow> nat \<Rightarrow> (cstr \<times> u8 \<times> u8 list) list \<Rightarrow> u8 list" where
  "entries_bytes seeds i [] = []"
| "entries_bytes seeds i ((name, ty, d) # es) = entry_bytes name ty d (seeds i) @ entries_bytes seeds (i + 1) es"

fun entry_ok :: "cstr \<times> u8 \<times> u8 list \<Rightarrow> bool" where
  "entry_ok (name, ty, d) \<longleftrightarrow>
     name \<noteq> [] \<and> length name \<le> 2000 \<and> NUL \<notin> set name \<and> d \<noteq> [] \<and> length d + 4 < 2 ^ 32"

definition write_entries :: "'fs file_system \<Rightarrow> cstr \<Rightarrow> (cstr \<times> u8 \<times> u8 list) list \<Rightarrow> 'fs \<Rightarrow> 'fs" where
  "write_entries F out_dir es fs = fold (\<lambda>(name, ty, d). write_file F out_dir name d) es fs"

lemma extract_entries_bytes:
  "list_all entry_ok es \<Longrightarrow>
   extract_entries F out_dir (entries_bytes seeds i es) (fs, man, n) =
     (write_entries F out_dir es fs, man @ concat (map (\<lambda>(name, ty, d). entry_line name ty) es), n + length es)"
proof (induction es arbitrary: i fs man n)
  case Nil
  then show ?case by (simp add: extract_entries.simps [of F out_dir] next_entry_def write_entries_def)
next
  case (Cons e es)
  obtain name ty d where e: "e = (name, ty, d)" by (cases e)
  have "next_entry (entries_bytes seeds i (e # es)) = Some ((name, ty, d), entries_bytes seeds (i + 1) es)"
    using Cons.prems by (simp add: e next_entry_bytes)
  then show ?case
    using Cons.prems by (subst extract_entries.simps) (simp add: Cons.IH e write_entries_def del: entries_bytes.simps)
qed

text \<open>The entries of a manifest with the data of their files.\<close>

fun with_data :: "'fs file_system \<Rightarrow> 'fs \<Rightarrow> cstr \<Rightarrow> (cstr \<times> u8) list \<Rightarrow> (cstr \<times> u8 \<times> u8 list) list" where
  "with_data F fs in_dir [] = []"
| "with_data F fs in_dir ((name, ty) # es) =
    (case read_entry F fs in_dir name of None \<Rightarrow> [] | Some d \<Rightarrow> (name, ty, d) # with_data F fs in_dir es)"

lemma append_entries_data:
  assumes "append_entries F rand fs in_dir i es b = Inr b'" "buf_ok b" "\<forall>(name, ty) \<in> set es. length name < 2 ^ 16"
  shows "b_data b' = b_data b @ entries_bytes (rand_seed rand 1) i (with_data F fs in_dir es) \<and> buf_ok b' \<and>
    map (\<lambda>(name, ty, d). (name, ty)) (with_data F fs in_dir es) = es"
  using assms
proof (induction es arbitrary: i b)
  case (Cons e es)
  obtain name ty where e: "e = (name, ty)" by (cases e)
  obtain d where d: "read_entry F fs in_dir name = Some d"
    using Cons.prems(1) by (auto simp: e split: option.splits)
  obtain b1 where b1: "append_entry name ty d (rand_seed rand 1 i) b = Some b1"
    "b_data b1 = b_data b @ entry_bytes name ty d (rand_seed rand 1 i)" "buf_ok b1"
    using append_entry_data [OF Cons.prems(2), of name ty d "rand_seed rand 1 i"] Cons.prems(3) e by auto
  show ?case using Cons.IH [of "i + 1" b1] Cons.prems b1 by (simp add: e d)
qed simp

lemma append_entries_no_diverge:
  assumes "buf_ok b" "\<forall>(name, ty) \<in> set es. length name < 2 ^ 16"
  shows "append_entries F rand fs in_dir i es b \<noteq> Inl Buffer_Diverges"
  using assms
proof (induction es arbitrary: i b)
  case (Cons e es)
  obtain name ty where e: "e = (name, ty)" by (cases e)
  show ?case
  proof (cases "read_entry F fs in_dir name")
    case (Some d)
    obtain b1 where "append_entry name ty d (rand_seed rand 1 i) b = Some b1" "buf_ok b1"
      using append_entry_data [OF Cons.prems(1), of name ty d "rand_seed rand 1 i"] Cons.prems(2) e by auto
    then show ?thesis using Cons.IH [of b1] Cons.prems by (simp add: e Some)
  qed (simp add: e)
qed simp

text \<open>What the manifest of an archive satisfies: the sizes of the arrays the tool keeps, and C strings.\<close>

definition manifest_ok :: "manifest \<Rightarrow> bool" where
  "manifest_ok m \<longleftrightarrow>
     (\<forall>s \<in> {m_title m, m_dev m, m_root m}. length s \<le> 255 \<and> NUL \<notin> set s) \<and>
     length (m_entries m) \<le> MAX_ENTRIES \<and> (\<forall>(name, ty) \<in> set (m_entries m). length name < MAX_NAME \<and> NUL \<notin> set name)"

lemma names_short: "manifest_ok m \<Longrightarrow> \<forall>(name, ty) \<in> set (m_entries m). length name < 2 ^ 16"
  by (fastforce simp: manifest_ok_def MAX_NAME_def)

lemma header_built:
  assumes "manifest_ok m"
  obtains b where "Option.bind (buf_append_str (m_title m) buf_init) (\<lambda>b.
          Option.bind (buf_append_str (m_dev m) b) (buf_append_str (m_root m))) = Some b" "buf_ok b"
    "b_data b = str_bytes (m_title m) @ str_bytes (m_dev m) @ str_bytes (m_root m)"
proof -
  have len: "length (m_title m) < 2 ^ 16" "length (m_dev m) < 2 ^ 16" "length (m_root m) < 2 ^ 16"
    using assms by (auto simp: manifest_ok_def)
  obtain b1 where b1: "buf_append_str (m_title m) buf_init = Some b1" "b_data b1 = b_data buf_init @ str_bytes (m_title m)" "buf_ok b1"
    using buf_append_str_data [OF buf_init_ok(1) len(1)] .
  obtain b2 where b2: "buf_append_str (m_dev m) b1 = Some b2" "b_data b2 = b_data b1 @ str_bytes (m_dev m)" "buf_ok b2"
    using buf_append_str_data [OF b1(3) len(2)] .
  obtain b3 where b3: "buf_append_str (m_root m) b2 = Some b3" "b_data b3 = b_data b2 @ str_bytes (m_root m)" "buf_ok b3"
    using buf_append_str_data [OF b2(3) len(3)] .
  show thesis by (rule that [of b3]) (use b1 b2 b3 in simp_all)
qed

lemma extract_header_bytes:
  assumes "manifest_ok m"
  shows "extract_header (str_bytes (m_title m) @ str_bytes (m_dev m) @ str_bytes (m_root m) @ rest) =
    Some ((m_title m, m_dev m, m_root m), rest)"
  using assms by (simp add: extract_header_def header_string_bytes manifest_ok_def)

lemma build_archive_data:
  assumes "build_archive F rand fs in_dir m = Inr b" "manifest_ok m"
  shows "b_data b = str_bytes (m_title m) @ str_bytes (m_dev m) @ str_bytes (m_root m) @
      entries_bytes (rand_seed rand 1) 0 (with_data F fs in_dir (m_entries m))"
    and "map (\<lambda>(name, ty, d). (name, ty)) (with_data F fs in_dir (m_entries m)) = m_entries m"
proof -
  obtain b0 where b0: "Option.bind (buf_append_str (m_title m) buf_init) (\<lambda>b.
          Option.bind (buf_append_str (m_dev m) b) (buf_append_str (m_root m))) = Some b0" "buf_ok b0"
    "b_data b0 = str_bytes (m_title m) @ str_bytes (m_dev m) @ str_bytes (m_root m)"
    using header_built [OF assms(2)] .
  then have "append_entries F rand fs in_dir 0 (m_entries m) b0 = Inr b"
    using assms(1) by (simp add: build_archive_def)
  note r = append_entries_data [OF this b0(2) names_short [OF assms(2)]]
  show "b_data b = str_bytes (m_title m) @ str_bytes (m_dev m) @ str_bytes (m_root m) @
      entries_bytes (rand_seed rand 1) 0 (with_data F fs in_dir (m_entries m))"
    and "map (\<lambda>(name, ty, d). (name, ty)) (with_data F fs in_dir (m_entries m)) = m_entries m"
    using r b0(3) by auto
qed

section \<open>The manifest\<close>

definition print_manifest :: "manifest \<Rightarrow> cstr" where
  "print_manifest m = header_lines (m_title m) (m_dev m) (m_root m) @
    concat (map (\<lambda>(name, ty). entry_line name ty) (m_entries m))"

lemma atoi_dec_digits: "n < 2 ^ 63 \<Longrightarrow> atoi (dec_digits n @ TAB # rest) = int n"
proof -
  assume n: "n < 2 ^ 63"
  obtain c s where cs: "dec_digits n = c # s" "is_digit c" using dec_digits_ok [of n] by (cases "dec_digits n") auto
  have at: "at0 (dec_digits n @ TAB # rest) 0 = c" by (simp add: cs)
  have sp: "dropWhile isspace (dec_digits n @ TAB # rest) = dec_digits n @ TAB # rest"
    using cs by simp
  have tw: "takeWhile is_digit (dec_digits n @ TAB # rest) = dec_digits n"
    using dec_digits_ok [of n] by (subst takeWhile_append) (auto simp: list_all_iff is_digit_def code_def)
  show ?thesis using n dec_digits_ok [of n] cs(2)
    unfolding atoi_def Let_def sp at by (simp add: tw)
qed

text \<open>Text that a line can hold: no newline, and no carriage return at the end.\<close>

definition line_text :: "cstr \<Rightarrow> bool" where
  "line_text s \<longleftrightarrow> NL \<notin> set s \<and> NUL \<notin> set s \<and> (s = [] \<or> last s \<noteq> CR)"

lemma strip_eol_line:
  assumes "line_text s"
  shows "strip_eol ((p @ [TAB] @ s) @ [NL]) = p @ [TAB] @ s"
proof (cases s rule: rev_cases)
  case (snoc t c)
  then show ?thesis using assms by (auto simp: strip_eol_def line_text_def)
qed (simp add: strip_eol_def)

lemma split_tab: "TAB \<notin> set a \<Longrightarrow> split_at TAB (a @ TAB # b) = Some (a, b)"
  by (induction a) (auto simp: split_at_def)

lemma manifest_line_fields:
  assumes "line_text s" "length s \<le> 255"
  shows "manifest_line ((''TITLE'' @ [TAB] @ s) @ [NL]) m = m\<lparr>m_title := s\<rparr>"
    "manifest_line ((''DEV'' @ [TAB] @ s) @ [NL]) m = m\<lparr>m_dev := s\<rparr>"
    "manifest_line ((''ROOT'' @ [TAB] @ s) @ [NL]) m = m\<lparr>m_root := s\<rparr>"
  using assms unfolding manifest_line_def Let_def strip_eol_line [OF assms(1)]
  by (simp_all add: starts_with_def)

lemma unat_byte: "unat (b :: u8) < 256"
  using unsigned_less [of b] by simp

lemma manifest_line_entry:
  assumes "line_text name" "length name < MAX_NAME" "length (m_entries m) < MAX_ENTRIES"
  shows "manifest_line ((''ENTRY'' @ [TAB] @ dec_digits (unat ty) @ [TAB] @ name) @ [NL]) m =
    m\<lparr>m_entries := m_entries m @ [(name, ty)]\<rparr>"
proof -
  have eol: "strip_eol ((''ENTRY'' @ [TAB] @ dec_digits (unat ty) @ [TAB] @ name) @ [NL]) =
      ''ENTRY'' @ [TAB] @ dec_digits (unat ty) @ [TAB] @ name"
    using strip_eol_line [OF assms(1), of "''ENTRY'' @ [TAB] @ dec_digits (unat ty)"] by simp
  have tab: "split_at TAB (dec_digits (unat ty) @ TAB # name) = Some (dec_digits (unat ty), name)"
    by (rule split_tab [OF dec_digits_not(1)])
  have "unat ty < 2 ^ 63" using unat_byte [of ty] by simp
  then show ?thesis using assms(2,3) unfolding manifest_line_def Let_def eol
    by (simp add: starts_with_def tab atoi_dec_digits)
qed

lemma print_manifest_lines:
  "print_manifest m = concat (with_nl ([''TITLE'' @ [TAB] @ m_title m, ''DEV'' @ [TAB] @ m_dev m, ''ROOT'' @ [TAB] @ m_root m] @
     map (\<lambda>(name, ty). ''ENTRY'' @ [TAB] @ dec_digits (unat ty) @ [TAB] @ name) (m_entries m)))"
  by (simp add: print_manifest_def header_lines_def entry_line_def comp_def split_def)

lemma dec_digits_byte: "n < 1000 \<Longrightarrow> length (dec_digits n) \<le> 3"
  by (subst dec_digits.simps, subst dec_digits.simps, subst dec_digits.simps) auto

definition manifest_text :: "manifest \<Rightarrow> bool" where
  "manifest_text m \<longleftrightarrow> line_text (m_title m) \<and> line_text (m_dev m) \<and> line_text (m_root m) \<and>
     (\<forall>(name, ty) \<in> set (m_entries m). line_text name)"

lemma entry_lines_read:
  assumes "length (m_entries m) + length es \<le> MAX_ENTRIES" "\<forall>(name, ty) \<in> set es. line_text name \<and> length name < MAX_NAME"
  shows "fold manifest_line (with_nl (map (\<lambda>(name, ty). ''ENTRY'' @ [TAB] @ dec_digits (unat ty) @ [TAB] @ name) es)) m =
    m\<lparr>m_entries := m_entries m @ es\<rparr>"
  using assms
proof (induction es arbitrary: m)
  case (Cons e es)
  obtain name ty where e: "e = (name, ty)" by (cases e)
  have "manifest_line ((''ENTRY'' @ [TAB] @ dec_digits (unat ty) @ [TAB] @ name) @ [NL]) m =
      m\<lparr>m_entries := m_entries m @ [e]\<rparr>"
    using Cons.prems manifest_line_entry [of name m ty] by (simp add: e)
  then show ?case using Cons.IH [of "m\<lparr>m_entries := m_entries m @ [e]\<rparr>"] Cons.prems by (simp add: e)
qed simp

lemma entry_line_ok:
  assumes "line_text name" "length name < MAX_NAME"
  shows "NL \<notin> set (dec_digits (unat (ty :: u8)) @ [TAB] @ name)" "NUL \<notin> set (dec_digits (unat ty) @ [TAB] @ name)"
    "length (dec_digits (unat ty) @ [TAB] @ name) \<le> 600"
proof -
  have "unat ty < 1000" using unat_byte [of ty] by simp
  then show "length (dec_digits (unat ty) @ [TAB] @ name) \<le> 600"
    using assms(2) dec_digits_byte [of "unat ty"] by (simp add: MAX_NAME_def)
  show "NL \<notin> set (dec_digits (unat ty) @ [TAB] @ name)" "NUL \<notin> set (dec_digits (unat ty) @ [TAB] @ name)"
    using assms(1) by (auto simp: line_text_def dec_digits_not)
qed

lemma strip_eol_no_nul: "NUL \<notin> set s \<Longrightarrow> NUL \<notin> set (strip_eol s)"
  by (auto simp: strip_eol_def dest: set_dropWhileD)

lemma split_at_after: "split_at c s = Some (a, b) \<Longrightarrow> set b \<subseteq> set s"
  by (auto simp: split_at_def split: if_splits dest!: in_set_dropD set_dropWhileD)

lemma manifest_line_ok:
  assumes "manifest_ok m" "NUL \<notin> set l"
  shows "manifest_ok (manifest_line l m)"
proof -
  have l: "\<And>n. NUL \<notin> set (take 255 (drop n (strip_eol l)))" "NUL \<notin> set (drop 6 (strip_eol l))"
    using strip_eol_no_nul [OF assms(2)] by (auto dest: in_set_takeD in_set_dropD)
  moreover have "NUL \<notin> set b" if "split_at TAB (drop 6 (strip_eol l)) = Some (a, b)" for a b
    using split_at_after [OF that] l(2) by auto
  ultimately show ?thesis
    using assms(1) by (auto simp: manifest_ok_def manifest_line_def Let_def MAX_NAME_def
        split: option.split dest: in_set_takeD)
qed

lemma fgets_no_nul: "l \<in> set (fgets_lines k s) \<Longrightarrow> NUL \<notin> set l"
proof (induction k s rule: fgets_lines.induct)
  case (2 k c s)
  obtain a b where p: "fgets_piece (Suc k) (c # s) = (a, b)" by fastforce
  then show ?case using 2 by (auto simp del: fgets_piece.simps dest: set_takeWhileD)
qed simp

lemma fold_manifest_ok: "manifest_ok m \<Longrightarrow> \<forall>l \<in> set ls. NUL \<notin> set l \<Longrightarrow> manifest_ok (fold manifest_line ls m)"
  by (induction ls arbitrary: m) (auto intro: manifest_line_ok)

lemma manifest_reads_ok: "manifest_ok (read_manifest content)"
  unfolding read_manifest_def
  by (rule fold_manifest_ok) (auto simp: manifest_ok_def dest: fgets_no_nul)

section \<open>The promises of the tools\<close>

text \<open>C40: Whatever the manifest file contains, the tables that \<^verbatim>\<open>sgr_repack\<close> reads it into are well formed: the
  three header strings fit their arrays of 256 bytes, there are at most 4096 entries, each name fits its 512 bytes,
  and all of them are C strings.\<close>

theorem read_manifest_ok: "manifest_ok (read_manifest content)"
  by (rule manifest_reads_ok)

text \<open>The manifest that \<^verbatim>\<open>sgr_extract\<close> writes is read back by \<^verbatim>\<open>sgr_repack\<close> as it was, if its strings fit
  the reader's arrays and its lines.\<close>

lemma manifest_roundtrip:
  assumes "manifest_ok m" "manifest_text m"
  shows "read_manifest (of_chars (print_manifest m)) = m"
proof -
  let ?h = "[''TITLE'' @ [TAB] @ m_title m, ''DEV'' @ [TAB] @ m_dev m, ''ROOT'' @ [TAB] @ m_root m]"
  let ?e = "map (\<lambda>(name, ty). ''ENTRY'' @ [TAB] @ dec_digits (unat ty) @ [TAB] @ name) (m_entries m)"
  have es: "\<forall>(name, ty) \<in> set (m_entries m). line_text name \<and> length name < MAX_NAME"
    using assms by (auto simp: manifest_ok_def manifest_text_def)
  have "\<forall>l \<in> set (?h @ ?e). NL \<notin> set l \<and> NUL \<notin> set l \<and> length l \<le> 8190"
  proof
    fix l assume "l \<in> set (?h @ ?e)"
    then consider "l \<in> set ?h" | name ty where "(name, ty) \<in> set (m_entries m)"
      "l = ''ENTRY'' @ [TAB] @ dec_digits (unat ty) @ [TAB] @ name" by auto
    then show "NL \<notin> set l \<and> NUL \<notin> set l \<and> length l \<le> 8190"
    proof cases
      case 1
      then show ?thesis using assms by (auto simp: manifest_ok_def manifest_text_def line_text_def)
    next
      case 2
      then show ?thesis using es entry_line_ok [of name ty] by auto
    qed
  qed
  then have "fgets_lines 8190 (print_manifest m) = with_nl (?h @ ?e)"
    unfolding print_manifest_lines by (rule fgets_lines_print)
  moreover have "fold manifest_line (with_nl ?e) (m\<lparr>m_entries := []\<rparr>) = m"
    using assms(1) es by (subst entry_lines_read) (auto simp: manifest_ok_def)
  moreover have "fold manifest_line (with_nl ?h) \<lparr>m_title = [], m_dev = [], m_root = [], m_entries = []\<rparr> = m\<lparr>m_entries := []\<rparr>"
    using assms by (simp add: manifest_line_fields [simplified] manifest_ok_def manifest_text_def)
  ultimately show ?thesis by (simp add: read_manifest_def)
qed

text \<open>Repacking terminates: the loop that doubles the capacity of the archive's buffer always ends, with room
  for what is appended, whatever the manifest and the files contain.\<close>

lemma repack_terminates: "sgr_repack_main F compress rand now in_dir out_path fs \<noteq> Inl Buffer_Diverges"
proof -
  have "build_archive F rand fs in_dir m \<noteq> Inl Buffer_Diverges" if ok: "manifest_ok m" for m
  proof -
    obtain b where "Option.bind (buf_append_str (m_title m) buf_init) (\<lambda>b.
          Option.bind (buf_append_str (m_dev m) b) (buf_append_str (m_root m))) = Some b" "buf_ok b"
      using header_built [OF ok] by metis
    then show ?thesis
      using append_entries_no_diverge [OF _ names_short [OF ok], of b F rand fs in_dir 0]
      by (simp add: build_archive_def)
  qed
  from this [OF manifest_reads_ok] show ?thesis
    by (auto simp: sgr_repack_main_def repack_archive_def Let_def split: option.splits sum.splits)
qed

text \<open>The size of an archive before compression, which the outer header gives in 32 bits.\<close>

definition archive_size :: "manifest \<Rightarrow> (cstr \<times> u8 \<times> u8 list) list \<Rightarrow> nat" where
  "archive_size m es = 6 + length (m_title m) + length (m_dev m) + length (m_root m) +
     sum_list (map (\<lambda>(name, ty, d). 11 + length name + length d) es)"

lemma entries_bytes_length:
  "length (entries_bytes seeds i es) = sum_list (map (\<lambda>(name, ty, d). 11 + length name + length d) es)"
  by (induction es arbitrary: i) (auto simp: entry_bytes_def str_bytes_def encode_buffer_def)

lemma append_entries_succeeds:
  assumes "\<forall>(name, ty) \<in> set es. length name < 2 ^ 16 \<and> read_entry F fs in_dir name \<noteq> None" "buf_ok b"
  shows "\<exists>b'. append_entries F rand fs in_dir i es b = Inr b'"
  using assms
proof (induction es arbitrary: i b)
  case (Cons e es)
  obtain name ty where e: "e = (name, ty)" by (cases e)
  then obtain d where d: "read_entry F fs in_dir name = Some d" using Cons.prems(1) by auto
  obtain b1 where "append_entry name ty d (rand_seed rand 1 i) b = Some b1" "buf_ok b1"
    using append_entry_data [OF Cons.prems(2), of name ty d "rand_seed rand 1 i"] Cons.prems(1) e by auto
  then show ?case using Cons.IH [of b1 "i + 1"] Cons.prems by (simp add: e d)
qed simp

lemma build_archive_succeeds:
  assumes "manifest_ok m" "\<forall>(name, ty) \<in> set (m_entries m). read_entry F fs in_dir name \<noteq> None"
  obtains b where "build_archive F rand fs in_dir m = Inr b"
proof -
  obtain b0 where b0: "Option.bind (buf_append_str (m_title m) buf_init) (\<lambda>b.
          Option.bind (buf_append_str (m_dev m) b) (buf_append_str (m_root m))) = Some b0" "buf_ok b0"
    using header_built [OF assms(1)] by metis
  have "\<forall>(name, ty) \<in> set (m_entries m). length name < 2 ^ 16 \<and> read_entry F fs in_dir name \<noteq> None"
    using names_short [OF assms(1)] assms(2) by auto
  from append_entries_succeeds [OF this b0(2)] show thesis
    using that b0(1) by (fastforce simp: build_archive_def)
qed

lemma with_data_ok:
  assumes "\<forall>(name, ty) \<in> set es. name \<noteq> [] \<and> length name \<le> 2000 \<and> NUL \<notin> set name \<and>
    (\<exists>d. read_entry F fs in_dir name = Some d \<and> d \<noteq> [] \<and> length d + 4 < 2 ^ 32)"
  shows "list_all entry_ok (with_data F fs in_dir es)"
  using assms by (induction es) auto

lemma extract_archive_bytes:
  assumes "manifest_ok m" "list_all entry_ok es" "archive_size m es < 2 ^ 32"
    and "dec = str_bytes (m_title m) @ str_bytes (m_dev m) @ str_bytes (m_root m) @ entries_bytes seeds 0 es"
    and "uncompress (length dec) c = Some dec"
    and "fs_write F (manifest_path out_dir) [] (mkdirs F out_dir fs) = Some fs1"
    and "man = header_lines (m_title m) (m_dev m) (m_root m) @ concat (map (\<lambda>(name, ty, d). entry_line name ty) es)"
  shows "extract_archive F uncompress out_dir
      (encode_buffer (write_be32 (word_of_nat (length dec)) @ c) seed @ write_be32 (seed XOR SGR_MAGIC)) fs =
    Inr (case fs_write F (manifest_path out_dir) (of_chars man) (write_entries F out_dir es fs1) of
           None \<Rightarrow> write_entries F out_dir es fs1 | Some fs2 \<Rightarrow> fs2, length es)"
proof -
  have "length dec = archive_size m es"
    by (simp add: assms(4) archive_size_def entries_bytes_length str_bytes_def)
  then have sz: "unat (word_of_nat (length dec) :: u32) = length dec" using assms(3) by (intro unat_length32) simp
  have "length (encode_buffer (write_be32 (word_of_nat (length dec)) @ c) seed) = length c + 4"
    by (simp add: encode_buffer_def)
  moreover have "extract_header dec = Some ((m_title m, m_dev m, m_root m), entries_bytes seeds 0 es)"
    unfolding assms(4) by (rule extract_header_bytes [OF assms(1)])
  ultimately show ?thesis
    by (simp add: extract_archive_def Let_def decode_encode_buffer sz assms(5,6)
        extract_entries_bytes [OF assms(2)] assms(7))
qed

text \<open>C14: Archives round trip. If every entry of a manifest names a file that can be read, is not empty and fits the
  formats, and zlib gives back what it compressed, then repacking succeeds, and extracting the archive writes every
  entry's data under its name, in order, followed by the manifest that was repacked.\<close>

theorem repack_extract:
  assumes "manifest_ok m"
    and "\<forall>(name, ty) \<in> set (m_entries m). name \<noteq> [] \<and>
      (\<exists>d. read_entry F fs in_dir name = Some d \<and> d \<noteq> [] \<and> length d + 4 < 2 ^ 32)"
    and "archive_size m (with_data F fs in_dir (m_entries m)) < 2 ^ 32"
    and zlib: "\<forall>d. \<exists>c. compress d = Some c \<and> uncompress (length d) c = Some d"
    and "fs_write F' (manifest_path out_dir) [] (mkdirs F' out_dir fs') = Some fs1"
  shows "\<exists>archive. repack_archive F compress rand now in_dir m fs = Inr archive \<and>
    (let fs2 = write_entries F' out_dir (with_data F fs in_dir (m_entries m)) fs1
     in extract_archive F' uncompress out_dir archive fs' =
          Inr (case fs_write F' (manifest_path out_dir) (of_chars (print_manifest m)) fs2 of
                 None \<Rightarrow> fs2 | Some fs3 \<Rightarrow> fs3, length (m_entries m)))"
proof -
  let ?es = "with_data F fs in_dir (m_entries m)"
  have names: "\<forall>(name, ty) \<in> set (m_entries m). length name \<le> 2000 \<and> NUL \<notin> set name"
    using assms(1) by (fastforce simp: manifest_ok_def MAX_NAME_def)
  have ok: "list_all entry_ok ?es" by (rule with_data_ok) (use assms(2) names in fastforce)
  have "\<forall>(name, ty) \<in> set (m_entries m). read_entry F fs in_dir name \<noteq> None" using assms(2) by fastforce
  then obtain b where b: "build_archive F rand fs in_dir m = Inr b" by (rule build_archive_succeeds [OF assms(1)])
  obtain c where c: "compress (b_data b) = Some c" "uncompress (length (b_data b)) c = Some (b_data b)"
    using zlib by blast
  have es: "map (\<lambda>(name, ty, d). (name, ty)) ?es = m_entries m" by (rule build_archive_data(2) [OF b assms(1)])
  then have len: "length ?es = length (m_entries m)" by (metis length_map)
  have "concat (map (\<lambda>(name, ty, d). entry_line name ty) ?es) =
      concat (map (\<lambda>(name, ty). entry_line name ty) (map (\<lambda>(name, ty, d). (name, ty)) ?es))"
    by (simp add: comp_def split_def)
  then have "print_manifest m =
      header_lines (m_title m) (m_dev m) (m_root m) @ concat (map (\<lambda>(name, ty, d). entry_line name ty) ?es)"
    unfolding es print_manifest_def by simp
  note r = extract_archive_bytes [where seed = "rand_seed rand now 0" and uncompress = uncompress,
      OF assms(1) ok assms(3) build_archive_data(1) [OF b assms(1)] c(2) assms(5) this]
  then show ?thesis using b c(1) len by (simp add: repack_archive_def Let_def)
qed

section \<open>An example\<close>

text \<open>A file system that is a function from paths to contents, and an archive of two files stored without
  compression.\<close>

definition example_fs :: "(cstr \<Rightarrow> u8 list option) file_system" where
  "example_fs = \<lparr>fs_reg = \<lambda>f p. f p \<noteq> None, fs_rename = \<lambda>p q f. f(q := f p, p := None), fs_mkdir = \<lambda>p f. f,
     fs_write = \<lambda>p d f. Some (f(p \<mapsto> d)), fs_read = \<lambda>f p. f p\<rparr>"

definition example_manifest :: manifest where
  "example_manifest = \<lparr>m_title = ''Game'', m_dev = ''Dev'', m_root = [],
     m_entries = [(''../main.lua'', 67), (''gfx*'', 255)]\<rparr>"

definition example_files :: "cstr \<Rightarrow> u8 list option" where
  "example_files = [''d/main.lua'' \<mapsto> [1, 2, 3], ''d/gfx__SGR_STAR__'' \<mapsto> [7]]"

lemma example_manifest_ok: "manifest_ok example_manifest" "manifest_text example_manifest"
  by (simp_all add: manifest_ok_def manifest_text_def line_text_def example_manifest_def MAX_ENTRIES_def MAX_NAME_def)

lemma example_reads:
  "read_entry example_fs example_files ''d'' ''../main.lua'' = Some [1, 2, 3]"
  "read_entry example_fs example_files ''d'' ''gfx*'' = Some [7]"
  by (simp_all add: read_entry_def example_fs_def example_files_def disk_name.simps starts_with_def fs_replacement_def)

theorem manifest_roundtrip_witness:
  "read_manifest (of_chars (print_manifest example_manifest)) = example_manifest"
  by (rule manifest_roundtrip [OF example_manifest_ok])

theorem repack_extract_witness:
  "\<exists>archive. repack_archive example_fs Some (\<lambda>s i. s) 5 ''d'' example_manifest example_files = Inr archive \<and>
    extract_archive example_fs (\<lambda>n c. Some c) ''o'' archive Map.empty =
      Inr ([''o/.sgr_manifest'' \<mapsto> of_chars (print_manifest example_manifest), ''o/main.lua'' \<mapsto> [1, 2, 3],
            ''o/gfx__SGR_STAR__'' \<mapsto> [7]], 2)"
proof -
  have es: "with_data example_fs example_files ''d'' (m_entries example_manifest) =
      [(''../main.lua'', 67, [1, 2, 3]), (''gfx*'', 255, [7])]"
    by (simp add: example_manifest_def example_reads)
  have "mkdirs example_fs ''o'' f = f" if "f ''o'' = None" for f
    using that by (simp add: mkdirs_def make_dir_def handle_file_dir_conflict_def example_fs_def)
  then have mk: "fs_write example_fs (manifest_path ''o'') [] (mkdirs example_fs ''o'' Map.empty) = Some [''o/.sgr_manifest'' \<mapsto> []]"
    by (simp add: example_fs_def manifest_path_def)
  have ds: "\<forall>(name, ty) \<in> set (m_entries example_manifest). name \<noteq> [] \<and>
      (\<exists>d. read_entry example_fs example_files ''d'' name = Some d \<and> d \<noteq> [] \<and> length d + 4 < 2 ^ 32)"
    by (simp add: example_manifest_def example_reads)
  have sz: "archive_size example_manifest (with_data example_fs example_files ''d'' (m_entries example_manifest)) < 2 ^ 32"
    unfolding es by (simp add: archive_size_def example_manifest_def)
  have w: "write_entries example_fs ''o'' [(''../main.lua'', 67, [1, 2, 3]), (''gfx*'', 255, [7])] [''o/.sgr_manifest'' \<mapsto> []] =
      [''o/.sgr_manifest'' \<mapsto> [], ''o/main.lua'' \<mapsto> [1, 2, 3], ''o/gfx__SGR_STAR__'' \<mapsto> [7]]"
    by (simp add: write_entries_def write_file_def entry_path_def disk_name.simps starts_with_def fs_replacement_def
        parent_dir_def mkdirs_def make_dir_def handle_file_dir_conflict_def example_fs_def)
  have n: "length (m_entries example_manifest) = 2" by (simp add: example_manifest_def)
  from repack_extract [where rand = "\<lambda>s i. s" and now = 5 and compress = Some and uncompress = "\<lambda>n c. Some c",
      OF example_manifest_ok(1) ds sz _ mk]
  show ?thesis unfolding es w n
    by (simp add: example_fs_def manifest_path_def Let_def fun_upd_twist)
qed

end
