(* ===== verification/Image_Loader.thy ===== *)
theory Image_Loader
  imports Dylib_Correct
begin

text \<open>
  Model of the process start-up of \<^verbatim>\<open>src/src/machismo.c\<close> up to the mapped image: the commpage of
  \<^verbatim>\<open>src/src/commpage.c\<close>, the stack area, the choice of the arm64 slice and \<^verbatim>\<open>load64\<close> of
  \<^verbatim>\<open>src/src/loader.c\<close>, which maps the main executable, and the allocator of the island pool of
  \<^verbatim>\<open>src/src/loader.h\<close>. A call of \<^verbatim>\<open>exit\<close> is the result \<^const>\<open>None\<close>; the code is the one of aarch64.
\<close>

section \<open>Structures\<close>

definition MACHISMO_POOL_PADDING :: u64 where "MACHISMO_POOL_PADDING = 2 * 1024 * 1024"
definition MH_EXECUTE :: u32 where "MH_EXECUTE = 0x2"
definition MH_DYLINKER :: u32 where "MH_DYLINKER = 0x7"
definition MH_PIE :: u32 where "MH_PIE = 0x200000"
definition MH_CIGAM_64 :: u32 where "MH_CIGAM_64 = 0xcffaedfe"
definition LC_UNIXTHREAD :: u32 where "LC_UNIXTHREAD = 0x5"
definition LC_UUID :: u32 where "LC_UUID = 0x1b"
definition LC_MAIN :: u32 where "LC_MAIN = 0x80000028"

record load_results =
  lr_mh :: u64
  lr_entry_point :: u64
  lr_stack_size :: u64
  lr_dyld_all_image_location :: u64
  lr_dyld_all_image_size :: u64
  lr_uuid :: "u8 list"
  lr_vm_addr_max :: u64
  lr_base :: u64
  lr_root_path :: "cstr option"
  lr_stack_top :: u64
  lr_slide :: u64
  lr_lc_main :: bool
  lr_applep :: "u64 list"
  lr_kernfd :: int
  lr_argc :: u64
  lr_envc :: u64
  lr_argv :: "u64 list"
  lr_envp :: "u64 list"
  lr_pool_base :: u64
  lr_pool_size :: u64
  lr_pool_used :: u64

definition machismo_pool_alloc :: "load_results \<Rightarrow> u64 \<Rightarrow> u64 \<times> load_results" where
  "machismo_pool_alloc lr n =
    (let aligned_off = (lr_pool_used lr + 4095) AND NOT 4095
     in if lr_pool_base lr = 0 \<or> aligned_off + n > lr_pool_size lr then (0, lr)
        else (lr_pool_base lr + aligned_off, lr\<lparr>lr_pool_used := aligned_off + n\<rparr>))"

text \<open>What start-up asks the system for: processors, memory, the hardware capabilities and the stack limit (\<^const>\<open>None\<close>
  for an unlimited one).\<close>

record image_env = os_env +
  ie_ncpus :: u8
  ie_nactive :: u8
  ie_memory :: "u64 option"
  ie_hwcap :: u64
  ie_stack_limit :: "u64 option"

section \<open>The commpage\<close>

definition ARM64_COMMPAGE_BASE :: u64 where "ARM64_COMMPAGE_BASE = 0x0000000FFFFFC000"
definition ARM64_COMMPAGE_LENGTH :: u64 where "ARM64_COMMPAGE_LENGTH = 0x4000"

definition store_bytes :: "mem \<Rightarrow> u64 \<Rightarrow> u8 list \<Rightarrow> mem" where
  "store_bytes m a bs = (\<lambda>b. if in_range b a (length bs) then bs ! unat (b - a) else m b)"

text \<open>The capability bits of Linux for arm64 that are looked at. The bits of \<^verbatim>\<open>HWCAP2\<close> the source names are not defined
  by Linux, and their branches not compiled.\<close>

definition hwcap_caps :: "(nat \<times> u64) list" where
  "hwcap_caps = [(9, 0x106), (3, 0x8), (5, 0x10), (6, 0x20), (7, 0x40), (8, 0x80), (20, 0x200)]"

definition commpage_caps :: "u64 \<Rightarrow> u64" where
  "commpage_caps hwcap = fold (\<lambda>(i, c) caps. if bit hwcap i then caps OR c else caps) hwcap_caps 1"

definition page_shift :: "nat \<Rightarrow> u8" where
  "page_shift ps = word_of_nat (length (takeWhile (\<lambda>i. \<not> bit ps i) [0..<64]))"

definition commpage_fields :: "'e image_env_scheme \<Rightarrow> u64 \<Rightarrow> mem \<Rightarrow> mem" where
  "commpage_fields env cp m =
    (let m = store_bytes m cp (replicate (unat ARM64_COMMPAGE_LENGTH) 0);
         m = store_bytes m cp (map of_char ''commpage arm64'' @ [0, 0]);
         m = store m (cp + 0x1e) 2 14;
         m = m(cp + 0x22 := ie_ncpus env);
         m = m(cp + 0x34 := ie_nactive env);
         m = m(cp + 0x35 := ie_ncpus env);
         m = m(cp + 0x36 := ie_ncpus env);
         m = m(cp + 0x2c := page_shift (os_page_size env));
         m = m(cp + 0x2d := page_shift (os_page_size env))
     in case ie_memory env of None \<Rightarrow> m | Some ram \<Rightarrow> store m (cp + 0x38) 8 ram)"

text \<open>The capabilities come last.\<close>

definition fill_commpage :: "'e image_env_scheme \<Rightarrow> u64 \<Rightarrow> mem \<Rightarrow> mem" where
  "fill_commpage env cp m =
    (let caps = commpage_caps (ie_hwcap env)
     in store32 (store (commpage_fields env cp m) (cp + 0x10) 8 caps) (cp + 0x20) (ucast caps))"

definition commpage_setup :: "'e image_env_scheme \<Rightarrow> 'a process_scheme \<Rightarrow> 'a process_scheme" where
  "commpage_setup env st =
    (let (ok, st) = mmap_fixed_anon env ARM64_COMMPAGE_BASE ARM64_COMMPAGE_LENGTH 3 st
     in if \<not> ok then st
        else set_prot ARM64_COMMPAGE_BASE ARM64_COMMPAGE_LENGTH 1
               (st\<lparr>p_mem := fill_commpage env ARM64_COMMPAGE_BASE (p_mem st)\<rparr>))"

definition commpage_address :: u64 where "commpage_address = ARM64_COMMPAGE_BASE"

section \<open>Mapping the executable\<close>

definition setup_space ::
  "'e image_env_scheme \<Rightarrow> load_results \<Rightarrow> 'a process_scheme \<Rightarrow> load_results option \<times> 'a process_scheme" where
  "setup_space env lr st =
    (let st = commpage_setup env st;
         lr = lr\<lparr>lr_stack_top := commpage_address\<rparr>;
         n = (case ie_stack_limit env of Some lim \<Rightarrow> if lim < 4096 * 16 then lim else 4096 * 16 | None \<Rightarrow> 4096 * 16);
         (ok, st) = mmap_fixed_anon env (lr_stack_top lr - n) n 3 st
     in if ok then (Some (lr\<lparr>lr_kernfd := - 1\<rparr>), st) else (None, st))"

text \<open>The first pass over the load commands, without the bound by \<^verbatim>\<open>sizeofcmds\<close>: the address of the first segment and
  the distance from it to the end of the last one.\<close>

fun unbounded_commands :: "mem \<Rightarrow> nat \<Rightarrow> u32 \<Rightarrow> u64 list" where
  "unbounded_commands fm 0 p = []"
| "unbounded_commands fm (Suc n) p =
    (32 + ucast p) # unbounded_commands fm n (p + lc_cmdsize (read_command fm (32 + ucast p)))"

definition image_extent :: "segment_command_64 list \<Rightarrow> u64 \<times> u64" where
  "image_extent segs =
    fold (\<lambda>seg (base, n).
      let base = (if base = - 1 then seg_vmaddr seg else base) in (base, seg_vmaddr seg + seg_vmsize seg - base))
    segs (- 1, 0)"

definition extent_segments :: "mem \<Rightarrow> segment_command_64 list" where
  "extent_segments fm =
     map (read_segment fm) (filter (loadable fm) (unbounded_commands fm (unat (mh_ncmds (read_header fm 0))) 0))"

text \<open>The search of a \<^verbatim>\<open>__DATA\<close> segment's sections, as many as fit before the next command.\<close>

fun find_image_info :: "mem \<Rightarrow> nat \<Rightarrow> u64 \<Rightarrow> section_64 option" where
  "find_image_info fm 0 sect = None"
| "find_image_info fm (Suc n) sect =
    (if cstr_at fm 16 sect = ''__all_image_info'' then Some (read_section fm sect) else find_image_info fm n (sect + 80))"

definition section_count :: "u64 \<Rightarrow> u64 \<Rightarrow> nat" where
  "section_count start stop = (unat stop - unat start + 79) div 80"

text \<open>The second pass keeps, besides the results, the entry point, the flag that it is still relative to the header, and
  the address of the mapped header.\<close>

record load_state =
  ls_entryPoint :: u64
  ls_needs_fixup :: bool
  ls_mappedHeader :: u64
  ls_lr :: load_results

definition load_segment ::
  "'e os_env_scheme \<Rightarrow> u8 list \<Rightarrow> mem \<Rightarrow> u64 \<Rightarrow> u64 \<Rightarrow> u64 \<Rightarrow> load_state \<Rightarrow> 'a process_scheme
     \<Rightarrow> load_state option \<times> 'a process_scheme" where
  "load_segment env bytes fm fat_offset slide lc ls st =
    (let seg = read_segment fm lc; addr = seg_vmaddr seg + slide in
     if mem_str fm (seg_segname seg) = ''__PAGEZERO'' then (Some ls, st)
     else
       let (ok, st) = (if seg_filesize seg < seg_vmsize seg then mmap_fixed_anon env addr (seg_vmsize seg) (use_prot seg) st
                       else (True, st))
       in if \<not> ok then (None, st)
       else
         let (ok, st) = (if seg_filesize seg > 0
                         then mmap_fixed_file env bytes addr (seg_filesize seg) (use_prot seg) (seg_fileoff seg + fat_offset) st
                         else (True, st))
         in if \<not> ok \<and> \<not> (seg_vmaddr seg = 0 \<and> use_prot seg = 0) then (None, st)
         else
           let ls = (if seg_filesize seg > 0 \<and> seg_fileoff seg = 0 then ls\<lparr>ls_mappedHeader := addr\<rparr> else ls);
               lr = ls_lr ls;
               lr = (if addr + seg_vmsize seg > lr_vm_addr_max lr then lr\<lparr>lr_vm_addr_max := addr + seg_vmsize seg\<rparr> else lr);
               cmdsize = lc_cmdsize (read_command fm lc);
               lr = (if mem_str fm (seg_segname seg) = ''__DATA''
                     then case find_image_info fm (section_count (lc + 72) (32 + ucast (ucast (lc - 32) + cmdsize :: u32))) (lc + 72) of
                            None \<Rightarrow> lr
                          | Some sect \<Rightarrow> lr\<lparr>lr_dyld_all_image_location := slide + sec_addr sect,
                                           lr_dyld_all_image_size := sec_size sect\<rparr>
                     else lr)
           in (Some (ls\<lparr>ls_lr := lr\<rparr>), st))"

definition load_main_command :: "mem \<Rightarrow> u64 \<Rightarrow> load_state \<Rightarrow> load_state" where
  "load_main_command fm lc ls =
    (let entryoff = load fm (lc + 8) 8; stacksize = load fm (lc + 16) 8; lr = ls_lr ls;
         lr = (if stacksize > lr_stack_size lr then lr\<lparr>lr_stack_size := stacksize\<rparr> else lr);
         lr = lr\<lparr>lr_lc_main := True\<rparr>
     in if ls_mappedHeader ls \<noteq> 0
        then ls\<lparr>ls_lr := lr, ls_entryPoint := ls_mappedHeader ls + entryoff\<rparr>
        else ls\<lparr>ls_lr := lr\<lparr>lr_stack_size := stacksize\<rparr>, ls_entryPoint := entryoff, ls_needs_fixup := True\<rparr>)"

definition load_one ::
  "'e os_env_scheme \<Rightarrow> u8 list \<Rightarrow> mem \<Rightarrow> u64 \<Rightarrow> u64 \<Rightarrow> u64 \<Rightarrow> load_state \<Rightarrow> 'a process_scheme
     \<Rightarrow> load_state option \<times> 'a process_scheme" where
  "load_one env bytes fm fat_offset slide lc ls st =
    (let cmd = lc_cmd (read_command fm lc) in
     if cmd = LC_SEGMENT_64 then load_segment env bytes fm fat_offset slide lc ls st
     else if cmd = LC_UNIXTHREAD then (Some (ls\<lparr>ls_entryPoint := load fm (lc + 8 * 34) 8 + slide\<rparr>), st)
     else if cmd = LC_MAIN then (Some (load_main_command fm lc ls), st)
     else if cmd = LC_UUID
     then (Some (if mh_filetype (read_header fm 0) = MH_EXECUTE then ls\<lparr>ls_lr := (ls_lr ls)\<lparr>lr_uuid := mem_bytes fm (lc + 8) 16\<rparr>\<rparr>
                 else ls), st)
     else (Some ls, st))"

fun load_cmds ::
  "'e os_env_scheme \<Rightarrow> u8 list \<Rightarrow> mem \<Rightarrow> u64 \<Rightarrow> u64 \<Rightarrow> u64 list \<Rightarrow> load_state \<Rightarrow> 'a process_scheme
     \<Rightarrow> load_state option \<times> 'a process_scheme" where
  "load_cmds env bytes fm fat_offset slide [] ls st = (Some ls, st)"
| "load_cmds env bytes fm fat_offset slide (lc # lcs) ls st =
    (case load_one env bytes fm fat_offset slide lc ls st of
       (None, st) \<Rightarrow> (None, st)
     | (Some ls, st) \<Rightarrow> load_cmds env bytes fm fat_offset slide lcs ls st)"

text \<open>The address range and the pool behind it. The kernel's refusal is the address 0.\<close>

definition page_mask :: "'e os_env_scheme \<Rightarrow> u64" where "page_mask env = of_nat (os_page_size env) - 1"

definition reserve_image ::
  "'e os_env_scheme \<Rightarrow> segment_command_64 list \<Rightarrow> load_results \<Rightarrow> 'a process_scheme \<Rightarrow> (u64 \<times> load_results) option \<times> 'a process_scheme" where
  "reserve_image env segs lr st =
    (let (base, mmapSize) = image_extent segs;
         mmapAligned = (mmapSize + page_mask env) AND NOT (page_mask env);
         totalSize = mmapAligned + MACHISMO_POOL_PADDING;
         (slide, st) = mmap_any env base totalSize st
     in if slide = 0 then (None, st)
        else
          let pool_base = slide + mmapAligned;
              st = set_prot pool_base MACHISMO_POOL_PADDING 7 st;
              lr = lr\<lparr>lr_pool_base := pool_base, lr_pool_size := MACHISMO_POOL_PADDING, lr_pool_used := 0\<rparr>;
              lr = (if slide + totalSize > lr_vm_addr_max lr
                    then lr\<lparr>lr_vm_addr_max := slide + totalSize, lr_base := slide + totalSize\<rparr> else lr)
          in (Some (slide - base, lr), st))"

definition finish_load :: "mem \<Rightarrow> u64 \<Rightarrow> load_state \<Rightarrow> load_results" where
  "finish_load fm slide ls =
    (let lr = (if mh_filetype (read_header fm 0) = MH_EXECUTE
               then (ls_lr ls)\<lparr>lr_mh := ls_mappedHeader ls, lr_slide := slide\<rparr> else ls_lr ls);
         entryPoint = (if ls_needs_fixup ls \<and> ls_mappedHeader ls \<noteq> 0 then ls_mappedHeader ls + ls_entryPoint ls
                       else ls_entryPoint ls)
     in if entryPoint \<noteq> 0 \<and> lr_entry_point lr = 0 then lr\<lparr>lr_entry_point := entryPoint\<rparr> else lr)"

definition load64 ::
  "'e image_env_scheme \<Rightarrow> u8 list \<Rightarrow> u32 \<Rightarrow> bool \<Rightarrow> load_results \<Rightarrow> 'a process_scheme \<Rightarrow> load_results option \<times> 'a process_scheme" where
  "load64 env bytes fat_offset expect_dylinker lr st =
    (case (if expect_dylinker then (Some lr, st) else setup_space env lr st) of
       (None, st) \<Rightarrow> (None, st)
     | (Some lr, st) \<Rightarrow>
       let fm = file_mem bytes (unat fat_offset); header = read_header fm 0 in
       if length bytes < unat fat_offset + 32 then (None, st)
       else if mh_filetype header \<noteq> (if expect_dylinker then MH_DYLINKER else MH_EXECUTE) then (None, st)
       else if \<not> page_aligned (os_page_size env) (unat fat_offset) \<or> \<not> os_fixed env (p_mmaps st)
       then (None, st\<lparr>p_mmaps := p_mmaps st + 1\<rparr>)
       else
         let st = st\<lparr>p_mmaps := p_mmaps st + 1\<rparr> in
         if mh_flags header AND MH_PIE = 0 \<and> mh_filetype header \<noteq> MH_DYLINKER then (None, st)
         else
           case reserve_image env (extent_segments fm) lr st of
             (None, st) \<Rightarrow> (None, st)
           | (Some (slide, lr), st) \<Rightarrow>
             case load_cmds env bytes fm (ucast fat_offset) slide (bounded_commands fm 0)
                    \<lparr>ls_entryPoint = 0, ls_needs_fixup = False, ls_mappedHeader = 0, ls_lr = lr\<rparr> st of
               (None, st) \<Rightarrow> (None, st)
             | (Some ls, st) \<Rightarrow> (Some (finish_load fm slide ls), st))"

section \<open>Choosing the slice\<close>

text \<open>The last architecture of a fat file that is wanted; the headers are read one after the other, and running out of
  file ends the program.\<close>

fun best_arch :: "u8 list \<Rightarrow> bool \<Rightarrow> u32 \<Rightarrow> nat \<Rightarrow> nat \<Rightarrow> (u32 \<times> u32) option \<Rightarrow> (u32 \<times> u32) option option" where
  "best_arch bytes swap wanted 0 off best = Some best"
| "best_arch bytes swap wanted (Suc n) off best =
    (if length bytes < off + 20 then None
     else let fix32 = (\<lambda>w. if swap then bswap32 w else w);
              cputype = fix32 (file32 bytes off)
          in best_arch bytes swap wanted n (off + 20)
               (if cputype = wanted then Some (cputype, fix32 (file32 bytes (off + 8))) else best))"

definition CPU_ARCH_ABI64 :: u32 where "CPU_ARCH_ABI64 = 0x01000000"

definition load_fat ::
  "'e image_env_scheme \<Rightarrow> u8 list \<Rightarrow> u32 \<Rightarrow> bool \<Rightarrow> load_results \<Rightarrow> 'a process_scheme \<Rightarrow> load_results option \<times> 'a process_scheme" where
  "load_fat env bytes forced_arch expect_dylinker lr st =
    (if length bytes < 8 then (None, st)
     else let swap = (file32 bytes 0 = FAT_CIGAM);
              nfat_arch = (if swap then bswap32 (file32 bytes 4) else file32 bytes 4);
              wanted = (if forced_arch = 0 then CPU_TYPE_ARM64 else forced_arch)
     in case best_arch bytes swap wanted (unat nfat_arch) 8 None of
          None \<Rightarrow> (None, st)
        | Some None \<Rightarrow> (None, st)
        | Some (Some (cputype, offset)) \<Rightarrow>
            if cputype = - 1 then (None, st)
            else if cputype AND CPU_ARCH_ABI64 \<noteq> 0 then load64 env bytes offset expect_dylinker lr st
            else (None, st))"

definition load_image ::
  "'e image_env_scheme \<Rightarrow> cstr \<Rightarrow> u32 \<Rightarrow> bool \<Rightarrow> load_results \<Rightarrow> 'a process_scheme \<Rightarrow> load_results option \<times> 'a process_scheme" where
  "load_image env path forced_arch expect_dylinker lr st =
    (case os_file env path of
       None \<Rightarrow> (None, st)
     | Some bytes \<Rightarrow>
       if length bytes < 4 then (None, st)
       else let magic = file32 bytes 0 in
         if magic = MH_MAGIC_64 \<or> magic = MH_CIGAM_64 then load64 env bytes 0 expect_dylinker lr st
         else if magic = FAT_MAGIC \<or> magic = FAT_CIGAM then load_fat env bytes forced_arch expect_dylinker lr st
         else (None, st))"

text \<open>
  Model of \<^verbatim>\<open>src/src/stack.c\<close>, \<^verbatim>\<open>setup_stack64\<close>: the strings of the \<^verbatim>\<open>apple\<close> array below the top of the stack, and
  below them the Mach-O header, the argument count and the three arrays of pointers that a Darwin program
  finds at its start. The address of the table of elf calls and the bytes of the two string buffers behind their
  terminators, which are copied uninitialised, are arguments.
\<close>

definition EXECUTABLE_PATH :: cstr where "EXECUTABLE_PATH = ''executable_path=''"


text \<open>\<^verbatim>\<open>snprintf\<close> into a buffer of \<open>n\<close> bytes that held \<open>junk\<close>.\<close>

definition snprintf_buf :: "nat \<Rightarrow> cstr \<Rightarrow> u8 list \<Rightarrow> u8 list" where
  "snprintf_buf n s junk = take n (of_chars (take (n - 1) s) @ [0] @ junk)"

definition print_int :: "int \<Rightarrow> cstr" where
  "print_int i = (if i < 0 then CHR ''-'' # dec_digits (nat (- i)) else dec_digits (nat i))"

definition user_long_count :: "u64 \<Rightarrow> u64" where "user_long_count v = (v + 7) div 8"

text \<open>The buffer of 4096 bytes ends in a zero that \<^verbatim>\<open>strncpy\<close> does not reach, so a longer path is cut.\<close>

definition executable_path :: "cstr \<Rightarrow> cstr option \<Rightarrow> cstr" where
  "executable_path filepath root_path =
    (let buf = take 4095 filepath
     in case root_path of None \<Rightarrow> buf
        | Some root \<Rightarrow> if starts_with root buf then drop (length root) buf else buf)"

fun put_words :: "mem \<Rightarrow> u64 \<Rightarrow> u64 list \<Rightarrow> mem" where
  "put_words m sp [] = m"
| "put_words m sp (w # ws) = put_words (store m sp 8 w) (sp + 8) ws"

text \<open>The pointers of an array up to a count, or up to a null pointer before it.\<close>

definition pointers :: "u64 list \<Rightarrow> u64 \<Rightarrow> u64 list" where
  "pointers ps n = takeWhile (\<lambda>p. p \<noteq> 0) (map (\<lambda>i. if i < length ps then ps ! i else 0) [0..<unat n])"

definition setup_stack64 :: "u64 \<Rightarrow> u8 list \<Rightarrow> u8 list \<Rightarrow> cstr \<Rightarrow> load_results \<Rightarrow> mem \<Rightarrow> load_results \<times> mem" where
  "setup_stack64 elf_calls junk1 junk2 filepath lr m =
    (let path = executable_path filepath (lr_root_path lr);
         exepath_len = of_nat (length path) :: u64;
         sp = lr_stack_top lr AND NOT 7;
         sp = sp - 8 * (1 + 1 + (lr_argc lr + 1) + (lr_envc lr + 1) + 4 + user_long_count (exepath_len + 17 + 12 + 27));
         exepath_user = lr_stack_top lr - exepath_len - 17;
         m = store_bytes m exepath_user (of_chars EXECUTABLE_PATH);
         m = store_bytes m (exepath_user + 16) (of_chars path @ [0]);
         kernfd_user = exepath_user - 12;
         m = store_bytes m kernfd_user (snprintf_buf 12 (''kernfd='' @ print_int (lr_kernfd lr)) junk1);
         elfcalls_user = kernfd_user - 27;
         m = store_bytes m elfcalls_user (snprintf_buf 27 (''elf_calls='' @ hex_digits (unat elf_calls)) junk2);
         applep = [exepath_user, kernfd_user, elfcalls_user, 0];
         sp = sp AND NOT 15;
         args = pointers (lr_argv lr) (lr_argc lr);
         envs = pointers (lr_envp lr) (lr_envc lr);
         m = put_words m sp ([lr_mh lr, lr_argc lr] @ args @ [0] @ envs @ [0] @ applep)
     in (lr\<lparr>lr_applep := applep, lr_stack_top := sp, lr_argc := of_nat (length args), lr_envc := of_nat (length envs)\<rparr>, m))"

end
