(* ===== verification/Image_Correct.thy ===== *)
theory Image_Correct
  imports Image_Loader
begin

text \<open>
  The main executable after \<^verbatim>\<open>load64\<close>: its segments at the slide, the pool of islands behind them, the header and the entry
  point; and what the allocator of the pool and the commpage hold.
\<close>

section \<open>The extent\<close>

text \<open>The segments the loader relies on: the first is the lowest, the last ends highest, and none is at address 0.\<close>

definition image_ordered :: "segment_command_64 list \<Rightarrow> bool" where
  "image_ordered segs \<longleftrightarrow> segs \<noteq> [] \<and>
    (\<forall>s \<in> set segs. seg_vmaddr s \<noteq> 0 \<and> seg_vmaddr (hd segs) \<le> seg_vmaddr s \<and>
       unat (seg_vmaddr s) + unat (seg_vmsize s) \<le> unat (seg_vmaddr (last segs)) + unat (seg_vmsize (last segs)))"

lemma extent_fold:
  assumes "b \<noteq> - 1"
  shows "fold (\<lambda>seg (base, n). let base = (if base = - 1 then seg_vmaddr seg else base) in (base, seg_vmaddr seg + seg_vmsize seg - base)) segs (b, n) =
    (b, if segs = [] then n else seg_vmaddr (last segs) + seg_vmsize (last segs) - b)"
  using assms by (induction segs arbitrary: n) (auto simp: Let_def)

lemma image_extent_eq:
  assumes "segs \<noteq> []" "seg_vmaddr (hd segs) \<noteq> - 1"
  shows "image_extent segs = (seg_vmaddr (hd segs), seg_vmaddr (last segs) + seg_vmsize (last segs) - seg_vmaddr (hd segs))"
  using assms by (cases segs) (auto simp: image_extent_def extent_fold [unfolded Let_def] Let_def)

section \<open>The segments\<close>

lemma load_segment_mem:
  assumes "load_segment env bytes fm fat slide lc ls st = (Some ls', st')" "0 < os_page_size env"
    and "mem_str fm (seg_segname (read_segment fm lc)) \<noteq> ''__PAGEZERO''" "seg_vmaddr (read_segment fm lc) \<noteq> 0"
  shows "p_mem st' = map_segment (os_page_size env) bytes fat slide (read_segment fm lc) (p_mem st) \<and>
    (0 < seg_vmsize (read_segment fm lc) \<longrightarrow> page_aligned (os_page_size env) (unat (seg_vmaddr (read_segment fm lc) + slide)))"
proof -
  let ?seg = "read_segment fm lc" and ?ps = "os_page_size env"
  let ?a = "seg_vmaddr ?seg + slide"
  obtain ok st1 where 1: "(if seg_filesize ?seg < seg_vmsize ?seg then mmap_fixed_anon env ?a (seg_vmsize ?seg) (use_prot ?seg) st else (True, st)) = (ok, st1)"
    by fastforce
  obtain ok' st2 where 2: "(if seg_filesize ?seg > 0 then mmap_fixed_file env bytes ?a (seg_filesize ?seg) (use_prot ?seg) (seg_fileoff ?seg + fat) st1
      else (True, st1)) = (ok', st2)" by fastforce
  have ok: ok ok' "st' = st2" using assms 1 2 by (auto simp: load_segment_def Let_def split: if_splits)
  have m1: "p_mem st1 = (if seg_filesize ?seg < seg_vmsize ?seg then map_anon ?ps ?a (unat (seg_vmsize ?seg)) (p_mem st) else p_mem st)"
    "seg_filesize ?seg < seg_vmsize ?seg \<Longrightarrow> page_aligned ?ps (unat ?a)"
    using 1 ok by (auto simp: mmap_fixed_anon_def Let_def split: if_splits)
  have m2: "p_mem st2 = (if seg_filesize ?seg > 0 then map_file ?ps bytes ?a (unat (seg_filesize ?seg)) (unat (seg_fileoff ?seg + fat)) (p_mem st1)
      else p_mem st1)" "0 < seg_filesize ?seg \<Longrightarrow> page_aligned ?ps (unat ?a)"
    using 2 ok by (auto simp: mmap_fixed_file_def Let_def split: if_splits)
  have "p_mem st2 b = map_segment ?ps bytes fat slide ?seg (p_mem st) b" for b
  proof (cases "seg_filesize ?seg < seg_vmsize ?seg")
    case True
    then have "0 < seg_vmsize ?seg" by (metis word_neq_0_conv not_less0 word_not_simps(1) order.strict_trans2 word_zero_le)
    with True show ?thesis by (simp add: map_segment_def Let_def m1 m2)
  next
    case False
    then have "unat (seg_vmsize ?seg) \<le> unat (seg_filesize ?seg)" by (simp add: not_less word_le_nat_alt)
    then have "round_up ?ps (unat (seg_vmsize ?seg)) \<le> round_up ?ps (unat (seg_filesize ?seg))" by (rule round_up_mono)
    with False show ?thesis
      by (auto simp: map_segment_def Let_def m1 m2 map_file_def map_anon_def word_neq_0_conv [symmetric] in_range_def)
  qed
  then have "p_mem st2 = map_segment ?ps bytes fat slide ?seg (p_mem st)" by (rule ext)
  moreover have "page_aligned ?ps (unat ?a)" if "0 < seg_vmsize ?seg"
    using m1(2) m2(2) that by (cases "seg_filesize ?seg < seg_vmsize ?seg") (auto intro: order.strict_trans2)
  ultimately show ?thesis using ok(3) by blast
qed

text \<open>The header and the entry point, which depend on the load commands only.\<close>

definition entry_of :: "load_state \<Rightarrow> u64 \<times> bool \<times> u64" where
  "entry_of ls = (ls_entryPoint ls, ls_needs_fixup ls, ls_mappedHeader ls)"

definition header_segment :: "mem \<Rightarrow> u64 \<Rightarrow> bool" where
  "header_segment fm lc \<longleftrightarrow> loadable fm lc \<and> 0 < seg_filesize (read_segment fm lc) \<and> seg_fileoff (read_segment fm lc) = 0"

definition entry_step :: "mem \<Rightarrow> u64 \<Rightarrow> u64 \<Rightarrow> u64 \<times> bool \<times> u64 \<Rightarrow> u64 \<times> bool \<times> u64" where
  "entry_step fm slide lc e =
    (case e of (ep, rel, mh) \<Rightarrow>
      let cmd = lc_cmd (read_command fm lc) in
      if header_segment fm lc then (ep, rel, seg_vmaddr (read_segment fm lc) + slide)
      else if cmd = LC_UNIXTHREAD then (load fm (lc + 8 * 34) 8 + slide, rel, mh)
      else if cmd = LC_MAIN then (if mh \<noteq> 0 then (mh + load fm (lc + 8) 8, rel, mh) else (load fm (lc + 8) 8, True, mh))
      else e)"

text \<open>What a load command leaves alone in the results.\<close>

definition kept :: "load_results \<Rightarrow> load_results \<Rightarrow> bool" where
  "kept lr lr' \<longleftrightarrow> lr_entry_point lr' = lr_entry_point lr \<and> lr_stack_top lr' = lr_stack_top lr \<and>
     lr_pool_base lr' = lr_pool_base lr \<and> lr_pool_size lr' = lr_pool_size lr \<and> lr_pool_used lr' = lr_pool_used lr \<and>
     (lr_lc_main lr \<longrightarrow> lr_lc_main lr')"

lemma kept_refl [simp]: "kept lr lr" by (simp add: kept_def)

lemma kept_trans: "kept a b \<Longrightarrow> kept b c \<Longrightarrow> kept a c" by (simp add: kept_def)

lemma load_segment_entry:
  assumes "load_segment env bytes fm fat slide lc ls st = (Some ls', st')" "lc_cmd (read_command fm lc) = LC_SEGMENT_64"
  shows "entry_of ls' = entry_step fm slide lc (entry_of ls) \<and> kept (ls_lr ls) (ls_lr ls')"
proof -
  have "load32 fm lc = LC_SEGMENT_64" using assms(2) by (simp add: read_command_def)
  then show ?thesis using assms
    by (auto simp: load_segment_def entry_of_def entry_step_def header_segment_def loadable_def Let_def kept_def
        LC_SEGMENT_64_def LC_UNIXTHREAD_def LC_MAIN_def split: if_splits prod.splits option.splits)
qed

lemma loadable_segment: "loadable fm lc \<Longrightarrow> lc_cmd (read_command fm lc) = LC_SEGMENT_64"
  by (simp add: loadable_def read_command_def)

lemma load_one_entry:
  assumes "load_one env bytes fm fat slide lc ls st = (Some ls', st')"
  shows "entry_of ls' = entry_step fm slide lc (entry_of ls)" "kept (ls_lr ls) (ls_lr ls')"
    "lc_cmd (read_command fm lc) = LC_MAIN \<Longrightarrow> lr_lc_main (ls_lr ls')"
proof -
  have "entry_of ls' = entry_step fm slide lc (entry_of ls) \<and> kept (ls_lr ls) (ls_lr ls') \<and>
    (lc_cmd (read_command fm lc) = LC_MAIN \<longrightarrow> lr_lc_main (ls_lr ls'))"
  proof (cases "lc_cmd (read_command fm lc) = LC_SEGMENT_64")
    case True
    then show ?thesis using load_segment_entry [OF _ True, of env bytes fat slide ls st ls' st'] assms
      by (simp add: load_one_def LC_SEGMENT_64_def LC_MAIN_def)
  next
    case False
    then have "\<not> header_segment fm lc" using loadable_segment by (auto simp: header_segment_def)
    with False show ?thesis using assms
      by (auto simp: load_one_def entry_of_def entry_step_def load_main_command_def Let_def kept_def
          LC_UNIXTHREAD_def LC_MAIN_def LC_UUID_def split: if_splits)
  qed
  then show "entry_of ls' = entry_step fm slide lc (entry_of ls)" "kept (ls_lr ls) (ls_lr ls')"
    "lc_cmd (read_command fm lc) = LC_MAIN \<Longrightarrow> lr_lc_main (ls_lr ls')" by blast+
qed

lemma load_one_mem:
  assumes "load_one env bytes fm fat slide lc ls st = (Some ls', st')" "0 < os_page_size env"
    and "loadable fm lc \<Longrightarrow> seg_vmaddr (read_segment fm lc) \<noteq> 0"
  shows "p_mem st' = (if loadable fm lc then map_segment (os_page_size env) bytes fat slide (read_segment fm lc) (p_mem st) else p_mem st) \<and>
    (loadable fm lc \<and> 0 < seg_vmsize (read_segment fm lc) \<longrightarrow>
      page_aligned (os_page_size env) (unat (seg_vmaddr (read_segment fm lc) + slide)))"
proof (cases "loadable fm lc")
  case True
  then show ?thesis
    using load_segment_mem [of env bytes fm fat slide lc ls st ls' st'] assms loadable_segment [OF True]
    by (simp add: load_one_def loadable_def)
next
  case False
  then have "lc_cmd (read_command fm lc) \<noteq> LC_SEGMENT_64 \<or> mem_str fm (seg_segname (read_segment fm lc)) = ''__PAGEZERO''"
    by (auto simp: loadable_def read_command_def)
  with False show ?thesis using assms(1)
    by (auto simp: load_one_def load_segment_def Let_def split: if_splits)
qed

lemma load_cmds_effect:
  assumes "load_cmds env bytes fm fat slide lcs ls st = (Some ls', st')" "0 < os_page_size env"
    and "\<forall>lc \<in> set lcs. loadable fm lc \<longrightarrow> seg_vmaddr (read_segment fm lc) \<noteq> 0"
  shows "p_mem st' = fold (map_segment (os_page_size env) bytes fat slide) (map (read_segment fm) (filter (loadable fm) lcs)) (p_mem st) \<and>
    (\<forall>lc \<in> set lcs. loadable fm lc \<and> 0 < seg_vmsize (read_segment fm lc) \<longrightarrow>
      page_aligned (os_page_size env) (unat (seg_vmaddr (read_segment fm lc) + slide))) \<and>
    entry_of ls' = fold (entry_step fm slide) lcs (entry_of ls) \<and> kept (ls_lr ls) (ls_lr ls') \<and>
    ((\<exists>lc \<in> set lcs. lc_cmd (read_command fm lc) = LC_MAIN) \<longrightarrow> lr_lc_main (ls_lr ls'))"
  using assms
proof (induction lcs arbitrary: ls st)
  case Nil
  then show ?case by simp
next
  case (Cons lc lcs)
  obtain ls1 st1 where one: "load_one env bytes fm fat slide lc ls st = (Some ls1, st1)"
    and rest: "load_cmds env bytes fm fat slide lcs ls1 st1 = (Some ls', st')"
    using Cons.prems(1) by (auto split: prod.splits option.splits)
  note IH = Cons.IH [OF rest Cons.prems(2)]
  note m = load_one_mem [OF one Cons.prems(2)] and e = load_one_entry [OF one]
  have ne: "loadable fm lc \<Longrightarrow> seg_vmaddr (read_segment fm lc) \<noteq> 0"
    "\<forall>lc \<in> set lcs. loadable fm lc \<longrightarrow> seg_vmaddr (read_segment fm lc) \<noteq> 0" using Cons.prems(3) by simp_all
  have "kept (ls_lr ls) (ls_lr ls')" using kept_trans [OF e(2)] IH [OF ne(2)] by blast
  moreover have "lc_cmd (read_command fm lc) = LC_MAIN \<longrightarrow> lr_lc_main (ls_lr ls')"
    using e(3) IH [OF ne(2)] by (auto simp: kept_def)
  ultimately show ?case using m [OF ne(1)] e(1) IH [OF ne(2)] by (auto split: if_splits)
qed

section \<open>The entry point\<close>

lemma entry_no_main:
  assumes "\<forall>x \<in> set lcs. lc_cmd (read_command fm x) \<notin> {LC_MAIN, LC_UNIXTHREAD}"
    and "\<forall>x \<in> set lcs. header_segment fm x \<longrightarrow> seg_vmaddr (read_segment fm x) + slide = h"
  shows "fold (entry_step fm slide) lcs (ep, rel, mh) = (ep, rel, if \<exists>x \<in> set lcs. header_segment fm x then h else mh)"
  using assms by (induction lcs arbitrary: mh) (auto simp: entry_step_def Let_def)

lemma entry_main:
  assumes "lcs = pre @ lc # post" "lc_cmd (read_command fm lc) = LC_MAIN"
    and "\<forall>x \<in> set pre \<union> set post. lc_cmd (read_command fm x) \<notin> {LC_MAIN, LC_UNIXTHREAD}"
    and "\<forall>x \<in> set lcs. header_segment fm x \<longrightarrow> seg_vmaddr (read_segment fm x) + slide = h"
    and "\<exists>x \<in> set lcs. header_segment fm x" "h \<noteq> 0"
  shows "\<exists>ep rel. fold (entry_step fm slide) lcs (0, False, 0) = (ep, rel, h) \<and>
    ep = (if rel then load fm (lc + 8) 8 else h + load fm (lc + 8) 8)"
proof -
  have lc: "\<not> header_segment fm lc"
    using assms(2) loadable_segment by (auto simp: header_segment_def LC_MAIN_def LC_SEGMENT_64_def)
  have "fold (entry_step fm slide) pre (0, False, 0) = (0, False, if \<exists>x \<in> set pre. header_segment fm x then h else 0)"
    by (rule entry_no_main) (use assms(1,3,4) in auto)
  moreover have "fold (entry_step fm slide) post (ep, rel, mh) = (ep, rel, if \<exists>x \<in> set post. header_segment fm x then h else mh)" for ep rel mh
    by (rule entry_no_main) (use assms(1,3,4) in auto)
  moreover have "(\<exists>x \<in> set pre. header_segment fm x) \<or> (\<exists>x \<in> set post. header_segment fm x)" using assms(1,5) lc by auto
  ultimately show ?thesis
    using assms(1,2,6) lc by (auto simp: entry_step_def Let_def LC_MAIN_def LC_UNIXTHREAD_def)
qed

section \<open>The loaded image\<close>

lemma reserve_image_effect:
  assumes "reserve_image env segs lr st = (Some (slide, lr1), st1)" "os_page_size env = 4096"
    and "image_extent segs = (low, sz)" "unat sz < 2 ^ 62"
  shows "\<exists>base n k. n = round_up 4096 (unat sz) \<and> base = os_mmap env k low (of_nat n + MACHISMO_POOL_PADDING) \<and> base \<noteq> 0 \<and> slide = base - low \<and>
    lr_pool_base lr1 = base + of_nat n \<and> lr_pool_size lr1 = MACHISMO_POOL_PADDING \<and> lr_pool_used lr1 = 0 \<and>
    lr_entry_point lr1 = lr_entry_point lr \<and> lr_stack_top lr1 = lr_stack_top lr \<and>
    p_mem st1 = (\<lambda>b. if in_range b base (n + 0x200000) then 0 else p_mem st b)"
proof -
  define n where "n = round_up 4096 (unat sz)"
  have n: "n < 2 ^ 63" "4096 dvd n"
    using assms(4) round_up_less [of 4096 "unat sz"] by (simp_all add: n_def) (simp add: round_up_def)
  have "page_mask env = 4095" by (simp add: page_mask_def assms(2))
  moreover have "unat ((sz + 4095) AND NOT 4095) = n" unfolding n_def using assms(4) by (intro align_up_page) simp
  then have al: "(sz + 4095) AND NOT 4095 = of_nat n" by (metis of_nat_unat ucast_id)
  moreover have tot: "unat (of_nat n + MACHISMO_POOL_PADDING) = n + 0x200000"
    using n(1) by (simp add: MACHISMO_POOL_PADDING_def unat_word_ariths unat_of_nat)
  moreover have "round_up 4096 (n + 0x200000) = n + 0x200000" using n(2) by (simp add: round_up_add) (simp add: round_up_def)
  ultimately show ?thesis
    using assms(1-3)
    by (rule_tac exI [of _ "os_mmap env (p_mmaps st) low (of_nat n + MACHISMO_POOL_PADDING)"], rule_tac exI [of _ n], rule_tac exI [of _ "p_mmaps st"])
      (auto simp: reserve_image_def mmap_any_def set_prot_def Let_def n_def map_anon_def split: if_splits)
qed

lemma image_extent_ordered:
  assumes "well_placed segs" "image_ordered segs"
  defines "low \<equiv> seg_vmaddr (hd segs)" and "high \<equiv> seg_vmaddr (last segs) + seg_vmsize (last segs)"
  shows "image_extent segs = (low, high - low)" "unat (high - low) < 2 ^ 62" "unat high < 2 ^ 62"
    "s \<in> set segs \<Longrightarrow> unat low \<le> unat (seg_vmaddr s) \<and> unat (seg_vmaddr s) + unat (seg_vmsize s) \<le> unat high"
    "s \<in> set segs \<Longrightarrow> unat (seg_filesize s) \<le> unat (seg_vmsize s)"
proof -
  have ne: "segs \<noteq> []" using assms(2) by (simp add: image_ordered_def)
  have small: "unat (seg_vmaddr s) + unat (seg_vmsize s) < 2 ^ 62" if "s \<in> set segs" for s
    using assms(1) that by (simp only: well_placed_def)
  have high: "unat high = unat (seg_vmaddr (last segs)) + unat (seg_vmsize (last segs))"
    using small [of "last segs"] ne by (simp add: high_def unat_word_ariths)
  then show h: "unat high < 2 ^ 62" using small [of "last segs"] ne by simp
  have lows: "unat low \<le> unat (seg_vmaddr s) \<and> unat (seg_vmaddr s) + unat (seg_vmsize s) \<le> unat high" if "s \<in> set segs" for s
    using assms(2) that high by (simp add: image_ordered_def low_def word_le_nat_alt)
  then show "s \<in> set segs \<Longrightarrow> unat low \<le> unat (seg_vmaddr s) \<and> unat (seg_vmaddr s) + unat (seg_vmsize s) \<le> unat high" .
  show "s \<in> set segs \<Longrightarrow> unat (seg_filesize s) \<le> unat (seg_vmsize s)"
    using assms(1) by (simp add: well_placed_def word_le_nat_alt)
  have "low \<le> high" using lows [of "hd segs"] ne by (simp add: word_le_nat_alt)
  then show "unat (high - low) < 2 ^ 62" using h by (simp add: unat_sub)
  have "unat (seg_vmaddr (hd segs)) < 2 ^ 62" using small [of "hd segs"] ne by simp
  then have "seg_vmaddr (hd segs) \<noteq> - 1" using unat_minus_one_word by force
  then show "image_extent segs = (low, high - low)" unfolding low_def high_def by (rule image_extent_eq [OF ne])
qed

lemma load64_cases:
  assumes "load64 env bytes fat False lr st = (Some lr', st')"
  obtains lr0 st0 slide lr1 st1 ls where "setup_space env lr st = (Some lr0, st0)"
    "reserve_image env (extent_segments (file_mem bytes (unat fat))) lr0 (st0\<lparr>p_mmaps := p_mmaps st0 + 1\<rparr>) = (Some (slide, lr1), st1)"
    "load_cmds env bytes (file_mem bytes (unat fat)) (ucast fat) slide (bounded_commands (file_mem bytes (unat fat)) 0)
       \<lparr>ls_entryPoint = 0, ls_needs_fixup = False, ls_mappedHeader = 0, ls_lr = lr1\<rparr> st1 = (Some ls, st')"
    "lr' = finish_load (file_mem bytes (unat fat)) slide ls"
    "mh_filetype (read_header (file_mem bytes (unat fat)) 0) = MH_EXECUTE"
  using assms unfolding load64_def Let_def
  by (auto split: prod.splits option.splits if_splits)

text \<open>C4: Loading the main executable. With pages of 4096 bytes, a kernel that gives out page-aligned memory that does not wrap,
  and an image whose first segment is the lowest and whose last ends highest, a successful \<^verbatim>\<open>load64\<close> leaves every byte of a
  segment that no later segment covers as the file has it, or 0 behind the file's part, at the slide; the 2 MB of the island
  pool are zero and lie right behind the segments; the Mach-O header is where its segment is mapped, and the entry point
  is the header plus the offset of the only \<^verbatim>\<open>LC_MAIN\<close>, whether it stands before or after that segment.\<close>

theorem load64_maps_image:
  fixes st :: "'a process_scheme"
  assumes fm: "fm = file_mem bytes (unat fat)"
    and ps: "os_page_size env = 4096"
    and kernel: "\<forall>k h n. 4096 dvd unat (os_mmap env k h n) \<and> unat (os_mmap env k h n) + unat n < 2 ^ 64"
    and segs: "segs = file_segments fm" "extent_segments fm = segs" "well_placed segs" "image_ordered segs"
    and main: "bounded_commands fm 0 = pre @ lc # post" "lc_cmd (read_command fm lc) = LC_MAIN"
      "\<forall>x \<in> set pre \<union> set post. lc_cmd (read_command fm x) \<notin> {LC_MAIN, LC_UNIXTHREAD}"
    and header: "header \<in> set (bounded_commands fm 0)" "header_segment fm header"
      "\<forall>x \<in> set (bounded_commands fm 0). header_segment fm x \<longrightarrow> x = header"
    and load: "lr_entry_point lr = 0" "load64 env bytes fat False lr st = (Some lr', st')"
  shows "\<exists>base n. lr_slide lr' = base - seg_vmaddr (hd segs) \<and> lr_mh lr' = seg_vmaddr (read_segment fm header) + lr_slide lr' \<and>
    lr_entry_point lr' = lr_mh lr' + load fm (lc + 8) 8 \<and> lr_lc_main lr' \<and>
    lr_pool_base lr' = base + of_nat n \<and> lr_pool_size lr' = 0x200000 \<and> lr_pool_used lr' = 0 \<and>
    (\<forall>pre seg post k. segs = pre @ seg # post \<and> k < unat (seg_vmsize seg) \<and>
       (\<forall>s \<in> set post. \<not> seg_covers 4096 (lr_slide lr') s (seg_vmaddr seg + lr_slide lr' + of_nat k)) \<longrightarrow>
       in_range (seg_vmaddr seg + lr_slide lr' + of_nat k) base n \<and>
       p_mem st' (seg_vmaddr seg + lr_slide lr' + of_nat k) = segment_byte 4096 bytes (ucast fat) seg k) \<and>
    (\<forall>k < 0x200000. p_mem st' (lr_pool_base lr' + of_nat k) = 0)"
proof -
  obtain lr0 st0 slide lr1 st1 ls where sp: "setup_space env lr st = (Some lr0, st0)"
    and res: "reserve_image env segs lr0 (st0\<lparr>p_mmaps := p_mmaps st0 + 1\<rparr>) = (Some (slide, lr1), st1)"
    and cmds: "load_cmds env bytes fm (ucast fat) slide (bounded_commands fm 0)
       \<lparr>ls_entryPoint = 0, ls_needs_fixup = False, ls_mappedHeader = 0, ls_lr = lr1\<rparr> st1 = (Some ls, st')"
    and lr': "lr' = finish_load fm slide ls" and ft: "mh_filetype (read_header fm 0) = MH_EXECUTE"
    using load64_cases [OF load(2)] unfolding fm [symmetric] segs(2) by metis
  note e = image_extent_ordered [OF segs(3,4)]
  define low where "low = seg_vmaddr (hd segs)"
  define high where "high = seg_vmaddr (last segs) + seg_vmsize (last segs)"
  obtain base n k where n: "n = round_up 4096 (unat (high - low))" and base: "base = os_mmap env k low (of_nat n + MACHISMO_POOL_PADDING)" "base \<noteq> 0"
    and lr1: "slide = base - low" "lr_pool_base lr1 = base + of_nat n" "lr_pool_size lr1 = MACHISMO_POOL_PADDING" "lr_pool_used lr1 = 0"
      "lr_entry_point lr1 = lr_entry_point lr0"
    and m1: "p_mem st1 = (\<lambda>b. if in_range b base (n + 0x200000) then 0 else p_mem (st0\<lparr>p_mmaps := p_mmaps st0 + 1\<rparr>) b)"
    using reserve_image_effect [OF res ps e(1,2), folded low_def high_def] by (elim exE conjE) (rule that, assumption+)
  have ep0: "lr_entry_point lr0 = 0"
    using sp load(1) by (auto simp: setup_space_def Let_def split: prod.splits if_splits)
  have nz: "\<forall>x \<in> set (bounded_commands fm 0). loadable fm x \<longrightarrow> seg_vmaddr (read_segment fm x) \<noteq> 0"
    using segs(1,4) by (auto simp: image_ordered_def file_segments_def)
  have eff: "p_mem st' = fold (map_segment 4096 bytes (ucast fat) slide) segs (p_mem st1)"
      "\<forall>s \<in> set segs. 0 < seg_vmsize s \<longrightarrow> page_aligned 4096 (unat (seg_vmaddr s + slide))"
      "entry_of ls = fold (entry_step fm slide) (bounded_commands fm 0) (0, False, 0)" "kept lr1 (ls_lr ls)" "lr_lc_main (ls_lr ls)"
    using load_cmds_effect [OF cmds _ nz] main(1,2) by (auto simp: ps segs(1) file_segments_def entry_of_def)
  have inside: "in_range b base n" if "s \<in> set segs" "seg_covers 4096 slide s b" for s b
    unfolding n by (rule covers_span [where seg = s]) (use that e(3) e(4,5) [OF that(1)] eff(2) lr1(1) kernel base(1) in \<open>auto simp: low_def high_def\<close>)
  define h where "h = seg_vmaddr (read_segment fm header) + slide"
  have "read_segment fm header \<in> set segs"
    using header(1,2) by (auto simp: segs(1) file_segments_def header_segment_def)
  note hs = this e(4) [OF this]
  have nb: "n < 2 ^ 63" "unat (high - low) \<le> n"
    using e(2) round_up_less [of 4096 "unat (high - low)"] round_up_ge [of 4096 "unat (high - low)"]
    by (simp_all add: n low_def high_def)
  have total: "unat (of_nat n + MACHISMO_POOL_PADDING) = n + 0x200000"
    using nb(1) by (simp add: MACHISMO_POOL_PADDING_def unat_word_ariths unat_of_nat)
  have "h \<noteq> 0"
  proof -
    define d where "d = unat (seg_vmaddr (read_segment fm header)) - unat low"
    have "seg_vmaddr (read_segment fm header) - low = of_nat d"
      using hs(2) by (simp add: d_def low_def of_nat_diff)
    then have "h = base + of_nat d" by (simp add: h_def lr1(1) algebra_simps)
    moreover have d: "d \<le> unat high - unat low" using hs(2) unfolding d_def low_def high_def by linarith
    moreover have "unat (high - low) = unat high - unat low"
      using hs(2) by (simp add: low_def high_def unat_sub word_le_nat_alt)
    moreover have "unat base + (n + 0x200000) < 2 ^ 64" using kernel base(1) total by metis
    ultimately have "unat h = unat base + d" using nb(2) by (simp add: unat_word_ariths unat_of_nat)
    moreover have "0 < unat base" using base(2) by (simp add: unat_gt_0)
    ultimately show ?thesis by auto
  qed
  have uniq: "\<forall>x \<in> set (bounded_commands fm 0). header_segment fm x \<longrightarrow> seg_vmaddr (read_segment fm x) + slide = h"
    using header(3) by (auto simp: h_def)
  have "\<exists>x \<in> set (bounded_commands fm 0). header_segment fm x" using header(1,2) by (rule bexI [rotated])
  from entry_main [OF main(1-3) uniq this \<open>h \<noteq> 0\<close>]
  obtain ep rel where ent: "entry_of ls = (ep, rel, h)" "ep = (if rel then load fm (lc + 8) 8 else h + load fm (lc + 8) 8)"
    unfolding eff(3) [symmetric] by (elim exE conjE) (rule that, assumption+)
  have fin: "lr_mh lr' = h" "lr_slide lr' = slide" "lr_entry_point lr' = h + load fm (lc + 8) 8" "lr_lc_main lr'"
      "lr_pool_base lr' = base + of_nat n" "lr_pool_size lr' = 0x200000" "lr_pool_used lr' = 0"
    using ent eff(4,5) lr1 ep0 \<open>h \<noteq> 0\<close> unfolding lr'
    by (auto simp: finish_load_def ft entry_of_def kept_def Let_def MACHISMO_POOL_PADDING_def)
  have small: "n + 0x200000 < 2 ^ 64" using nb(1) by simp
  have all: "\<forall>s \<in> set segs. \<forall>b. seg_covers 4096 slide s b \<longrightarrow> in_range b base n" using inside by blast
  note place = segments_in_place [OF all eff(1) m1 small]
  have byte: "\<forall>pre seg post k. segs = pre @ seg # post \<and> k < unat (seg_vmsize seg) \<and>
       (\<forall>s \<in> set post. \<not> seg_covers 4096 slide s (seg_vmaddr seg + slide + of_nat k)) \<longrightarrow>
       in_range (seg_vmaddr seg + slide + of_nat k) base n \<and>
       p_mem st' (seg_vmaddr seg + slide + of_nat k) = segment_byte 4096 bytes (ucast fat) seg k"
    using place(3) by blast
  have slide: "slide = base - seg_vmaddr (hd segs)" using lr1(1) by (simp add: low_def)
  show ?thesis unfolding fin using byte place(2) slide by (intro exI [of _ base] exI [of _ n]) (simp only: h_def fin simp_thms, blast)
qed

text \<open>What the emulated commpage holds, and the allocator of the island pool.\<close>

section \<open>The commpage\<close>

lemma commpage_caps_small: "take_bit 10 (commpage_caps h) = commpage_caps h"
proof -
  have "\<forall>(i, c) \<in> set cs. take_bit 10 c = c \<Longrightarrow> take_bit 10 acc = acc \<Longrightarrow>
      take_bit 10 (fold (\<lambda>(i, c) caps. if bit h i then caps OR c else caps) cs acc) =
      fold (\<lambda>(i, c) caps. if bit h i then caps OR c else caps) cs acc" for cs and acc :: u64
    by (induction cs arbitrary: acc) (auto simp: take_bit_or)
  then show ?thesis unfolding commpage_caps_def by (simp add: hwcap_caps_def)
qed

lemma commpage_bytes:
  fixes cp :: u64
  defines "cp \<equiv> ARM64_COMMPAGE_BASE"
  shows "load (fill_commpage env cp m) (cp + 0x10) 8 = commpage_caps (ie_hwcap env) \<and>
    load32 (fill_commpage env cp m) (cp + 0x20) = ucast (commpage_caps (ie_hwcap env)) \<and>
    fill_commpage env cp m (cp + 0x34) = ie_nactive env \<and> fill_commpage env cp m (cp + 0x35) = ie_ncpus env \<and>
    fill_commpage env cp m (cp + 0x36) = ie_ncpus env \<and> fill_commpage env cp m (cp + 0x2c) = page_shift (os_page_size env) \<and>
    fill_commpage env cp m (cp + 0x22) = 0"
proof -
  define caps where "caps = commpage_caps (ie_hwcap env)"
  define m1 where "m1 = commpage_fields env cp m"
  have m1: "fill_commpage env cp m = store32 (store m1 (cp + 0x10) 8 caps) (cp + 0x20) (ucast caps)"
    by (simp add: fill_commpage_def caps_def m1_def Let_def)
  have fields: "m1 (cp + 0x34) = ie_nactive env" "m1 (cp + 0x35) = ie_ncpus env" "m1 (cp + 0x36) = ie_ncpus env"
    "m1 (cp + 0x2c) = page_shift (os_page_size env)"
    unfolding m1_def commpage_fields_def Let_def
    by (simp_all add: cp_def ARM64_COMMPAGE_BASE_def store_outside in_range_def split: option.split)
  have "load (fill_commpage env cp m) (cp + 0x10) 8 = caps"
    unfolding m1 store32_def by (subst load_store_disj) (simp_all add: disj_def cp_def ARM64_COMMPAGE_BASE_def load_store_same)
  moreover have "load32 (fill_commpage env cp m) (cp + 0x20) = ucast caps" unfolding m1 by (rule load_store_same)
  moreover have "fill_commpage env cp m b = m1 b" if "b \<in> {cp + 0x34, cp + 0x35, cp + 0x36, cp + 0x2c}" for b
    using that unfolding m1 store32_def by (auto simp: store_outside in_range_def cp_def ARM64_COMMPAGE_BASE_def)
  moreover have "fill_commpage env cp m (cp + 0x22) = 0"
  proof -
    have "store32 mm a v (a + 2) = ucast (drop_bit 16 v)" for mm a v
      by (simp add: store32_def numeral_eq_Suc) (rule bit_eqI, auto simp: bit_simps)
    note byte2 = this [of "store m1 (cp + 0x10) 8 caps" "cp + 0x20" "ucast caps"]
    have "cp + 0x22 = cp + 0x20 + 2" by simp
    then have "fill_commpage env cp m (cp + 0x22) = ucast (drop_bit 16 (ucast caps :: u32))"
      unfolding m1 by (simp only: byte2)
    also have "\<dots> = ucast (drop_bit 16 (ucast (take_bit 10 caps) :: u32))" by (simp add: caps_def commpage_caps_small)
    also have "\<dots> = 0" by (rule bit_eqI) (auto simp: bit_simps)
    finally show ?thesis .
  qed
  ultimately show ?thesis using fields by (simp add: caps_def)
qed

text \<open>The commpage after start-up: the capability words hold the translation of the hardware capabilities, the counts of active,
  physical and logical processors and the page shifts are those of the system; but the byte at \<^verbatim>\<open>CP_NCPUS\<close>, which is
  written first, is always 0, because the 32-bit capability word written last covers it and has no bits there.\<close>

lemma commpage_contents:
  "let cp = ARM64_COMMPAGE_BASE; page = fill_commpage env cp m
   in load page (cp + 0x10) 8 = commpage_caps (ie_hwcap env) \<and>
     load32 page (cp + 0x20) = ucast (commpage_caps (ie_hwcap env)) \<and>
     page (cp + 0x34) = ie_nactive env \<and> page (cp + 0x35) = ie_ncpus env \<and>
     page (cp + 0x36) = ie_ncpus env \<and> page (cp + 0x2c) = page_shift (os_page_size env) \<and>
     page (cp + 0x22) = 0"
  unfolding Let_def by (rule commpage_bytes)

section \<open>The pool\<close>

text \<open>The allocator of the island pool: a chunk it gives out starts at a multiple of the page size behind everything given out before
  and ends inside the pool, and the pool remembers its end; so chunks never overlap.\<close>

lemma pool_alloc_fresh:
  assumes "machismo_pool_alloc lr n = (p, lr')" "p \<noteq> 0"
    and "unat (lr_pool_used lr) \<le> unat (lr_pool_size lr)" "unat (lr_pool_size lr) < 2 ^ 62" "unat n < 2 ^ 62"
  shows "\<exists>off. p = lr_pool_base lr + of_nat off \<and> 4096 dvd off \<and> unat (lr_pool_used lr) \<le> off \<and>
    unat (lr_pool_used lr') = off + unat n \<and> off + unat n \<le> unat (lr_pool_size lr) \<and>
    lr' = lr\<lparr>lr_pool_used := lr_pool_used lr'\<rparr>"
proof -
  define off where "off = round_up 4096 (unat (lr_pool_used lr))"
  have al: "unat ((lr_pool_used lr + 4095) AND NOT 4095) = off"
    unfolding off_def using assms(3,4) by (intro align_up_page) simp
  then have o: "(lr_pool_used lr + 4095) AND NOT 4095 = of_nat off" by (metis of_nat_unat ucast_id)
  have r: "4096 dvd off" "unat (lr_pool_used lr) \<le> off" "off < 2 ^ 63"
    using round_up_ge [of 4096 "unat (lr_pool_used lr)"] round_up_less [of 4096 "unat (lr_pool_used lr)"] assms(3,4)
    by (simp_all add: off_def) (simp add: round_up_def)
  have sum: "unat (of_nat off + n) = off + unat n" using r(3) assms(5) by (simp add: unat_word_ariths unat_of_nat)
  have "\<not> lr_pool_size lr < of_nat off + n" "p = lr_pool_base lr + of_nat off" "lr' = lr\<lparr>lr_pool_used := of_nat off + n\<rparr>"
    using assms(1,2) unfolding machismo_pool_alloc_def Let_def o by (auto split: if_splits)
  then show ?thesis using r sum by (intro exI [of _ off]) (auto simp: word_less_nat_alt)
qed

end
