(* ===== verification/Stack_Correct.thy ===== *)
theory Stack_Correct
  imports Image_Loader Image_Correct
begin

text \<open>The stack a program starts with is laid out as Darwin documents it.\<close>

section \<open>Ranges that do not wrap\<close>

lemma in_range_nat:
  assumes "unat a + n \<le> 2 ^ 64"
  shows "in_range b a n \<longleftrightarrow> unat a \<le> unat b \<and> unat b < unat a + n"
proof (cases "unat a \<le> unat b")
  case True
  then show ?thesis by (auto simp: in_range_def unat_sub word_le_nat_alt)
next
  case False
  have "unat (b - a) = unat b + 2 ^ 64 - unat a"
    using False unat_sub_if' [of b a] by (simp add: word_size)
  then show ?thesis using False assms by (simp add: in_range_def)
qed

lemma unat_add_small: "unat (a :: u64) + k < 2 ^ 64 \<Longrightarrow> unat (a + of_nat k) = unat a + k"
  by (simp add: unat_word_ariths unat_of_nat)

lemma unat_sub_small: "k \<le> unat (a :: u64) \<Longrightarrow> unat (a - of_nat k) = unat a - k"
proof -
  assume k: "k \<le> unat a"
  have "unat a < 2 ^ 64" using unsigned_less [of a] by simp
  then have "unat (of_nat k :: u64) = k" using k by (simp add: unat_of_nat)
  then show ?thesis using k by (simp add: unat_sub word_le_nat_alt)
qed

section \<open>Bytes and words in memory\<close>

lemma mem_bytes_cong: "(\<And>b. in_range b a n \<Longrightarrow> m b = m' b) \<Longrightarrow> n \<le> 2 ^ 64 \<Longrightarrow> mem_bytes m a n = mem_bytes m' a n"
  by (auto simp: mem_bytes_def in_range_def unat_of_nat intro!: map_cong)

lemma mem_bytes_store_bytes: "length bs \<le> 2 ^ 64 \<Longrightarrow> mem_bytes (store_bytes m a bs) a (length bs) = bs"
  by (rule nth_equalityI) (auto simp: mem_bytes_def store_bytes_def in_range_def unat_of_nat)

lemma unat_neg: "0 < k \<Longrightarrow> k < 2 ^ 64 \<Longrightarrow> unat (- of_nat k :: u64) = 2 ^ 64 - k"
  using unat_sub_if' [of 0 "of_nat k :: u64"] by (simp add: unat_of_nat)

lemma store_bytes_append:
  assumes "length xs + length ys < 2 ^ 64"
  shows "store_bytes (store_bytes m a xs) (a + of_nat (length xs)) ys = store_bytes m a (xs @ ys)"
proof
  fix b
  define d where "d = unat (b - a)"
  have b: "b = a + of_nat d" by (simp add: d_def)
  have d: "d < 2 ^ 64" using unsigned_less [of "b - a"] by (simp add: d_def)
  show "store_bytes (store_bytes m a xs) (a + of_nat (length xs)) ys b = store_bytes m a (xs @ ys) b"
  proof (cases "length xs \<le> d")
    case True
    have "b - (a + of_nat (length xs)) = of_nat (d - length xs)" using True by (simp add: b of_nat_diff)
    then have "unat (b - (a + of_nat (length xs))) = d - length xs" using d by (simp add: unat_of_nat)
    then show ?thesis using True by (auto simp: store_bytes_def in_range_def nth_append d_def [symmetric])
  next
    case False
    have "b - (a + of_nat (length xs)) = - of_nat (length xs - d)" using False by (simp add: b of_nat_diff)
    then have "unat (b - (a + of_nat (length xs))) = 2 ^ 64 - (length xs - d)"
      using False assms by (metis unat_neg add_lessD1 less_imp_diff_less not_le zero_less_diff)
    then show ?thesis using False assms by (auto simp: store_bytes_def in_range_def nth_append d_def [symmetric])
  qed
qed

lemma store_bytes_outside: "\<not> in_range b a (length bs) \<Longrightarrow> store_bytes m a bs b = m b"
  by (simp add: store_bytes_def)

lemma put_words_outside:
  assumes "\<not> in_range b sp (8 * length ws)" "unat sp + 8 * length ws \<le> 2 ^ 64"
  shows "put_words m sp ws b = m b"
  using assms
proof (induction ws arbitrary: m sp)
  case (Cons w ws)
  show ?case
  proof (cases "ws = []")
    case True
    then show ?thesis using Cons.prems by (simp add: store_outside)
  next
    case False
    then have sp: "unat (sp + of_nat 8) = unat sp + 8" using Cons.prems(2) by (intro unat_add_small) (cases ws, auto)
    have "\<not> in_range b (sp + 8) (8 * length ws)" "\<not> in_range b sp 8"
      using Cons.prems sp by (auto simp: in_range_nat)
    then show ?thesis using Cons.IH [of "sp + 8"] Cons.prems(2) sp by (simp add: store_outside)
  qed
qed simp

lemma put_words_load:
  assumes "i < length ws" "unat sp + 8 * length ws \<le> 2 ^ 64"
  shows "load (put_words m sp ws) (sp + of_nat (8 * i)) 8 = ws ! i"
  using assms
proof (induction ws arbitrary: m sp i)
  case (Cons w ws)
  show ?case
  proof (cases "ws = []")
    case True
    then show ?thesis using Cons.prems by (simp add: load_store_same)
  next
    case False
    then have sp: "unat (sp + of_nat 8) = unat sp + 8" using Cons.prems(2) by (intro unat_add_small) (cases ws, auto)
    show ?thesis
    proof (cases i)
      case 0
      have "load (put_words (store m sp 8 w) (sp + 8) ws) sp 8 = load (store m sp 8 w) sp 8"
        by (rule load_cong, rule put_words_outside) (use Cons.prems(2) sp in \<open>auto simp: in_range_nat\<close>)
      then show ?thesis using 0 by (simp add: load_store_same)
    next
      case (Suc j)
      then show ?thesis using Cons.IH [of j "sp + 8"] Cons.prems sp by (simp add: algebra_simps)
    qed
  qed
qed simp

lemma cstr_at_bytes:
  assumes "length s < k" "\<forall>i < length s. m (a + of_nat i) = of_char (s ! i)" "m (a + of_nat (length s)) = 0" "NUL \<notin> set s"
  shows "cstr_at m k a = s"
  using assms
proof (induction s arbitrary: k a)
  case Nil
  then show ?case by (cases k) auto
next
  case (Cons c s)
  obtain k' where k: "k = Suc k'" using Cons.prems(1) by (cases k) auto
  have c: "m a = of_char c" using Cons.prems(2) [rule_format, of 0] by simp
  then have "m a \<noteq> 0" using Cons.prems(4) byte_zero by auto
  moreover have "m (a + 1 + of_nat i) = of_char (s ! i)" if "i < length s" for i
    using Cons.prems(2) [rule_format, of "Suc i"] that by (simp add: add.assoc)
  ultimately show ?case using Cons.IH [of k' "a + 1"] Cons.prems k c by (simp add: add.assoc)
qed

lemma mem_str_buffer:
  assumes "mem_bytes m a (length bs) = bs" "bs = of_chars s @ [0] @ junk" "NUL \<notin> set s" "length s < 2 ^ 64"
  shows "mem_str m a = s"
  unfolding mem_str_def
proof (rule cstr_at_bytes [OF assms(4)])
  have at: "m (a + of_nat i) = (of_chars s @ [0] @ junk) ! i" if "i < length bs" for i
    using arg_cong [OF assms(1), of "\<lambda>l. l ! i"] that unfolding assms(2) by (simp add: mem_bytes_def del: upt_Suc)
  show "\<forall>i < length s. m (a + of_nat i) = of_char (s ! i)" by (simp add: at assms(2) nth_append) (simp add: of_chars_def)
  show "m (a + of_nat (length s)) = 0" by (simp add: at assms(2) nth_append)
qed (rule assms(3))

section \<open>The layout\<close>

lemma snprintf_buf_length: "length junk = n \<Longrightarrow> 0 < n \<Longrightarrow> length (snprintf_buf n s junk) = n"
  by (auto simp: snprintf_buf_def)

lemma snprintf_buf_shape:
  assumes "length junk = n" "0 < n"
  obtains rest where "snprintf_buf n s junk = of_chars (take (n - 1) s) @ [0] @ rest" "length rest = n - 1 - length (take (n - 1) s)"
proof -
  have "snprintf_buf n s junk = of_chars (take (n - 1) s) @ [0] @ take (n - 1 - length (take (n - 1) s)) junk"
    using assms by (cases n) (auto simp: snprintf_buf_def min_def take_Cons')
  then show thesis using that assms(1) by simp
qed

text \<open>The sizes: the pointers end where the strings begin, and everything is above the new stack pointer.\<close>

lemma stack_sizes:
  fixes top argc envc :: u64 and len :: nat
  assumes room: "8 * (unat argc + unat envc) + len + 200 \<le> unat top" and len: "len \<le> 4095"
  defines "sp \<equiv> ((top AND NOT 7) - 8 * (1 + 1 + (argc + 1) + (envc + 1) + 4 + user_long_count (of_nat len + 17 + 12 + 27))) AND NOT 15"
  shows "16 dvd unat sp" "unat sp + 8 * (unat argc + unat envc + 8) \<le> unat top - len - 56"
proof -
  define k where "k = unat argc + unat envc + 8 + (len + 63) div 8"
  have top: "unat top < 2 ^ 64" using unsigned_less [of top] by simp
  have "of_nat len + 17 + 12 + 27 + 7 = (of_nat (len + 63) :: u64)" by simp
  then have "unat (of_nat len + 17 + 12 + 27 + 7 :: u64) = len + 63" using len by (simp only: unat_of_nat) simp
  then have "unat (user_long_count (of_nat len + 17 + 12 + 27)) = (len + 63) div 8"
    unfolding user_long_count_def by (simp only: unat_div) simp
  then have "user_long_count (of_nat len + 17 + 12 + 27) = of_nat ((len + 63) div 8)" by (metis of_nat_unat ucast_id)
  then have cnt: "8 * (1 + 1 + (argc + 1) + (envc + 1) + 4 + user_long_count (of_nat len + 17 + 12 + 27)) = of_nat (8 * k)"
    by (simp add: k_def)
  have al: "unat (top AND NOT 7) = unat top div 8 * 8" using unat_align_down [of 3 top] by simp
  have k: "8 * k \<le> unat top div 8 * 8" using room by (simp add: k_def)
  have sp1: "unat ((top AND NOT 7) - of_nat (8 * k)) = unat top div 8 * 8 - 8 * k"
    using k unfolding al [symmetric] by (rule unat_sub_small)
  have sp: "unat sp = (unat top div 8 * 8 - 8 * k) div 16 * 16"
    using unat_align_down [of 4 "(top AND NOT 7) - of_nat (8 * k)"] unfolding sp_def cnt sp1 by simp
  then show "16 dvd unat sp" by simp
  have "unat sp \<le> unat top div 8 * 8 - 8 * k" unfolding sp by simp
  moreover have "8 * k = 8 * (unat argc + unat envc + 8) + 8 * ((len + 63) div 8)" by (simp add: k_def)
  moreover have "len + 56 \<le> 8 * ((len + 63) div 8)" by linarith
  moreover have "unat top div 8 * 8 \<le> unat top" by simp
  ultimately show "unat sp + 8 * (unat argc + unat envc + 8) \<le> unat top - len - 56" using k by linarith
qed

text \<open>The memory after the strings are copied below the top: three strings, one below the other.\<close>

lemma strings_in_place:
  fixes top :: u64 and m :: mem and exe kfd elf :: "u8 list"
  assumes "length exe + length kfd + length elf \<le> unat top"
  defines "a1 \<equiv> top - of_nat (length exe)" and "a2 \<equiv> top - of_nat (length exe + length kfd)"
    and "a3 \<equiv> top - of_nat (length exe + length kfd + length elf)"
  defines "m' \<equiv> store_bytes (store_bytes (store_bytes m a1 exe) a2 kfd) a3 elf"
  shows "mem_bytes m' a1 (length exe) = exe" "mem_bytes m' a2 (length kfd) = kfd" "mem_bytes m' a3 (length elf) = elf"
    "same_outside (\<lambda>b. unat a3 \<le> unat b \<and> unat b < unat top) m m'"
proof -
  have top: "unat top < 2 ^ 64" using unsigned_less [of top] by simp
  have u: "unat a1 = unat top - length exe" "unat a2 = unat top - (length exe + length kfd)"
    "unat a3 = unat top - (length exe + length kfd + length elf)"
    unfolding a1_def a2_def a3_def by (rule unat_sub_small, use assms(1) in simp)+
  have r: "in_range b a1 (length exe) \<longleftrightarrow> unat a1 \<le> unat b \<and> unat b < unat a1 + length exe"
    "in_range b a2 (length kfd) \<longleftrightarrow> unat a2 \<le> unat b \<and> unat b < unat a2 + length kfd"
    "in_range b a3 (length elf) \<longleftrightarrow> unat a3 \<le> unat b \<and> unat b < unat a3 + length elf" for b
    by (rule in_range_nat, use assms(1) top u in simp)+
  have len: "length exe \<le> 2 ^ 64" "length kfd \<le> 2 ^ 64" "length elf \<le> 2 ^ 64" using assms(1) top by simp_all
  have d: "in_range b a1 (length exe) \<Longrightarrow> \<not> in_range b a2 (length kfd)" "in_range b a1 (length exe) \<Longrightarrow> \<not> in_range b a3 (length elf)"
    "in_range b a2 (length kfd) \<Longrightarrow> \<not> in_range b a3 (length elf)" for b
    unfolding r u using assms(1) by linarith+
  have "mem_bytes m' a1 (length exe) = mem_bytes (store_bytes m a1 exe) a1 (length exe)"
    unfolding m'_def by (rule mem_bytes_cong) (use len in \<open>simp_all add: store_bytes_outside d\<close>)
  then show "mem_bytes m' a1 (length exe) = exe" using mem_bytes_store_bytes [OF len(1)] by simp
  have "mem_bytes m' a2 (length kfd) = mem_bytes (store_bytes (store_bytes m a1 exe) a2 kfd) a2 (length kfd)"
    unfolding m'_def by (rule mem_bytes_cong) (use len in \<open>simp_all add: store_bytes_outside d\<close>)
  then show "mem_bytes m' a2 (length kfd) = kfd" using mem_bytes_store_bytes [OF len(2)] by simp
  show "mem_bytes m' a3 (length elf) = elf" unfolding m'_def by (rule mem_bytes_store_bytes [OF len(3)])
  show "same_outside (\<lambda>b. unat a3 \<le> unat b \<and> unat b < unat top) m m'"
    unfolding same_outside_def
  proof (intro allI impI)
    fix b :: u64 assume b: "\<not> (unat a3 \<le> unat b \<and> unat b < unat top)"
    have "\<not> in_range b a1 (length exe)" "\<not> in_range b a2 (length kfd)" "\<not> in_range b a3 (length elf)"
      using b assms(1) unfolding r u by linarith+
    then show "m' b = m b" by (simp add: m'_def store_bytes_outside)
  qed
qed

lemma pointers_length: "length (pointers ps n) \<le> unat n"
proof -
  have "length (pointers ps n) \<le> length (map (\<lambda>i. if i < length ps then ps ! i else 0) [0..<unat n])"
    unfolding pointers_def by (rule length_takeWhile_le)
  then show ?thesis by simp
qed

lemma hex_digits_word:
  fixes a :: u64
  shows "length (hex_digits (unat a)) \<le> 16" "NUL \<notin> set (hex_digits (unat a))"
proof -
  have "unat a < 2 ^ 64" using unsigned_less [of a] by simp
  then show "length (hex_digits (unat a)) \<le> 16" using hex_digits_length [of "unat a" 15] by simp
  show "NUL \<notin> set (hex_digits (unat a))"
    using hex_digits_ok [of "unat a"] by (auto simp: list_all_iff is_hex_digit_def code_def)
qed

text \<open>C15: The initial stack. With room below the top, the new stack pointer is a multiple of 16; from it on lie the address of the
  Mach-O header, the argument count, the argument pointers and a null, the environment pointers and a null, and the
  pointers of the \<^verbatim>\<open>apple\<close> array, which name the strings for the path of the executable, the kernel descriptor and the table
  of elf calls; nothing below the stack pointer or from the old top on is written.\<close>

theorem setup_stack_layout:
  assumes run: "setup_stack64 elf_calls junk1 junk2 filepath lr m = (lr', m')"
    and path: "path = executable_path filepath (lr_root_path lr)" "NUL \<notin> set filepath"
    and room: "8 * (unat (lr_argc lr) + unat (lr_envc lr)) + length path + 200 \<le> unat (lr_stack_top lr)"
    and junk: "length junk1 = 12" "length junk2 = 27"
    and ws: "ws = [lr_mh lr, lr_argc lr] @ pointers (lr_argv lr) (lr_argc lr) @ [0] @ pointers (lr_envp lr) (lr_envc lr) @ [0] @ lr_applep lr'"
  shows "16 dvd unat (lr_stack_top lr') \<and>
    (\<forall>i < length ws. load m' (lr_stack_top lr' + of_nat (8 * i)) 8 = ws ! i) \<and>
    (\<exists>a b c. lr_applep lr' = [a, b, c, 0] \<and> mem_str m' a = ''executable_path='' @ path \<and>
       mem_str m' b = take 11 (''kernfd='' @ print_int (lr_kernfd lr)) \<and> mem_str m' c = ''elf_calls='' @ hex_digits (unat elf_calls)) \<and>
    same_outside (\<lambda>b. unat (lr_stack_top lr') \<le> unat b \<and> unat b < unat (lr_stack_top lr)) m m'"
proof -
  let ?top = "lr_stack_top lr" and ?len = "length path"
  define exe where "exe = of_chars (''executable_path='' @ path) @ [0]"
  define kfd where "kfd = snprintf_buf 12 (''kernfd='' @ print_int (lr_kernfd lr)) junk1"
  define elf where "elf = snprintf_buf 27 (''elf_calls='' @ hex_digits (unat elf_calls)) junk2"
  have len: "?len \<le> 4095" by (auto simp: path(1) executable_path_def Let_def min_def split: option.split)
  have lens: "length exe = ?len + 17" "length kfd = 12" "length elf = 27"
    by (simp_all add: exe_def kfd_def elf_def snprintf_buf_length junk)
  define sp where "sp = ((?top AND NOT 7) - 8 * (1 + 1 + (lr_argc lr + 1) + (lr_envc lr + 1) + 4 + user_long_count (of_nat ?len + 17 + 12 + 27))) AND NOT 15"
  note sizes = stack_sizes [OF room len, folded sp_def]
  define a1 where "a1 = ?top - of_nat (length exe)"
  define a2 where "a2 = ?top - of_nat (length exe + length kfd)"
  define a3 where "a3 = ?top - of_nat (length exe + length kfd + length elf)"
  have addrs: "?top - of_nat ?len - 17 = a1" "a1 - 12 = a2" "a2 - 27 = a3" by (simp_all add: a1_def a2_def a3_def lens)
  define ms where "ms = store_bytes (store_bytes (store_bytes m a1 exe) a2 kfd) a3 elf"
  have "length exe + length kfd + length elf \<le> unat ?top" using room lens by simp
  note str = strings_in_place [OF this, where m = m, folded a1_def a2_def a3_def, folded ms_def]
  have exe2: "store_bytes (store_bytes m a1 (of_chars EXECUTABLE_PATH)) (a1 + 16) (of_chars path @ [0]) = store_bytes m a1 exe"
    using store_bytes_append [of "of_chars EXECUTABLE_PATH" "of_chars path @ [0]" m a1] len
    by (simp add: exe_def EXECUTABLE_PATH_def of_chars_def)
  have res: "lr_applep lr' = [a1, a2, a3, 0]" "lr_stack_top lr' = sp" "m' = put_words ms sp ws"
    using run unfolding setup_stack64_def Let_def path(1) [symmetric] addrs exe2 ws
    by (auto simp: sp_def ms_def kfd_def elf_def)
  have top: "unat ?top < 2 ^ 64" using unsigned_less [of ?top] by simp
  have u: "unat a1 = unat ?top - (?len + 17)" "unat a2 = unat ?top - (?len + 29)" "unat a3 = unat ?top - (?len + 56)"
    unfolding a1_def a2_def a3_def lens by (rule unat_sub_small [THEN trans], use room in simp, simp)+
  have "length ws \<le> unat (lr_argc lr) + unat (lr_envc lr) + 8"
    using pointers_length [of "lr_argv lr" "lr_argc lr"] pointers_length [of "lr_envp lr" "lr_envc lr"] by (simp add: ws res(1))
  then have "unat sp + 8 * length ws \<le> unat sp + 8 * (unat (lr_argc lr) + unat (lr_envc lr) + 8)" by simp
  also have "\<dots> \<le> unat a3" using sizes(2) by (simp only: u(3) diff_diff_left)
  finally have wsp: "unat sp + 8 * length ws \<le> unat a3" .
  then have wrap: "unat sp + 8 * length ws \<le> 2 ^ 64" using u(3) top by linarith
  have low: "m' b = ms b" if "unat a3 \<le> unat b" for b
    unfolding res(3) by (rule put_words_outside [OF _ wrap]) (use that wsp wrap in \<open>simp add: in_range_nat\<close>)
  have bytes: "mem_bytes m' a n = mem_bytes ms a n" if "unat a3 \<le> unat a" "unat a + n \<le> unat ?top" for a n
    by (rule mem_bytes_cong) (use that top in \<open>auto simp: in_range_nat intro: low\<close>)
  have nul: "NUL \<notin> set path"
    using path by (auto simp: executable_path_def Let_def split: option.splits if_splits dest: in_set_takeD in_set_dropD)
  have str': "mem_bytes m' a1 (length exe) = exe" "mem_bytes m' a2 (length kfd) = kfd" "mem_bytes m' a3 (length elf) = elf"
    using str(1-3) bytes [of a1 "length exe"] bytes [of a2 "length kfd"] bytes [of a3 "length elf"] u room unfolding lens by simp_all
  obtain r1 where k: "kfd = of_chars (take 11 (''kernfd='' @ print_int (lr_kernfd lr))) @ [0] @ r1"
    using snprintf_buf_shape [OF junk(1), of "''kernfd='' @ print_int (lr_kernfd lr)"] unfolding kfd_def by auto
  obtain r2 where e: "elf = of_chars (take 26 (''elf_calls='' @ hex_digits (unat elf_calls))) @ [0] @ r2"
    using snprintf_buf_shape [OF junk(2), of "''elf_calls='' @ hex_digits (unat elf_calls)"] unfolding elf_def by auto
  have hex: "take 26 (''elf_calls='' @ hex_digits (unat elf_calls)) = ''elf_calls='' @ hex_digits (unat elf_calls)"
    "NUL \<notin> set (''elf_calls='' @ hex_digits (unat elf_calls))"
    using hex_digits_word [of elf_calls] by simp_all
  have s1: "mem_str m' a1 = ''executable_path='' @ path"
    by (rule mem_str_buffer [OF str'(1), where junk = "[]"]) (use nul len in \<open>simp_all add: exe_def\<close>)
  have s2: "mem_str m' a2 = take 11 (''kernfd='' @ print_int (lr_kernfd lr))"
    by (rule mem_str_buffer [OF str'(2) k]) (auto simp: print_int_def dec_digits_not dest: in_set_takeD)
  have s3: "mem_str m' a3 = ''elf_calls='' @ hex_digits (unat elf_calls)"
    by (rule mem_str_buffer [OF str'(3) e [unfolded hex]]) (use hex(2) hex_digits_word(1) [of elf_calls] in simp_all)
  have "same_outside (\<lambda>b. unat sp \<le> unat b \<and> unat b < unat ?top) m m'"
    unfolding same_outside_def
  proof (intro allI impI)
    fix b :: u64 assume b: "\<not> (unat sp \<le> unat b \<and> unat b < unat ?top)"
    have "\<not> in_range b sp (8 * length ws)" "\<not> (unat a3 \<le> unat b \<and> unat b < unat ?top)"
      using b wsp wrap u(3) by (auto simp: in_range_nat)
    then show "m' b = m b" using str(4) unfolding res(3) by (simp add: put_words_outside [OF _ wrap] same_outside_def)
  qed
  moreover have "\<forall>i < length ws. load m' (sp + of_nat (8 * i)) 8 = ws ! i"
    unfolding res(3) using put_words_load [OF _ wrap] by blast
  ultimately show ?thesis unfolding res(1,2) using sizes(1) s1 s2 s3 by blast
qed

definition stack_lr :: load_results where
  "stack_lr = \<lparr>lr_mh = 0x5000, lr_entry_point = 0, lr_stack_size = 0, lr_dyld_all_image_location = 0, lr_dyld_all_image_size = 0,
     lr_uuid = [], lr_vm_addr_max = 0, lr_base = 0, lr_root_path = None, lr_stack_top = 0xFFFFFC000, lr_slide = 0, lr_lc_main = True,
     lr_applep = [], lr_kernfd = - 1, lr_argc = 1, lr_envc = 0, lr_argv = [0x100], lr_envp = [], lr_pool_base = 0, lr_pool_size = 0,
     lr_pool_used = 0\<rparr>"

theorem setup_stack_layout_witness:
  "\<exists>lr' m'. setup_stack64 0x10 (replicate 12 0) (replicate 27 0) ''a'' stack_lr (\<lambda>_. 0) = (lr', m') \<and>
     load m' (lr_stack_top lr') 8 = 0x5000 \<and> load m' (lr_stack_top lr' + 16) 8 = 0x100 \<and>
     mem_str m' (lr_applep lr' ! 0) = ''executable_path=a''"
proof -
  obtain lr' m' where run: "setup_stack64 0x10 (replicate 12 0) (replicate 27 0) ''a'' stack_lr (\<lambda>_. 0) = (lr', m')" by fastforce
  define ws where "ws = [lr_mh stack_lr, lr_argc stack_lr] @ pointers (lr_argv stack_lr) (lr_argc stack_lr) @ [0] @
    pointers (lr_envp stack_lr) (lr_envc stack_lr) @ [0] @ lr_applep lr'"
  have path: "executable_path ''a'' (lr_root_path stack_lr) = ''a''" by (simp add: executable_path_def stack_lr_def)
  have "pointers [0x100] 1 = [0x100]" by (simp add: pointers_def)
  then have ws: "ws = [0x5000, 1, 0x100, 0] @ pointers [] 0 @ [0] @ lr_applep lr'" by (simp add: ws_def stack_lr_def)
  note lay = setup_stack_layout [OF run path [symmetric] _ _ _ _ ws_def]
  have "\<forall>i < length ws. load m' (lr_stack_top lr' + of_nat (8 * i)) 8 = ws ! i"
    "\<exists>a b c. lr_applep lr' = [a, b, c, 0] \<and> mem_str m' a = ''executable_path='' @ ''a''"
    using lay by (simp_all add: stack_lr_def) blast+
  then show ?thesis
    using run ws by (intro exI [of _ lr'] exI [of _ m']) (auto dest: spec [of _ 0] spec [of _ 2])
qed

end
