(* ===== verification/Machismo_Main.thy ===== *)
theory Machismo_Main
  imports Image_Loader Isa_Emul Config Resolver Address_Hooks Stale_Guard Patcher
begin

text \<open>
  Model of \<^verbatim>\<open>src/src/machismo.c\<close>: the command line, the passes over the loaded images before any guest code
  runs, and the start of the guest. The components it calls are the ones of the other theories. Guest functions
  and the entry prepare hook are effects on memory; \<open>mm_runs\<close> records where guest code is entered.

  The calls that only serve unwinding, debugging, tracing and the display (\<^verbatim>\<open>eh_frame\<close>, \<^verbatim>\<open>gdb_jit\<close>, the heap trace, the crash
  handler, the splash screen, the shims for windows and bgfx, which get the addresses of library functions) do not
  change guest memory and are left out; so are messages.
\<close>

section \<open>State\<close>

datatype guest_run = Run_Dylib_Inits nat | Run_Init_Offsets | Run_Main u64 | Jump_Entry u64

record machismo =
  mm_res :: resolver_globals
  mm_tramp :: tramp
  mm_lr :: load_results
  mm_tlv :: "(u64 \<times> u64 \<times> u64) option"
  mm_runs :: "guest_run list"

text \<open>The system: the environments of the components, variables and text files, libraries, the initialisers of the pthread
  objects of Linux, the functions of the guest, and the uninitialised buffers of \<^verbatim>\<open>setup_stack64\<close>.\<close>

record main_env =
  me_image :: image_env
  me_res :: res_env
  me_tramp :: tramp_env
  me_getenv :: "cstr \<Rightarrow> cstr option"
  me_text :: "cstr \<Rightarrow> string option"
  me_mprotect :: "u64 \<Rightarrow> bool"
  me_qsort :: "sym_entry list \<Rightarrow> sym_entry list"
  me_wrapper :: "cstr \<Rightarrow> u64"
  me_prepare :: "cstr \<Rightarrow> cstr \<Rightarrow> mem \<Rightarrow> (int \<times> mem) option"
  me_shim_loaded :: bool
  me_mutex_init :: "u64 \<Rightarrow> mem \<Rightarrow> mem"
  me_cond_init :: "u64 \<Rightarrow> mem \<Rightarrow> mem"
  me_rwlock_init :: "u64 \<Rightarrow> mem \<Rightarrow> mem"
  me_guest :: "u64 \<Rightarrow> mem \<Rightarrow> mem"
  me_elf_calls :: u64
  me_junk1 :: "u8 list"
  me_junk2 :: "u8 list"

definition guest_mem :: "machismo \<Rightarrow> mem" where "guest_mem s = p_mem (mm_res s)"

definition set_mem :: "mem \<Rightarrow> machismo \<Rightarrow> machismo" where
  "set_mem m s = s\<lparr>mm_res := (mm_res s)\<lparr>p_mem := m\<rparr>\<rparr>"

section \<open>The command line\<close>

text \<open>The index of the program among the arguments; \<^const>\<open>None\<close> when the usage is printed.\<close>

fun parse_flags :: "cstr list \<Rightarrow> nat \<Rightarrow> nat option" where
  "parse_flags [] i = None"
| "parse_flags (a # as) i =
    (if at0 a 0 \<noteq> CHR ''-'' then Some i
     else if a = ''-v'' \<or> a = ''--verbose'' then parse_flags as (i + 1)
     else if a = ''--'' then (if as = [] then None else Some (i + 1))
     else None)"

text \<open>The configuration: the file the environment names, or one in the working directory or next to the binary; failing that,
  three variables.\<close>

definition dir_of :: "cstr \<Rightarrow> cstr option" where
  "dir_of path = (if CHR ''/'' \<in> set path then Some (rev (drop 1 (dropWhile (\<lambda>c. c \<noteq> CHR ''/'') (rev path)))) else None)"

definition env_config :: "main_env \<Rightarrow> machismo_config \<Rightarrow> machismo_config" where
  "env_config env cfg =
    (let cfg = (case me_getenv env ''MACHISMO_DYLIB_MAP'' of None \<Rightarrow> cfg | Some v \<Rightarrow> cfg\<lparr>mc_dylib_map := Some v\<rparr>);
         cfg = (case me_getenv env ''MACHISMO_PATCHES'' of None \<Rightarrow> cfg | Some v \<Rightarrow> cfg\<lparr>mc_patches := Some v\<rparr>)
     in case me_getenv env ''MACHISMO_TRAMPOLINE_LIB'' of None \<Rightarrow> cfg
        | Some lib \<Rightarrow> cfg\<lparr>mc_trampolines := [zero_trampoline\<lparr>tc_lib := Some lib,
            tc_prefixes := [case me_getenv env ''MACHISMO_TRAMPOLINE_PREFIX'' of None \<Rightarrow> ''_SDL_'' | Some p \<Rightarrow> p]\<rparr>]\<rparr>)"

definition load_config :: "main_env \<Rightarrow> cstr \<Rightarrow> machismo_config" where
  "load_config env binary =
    (let (loaded, cfg) =
       (case me_getenv env ''MACHISMO_CONFIG'' of
          Some path \<Rightarrow>
            if path = ''none'' then (False, zero_config)
            else let (r, cfg) = config_load (me_text env path) zero_config in (r = 0, cfg)
        | None \<Rightarrow>
            let (r, cfg) = config_load (me_text env ''machismo.conf'') zero_config
            in if r = 0 then (True, cfg)
               else
                 let conf_buf = take 4095 (case dir_of binary of Some d \<Rightarrow> d @ ''/machismo.conf'' | None \<Rightarrow> ''machismo.conf'');
                     (r, cfg) = config_load (me_text env conf_buf) cfg
                 in (r = 0, cfg))
     in if loaded then cfg else env_config env cfg)"

section \<open>Instructions older processors lack\<close>

definition rcpc_downgrade :: "u32 \<Rightarrow> u32" where
  "rcpc_downgrade w = (if w AND 0x3FFFFC00 = 0x38BFC000 then (w AND 0xC00003FF) OR 0x08DFFC00 else w)"

definition read_words :: "mem \<Rightarrow> u64 \<Rightarrow> nat \<Rightarrow> u32 list" where
  "read_words m a n = map (\<lambda>j. load32 m (a + 4 * of_nat j)) [0..<n]"

fun write_words :: "mem \<Rightarrow> u64 \<Rightarrow> u32 list \<Rightarrow> mem" where
  "write_words m a [] = m"
| "write_words m a (w # ws) = write_words (store32 m a w) (a + 4) ws"

definition rcpc_pass :: "u64 \<Rightarrow> nat \<Rightarrow> mem \<Rightarrow> mem" where
  "rcpc_pass a n m = write_words m a (map rcpc_downgrade (read_words m a n))"

text \<open>The emulation of atomics on memory, with the pool pointer; a null pointer leaves it out.\<close>

definition lse_pass :: "u64 \<Rightarrow> nat \<Rightarrow> u64 \<Rightarrow> mem \<times> u64 \<Rightarrow> mem \<times> u64" where
  "lse_pass a n pool_end mp =
    (case mp of (m, cur) \<Rightarrow>
       if cur = 0 then (m, cur)
       else let (code', pool, cur', _) = isa_emul_patch a (read_words m a n) cur pool_end
            in (write_words (write_words m a code') cur pool, cur'))"

definition downgrade_code :: "u64 \<Rightarrow> u64 \<Rightarrow> u64 \<Rightarrow> mem \<times> u64 \<Rightarrow> mem \<times> u64" where
  "downgrade_code a bytes pool_end mp =
    (case mp of (m, cur) \<Rightarrow> lse_pass a (unat (bytes div 4)) pool_end (rcpc_pass a (unat (bytes div 4)) m, cur))"

definition code_section :: "section_64 \<Rightarrow> bool" where
  "code_section sect \<longleftrightarrow> sec_flags sect AND S_ATTR_SOME_INSTRUCTIONS \<noteq> 0 \<or> sec_flags sect AND S_ATTR_PURE_INSTRUCTIONS \<noteq> 0"

text \<open>In the executable only the code sections of executable segments are patched.\<close>

definition downgrade_segment :: "u64 \<Rightarrow> u64 \<Rightarrow> segment_command_64 \<Rightarrow> resolver_globals \<times> u64 \<Rightarrow> resolver_globals \<times> u64" where
  "downgrade_segment slide pool_end seg gc =
    (case gc of (g, cur) \<Rightarrow>
       if seg_maxprot seg AND VM_PROT_EXECUTE = 0 then (g, cur)
       else
         let a = seg_vmaddr seg + slide;
             g = set_prot a (seg_vmsize seg) 7 g;
             (m, cur) = fold (\<lambda>sect. downgrade_code (sec_addr sect + slide) (sec_size sect) pool_end)
                          (filter code_section (read_sections (p_mem g) seg)) (p_mem g, cur)
         in (set_prot a (seg_vmsize seg) (native_prot (seg_initprot seg)) (g\<lparr>p_mem := m\<rparr>), cur))"

definition LSE_POOL_SIZE :: u64 where "LSE_POOL_SIZE = 512 * 1024"

definition downgrade_image :: "machismo \<Rightarrow> machismo" where
  "downgrade_image s =
    (let (pool, lr) = machismo_pool_alloc (mm_lr s) LSE_POOL_SIZE;
         (g, _) = fold (downgrade_segment (lr_slide lr) (if pool = 0 then 0 else pool + LSE_POOL_SIZE))
                    (bounded_segments (guest_mem s) (lr_mh lr)) (mm_res s, pool)
     in s\<lparr>mm_lr := lr, mm_res := g\<rparr>)"

text \<open>In a dylib the whole of each executable segment is.\<close>

definition downgrade_dylib_segment ::
  "u64 \<Rightarrow> u64 \<Rightarrow> segment_command_64 \<Rightarrow> resolver_globals \<times> u64 \<Rightarrow> resolver_globals \<times> u64" where
  "downgrade_dylib_segment slide pool_end seg gc =
    (case gc of (g, cur) \<Rightarrow>
       if seg_maxprot seg AND VM_PROT_EXECUTE = 0 then (g, cur)
       else
         let a = seg_vmaddr seg + slide;
             g = set_prot a (seg_vmsize seg) 7 g;
             (m, cur) = downgrade_code a (seg_vmsize seg) pool_end (p_mem g, cur)
         in (set_prot a (seg_vmsize seg) (native_prot (seg_initprot seg)) (g\<lparr>p_mem := m\<rparr>), cur))"

definition downgrade_dylib :: "macho_dylib_info \<Rightarrow> resolver_globals \<Rightarrow> resolver_globals" where
  "downgrade_dylib mdi g =
    fst (fold (downgrade_dylib_segment (md_slide mdi) (if md_pool_base mdi = 0 then 0 else md_pool_base mdi + md_pool_size mdi))
           (bounded_segments (p_mem g) (md_mh mdi)) (g, md_pool_base mdi))"

section \<open>Darwin pthread objects\<close>

definition DARWIN_MUTEX_SIG :: u64 where "DARWIN_MUTEX_SIG = 0x32AAABA7"
definition DARWIN_RMUTEX_SIG :: u64 where "DARWIN_RMUTEX_SIG = 0x32AAABA1"
definition DARWIN_RECURSIVE_MUTEX_SIG :: u64 where "DARWIN_RECURSIVE_MUTEX_SIG = 0x32AAABA2"
definition DARWIN_FIRSTFIT_MUTEX_SIG :: u64 where "DARWIN_FIRSTFIT_MUTEX_SIG = 0x32AAABA3"
definition DARWIN_COND_SIG :: u64 where "DARWIN_COND_SIG = 0x3CB0B1BB"
definition DARWIN_RWLOCK_SIG :: u64 where "DARWIN_RWLOCK_SIG = 0x2DA8B3B4"
definition DARWIN_ONCE_SIG :: u64 where "DARWIN_ONCE_SIG = 0x30B1BCBA"

definition zero_bytes :: "mem \<Rightarrow> u64 \<Rightarrow> nat \<Rightarrow> mem" where
  "zero_bytes m a n = (\<lambda>b. if in_range b a n then 0 else m b)"

definition try_fixup_pthread_at :: "main_env \<Rightarrow> u64 \<Rightarrow> mem \<Rightarrow> mem" where
  "try_fixup_pthread_at env addr m =
    (let sig = load m addr 8 in
     if sig \<in> {DARWIN_MUTEX_SIG, DARWIN_RMUTEX_SIG, DARWIN_RECURSIVE_MUTEX_SIG, DARWIN_FIRSTFIT_MUTEX_SIG}
     then me_mutex_init env addr (zero_bytes m addr 64)
     else if sig = DARWIN_COND_SIG then me_cond_init env addr (zero_bytes m addr 48)
     else if sig = DARWIN_RWLOCK_SIG then me_rwlock_init env addr (zero_bytes m addr 64)
     else if sig = DARWIN_ONCE_SIG then zero_bytes m addr 16
     else m)"

definition fixup_segment :: "main_env \<Rightarrow> u64 \<Rightarrow> segment_command_64 \<Rightarrow> mem \<Rightarrow> mem" where
  "fixup_segment env slide seg m =
    (if seg_initprot seg AND 2 = 0 then m
     else fold (\<lambda>k. try_fixup_pthread_at env (seg_vmaddr seg + slide + 8 * of_nat k)) [0..<unat (seg_filesize seg) div 8] m)"

definition fixup_darwin_pthread_data :: "main_env \<Rightarrow> load_results \<Rightarrow> mem \<Rightarrow> mem" where
  "fixup_darwin_pthread_data env lr m = fold (fixup_segment env (lr_slide lr)) (bounded_segments m (lr_mh lr)) m"

text \<open>In a dylib the words of a segment are compared with one signature, and a mutex of Linux, 48 bytes on arm64, is skipped. The
  remaining bytes are the third argument.\<close>

fun scan_dylib_mutexes :: "main_env \<Rightarrow> u64 \<Rightarrow> nat \<Rightarrow> mem \<Rightarrow> mem" where
  "scan_dylib_mutexes env a n m =
    (if n < 4 then m
     else if load32 m a = 0x32AAABA7 then scan_dylib_mutexes env (a + 48) (n - 48) (me_mutex_init env a m)
     else scan_dylib_mutexes env (a + 4) (n - 4) m)"

declare scan_dylib_mutexes.simps [simp del]

definition fixup_dylib :: "main_env \<Rightarrow> macho_dylib_info \<Rightarrow> mem \<Rightarrow> mem" where
  "fixup_dylib env mdi m =
    fold (\<lambda>seg m. if seg_initprot seg AND 2 = 0 then m
                  else scan_dylib_mutexes env (seg_vmaddr seg + md_slide mdi) (unat (seg_vmsize seg)) m)
      (bounded_segments m (md_mh mdi)) m"

section \<open>Thread-local variables and initialisers\<close>

definition tlv_image :: "mem \<Rightarrow> load_results \<Rightarrow> u64 \<times> u64 \<times> u64" where
  "tlv_image m lr =
    fold (\<lambda>sect (base, size, bss).
       let (base, size) = (if sec_flags sect AND 0xff = 0x11 then (sec_addr sect + lr_slide lr, sec_size sect) else (base, size));
           bss = (if sec_flags sect AND 0xff = 0x12 then sec_size sect else bss)
       in (base, size, bss))
    (concat (map (read_sections m) (bounded_segments m (lr_mh lr)))) (0, 0, 0)"

definition setup_tlv_image :: "main_env \<Rightarrow> machismo \<Rightarrow> machismo" where
  "setup_tlv_image env s = (if me_shim_loaded env then s\<lparr>mm_tlv := Some (tlv_image (guest_mem s) (mm_lr s))\<rparr> else s)"

definition run_init_offsets :: "main_env \<Rightarrow> load_results \<Rightarrow> mem \<Rightarrow> mem" where
  "run_init_offsets env lr m =
     run_command_inits (me_guest env) (lr_mh lr) (lr_slide lr) (unat (mh_ncmds (read_header m (lr_mh lr)))) 0 m"

section \<open>The stages of start-up\<close>

text \<open>A stage goes on with \<open>Running\<close>, or ends the program: \<^verbatim>\<open>return\<close> from \<^verbatim>\<open>main\<close>, \<^verbatim>\<open>abort\<close>, or the entry into the guest.
  \<open>Diverges\<close> stands for a bind or rebase stream whose interpretation does not end.\<close>

datatype main_result = Running | Exit int | Abort | Entered | Diverges

definition then_stage :: "main_result \<times> machismo \<Rightarrow> (machismo \<Rightarrow> main_result \<times> machismo) \<Rightarrow> main_result \<times> machismo" where
  "then_stage r f = (case r of (Running, s) \<Rightarrow> f s | _ \<Rightarrow> r)"

text \<open>The dylibs that are loaded by now, and those that resolving them loads.\<close>

partial_function (option) resolve_dylibs :: "main_env \<Rightarrow> cstr option \<Rightarrow> nat \<Rightarrow> resolver_globals \<Rightarrow> (bool \<times> resolver_globals) option" where
  "resolve_dylibs env conf i g =
    (if i < length (g_macho_dylibs g)
     then Option.bind (resolver_resolve_fixups (me_res env) (md_mh (g_macho_dylibs g ! i)) (md_slide (g_macho_dylibs g ! i)) conf g)
            (\<lambda>r. if fst r then resolve_dylibs env conf (i + 1) (resolver_globals.truncate (snd r))
                 else Some (False, resolver_globals.truncate (snd r)))
     else Some (True, g))"

definition run_dylib_inits :: "main_env \<Rightarrow> machismo \<Rightarrow> machismo" where
  "run_dylib_inits env s =
    fold (\<lambda>i s. (set_mem (dylib_loader_run_inits (me_guest env) (g_macho_dylibs (mm_res s) ! i) (guest_mem s)) s)
               \<lparr>mm_runs := mm_runs s @ [Run_Dylib_Inits i]\<rparr>)
      [0..<length (g_macho_dylibs (mm_res s))] s"

definition stage_link :: "main_env \<Rightarrow> machismo_config \<Rightarrow> machismo \<Rightarrow> main_result \<times> machismo" where
  "stage_link env cfg s =
    (if lr_mh (mm_lr s) = 0 \<or> mc_dylib_map cfg = None then (Running, s)
     else
       case resolver_resolve_fixups (me_res env) (lr_mh (mm_lr s)) (lr_slide (mm_lr s)) (mc_dylib_map cfg) (mm_res s) of
         None \<Rightarrow> (Diverges, s)
       | Some (ok, rs) \<Rightarrow>
         let s = s\<lparr>mm_res := resolver_globals.truncate rs\<rparr> in
         if \<not> ok then (Exit 1, s)
         else
           case resolve_dylibs env (mc_dylib_map cfg) 0 (mm_res s) of
             None \<Rightarrow> (Diverges, s)
           | Some (ok, g) \<Rightarrow>
             let s = s\<lparr>mm_res := g\<rparr> in
             if \<not> ok then (Exit 1, s)
             else
               let s = set_mem (fold (fixup_dylib env) (g_macho_dylibs g) (guest_mem s)) s;
                   s = s\<lparr>mm_res := fold downgrade_dylib (g_macho_dylibs g) (mm_res s)\<rparr>
               in (Running, if mc_audit_only cfg then s else run_dylib_inits env s))"

definition stage_audit :: "machismo_config \<Rightarrow> machismo \<Rightarrow> main_result \<times> machismo" where
  "stage_audit cfg s = (if mc_audit_only cfg then (Exit 0, s) else (Running, s))"

definition stage_data :: "main_env \<Rightarrow> machismo \<Rightarrow> main_result \<times> machismo" where
  "stage_data env s =
    (Running, if lr_mh (mm_lr s) = 0 then s
              else setup_tlv_image env (set_mem (fixup_darwin_pthread_data env (mm_lr s) (guest_mem s)) s))"

text \<open>Trampolines work on the same memory.\<close>

definition enter_tramp :: "machismo \<Rightarrow> tramp" where "enter_tramp s = (mm_tramp s)\<lparr>t_mem := guest_mem s\<rparr>"

definition leave_tramp :: "tramp \<Rightarrow> machismo \<Rightarrow> machismo" where "leave_tramp t s = (set_mem (t_mem t) s)\<lparr>mm_tramp := t\<rparr>"

definition sdl_overrides :: "main_env \<Rightarrow> (cstr \<times> u64) list" where
  "sdl_overrides env =
    [(''_SDL_CreateWindow'', me_wrapper env ''sdl_create_window_wrapper''),
     (''_SDL_SetWindowFullscreen'', me_wrapper env ''sdl_set_window_fullscreen_wrapper'')]"

definition bgfx_overrides :: "main_env \<Rightarrow> (cstr \<times> u64) list" where
  "bgfx_overrides env = map (\<lambda>(name, wrapper). (name, me_wrapper env wrapper))
    [(''_bgfx_init'', ''bgfx_init_wrapper''), (''__ZN4bgfx4initERKNS_4InitE'', ''bgfx_init_wrapper''),
     (''_bgfx_frame'', ''bgfx_frame_wrapper''), (''__ZN4bgfx5frameEb'', ''bgfx_frame_wrapper''),
     (''_bgfx_reset'', ''bgfx_reset_wrapper''), (''__ZN4bgfx5resetEjjjNS_13TextureFormat4EnumE'', ''bgfx_reset_wrapper''),
     (''_bgfx_set_view_rect'', ''bgfx_set_view_rect_wrapper''), (''__ZN4bgfx11setViewRectEttttt'', ''bgfx_set_view_rect_wrapper''),
     (''_bgfx_set_view_transform'', ''bgfx_set_view_transform_wrapper''),
     (''__ZN4bgfx16setViewTransformEtPKvS1_'', ''bgfx_set_view_transform_wrapper''),
     (''_bgfx_get_caps'', ''bgfx_get_caps_wrapper''), (''__ZN4bgfx7getCapsEv'', ''bgfx_get_caps_wrapper''),
     (''__ZN4bgfx7Encoder12setTransformEPKvt'', ''bgfx_encoder_set_transform_wrapper''),
     (''__ZN4bgfx7Encoder6submitEtNS_13ProgramHandleEjh'', ''bgfx_encoder_submit_wrapper'')]"

definition open_handle :: "u64 \<Rightarrow> tramp \<Rightarrow> tramp" where
  "open_handle h t = (if h = 0 then t else t\<lparr>t_handles := h # t_handles t\<rparr>)"

definition patch_config :: "main_env \<Rightarrow> load_results \<Rightarrow> machismo_trampoline_config \<Rightarrow> tramp \<Rightarrow> tramp" where
  "patch_config env lr tc t =
    (let te = me_tramp env;
         t = (case tc_override_lib tc of None \<Rightarrow> t
              | Some ol \<Rightarrow>
                  let oh = te_dlopen te (Some ol); t = open_handle oh t
                  in if oh = 0 then t else snd (trampoline_patch_overrides te (lr_mh lr) (lr_slide lr) oh (tc_match_local tc) t))
     in if tc_lib tc = None \<or> tc_prefixes tc = [] then t
        else
          let overrides = (if ''_SDL_'' \<in> set (tc_prefixes tc) then sdl_overrides env else []);
              h = (if tc_init_wrapper tc then te_dlopen te (tc_lib tc) else 0);
              t = open_handle h t;
              overrides = (if h = 0 then overrides else bgfx_overrides env)
          in snd (trampoline_patch_lib te (lr_mh lr) (lr_slide lr) (tc_lib tc) (tc_prefixes tc) overrides t))"

definition guard_prefixes :: "machismo_config \<Rightarrow> cstr list" where
  "guard_prefixes cfg =
     take 64 (concat (map tc_prefixes (filter (\<lambda>tc. tc_lib tc \<noteq> None \<and> tc_lib tc \<noteq> Some ''STUB'') (mc_trampolines cfg))))"

definition TRAMP_POOL_SIZE :: u64 where "TRAMP_POOL_SIZE = 1024 * 1024"

definition stage_trampolines :: "main_env \<Rightarrow> machismo_config \<Rightarrow> machismo \<Rightarrow> main_result \<times> machismo" where
  "stage_trampolines env cfg s =
    (if lr_mh (mm_lr s) = 0 then (Running, s)
     else
       let (pool, lr) = machismo_pool_alloc (mm_lr s) TRAMP_POOL_SIZE;
           s = s\<lparr>mm_lr := lr\<rparr>;
           t = enter_tramp s;
           t = (if pool = 0 then t else trampoline_set_pool pool TRAMP_POOL_SIZE t);
           (ok, t) = (case mc_address_hooks cfg of None \<Rightarrow> (True, t)
                      | Some hooks \<Rightarrow>
                          let (r, t) = trampoline_patch_addresses (me_tramp env) (lr_mh lr) (lr_slide lr) (Some hooks) t
                          in (r \<ge> 0, t))
       in if \<not> ok then (Exit 1, leave_tramp t s)
          else
            let t = fold (patch_config env lr) (mc_trampolines cfg) t;
                t = (if guard_prefixes cfg = [] then t
                     else trampoline_guard_stale_data (me_tramp env) (lr_mh lr) (lr_slide lr) (guard_prefixes cfg) t)
            in (Running, leave_tramp t s))"

text \<open>The patcher asks the resolver for the symbols of the image.\<close>

definition main_patch_env :: "main_env \<Rightarrow> machismo \<Rightarrow> patch_env" where
  "main_patch_env env s =
    (let m = guest_mem s; mh = lr_mh (mm_lr s); slide = lr_slide (mm_lr s)
     in \<lparr>pe_mh = (mh \<noteq> 0), pe_slide = slide, pe_lookup = resolver_lookup_symbol m mh slide,
         pe_extent = (\<lambda>name. fst (resolver_symbol_extent (me_qsort env) m mh slide name empty_cache)),
         pe_page_size = of_nat (os_page_size (me_image env)), pe_mprotect = me_mprotect env\<rparr>)"

definition stage_patches :: "main_env \<Rightarrow> machismo_config \<Rightarrow> machismo \<Rightarrow> main_result \<times> machismo" where
  "stage_patches env cfg s =
    (case mc_patches cfg of None \<Rightarrow> (Running, s)
     | Some path \<Rightarrow>
         let (m, r) = patcher_apply (main_patch_env env s) (me_text env path) (guest_mem s); s = set_mem m s
         in if r < 0 then (Abort, s) else (Running, s))"

definition stage_entry :: "machismo_config \<Rightarrow> machismo \<Rightarrow> main_result \<times> machismo" where
  "stage_entry cfg s =
    (let lr = mm_lr s in
     if \<not> mc_has_entry_override cfg then (Running, s)
     else if mc_entry_expected cfg = None \<or>
       trampoline_validate_function (guest_mem s) (lr_mh lr) (lr_slide lr) (mc_entry_override cfg) (mc_entry_expected cfg) < 0
     then (Exit 1, s)
     else if mc_entry_override cfg > - 1 - lr_slide lr then (Exit 1, s)
     else (Running, s\<lparr>mm_lr := lr\<lparr>lr_entry_point := mc_entry_override cfg + lr_slide lr, lr_lc_main := True\<rparr>\<rparr>))"

definition stage_prepare :: "main_env \<Rightarrow> machismo_config \<Rightarrow> machismo \<Rightarrow> main_result \<times> machismo" where
  "stage_prepare env cfg s =
    (case (mc_entry_prepare_lib cfg, mc_entry_prepare_symbol cfg) of
       (None, None) \<Rightarrow> (Running, s)
     | (Some lib, Some symb) \<Rightarrow>
         (case me_prepare env lib symb (guest_mem s) of
            None \<Rightarrow> (Exit 1, s)
          | Some (r, m) \<Rightarrow> if r \<noteq> 0 then (Exit 1, set_mem m s) else (Running, set_mem m s))
     | _ \<Rightarrow> (Exit 1, s))"

definition start_thread :: "main_env \<Rightarrow> machismo \<Rightarrow> machismo" where
  "start_thread env s =
    (let lr = mm_lr s in
     if lr_lc_main lr
     then (set_mem (run_init_offsets env lr (guest_mem s)) s)\<lparr>mm_runs := mm_runs s @ [Run_Init_Offsets, Run_Main (lr_entry_point lr)]\<rparr>
     else s\<lparr>mm_runs := mm_runs s @ [Jump_Entry (lr_entry_point lr)]\<rparr>)"

definition stage_start :: "main_env \<Rightarrow> cstr \<Rightarrow> machismo \<Rightarrow> main_result \<times> machismo" where
  "stage_start env filename s =
    (let (lr, m) = setup_stack64 (me_elf_calls env) (me_junk1 env) (me_junk2 env) filename (mm_lr s) (guest_mem s)
     in (Entered, start_thread env (set_mem m (s\<lparr>mm_lr := lr\<rparr>))))"

text \<open>The arguments come with their addresses.\<close>

definition start_results :: "cstr list \<Rightarrow> u64 list \<Rightarrow> u64 list \<Rightarrow> load_results \<Rightarrow> load_results" where
  "start_results args argv envp lr =
     lr\<lparr>lr_kernfd := - 1, lr_argc := of_nat (length args), lr_argv := argv, lr_envc := of_nat (length envp), lr_envp := envp\<rparr>"

definition machismo_main :: "main_env \<Rightarrow> cstr list \<Rightarrow> u64 list \<Rightarrow> u64 list \<Rightarrow> machismo \<Rightarrow> main_result \<times> machismo" where
  "machismo_main env args argv envp s =
    (let lr = start_results args argv envp (mm_lr s)
     in case parse_flags (drop 1 args) 1 of
          None \<Rightarrow> (Exit 1, s\<lparr>mm_lr := lr\<rparr>)
        | Some i \<Rightarrow>
          (case load_image (me_image env) (args ! i) 0 False lr (mm_res s) of
             (None, g) \<Rightarrow> (Exit 1, s\<lparr>mm_lr := lr, mm_res := g\<rparr>)
           | (Some lr, g) \<Rightarrow>
             let lr = lr\<lparr>lr_argc := of_nat (length args - i), lr_argv := drop i argv\<rparr>;
                 s = s\<lparr>mm_lr := lr, mm_res := g\<rparr>;
                 cfg = load_config env (args ! i);
                 s = (if lr_mh lr = 0 then s else downgrade_image s)
             in then_stage (then_stage (then_stage (then_stage (then_stage (then_stage (then_stage
                  (stage_link env cfg s) (stage_audit cfg)) (stage_data env)) (stage_trampolines env cfg)) (stage_patches env cfg))
                  (stage_entry cfg)) (stage_prepare env cfg)) (stage_start env (args ! i))))"

end
