(* ===== verification/Machismo_Safe.thy ===== *)
theory Machismo_Safe
  imports Machismo_Main
begin

text \<open>
  When guest code runs: not before the images are linked, never in an audit, and the program itself only after
  every check of start-up has passed, at the entry point of the image or at the validated override.
\<close>

section \<open>What the stages keep\<close>

definition same_entry :: "load_results \<Rightarrow> load_results \<Rightarrow> bool" where
  "same_entry lr lr' \<longleftrightarrow> lr_mh lr' = lr_mh lr \<and> lr_slide lr' = lr_slide lr \<and> lr_entry_point lr' = lr_entry_point lr \<and>
     lr_lc_main lr' = lr_lc_main lr"

lemma same_entry_refl [simp]: "same_entry lr lr" by (simp add: same_entry_def)

lemma same_entry_trans [trans]: "same_entry a b \<Longrightarrow> same_entry b c \<Longrightarrow> same_entry a c" by (simp add: same_entry_def)

definition keeps :: "machismo \<Rightarrow> machismo \<Rightarrow> bool" where
  "keeps s s' \<longleftrightarrow> mm_runs s' = mm_runs s \<and> same_entry (mm_lr s) (mm_lr s')"

lemma keeps_refl [simp]: "keeps s s" by (simp add: keeps_def)

lemma keeps_trans: "keeps a b \<Longrightarrow> keeps b c \<Longrightarrow> keeps a c"
  by (auto simp: keeps_def intro: same_entry_trans)

lemma keeps_updates [simp]:
  "mm_runs (set_mem m s) = mm_runs s" "mm_lr (set_mem m s) = mm_lr s"
  "mm_runs (leave_tramp t s) = mm_runs s" "mm_lr (leave_tramp t s) = mm_lr s"
  "mm_runs (setup_tlv_image env s) = mm_runs s" "mm_lr (setup_tlv_image env s) = mm_lr s"
  by (simp_all add: set_mem_def leave_tramp_def setup_tlv_image_def)

lemma pool_alloc_same_entry: "machismo_pool_alloc lr n = (p, lr') \<Longrightarrow> same_entry lr lr'"
  by (auto simp: machismo_pool_alloc_def same_entry_def Let_def split: if_splits)

lemma downgrade_keeps: "keeps s (downgrade_image s)"
  using pool_alloc_same_entry [of "mm_lr s" LSE_POOL_SIZE] by (auto simp: downgrade_image_def keeps_def split: prod.split)

lemma run_dylib_inits_runs:
  "mm_runs (run_dylib_inits env s) = mm_runs s @ map Run_Dylib_Inits [0..<length (g_macho_dylibs (mm_res s))]"
  "mm_lr (run_dylib_inits env s) = mm_lr s"
proof -
  have "mm_runs (fold (\<lambda>i s. (set_mem (dylib_loader_run_inits (me_guest env) (g_macho_dylibs (mm_res s) ! i) (guest_mem s)) s)
      \<lparr>mm_runs := mm_runs s @ [Run_Dylib_Inits i]\<rparr>) is s) = mm_runs s @ map Run_Dylib_Inits is \<and>
    mm_lr (fold (\<lambda>i s. (set_mem (dylib_loader_run_inits (me_guest env) (g_macho_dylibs (mm_res s) ! i) (guest_mem s)) s)
      \<lparr>mm_runs := mm_runs s @ [Run_Dylib_Inits i]\<rparr>) is s) = mm_lr s" for "is" s
    by (induction "is" arbitrary: s) auto
  then show "mm_runs (run_dylib_inits env s) = mm_runs s @ map Run_Dylib_Inits [0..<length (g_macho_dylibs (mm_res s))]"
    "mm_lr (run_dylib_inits env s) = mm_lr s" unfolding run_dylib_inits_def by blast+
qed

lemma stage_link_runs:
  assumes "stage_link env cfg s = (r, s')"
  shows "mm_lr s' = mm_lr s" "r \<in> {Running, Exit 1, Diverges}"
    "mc_audit_only cfg \<or> r \<noteq> Running \<Longrightarrow> mm_runs s' = mm_runs s"
    "\<exists>k. mm_runs s' = mm_runs s @ map Run_Dylib_Inits [0..<k]"
proof -
  have "mm_lr s' = mm_lr s \<and> r \<in> {Running, Exit 1, Diverges} \<and> (mc_audit_only cfg \<or> r \<noteq> Running \<longrightarrow> mm_runs s' = mm_runs s) \<and>
    (mm_runs s' = mm_runs s \<or> (\<exists>k. mm_runs s' = mm_runs s @ map Run_Dylib_Inits [0..<k]))"
    using assms by (auto simp: stage_link_def Let_def run_dylib_inits_runs split: if_splits option.splits prod.splits)
  moreover have "mm_runs s = mm_runs s @ map Run_Dylib_Inits [0..<0]" by simp
  ultimately show "mm_lr s' = mm_lr s" "r \<in> {Running, Exit 1, Diverges}"
    "mc_audit_only cfg \<or> r \<noteq> Running \<Longrightarrow> mm_runs s' = mm_runs s"
    "\<exists>k. mm_runs s' = mm_runs s @ map Run_Dylib_Inits [0..<k]" by metis+
qed

text \<open>The stages between linking and the start, as one.\<close>

definition prepare_stages :: "main_env \<Rightarrow> machismo_config \<Rightarrow> machismo \<Rightarrow> main_result \<times> machismo" where
  "prepare_stages env cfg s =
    then_stage (then_stage (then_stage (then_stage (then_stage (stage_audit cfg s) (stage_data env)) (stage_trampolines env cfg))
      (stage_patches env cfg)) (stage_entry cfg)) (stage_prepare env cfg)"

lemma then_stage_assoc: "then_stage (then_stage r f) g = then_stage r (\<lambda>s. then_stage (f s) g)"
  by (auto simp: then_stage_def split: prod.split main_result.split)

lemma then_stage_simps [simp]: "then_stage (Running, s) f = f s" "r \<noteq> Running \<Longrightarrow> then_stage (r, s) f = (r, s)"
  by (cases r; simp add: then_stage_def)+

lemma then_stage_cases:
  assumes "then_stage r f = (x, s')"
  obtains (stop) "r = (x, s')" "x \<noteq> Running" | (go) s where "r = (Running, s)" "f s = (x, s')"
  using assms by (cases r) (auto simp: then_stage_def split: main_result.splits)

lemma stage_keeps:
  "stage_audit cfg s = (r, s') \<Longrightarrow> keeps s s'" "stage_data env s = (r, s') \<Longrightarrow> keeps s s'"
  "stage_trampolines env cfg s = (r, s') \<Longrightarrow> keeps s s'" "stage_patches env cfg s = (r, s') \<Longrightarrow> keeps s s'"
  "stage_prepare env cfg s = (r, s') \<Longrightarrow> keeps s s'" "stage_entry cfg s = (r, s') \<Longrightarrow> mm_runs s' = mm_runs s"
proof -
  show "stage_trampolines env cfg s = (r, s') \<Longrightarrow> keeps s s'"
    using pool_alloc_same_entry [of "mm_lr s" TRAMP_POOL_SIZE]
    by (auto simp: stage_trampolines_def keeps_def Let_def split: if_splits prod.splits option.splits)
qed (auto simp: stage_audit_def stage_data_def stage_patches_def stage_prepare_def stage_entry_def keeps_def Let_def
      split: if_splits prod.splits option.splits)

lemma stage_not_entered [simp]:
  "stage_trampolines env cfg s \<noteq> (Entered, s')" "stage_patches env cfg s \<noteq> (Entered, s')" "stage_entry cfg s \<noteq> (Entered, s')"
  "stage_prepare env cfg s \<noteq> (Entered, s')"
  by (auto simp: stage_trampolines_def stage_patches_def stage_entry_def stage_prepare_def Let_def
      split: if_splits prod.splits option.splits)

lemma stage_entry_cases:
  assumes "stage_entry cfg s = (Running, s')"
  shows "if mc_has_entry_override cfg
    then mc_entry_expected cfg \<noteq> None \<and>
      trampoline_validate_function (guest_mem s) (lr_mh (mm_lr s)) (lr_slide (mm_lr s)) (mc_entry_override cfg) (mc_entry_expected cfg) \<ge> 0 \<and>
      unat (mc_entry_override cfg) + unat (lr_slide (mm_lr s)) < 2 ^ 64 \<and>
      lr_entry_point (mm_lr s') = mc_entry_override cfg + lr_slide (mm_lr s) \<and> lr_lc_main (mm_lr s')
    else s' = s"
proof -
  have "unat (- 1 - lr_slide (mm_lr s)) = 2 ^ 64 - 1 - unat (lr_slide (mm_lr s))"
    by (subst unat_sub) (simp_all add: unat_minus_one_word)
  moreover have "unat (lr_slide (mm_lr s)) < 2 ^ 64" using unsigned_less [of "lr_slide (mm_lr s)"] by simp
  ultimately show ?thesis
    using assms by (auto simp: stage_entry_def Let_def word_less_nat_alt not_less split: if_splits)
qed

text \<open>What start-up guarantees once it is about to enter the guest: \<open>lr\<close> is what the loader returned.\<close>

definition entry_checked :: "machismo_config \<Rightarrow> load_results \<Rightarrow> machismo \<Rightarrow> bool" where
  "entry_checked cfg lr s \<longleftrightarrow> \<not> mc_audit_only cfg \<and>
    (if mc_has_entry_override cfg
     then mc_entry_expected cfg \<noteq> None \<and>
       (\<exists>m. trampoline_validate_function m (lr_mh lr) (lr_slide lr) (mc_entry_override cfg) (mc_entry_expected cfg) \<ge> 0) \<and>
       unat (mc_entry_override cfg) + unat (lr_slide lr) < 2 ^ 64 \<and>
       lr_entry_point (mm_lr s) = mc_entry_override cfg + lr_slide lr \<and> lr_lc_main (mm_lr s)
     else lr_entry_point (mm_lr s) = lr_entry_point lr \<and> lr_lc_main (mm_lr s) = lr_lc_main lr)"

lemma prepare_stages_runs:
  assumes "prepare_stages env cfg s = (r, s')"
  shows "mm_runs s' = mm_runs s" "r \<noteq> Entered" "r = Running \<Longrightarrow> entry_checked cfg (mm_lr s) s'"
    "mc_audit_only cfg \<Longrightarrow> r = Exit 0"
proof -
  have "mm_runs s' = mm_runs s \<and> r \<noteq> Entered \<and> (r = Running \<longrightarrow> entry_checked cfg (mm_lr s) s') \<and> (mc_audit_only cfg \<longrightarrow> r = Exit 0)"
  proof (cases "mc_audit_only cfg")
    case True
    then show ?thesis using assms by (auto simp: prepare_stages_def stage_audit_def)
  next
    case False
    obtain s1 where s1: "stage_data env s = (Running, s1)" by (simp add: stage_data_def)
    obtain r2 s2 where s2: "stage_trampolines env cfg s1 = (r2, s2)" by fastforce
    obtain r3 s3 where s3: "then_stage (r2, s2) (stage_patches env cfg) = (r3, s3)" by fastforce
    obtain r4 s4 where s4: "then_stage (r3, s3) (stage_entry cfg) = (r4, s4)" by fastforce
    have fin: "then_stage (r4, s4) (stage_prepare env cfg) = (r, s')"
      using assms False s1 s2 s3 s4 by (simp add: prepare_stages_def stage_audit_def)
    have k2: "keeps s s2" "r2 \<noteq> Entered"
      using keeps_trans [OF stage_keeps(2) [OF s1] stage_keeps(3) [OF s2]] s2 by auto
    have k3: "keeps s s3" "r3 \<noteq> Entered"
      using s3 k2 by (auto elim!: then_stage_cases dest: stage_keeps(4) intro: keeps_trans)
    have k4: "mm_runs s4 = mm_runs s" "r4 \<noteq> Entered"
      using s4 k3 by (auto elim!: then_stage_cases dest: stage_keeps(6) simp: keeps_def)
    have k5: "mm_runs s' = mm_runs s" "r \<noteq> Entered"
      using fin k4 by (auto elim!: then_stage_cases dest: stage_keeps(5) simp: keeps_def)
    have "entry_checked cfg (mm_lr s) s'" if "r = Running"
    proof -
      have "r4 = Running" "stage_prepare env cfg s4 = (Running, s')" using fin that by (auto elim!: then_stage_cases)
      then have e: "stage_entry cfg s3 = (Running, s4)" using s4 by (auto elim!: then_stage_cases)
      have "keeps s4 s'" using stage_keeps(5) [OF \<open>stage_prepare env cfg s4 = (Running, s')\<close>] .
      then show ?thesis
        using stage_entry_cases [OF e] k3(1) False unfolding entry_checked_def keeps_def same_entry_def by (auto split: if_splits)
    qed
    then show ?thesis using k5 False by blast
  qed
  then show "mm_runs s' = mm_runs s" "r \<noteq> Entered" "r = Running \<Longrightarrow> entry_checked cfg (mm_lr s) s'"
    "mc_audit_only cfg \<Longrightarrow> r = Exit 0" by blast+
qed

section \<open>Start-up as a whole\<close>

lemma setup_stack_entry: "setup_stack64 e j1 j2 f lr m = (lr', m') \<Longrightarrow> same_entry lr lr'"
  unfolding setup_stack64_def Let_def by (auto simp: same_entry_def)

lemma stage_start_runs:
  assumes "stage_start env f s = (r, s')"
  shows "r = Entered" "same_entry (mm_lr s) (mm_lr s')"
    "mm_runs s' = mm_runs s @ (if lr_lc_main (mm_lr s') then [Run_Init_Offsets, Run_Main (lr_entry_point (mm_lr s'))]
       else [Jump_Entry (lr_entry_point (mm_lr s'))])"
proof -
  obtain lr m where run: "setup_stack64 (me_elf_calls env) (me_junk1 env) (me_junk2 env) f (mm_lr s) (guest_mem s) = (lr, m)" by fastforce
  have "r = Entered \<and> mm_lr s' = lr \<and> mm_runs s' = mm_runs s @ (if lr_lc_main lr then [Run_Init_Offsets, Run_Main (lr_entry_point lr)]
      else [Jump_Entry (lr_entry_point lr)])"
    using assms by (auto simp: stage_start_def run start_thread_def Let_def)
  then show "r = Entered" "same_entry (mm_lr s) (mm_lr s')"
    "mm_runs s' = mm_runs s @ (if lr_lc_main (mm_lr s') then [Run_Init_Offsets, Run_Main (lr_entry_point (mm_lr s'))]
       else [Jump_Entry (lr_entry_point (mm_lr s'))])"
    using setup_stack_entry [OF run] by simp_all
qed

lemma main_stages:
  assumes "machismo_main env args argv envp s = (r, s')" "parse_flags (drop 1 args) 1 = Some i"
  obtains (fail) "r = Exit 1" "mm_runs s' = mm_runs s"
      "fst (load_image (me_image env) (args ! i) 0 False (start_results args argv envp (mm_lr s)) (mm_res s)) = None"
  | (run) lr g s1 where "load_image (me_image env) (args ! i) 0 False (start_results args argv envp (mm_lr s)) (mm_res s) = (Some lr, g)"
      "mm_runs s1 = mm_runs s" "same_entry lr (mm_lr s1)"
      "then_stage (then_stage (stage_link env (load_config env (args ! i)) s1) (prepare_stages env (load_config env (args ! i))))
         (stage_start env (args ! i)) = (r, s')"
proof -
  obtain o1 g where load: "load_image (me_image env) (args ! i) 0 False (start_results args argv envp (mm_lr s)) (mm_res s) = (o1, g)" by fastforce
  note main = assms(1) [unfolded machismo_main_def Let_def, simplified assms(2) load option.case prod.case]
  show thesis
  proof (cases o1)
    case None
    then show thesis using main load by (intro fail) auto
  next
    case (Some lr)
    define s0 where "s0 = s\<lparr>mm_lr := lr\<lparr>lr_argc := of_nat (length args - i), lr_argv := drop i argv\<rparr>, mm_res := g\<rparr>"
    define s1 where "s1 = (if lr_mh lr = 0 then s0 else downgrade_image s0)"
    have "keeps s0 s1" using downgrade_keeps by (simp add: s1_def)
    then have "mm_runs s1 = mm_runs s" "same_entry lr (mm_lr s1)"
      by (auto simp: keeps_def s0_def same_entry_def)
    moreover have "then_stage (then_stage (stage_link env (load_config env (args ! i)) s1) (prepare_stages env (load_config env (args ! i))))
         (stage_start env (args ! i)) = (r, s')"
      using main Some unfolding prepare_stages_def then_stage_assoc s1_def s0_def by simp
    ultimately show thesis using run load Some by blast
  qed
qed

text \<open>C11: An audit executes no guest code: with \<^verbatim>\<open>audit_only\<close> in the configuration that is loaded, no initialiser and no entry point is
  run, whatever the image, the fixups and the libraries do, and start-up ends with exit code 0 or 1 (or not at all, if the image's
  opcode streams do not end).\<close>

theorem audit_runs_no_guest:
  assumes "machismo_main env args argv envp s = (r, s')" "parse_flags (drop 1 args) 1 = Some i"
    and "mc_audit_only (load_config env (args ! i))"
  shows "mm_runs s' = mm_runs s \<and> r \<in> {Exit 0, Exit 1, Diverges}"
  using assms(1,2)
proof (cases rule: main_stages)
  case (run lr g s1)
  let ?cfg = "load_config env (args ! i)"
  obtain r2 s2 where link: "stage_link env ?cfg s1 = (r2, s2)" by fastforce
  obtain r3 s3 where prep: "prepare_stages env ?cfg s2 = (r3, s3)" by fastforce
  have "mm_runs s2 = mm_runs s" "r2 \<in> {Running, Exit 1, Diverges}"
    using stage_link_runs(2,3) [OF link] assms(3) run(2) by simp_all
  moreover have "mm_runs s3 = mm_runs s2" "r3 = Exit 0" using prepare_stages_runs(1,4) [OF prep] assms(3) by simp_all
  ultimately show ?thesis using run(4) unfolding link by (cases "r2 = Running") (auto simp: prep)
qed simp


end
