(* ===== verification/Image_Example.thy ===== *)
theory Image_Example
  imports Image_Correct Mem_Image
begin

text \<open>An executable of one segment, and what loading it does.\<close>

definition exe_words :: "(u64 \<times> u64) list" where
  "exe_words = [(0, 0x0100000CFEEDFACF), (8, 0x0000000200000000), (16, 0x0000006000000002), (24, 0x0000000000200000),
     (32, 0x0000004800000019), (40, 0x0000545845545F5F), (56, 0x10000), (64, 0x1000), (80, 128), (88, 0x0000000500000005),
     (104, 0x0000001880000028), (112, 0x60)]"

definition exe_file :: "u8 list" where
  "exe_file = map (\<lambda>i. image exe_words (of_nat i)) [0..<128]"

definition ienv0 :: image_env where
  "ienv0 = \<lparr>os_page_size = 4096, os_mmap = (\<lambda>k h n. if unat n < 2 ^ 62 then 0x700000 else 0), os_fixed = (\<lambda>_. True),
     os_file = (\<lambda>_. Some exe_file), ie_ncpus = 4, ie_nactive = 4, ie_memory = Some 0x40000000, ie_hwcap = 0x1FB, ie_stack_limit = None\<rparr>"

definition ist0 :: process where "ist0 = \<lparr>p_mem = (\<lambda>_. 0), p_mmaps = 0, p_prots = []\<rparr>"

definition ilr0 :: load_results where
  "ilr0 = \<lparr>lr_mh = 0, lr_entry_point = 0, lr_stack_size = 0, lr_dyld_all_image_location = 0, lr_dyld_all_image_size = 0,
     lr_uuid = [], lr_vm_addr_max = 0, lr_base = 0, lr_root_path = None, lr_stack_top = 0, lr_slide = 0, lr_lc_main = False,
     lr_applep = [], lr_kernfd = - 1, lr_argc = 1, lr_envc = 0, lr_argv = [], lr_envp = [], lr_pool_base = 0, lr_pool_size = 0,
     lr_pool_used = 0\<rparr>"

abbreviation efm :: mem where "efm \<equiv> file_mem exe_file 0"

lemma exe_byte: "unat b < 128 \<Longrightarrow> efm b = image exe_words b"
  by (simp add: file_mem_def byte_at_def exe_file_def)

lemma exe_load:
  assumes "unat a + n \<le> 128"
  shows "load efm a n = load (image exe_words) a n"
proof (rule load_cong)
  fix b assume "in_range b a n"
  then have "unat (b - a) < n" by (simp add: in_range_def)
  then have "unat (a + (b - a)) < 128" using assms by (simp only: unat_word_ariths) simp
  then show "efm b = image exe_words b" by (simp add: exe_byte)
qed (use assms in simp)

lemma exe_load32: "unat a + 4 \<le> 128 \<Longrightarrow> load32 efm a = load32 (image exe_words) a"
  by (simp add: load32_def exe_load)

lemmas exe_eval = exe_load exe_load32 load8_image load32_image word_at_def exe_words_def

lemma exe_header:
  "mh_filetype (read_header efm 0) = 2" "mh_ncmds (read_header efm 0) = 2" "mh_sizeofcmds (read_header efm 0) = 96"
  "mh_flags (read_header efm 0) = 0x200000"
  by (simp_all add: read_header_def exe_eval)

definition exe_seg :: segment_command_64 where
  "exe_seg = \<lparr>seg_segname = 40, seg_vmaddr = 0x10000, seg_vmsize = 0x1000, seg_fileoff = 0,
     seg_filesize = 128, seg_maxprot = 5, seg_initprot = 5, seg_nsects = 0, seg_flags = 0, seg_sections = 104\<rparr>"

lemma exe_name: "mem_str efm 40 = ''__TEXT''"
  by (simp add: mem_str_def exe_byte) (simp add: image_def word_at_def exe_words_def char_of_def bit_0)

lemma exe_commands:
  "lc_cmd (read_command efm 32) = LC_SEGMENT_64" "lc_cmd (read_command efm 104) = LC_MAIN"
  "lc_cmdsize (read_command efm 32) = 72" "lc_cmdsize (read_command efm 104) = 24"
  "read_segment efm 32 = exe_seg"
  by (simp_all add: read_command_def exe_eval LC_SEGMENT_64_def LC_MAIN_def read_segment_def exe_seg_def)

lemma two_commands: "unat (2 :: u32) = Suc (Suc 0)" by simp

lemma exe_bounded: "bounded_commands efm 0 = [32, 104]" "unbounded_commands efm (Suc (Suc 0)) 0 = [32, 104]"
  unfolding bounded_commands_def exe_header two_commands by (simp_all add: exe_commands)

lemma exe_loadable: "loadable efm 32" "\<not> loadable efm 104"
proof -
  have "load32 efm 32 = LC_SEGMENT_64" by (simp add: exe_eval LC_SEGMENT_64_def)
  then show "loadable efm 32" by (simp add: loadable_def exe_commands(5)) (simp add: exe_seg_def exe_name)
  have "load32 efm 104 = 0x80000028" by (simp add: exe_eval)
  then show "\<not> loadable efm 104" by (simp add: loadable_def LC_SEGMENT_64_def)
qed

lemma exe_segs: "file_segments efm = [exe_seg]" "extent_segments efm = [exe_seg]"
  unfolding file_segments_def extent_segments_def exe_header two_commands exe_bounded by (simp_all add: exe_loadable exe_commands)

lemma exe_placed: "well_placed [exe_seg]" "image_ordered [exe_seg]"
  by (simp_all add: well_placed_def image_ordered_def exe_seg_def word_le_nat_alt)

lemma exe_main_command: "load_one env bytes efm fat slide 104 ls st = (Some (load_main_command efm 104 ls), st)"
  by (simp add: load_one_def exe_commands LC_MAIN_def LC_SEGMENT_64_def LC_UNIXTHREAD_def)

lemma exe_load64:
  fixes st :: "'a process_scheme"
  obtains lr' st' where "load64 ienv0 exe_file 0 False lr st = (Some lr', st')"
proof -
  obtain lr0 and st0 :: "'a process_scheme" where sp: "setup_space ienv0 lr st = (Some lr0, st0)"
    by (simp add: setup_space_def commpage_setup_def mmap_fixed_anon_def ienv0_def page_aligned_def Let_def ARM64_COMMPAGE_BASE_def
        ARM64_COMMPAGE_LENGTH_def commpage_address_def set_prot_def)
  have e: "image_extent [exe_seg] = (0x10000, 0x1000)" by (simp add: image_extent_def exe_seg_def Let_def)
  obtain lr1 st1 where r: "reserve_image ienv0 [exe_seg] lr0 (st0\<lparr>p_mmaps := p_mmaps st0 + 1\<rparr>) = (Some (0x6F0000, lr1), st1)"
    by (simp add: reserve_image_def e page_mask_def ienv0_def mmap_any_def MACHISMO_POOL_PADDING_def Let_def)
  have "\<exists>ls st'. load_segment ienv0 exe_file efm 0 0x6F0000 32 ls0 st1 = (Some ls, st')" for ls0
    by (simp add: load_segment_def exe_commands Let_def)
      (simp add: exe_seg_def exe_name mmap_fixed_anon_def mmap_fixed_file_def ienv0_def page_aligned_def Let_def)
  then obtain ls1 st2 where seg: "load_segment ienv0 exe_file efm 0 0x6F0000 32
      \<lparr>ls_entryPoint = 0, ls_needs_fixup = False, ls_mappedHeader = 0, ls_lr = lr1\<rparr> st1 = (Some ls1, st2)" by blast
  have one: "load_one ienv0 exe_file efm 0 0x6F0000 32 ls st1 = load_segment ienv0 exe_file efm 0 0x6F0000 32 ls st1" for ls
    by (simp add: load_one_def exe_commands)
  have "\<exists>ls st'. load_cmds ienv0 exe_file efm 0 0x6F0000 [32, 104]
      \<lparr>ls_entryPoint = 0, ls_needs_fixup = False, ls_mappedHeader = 0, ls_lr = lr1\<rparr> st1 = (Some ls, st')"
    by (simp add: one seg exe_main_command)
  then obtain ls st' where c: "load_cmds ienv0 exe_file efm 0 0x6F0000 [32, 104]
      \<lparr>ls_entryPoint = 0, ls_needs_fixup = False, ls_mappedHeader = 0, ls_lr = lr1\<rparr> st1 = (Some ls, st')" by blast
  have "length exe_file = 128" "os_page_size ienv0 = 4096" "\<And>k. os_fixed ienv0 k" by (simp_all add: exe_file_def ienv0_def)
  with sp r c show thesis
    by (intro that) (simp add: load64_def exe_header exe_segs exe_bounded MH_EXECUTE_def MH_DYLINKER_def MH_PIE_def page_aligned_def Let_def
        del: load_cmds.simps)
qed

theorem load64_maps_image_witness:
  "\<exists>lr' st'. load64 ienv0 exe_file 0 False ilr0 ist0 = (Some lr', st') \<and> lr_entry_point lr' = 0x10000 + lr_slide lr' + 0x60 \<and>
     p_mem st' (0x10000 + lr_slide lr' + 3) = 0xFE \<and> p_mem st' (lr_pool_base lr') = 0"
proof -
  obtain lr' st' where load: "load64 ienv0 exe_file 0 False ilr0 ist0 = (Some lr', st')" using exe_load64 [of ilr0 ist0] by blast
  have k: "\<forall>k h n. 4096 dvd unat (os_mmap ienv0 k h n) \<and> unat (os_mmap ienv0 k h n) + unat n < 2 ^ 64"
  proof (intro allI)
    fix k and h n :: u64
    have "unat n < 2 ^ 64" using unsigned_less [of n] by simp
    then show "4096 dvd unat (os_mmap ienv0 k h n) \<and> unat (os_mmap ienv0 k h n) + unat n < 2 ^ 64"
      by (simp add: ienv0_def)
  qed
  have hd: "header_segment efm 32" "\<forall>x \<in> set (bounded_commands efm 0). header_segment efm x \<longrightarrow> x = 32"
    by (simp_all add: header_segment_def exe_loadable exe_bounded exe_commands) (simp_all add: exe_seg_def)
  have ps: "os_page_size ienv0 = 4096" and e0: "lr_entry_point ilr0 = 0" by (simp_all add: ienv0_def ilr0_def)
  have fm: "efm = file_mem exe_file (unat (0 :: u32))" by simp
  have mn: "bounded_commands efm 0 = [32] @ 104 # []" "\<forall>x \<in> set [32] \<union> set []. lc_cmd (read_command efm x) \<notin> {LC_MAIN, LC_UNIXTHREAD}"
    and hin: "32 \<in> set (bounded_commands efm 0)"
    by (simp_all add: exe_bounded exe_commands LC_SEGMENT_64_def LC_UNIXTHREAD_def LC_MAIN_def)
  obtain base n where r: "lr_mh lr' = seg_vmaddr (read_segment efm 32) + lr_slide lr'"
      "lr_entry_point lr' = lr_mh lr' + load efm (104 + 8) 8" 
    and b: "\<forall>pre seg post k. [exe_seg] = pre @ seg # post \<and> k < unat (seg_vmsize seg) \<and>
       (\<forall>s \<in> set post. \<not> seg_covers 4096 (lr_slide lr') s (seg_vmaddr seg + lr_slide lr' + of_nat k)) \<longrightarrow>
       in_range (seg_vmaddr seg + lr_slide lr' + of_nat k) base n \<and>
       p_mem st' (seg_vmaddr seg + lr_slide lr' + of_nat k) = segment_byte 4096 exe_file (ucast (0 :: u32)) seg k"
    and p: "\<forall>k < 0x200000. p_mem st' (lr_pool_base lr' + of_nat k) = 0"
    using load64_maps_image [OF fm ps k exe_segs(1) [symmetric] exe_segs(2) exe_placed mn(1) exe_commands(2) mn(2) hin hd e0 load]
    by (elim exE conjE) (rule that, assumption+)
  have "p_mem st' (seg_vmaddr exe_seg + lr_slide lr' + of_nat 3) = segment_byte 4096 exe_file (ucast (0 :: u32)) exe_seg 3"
    using b [rule_format, of "[]" exe_seg "[]" 3] by (simp add: exe_seg_def)
  also have "\<dots> = 0xFE"
    using exe_byte [of 3] by (simp add: segment_byte_def exe_seg_def round_up_def file_mem_def)
      (simp add: image_def word_at_def exe_words_def)
  finally show ?thesis using load r p [rule_format, of 0]
    by (intro exI [of _ lr'] exI [of _ st']) (simp add: exe_commands exe_seg_def exe_eval add.assoc)
qed

text \<open>The second chunk that start-up takes, 1 MB for trampolines behind 512 KB for the emulated atomics.\<close>

lemma pool_alloc_example:
  "\<exists>off. fst (machismo_pool_alloc (ilr0\<lparr>lr_pool_base := 0x900000, lr_pool_size := 0x200000, lr_pool_used := 0x80000\<rparr>) 0x100000) =
     0x900000 + of_nat off \<and> 0x80000 \<le> off \<and> off + 0x100000 \<le> 0x200000"
proof -
  let ?lr = "ilr0\<lparr>lr_pool_base := 0x900000, lr_pool_size := 0x200000, lr_pool_used := 0x80000\<rparr>"
  obtain p lr' where r: "machismo_pool_alloc ?lr 0x100000 = (p, lr')" by fastforce
  then have "p \<noteq> 0" by (auto simp: machismo_pool_alloc_def Let_def)
  then show ?thesis using pool_alloc_fresh [OF r] r by auto
qed

end
