(* ===== verification/Machismo_Example.thy ===== *)
theory Machismo_Example
  imports Machismo_Safe Image_Example Resolver_Example
begin

text \<open>Start-up of the executable of one segment, with no configuration and in an audit.\<close>

definition main_env0 :: "(cstr \<Rightarrow> cstr option) \<Rightarrow> (cstr \<Rightarrow> string option) \<Rightarrow> main_env" where
  "main_env0 vars texts = \<lparr>me_image = ienv0, me_res = renv0,
     me_tramp = \<lparr>te_mprotect = (\<lambda>_ _ _. True), te_page_size = 4096, te_dlopen = (\<lambda>_. 0), te_dlsym = (\<lambda>_ _. 0), te_abort = 0x500000,
       te_file = (\<lambda>_. None)\<rparr>,
     me_getenv = vars, me_text = texts, me_mprotect = (\<lambda>_. True), me_qsort = (\<lambda>es. es), me_wrapper = (\<lambda>_. 0),
     me_prepare = (\<lambda>_ _ _. None), me_shim_loaded = False, me_mutex_init = (\<lambda>_ m. m), me_cond_init = (\<lambda>_ m. m),
     me_rwlock_init = (\<lambda>_ m. m), me_guest = (\<lambda>_ m. m), me_elf_calls = 0x6000, me_junk1 = replicate 4096 0, me_junk2 = replicate 16 0\<rparr>"

definition main0 :: machismo where
  "main0 = \<lparr>mm_res = globals0 (\<lambda>_. 0),
     mm_tramp = \<lparr>t_mem = (\<lambda>_. 0), island_pool = 0, island_pool_size = 0, island_pool_used = 0, stub_island_addr = 0,
       abort_caller_addr = 0, text_patch_base = 0, text_patch_size = 0, guarded_pages = [], t_prots = [], t_handles = []\<rparr>,
     mm_lr = ilr0, mm_tlv = None, mm_runs = []\<rparr>"

definition args0 :: "cstr list" where "args0 = [''machismo'', ''-v'', ''game'']"

lemma args0_flags: "parse_flags (drop 1 args0) 1 = Some 2" "args0 ! 2 = ''game''"
  by (simp_all add: args0_def at0_def numeral_2_eq_2)

abbreviation plain_env :: main_env where "plain_env \<equiv> main_env0 (\<lambda>_. None) (\<lambda>_. None)"

abbreviation audit_env :: main_env where
  "audit_env \<equiv> main_env0 (\<lambda>v. if v = ''MACHISMO_CONFIG'' then Some ''c'' else None) (\<lambda>_. Some ''[general]\<newline>audit_only=true\<newline>'')"

lemma plain_config: "load_config plain_env f = zero_config"
  by (simp add: load_config_def config_load_def env_config_def main_env0_def Let_def)

lemma audit_config: "mc_audit_only (load_config audit_env f)"
proof -
  have "fst (config_load (Some ''[general]\<newline>audit_only=true\<newline>'') zero_config) = 0"
    "mc_audit_only (snd (config_load (Some ''[general]\<newline>audit_only=true\<newline>'') zero_config))"
    by code_simp+
  then show ?thesis by (cases "config_load (Some ''[general]\<newline>audit_only=true\<newline>'') zero_config") (simp add: load_config_def main_env0_def)
qed

lemma exe_loaded:
  obtains lr' g where "load_image (me_image (main_env0 vars texts)) f 0 False lr (g0 :: resolver_globals) = (Some lr', g)"
proof -
  obtain lr' g where l: "load64 ienv0 exe_file 0 False lr g0 = (Some lr', g)" using exe_load64 [where lr = lr and st = g0] by blast
  have "file32 exe_file 0 = 0xFEEDFACF" using exe_load32 [of 0] by (simp add: file32_def exe_eval)
  moreover have "length exe_file = 128" by (simp add: exe_file_def)
  ultimately show thesis using l by (intro that) (simp add: load_image_def main_env0_def ienv0_def MH_MAGIC_64_def)
qed

lemma plain_stages:
  obtains s' where "then_stage (then_stage (stage_link env zero_config s) (prepare_stages env zero_config)) (stage_start env f) = (Entered, s')"
proof -
  have z: "mc_dylib_map zero_config = None" "mc_address_hooks zero_config = None" "mc_trampolines zero_config = []"
    "mc_patches zero_config = None" "\<not> mc_has_entry_override zero_config" "mc_entry_prepare_lib zero_config = None"
    "mc_entry_prepare_symbol zero_config = None" "\<not> mc_audit_only zero_config"
    by (simp_all add: zero_config_def)
  then have g: "guard_prefixes zero_config = []" by (simp add: guard_prefixes_def)
  have "\<exists>s'. stage_trampolines env zero_config s = (Running, s')" for s
    using z g by (auto simp: stage_trampolines_def Let_def split: prod.split)
  then have "\<exists>s'. prepare_stages env zero_config s = (Running, s')"
    unfolding prepare_stages_def stage_audit_def stage_data_def using z
    by (simp add: then_stage_assoc stage_patches_def stage_entry_def stage_prepare_def) (metis then_stage_simps(1))
  moreover have "\<exists>s'. stage_start env f s2 = (Entered, s')" for s2 by (auto simp: stage_start_def split: prod.split)
  ultimately have "\<exists>s'. then_stage (then_stage (stage_link env zero_config s) (prepare_stages env zero_config)) (stage_start env f) = (Entered, s')"
    using z(1) by (auto simp: stage_link_def)
  then show thesis using that by blast
qed


text \<open>The same executable in an audit.\<close>

theorem audit_runs_no_guest_witness:
  "\<exists>r s'. machismo_main audit_env args0 [0x10, 0x20, 0x30] [] main0 = (r, s') \<and> mm_runs s' = [] \<and> r \<in> {Exit 0, Exit 1, Diverges}"
proof -
  obtain r s' where run: "machismo_main audit_env args0 [0x10, 0x20, 0x30] [] main0 = (r, s')" by fastforce
  have "mm_runs main0 = []" by (simp add: main0_def)
  then show ?thesis using audit_runs_no_guest [OF run args0_flags(1) audit_config] run by auto
qed

end
