(* ===== verification/Eh_Frame.thy ===== *)
theory Eh_Frame
  imports Image_Loader Dyld_Info
begin

text \<open>
  Model of \<^verbatim>\<open>src/src/eh_frame.c\<close>: Apple's compact unwind entries are collected from \<^verbatim>\<open>__unwind_info\<close>, written as
  DWARF entries into a buffer, and indexed, together with the entries of the image's own \<^verbatim>\<open>__eh_frame\<close>, in a sorted
  table that the hook of \<^verbatim>\<open>_dl_find_object\<close> gives to the unwinder. The buffer is the list of its bytes up to
  \<^verbatim>\<open>ehf_pos\<close>; a test that only prints a message is left out. Allocations of the C heap succeed, and sizes kept in
  an \<^verbatim>\<open>int\<close> are numbers.
\<close>

section \<open>Constants and structures\<close>

definition UNWIND_IS_NOT_FUNCTION_START :: u32 where "UNWIND_IS_NOT_FUNCTION_START = 0x80000000"
definition UNWIND_HAS_LSDA :: u32 where "UNWIND_HAS_LSDA = 0x40000000"
definition UNWIND_PERSONALITY_MASK :: u32 where "UNWIND_PERSONALITY_MASK = 0x30000000"
definition UNWIND_ARM64_MODE_MASK :: u32 where "UNWIND_ARM64_MODE_MASK = 0x0F000000"
definition UNWIND_ARM64_MODE_FRAMELESS :: u32 where "UNWIND_ARM64_MODE_FRAMELESS = 0x02000000"
definition UNWIND_ARM64_MODE_DWARF :: u32 where "UNWIND_ARM64_MODE_DWARF = 0x03000000"
definition UNWIND_ARM64_MODE_FRAME :: u32 where "UNWIND_ARM64_MODE_FRAME = 0x04000000"
definition UNWIND_ARM64_FRAMELESS_STACK_SIZE_MASK :: u32 where "UNWIND_ARM64_FRAMELESS_STACK_SIZE_MASK = 0x00FFF000"
definition UNWIND_SECOND_LEVEL_REGULAR :: u32 where "UNWIND_SECOND_LEVEL_REGULAR = 2"
definition UNWIND_SECOND_LEVEL_COMPRESSED :: u32 where "UNWIND_SECOND_LEVEL_COMPRESSED = 3"

definition DWARF_REG_FP :: nat where "DWARF_REG_FP = 29"
definition DWARF_REG_LR :: nat where "DWARF_REG_LR = 30"
definition DWARF_REG_SP :: nat where "DWARF_REG_SP = 31"
definition DWARF_REG_X19 :: nat where "DWARF_REG_X19 = 19"
definition DWARF_REG_D8 :: nat where "DWARF_REG_D8 = 72"

definition DW_CFA_advance_loc :: u8 where "DW_CFA_advance_loc = 0x40"
definition DW_CFA_offset :: u8 where "DW_CFA_offset = 0x80"
definition DW_CFA_nop :: u8 where "DW_CFA_nop = 0"
definition DW_CFA_offset_extended :: u8 where "DW_CFA_offset_extended = 0x05"
definition DW_CFA_def_cfa :: u8 where "DW_CFA_def_cfa = 0x0c"
definition DW_CFA_def_cfa_offset :: u8 where "DW_CFA_def_cfa_offset = 0x0e"

definition DW_EH_PE_absptr :: u8 where "DW_EH_PE_absptr = 0"
definition DW_EH_PE_pcrel :: u8 where "DW_EH_PE_pcrel = 0x10"
definition DW_EH_PE_indirect :: u8 where "DW_EH_PE_indirect = 0x80"
definition DW_EH_PE_omit :: u8 where "DW_EH_PE_omit = 0xff"

record unwind_info_section_header =
  uh_version :: u32
  uh_commonEncodingsOffset :: u32
  uh_commonEncodingsCount :: u32
  uh_personalityOffset :: u32
  uh_personalityCount :: u32
  uh_indexOffset :: u32
  uh_indexCount :: u32

definition read_unwind_header :: "mem \<Rightarrow> u64 \<Rightarrow> unwind_info_section_header" where
  "read_unwind_header m a =
    \<lparr>uh_version = load32 m a, uh_commonEncodingsOffset = load32 m (a + 4), uh_commonEncodingsCount = load32 m (a + 8),
     uh_personalityOffset = load32 m (a + 12), uh_personalityCount = load32 m (a + 16),
     uh_indexOffset = load32 m (a + 20), uh_indexCount = load32 m (a + 24)\<rparr>"

record hdr_entry =
  he_initial_location :: u64
  he_fde_ptr :: u64

record cu_entry =
  cu_func_offset :: u32
  cu_func_size :: u32
  cu_encoding :: u32
  cu_lsda_offset :: u32

section \<open>Reading the image's own entries\<close>

definition eh_read_uleb128 :: "mem \<Rightarrow> u64 \<Rightarrow> u64 \<Rightarrow> u64 \<times> u64" where
  "eh_read_uleb128 m fin p = read_uleb128 m fin p 0 0"

text \<open>At the end of the data the last byte is uninitialised; \<open>junk\<close> is what it holds.\<close>

definition eh_read_sleb128 :: "u8 \<Rightarrow> mem \<Rightarrow> u64 \<Rightarrow> u64 \<Rightarrow> u64 \<times> u64" where
  "eh_read_sleb128 junk m fin p = read_sleb128 m fin p 0 0 junk"

text \<open>A pointer in one of the encodings, with the position behind it; 0 where there is none.\<close>

definition sized_ptr :: "mem \<Rightarrow> u64 \<Rightarrow> u8 \<Rightarrow> (nat \<times> u64) option" where
  "sized_ptr m p encoding =
    (let format = encoding AND 0x0F in
     if format \<in> {0, 4, 12} then Some (8, load m p 8)
     else if format = 2 then Some (2, load m p 2)
     else if format = 3 then Some (4, load m p 4)
     else if format = 10 then Some (2, scast (ucast (load m p 2) :: u16))
     else if format = 11 then Some (4, scast (ucast (load m p 4) :: u32))
     else None)"

definition eh_read_encoded_ptr :: "mem \<Rightarrow> u64 \<Rightarrow> u64 \<Rightarrow> u8 \<Rightarrow> u64 \<times> u64" where
  "eh_read_encoded_ptr m p fin encoding =
    (if encoding = DW_EH_PE_omit then (0, p)
     else case sized_ptr m p encoding of
       None \<Rightarrow> (0, p)
     | Some (n, value) \<Rightarrow>
         if fin < p + of_nat n then (0, p)
         else let value = (if encoding AND 0x70 = DW_EH_PE_pcrel then value + p else value);
                  value = (if encoding AND DW_EH_PE_indirect \<noteq> 0 then load m value 8 else value)
              in (value, p + of_nat n))"

text \<open>The loop over the augmentation string behind its \<^verbatim>\<open>z\<close>.\<close>

fun fde_encoding :: "mem \<Rightarrow> u64 \<Rightarrow> u8 list \<Rightarrow> u64 \<Rightarrow> u8" where
  "fde_encoding m aug_end [] p = DW_EH_PE_absptr"
| "fde_encoding m aug_end (c # cs) p =
    (if \<not> p < aug_end then DW_EH_PE_absptr
     else if c = of_char CHR ''L'' then fde_encoding m aug_end cs (p + 1)
     else if c = of_char CHR ''P'' then fde_encoding m aug_end cs (snd (eh_read_encoded_ptr m (p + 1) aug_end (m p)))
     else if c = of_char CHR ''R'' then m p
     else DW_EH_PE_absptr)"

definition parse_cie_fde_encoding :: "u8 \<Rightarrow> mem \<Rightarrow> u64 \<Rightarrow> u64 \<Rightarrow> u8" where
  "parse_cie_fde_encoding junk m cie_data cie_length =
    (let fin = cie_data + cie_length; p = cie_data in
     if fin < p + 4 then DW_EH_PE_absptr
     else if \<not> p + 4 < fin then DW_EH_PE_absptr
     else
       let version = m (p + 4); p = p + 5;
           aug = takeWhile (\<lambda>b. b \<noteq> 0) (mem_bytes m p (unat (fin - p)))
       in if length aug = unat (fin - p) then DW_EH_PE_absptr
       else
         let p = p + of_nat (length aug) + 1;
             p = snd (eh_read_uleb128 m fin p);
             p = snd (eh_read_sleb128 junk m fin p);
             p = (if version = 1 then (if p < fin then p + 1 else p) else snd (eh_read_uleb128 m fin p))
         in case aug of
              [] \<Rightarrow> DW_EH_PE_absptr
            | z # cs \<Rightarrow>
                if z \<noteq> of_char CHR ''z'' then DW_EH_PE_absptr
                else
                  let (aug_len, p) = eh_read_uleb128 m fin p;
                      aug_end = (if fin < p + aug_len then fin else p + aug_len)
                  in fde_encoding m aug_end cs p)"

text \<open>One entry: its end and, for an FDE with a location, what goes into the table; None where the walk stops. All
  positions are 64 bits wide, and an extended length is added without a test.\<close>

definition native_entry :: "u8 \<Rightarrow> mem \<Rightarrow> u64 \<Rightarrow> u64 \<Rightarrow> u64 \<Rightarrow> (u64 \<times> hdr_entry list) option" where
  "native_entry junk m eh_frame eh_frame_size pos =
    (let length = load32 m (eh_frame + pos) in
     if length = 0 then None
     else if length = 0xFFFFFFFF \<and> eh_frame_size < pos + 12 then None
     else
       let data_start = (if length = 0xFFFFFFFF then pos + 12 else pos + 4);
           data_end = data_start + (if length = 0xFFFFFFFF then load m (eh_frame + pos + 4) 8 else ucast length)
       in if eh_frame_size < data_end then None
       else
         let cie_ptr = load32 m (eh_frame + data_start); cie_pos = data_start - ucast cie_ptr in
         if cie_ptr = 0 \<or> \<not> cie_pos < eh_frame_size then Some (data_end, [])
         else
           let fde_enc = parse_cie_fde_encoding junk m (eh_frame + cie_pos + 4) (ucast (load32 m (eh_frame + cie_pos)));
               init_loc = fst (eh_read_encoded_ptr m (eh_frame + data_start + 4) (eh_frame + data_end) fde_enc)
           in Some (data_end,
                if init_loc = 0 then [] else [\<lparr>he_initial_location = init_loc, he_fde_ptr = eh_frame + pos\<rparr>]))"

partial_function (option) parse_native ::
  "u8 \<Rightarrow> mem \<Rightarrow> u64 \<Rightarrow> u64 \<Rightarrow> u64 \<Rightarrow> hdr_entry list \<Rightarrow> hdr_entry list option" where
  "parse_native junk m eh_frame eh_frame_size pos entries =
    (if eh_frame_size < pos + 4 then Some entries
     else case native_entry junk m eh_frame eh_frame_size pos of
       None \<Rightarrow> Some entries
     | Some r \<Rightarrow> parse_native junk m eh_frame eh_frame_size (fst r) (entries @ snd r))"

definition parse_native_eh_frame_fdes :: "u8 \<Rightarrow> mem \<Rightarrow> u64 \<Rightarrow> u64 \<Rightarrow> hdr_entry list option" where
  "parse_native_eh_frame_fdes junk m eh_frame eh_frame_size = parse_native junk m eh_frame eh_frame_size 0 []"

section \<open>Emitting entries\<close>

type_synonym ehf = "u8 list"

definition le_bytes :: "nat \<Rightarrow> u64 \<Rightarrow> u8 list" where
  "le_bytes n v = map (\<lambda>i. ucast (drop_bit (8 * i) v)) [0..<n]"

definition ehf_u8 :: "u8 \<Rightarrow> ehf \<Rightarrow> ehf" where "ehf_u8 v b = b @ [v]"
definition ehf_u32 :: "u32 \<Rightarrow> ehf \<Rightarrow> ehf" where "ehf_u32 v b = b @ le_bytes 4 (ucast v)"
definition ehf_u64 :: "u64 \<Rightarrow> ehf \<Rightarrow> ehf" where "ehf_u64 v b = b @ le_bytes 8 v"

function uleb_bytes :: "u64 \<Rightarrow> u8 list" where
  "uleb_bytes v =
    (let byte = ucast (v AND 0x7f); v' = drop_bit 7 v in if v' = 0 then [byte] else (byte OR 0x80) # uleb_bytes v')"
  by pat_completeness auto
termination
proof (relation "measure unat")
  fix v v' :: u64 and byte :: u8
  assume v: "v' = drop_bit 7 v" "v' \<noteq> 0"
  then have "unat v' = unat v div 128" by (simp add: drop_bit_eq_div unat_div)
  moreover have "0 < unat v'" using v(2) by (simp add: unat_gt_0)
  ultimately show "(v', v) \<in> measure unat" by (simp add: div_less_dividend)
qed simp

declare uleb_bytes.simps [simp del]

definition ehf_uleb128 :: "u64 \<Rightarrow> ehf \<Rightarrow> ehf" where "ehf_uleb128 v b = b @ uleb_bytes v"

text \<open>The shift of a negative \<^verbatim>\<open>int64_t\<close> is arithmetic.\<close>

function sleb_bytes :: "int \<Rightarrow> u8 list" where
  "sleb_bytes v =
    (let byte = word_of_int (v mod 128); v' = v div 128 in
     if v' = 0 \<and> byte AND 0x40 = 0 \<or> v' = - 1 \<and> byte AND 0x40 \<noteq> 0 then [byte] else (byte OR 0x80) # sleb_bytes v')"
  by pat_completeness auto
termination
proof (relation "measure (\<lambda>v. nat (if 0 \<le> v then v else - v - 1))")
  fix v v' :: int and byte :: u8
  assume v: "byte = word_of_int (v mod 128)" "v' = v div 128"
    "\<not> (v' = 0 \<and> byte AND 0x40 = 0 \<or> v' = - 1 \<and> byte AND 0x40 \<noteq> 0)"
  then have "v \<noteq> 0" "v \<noteq> - 1" by auto
  then show "(v', v) \<in> measure (\<lambda>v. nat (if 0 \<le> v then v else - v - 1))" using v(2) by auto
qed simp

declare sleb_bytes.simps [simp del]

definition ehf_sleb128 :: "int \<Rightarrow> ehf \<Rightarrow> ehf" where "ehf_sleb128 v b = b @ sleb_bytes v"

definition ehf_align :: "nat \<Rightarrow> ehf \<Rightarrow> ehf" where
  "ehf_align n b = b @ replicate ((n - length b mod n) mod n) DW_CFA_nop"

text \<open>The length of an entry is known at its end, and patched over the placeholder.\<close>

definition patch_length :: "nat \<Rightarrow> ehf \<Rightarrow> ehf" where
  "patch_length start b = take start b @ le_bytes 4 (ucast (of_nat (length b - (start + 4)) :: u32)) @ drop (start + 4) b"

definition emit_cie :: "u64 \<Rightarrow> ehf \<Rightarrow> nat \<times> ehf" where
  "emit_cie personality_addr b =
    (let cie_start = length b; has_personality = (personality_addr \<noteq> 0);
         b = ehf_u8 1 (ehf_u32 0 (ehf_u32 0 b));
         b = b @ of_chars (if has_personality then ''zPLR'' else ''zR'') @ [0];
         b = ehf_uleb128 (of_nat DWARF_REG_LR) (ehf_sleb128 (- 8) (ehf_uleb128 4 b));
         b = (if has_personality
              then ehf_u8 DW_EH_PE_absptr (ehf_u8 DW_EH_PE_absptr (ehf_u64 personality_addr (ehf_u8 DW_EH_PE_absptr (ehf_uleb128 11 b))))
              else ehf_u8 DW_EH_PE_absptr (ehf_uleb128 1 b));
         b = ehf_uleb128 0 (ehf_uleb128 (of_nat DWARF_REG_SP) (ehf_u8 DW_CFA_def_cfa b))
     in (cie_start, patch_length cie_start (ehf_align 8 b)))"

text \<open>The three kinds of FDE differ in their instructions only.\<close>

definition emit_fde :: "(ehf \<Rightarrow> ehf) \<Rightarrow> nat \<Rightarrow> u64 \<Rightarrow> u32 \<Rightarrow> u64 \<Rightarrow> ehf \<Rightarrow> ehf" where
  "emit_fde cfi cie_offset func_addr func_size lsda_addr b =
    (let fde_start = length b;
         b = ehf_u32 0 b;
         b = ehf_u32 (of_nat (length b - cie_offset)) b;
         b = ehf_u64 (ucast func_size) (ehf_u64 func_addr b);
         b = (if lsda_addr \<noteq> 0 then ehf_u64 lsda_addr (ehf_uleb128 8 b) else ehf_uleb128 0 b)
     in patch_length fde_start (ehf_align 8 (cfi b)))"

text \<open>Saved registers take the slots below the frame one after the other.\<close>

fun save_x :: "nat list \<Rightarrow> nat \<Rightarrow> ehf \<Rightarrow> ehf" where
  "save_x [] slot b = b"
| "save_x (r # rs) slot b = save_x rs (slot + 1) (ehf_uleb128 (of_nat slot) (ehf_u8 (DW_CFA_offset OR of_nat r) b))"

fun save_d :: "nat list \<Rightarrow> nat \<Rightarrow> ehf \<Rightarrow> ehf" where
  "save_d [] slot b = b"
| "save_d (r # rs) slot b =
    save_d rs (slot + 1) (ehf_uleb128 (of_nat slot) (ehf_uleb128 (of_nat r) (ehf_u8 DW_CFA_offset_extended b)))"

definition pair_regs :: "nat \<Rightarrow> u32 list \<Rightarrow> u32 \<Rightarrow> nat list" where
  "pair_regs first masks pairs =
     concat (map (\<lambda>(i, flag). if pairs AND flag \<noteq> 0 then [first + 2 * i, first + 2 * i + 1] else []) (enumerate 0 masks))"

definition frame_cfi :: "u32 \<Rightarrow> ehf \<Rightarrow> ehf" where
  "frame_cfi encoding b =
    (let b = ehf_u8 (DW_CFA_advance_loc OR 1) b;
         b = ehf_uleb128 16 (ehf_uleb128 (of_nat DWARF_REG_FP) (ehf_u8 DW_CFA_def_cfa b));
         b = ehf_uleb128 1 (ehf_u8 (DW_CFA_offset OR of_nat DWARF_REG_LR) b);
         b = ehf_uleb128 2 (ehf_u8 (DW_CFA_offset OR of_nat DWARF_REG_FP) b);
         xs = pair_regs DWARF_REG_X19 [0x1, 0x2, 0x4, 0x8, 0x10] (encoding AND 0x1F);
         ds = pair_regs DWARF_REG_D8 [0x1, 0x2, 0x4, 0x8] (drop_bit 8 encoding AND 0x0F)
     in save_d ds (3 + length xs) (save_x xs 3 b))"

definition emit_fde_frame :: "nat \<Rightarrow> u64 \<Rightarrow> u32 \<Rightarrow> u32 \<Rightarrow> u64 \<Rightarrow> ehf \<Rightarrow> ehf" where
  "emit_fde_frame cie_offset func_addr func_size encoding lsda_addr =
     emit_fde (frame_cfi encoding) cie_offset func_addr func_size lsda_addr"

definition stack_size :: "u32 \<Rightarrow> u32" where
  "stack_size encoding = drop_bit 12 (encoding AND UNWIND_ARM64_FRAMELESS_STACK_SIZE_MASK) * 16"

definition frameless_cfi :: "u32 \<Rightarrow> ehf \<Rightarrow> ehf" where
  "frameless_cfi encoding b =
    (let n = stack_size encoding in
     if n > 0
     then let b = ehf_uleb128 (ucast n) (ehf_u8 DW_CFA_def_cfa_offset (ehf_u8 (DW_CFA_advance_loc OR 1) b))
          in if n \<ge> 8 then ehf_uleb128 1 (ehf_u8 (DW_CFA_offset OR of_nat DWARF_REG_LR) b) else b
     else b)"

definition emit_fde_frameless :: "nat \<Rightarrow> u64 \<Rightarrow> u32 \<Rightarrow> u32 \<Rightarrow> u64 \<Rightarrow> ehf \<Rightarrow> ehf" where
  "emit_fde_frameless cie_offset func_addr func_size encoding lsda_addr =
     emit_fde (frameless_cfi encoding) cie_offset func_addr func_size lsda_addr"

definition emit_fde_minimal :: "nat \<Rightarrow> u64 \<Rightarrow> u32 \<Rightarrow> u64 \<Rightarrow> ehf \<Rightarrow> ehf" where
  "emit_fde_minimal cie_offset func_addr func_size lsda_addr = emit_fde (\<lambda>b. b) cie_offset func_addr func_size lsda_addr"

section \<open>Collecting the compact entries\<close>

function lsda_search :: "mem \<Rightarrow> u64 \<Rightarrow> u32 \<Rightarrow> int \<Rightarrow> int \<Rightarrow> u32" where
  "lsda_search m lsda_arr func_offset lo hi =
    (if lo > hi then 0
     else
       let mid = (lo + hi) div 2; a = lsda_arr + 8 * of_int mid in
       if load32 m a = func_offset then load32 m (a + 4)
       else if load32 m a < func_offset then lsda_search m lsda_arr func_offset (mid + 1) hi
       else lsda_search m lsda_arr func_offset lo (mid - 1))"
  by pat_completeness auto
termination
  by (relation "measure (\<lambda>(m, lsda_arr, func_offset, lo, hi). nat (hi - lo + 1))") auto

declare lsda_search.simps [simp del]

definition new_entry :: "mem \<Rightarrow> u64 \<Rightarrow> int \<Rightarrow> u32 \<Rightarrow> u32 \<Rightarrow> cu_entry" where
  "new_entry m lsda_arr lsda_count func_offset encoding =
    \<lparr>cu_func_offset = func_offset, cu_func_size = 0, cu_encoding = encoding,
     cu_lsda_offset = (if encoding AND UNWIND_HAS_LSDA \<noteq> 0 then lsda_search m lsda_arr func_offset 0 (lsda_count - 1) else 0)\<rparr>"

definition compressed_encoding :: "mem \<Rightarrow> u64 \<Rightarrow> u32 \<Rightarrow> u64 \<Rightarrow> u32 \<Rightarrow> u32" where
  "compressed_encoding m common_encodings common_count page enc_idx =
    (let encodings = page + load m (page + 8) 2; n = ucast (load m (page + 10) 2) :: u32 in
     if enc_idx < common_count then load32 m (common_encodings + 4 * ucast enc_idx)
     else if enc_idx - common_count < n then load32 m (encodings + 4 * ucast (enc_idx - common_count))
     else 0)"

text \<open>The entries of the page an index entry names; an offset outside the section is skipped.\<close>

definition page_of_index :: "mem \<Rightarrow> u64 \<Rightarrow> u64 \<Rightarrow> u64 \<Rightarrow> u64 option" where
  "page_of_index m unwind_info unwind_size index =
    (let page_offset = load32 m (index + 4) in
     if page_offset = 0 \<or> unwind_size \<le> ucast page_offset then None else Some (unwind_info + ucast page_offset))"

definition page_entries :: "mem \<Rightarrow> u64 \<Rightarrow> u64 \<Rightarrow> u64 \<Rightarrow> u32 \<Rightarrow> u64 \<Rightarrow> cu_entry list" where
  "page_entries m unwind_info unwind_size common_encodings common_count index =
    (case page_of_index m unwind_info unwind_size index of None \<Rightarrow> []
     | Some page \<Rightarrow>
       let kind = load32 m page; first = page + load m (page + 4) 2; n = unat (load m (page + 6) 2);
           lsda_start = load32 m (index + 8); lsda_arr = unwind_info + ucast lsda_start;
           lsda_count = int (unat (load32 m (index + 12 + 8) - lsda_start) div 8)
       in if kind = UNWIND_SECOND_LEVEL_COMPRESSED
          then map (\<lambda>i. let entry = load32 m (first + 4 * of_nat i)
                        in new_entry m lsda_arr lsda_count (load32 m index + (entry AND 0x00FFFFFF))
                             (compressed_encoding m common_encodings common_count page (drop_bit 24 entry AND 0xFF))) [0..<n]
          else if kind = UNWIND_SECOND_LEVEL_REGULAR
          then map (\<lambda>i. new_entry m lsda_arr lsda_count (load32 m (first + 8 * of_nat i)) (load32 m (first + 8 * of_nat i + 4))) [0..<n]
          else [])"

definition page_entry_count :: "mem \<Rightarrow> u64 \<Rightarrow> u64 \<Rightarrow> u64 \<Rightarrow> nat" where
  "page_entry_count m unwind_info unwind_size index =
    (case page_of_index m unwind_info unwind_size index of None \<Rightarrow> 0
     | Some page \<Rightarrow>
       if load32 m page \<in> {UNWIND_SECOND_LEVEL_COMPRESSED, UNWIND_SECOND_LEVEL_REGULAR} then unat (load m (page + 6) 2) else 0)"

text \<open>Insertion into the sorted part, from its end; the sorted part is kept in reverse.\<close>

fun insert_back :: "cu_entry \<Rightarrow> cu_entry list \<Rightarrow> cu_entry list" where
  "insert_back tmp [] = [tmp]"
| "insert_back tmp (e # es) = (if cu_func_offset e > cu_func_offset tmp then e # insert_back tmp es else tmp # e # es)"

definition sort_entries :: "cu_entry list \<Rightarrow> cu_entry list" where
  "sort_entries es = rev (fold insert_back es [])"

fun set_sizes :: "cu_entry list \<Rightarrow> cu_entry list" where
  "set_sizes (e # f # es) = e\<lparr>cu_func_size := cu_func_offset f - cu_func_offset e\<rparr> # set_sizes (f # es)"
| "set_sizes [e] = [e\<lparr>cu_func_size := 256\<rparr>]"
| "set_sizes [] = []"

definition collect_entries :: "mem \<Rightarrow> u64 \<Rightarrow> u64 \<Rightarrow> u64 \<Rightarrow> u32 \<Rightarrow> cu_entry list option" where
  "collect_entries m unwind_info unwind_size common_encodings common_count =
    (let hdr = read_unwind_header m unwind_info;
         indices = map (\<lambda>i. unwind_info + ucast (uh_indexOffset hdr) + 12 * of_nat i) [0..<unat (uh_indexCount hdr) - 1];
         total = sum_list (map (page_entry_count m unwind_info unwind_size) indices)
     in if uh_version hdr \<noteq> 1 then None
        else Some (set_sizes (sort_entries
               (take total (concat (map (page_entries m unwind_info unwind_size common_encodings common_count) indices))))))"

section \<open>Registration\<close>

text \<open>The sections of \<^verbatim>\<open>__TEXT\<close>: its address and size, and address and size of the two tables, 0 when there is none.\<close>

record eh_sections =
  es_text_base :: u64
  es_text_size :: u64
  es_unwind_info :: u64
  es_unwind_size :: u64
  es_native_eh_frame :: u64
  es_native_eh_frame_size :: u64

definition eh_section :: "mem \<Rightarrow> u64 \<Rightarrow> u64 \<Rightarrow> eh_sections \<Rightarrow> eh_sections" where
  "eh_section m slide a es =
    (let sect = read_section m a in
     if mem_str m a = ''__unwind_info'' then es\<lparr>es_unwind_info := sec_addr sect + slide, es_unwind_size := sec_size sect\<rparr>
     else if mem_str m a = ''__eh_frame''
     then es\<lparr>es_native_eh_frame := sec_addr sect + slide, es_native_eh_frame_size := sec_size sect\<rparr>
     else es)"

definition eh_segment :: "mem \<Rightarrow> u64 \<Rightarrow> segment_command_64 \<Rightarrow> eh_sections \<Rightarrow> eh_sections" where
  "eh_segment m slide seg es =
    (if mem_str m (seg_segname seg) \<noteq> ''__TEXT'' then es
     else fold (eh_section m slide) (map (\<lambda>j. seg_sections seg + 80 * of_nat j) [0..<unat (seg_nsects seg)])
            (es\<lparr>es_text_base := seg_vmaddr seg, es_text_size := seg_vmsize seg\<rparr>))"

definition locate_eh_sections :: "mem \<Rightarrow> u64 \<Rightarrow> u64 \<Rightarrow> u64 \<Rightarrow> eh_sections" where
  "locate_eh_sections m mh slide text_size =
    fold (eh_segment m slide) (segments m mh)
      \<lparr>es_text_base = 0, es_text_size = text_size, es_unwind_info = 0, es_unwind_size = 0, es_native_eh_frame = 0,
       es_native_eh_frame_size = 0\<rparr>"

definition personality_addr :: "mem \<Rightarrow> u64 \<Rightarrow> u64 \<Rightarrow> nat \<Rightarrow> u64" where
  "personality_addr m base personality_arr i = load m (base + scast (load32 m (personality_arr + 4 * of_nat i))) 8"

text \<open>At most four personality routines are read, and the entries of the section.\<close>

definition image_personalities :: "mem \<Rightarrow> u64 \<Rightarrow> eh_sections \<Rightarrow> u64 list" where
  "image_personalities m slide es =
    (let hdr = read_unwind_header m (es_unwind_info es)
     in map (personality_addr m (es_text_base es + slide) (es_unwind_info es + ucast (uh_personalityOffset hdr)))
          [0..<min (unat (uh_personalityCount hdr)) 4])"

definition image_unwind_entries :: "mem \<Rightarrow> eh_sections \<Rightarrow> cu_entry list option" where
  "image_unwind_entries m es =
    (let hdr = read_unwind_header m (es_unwind_info es)
     in collect_entries m (es_unwind_info es) (es_unwind_size es) (es_unwind_info es + ucast (uh_commonEncodingsOffset hdr))
          (uh_commonEncodingsCount hdr))"

fun emit_cies :: "u64 list \<Rightarrow> ehf \<Rightarrow> nat list \<times> ehf" where
  "emit_cies [] b = ([], b)"
| "emit_cies (p # ps) b = (let (cie, b) = emit_cie p b; (cies, b) = emit_cies ps b in (cie # cies, b))"

text \<open>The FDE of one entry, and whether there is one; \<open>cies\<close> are the CIEs of the personalities, behind the one without.\<close>

definition entry_has_fde :: "cu_entry \<Rightarrow> bool" where
  "entry_has_fde e \<longleftrightarrow> cu_encoding e AND UNWIND_ARM64_MODE_MASK \<noteq> UNWIND_ARM64_MODE_DWARF \<and>
     cu_encoding e AND UNWIND_IS_NOT_FUNCTION_START = 0"

definition entry_lsda :: "u64 \<Rightarrow> cu_entry \<Rightarrow> u64" where
  "entry_lsda base e =
    (if cu_encoding e AND UNWIND_HAS_LSDA \<noteq> 0 \<and> cu_lsda_offset e \<noteq> 0 then base + ucast (cu_lsda_offset e) else 0)"

definition personality_index :: "cu_entry \<Rightarrow> nat" where
  "personality_index e = unat (drop_bit 28 (cu_encoding e AND UNWIND_PERSONALITY_MASK))"

definition entry_cie :: "nat list \<Rightarrow> cu_entry \<Rightarrow> nat" where
  "entry_cie cies e =
    (if 0 < personality_index e \<and> personality_index e < length cies then cies ! personality_index e else cies ! 0)"

definition emit_entry :: "u64 \<Rightarrow> nat list \<Rightarrow> cu_entry \<Rightarrow> ehf \<Rightarrow> ehf" where
  "emit_entry base cies e b =
    (let encoding = cu_encoding e; mode = encoding AND UNWIND_ARM64_MODE_MASK; cie = entry_cie cies e;
         func_addr = base + ucast (cu_func_offset e); func_size = cu_func_size e; lsda_addr = entry_lsda base e
     in if \<not> entry_has_fde e then b
        else if mode = UNWIND_ARM64_MODE_FRAME then emit_fde_frame cie func_addr func_size encoding lsda_addr b
        else if mode = UNWIND_ARM64_MODE_FRAMELESS then emit_fde_frameless cie func_addr func_size encoding lsda_addr b
        else emit_fde_minimal cie func_addr func_size lsda_addr b)"

definition synthetic_eh_frame :: "u64 \<Rightarrow> u64 list \<Rightarrow> cu_entry list \<Rightarrow> ehf" where
  "synthetic_eh_frame base personalities es =
    (let (cies, b) = emit_cies (0 # personalities) [] in ehf_u32 0 (fold (emit_entry base cies) es b))"

text \<open>The walk over the synthetic entries, from their bytes in memory.\<close>

function walk_synthetic :: "mem \<Rightarrow> u64 \<Rightarrow> nat \<Rightarrow> nat \<Rightarrow> hdr_entry list" where
  "walk_synthetic m buf ehf_pos pos =
    (if pos + 4 < ehf_pos then
       let length = load32 m (buf + of_nat pos) in
       if length = 0 then []
       else (if load32 m (buf + of_nat pos + 4) \<noteq> 0
             then [\<lparr>he_initial_location = load m (buf + of_nat pos + 8) 8, he_fde_ptr = buf + of_nat pos\<rparr>] else []) @
            walk_synthetic m buf ehf_pos (pos + 4 + unat length)
     else [])"
  by pat_completeness auto
termination
  by (relation "measure (\<lambda>(m, buf, ehf_pos, pos). ehf_pos - pos)") auto

declare walk_synthetic.simps [simp del]

definition hdr_bytes :: "u64 \<Rightarrow> hdr_entry list \<Rightarrow> u8 list" where
  "hdr_bytes eh_frame es =
     [1, DW_EH_PE_absptr, DW_EH_PE_absptr, DW_EH_PE_absptr] @ le_bytes 8 eh_frame @ le_bytes 8 (of_nat (length es)) @
     concat (map (\<lambda>e. le_bytes 8 (he_initial_location e) @ le_bytes 8 (he_fde_ptr e)) es)"

text \<open>The globals, the frames handed to \<^verbatim>\<open>__register_frame\<close>, and whether the C library's own function was found.\<close>

record eh_process = process +
  eh_text_size :: u64
  macho_text_start :: u64
  macho_text_end :: u64
  macho_eh_frame :: u64
  macho_eh_frame_size :: u64
  macho_eh_frame_hdr :: u64
  macho_eh_frame_hdr_size :: u64
  eh_registered :: "u64 list"
  real_dl_find_object :: bool

text \<open>\<open>junk\<close>, the sorting function and the two lookups of library functions belong to the system.\<close>

record eh_env = os_env +
  ee_junk :: u8
  ee_qsort :: "hdr_entry list \<Rightarrow> hdr_entry list"
  ee_register_frame :: bool
  ee_dl_find_object :: bool

definition register_frames :: "eh_env \<Rightarrow> u64 \<Rightarrow> eh_sections \<Rightarrow> eh_process \<Rightarrow> eh_process" where
  "register_frames env buf es st =
    (let st = (if ee_register_frame env
               then st\<lparr>eh_registered := eh_registered st @ buf #
                 (if es_native_eh_frame es \<noteq> 0 \<and> es_native_eh_frame_size es > 0 then [es_native_eh_frame es] else [])\<rparr>
               else st)
     in st\<lparr>real_dl_find_object := ee_dl_find_object env\<rparr>)"

text \<open>None is a walk over the image's own entries that does not end. A refused mapping of the table leaves
  \<^verbatim>\<open>MAP_FAILED\<close> in the variable.\<close>

definition build_index :: "eh_env \<Rightarrow> u64 \<Rightarrow> nat \<Rightarrow> eh_sections \<Rightarrow> eh_process \<Rightarrow> (bool \<times> eh_process) option" where
  "build_index env buf ehf_pos es st =
    (let syn = walk_synthetic (p_mem st) buf ehf_pos 0
     in case (if es_native_eh_frame es \<noteq> 0 \<and> es_native_eh_frame_size es > 0
              then parse_native_eh_frame_fdes (ee_junk env) (p_mem st) (es_native_eh_frame es) (es_native_eh_frame_size es)
              else Some []) of
          None \<Rightarrow> None
        | Some nat_entries \<Rightarrow>
            let all_entries = ee_qsort env (syn @ nat_entries);
                (h, st) = mmap_any env 0 (4 + 8 + 8 + of_nat (length all_entries) * 16) st
            in if h = 0 then Some (False, st\<lparr>macho_eh_frame_hdr := - 1\<rparr>)
               else let bytes = hdr_bytes buf all_entries
                    in Some (True, st\<lparr>p_mem := store_bytes (p_mem st) h bytes, macho_eh_frame_hdr := h,
                         macho_eh_frame_hdr_size := of_nat (length bytes)\<rparr>))"

definition eh_frame_register_macho :: "eh_env \<Rightarrow> u64 \<Rightarrow> u64 \<Rightarrow> eh_process \<Rightarrow> (int \<times> eh_process) option" where
  "eh_frame_register_macho env mh slide st =
    (let m = p_mem st; es = locate_eh_sections m mh slide (eh_text_size st);
         st = st\<lparr>eh_text_size := es_text_size es\<rparr>
     in if es_unwind_info es = 0 then Some (- 1, st)
     else
       let base = es_text_base es + slide; personalities = image_personalities m slide es
       in case image_unwind_entries m es of
            None \<Rightarrow> Some (- 1, st)
          | Some [] \<Rightarrow> Some (0, st)
          | Some entries \<Rightarrow>
            let (buf, st) = mmap_any env 0 (of_nat (length entries) * 80 + 4096) st
            in if buf = 0 then Some (- 1, st)
            else
              let b = synthetic_eh_frame base personalities entries;
                  st = st\<lparr>p_mem := store_bytes (p_mem st) buf b, macho_text_start := base,
                         macho_text_end := base + es_text_size es, macho_eh_frame := buf, macho_eh_frame_size := of_nat (length b)\<rparr>
              in case build_index env buf (length b) es st of
                   None \<Rightarrow> None
                 | Some (ok, st) \<Rightarrow> if ok then Some (0, register_frames env buf es st) else Some (- 1, st))"

text \<open>The hook: the range and the table for an address of the image, otherwise the C library's own answer, if it has one.\<close>

definition dl_find_object :: "(u64 \<Rightarrow> (u64 \<times> u64 \<times> u64) option) \<Rightarrow> eh_process \<Rightarrow> u64 \<Rightarrow> (u64 \<times> u64 \<times> u64) option" where
  "dl_find_object real st pc =
    (if macho_eh_frame_hdr st \<noteq> 0 \<and> macho_text_start st \<le> pc \<and> pc < macho_text_end st
     then Some (macho_text_start st, macho_text_end st, macho_eh_frame_hdr st)
     else if real_dl_find_object st then real pc else None)"

end
