(* ===== verification/Dwarf_Cfi.thy ===== *)
theory Dwarf_Cfi
  imports Machismo_Prelude
begin

text \<open>
  How an unwinder reads an \<^verbatim>\<open>.eh_frame\<close> section: the format of CIEs and FDEs and the call-frame instructions of DWARF, as
  far as absolute pointers and the instructions of this repository go. This is the yardstick for the emitted
  tables and models no source.
\<close>

section \<open>Numbers\<close>

fun le_word :: "u8 list \<Rightarrow> u64" where
  "le_word [] = 0"
| "le_word (b # bs) = ucast b OR push_bit 8 (le_word bs)"

fun dw_uleb :: "u8 list \<Rightarrow> (nat \<times> u8 list) option" where
  "dw_uleb [] = None"
| "dw_uleb (b # bs) =
    (if unat b < 128 then Some (unat b, bs)
     else case dw_uleb bs of None \<Rightarrow> None | Some (v, rest) \<Rightarrow> Some (unat b - 128 + 128 * v, rest))"

fun dw_sleb :: "u8 list \<Rightarrow> (int \<times> u8 list) option" where
  "dw_sleb [] = None"
| "dw_sleb (b # bs) =
    (if unat b < 64 then Some (int (unat b), bs)
     else if unat b < 128 then Some (int (unat b) - 128, bs)
     else case dw_sleb bs of None \<Rightarrow> None | Some (v, rest) \<Rightarrow> Some (int (unat b) - 128 + 128 * v, rest))"

lemma dw_uleb_shorter: "dw_uleb bs = Some (v, rest) \<Longrightarrow> length rest < length bs"
  by (induction bs arbitrary: v rest) (auto split: if_splits option.splits intro: less_SucI)

section \<open>Entries\<close>

definition entry_body :: "u8 list \<Rightarrow> nat \<Rightarrow> u8 list" where
  "entry_body sec off = take (unat (le_word (take 4 (drop off sec)))) (drop (off + 4) sec)"

record dw_cie =
  dc_personality :: u64
  dc_lsda :: bool
  dc_ca :: nat
  dc_da :: int
  dc_ra :: nat
  dc_init :: "u8 list"

text \<open>The letters of the augmentation string behind its \<^verbatim>\<open>z\<close>; all pointers absolute. The result is the personality, 0
  for none, and whether FDEs have a pointer to a language-specific area.\<close>

fun dw_aug :: "u8 list \<Rightarrow> u8 list \<Rightarrow> (u64 \<times> bool) option" where
  "dw_aug [] d = Some (0, False)"
| "dw_aug (c # cs) d =
    (case d of [] \<Rightarrow> None
     | e # d' \<Rightarrow>
       if e \<noteq> 0 then None
       else if c = of_char CHR ''P'' then map_option (\<lambda>(_, l). (le_word (take 8 d'), l)) (dw_aug cs (drop 8 d'))
       else if c = of_char CHR ''L'' then map_option (\<lambda>(p, _). (p, True)) (dw_aug cs d')
       else if c = of_char CHR ''R'' then dw_aug cs d'
       else None)"

definition dw_read_cie :: "u8 list \<Rightarrow> nat \<Rightarrow> dw_cie option" where
  "dw_read_cie sec off =
    (let body = entry_body sec off; aug = takeWhile (\<lambda>b. b \<noteq> 0) (drop 5 body); rest = drop (6 + length aug) body in
     if le_word (take 4 body) \<noteq> 0 \<or> body ! 4 \<noteq> 1 \<or> aug = [] \<or> hd aug \<noteq> of_char CHR ''z'' then None
     else case dw_uleb rest of None \<Rightarrow> None | Some (ca, rest) \<Rightarrow>
       (case dw_sleb rest of None \<Rightarrow> None | Some (da, rest) \<Rightarrow>
         (case rest of [] \<Rightarrow> None | ra # rest \<Rightarrow>
           (case dw_uleb rest of None \<Rightarrow> None | Some (n, rest) \<Rightarrow>
             (case dw_aug (drop 1 aug) (take n rest) of None \<Rightarrow> None | Some (p, l) \<Rightarrow>
               Some \<lparr>dc_personality = p, dc_lsda = l, dc_ca = ca, dc_da = da, dc_ra = unat ra, dc_init = drop n rest\<rparr>)))))"

section \<open>Call-frame instructions\<close>

text \<open>The location reached, the register and offset that give the CFA, and where saved registers are, relative to it.\<close>

record cfi =
  cf_loc :: nat
  cf_reg :: nat
  cf_off :: nat
  cf_saved :: "nat \<rightharpoonup> int"

text \<open>The rules in effect at the instruction \<open>pc\<close> bytes behind the start: execution stops at the first location behind it.\<close>

function cfi_exec :: "nat \<Rightarrow> int \<Rightarrow> nat \<Rightarrow> u8 list \<Rightarrow> cfi \<Rightarrow> cfi option" where
  "cfi_exec ca da pc [] st = Some st"
| "cfi_exec ca da pc (i # is) st =
    (if i AND 0xC0 = 0x40
     then let loc = cf_loc st + ca * unat (i AND 0x3F)
          in if pc < loc then Some st else cfi_exec ca da pc is (st\<lparr>cf_loc := loc\<rparr>)
     else if i AND 0xC0 = 0x80
     then case dw_uleb is of None \<Rightarrow> None
          | Some (v, is') \<Rightarrow> cfi_exec ca da pc is' (st\<lparr>cf_saved := (cf_saved st)(unat (i AND 0x3F) \<mapsto> da * int v)\<rparr>)
     else if i = 0 then cfi_exec ca da pc is st
     else if i = 0x05
     then case dw_uleb is of None \<Rightarrow> None
          | Some (r, is') \<Rightarrow> (case dw_uleb is' of None \<Rightarrow> None
            | Some (v, is'') \<Rightarrow> cfi_exec ca da pc is'' (st\<lparr>cf_saved := (cf_saved st)(r \<mapsto> da * int v)\<rparr>))
     else if i = 0x0c
     then case dw_uleb is of None \<Rightarrow> None
          | Some (r, is') \<Rightarrow> (case dw_uleb is' of None \<Rightarrow> None
            | Some (v, is'') \<Rightarrow> cfi_exec ca da pc is'' (st\<lparr>cf_reg := r, cf_off := v\<rparr>))
     else if i = 0x0e
     then case dw_uleb is of None \<Rightarrow> None
          | Some (v, is') \<Rightarrow> cfi_exec ca da pc is' (st\<lparr>cf_off := v\<rparr>)
     else None)"
  by pat_completeness auto
termination
  by (relation "measure (\<lambda>(ca, da, pc, is, st). length is)") (auto dest!: dw_uleb_shorter)

section \<open>What an FDE says\<close>

record unwind_row =
  uw_start :: u64
  uw_range :: u64
  uw_personality :: u64
  uw_lsda :: "u64 option"
  uw_ra :: nat
  uw_cfa :: "nat \<times> nat"
  uw_saved :: "nat \<rightharpoonup> int"

definition dw_unwind :: "u8 list \<Rightarrow> nat \<Rightarrow> nat \<Rightarrow> unwind_row option" where
  "dw_unwind sec off pc =
    (let body = entry_body sec off in
     case dw_read_cie sec (off + 4 - unat (le_word (take 4 body))) of None \<Rightarrow> None
     | Some cie \<Rightarrow>
       (case dw_uleb (drop 20 body) of None \<Rightarrow> None
        | Some (n, rest) \<Rightarrow>
          (case cfi_exec (dc_ca cie) (dc_da cie) pc (dc_init cie) \<lparr>cf_loc = 0, cf_reg = 0, cf_off = 0, cf_saved = Map.empty\<rparr> of
             None \<Rightarrow> None
           | Some init \<Rightarrow>
             (case cfi_exec (dc_ca cie) (dc_da cie) pc (drop n rest) init of None \<Rightarrow> None
              | Some row \<Rightarrow>
                Some \<lparr>uw_start = le_word (take 8 (drop 4 body)), uw_range = le_word (take 8 (drop 12 body)),
                  uw_personality = dc_personality cie, uw_lsda = (if dc_lsda cie then Some (le_word (take 8 rest)) else None),
                  uw_ra = dc_ra cie, uw_cfa = (cf_reg row, cf_off row), uw_saved = cf_saved row\<rparr>))))"

end
