(* ===== verification/Eh_Frame_Emit.thy ===== *)
theory Eh_Frame_Emit
  imports Eh_Frame Dwarf_Cfi
begin

text \<open>
  What the emitters write: the bytes of a CIE and of an FDE, their sizes, and what an unwinder reads in them.
\<close>

section \<open>Numbers\<close>

lemma length_le_bytes [simp]: "length (le_bytes n v) = n" by (simp add: le_bytes_def)

lemma le_bytes_Suc: "le_bytes (Suc n) v = ucast v # le_bytes n (drop_bit 8 v)"
  by (simp add: le_bytes_def map_Suc_upt [symmetric] upt_conv_Cons del: upt_Suc map_map) (simp add: add.commute)

lemma le_word_le_bytes: "le_word (le_bytes n v) = take_bit (8 * n) v"
proof (induction n arbitrary: v)
  case (Suc n)
  have "ucast (ucast v :: u8) OR push_bit 8 (take_bit (8 * n) (drop_bit 8 v)) = take_bit (8 * Suc n) v" for v :: u64
    by (rule bit_eqI) (auto simp: bit_simps)
  then show ?case by (simp add: le_bytes_Suc Suc)
qed (simp add: le_bytes_def)

lemma low_seven:
  fixes v :: u64
  shows "unat (ucast (v AND 0x7f) :: u8) = unat v mod 128" "unat (ucast (v AND 0x7f) OR 0x80 :: u8) = 128 + unat v mod 128"
proof -
  have m: "v AND 0x7f = take_bit 7 v" by (simp add: take_bit_eq_mask mask_eq_exp_minus_1)
  have u: "unat (take_bit 7 v) = unat v mod 128" by (simp add: take_bit_eq_mod unat_mod)
  have w: "unat (ucast (take_bit 7 v) :: u8) = unat v mod 128"
    by (simp add: unsigned_ucast_eq u) (simp add: take_bit_eq_mod)
  show "unat (ucast (v AND 0x7f) :: u8) = unat v mod 128" using w by (simp add: m)
  have e: "(0x80 :: u8) = push_bit 7 1" by simp
  have "\<not> bit (0x80 :: u8) n" if "n < 7" for n using that unfolding e bit_push_bit_iff by simp
  then have "ucast (take_bit 7 v) AND (0x80 :: u8) = 0" by (intro bit_eqI) (auto simp: bit_and_iff bit_ucast_iff bit_take_bit_iff)
  then have "ucast (v AND 0x7f) OR (0x80 :: u8) = ucast (v AND 0x7f) + 0x80"
    using word_plus_and_or [of "ucast (v AND 0x7f)" "0x80 :: u8"] by (simp add: m)
  then show "unat (ucast (v AND 0x7f) OR 0x80 :: u8) = 128 + unat v mod 128"
    using w by (simp add: m unat_word_ariths)
qed

lemma uleb_small: "v < 128 \<Longrightarrow> uleb_bytes v = [ucast v]"
proof -
  assume v: "v < 128"
  then have n: "unat v < 128" by (simp add: word_less_nat_alt)
  then have "drop_bit 7 v = 0" by (simp add: drop_bit_eq_div word_unat_eq_iff unat_div)
  moreover have "ucast (v AND 0x7f) = (ucast v :: u8)"
    using n by (simp add: word_unat_eq_iff low_seven) (simp add: unsigned_ucast_eq take_bit_eq_mod)
  ultimately show ?thesis by (simp add: uleb_bytes.simps)
qed

lemma uleb_nat: "n < 128 \<Longrightarrow> uleb_bytes (of_nat n) = [of_nat n]"
  by (subst uleb_small) (simp_all add: word_less_nat_alt unat_of_nat unsigned_of_nat take_bit_eq_mod)

lemma dw_uleb_bytes: "dw_uleb (uleb_bytes v @ rest) = Some (unat v, rest)"
proof (induction v rule: uleb_bytes.induct)
  case (1 v)
  have d: "unat (drop_bit 7 v) = unat v div 128" by (simp add: drop_bit_eq_div unat_div)
  show ?case
  proof (cases "drop_bit 7 v = 0")
    case True
    then have "unat v < 128" using d by (simp add: div_eq_0_iff)
    then show ?thesis using True by (simp add: uleb_bytes.simps low_seven)
  next
    case False
    then have "dw_uleb (uleb_bytes (drop_bit 7 v) @ rest) = Some (unat v div 128, rest)" using 1 d by simp
    then show ?thesis using False
      by (subst uleb_bytes.simps) (simp add: low_seven)
  qed
qed

lemma sleb_neg8: "sleb_bytes (- 8) = [120]" by (simp add: sleb_bytes.simps)

section \<open>Entries as byte lists\<close>

lemma patch_length_append:
  "length x = 4 \<Longrightarrow> patch_length (length b) (b @ x @ body) = b @ le_bytes 4 (ucast (of_nat (length body) :: u32)) @ body"
  by (simp add: patch_length_def)

lemma ehf_align_append:
  "length b mod 8 = 0 \<Longrightarrow> ehf_align 8 (b @ xs) = b @ xs @ replicate ((8 - length xs mod 8) mod 8) 0"
  by (simp add: ehf_align_def DW_CFA_nop_def mod_add_left_eq [of "length b", symmetric])

lemmas ehf_defs = ehf_u8_def ehf_u32_def ehf_u64_def ehf_uleb128_def ehf_sleb128_def

definition cie_body :: "u64 \<Rightarrow> u8 list" where
  "cie_body p =
    [0, 0, 0, 0, 1] @
    (if p = 0 then [122, 82, 0, 4, 120, 30, 1, 0, 12, 31, 0, 0, 0, 0, 0]
     else [122, 80, 76, 82, 0, 4, 120, 30, 11, 0] @ le_bytes 8 p @ [0, 0, 12, 31, 0])"

definition entry_bytes :: "u8 list \<Rightarrow> u8 list" where
  "entry_bytes body = le_bytes 4 (ucast (of_nat (length body) :: u32)) @ body"

lemma length_cie_body: "length (cie_body p) = (if p = 0 then 20 else 28)" by (simp add: cie_body_def)

lemma zero_bytes4: "le_bytes 4 0 = [0, 0, 0, 0]" by (simp add: le_bytes_def upt_rec)

lemma emit_cie_bytes:
  assumes "length b mod 8 = 0"
  shows "emit_cie p b = (length b, b @ entry_bytes (cie_body p))"
proof -
  have u: "uleb_bytes 4 = [4]" "uleb_bytes 30 = [30]" "uleb_bytes 11 = [11]" "uleb_bytes 1 = [1]" "uleb_bytes 31 = [31]" "uleb_bytes 0 = [0]"
    by (simp_all add: uleb_small)
  define xs where "xs = le_bytes 4 0 @ [1] @ (if p = 0 then [122, 82, 0, 4, 120, 30, 1, 0, 12, 31, 0]
     else [122, 80, 76, 82, 0, 4, 120, 30, 11, 0] @ le_bytes 8 p @ [0, 0, 12, 31, 0])"
  have "emit_cie p b = (length b, patch_length (length b) (ehf_align 8 (b @ le_bytes 4 0 @ xs)))"
    by (simp add: emit_cie_def Let_def ehf_defs u sleb_neg8 xs_def of_chars_def DWARF_REG_LR_def DWARF_REG_SP_def
        DW_EH_PE_absptr_def DW_CFA_def_cfa_def)
  moreover have pad: "(8 - length (le_bytes 4 0 @ xs) mod 8) mod 8 = (if p = 0 then 4 else 0)" by (simp add: xs_def)
  have "replicate 4 (0 :: u8) = [0, 0, 0, 0]" by (simp add: eval_nat_numeral)
  then have "ehf_align 8 (b @ le_bytes 4 0 @ xs) = b @ le_bytes 4 0 @ cie_body p"
    by (simp only: ehf_align_append [OF assms] append_assoc pad) (simp add: xs_def cie_body_def zero_bytes4)
  ultimately show ?thesis by (simp only: patch_length_append length_le_bytes entry_bytes_def)
qed

text \<open>The body of an FDE with its padding; \<open>dist\<close> is the distance from its second word to its CIE.\<close>

definition fde_head :: "nat \<Rightarrow> u64 \<Rightarrow> u32 \<Rightarrow> u64 \<Rightarrow> u8 list" where
  "fde_head dist func sz lsda =
     le_bytes 4 (ucast (of_nat dist :: u32)) @ le_bytes 8 func @ le_bytes 8 (ucast sz) @
     (if lsda \<noteq> 0 then 8 # le_bytes 8 lsda else [0])"

definition fde_body :: "nat \<Rightarrow> u64 \<Rightarrow> u32 \<Rightarrow> u64 \<Rightarrow> u8 list \<Rightarrow> u8 list" where
  "fde_body dist func sz lsda prog =
    (let xs = fde_head dist func sz lsda @ prog in xs @ replicate ((8 - (length xs + 4) mod 8) mod 8) 0)"

lemma emit_fde_bytes:
  assumes "length b mod 8 = 0" "\<And>b. cfi b = b @ cfi []"
  shows "emit_fde cfi cie func sz lsda b = b @ entry_bytes (fde_body (length b + 4 - cie) func sz lsda (cfi []))"
proof -
  have u: "uleb_bytes 8 = [8]" "uleb_bytes 0 = [0]" by (simp_all add: uleb_small)
  define prog where "prog = cfi []"
  have c: "cfi b = b @ prog" for b unfolding prog_def by (rule assms(2))
  have "emit_fde cfi cie func sz lsda b =
      patch_length (length b) (ehf_align 8 (b @ le_bytes 4 0 @ fde_head (length b + 4 - cie) func sz lsda @ prog))"
    unfolding emit_fde_def Let_def ehf_defs fde_head_def by (simp add: c u)
  moreover have "length (le_bytes 4 0 @ xs) = length xs + 4" for xs by simp
  ultimately show ?thesis
    by (simp only: ehf_align_append [OF assms(1)] append_assoc patch_length_append length_le_bytes entry_bytes_def fde_body_def
        Let_def prog_def)
qed

lemma save_x_append: "save_x rs slot b = b @ save_x rs slot []"
proof (induction rs arbitrary: slot b)
  case (Cons r rs)
  show ?case by (simp, subst (1 2) Cons) (simp add: ehf_defs)
qed simp

lemma save_d_append: "save_d rs slot b = b @ save_d rs slot []"
proof (induction rs arbitrary: slot b)
  case (Cons r rs)
  show ?case by (simp, subst (1 2) Cons) (simp add: ehf_defs)
qed simp

lemma frame_cfi_append: "frame_cfi encoding b = b @ frame_cfi encoding []"
  unfolding frame_cfi_def Let_def
  by (subst (1 2) save_d_append, subst (1 2) save_x_append) (simp add: ehf_defs)

lemma frameless_cfi_append: "frameless_cfi encoding b = b @ frameless_cfi encoding []"
  by (simp add: frameless_cfi_def Let_def ehf_defs)

section \<open>What an unwinder reads\<close>

lemma le_word_u32: "le_word (le_bytes 4 (ucast (w :: u32))) = ucast w"
proof -
  have "take_bit 32 (ucast w :: u64) = ucast w" by (rule bit_eqI) (auto simp: bit_simps dest: bit_imp_le_length)
  then show ?thesis by (simp add: le_word_le_bytes)
qed

lemma le_word_u64: "le_word (le_bytes 8 v) = v" by (simp add: le_word_le_bytes take_bit_word_eq_self)

lemma unat_u32: "n < 2 ^ 32 \<Longrightarrow> unat (ucast (of_nat n :: u32) :: u64) = n"
  by (simp add: unsigned_ucast_eq unsigned_of_nat take_bit_eq_mod)

lemma wide_unat: "unat (ucast w :: u64) = unat w" for w :: u32
proof -
  have "unat w < 2 ^ 32" using unsigned_less [of w] by simp
  then show ?thesis by (simp add: unsigned_ucast_eq take_bit_nat_eq_self)
qed

lemma entry_body_at:
  "length body < 2 ^ 32 \<Longrightarrow> entry_body (pre @ entry_bytes body @ post) (length pre) = body"
  by (simp add: entry_body_def entry_bytes_def le_word_u32 unat_u32)

lemma cie_read:
  "dw_read_cie (pre @ entry_bytes (cie_body p) @ post) (length pre) =
     Some \<lparr>dc_personality = p, dc_lsda = (p \<noteq> 0), dc_ca = 4, dc_da = - 8, dc_ra = 30,
       dc_init = (if p = 0 then [12, 31, 0, 0, 0, 0, 0] else [12, 31, 0])\<rparr>"
proof -
  have b: "entry_body (pre @ entry_bytes (cie_body p) @ post) (length pre) = cie_body p"
    by (rule entry_body_at) (simp add: length_cie_body)
  show ?thesis unfolding dw_read_cie_def b Let_def
    by (simp add: cie_body_def le_word_u64)
qed

lemma cfi_nops: "cfi_exec ca da pc (replicate k 0) st = Some st"
  by (induction k) simp_all

lemma offset_opcode:
  assumes "r < 64"
  shows "(0x80 OR of_nat r :: u8) AND 0xC0 = 0x80" "unat ((0x80 OR of_nat r :: u8) AND 0x3F) = r"
proof -
  have "\<forall>r \<in> set [0..<64]. (0x80 OR of_nat r :: u8) AND 0xC0 = 0x80 \<and> unat ((0x80 OR of_nat r :: u8) AND 0x3F) = r"
    by code_simp
  then show "(0x80 OR of_nat r :: u8) AND 0xC0 = 0x80" "unat ((0x80 OR of_nat r :: u8) AND 0x3F) = r" using assms by auto
qed

text \<open>Registers saved one below the other.\<close>

fun saved_at :: "nat list \<Rightarrow> nat \<Rightarrow> (nat \<rightharpoonup> int) \<Rightarrow> (nat \<rightharpoonup> int)" where
  "saved_at [] slot f = f"
| "saved_at (r # rs) slot f = saved_at rs (slot + 1) (f(r \<mapsto> - 8 * int slot))"

lemma saved_at_append: "saved_at (rs @ qs) slot f = saved_at qs (slot + length rs) (saved_at rs slot f)"
  by (induction rs arbitrary: slot f) simp_all

lemma dw_uleb_nat: "n < 128 \<Longrightarrow> dw_uleb (uleb_bytes (of_nat n) @ rest) = Some (n, rest)"
  by (simp add: dw_uleb_bytes unat_of_nat)

lemma cfi_save_x:
  assumes "\<forall>r \<in> set rs. r < 64" "slot + length rs \<le> 128"
  shows "cfi_exec ca (- 8) pc (save_x rs slot [] @ rest) st = cfi_exec ca (- 8) pc rest (st\<lparr>cf_saved := saved_at rs slot (cf_saved st)\<rparr>)"
  using assms
proof (induction rs arbitrary: slot st)
  case (Cons r rs)
  have "save_x (r # rs) slot [] = (0x80 OR of_nat r) # uleb_bytes (of_nat slot) @ save_x rs (slot + 1) []"
    by (simp, subst save_x_append) (simp add: ehf_defs DW_CFA_offset_def)
  then show ?case using Cons by (simp add: offset_opcode dw_uleb_nat)
qed simp

lemma cfi_save_d:
  assumes "\<forall>r \<in> set rs. r < 128" "slot + length rs \<le> 128"
  shows "cfi_exec ca (- 8) pc (save_d rs slot [] @ rest) st = cfi_exec ca (- 8) pc rest (st\<lparr>cf_saved := saved_at rs slot (cf_saved st)\<rparr>)"
  using assms
proof (induction rs arbitrary: slot st)
  case (Cons r rs)
  have "save_d (r # rs) slot [] = 0x05 # uleb_bytes (of_nat r) @ uleb_bytes (of_nat slot) @ save_d rs (slot + 1) []"
    by (simp, subst save_d_append) (simp add: ehf_defs DW_CFA_offset_extended_def)
  then show ?case using Cons by (simp add: dw_uleb_nat)
qed simp

text \<open>The registers of a frame, by the bits of its encoding: pairs from \<^verbatim>\<open>x19\<close> on, then pairs from \<^verbatim>\<open>d8\<close> on.\<close>

definition frame_regs :: "u32 \<Rightarrow> nat list" where
  "frame_regs encoding =
    concat (map (\<lambda>i. if bit encoding i then [19 + 2 * i, 20 + 2 * i] else []) [0..<5]) @
    concat (map (\<lambda>i. if bit encoding (8 + i) then [72 + 2 * i, 73 + 2 * i] else []) [0..<4])"

definition frame_x :: "u32 \<Rightarrow> nat list" where "frame_x enc = pair_regs DWARF_REG_X19 [0x1, 0x2, 0x4, 0x8, 0x10] (enc AND 0x1F)"
definition frame_d :: "u32 \<Rightarrow> nat list" where "frame_d enc = pair_regs DWARF_REG_D8 [0x1, 0x2, 0x4, 0x8] (drop_bit 8 enc AND 0x0F)"

lemma frame_regs_split: "frame_regs enc = frame_x enc @ frame_d enc"
proof -
  have b: "(w AND 0x1F) AND 1 \<noteq> 0 \<longleftrightarrow> bit w 0" "(w AND 0x1F) AND 2 \<noteq> 0 \<longleftrightarrow> bit w 1" "(w AND 0x1F) AND 4 \<noteq> 0 \<longleftrightarrow> bit w 2"
    "(w AND 0x1F) AND 8 \<noteq> 0 \<longleftrightarrow> bit w 3" "(w AND 0x1F) AND 16 \<noteq> 0 \<longleftrightarrow> bit w 4"
    "(w AND 0x0F) AND 1 \<noteq> 0 \<longleftrightarrow> bit w 0" "(w AND 0x0F) AND 2 \<noteq> 0 \<longleftrightarrow> bit w 1" "(w AND 0x0F) AND 4 \<noteq> 0 \<longleftrightarrow> bit w 2"
    "(w AND 0x0F) AND 8 \<noteq> 0 \<longleftrightarrow> bit w 3" for w :: u32
    using and_exp_eq_0_iff_not_bit [of w 0] and_exp_eq_0_iff_not_bit [of w 1] and_exp_eq_0_iff_not_bit [of w 2]
      and_exp_eq_0_iff_not_bit [of w 3] and_exp_eq_0_iff_not_bit [of w 4]
    by (simp_all add: and.assoc)
  show ?thesis
    by (simp add: frame_regs_def frame_x_def frame_d_def pair_regs_def b upt_rec DWARF_REG_X19_def DWARF_REG_D8_def bit_drop_bit_eq
        enumerate_eq_zip) (simp add: eval_nat_numeral)
qed

lemma pair_regs_bounds:
  "r \<in> set (pair_regs n ms ps) \<Longrightarrow> n \<le> r \<and> r < n + 2 * length ms"
  "length (pair_regs n ms ps) \<le> 2 * length ms"
proof -
  show "length (pair_regs n ms ps) \<le> 2 * length ms"
  proof -
    have "length (concat (map (\<lambda>(i, flag). if ps AND flag \<noteq> 0 then [n + 2 * i, n + 2 * i + 1] else []) (enumerate k ms))) \<le> 2 * length ms"
      for k
    proof (induction ms arbitrary: k)
      case (Cons a ms)
      from Cons [of "Suc k"] show ?case by simp
    qed simp
    then show ?thesis by (simp add: pair_regs_def)
  qed
qed (auto simp: pair_regs_def in_set_enumerate_eq split: if_splits)

lemma frame_reg_bounds:
  "r \<in> set (frame_x enc) \<Longrightarrow> r < 64" "r \<in> set (frame_d enc) \<Longrightarrow> r < 128"
  "length (frame_x enc) \<le> 10" "length (frame_d enc) \<le> 8"
  using pair_regs_bounds(1) [of r DWARF_REG_X19 "[0x1, 0x2, 0x4, 0x8, 0x10]"] pair_regs_bounds(1) [of r DWARF_REG_D8 "[0x1, 0x2, 0x4, 0x8]"]
    pair_regs_bounds(2) [of DWARF_REG_X19 "[0x1, 0x2, 0x4, 0x8, 0x10]"] pair_regs_bounds(2) [of DWARF_REG_D8 "[0x1, 0x2, 0x4, 0x8]"]
  by (fastforce simp: frame_x_def frame_d_def DWARF_REG_X19_def DWARF_REG_D8_def)+

definition entry_state :: cfi where "entry_state = \<lparr>cf_loc = 0, cf_reg = 31, cf_off = 0, cf_saved = Map.empty\<rparr>"

lemma entry_state_simps [simp]: "cf_reg entry_state = 31" "cf_off entry_state = 0" "cf_saved entry_state = Map.empty"
  by (simp_all add: entry_state_def)

lemma frame_cfi_exec:
  "cfi_exec 4 (- 8) pc (frame_cfi enc [] @ replicate k 0) entry_state =
     Some (if pc < 4 then entry_state
           else \<lparr>cf_loc = 4, cf_reg = 29, cf_off = 16, cf_saved = saved_at (30 # 29 # frame_regs enc) 1 Map.empty\<rparr>)"
proof -
  have u: "uleb_bytes 29 = [29]" "uleb_bytes 16 = [16]" "uleb_bytes 1 = [1]" "uleb_bytes 2 = [2]" by (simp_all add: uleb_small)
  let ?xs = "frame_x enc" and ?ds = "frame_d enc"
  have "frame_cfi enc [] = [0x41, 0x0c, 29, 16, 0x9e, 1, 0x9d, 2] @ save_x ?xs 3 [] @ save_d ?ds (3 + length ?xs) []"
    unfolding frame_cfi_def Let_def frame_x_def [symmetric] frame_d_def [symmetric]
    by (subst save_d_append, subst save_x_append)
      (simp add: ehf_defs u DW_CFA_advance_loc_def DW_CFA_def_cfa_def DWARF_REG_FP_def DWARF_REG_LR_def DW_CFA_offset_def)
  moreover have "cfi_exec 4 (- 8) pc (save_x ?xs 3 [] @ save_d ?ds (3 + length ?xs) [] @ replicate k 0) st =
      Some (st\<lparr>cf_saved := saved_at (frame_regs enc) 3 (cf_saved st)\<rparr>)" for st
  proof -
    have "3 + length ?xs \<le> 128" "3 + length ?xs + length ?ds \<le> 128" "\<forall>r \<in> set ?xs. r < 64" "\<forall>r \<in> set ?ds. r < 128"
      using frame_reg_bounds(3,4) [of enc] frame_reg_bounds(1,2) [of _ enc] by auto
    then show ?thesis by (simp add: cfi_save_x cfi_save_d cfi_nops frame_regs_split saved_at_append)
  qed
  ultimately show ?thesis by (simp add: entry_state_def) (simp add: numeral_3_eq_3)
qed

lemma frameless_cfi_exec:
  "cfi_exec 4 (- 8) pc (frameless_cfi enc [] @ replicate k 0) entry_state =
     Some (if pc < 4 \<or> stack_size enc = 0 then entry_state
           else \<lparr>cf_loc = 4, cf_reg = 31, cf_off = unat (stack_size enc), cf_saved = [30 \<mapsto> - 8]\<rparr>)"
proof -
  have u: "uleb_bytes 1 = [1]" by (simp add: uleb_small)
  have "16 dvd unat (stack_size enc)"
  proof -
    have "unat (enc AND UNWIND_ARM64_FRAMELESS_STACK_SIZE_MASK) \<le> unat UNWIND_ARM64_FRAMELESS_STACK_SIZE_MASK"
      by (rule iffD1 [OF word_le_nat_alt]) (rule word_and_le1)
    then have "unat (drop_bit 12 (enc AND UNWIND_ARM64_FRAMELESS_STACK_SIZE_MASK)) * 16 < 2 ^ 32"
      by (simp add: drop_bit_eq_div unat_div UNWIND_ARM64_FRAMELESS_STACK_SIZE_MASK_def)
    then show ?thesis by (simp add: stack_size_def unat_word_ariths)
  qed
  then have "stack_size enc = 0 \<or> 8 \<le> stack_size enc"
    by (auto simp: word_le_nat_alt word_unat_eq_iff elim!: dvdE)
  then show ?thesis
    by (auto simp: frameless_cfi_def Let_def ehf_defs u DW_CFA_advance_loc_def DW_CFA_def_cfa_offset_def DW_CFA_offset_def DWARF_REG_LR_def
        dw_uleb_bytes wide_unat cfi_nops entry_state_def word_greater_zero_iff)
qed

text \<open>What a compact encoding says, as the emitter understands it: nothing before the first instruction has run; after it a frame has
  its saved registers below the frame record, and a frameless function its stack and the return address at its top.\<close>

definition compact_rule :: "u32 \<Rightarrow> nat \<Rightarrow> (nat \<times> nat) \<times> (nat \<rightharpoonup> int)" where
  "compact_rule enc pc =
    (let mode = enc AND UNWIND_ARM64_MODE_MASK in
     if 4 \<le> pc \<and> mode = UNWIND_ARM64_MODE_FRAME then ((29, 16), saved_at (30 # 29 # frame_regs enc) 1 Map.empty)
     else if 4 \<le> pc \<and> mode = UNWIND_ARM64_MODE_FRAMELESS \<and> stack_size enc \<noteq> 0 then ((31, unat (stack_size enc)), [30 \<mapsto> - 8])
     else ((31, 0), Map.empty))"

definition entry_prog :: "u32 \<Rightarrow> u8 list" where
  "entry_prog enc =
    (let mode = enc AND UNWIND_ARM64_MODE_MASK in
     if mode = UNWIND_ARM64_MODE_FRAME then frame_cfi enc []
     else if mode = UNWIND_ARM64_MODE_FRAMELESS then frameless_cfi enc [] else [])"

lemma modes_differ: "UNWIND_ARM64_MODE_FRAME \<noteq> UNWIND_ARM64_MODE_FRAMELESS"
  by (simp add: UNWIND_ARM64_MODE_FRAME_def UNWIND_ARM64_MODE_FRAMELESS_def)

lemma entry_prog_exec:
  "\<exists>row. cfi_exec 4 (- 8) pc (entry_prog enc @ replicate k 0) entry_state = Some row \<and>
     ((cf_reg row, cf_off row), cf_saved row) = compact_rule enc pc"
proof -
  have "cfi_exec 4 (- 8) pc (replicate k 0) entry_state = Some entry_state" by (rule cfi_nops)
  then show ?thesis
    by (auto simp: entry_prog_def compact_rule_def Let_def frame_cfi_exec frameless_cfi_exec modes_differ not_less
        simp del: saved_at.simps)
qed

lemma fde_unwinds:
  assumes pre: "pre = cpre @ entry_bytes (cie_body p) @ cpost"
    and body: "body = fde_body (length pre + 4 - length cpre) func sz lsda (entry_prog enc)"
    and len: "length pre + 4 < 2 ^ 32" "length body < 2 ^ 32" and lsda: "lsda \<noteq> 0 \<or> p = 0"
  shows "dw_unwind (pre @ entry_bytes body @ post) (length pre) pc =
    Some \<lparr>uw_start = func, uw_range = ucast sz, uw_personality = p, uw_lsda = (if p = 0 then None else Some lsda), uw_ra = 30,
      uw_cfa = fst (compact_rule enc pc), uw_saved = snd (compact_rule enc pc)\<rparr>"
proof -
  let ?sec = "pre @ entry_bytes body @ post" and ?dist = "length pre + 4 - length cpre"
  have b: "entry_body ?sec (length pre) = body" by (rule entry_body_at [OF len(2)])
  obtain k where k: "body = fde_head ?dist func sz lsda @ entry_prog enc @ replicate k 0"
    unfolding body fde_body_def Let_def by simp
  have bk: "unat (le_word (take 4 body)) = ?dist" using len(1) by (simp add: k fde_head_def le_word_u32 unat_u32)
  have "length pre + 4 - ?dist = length cpre" using pre by simp
  then have cie: "dw_read_cie ?sec (length pre + 4 - unat (le_word (take 4 body))) =
      Some \<lparr>dc_personality = p, dc_lsda = (p \<noteq> 0), dc_ca = 4, dc_da = - 8, dc_ra = 30,
        dc_init = (if p = 0 then [12, 31, 0, 0, 0, 0, 0] else [12, 31, 0])\<rparr>"
    using cie_read [of cpre p "cpost @ entry_bytes body @ post"] by (simp add: bk pre)
  have init: "cfi_exec 4 (- 8) pc (if p = 0 then [12, 31, 0, 0, 0, 0, 0] else [12, 31, 0])
      \<lparr>cf_loc = 0, cf_reg = 0, cf_off = 0, cf_saved = Map.empty\<rparr> = Some entry_state"
    by (simp add: entry_state_def)
  obtain row where row: "cfi_exec 4 (- 8) pc (entry_prog enc @ replicate k 0) entry_state = Some row"
      "((cf_reg row, cf_off row), cf_saved row) = compact_rule enc pc"
    using entry_prog_exec by blast
  define rest where "rest = (if lsda \<noteq> 0 then le_bytes 8 lsda else []) @ entry_prog enc @ replicate k 0"
  define n where "n = (if lsda \<noteq> 0 then 8 else 0 :: nat)"
  have aug: "dw_uleb (drop 20 body) = Some (n, rest)" by (simp add: k fde_head_def n_def rest_def)
  have prog: "drop n rest = entry_prog enc @ replicate k 0" by (simp add: n_def rest_def)
  have lsda': "p \<noteq> 0 \<Longrightarrow> le_word (take 8 rest) = lsda" using lsda by (simp add: rest_def le_word_u64)
  have loc: "le_word (take 8 (drop 4 body)) = func" "le_word (take 8 (drop 12 body)) = ucast sz"
    by (simp_all add: k fde_head_def le_word_u64)
  show ?thesis
    unfolding dw_unwind_def Let_def b cie
    by (simp add: aug prog init row(1) loc lsda' row(2) [symmetric])
qed

section \<open>Sizes\<close>

lemma length_save_x: "slot + length rs \<le> 128 \<Longrightarrow> length (save_x rs slot []) = 2 * length rs"
proof (induction rs arbitrary: slot)
  case (Cons r rs)
  then show ?case by (simp, subst save_x_append) (simp add: ehf_defs uleb_nat)
qed simp

lemma length_save_d: "slot + length rs \<le> 128 \<Longrightarrow> \<forall>r \<in> set rs. r < 128 \<Longrightarrow> length (save_d rs slot []) = 3 * length rs"
proof (induction rs arbitrary: slot)
  case (Cons r rs)
  then show ?case by (simp, subst save_d_append) (simp add: ehf_defs uleb_nat)
qed simp

lemma length_uleb: "unat v < 128 ^ Suc k \<Longrightarrow> length (uleb_bytes v) \<le> Suc k"
proof (induction k arbitrary: v)
  case 0
  then show ?case by (subst uleb_small) (simp_all add: word_less_nat_alt)
next
  case (Suc k)
  have "unat (drop_bit 7 v) < 128 ^ Suc k"
    using Suc.prems by (simp add: drop_bit_eq_div unat_div less_mult_imp_div_less mult.commute)
  from Suc.IH [OF this] show ?case by (subst uleb_bytes.simps) (simp add: Let_def)
qed

lemma length_frame_cfi: "length (frame_cfi enc []) = 8 + 2 * length (frame_x enc) + 3 * length (frame_d enc)"
proof -
  have u: "uleb_bytes 29 = [29]" "uleb_bytes 16 = [16]" "uleb_bytes 1 = [1]" "uleb_bytes 2 = [2]" by (simp_all add: uleb_small)
  have "3 + length (frame_x enc) \<le> 128" "3 + length (frame_x enc) + length (frame_d enc) \<le> 128" "\<forall>r \<in> set (frame_d enc). r < 128"
    using frame_reg_bounds(3,4) [of enc] frame_reg_bounds(2) [of _ enc] by auto
  then show ?thesis
    unfolding frame_cfi_def Let_def frame_x_def [symmetric] frame_d_def [symmetric]
    by (subst save_d_append, subst save_x_append) (simp add: ehf_defs u DWARF_REG_FP_def length_save_x length_save_d)
qed

lemma length_frameless_cfi: "length (frameless_cfi enc []) \<le> 7"
proof -
  have u: "uleb_bytes 1 = [1]" by (simp add: uleb_small)
  have "unat (enc AND UNWIND_ARM64_FRAMELESS_STACK_SIZE_MASK) \<le> unat UNWIND_ARM64_FRAMELESS_STACK_SIZE_MASK"
    by (rule iffD1 [OF word_le_nat_alt]) (rule word_and_le1)
  then have "unat (stack_size enc) \<le> 65520"
    by (simp add: stack_size_def drop_bit_eq_div unat_div UNWIND_ARM64_FRAMELESS_STACK_SIZE_MASK_def unat_word_ariths)
  then have "unat (ucast (stack_size enc) :: u64) < 128 ^ Suc 2" by (simp add: wide_unat)
  from length_uleb [OF this] show ?thesis by (simp add: frameless_cfi_def Let_def ehf_defs u)
qed

end
