(* ===== verification/Eh_Frame_Correct.thy ===== *)
theory Eh_Frame_Correct
  imports Eh_Frame_Emit Stack_Correct
begin

text \<open>
  The synthetic section as a whole: every function gets one FDE that says what its compact encoding says, the walk that
  builds the index finds exactly these, and so does the parser for the image's own entries.
\<close>

section \<open>Layout of the section\<close>

lemma length_entry_bytes [simp]: "length (entry_bytes body) = length body + 4"
  by (simp add: entry_bytes_def)

lemma length_fde_head: "length (fde_head dist func sz lsda) = (if lsda = 0 then 21 else 29)"
  by (simp add: fde_head_def)

lemma aligned_add: "a mod 8 = 0 \<Longrightarrow> b mod 8 = 0 \<Longrightarrow> (a + b) mod 8 = (0 :: nat)"
  by presburger

lemma fde_body_aligned: "(length (fde_body k func sz lsda prog) + 4) mod 8 = 0"
proof -
  define n where "n = length (fde_head k func sz lsda @ prog) + 4"
  have "length (fde_body k func sz lsda prog) + 4 = n + (8 - n mod 8) mod 8"
    by (simp add: fde_body_def Let_def n_def)
  moreover have "(n mod 8 + (8 - n mod 8) mod 8) mod 8 = 0" by (cases "n mod 8 = 0") simp_all
  then have "(n + (8 - n mod 8) mod 8) mod 8 = 0" by (simp only: mod_add_left_eq)
  ultimately show ?thesis by simp
qed

lemma cie_aligned: "length (entry_bytes (cie_body p)) mod 8 = 0"
  by (simp add: length_cie_body)

fun cie_offsets :: "u64 list \<Rightarrow> nat \<Rightarrow> nat list" where
  "cie_offsets [] n = []"
| "cie_offsets (p # ps) n = n # cie_offsets ps (n + length (entry_bytes (cie_body p)))"

definition cies_bytes :: "u64 list \<Rightarrow> u8 list" where
  "cies_bytes ps = concat (map (\<lambda>p. entry_bytes (cie_body p)) ps)"

lemma length_cie_offsets [simp]: "length (cie_offsets ps n) = length ps"
  by (induction ps arbitrary: n) simp_all

lemma cies_aligned: "length (cies_bytes ps) mod 8 = 0"
proof (induction ps)
  case (Cons p ps)
  then show ?case using aligned_add [OF cie_aligned] by (simp add: cies_bytes_def del: length_entry_bytes)
qed (simp add: cies_bytes_def)

lemma emit_cies_bytes: "length b mod 8 = 0 \<Longrightarrow> emit_cies ps b = (cie_offsets ps (length b), b @ cies_bytes ps)"
proof (induction ps arbitrary: b)
  case (Cons p ps)
  have "length (b @ entry_bytes (cie_body p)) mod 8 = 0" 
    using aligned_add [OF Cons.prems cie_aligned] by simp
  from Cons.IH [OF this] show ?case using Cons.prems by (simp add: emit_cie_bytes cies_bytes_def)
qed (simp add: cies_bytes_def)

lemma cie_at:
  "i < length ps \<Longrightarrow> \<exists>pre post. cies_bytes ps = pre @ entry_bytes (cie_body (ps ! i)) @ post \<and> cie_offsets ps n ! i = n + length pre"
proof (induction ps arbitrary: i n)
  case (Cons p ps)
  show ?case
  proof (cases i)
    case 0
    then show ?thesis by (intro exI [of _ "[]"] exI [of _ "cies_bytes ps"]) (simp add: cies_bytes_def)
  next
    case (Suc j)
    then obtain pre post where "cies_bytes ps = pre @ entry_bytes (cie_body (ps ! j)) @ post"
        "cie_offsets ps (n + length (entry_bytes (cie_body p))) ! j = n + length (entry_bytes (cie_body p)) + length pre"
      using Cons.IH [of j "n + length (entry_bytes (cie_body p))"] Cons.prems by auto
    then show ?thesis using Suc
      by (intro exI [of _ "entry_bytes (cie_body p) @ pre"] exI [of _ post]) (simp add: cies_bytes_def)
  qed
qed simp

text \<open>The FDE of an entry at a position, and the FDEs of all entries with their positions.\<close>

definition entry_fde :: "u64 \<Rightarrow> nat list \<Rightarrow> cu_entry \<Rightarrow> nat \<Rightarrow> u8 list" where
  "entry_fde base cies e pos =
     fde_body (pos + 4 - entry_cie cies e) (base + ucast (cu_func_offset e)) (cu_func_size e) (entry_lsda base e) (entry_prog (cu_encoding e))"

lemma emit_entry_bytes:
  "length b mod 8 = 0 \<Longrightarrow>
   emit_entry base cies e b = (if entry_has_fde e then b @ entry_bytes (entry_fde base cies e (length b)) else b)"
  using emit_fde_bytes [of b "\<lambda>b. b", simplified]
  by (simp add: emit_entry_def Let_def emit_fde_frame_def emit_fde_frameless_def emit_fde_minimal_def entry_fde_def entry_prog_def
      emit_fde_bytes frame_cfi_append [symmetric] frameless_cfi_append [symmetric])

fun fde_list :: "u64 \<Rightarrow> nat list \<Rightarrow> cu_entry list \<Rightarrow> nat \<Rightarrow> (cu_entry \<times> nat) list" where
  "fde_list base cies [] pos = []"
| "fde_list base cies (e # es) pos =
    (if entry_has_fde e then (e, pos) # fde_list base cies es (pos + length (entry_bytes (entry_fde base cies e pos)))
     else fde_list base cies es pos)"

definition fdes_bytes :: "u64 \<Rightarrow> nat list \<Rightarrow> (cu_entry \<times> nat) list \<Rightarrow> u8 list" where
  "fdes_bytes base cies fs = concat (map (\<lambda>(e, pos). entry_bytes (entry_fde base cies e pos)) fs)"

lemma fde_list_entries: "map fst (fde_list base cies es pos) = filter entry_has_fde es"
  by (induction es arbitrary: pos) simp_all

lemma fold_emit_entries:
  "length b mod 8 = 0 \<Longrightarrow> fold (emit_entry base cies) es b = b @ fdes_bytes base cies (fde_list base cies es (length b))"
proof (induction es arbitrary: b)
  case (Cons e es)
  have "length (b @ entry_bytes (entry_fde base cies e (length b))) mod 8 = 0"
    using aligned_add [OF Cons.prems fde_body_aligned] by (simp add: entry_fde_def add.assoc)
  from Cons.IH [OF this] Cons.IH [OF Cons.prems] show ?case using Cons.prems by (simp add: emit_entry_bytes fdes_bytes_def)
qed (simp add: fdes_bytes_def)

lemma synthetic_bytes:
  "synthetic_eh_frame base ps es =
    (let cies = cie_offsets (0 # ps) 0
     in cies_bytes (0 # ps) @ fdes_bytes base cies (fde_list base cies es (length (cies_bytes (0 # ps)))) @ [0, 0, 0, 0])"
  using cies_aligned [of "0 # ps"]
  by (simp add: synthetic_eh_frame_def emit_cies_bytes Let_def fold_emit_entries ehf_u32_def zero_bytes4 del: emit_cies.simps cie_offsets.simps)

text \<open>The FDE at a position of the list is at that position of the section.\<close>

lemma fde_at:
  assumes "(e, pos) \<in> set (fde_list base cies es n)"
  shows "\<exists>pre post. fdes_bytes base cies (fde_list base cies es n) = pre @ entry_bytes (entry_fde base cies e pos) @ post \<and> pos = n + length pre"
  using assms
proof (induction es arbitrary: n)
  case (Cons f es)
  let ?k = "n + length (entry_bytes (entry_fde base cies f n))"
  consider (here) "entry_has_fde f" "e = f" "pos = n" | (later) "entry_has_fde f" "(e, pos) \<in> set (fde_list base cies es ?k)"
    | (skip) "\<not> entry_has_fde f" "(e, pos) \<in> set (fde_list base cies es n)"
    using Cons.prems by (auto split: if_splits)
  then show ?case
  proof cases
    case here
    then show ?thesis
      by (intro exI [of _ "[]"] exI [of _ "fdes_bytes base cies (fde_list base cies es ?k)"]) (simp add: fdes_bytes_def)
  next
    case later
    obtain pre post where "fdes_bytes base cies (fde_list base cies es ?k) = pre @ entry_bytes (entry_fde base cies e pos) @ post"
        "pos = ?k + length pre"
      using Cons.IH [OF later(2)] by blast
    then show ?thesis using later(1)
      by (intro exI [of _ "entry_bytes (entry_fde base cies f n) @ pre"] exI [of _ post]) (simp add: fdes_bytes_def)
  next
    case skip
    then show ?thesis using Cons.IH by simp
  qed
qed simp

section \<open>Every function has its FDE\<close>

definition entry_personality :: "u64 list \<Rightarrow> cu_entry \<Rightarrow> u64" where
  "entry_personality ps e =
    (if 0 < personality_index e \<and> personality_index e \<le> length ps then ps ! (personality_index e - 1) else 0)"

lemma entry_cie_index:
  "\<exists>i \<le> length ps. entry_cie (cie_offsets (0 # ps) 0) e = cie_offsets (0 # ps) 0 ! i \<and> (0 # ps) ! i = entry_personality ps e"
  by (rule exI [of _ "if 0 < personality_index e \<and> personality_index e \<le> length ps then personality_index e else 0"])
    (auto simp: entry_cie_def entry_personality_def nth_Cons')

definition entry_row :: "u64 \<Rightarrow> u64 list \<Rightarrow> cu_entry \<Rightarrow> nat \<Rightarrow> unwind_row" where
  "entry_row base ps e pc =
    \<lparr>uw_start = base + ucast (cu_func_offset e), uw_range = ucast (cu_func_size e), uw_personality = entry_personality ps e,
     uw_lsda = (if entry_personality ps e = 0 then None else Some (entry_lsda base e)), uw_ra = 30,
     uw_cfa = fst (compact_rule (cu_encoding e) pc), uw_saved = snd (compact_rule (cu_encoding e) pc)\<rparr>"

lemma length_entry_prog: "length (entry_prog enc) \<le> 52"
proof -
  have "length (frame_cfi enc []) \<le> 52" using frame_reg_bounds(3,4) [of enc] by (simp add: length_frame_cfi)
  then show ?thesis using length_frameless_cfi [of enc] by (simp add: entry_prog_def Let_def)
qed

lemma length_fde_body:
  "length (fde_body k func sz lsda prog) + 4 = (let n = (if lsda = 0 then 25 else 33) + length prog in n + (8 - n mod 8) mod 8)"
  by (simp add: fde_body_def Let_def length_fde_head)

lemma pad_less: "n + (8 - n mod 8) mod 8 \<le> n + 7" for n :: nat
  using mod_less_divisor [of 8 "8 - n mod 8"] by linarith

lemma length_entry_fde: "length (entry_fde base cies e pos) + 4 \<le> 88"
proof -
  define n where "n = (if entry_lsda base e = 0 then 25 else 33) + length (entry_prog (cu_encoding e))"
  have "n \<le> 85" using length_entry_prog [of "cu_encoding e"] by (simp add: n_def)
  then have "length (entry_fde base cies e pos) + 4 \<le> 92"
    using pad_less [of n] by (simp add: entry_fde_def length_fde_body Let_def n_def)
  moreover have "(length (entry_fde base cies e pos) + 4) mod 8 = 0" unfolding entry_fde_def by (rule fde_body_aligned)
  ultimately show ?thesis by presburger
qed

lemma fde_in_section:
  assumes sec: "sec = synthetic_eh_frame base ps es" "length sec < 2 ^ 32"
    and f: "(e, off) \<in> set (fde_list base (cie_offsets (0 # ps) 0) es (length (cies_bytes (0 # ps))))"
    and l: "entry_lsda base e \<noteq> 0 \<or> entry_personality ps e = 0"
  shows "dw_unwind sec off pc = Some (entry_row base ps e pc)"
proof -
  let ?cies = "cie_offsets (0 # ps) 0" and ?cb = "cies_bytes (0 # ps)"
  obtain i where i: "i \<le> length ps" "entry_cie ?cies e = ?cies ! i" "(0 # ps) ! i = entry_personality ps e" using entry_cie_index by blast
  obtain cpre cpost where c: "?cb = cpre @ entry_bytes (cie_body (entry_personality ps e)) @ cpost" "entry_cie ?cies e = length cpre"
    using cie_at [of i "0 # ps" 0] i by auto
  obtain pre post where p: "fdes_bytes base ?cies (fde_list base ?cies es (length ?cb)) = pre @ entry_bytes (entry_fde base ?cies e off) @ post"
      "off = length ?cb + length pre"
    using fde_at [OF f] by blast
  have s: "sec = (?cb @ pre) @ entry_bytes (entry_fde base ?cies e off) @ (post @ [0, 0, 0, 0])"
    using sec(1) unfolding synthetic_bytes Let_def p(1) by simp
  have o: "off = length (?cb @ pre)" using p(2) by simp
  have "length (?cb @ pre) + 4 < 2 ^ 32" using sec(2) s by simp
  moreover have "length (entry_fde base ?cies e off) < 2 ^ 32" using length_entry_fde [of base ?cies e off] by simp
  moreover have "?cb @ pre = cpre @ entry_bytes (cie_body (entry_personality ps e)) @ cpost @ pre" by (simp only: c(1) append_assoc)
  moreover have "entry_fde base ?cies e off = fde_body (length (?cb @ pre) + 4 - length cpre) (base + ucast (cu_func_offset e))
      (cu_func_size e) (entry_lsda base e) (entry_prog (cu_encoding e))"
    by (simp only: entry_fde_def o c(2))
  ultimately have "dw_unwind ((?cb @ pre) @ entry_bytes (entry_fde base ?cies e off) @ (post @ [0, 0, 0, 0])) (length (?cb @ pre)) pc =
      Some (entry_row base ps e pc)"
    unfolding entry_row_def using l by (intro fde_unwinds)
  then show ?thesis by (simp only: s o [symmetric])
qed

end
