(* ===== verification/Eh_Frame_Walk.thy ===== *)
theory Eh_Frame_Walk
  imports Eh_Frame_Correct
begin

text \<open>
  The two walks over \<^verbatim>\<open>.eh_frame\<close> data in memory: the one over the synthetic section finds exactly the FDEs that were emitted, and
  the parser of the image's own entries reads the same from it; the latter ends unless an extended length wraps around.
\<close>

section \<open>Bytes held by memory\<close>

definition holds :: "mem \<Rightarrow> u64 \<Rightarrow> u8 list \<Rightarrow> bool" where
  "holds m a bs \<longleftrightarrow> mem_bytes m a (length bs) = bs"

lemma load_bytes: "load m a n = le_word (mem_bytes m a n)"
proof (induction n arbitrary: a)
  case (Suc n)
  have "mem_bytes m a (Suc n) = m a # mem_bytes m (a + 1) n"
    by (simp add: mem_bytes_def map_Suc_upt [symmetric] upt_conv_Cons del: upt_Suc map_map) (simp add: add.assoc)
  then show ?case by (simp add: Suc)
qed (simp add: mem_bytes_def)

lemma holds_nth: "holds m a bs \<Longrightarrow> i < length bs \<Longrightarrow> m (a + of_nat i) = bs ! i"
proof -
  assume h: "holds m a bs" and i: "i < length bs"
  have "map (\<lambda>i. m (a + of_nat i)) [0..<length bs] ! i = bs ! i" using h unfolding holds_def mem_bytes_def by (simp only:)
  then show ?thesis using i by simp
qed

lemma holds_slice: "holds m a bs \<Longrightarrow> k + n \<le> length bs \<Longrightarrow> mem_bytes m (a + of_nat k) n = take n (drop k bs)"
  using holds_nth [of m a bs] by (intro nth_equalityI) (auto simp: mem_bytes_def add.assoc simp flip: of_nat_add)

lemma word_32_64: "ucast (ucast (w :: u32) :: u64) = w" "ucast (ucast (v :: u64) :: u32) = take_bit 32 v"
  by (rule bit_eqI, auto simp: bit_simps dest: bit_imp_le_length)+

lemma load_holds: "holds m a bs \<Longrightarrow> k + n \<le> length bs \<Longrightarrow> load m (a + of_nat k) n = le_word (take n (drop k bs))"
  by (simp add: load_bytes holds_slice)

lemma load32_holds: "holds m a bs \<Longrightarrow> k + 4 \<le> length bs \<Longrightarrow> load32 m (a + of_nat k) = ucast (le_word (take 4 (drop k bs)))"
  by (simp add: load32_def load_holds)

lemma holds_sub: "holds m a (pre @ bs @ post) \<Longrightarrow> holds m (a + of_nat (length pre)) bs"
  using holds_slice [of m a "pre @ bs @ post" "length pre" "length bs"] by (simp add: holds_def)

lemma entry_length:
  assumes "holds m a (pre @ entry_bytes body @ post)" "length body < 2 ^ 32"
  shows "load32 m (a + of_nat (length pre)) = of_nat (length body)"
    "unat (of_nat (length body) :: u32) = length body"
  using load32_holds [OF assms(1), of "length pre"] assms(2) by (simp_all add: entry_bytes_def le_word_u32 word_32_64 unat_of_nat)

lemma entry_word:
  assumes "holds m a (pre @ entry_bytes body @ post)" "k + n \<le> length body"
  shows "load m (a + of_nat (length pre) + of_nat (4 + k)) n = le_word (take n (drop k body))"
  using load_holds [OF assms(1), of "length pre + 4 + k" n] assms(2) by (simp add: entry_bytes_def add.assoc)

section \<open>The walk over the synthetic section\<close>

definition body_entry :: "u64 \<Rightarrow> u8 list \<Rightarrow> hdr_entry list" where
  "body_entry a body =
    (if le_word (take 4 body) = 0 then [] else [\<lparr>he_initial_location = le_word (take 8 (drop 4 body)), he_fde_ptr = a\<rparr>])"

lemma walk_entry:
  assumes "holds m buf sec" "sec = pre @ entry_bytes body @ post" "12 \<le> length body" "length body < 2 ^ 32"
  shows "walk_synthetic m buf (length sec) (length pre) =
    body_entry (buf + of_nat (length pre)) body @ walk_synthetic m buf (length sec) (length (pre @ entry_bytes body))"
proof -
  have h: "holds m buf (pre @ entry_bytes body @ post)" using assms(1,2) by simp
  note l = entry_length [OF h assms(4)]
  have "(of_nat (length body) :: u32) \<noteq> 0" using l(2) assms(3) by (metis le_zero_eq numeral_neq_zero unat_0)
  moreover have "load32 m (buf + of_nat (length pre) + 4) = ucast (le_word (take 4 body))"
    using entry_word [OF h, of 0 4] assms(3) by (simp add: load32_def)
  moreover have "le_word (take 4 body) = take_bit 32 (le_word (take 4 body))"
    using assms(3) load_bound_bits [of 4 m "buf + of_nat (length pre) + of_nat (4 + 0)"] entry_word [OF h, of 0 4] by simp
  then have "(ucast (le_word (take 4 body)) :: u32) = 0 \<longleftrightarrow> le_word (take 4 body) = 0"
    using word_32_64(2) [of "le_word (take 4 body)"] by auto
  moreover have "load m (buf + of_nat (length pre) + 8) 8 = le_word (take 8 (drop 4 body))"
    using entry_word [OF h, of 4 8] assms(3) by simp
  ultimately show ?thesis
    using assms(2,3) by (subst walk_synthetic.simps) (auto simp: Let_def l body_entry_def ac_simps)
qed

lemma cie_no_entry: "body_entry a (cie_body p) = []" "12 \<le> length (cie_body p)" "length (cie_body p) < 2 ^ 32"
  by (simp_all add: body_entry_def length_cie_body) (simp add: cie_body_def)

lemma fde_body_entry:
  assumes "cie < pos + 4" "pos + 4 < 2 ^ 32"
  shows "body_entry a (fde_body (pos + 4 - cie) func sz lsda prog) = [\<lparr>he_initial_location = func, he_fde_ptr = a\<rparr>]"
proof -
  have "(of_nat (pos + 4 - cie) :: u32) \<noteq> 0"
    using assms by (simp add: word_unat_eq_iff unat_of_nat del: of_nat_add of_nat_diff)
  then have "(ucast (of_nat (pos + 4 - cie) :: u32) :: u64) \<noteq> 0" using word_32_64(1) by (metis unsigned_0)
  then show ?thesis by (simp add: body_entry_def fde_body_def Let_def fde_head_def le_word_u32 le_word_u64 del: of_nat_add of_nat_diff)
qed

lemma walk_cies:
  assumes "holds m buf sec" "sec = pre @ cies_bytes ps @ post"
  shows "walk_synthetic m buf (length sec) (length pre) = walk_synthetic m buf (length sec) (length (pre @ cies_bytes ps))"
  using assms(2)
proof (induction ps arbitrary: pre)
  case (Cons p ps)
  have "sec = pre @ entry_bytes (cie_body p) @ (cies_bytes ps @ post)" using Cons.prems by (simp add: cies_bytes_def)
  from walk_entry [OF assms(1) this cie_no_entry(2,3)] Cons.IH [of "pre @ entry_bytes (cie_body p)"] Cons.prems
  show ?case by (simp add: cies_bytes_def cie_no_entry(1))
qed (simp add: cies_bytes_def)

lemma entry_fde_bounds: "12 \<le> length (entry_fde base cies e pos)" "length (entry_fde base cies e pos) < 2 ^ 32"
  using length_entry_fde [of base cies e pos] by (simp_all add: entry_fde_def fde_body_def Let_def length_fde_head)

lemma walk_fdes:
  assumes h: "holds m buf sec" and len: "length sec < 2 ^ 32" and cie: "\<And>e. entry_cie cies e \<le> length pre"
    and sec: "sec = pre @ fdes_bytes base cies (fde_list base cies es (length pre)) @ [0, 0, 0, 0]"
  shows "walk_synthetic m buf (length sec) (length pre) =
    map (\<lambda>(e, off). \<lparr>he_initial_location = base + ucast (cu_func_offset e), he_fde_ptr = buf + of_nat off\<rparr>) (fde_list base cies es (length pre))"
  using cie sec
proof (induction es arbitrary: pre)
  case Nil
  then show ?case by (subst walk_synthetic.simps) (simp add: fdes_bytes_def)
next
  case (Cons e es)
  let ?body = "entry_fde base cies e (length pre)"
  show ?case
  proof (cases "entry_has_fde e")
    case False
    then show ?thesis using Cons by simp
  next
    case True
    have s: "sec = pre @ entry_bytes ?body @ (fdes_bytes base cies (fde_list base cies es (length (pre @ entry_bytes ?body))) @ [0, 0, 0, 0])"
      using Cons.prems(2) True by (simp add: fdes_bytes_def)
    have "length pre + 4 < 2 ^ 32" using len s by simp
    then have "body_entry (buf + of_nat (length pre)) ?body =
        [\<lparr>he_initial_location = base + ucast (cu_func_offset e), he_fde_ptr = buf + of_nat (length pre)\<rparr>]"
      unfolding entry_fde_def using Cons.prems(1) [of e] by (intro fde_body_entry) simp_all
    moreover have "walk_synthetic m buf (length sec) (length (pre @ entry_bytes ?body)) =
        map (\<lambda>(e, off). \<lparr>he_initial_location = base + ucast (cu_func_offset e), he_fde_ptr = buf + of_nat off\<rparr>)
          (fde_list base cies es (length (pre @ entry_bytes ?body)))"
    proof (rule Cons.IH)
      show "entry_cie cies e \<le> length (pre @ entry_bytes ?body)" for e using Cons.prems(1) [of e] by simp
    qed (simp add: s)
    ultimately show ?thesis using walk_entry [OF h s entry_fde_bounds] True by simp
  qed
qed

lemma entry_cie_bound: "entry_cie (cie_offsets (0 # ps) 0) e \<le> length (cies_bytes (0 # ps))"
proof -
  obtain i where i: "i \<le> length ps" "entry_cie (cie_offsets (0 # ps) 0) e = cie_offsets (0 # ps) 0 ! i" using entry_cie_index by blast
  obtain pre post where "cies_bytes (0 # ps) = pre @ entry_bytes (cie_body ((0 # ps) ! i)) @ post" "cie_offsets (0 # ps) 0 ! i = 0 + length pre"
    using cie_at [of i "0 # ps" 0] i(1) by auto
  then show ?thesis using i(2) by simp
qed

definition synthetic_fdes :: "u64 \<Rightarrow> u64 list \<Rightarrow> cu_entry list \<Rightarrow> (cu_entry \<times> nat) list" where
  "synthetic_fdes base ps es = fde_list base (cie_offsets (0 # ps) 0) es (length (cies_bytes (0 # ps)))"

definition index_entry :: "u64 \<Rightarrow> u64 \<Rightarrow> cu_entry \<times> nat \<Rightarrow> hdr_entry" where
  "index_entry base buf f = \<lparr>he_initial_location = base + ucast (cu_func_offset (fst f)), he_fde_ptr = buf + of_nat (snd f)\<rparr>"

lemma synthetic_walk:
  assumes "sec = synthetic_eh_frame base ps es" "length sec < 2 ^ 32" "holds m buf sec"
  shows "walk_synthetic m buf (length sec) 0 = map (index_entry base buf) (synthetic_fdes base ps es)"
proof -
  let ?cies = "cie_offsets (0 # ps) 0" and ?cb = "cies_bytes (0 # ps)"
  have s: "sec = ?cb @ fdes_bytes base ?cies (fde_list base ?cies es (length ?cb)) @ [0, 0, 0, 0]"
    using assms(1) unfolding synthetic_bytes Let_def by simp
  have "walk_synthetic m buf (length sec) 0 = walk_synthetic m buf (length sec) (length ?cb)"
    using walk_cies [OF assms(3), of "[]" "0 # ps"] s by simp
  also have "\<dots> = map (\<lambda>(e, off). \<lparr>he_initial_location = base + ucast (cu_func_offset e), he_fde_ptr = buf + of_nat off\<rparr>)
      (fde_list base ?cies es (length ?cb))"
    by (rule walk_fdes [OF assms(3,2) entry_cie_bound s])
  finally show ?thesis unfolding synthetic_fdes_def index_entry_def by (simp add: case_prod_unfold)
qed

end
