(* ===== verification/Eh_Frame_Native.thy ===== *)
theory Eh_Frame_Native
  imports Eh_Frame_Walk
begin

text \<open>The parser of the image's own \<^verbatim>\<open>__eh_frame\<close>: it agrees with the walk over the synthetic section, and where it ends.\<close>

section \<open>The parser on a synthetic CIE\<close>

lemma addr_num:
  fixes A :: u64
  assumes "unat A + 32 < 2 ^ 64" "(numeral j :: nat) \<le> 32" "(numeral k :: nat) \<le> 32"
  shows "A + numeral j < A + numeral k \<longleftrightarrow> (numeral j :: nat) < numeral k"
proof -
  have "unat (A + of_nat (numeral i)) = unat A + numeral i" if "(numeral i :: nat) \<le> 32" for i
    by (rule unat_add_small) (use assms(1) that in linarith)
  then show ?thesis using assms by (simp add: word_less_nat_alt)
qed

lemma small_uleb:
  assumes "p < fin" "m p \<in> {1, 4, 11}"
  shows "eh_read_uleb128 m fin p = (ucast (m p), p + 1)"
  using assms by (auto simp: eh_read_uleb128_def read_uleb128.simps)

lemma small_sleb: "p < fin \<Longrightarrow> m p = 120 \<Longrightarrow> snd (eh_read_sleb128 junk m fin p) = p + 1"
  by (simp add: eh_read_sleb128_def read_sleb128.simps)

lemma own_cie_encoding:
  assumes "holds m A (cie_body p)" "unat A + 32 < 2 ^ 64"
  shows "parse_cie_fde_encoding junk m A (of_nat (length (cie_body p))) = 0"
proof -
  note less = addr_num [OF assms(2)]
  have swap: "numeral k + A = A + numeral k" for k by (rule add.commute)
  have le: "\<not> A + numeral j < A + numeral k" if "(numeral k :: nat) \<le> numeral j" "(numeral j :: nat) \<le> 32" for j k
    using less [of j k] that by simp
  have nth: "m (A + numeral k) = cie_body p ! numeral k" if "(numeral k :: nat) < length (cie_body p)" for k
    using holds_nth [OF assms(1) that] by simp
  show ?thesis
  proof (cases "p = 0")
    case True
    have b: "cie_body p = [0, 0, 0, 0, 1, 122, 82, 0, 4, 120, 30, 1, 0, 12, 31, 0, 0, 0, 0, 0]" using True by (simp add: cie_body_def)
    have aug: "mem_bytes m (A + 5) 15 = drop 5 (cie_body p)" using holds_slice [OF assms(1), of 5 15] by (simp add: b)
    have r: "eh_read_uleb128 m (A + 20) (A + 8) = (4, A + 9)" "snd (eh_read_sleb128 junk m (A + 20) (A + 9)) = A + 10"
      "eh_read_uleb128 m (A + 20) (A + 11) = (1, A + 12)"
      using small_uleb [of "A + 8" "A + 20" m] small_sleb [of "A + 9" "A + 20" m] small_uleb [of "A + 11" "A + 20" m]
      by (simp_all add: less nth b)
    show ?thesis
      unfolding parse_cie_fde_encoding_def Let_def
      by (simp add: b less le nth aug [unfolded b] r swap)
  next
    case False
    have b: "cie_body p = [0, 0, 0, 0, 1, 122, 80, 76, 82, 0, 4, 120, 30, 11, 0] @ le_bytes 8 p @ [0, 0, 12, 31, 0]"
      using False by (simp add: cie_body_def)
    have len: "length (cie_body p) = 28" by (simp add: b)
    have aug: "mem_bytes m (A + 5) 23 = drop 5 (cie_body p)" using holds_slice [OF assms(1), of 5 23] by (simp add: b)
    have z: "m (A + 23) = 0" "m (A + 24) = 0" using nth [of "num.Bit1 (num.Bit1 (num.Bit1 (num.Bit0 num.One)))"] 
        holds_nth [OF assms(1), of 24] by (simp_all add: b nth_append)
    have r: "eh_read_uleb128 m (A + 28) (A + 10) = (4, A + 11)" "snd (eh_read_sleb128 junk m (A + 28) (A + 11)) = A + 12"
      "eh_read_uleb128 m (A + 28) (A + 13) = (11, A + 14)"
      using small_uleb [of "A + 10" "A + 28" m] small_sleb [of "A + 11" "A + 28" m] small_uleb [of "A + 13" "A + 28" m]
      by (simp_all add: less nth len) (simp_all add: b)
    have e: "snd (eh_read_encoded_ptr m (A + 15) (A + 25) 0) = A + 23"
      by (simp add: eh_read_encoded_ptr_def sized_ptr_def DW_EH_PE_omit_def DW_EH_PE_indirect_def DW_EH_PE_pcrel_def Let_def le swap)
    have m14: "m (A + 14) = 0" using holds_nth [OF assms(1), of 14] by (simp add: b)
    show ?thesis
      unfolding parse_cie_fde_encoding_def Let_def
      by (simp add: len less le nth aug) (simp add: b len less le aug r e m14 z swap)
  qed
qed

section \<open>Both walks agree\<close>

lemma wide: "n < 2 ^ 32 \<Longrightarrow> (ucast (of_nat n :: u32) :: u64) = of_nat n"
  by (metis unat_u32 of_nat_unat ucast_id)

lemma offset_less:
  fixes a :: u64
  assumes "unat a + j < 2 ^ 64" "unat a + k < 2 ^ 64"
  shows "a + of_nat j < a + of_nat k \<longleftrightarrow> j < k"
  using assms by (simp add: word_less_nat_alt unat_add_small)

text \<open>One entry of a synthetic section, as the parser reads it.\<close>

lemma own_entry:
  assumes h: "holds m buf sec" and sec: "sec = pre @ entry_bytes body @ post" and len: "length sec < 2 ^ 31" "unat buf + length sec + 32 < 2 ^ 64"
    and body: "12 \<le> length body" "length body < 2 ^ 31"
    and cie: "le_word (take 4 body) = 0 \<or>
      (\<exists>cpre p cpost. pre = cpre @ entry_bytes (cie_body p) @ cpost \<and> le_word (take 4 body) = of_nat (length pre + 4 - length cpre))"
    and loc: "le_word (take 4 body) \<noteq> 0 \<Longrightarrow> le_word (take 8 (drop 4 body)) \<noteq> 0"
  shows "native_entry junk m buf (of_nat (length sec)) (of_nat (length pre)) =
    Some (of_nat (length (pre @ entry_bytes body)), body_entry (buf + of_nat (length pre)) body)"
proof -
  let ?pos = "of_nat (length pre) :: u64" and ?n = "length body"
  have h': "holds m buf (pre @ entry_bytes body @ post)" using h sec by simp
  have b32: "?n < 2 ^ 32" using body(2) by simp
  note l = entry_length [OF h' b32]
  have nz: "(of_nat ?n :: u32) \<noteq> 0" "(of_nat ?n :: u32) \<noteq> 0xFFFFFFFF"
    using l(2) body by (auto simp: word_unat_eq_iff)
  have de: "?pos + 4 + ucast (of_nat ?n :: u32) = of_nat (length (pre @ entry_bytes body))"
    using wide [OF b32] by simp
  have fits: "\<not> of_nat (length sec) < (of_nat (length (pre @ entry_bytes body)) :: u64)"
    using sec len(1) by (simp add: word_less_nat_alt unat_of_nat del: of_nat_add)
  have c: "load32 m (buf + (?pos + 4)) = ucast (le_word (take 4 body))"
    using entry_word [OF h', of 0 4] body(1) by (simp add: load32_def add.assoc)
  show ?thesis
  proof (cases "le_word (take 4 body) = 0")
    case True
    then show ?thesis
      unfolding native_entry_def Let_def l(1) by (simp only: nz de fits c if_False simp_thms) (simp add: body_entry_def add.assoc c)
  next
    case False
    obtain cpre p cpost where cp: "pre = cpre @ entry_bytes (cie_body p) @ cpost" "le_word (take 4 body) = of_nat (length pre + 4 - length cpre)"
      using cie False by blast
    let ?k = "length pre + 4 - length cpre"
    have k: "?k < 2 ^ 32" "length cpre \<le> length pre + 4" using len(1) sec cp(1) by simp_all
    have cptr: "load32 m (buf + (?pos + 4)) = of_nat ?k" using c cp(2) wide [OF k(1)] word_32_64(1) by metis
    have cpos: "?pos + 4 - ucast (of_nat ?k :: u32) = of_nat (length cpre)" unfolding wide [OF k(1)] using k(2) by (simp add: of_nat_diff)
    have hc: "holds m buf (cpre @ entry_bytes (cie_body p) @ (cpost @ entry_bytes body @ post))" using h' cp(1) by simp
    have clen: "load32 m (buf + of_nat (length cpre)) = of_nat (length (cie_body p))" by (rule entry_length(1) [OF hc cie_no_entry(3)])
    have "holds m (buf + of_nat (length (cpre @ le_bytes 4 (ucast (of_nat (length (cie_body p)) :: u32))))) (cie_body p)"
      by (rule holds_sub [where post = "cpost @ entry_bytes body @ post"]) (use hc in \<open>simp add: entry_bytes_def\<close>)
    then have "holds m (buf + of_nat (length cpre) + 4) (cie_body p)" by (simp add: add.assoc)
    moreover have "unat (buf + of_nat (length cpre + 4)) = unat buf + (length cpre + 4)"
      by (rule unat_add_small) (use len(2) sec cp(1) in simp)
    then have "unat (buf + of_nat (length cpre) + 4) + 32 < 2 ^ 64" using len(2) sec cp(1) by (simp add: add.assoc)
    ultimately have enc: "parse_cie_fde_encoding junk m (buf + of_nat (length cpre) + 4) (ucast (of_nat (length (cie_body p)) :: u32)) = 0"
      unfolding wide [OF cie_no_entry(3)] by (rule own_cie_encoding)
    have "load m (buf + ?pos + of_nat (4 + 4)) 8 = le_word (take 8 (drop 4 body))" by (rule entry_word [OF h']) (use body(1) in simp)
    moreover have "\<not> buf + of_nat (length (pre @ entry_bytes body)) < buf + of_nat (length pre + 16)"
      using len(2) sec body(1) by (subst offset_less) simp_all
    ultimately have ptr: "fst (eh_read_encoded_ptr m (buf + (?pos + 4) + 4) (buf + of_nat (length (pre @ entry_bytes body))) 0) =
        le_word (take 8 (drop 4 body))"
      by (simp add: eh_read_encoded_ptr_def sized_ptr_def DW_EH_PE_omit_def DW_EH_PE_indirect_def DW_EH_PE_pcrel_def Let_def add.assoc)
    have kz: "(of_nat ?k :: u32) \<noteq> 0" using k sec cp(1) False cp(2) cptr c by (metis wide unsigned_0)
    have cin: "of_nat (length cpre) < (of_nat (length sec) :: u64)"
    proof -
      have "length cpre < length sec" "length sec < 2 ^ 64" using len(1) sec cp(1) by simp_all
      then show ?thesis by (simp add: word_less_nat_alt unat_of_nat)
    qed
    show ?thesis
      unfolding native_entry_def Let_def l(1)
      by (simp only: nz de fits cptr kz cpos cin clen enc ptr if_False if_True simp_thms not_False_eq_True)
        (simp add: body_entry_def False loc)
  qed
qed

lemma native_step:
  assumes "native_entry junk m buf n pos = Some (pos', es)" "\<not> n < pos + 4"
  shows "parse_native junk m buf n pos acc = parse_native junk m buf n pos' (acc @ es)"
  using assms by (subst parse_native.simps) simp

lemma not_less_sec: "k + 4 \<le> length sec \<Longrightarrow> length sec < 2 ^ 31 \<Longrightarrow> \<not> of_nat (length sec) < (of_nat k + 4 :: u64)"
proof -
  assume k: "k + 4 \<le> length sec" "length sec < 2 ^ 31"
  then have "unat (of_nat (k + 4) :: u64) = k + 4" by (simp only: unat_of_nat) simp
  then show ?thesis using k by (simp add: word_less_nat_alt unat_of_nat)
qed

lemma native_cies:
  assumes h: "holds m buf sec" and sec: "sec = pre @ cies_bytes ps @ post" and len: "length sec < 2 ^ 31" "unat buf + length sec + 32 < 2 ^ 64"
  shows "parse_native junk m buf (of_nat (length sec)) (of_nat (length pre)) acc =
    parse_native junk m buf (of_nat (length sec)) (of_nat (length (pre @ cies_bytes ps))) acc"
  using sec
proof (induction ps arbitrary: pre)
  case (Cons p ps)
  have s: "sec = pre @ entry_bytes (cie_body p) @ (cies_bytes ps @ post)" using Cons.prems by (simp add: cies_bytes_def)
  have z: "le_word (take 4 (cie_body p)) = 0" by (simp add: cie_body_def)
  have "length (cie_body p) < 2 ^ 31" by (simp add: length_cie_body)
  from own_entry [OF h s len cie_no_entry(2) this] z
  have "native_entry junk m buf (of_nat (length sec)) (of_nat (length pre)) = Some (of_nat (length (pre @ entry_bytes (cie_body p))), [])"
    by (simp add: cie_no_entry(1))
  moreover have "\<not> of_nat (length sec) < (of_nat (length pre) + 4 :: u64)" by (rule not_less_sec) (use s len(1) in simp_all)
  ultimately show ?case using native_step Cons.IH [of "pre @ entry_bytes (cie_body p)"] s by (simp add: cies_bytes_def)
qed (simp add: cies_bytes_def)

lemma fde_cie_word: "k < 2 ^ 32 \<Longrightarrow> le_word (take 4 (fde_body k func sz lsda prog)) = of_nat k"
  by (simp add: fde_body_def Let_def fde_head_def le_word_u32) (simp add: wide)

lemma native_fdes:
  assumes h: "holds m buf sec" and len: "length sec < 2 ^ 31" "unat buf + length sec + 32 < 2 ^ 64"
    and cie: "\<And>e. \<exists>cpre p cpost. pre = cpre @ entry_bytes (cie_body p) @ cpost \<and> entry_cie cies e = length cpre"
    and nz: "\<forall>e \<in> set es. entry_has_fde e \<longrightarrow> base + ucast (cu_func_offset e) \<noteq> 0"
    and sec: "sec = pre @ fdes_bytes base cies (fde_list base cies es (length pre)) @ [0, 0, 0, 0]"
  shows "parse_native junk m buf (of_nat (length sec)) (of_nat (length pre)) acc =
    Some (acc @ map (index_entry base buf) (fde_list base cies es (length pre)))"
  using cie nz sec
proof (induction es arbitrary: pre acc)
  case Nil
  have "holds m buf (pre @ [0, 0, 0, 0] @ [])" using h Nil(3) by (simp add: fdes_bytes_def)
  from load32_holds [OF this, of "length pre"] have "load32 m (buf + of_nat (length pre)) = 0" by simp
  then show ?case by (subst parse_native.simps) (simp add: native_entry_def)
next
  case (Cons e es)
  let ?body = "entry_fde base cies e (length pre)"
  show ?case
  proof (cases "entry_has_fde e")
    case False
    then show ?thesis using Cons by simp
  next
    case True
    have s: "sec = pre @ entry_bytes ?body @ (fdes_bytes base cies (fde_list base cies es (length (pre @ entry_bytes ?body))) @ [0, 0, 0, 0])"
      using Cons.prems(3) True by (simp add: fdes_bytes_def)
    obtain cpre p cpost where c: "pre = cpre @ entry_bytes (cie_body p) @ cpost" "entry_cie cies e = length cpre" using Cons.prems(1) by blast
    have k: "length pre + 4 - length cpre < 2 ^ 32" "length cpre < length pre + 4" using len(1) s c(1) by simp_all
    have w: "le_word (take 4 ?body) = of_nat (length pre + 4 - length cpre)"
      unfolding entry_fde_def c(2) by (rule fde_cie_word [OF k(1)])
    have be: "body_entry a ?body = [\<lparr>he_initial_location = base + ucast (cu_func_offset e), he_fde_ptr = a\<rparr>]" for a
      unfolding entry_fde_def c(2) by (rule fde_body_entry) (use k s len(1) in simp_all)
    have loc: "le_word (take 8 (drop 4 ?body)) \<noteq> 0"
      using Cons.prems(2) True by (simp add: entry_fde_def fde_body_def Let_def fde_head_def le_word_u64)
    have "length ?body < 2 ^ 31" using length_entry_fde [of base cies e "length pre"] by simp
    moreover have "\<exists>cpre p cpost. pre = cpre @ entry_bytes (cie_body p) @ cpost \<and> le_word (take 4 ?body) = of_nat (length pre + 4 - length cpre)"
      using c(1) w by blast
    ultimately have "native_entry junk m buf (of_nat (length sec)) (of_nat (length pre)) =
        Some (of_nat (length (pre @ entry_bytes ?body)), body_entry (buf + of_nat (length pre)) ?body)"
      using loc by (intro own_entry [OF h s len entry_fde_bounds(1)]) blast+
    then have "native_entry junk m buf (of_nat (length sec)) (of_nat (length pre)) =
        Some (of_nat (length (pre @ entry_bytes ?body)), [index_entry base buf (e, length pre)])"
      by (simp only: be index_entry_def fst_conv snd_conv)
    moreover have "\<not> of_nat (length sec) < (of_nat (length pre) + 4 :: u64)" by (rule not_less_sec) (use s len(1) in simp_all)
    ultimately have "parse_native junk m buf (of_nat (length sec)) (of_nat (length pre)) acc =
        parse_native junk m buf (of_nat (length sec)) (of_nat (length (pre @ entry_bytes ?body))) (acc @ [index_entry base buf (e, length pre)])"
      by (rule native_step)
    also have "\<dots> = Some ((acc @ [index_entry base buf (e, length pre)]) @
        map (index_entry base buf) (fde_list base cies es (length (pre @ entry_bytes ?body))))"
    proof (rule Cons.IH)
      show "\<exists>cpre p cpost. pre @ entry_bytes ?body = cpre @ entry_bytes (cie_body p) @ cpost \<and> entry_cie cies f = length cpre" for f
        using Cons.prems(1) [of f] by (metis append_assoc)
    qed (use Cons.prems(2) s in simp_all)
    finally show ?thesis using True by simp
  qed
qed

lemma native_synthetic:
  assumes sec: "sec = synthetic_eh_frame base ps es" and len: "length sec < 2 ^ 31" "unat buf + length sec + 32 < 2 ^ 64"
    and h: "holds m buf sec" and nz: "\<forall>e \<in> set es. entry_has_fde e \<longrightarrow> base + ucast (cu_func_offset e) \<noteq> 0"
  shows "parse_native_eh_frame_fdes junk m buf (of_nat (length sec)) = Some (map (index_entry base buf) (synthetic_fdes base ps es))"
proof -
  let ?cies = "cie_offsets (0 # ps) 0" and ?cb = "cies_bytes (0 # ps)"
  have s: "sec = ?cb @ fdes_bytes base ?cies (fde_list base ?cies es (length ?cb)) @ [0, 0, 0, 0]"
    using sec unfolding synthetic_bytes Let_def by simp
  have cie: "\<exists>cpre p cpost. ?cb = cpre @ entry_bytes (cie_body p) @ cpost \<and> entry_cie ?cies e = length cpre" for e
  proof -
    obtain i where i: "i \<le> length ps" "entry_cie ?cies e = ?cies ! i" using entry_cie_index by blast
    then show ?thesis using cie_at [of i "0 # ps" 0] by auto
  qed
  have "parse_native junk m buf (of_nat (length sec)) 0 [] = parse_native junk m buf (of_nat (length sec)) (of_nat (length ?cb)) []"
  proof -
    have "sec = [] @ ?cb @ (fdes_bytes base ?cies (fde_list base ?cies es (length ?cb)) @ [0, 0, 0, 0])" using s by simp
    from native_cies [OF h this len, of junk "[]"] show ?thesis by (simp add: of_nat_0)
  qed
  also have "\<dots> = Some ([] @ map (index_entry base buf) (fde_list base ?cies es (length ?cb)))"
    by (rule native_fdes [OF h len cie nz s])
  finally show ?thesis by (simp add: parse_native_eh_frame_fdes_def synthetic_fdes_def)
qed

section \<open>Where the parser ends\<close>

lemma native_entry_end:
  assumes "native_entry junk m eh n pos = Some (pos', es)" "\<not> n < pos + 4" "unat pos \<le> unat n" "unat n + 2 ^ 32 + 16 < 2 ^ 64"
    and "load32 m (eh + pos) = 0xFFFFFFFF \<longrightarrow> unat pos + 12 + unat (load m (eh + pos + 4) 8) < 2 ^ 64"
  shows "unat pos < unat pos' \<and> unat pos' \<le> unat n"
proof -
  let ?l = "load32 m (eh + pos)"
  have u: "unat (pos + of_nat k) = unat pos + k" if "k < 2 ^ 32" for k
    by (rule unat_add_small) (use assms(3,4) that in simp)
  have uc: "unat ?l < 2 ^ 32" using unsigned_less [of ?l] by simp
  have nz: "?l \<noteq> 0" using assms(1) by (auto simp: native_entry_def Let_def split: if_splits)
  have p: "pos' = (if ?l = 0xFFFFFFFF then pos + 12 + load m (eh + pos + 4) 8 else pos + 4 + ucast ?l)" "\<not> n < pos'"
    using assms(1) by (auto simp: native_entry_def Let_def split: if_splits)
  show ?thesis
  proof (cases "?l = 0xFFFFFFFF")
    case True
    then have "unat pos' = unat pos + 12 + unat (load m (eh + pos + 4) 8)"
      using assms(5) u [of 12] by (simp add: p(1) unat_word_ariths)
    then show ?thesis using p(2) by (simp add: word_less_nat_alt)
  next
    case False
    then have "unat pos' = unat pos + 4 + unat ?l"
      using u [of 4] uc assms(3,4) by (simp add: p(1) unat_word_ariths wide_unat)
    then show ?thesis using p(2) nz by (simp add: word_less_nat_alt unat_gt_0)
  qed
qed

lemma parse_native_ends:
  assumes "unat n + 2 ^ 32 + 16 < 2 ^ 64"
    and "\<forall>pos \<le> n. load32 m (eh + pos) = 0xFFFFFFFF \<longrightarrow> unat pos + 12 + unat (load m (eh + pos + 4) 8) < 2 ^ 64"
    and "unat pos \<le> unat n"
  shows "\<exists>es. parse_native junk m eh n pos acc = Some es"
  using assms(3)
proof (induction "unat n - unat pos" arbitrary: pos acc rule: less_induct)
  case less
  show ?case
  proof (cases "n < pos + 4 \<or> native_entry junk m eh n pos = None")
    case True
    then show ?thesis by (subst parse_native.simps) auto
  next
    case False
    then obtain pos' es where e: "native_entry junk m eh n pos = Some (pos', es)" "\<not> n < pos + 4" by auto
    have p: "unat pos < unat pos' \<and> unat pos' \<le> unat n" using native_entry_end [OF e less.prems assms(1)] assms(2) less.prems by (simp add: word_le_nat_alt)
    then have "unat n - unat pos' < unat n - unat pos" by linarith
    from less.hyps [OF this, of "acc @ es"] show ?thesis using native_step [OF e] p by simp
  qed
qed

text \<open>An entry whose end is its own start keeps the loop going forever.\<close>

lemma native_walk_stuck:
  assumes "native_entry junk m eh n pos = Some (pos, es)" "\<not> n < pos + 4"
  shows "parse_native junk m eh n pos acc = None"
proof -
  have "\<not> (j = junk \<and> m' = m \<and> eh' = eh \<and> n' = n \<and> p = pos)" if "parse_native j m' eh' n' p a = Some y" for j m' eh' n' p a y
    using assms
    by (intro parse_native.raw_induct [OF _ that, of "\<lambda>j m' eh' n' p a y. \<not> (j = junk \<and> m' = m \<and> eh' = eh \<and> n' = n \<and> p = pos)"])
      (fastforce split: if_splits)
  from this [of junk m eh n pos acc] show ?thesis by (cases "parse_native junk m eh n pos acc") auto
qed

end
