(* ===== verification/Eh_Frame_Index.thy ===== *)
theory Eh_Frame_Index
  imports Eh_Frame_Native
begin

text \<open>
  The compact entries are collected in address order with their sizes, the LSDA of a function is found, the section fits
  its buffer, and the table handed out by the hook leads every function to its FDE.
\<close>

section \<open>Order and sizes of the entries\<close>

lemma mset_insert_back: "mset (insert_back e es) = add_mset e (mset es)"
  by (induction es) simp_all

lemma insert_back_sorted:
  "sorted_wrt (\<lambda>a b. cu_func_offset b \<le> cu_func_offset a) es \<Longrightarrow>
   sorted_wrt (\<lambda>a b. cu_func_offset b \<le> cu_func_offset a) (insert_back e es)"
proof (induction es)
  case (Cons f es)
  have "set (insert_back e es) = insert e (set es)"
    using mset_insert_back [of e es] by (metis set_mset_add_mset_insert set_mset_mset)
  then show ?case using Cons by auto
qed simp

lemma sort_entries_fold:
  assumes "sorted_wrt (\<lambda>a b. cu_func_offset b \<le> cu_func_offset a) acc"
  shows "sorted_wrt (\<lambda>a b. cu_func_offset b \<le> cu_func_offset a) (fold insert_back es acc) \<and>
    mset (fold insert_back es acc) = mset acc + mset es"
  using assms by (induction es arbitrary: acc) (simp_all add: insert_back_sorted mset_insert_back)

lemma sort_entries: "sorted (map cu_func_offset (sort_entries es))" "mset (sort_entries es) = mset es"
  using sort_entries_fold [of "[]" es]
  by (simp_all add: sort_entries_def sorted_wrt_map sorted_wrt_rev rev_map [symmetric])

definition unsized :: "cu_entry \<Rightarrow> cu_entry" where
  "unsized e = e\<lparr>cu_func_size := 0\<rparr>"

lemma map_set_sizes:
  "map cu_func_offset (set_sizes es) = map cu_func_offset es" "map unsized (set_sizes es) = map unsized es"
  "length (set_sizes es) = length es"
  by (induction es rule: set_sizes.induct) (simp_all add: unsized_def)

lemma set_sizes_gap:
  "Suc i < length es \<Longrightarrow> cu_func_size (set_sizes es ! i) = cu_func_offset (es ! Suc i) - cu_func_offset (es ! i)"
  by (induction es arbitrary: i rule: set_sizes.induct) (auto simp: nth_Cons split: nat.splits)

lemma length_page_entries:
  "length (page_entries m unwind_info unwind_size ce cc index) = page_entry_count m unwind_info unwind_size index"
  by (auto simp: page_entries_def page_entry_count_def Let_def split: option.splits)

lemma page_entries_unsized: "e \<in> set (page_entries m unwind_info unwind_size ce cc index) \<Longrightarrow> unsized e = e"
  by (auto simp: page_entries_def Let_def new_entry_def unsized_def split: option.splits if_splits)

text \<open>The entries of all pages; the count of the first pass is exact, so none is cut off.\<close>

definition all_page_entries :: "mem \<Rightarrow> u64 \<Rightarrow> u64 \<Rightarrow> u64 \<Rightarrow> u32 \<Rightarrow> cu_entry list" where
  "all_page_entries m unwind_info unwind_size ce cc =
    (let hdr = read_unwind_header m unwind_info
     in concat (map (\<lambda>i. page_entries m unwind_info unwind_size ce cc (unwind_info + ucast (uh_indexOffset hdr) + 12 * of_nat i))
          [0..<unat (uh_indexCount hdr) - 1]))"

lemma collect_entries_all:
  "collect_entries m unwind_info unwind_size ce cc =
    (if uh_version (read_unwind_header m unwind_info) \<noteq> 1 then None
     else Some (set_sizes (sort_entries (all_page_entries m unwind_info unwind_size ce cc))))"
  by (simp add: collect_entries_def all_page_entries_def Let_def length_concat o_def length_page_entries)

lemma collected_order:
  assumes "collect_entries m unwind_info unwind_size ce cc = Some es"
  shows "sorted (map cu_func_offset es)" "mset (map unsized es) = mset (all_page_entries m unwind_info unwind_size ce cc)"
    "Suc i < length es \<Longrightarrow> cu_func_offset (es ! i) + cu_func_size (es ! i) = cu_func_offset (es ! Suc i)"
proof -
  define xs where "xs = sort_entries (all_page_entries m unwind_info unwind_size ce cc)"
  have es: "es = set_sizes xs" using assms by (simp add: collect_entries_all xs_def split: if_splits)
  have mx: "mset xs = mset (all_page_entries m unwind_info unwind_size ce cc)" by (simp add: xs_def sort_entries)
  have "\<forall>e \<in> set xs. unsized e = e"
    using page_entries_unsized mset_eq_setD [OF mx] by (fastforce simp: all_page_entries_def Let_def)
  then have "map unsized xs = xs" by (simp add: map_idI)
  then show "mset (map unsized es) = mset (all_page_entries m unwind_info unwind_size ce cc)" by (simp only: es map_set_sizes mx)
  show "sorted (map cu_func_offset es)" using sort_entries(1) by (simp only: es map_set_sizes xs_def)
  have o: "cu_func_offset (es ! j) = cu_func_offset (xs ! j)" if "j < length xs" for j
    using that map_set_sizes(1,3) [of xs] by (metis es nth_map)
  show "cu_func_offset (es ! i) + cu_func_size (es ! i) = cu_func_offset (es ! Suc i)" if "Suc i < length es"
    using that set_sizes_gap [of i xs] o [of i] o [of "Suc i"] by (simp add: es map_set_sizes)
qed

section \<open>The search for the LSDA\<close>

definition lsda_key :: "mem \<Rightarrow> u64 \<Rightarrow> int \<Rightarrow> u32" where "lsda_key m arr i = load32 m (arr + 8 * of_int i)"
definition lsda_value :: "mem \<Rightarrow> u64 \<Rightarrow> int \<Rightarrow> u32" where "lsda_value m arr i = load32 m (arr + 8 * of_int i + 4)"

definition lsda_ordered :: "mem \<Rightarrow> u64 \<Rightarrow> int \<Rightarrow> bool" where
  "lsda_ordered m arr n \<longleftrightarrow> (\<forall>i j. 0 \<le> i \<longrightarrow> i < j \<longrightarrow> j < n \<longrightarrow> lsda_key m arr i < lsda_key m arr j)"

lemma lsda_search_found:
  assumes "lsda_ordered m arr n" "0 \<le> lo" "lo \<le> k" "k \<le> hi" "hi < n"
  shows "lsda_search m arr (lsda_key m arr k) lo hi = lsda_value m arr k"
  using assms(2-5)
proof (induction "nat (hi - lo)" arbitrary: lo hi rule: less_induct)
  case less
  define mid where "mid = (lo + hi) div 2"
  have mid: "lo \<le> mid" "mid \<le> hi" using less.prems by (auto simp: mid_def)
  have step: "lsda_search m arr (lsda_key m arr k) lo hi =
      (if lsda_key m arr mid = lsda_key m arr k then lsda_value m arr mid
       else if lsda_key m arr mid < lsda_key m arr k then lsda_search m arr (lsda_key m arr k) (mid + 1) hi
       else lsda_search m arr (lsda_key m arr k) lo (mid - 1))"
    using less.prems by (subst lsda_search.simps) (simp add: Let_def mid_def lsda_key_def lsda_value_def)
  consider "k = mid" | "mid < k" "lsda_key m arr mid < lsda_key m arr k" | "k < mid" "lsda_key m arr k < lsda_key m arr mid"
    using assms(1) less.prems mid unfolding lsda_ordered_def by (metis le_less_trans linorder_neqE order_trans)
  then show ?case
  proof cases
    case 2
    have "lsda_search m arr (lsda_key m arr k) (mid + 1) hi = lsda_value m arr k"
      by (rule less.hyps) (use 2 mid less.prems in auto)
    then show ?thesis using 2 by (simp add: step less_imp_neq)
  next
    case 3
    have "lsda_search m arr (lsda_key m arr k) lo (mid - 1) = lsda_value m arr k"
      by (rule less.hyps) (use 3 mid less.prems in auto)
    then show ?thesis using 3 by (auto simp: step)
  qed (use step in simp)
qed

lemma lsda_search_none:
  "(\<And>i. lo \<le> i \<Longrightarrow> i \<le> hi \<Longrightarrow> lsda_key m arr i \<noteq> f) \<Longrightarrow> lsda_search m arr f lo hi = 0"
proof (induction m arr f lo hi rule: lsda_search.induct)
  case (1 m arr f lo hi)
  show ?case
  proof (cases "lo > hi")
    case True
    then show ?thesis by (subst lsda_search.simps) simp
  next
    case False
    define mid where "mid = (lo + hi) div 2"
    have mid: "lo \<le> mid" "mid \<le> hi" using False by (auto simp: mid_def)
    have n: "lsda_key m arr mid \<noteq> f" by (rule "1.prems" [OF mid])
    have "lsda_search m arr f (mid + 1) hi = 0" if "lsda_key m arr mid < f"
      by (rule "1.IH"(1) [OF False mid_def refl]) (use that n mid "1.prems" in \<open>auto simp: lsda_key_def\<close>)
    moreover have "lsda_search m arr f lo (mid - 1) = 0" if "\<not> lsda_key m arr mid < f"
      by (rule "1.IH"(2) [OF False mid_def refl]) (use that n mid "1.prems" in \<open>auto simp: lsda_key_def\<close>)
    ultimately show ?thesis using False n by (subst lsda_search.simps) (simp add: Let_def mid_def [symmetric] lsda_key_def)
  qed
qed

section \<open>The size of the buffer\<close>

lemma length_cies: "length (cies_bytes ps) \<le> 32 * length ps"
  by (induction ps) (auto simp: cies_bytes_def length_cie_body)

lemma length_fdes:
  assumes "\<And>e pos. e \<in> set es \<Longrightarrow> length (entry_fde base cies e pos) + 4 \<le> k"
  shows "length (fdes_bytes base cies (fde_list base cies es n)) \<le> k * length es"
  using assms
proof (induction es arbitrary: n)
  case (Cons e es)
  have "length (fdes_bytes base cies (fde_list base cies es j)) \<le> k * length es" for j by (rule Cons.IH) (simp add: Cons.prems)
  moreover have "length (entry_fde base cies e n) + 4 \<le> k" by (simp add: Cons.prems)
  ultimately show ?case by (simp add: fdes_bytes_def add_mono trans_le_add2)
qed (simp add: fdes_bytes_def)

text \<open>Only a function with an LSDA that saves at least four pairs of x registers and all four pairs of d registers has an FDE of more
  than 80 bytes.\<close>

definition wide_entry :: "u64 \<Rightarrow> cu_entry \<Rightarrow> bool" where
  "wide_entry base e \<longleftrightarrow> entry_lsda base e \<noteq> 0 \<and> 8 \<le> length (frame_x (cu_encoding e)) \<and> length (frame_d (cu_encoding e)) = 8"

lemma pair_regs_even: "even (length (pair_regs r flags pairs))"
proof -
  have "even (sum_list (map (\<lambda>p. length (if pairs AND snd p \<noteq> 0 then [r + 2 * fst p, r + 2 * fst p + 1] else [])) xs))" for xs :: "(nat \<times> u32) list"
    by (induction xs) auto
  then show ?thesis by (simp add: pair_regs_def length_concat o_def case_prod_unfold)
qed

lemma narrow_fde:
  assumes "\<not> wide_entry base e"
  shows "length (entry_fde base cies e pos) + 4 \<le> 80"
proof -
  define n where "n = (if entry_lsda base e = 0 then 25 else 33) + length (entry_prog (cu_encoding e))"
  have x: "length (frame_x (cu_encoding e)) \<le> 10" "length (frame_d (cu_encoding e)) \<le> 8" using frame_reg_bounds(3,4) by auto
  have ev: "even (length (frame_x (cu_encoding e)))" "even (length (frame_d (cu_encoding e)))"
    by (simp_all add: frame_x_def frame_d_def pair_regs_even)
  have "n \<le> 80"
  proof (cases "entry_lsda base e = 0")
    case True
    then show ?thesis using length_entry_prog [of "cu_encoding e"] by (simp add: n_def)
  next
    case False
    then have "length (frame_x (cu_encoding e)) < 8 \<or> length (frame_d (cu_encoding e)) \<noteq> 8" using assms by (auto simp: wide_entry_def)
    then have "length (frame_x (cu_encoding e)) \<le> 6 \<or> length (frame_d (cu_encoding e)) \<le> 6" using x ev by presburger
    then have "length (frame_cfi (cu_encoding e) []) \<le> 47" using x by (auto simp: length_frame_cfi)
    then show ?thesis using length_frameless_cfi [of "cu_encoding e"] False by (simp add: n_def entry_prog_def Let_def)
  qed
  then have "length (entry_fde base cies e pos) + 4 \<le> 87"
    using pad_less [of n] by (simp add: entry_fde_def length_fde_body Let_def n_def)
  moreover have "(length (entry_fde base cies e pos) + 4) mod 8 = 0" unfolding entry_fde_def by (rule fde_body_aligned)
  ultimately show ?thesis by presburger
qed

lemma length_synthetic:
  "length (synthetic_eh_frame base ps es) =
     length (cies_bytes (0 # ps)) + length (fdes_bytes base (cie_offsets (0 # ps) 0) (synthetic_fdes base ps es)) + 4"
  by (simp add: synthetic_bytes Let_def synthetic_fdes_def del: cie_offsets.simps)

lemma synthetic_length:
  assumes "length ps \<le> 4" "\<And>e pos. e \<in> set es \<Longrightarrow> length (entry_fde base (cie_offsets (0 # ps) 0) e pos) + 4 \<le> k"
  shows "length (synthetic_eh_frame base ps es) \<le> 164 + k * length es"
proof -
  have "length (fdes_bytes base (cie_offsets (0 # ps) 0) (synthetic_fdes base ps es)) \<le> k * length es"
    unfolding synthetic_fdes_def by (rule length_fdes) (rule assms(2))
  moreover have "length (cies_bytes (0 # ps)) \<le> 160" using length_cies [of "0 # ps"] assms(1) by simp
  ultimately show ?thesis unfolding length_synthetic by linarith
qed

lemma length_image_personalities: "length (image_personalities m slide es) \<le> 4"
  by (simp add: image_personalities_def Let_def)

end
