(* ===== verification/Eh_Frame_Register.thy ===== *)
theory Eh_Frame_Register
  imports Eh_Frame_Index
begin

text \<open>
  Registration as a whole: after a successful run the section is in memory, and the hook hands out a sorted table that leads from every
  function to the FDE that unwinds it.
\<close>

section \<open>The sorted table\<close>

text \<open>What C promises of \<^verbatim>\<open>qsort\<close> with \<^verbatim>\<open>cmp_hdr_entry\<close>.\<close>

locale table_sort =
  fixes sort_table :: "hdr_entry list \<Rightarrow> hdr_entry list"
  assumes table_mset: "mset (sort_table xs) = mset xs"
    and table_sorted: "sorted (map he_initial_location (sort_table xs))"
begin

lemma table_holds: "f \<in> set xs \<Longrightarrow> f \<in> set (sort_table xs)" "length (sort_table xs) = length xs"
  using table_mset [of xs] by (metis set_mset_mset, metis size_mset)

end

interpretation sort_by_location: table_sort "sort_key he_initial_location"
  by unfold_locales simp_all

section \<open>Memory between the two mappings\<close>

lemma holds_store: "length bs \<le> 2 ^ 64 \<Longrightarrow> holds (store_bytes m a bs) a bs"
  by (simp add: holds_def mem_bytes_store_bytes)

lemma holds_outside:
  "holds m a bs \<Longrightarrow> length bs \<le> 2 ^ 64 \<Longrightarrow> (\<And>b. in_range b a (length bs) \<Longrightarrow> m' b = m b) \<Longrightarrow> holds m' a bs"
  using mem_bytes_cong [of a "length bs" m' m] by (simp add: holds_def)

lemma in_range_less: "in_range b a n \<Longrightarrow> n \<le> k \<Longrightarrow> in_range b a k"
  by (auto simp: in_range_def)

text \<open>A mapping the kernel chooses does not overlap the one before it.\<close>

definition mappings_apart :: "'e os_env_scheme \<Rightarrow> nat \<Rightarrow> u64 \<Rightarrow> bool" where
  "mappings_apart env k n \<longleftrightarrow>
    (\<forall>n' b. os_mmap env (k + 1) 0 n' \<noteq> 0 \<longrightarrow> in_range b (os_mmap env k 0 n) (round_up (os_page_size env) (unat n)) \<longrightarrow>
       \<not> in_range b (os_mmap env (k + 1) 0 n') (round_up (os_page_size env) (unat n')))"

lemma length_hdr_bytes: "length (hdr_bytes a es) = 20 + 16 * length es"
  by (induction es) (auto simp: hdr_bytes_def le_bytes_def length_concat o_def sum_list_triv)

text \<open>The two steps of a successful run: the table over the section, and the run around it.\<close>

lemma build_index_done:
  fixes st st' :: eh_process
  assumes "build_index env buf n es st = Some (True, st')"
  obtains native table h where
    "es_native_eh_frame es = 0 \<longrightarrow> native = []" "table = ee_qsort env (walk_synthetic (p_mem st) buf n 0 @ native)"
    "h \<noteq> 0" "h = os_mmap env (p_mmaps st) 0 (of_nat (20 + length table * 16))"
    "p_mem st' = store_bytes (map_anon (os_page_size env) h (unat (of_nat (20 + length table * 16) :: u64)) (p_mem st)) h
       (hdr_bytes buf table)"
    "macho_eh_frame_hdr st' = h" "macho_text_start st' = macho_text_start st" "macho_text_end st' = macho_text_end st"
    "macho_eh_frame st' = macho_eh_frame st"
proof -
  obtain native where nat: "(if es_native_eh_frame es \<noteq> 0 \<and> es_native_eh_frame_size es > 0
      then parse_native_eh_frame_fdes (ee_junk env) (p_mem st) (es_native_eh_frame es) (es_native_eh_frame_size es) else Some []) = Some native"
    using assms by (auto simp: build_index_def Let_def split: option.splits)
  define t where "t = ee_qsort env (walk_synthetic (p_mem st) buf n 0 @ native)"
  show ?thesis
  proof (rule that [of native t "os_mmap env (p_mmaps st) 0 (of_nat (20 + length t * 16))"])
    show "es_native_eh_frame es = 0 \<longrightarrow> native = []" using nat by auto
  qed (use assms nat in \<open>auto simp: build_index_def Let_def t_def [symmetric] mmap_any_def split: if_splits\<close>)
qed

lemma register_done:
  fixes st st' :: eh_process
  assumes "eh_frame_register_macho env mh slide st = Some (0, st')"
    and "es = locate_eh_sections (p_mem st) mh slide (eh_text_size st)" "es_unwind_info es \<noteq> 0"
    and "image_unwind_entries (p_mem st) es = Some entries" "entries \<noteq> []"
    and "sec = synthetic_eh_frame (es_text_base es + slide) (image_personalities (p_mem st) slide es) entries"
  obtains buf st1 st2 where "buf = os_mmap env (p_mmaps st) 0 (of_nat (length entries * 80 + 4096))" "buf \<noteq> 0"
    "p_mem st1 = store_bytes (map_anon (os_page_size env) buf (unat (of_nat (length entries * 80 + 4096) :: u64)) (p_mem st)) buf sec"
    "p_mmaps st1 = p_mmaps st + 1" "macho_text_start st1 = es_text_base es + slide"
    "macho_text_end st1 = es_text_base es + slide + es_text_size es" "macho_eh_frame st1 = buf"
    "build_index env buf (length sec) es st1 = Some (True, st2)" "st' = register_frames env buf es st2"
proof -
  define buf where "buf = os_mmap env (p_mmaps st) 0 (of_nat (length entries * 80 + 4096))"
  define st1 where "st1 = st\<lparr>eh_text_size := es_text_size es, p_mmaps := p_mmaps st + 1,
    p_mem := store_bytes (map_anon (os_page_size env) buf (unat (of_nat (length entries * 80 + 4096) :: u64)) (p_mem st)) buf sec,
    macho_text_start := es_text_base es + slide, macho_text_end := es_text_base es + slide + es_text_size es,
    macho_eh_frame := buf, macho_eh_frame_size := of_nat (length sec)\<rparr>"
  obtain e es' where e: "entries = e # es'" using assms(5) by (cases entries) auto
  have a: "os_mmap env (p_mmaps st) 0 (of_nat (length es') * 80 + 4176) = buf" by (simp add: buf_def e algebra_simps)
  have run: "(if buf = 0 then Some (- 1, st\<lparr>eh_text_size := es_text_size es, p_mmaps := p_mmaps st + 1\<rparr>)
      else case build_index env buf (length sec) es st1 of None \<Rightarrow> None
      | Some (ok, st) \<Rightarrow> if ok then Some (0, register_frames env buf es st) else Some (- 1, st)) = Some (0 :: int, st')"
    using assms(1,3)
    unfolding eh_frame_register_macho_def Let_def assms(2) [symmetric] st1_def assms(6) assms(4) e mmap_any_def
    by (simp add: algebra_simps a split: if_splits)
  then have r: "buf \<noteq> 0" by (auto split: if_splits)
  obtain st2 where "build_index env buf (length sec) es st1 = Some (True, st2)" "st' = register_frames env buf es st2"
    using run r by (auto split: option.splits if_splits)
  then show ?thesis using r by (intro that [of buf st1 st2]) (simp_all add: st1_def buf_def)
qed

lemma register_frames_keeps:
  "p_mem (register_frames env buf es st) = p_mem st"
  "macho_eh_frame_hdr (register_frames env buf es st) = macho_eh_frame_hdr st"
  "macho_text_start (register_frames env buf es st) = macho_text_start st"
  "macho_text_end (register_frames env buf es st) = macho_text_end st" "macho_eh_frame (register_frames env buf es st) = macho_eh_frame st"
  by (simp_all add: register_frames_def Let_def)

section \<open>Unwinding through the table\<close>

text \<open>The table and the section of a successful run. The kernel places the table's mapping away from the section's, and the section
  fits its buffer.\<close>

lemma registered_table:
  fixes st st' :: eh_process
  assumes run: "eh_frame_register_macho env mh slide st = Some (0, st')"
    and es: "es = locate_eh_sections (p_mem st) mh slide (eh_text_size st)" "es_unwind_info es \<noteq> 0"
    and entries: "image_unwind_entries (p_mem st) es = Some entries" "entries \<noteq> []"
    and sec: "ps = image_personalities (p_mem st) slide es" "sec = synthetic_eh_frame (es_text_base es + slide) ps entries"
    and sort: "table_sort (ee_qsort env)"
    and kernel: "0 < os_page_size env" "mappings_apart env (p_mmaps st) (of_nat (length entries * 80 + 4096))"
    and fits: "length sec \<le> length entries * 80 + 4096" "length entries * 80 + 4096 < 2 ^ 32"
  obtains native table where "es_native_eh_frame es = 0 \<longrightarrow> native = []"
    "mset table = mset (map (index_entry (es_text_base es + slide) (macho_eh_frame st')) (synthetic_fdes (es_text_base es + slide) ps entries) @ native)"
    "sorted (map he_initial_location table)"
    "length table < 2 ^ 32 \<longrightarrow> holds (p_mem st') (macho_eh_frame st') sec \<and> holds (p_mem st') (macho_eh_frame_hdr st') (hdr_bytes (macho_eh_frame st') table)"
    "macho_eh_frame_hdr st' \<noteq> 0" "macho_text_start st' = es_text_base es + slide"
    "macho_text_end st' = es_text_base es + slide + es_text_size es"
proof -
  obtain buf st1 st2 where r: "buf = os_mmap env (p_mmaps st) 0 (of_nat (length entries * 80 + 4096))" "buf \<noteq> 0"
      "p_mem st1 = store_bytes (map_anon (os_page_size env) buf (unat (of_nat (length entries * 80 + 4096) :: u64)) (p_mem st)) buf sec"
      "p_mmaps st1 = p_mmaps st + 1" "macho_text_start st1 = es_text_base es + slide"
      "macho_text_end st1 = es_text_base es + slide + es_text_size es" "macho_eh_frame st1 = buf"
      "build_index env buf (length sec) es st1 = Some (True, st2)" "st' = register_frames env buf es st2"
    using register_done [OF run es entries sec(2) [unfolded sec(1)]] by blast
  obtain native table h where b: "es_native_eh_frame es = 0 \<longrightarrow> native = []"
      "table = ee_qsort env (walk_synthetic (p_mem st1) buf (length sec) 0 @ native)"
      "h \<noteq> 0" "h = os_mmap env (p_mmaps st1) 0 (of_nat (20 + length table * 16))"
      "p_mem st2 = store_bytes (map_anon (os_page_size env) h (unat (of_nat (20 + length table * 16) :: u64)) (p_mem st1)) h
         (hdr_bytes buf table)"
      "macho_eh_frame_hdr st2 = h" "macho_text_start st2 = macho_text_start st1" "macho_text_end st2 = macho_text_end st1"
      "macho_eh_frame st2 = macho_eh_frame st1"
    using build_index_done [OF r(8)] by blast
  have len: "length sec < 2 ^ 32" using fits by simp
  have h1: "holds (p_mem st1) buf sec" using len by (simp add: r(3) holds_store)
  have w: "walk_synthetic (p_mem st1) buf (length sec) 0 = map (index_entry (es_text_base es + slide) buf) (synthetic_fdes (es_text_base es + slide) ps entries)"
    by (rule synthetic_walk [OF sec(2) len h1])
  have k: "macho_eh_frame st' = buf" "macho_eh_frame_hdr st' = h" "p_mem st' = p_mem st2"
      "macho_text_start st' = es_text_base es + slide" "macho_text_end st' = es_text_base es + slide + es_text_size es"
    using r(5,6,7,9) b(6-9) by (simp_all add: register_frames_keeps)
  have "holds (p_mem st2) buf sec \<and> holds (p_mem st2) h (hdr_bytes buf table)" if t: "length table < 2 ^ 32"
  proof
    have u: "unat (of_nat (20 + length table * 16) :: u64) = 20 + length table * 16"
      "unat (of_nat (length entries * 80 + 4096) :: u64) = length entries * 80 + 4096"
      using t fits(2) by (simp_all add: unat_of_nat del: of_nat_add of_nat_mult)
    show "holds (p_mem st2) h (hdr_bytes buf table)" using t by (simp add: b(5) holds_store length_hdr_bytes)
    show "holds (p_mem st2) buf sec"
    proof (rule holds_outside [OF h1])
      fix a assume a: "in_range a buf (length sec)"
      have "in_range a buf (round_up (os_page_size env) (length entries * 80 + 4096))"
        by (rule in_range_less [OF a]) (use round_up_ge [OF kernel(1)] fits(1) order_trans in blast)
      then have n: "\<not> in_range a h (round_up (os_page_size env) (20 + length table * 16))"
        using kernel(2) b(3) unfolding mappings_apart_def b(4) r(1,4) by (metis u)
      then have "\<not> in_range a h (20 + 16 * length table)"
        using in_range_less [OF _ round_up_ge [OF kernel(1)]] by (metis mult.commute)
      then show "p_mem st2 a = p_mem st1 a" using n by (simp add: b(5) store_bytes_outside length_hdr_bytes map_anon_def u del: of_nat_add of_nat_mult)
    qed (use len in simp)
  qed
  then show ?thesis
    using b(1,3) table_sort.table_mset [OF sort] table_sort.table_sorted [OF sort]
    by (intro that [of native table]) (simp_all add: k b(2) w)
qed

end
