(* ===== verification/Eh_Frame_Example.thy ===== *)
theory Eh_Frame_Example
  imports Eh_Frame_Register Mem_Image
begin

text \<open>The properties of the unwind tables, each with its use on an image of one function with a frame.\<close>

definition unwind_words :: "(u64 \<times> u64) list" where
  "unwind_words =
    [(0x1000, 0x0100000CFEEDFACF), (0x1008, 0x0000000600000000), (0x1010, 0x0000009800000001), (0x1020, 0x0000009800000019),
     (0x1028, 0x0000545845545F5F), (0x1038, 0x1000), (0x1040, 0x1000), (0x1060, 1),
     (0x1068, 0x646E69776E755F5F), (0x1070, 0x0000006F666E695F), (0x1088, 0x1100), (0x1090, 0x48),
     (0x1100, 0x0000001C00000001), (0x1108, 0x0000001C00000000), (0x1110, 0x0000001C00000000), (0x1118, 0x0000020000000002),
     (0x1120, 0x34), (0x1130, 0x0000000200000000), (0x1138, 0x0000020000010008), (0x1140, 0x04000001)]"

definition uwm :: mem where "uwm = image unwind_words"

lemma load16_image:
  "a AND 7 = 0 \<Longrightarrow> load (image ws) a 2 = take_bit 16 (word_at ws a)"
  "a AND 7 = 0 \<Longrightarrow> load (image ws) (a + 2) 2 = take_bit 16 (drop_bit 16 (word_at ws a))"
  using load_image [of a 0 2 ws] load_image [of a 2 2 ws] by simp_all

lemmas uw_eval = uwm_def load8_image load32_image word_at_def unwind_words_def

lemma uw_names: "mem_str uwm 0x1028 = ''__TEXT''" "mem_str uwm 0x1068 = ''__unwind_info''"
  by (simp_all add: mem_str_def) (simp_all add: image_def word_at_def uwm_def unwind_words_def char_of_def bit_0)

lemma uw_segments:
  "segments uwm 0x1000 = [\<lparr>seg_segname = 0x1028, seg_vmaddr = 0x1000, seg_vmsize = 0x1000, seg_fileoff = 0, seg_filesize = 0,
     seg_maxprot = 0, seg_initprot = 0, seg_nsects = 1, seg_flags = 0, seg_sections = 0x1068\<rparr>]"
proof -
  have "mh_ncmds (read_header uwm 0x1000) = 1" by (simp add: read_header_def uw_eval)
  then have "load_commands uwm 0x1000 = [0x1020]" by (simp add: load_commands_def)
  moreover have "lc_cmd (read_command uwm 0x1020) = LC_SEGMENT_64" by (simp add: read_command_def uw_eval LC_SEGMENT_64_def)
  ultimately show ?thesis by (simp add: segments_def commands_of_def) (simp add: read_segment_def uw_eval)
qed

definition uw_sections :: eh_sections where
  "uw_sections = \<lparr>es_text_base = 0x1000, es_text_size = 0x1000, es_unwind_info = 0x1100, es_unwind_size = 0x48, es_native_eh_frame = 0,
     es_native_eh_frame_size = 0\<rparr>"

lemma uw_located: "locate_eh_sections uwm 0x1000 0 0 = uw_sections"
  by (simp add: locate_eh_sections_def uw_segments eh_segment_def uw_names eh_section_def uw_sections_def) (simp add: read_section_def uw_eval)

definition uw_entry :: cu_entry where
  "uw_entry = \<lparr>cu_func_offset = 0x200, cu_func_size = 256, cu_encoding = 0x04000001, cu_lsda_offset = 0\<rparr>"

lemma uw_header:
  "read_unwind_header uwm 0x1100 = \<lparr>uh_version = 1, uh_commonEncodingsOffset = 0x1C, uh_commonEncodingsCount = 0, uh_personalityOffset = 0x1C,
     uh_personalityCount = 0, uh_indexOffset = 0x1C, uh_indexCount = 2\<rparr>"
  by (simp add: read_unwind_header_def uw_eval)

lemma uw_page: "page_entries uwm 0x1100 0x48 0x111C 0 0x111C = [uw_entry\<lparr>cu_func_size := 0\<rparr>]"
proof -
  have "load uwm 0x1138 2 = 8" "load uwm 0x113A 2 = 1"
    using load16_image [of "0x1138" unwind_words] by (simp_all add: uwm_def word_at_def unwind_words_def take_bit_eq_mod)
  moreover have "load32 uwm 0x1120 = 0x34" "load32 uwm 0x1134 = 2" "load32 uwm 0x1124 = 0" "load32 uwm 0x1130 = 0"
      "load32 uwm 0x113C = 0x200" "load32 uwm 0x1140 = 0x04000001" by (simp_all add: uw_eval)
  ultimately show ?thesis
    by (simp add: page_entries_def page_of_index_def new_entry_def uw_entry_def UNWIND_SECOND_LEVEL_REGULAR_def
        UNWIND_SECOND_LEVEL_COMPRESSED_def UNWIND_HAS_LSDA_def Let_def)
qed

lemma uw_collect: "collect_entries uwm 0x1100 0x48 0x111C 0 = Some [uw_entry]"
  by (simp add: collect_entries_all uw_header all_page_entries_def uw_page sort_entries_def) (simp add: uw_entry_def)

lemma uw_entries: "image_unwind_entries uwm uw_sections = Some [uw_entry]" "image_personalities uwm 0 uw_sections = []"
  using uw_collect by (simp_all add: image_unwind_entries_def image_personalities_def uw_sections_def uw_header)

section \<open>Unwinding\<close>


text \<open>C22: The parser for the image's own entries, run over the synthetic section, finds exactly what the walk over that section finds, as long as
  no function is at address 0.\<close>

theorem native_agrees_synthetic:
  assumes "sec = synthetic_eh_frame base ps es" "length sec < 2 ^ 31" "unat buf + length sec + 32 < 2 ^ 64"
    and "holds m buf sec" "\<forall>e \<in> set es. entry_has_fde e \<longrightarrow> base + ucast (cu_func_offset e) \<noteq> 0"
  shows "parse_native_eh_frame_fdes junk m buf (of_nat (length sec)) = Some (walk_synthetic m buf (length sec) 0)"
  using native_synthetic [OF assms] synthetic_walk [OF assms(1) _ assms(4)] assms(2) by simp

text \<open>C23: The parser of the image's own entries ends, whatever the section holds, unless an extended length wraps around the address space.\<close>

theorem native_parse_ends:
  assumes "unat n + 2 ^ 32 + 16 < 2 ^ 64"
    and "\<forall>pos \<le> n. load32 m (eh + pos) = 0xFFFFFFFF \<longrightarrow> unat pos + 12 + unat (load m (eh + pos + 4) 8) < 2 ^ 64"
  shows "\<exists>fdes. parse_native_eh_frame_fdes junk m eh n = Some fdes"
  unfolding parse_native_eh_frame_fdes_def by (rule parse_native_ends [OF assms]) simp

text \<open>C37: The synthetic section fits the buffer of 80 bytes per entry and a page, for up to 490 entries, and for any number when no function with
  an LSDA saves eight or more x registers and all eight d registers.\<close>

theorem synthetic_fits:
  assumes "ps = image_personalities m slide secs" "length es \<le> 490 \<or> (\<forall>e \<in> set es. \<not> wide_entry base e)"
  shows "length (synthetic_eh_frame base ps es) \<le> length es * 80 + 4096"
proof -
  have p: "length ps \<le> 4" by (simp add: assms(1) length_image_personalities)
  from assms(2) show ?thesis
  proof
    assume "length es \<le> 490"
    then show ?thesis using synthetic_length [OF p, of es base 88] length_entry_fde by fastforce
  next
    assume "\<forall>e \<in> set es. \<not> wide_entry base e"
    then show ?thesis using synthetic_length [OF p, of es base 80] narrow_fde by fastforce
  qed
qed

text \<open>The compact entries of all pages are collected, none lost, in the order of their addresses, and the size of each reaches to the next;
  the LSDA of a function is found when the array of its page, sorted by address, has one, and is 0 otherwise.\<close>

lemma collected_entries:
  assumes "collect_entries m unwind_info unwind_size ce cc = Some es"
  shows "sorted (map cu_func_offset es) \<and> mset (map unsized es) = mset (all_page_entries m unwind_info unwind_size ce cc) \<and>
    (\<forall>i. Suc i < length es \<longrightarrow> cu_func_offset (es ! i) + cu_func_size (es ! i) = cu_func_offset (es ! Suc i)) \<and>
    (\<forall>arr n f. lsda_ordered m arr n \<longrightarrow> (\<forall>k. 0 \<le> k \<longrightarrow> k < n \<longrightarrow> lsda_search m arr (lsda_key m arr k) 0 (n - 1) = lsda_value m arr k) \<and>
       ((\<forall>k. 0 \<le> k \<longrightarrow> k < n \<longrightarrow> lsda_key m arr k \<noteq> f) \<longrightarrow> lsda_search m arr f 0 (n - 1) = 0))"
proof (intro conjI allI impI)
  show "lsda_search m arr (lsda_key m arr k) 0 (n - 1) = lsda_value m arr k" if "lsda_ordered m arr n" "0 \<le> k" "k < n" for arr n k
    by (rule lsda_search_found [OF that(1)]) (use that in auto)
  show "lsda_search m arr f 0 (n - 1) = 0" if "\<forall>k. 0 \<le> k \<longrightarrow> k < n \<longrightarrow> lsda_key m arr k \<noteq> f" for arr n f
    by (rule lsda_search_none) (use that in auto)
qed (rule collected_order [OF assms], assumption?)+

section \<open>Uses\<close>

definition uw_env :: eh_env where
  "uw_env = \<lparr>os_page_size = 4096, os_mmap = (\<lambda>k h n. if n \<le> 0x10000 then 0x700000 + of_nat k * 0x100000 else 0), os_fixed = (\<lambda>_. True),
     os_file = (\<lambda>_. None), ee_junk = 0, ee_qsort = sort_key he_initial_location, ee_register_frame = True, ee_dl_find_object = False\<rparr>"

definition uw_state :: eh_process where
  "uw_state = \<lparr>p_mem = uwm, p_mmaps = 0, p_prots = [], eh_text_size = 0, macho_text_start = 0, macho_text_end = 0, macho_eh_frame = 0,
     macho_eh_frame_size = 0, macho_eh_frame_hdr = 0, macho_eh_frame_hdr_size = 0, eh_registered = [], real_dl_find_object = False\<rparr>"

lemma uw_has_fde: "entry_has_fde uw_entry" "entry_lsda base uw_entry = 0" "entry_personality [] uw_entry = 0"
  by (simp_all add: entry_has_fde_def entry_lsda_def entry_personality_def uw_entry_def personality_index_def UNWIND_PERSONALITY_MASK_def UNWIND_ARM64_MODE_MASK_def UNWIND_ARM64_MODE_DWARF_def
      UNWIND_IS_NOT_FUNCTION_START_def UNWIND_HAS_LSDA_def)

definition uw_sec :: "u8 list" where "uw_sec = synthetic_eh_frame 0x1000 [] [uw_entry]"

theorem synthetic_fits_witness: "length uw_sec \<le> 80 + 4096"
  using synthetic_fits [of "[]" uwm 0 uw_sections "[uw_entry]" "0x1000"] by (simp add: uw_entries uw_sec_def)

lemma uw_sec_length: "length uw_sec < 256"
  using synthetic_length [of "[]" "[uw_entry]" "0x1000" 88] length_entry_fde [of "0x1000" _ uw_entry] by (simp add: uw_sec_def)

theorem native_agrees_synthetic_witness:
  "parse_native_eh_frame_fdes 0 (store_bytes uwm 0x700000 uw_sec) 0x700000 (of_nat (length uw_sec)) =
     Some (walk_synthetic (store_bytes uwm 0x700000 uw_sec) 0x700000 (length uw_sec) 0)"
  by (rule native_agrees_synthetic [OF uw_sec_def])
    (use uw_sec_length in \<open>simp_all add: holds_store uw_entry_def\<close>)

text \<open>A section of one extended entry, of eight bytes.\<close>

definition extended_entry :: mem where
  "extended_entry a = (if a \<in> {0x1000, 0x1001, 0x1002, 0x1003} then 0xFF else if a = 0x1004 then 8 else 0)"

theorem native_parse_ends_witness: "\<exists>fdes. parse_native_eh_frame_fdes 0 extended_entry 0x1000 24 = Some fdes"
proof (rule native_parse_ends)
  show "\<forall>pos \<le> 24. load32 extended_entry (0x1000 + pos) = 0xFFFFFFFF \<longrightarrow>
      unat pos + 12 + unat (load extended_entry (0x1000 + pos + 4) 8) < 2 ^ 64"
  proof (intro allI impI)
    fix pos :: u64
    assume p: "pos \<le> 24"
    have c: "list_all (\<lambda>k. load extended_entry (0x1000 + of_nat k + 4) 8 \<le> 8) [0..<25]" by code_simp
    have k: "unat pos < 25" using p by (simp add: word_le_nat_alt)
    have "load extended_entry (0x1000 + pos + 4) 8 \<le> 8" using bspec [OF c [unfolded list_all_iff], of "unat pos"] k by simp
    then have "unat (load extended_entry (0x1000 + pos + 4) 8) \<le> 8" by (simp add: word_le_nat_alt)
    then show "unat pos + 12 + unat (load extended_entry (0x1000 + pos + 4) 8) < 2 ^ 64" using k by simp
  qed
qed simp

text \<open>A section of one extended entry whose length is -12: the walk comes back to its start forever.\<close>

definition wrapped_entry :: mem where
  "wrapped_entry = image [(0x1000, 0xFFFFFFF4FFFFFFFF), (0x1008, 0x00000000FFFFFFFF)]"

lemma native_parse_loops: "parse_native_eh_frame_fdes 0 wrapped_entry 0x1000 24 = None"
proof -
  have "load wrapped_entry 0x1004 8 = 0xFFFFFFFFFFFFFFF4" by code_simp
  moreover have "load32 wrapped_entry 0x1000 = 0xFFFFFFFF" "load32 wrapped_entry 0x100C = 0"
    by (simp_all add: wrapped_entry_def load32_image word_at_def)
  ultimately have "native_entry 0 wrapped_entry 0x1000 24 0 = Some (0, [])" by (simp add: native_entry_def)
  then show ?thesis unfolding parse_native_eh_frame_fdes_def by (rule native_walk_stuck) simp
qed

lemma uw_apart: "mappings_apart uw_env 0 (of_nat (length [uw_entry] * 80 + 4096))"
  unfolding mappings_apart_def
proof (intro allI impI)
  fix n' :: u64 and b
  assume g: "os_mmap uw_env (0 + 1) 0 n' \<noteq> 0"
    and b: "in_range b (os_mmap uw_env 0 0 (of_nat (length [uw_entry] * 80 + 4096))) (round_up (os_page_size uw_env) (unat (of_nat (length [uw_entry] * 80 + 4096) :: u64)))"
  have n: "unat n' \<le> 0x10000" using g by (simp add: uw_env_def word_le_nat_alt split: if_splits)
  have "round_up 4096 (unat n') \<le> 0x10000" using round_up_mono [OF n, of 4096] by (simp add: round_up_def)
  then have "in_range b 0x800000 (round_up 4096 (unat n')) \<Longrightarrow> in_range b 0x800000 0x10000" by (rule in_range_less [rotated])
  moreover have "in_range b 0x700000 8192" using b by (simp add: uw_env_def round_up_def)
  ultimately show "\<not> in_range b (os_mmap uw_env (0 + 1) 0 n') (round_up (os_page_size uw_env) (unat n'))"
    using g by (auto simp: uw_env_def in_range_nat split: if_splits)
qed

lemma uw_run: "\<exists>st'. eh_frame_register_macho uw_env 0x1000 0 uw_state = Some (0, st')"
proof -
  have l: "locate_eh_sections (p_mem uw_state) 0x1000 0 (eh_text_size uw_state) = uw_sections" by (simp add: uw_state_def uw_located)
  have w: "walk_synthetic (store_bytes m 0x700000 uw_sec) 0x700000 (length uw_sec) 0 = map (index_entry 0x1000 0x700000) (synthetic_fdes 0x1000 [] [uw_entry])" for m
    by (rule synthetic_walk [OF uw_sec_def]) (use uw_sec_length in \<open>simp_all add: holds_store\<close>)
  have "map fst (synthetic_fdes 0x1000 [] [uw_entry]) = [uw_entry]" by (simp add: synthetic_fdes_def fde_list_entries uw_has_fde)
  then obtain off where f: "synthetic_fdes 0x1000 [] [uw_entry] = [(uw_entry, off)]" by (auto simp: map_eq_Cons_conv)
  define st1 where "st1 = uw_state\<lparr>eh_text_size := 0x1000, p_mmaps := 1,
    p_mem := store_bytes (map_anon 4096 0x700000 4176 uwm) 0x700000 uw_sec, macho_text_start := 0x1000, macho_text_end := 0x2000,
    macho_eh_frame := 0x700000, macho_eh_frame_size := of_nat (length uw_sec)\<rparr>"
  have "\<exists>st2. build_index uw_env 0x700000 (length uw_sec) uw_sections st1 = Some (True, st2)"
    by (simp add: build_index_def Let_def st1_def w f) (simp add: uw_sections_def uw_env_def mmap_any_def uw_state_def Let_def)
  then obtain st2 where "build_index uw_env 0x700000 (length uw_sec) uw_sections st1 = Some (True, st2)" by blast
  moreover have "p_mem uw_state = uwm" "p_mmaps uw_state = 0" by (simp_all add: uw_state_def)
  moreover have "es_unwind_info uw_sections \<noteq> 0" "es_text_base uw_sections = 0x1000" "es_text_size uw_sections = 0x1000"
    by (simp_all add: uw_sections_def)
  moreover have "os_mmap uw_env 0 0 4176 = 0x700000" "os_page_size uw_env = 4096" by (simp_all add: uw_env_def)
  ultimately show ?thesis
    unfolding eh_frame_register_macho_def Let_def l st1_def
    by (simp add: uw_entries mmap_any_def uw_sec_def)
qed


theorem collected_entries_witness: "sorted (map cu_func_offset [uw_entry])"
  using collected_entries [OF uw_collect] by blast

end
