(* ===== verification/Posix_Files.thy ===== *)
theory Posix_Files
  imports C_String
begin

text \<open>
  The POSIX calls the port's file code makes. Files are nodes with numbers; a directory maps names to nodes and knows its parent. Besides
  the failures the standard prescribes, the kernel may refuse any call for reasons of its own and accept only a part of a write; these
  choices are the environment, indexed by the number of calls made. Every call leaves the nodes behind it in a history, so that
  a theorem can speak about each moment at which the machine may stop. Memory allocation is a call that may fail, too.
\<close>

datatype posix_error = E_INVAL | E_PERM | E_NOENT | E_EXIST | E_NOTDIR | E_ISDIR | E_LOOP | E_IO | E_INTR | E_NOMEM | E_NAMETOOLONG | E_BADF
  | E_other nat

datatype inode = Dir nat "cstr \<rightharpoonup> nat" | Regular "u8 list" nat | Symlink cstr

type_synonym inodes = "nat \<rightharpoonup> inode"

record posix =
  ps_nodes :: inodes
  ps_next :: nat
  ps_fds :: "(nat \<times> nat) list"
  ps_errno :: posix_error
  ps_calls :: nat
  ps_history :: "inodes list"

record kernel =
  k_fail :: "nat \<Rightarrow> posix_error option"
  k_written :: "nat \<Rightarrow> nat"

section \<open>Paths\<close>

text \<open>The tokens of \<^verbatim>\<open>strtok_r\<close> with the delimiter \<^verbatim>\<open>/\<close>.\<close>

function strtok_slash :: "cstr \<Rightarrow> cstr list" where
  "strtok_slash s =
    (let s = dropWhile (\<lambda>c. c = CHR ''/'') s
     in if s = [] then [] else takeWhile (\<lambda>c. c \<noteq> CHR ''/'') s # strtok_slash (dropWhile (\<lambda>c. c \<noteq> CHR ''/'') s))"
  by pat_completeness auto
termination
proof (relation "measure length")
  fix s t :: cstr
  assume t: "t = dropWhile (\<lambda>c. c = CHR ''/'') s" "t \<noteq> []"
  then have "hd t \<noteq> CHR ''/''" using hd_dropWhile by blast
  then have "length (dropWhile (\<lambda>c. c \<noteq> CHR ''/'') t) < length t" using t(2) by (cases t) (auto simp: le_imp_less_Suc length_dropWhile_le)
  moreover have "length t \<le> length s" using t(1) length_dropWhile_le by simp
  ultimately show "(dropWhile (\<lambda>c. c \<noteq> CHR ''/'') t, s) \<in> measure length" by simp
qed simp

declare strtok_slash.simps [simp del]

text \<open>Where a path leads from a directory; symbolic links are followed, up to a number of them.\<close>

function resolve :: "inodes \<Rightarrow> nat \<Rightarrow> nat \<Rightarrow> cstr list \<Rightarrow> posix_error + nat" where
  "resolve N links d [] = Inr d"
| "resolve N links d (c # cs) =
    (case N d of
       Some (Dir up es) \<Rightarrow>
         if c = ''.'' then resolve N links d cs
         else if c = ''..'' then resolve N links up cs
         else (case es c of
                 None \<Rightarrow> Inl E_NOENT
               | Some i \<Rightarrow>
                   (case N i of
                      Some (Symlink target) \<Rightarrow>
                        if links = 0 then Inl E_LOOP
                        else resolve N (links - 1) (if take 1 target = ''/'' then 0 else d) (strtok_slash target @ cs)
                    | _ \<Rightarrow> resolve N links i cs))
     | _ \<Rightarrow> Inl E_NOTDIR)"
  by pat_completeness auto
termination by (relation "measures [\<lambda>(N, links, d, cs). links, \<lambda>(N, links, d, cs). length cs]") auto

definition MAXSYMLINKS :: nat where "MAXSYMLINKS = 40"

section \<open>Calls\<close>

text \<open>A call that the kernel may refuse; \<^const>\<open>None\<close> is the return value -1.\<close>

definition sys :: "kernel \<Rightarrow> (posix \<Rightarrow> posix_error + 'a \<times> posix) \<Rightarrow> posix \<Rightarrow> 'a option \<times> posix" where
  "sys k f st =
    (let n = ps_calls st; st = st\<lparr>ps_calls := n + 1\<rparr>;
         (r, st) = (case k_fail k n of
                      Some e \<Rightarrow> (None, st\<lparr>ps_errno := e\<rparr>)
                    | None \<Rightarrow> (case f st of Inl e \<Rightarrow> (None, st\<lparr>ps_errno := e\<rparr>) | Inr (a, st) \<Rightarrow> (Some a, st)))
     in (r, st\<lparr>ps_history := ps_history st @ [ps_nodes st]\<rparr>))"

text \<open>The lowest number from a bound on that is not in use.\<close>

function lowest :: "nat \<Rightarrow> nat list \<Rightarrow> nat" where
  "lowest n used = (if n \<in> set used then lowest (n + 1) (removeAll n used) else n)"
  by pat_completeness auto
termination by (relation "measure (\<lambda>(n, used). length used)") (auto simp: length_removeAll_less)

declare lowest.simps [simp del]

definition new_fd :: "nat \<Rightarrow> nat \<Rightarrow> posix \<Rightarrow> nat \<times> posix" where
  "new_fd low i st = (let fd = lowest low (map fst (ps_fds st)) in (fd, st\<lparr>ps_fds := (fd, i) # ps_fds st\<rparr>))"

definition new_node :: "inode \<Rightarrow> posix \<Rightarrow> nat \<times> posix" where
  "new_node x st = (ps_next st, st\<lparr>ps_nodes := (ps_nodes st)(ps_next st \<mapsto> x), ps_next := ps_next st + 1\<rparr>)"

definition set_node :: "nat \<Rightarrow> inode \<Rightarrow> posix \<Rightarrow> posix" where
  "set_node i x st = st\<lparr>ps_nodes := (ps_nodes st)(i \<mapsto> x)\<rparr>"

text \<open>A descriptor is released even when \<^verbatim>\<open>close\<close> reports an error.\<close>

definition sys_close :: "kernel \<Rightarrow> nat \<Rightarrow> posix \<Rightarrow> unit option \<times> posix" where
  "sys_close k fd st =
    (let (r, st) = sys k (\<lambda>st. Inr ((), st)) st in (r, st\<lparr>ps_fds := filter (\<lambda>p. fst p \<noteq> fd) (ps_fds st)\<rparr>))"

definition sys_alloc :: "kernel \<Rightarrow> posix \<Rightarrow> unit option \<times> posix" where
  "sys_alloc k st = sys k (\<lambda>st. Inr ((), st)) st"

definition sys_mkdir :: "kernel \<Rightarrow> cstr \<Rightarrow> posix \<Rightarrow> unit option \<times> posix" where
  "sys_mkdir k path = sys k (\<lambda>st.
    let cs = strtok_slash path in
    if cs = [] then Inl E_EXIST
    else case resolve (ps_nodes st) MAXSYMLINKS 0 (butlast cs) of
           Inl e \<Rightarrow> Inl e
         | Inr d \<Rightarrow> (case ps_nodes st d of
             Some (Dir up es) \<Rightarrow>
               if es (last cs) \<noteq> None \<or> last cs \<in> {''.'', ''..''} then Inl E_EXIST
               else let (i, st) = new_node (Dir d Map.empty) st in Inr ((), set_node d (Dir up (es(last cs \<mapsto> i))) st)
           | _ \<Rightarrow> Inl E_NOTDIR))"

text \<open>Whether the path names a directory.\<close>

definition sys_stat :: "kernel \<Rightarrow> cstr \<Rightarrow> posix \<Rightarrow> bool option \<times> posix" where
  "sys_stat k path = sys k (\<lambda>st.
    case resolve (ps_nodes st) MAXSYMLINKS 0 (strtok_slash path) of
      Inl e \<Rightarrow> Inl e
    | Inr i \<Rightarrow> Inr (case ps_nodes st i of Some (Dir up es) \<Rightarrow> True | _ \<Rightarrow> False, st))"

definition sys_open_dir :: "kernel \<Rightarrow> cstr \<Rightarrow> posix \<Rightarrow> nat option \<times> posix" where
  "sys_open_dir k path = sys k (\<lambda>st.
    case resolve (ps_nodes st) MAXSYMLINKS 0 (strtok_slash path) of
      Inl e \<Rightarrow> Inl e
    | Inr i \<Rightarrow> (case ps_nodes st i of Some (Dir up es) \<Rightarrow> Inr (new_fd 0 i st) | _ \<Rightarrow> Inl E_NOTDIR))"

text \<open>\<^verbatim>\<open>fcntl\<close> with \<^verbatim>\<open>F_DUPFD_CLOEXEC\<close> and the bound 3.\<close>

definition sys_dup3 :: "kernel \<Rightarrow> nat \<Rightarrow> posix \<Rightarrow> nat option \<times> posix" where
  "sys_dup3 k fd = sys k (\<lambda>st. case map_of (ps_fds st) fd of None \<Rightarrow> Inl E_BADF | Some i \<Rightarrow> Inr (new_fd 3 i st))"

text \<open>Calls relative to a directory descriptor, with a single name.\<close>

definition in_dir :: "kernel \<Rightarrow> nat \<Rightarrow> (nat \<Rightarrow> nat \<Rightarrow> (cstr \<rightharpoonup> nat) \<Rightarrow> posix \<Rightarrow> posix_error + 'a \<times> posix) \<Rightarrow> posix \<Rightarrow> 'a option \<times> posix" where
  "in_dir k fd f = sys k (\<lambda>st.
    case map_of (ps_fds st) fd of
      None \<Rightarrow> Inl E_BADF
    | Some d \<Rightarrow> (case ps_nodes st d of Some (Dir up es) \<Rightarrow> f d up es st | _ \<Rightarrow> Inl E_NOTDIR))"

definition sys_mkdirat :: "kernel \<Rightarrow> nat \<Rightarrow> cstr \<Rightarrow> posix \<Rightarrow> unit option \<times> posix" where
  "sys_mkdirat k fd name = in_dir k fd (\<lambda>d up es st.
    if es name \<noteq> None then Inl E_EXIST
    else let (i, st) = new_node (Dir d Map.empty) st in Inr ((), set_node d (Dir up (es(name \<mapsto> i))) st))"

text \<open>\<^verbatim>\<open>openat\<close> with \<^verbatim>\<open>O_DIRECTORY\<close> and \<^verbatim>\<open>O_NOFOLLOW\<close>.\<close>

definition sys_openat_dir :: "kernel \<Rightarrow> nat \<Rightarrow> cstr \<Rightarrow> posix \<Rightarrow> nat option \<times> posix" where
  "sys_openat_dir k fd name = in_dir k fd (\<lambda>d up es st.
    case es name of
      None \<Rightarrow> Inl E_NOENT
    | Some i \<Rightarrow> (case ps_nodes st i of
        Some (Dir up' es') \<Rightarrow> Inr (new_fd 0 i st) | Some (Symlink t) \<Rightarrow> Inl E_LOOP | _ \<Rightarrow> Inl E_NOTDIR))"

text \<open>\<^verbatim>\<open>openat\<close> with \<^verbatim>\<open>O_CREAT\<close> and \<^verbatim>\<open>O_EXCL\<close>.\<close>

definition sys_create :: "kernel \<Rightarrow> nat \<Rightarrow> cstr \<Rightarrow> nat \<Rightarrow> posix \<Rightarrow> nat option \<times> posix" where
  "sys_create k fd name mode = in_dir k fd (\<lambda>d up es st.
    if es name \<noteq> None then Inl E_EXIST
    else let (i, st) = new_node (Regular [] mode) st in Inr (new_fd 0 i (set_node d (Dir up (es(name \<mapsto> i))) st)))"

text \<open>Calls on an open regular file.\<close>

definition on_file :: "kernel \<Rightarrow> nat \<Rightarrow> (nat \<Rightarrow> u8 list \<Rightarrow> nat \<Rightarrow> posix \<Rightarrow> posix_error + 'a \<times> posix) \<Rightarrow> posix \<Rightarrow> 'a option \<times> posix" where
  "on_file k fd f = sys k (\<lambda>st.
    case map_of (ps_fds st) fd of
      None \<Rightarrow> Inl E_BADF
    | Some i \<Rightarrow> (case ps_nodes st i of Some (Regular bs mode) \<Rightarrow> f i bs mode st | _ \<Rightarrow> Inl E_BADF))"

definition sys_fchmod :: "kernel \<Rightarrow> nat \<Rightarrow> nat \<Rightarrow> posix \<Rightarrow> unit option \<times> posix" where
  "sys_fchmod k fd mode = on_file k fd (\<lambda>i bs _ st. Inr ((), set_node i (Regular bs mode) st))"

definition sys_write :: "kernel \<Rightarrow> nat \<Rightarrow> u8 list \<Rightarrow> posix \<Rightarrow> nat option \<times> posix" where
  "sys_write k fd data = on_file k fd (\<lambda>i bs mode st.
    let n = min (k_written k (ps_calls st)) (length data) in Inr (n, set_node i (Regular (bs @ take n data) mode) st))"

definition sys_fsync :: "kernel \<Rightarrow> nat \<Rightarrow> posix \<Rightarrow> unit option \<times> posix" where
  "sys_fsync k fd = sys k (\<lambda>st. if map_of (ps_fds st) fd = None then Inl E_BADF else Inr ((), st))"

text \<open>A rename inside one directory, of something that is not a directory; a directory is not replaced.\<close>

definition sys_rename :: "kernel \<Rightarrow> nat \<Rightarrow> cstr \<Rightarrow> cstr \<Rightarrow> posix \<Rightarrow> unit option \<times> posix" where
  "sys_rename k fd old new = in_dir k fd (\<lambda>d up es st.
    case es old of
      None \<Rightarrow> Inl E_NOENT
    | Some i \<Rightarrow>
        if (case es new of Some j \<Rightarrow> (case ps_nodes st j of Some (Dir up' es') \<Rightarrow> True | _ \<Rightarrow> False) | None \<Rightarrow> False) then Inl E_ISDIR
        else Inr ((), set_node d (Dir up ((es(old := None))(new \<mapsto> i))) st))"

definition sys_unlink :: "kernel \<Rightarrow> nat \<Rightarrow> cstr \<Rightarrow> posix \<Rightarrow> unit option \<times> posix" where
  "sys_unlink k fd name = in_dir k fd (\<lambda>d up es st.
    case es name of
      None \<Rightarrow> Inl E_NOENT
    | Some i \<Rightarrow> (case ps_nodes st i of
        Some (Dir up' es') \<Rightarrow> Inl E_ISDIR | _ \<Rightarrow> Inr ((), set_node d (Dir up (es(name := None))) st)))"

end
