(* ===== verification/Sword3_Paths.thy ===== *)
theory Sword3_Paths
  imports Posix_Files
begin

text \<open>
  Model of \<^verbatim>\<open>src/src/ports/sword3/paths.c\<close>: the directories of the port, names below them, and files that are replaced atomically. A
  string under construction is the list of its characters up to the length the code keeps; a null pointer is \<^const>\<open>None\<close>. The
  result of a call is \<^const>\<open>None\<close> for -1, with the error in \<^const>\<open>ps_errno\<close>; freeing memory and the permissions of
  directories are left out.
\<close>

definition SIZE_MAX64 :: nat where "SIZE_MAX64 = 2 ^ 64 - 1"

definition fail_with :: "posix_error \<Rightarrow> posix \<Rightarrow> 'a option \<times> posix" where
  "fail_with e st = (None, st\<lparr>ps_errno := e\<rparr>)"

section \<open>Names\<close>

text \<open>The two loops of \<^verbatim>\<open>..\<close>: back to the last slash, and over it unless it is the first character.\<close>

function drop_name :: "cstr \<Rightarrow> cstr" where
  "drop_name out = (if length out > 1 \<and> last out \<noteq> CHR ''/'' then drop_name (butlast out) else out)"
  by pat_completeness auto
termination by (relation "measure length") auto

declare drop_name.simps [simp del]

definition parent_name :: "cstr \<Rightarrow> cstr" where
  "parent_name out = (let out = drop_name out in if length out > 1 then butlast out else out)"

definition add_name :: "cstr \<Rightarrow> cstr \<Rightarrow> cstr" where
  "add_name part out = (if length out > 1 then out @ ''/'' else out) @ part"

definition normalize_part :: "cstr \<Rightarrow> cstr \<Rightarrow> cstr" where
  "normalize_part part out =
    (if part = ''.'' \<or> part = [] then out
     else if part = ''..'' then (if length out > 1 then parent_name out else out)
     else add_name part out)"

definition normalize_absolute :: "kernel \<Rightarrow> cstr option \<Rightarrow> posix \<Rightarrow> cstr option \<times> posix" where
  "normalize_absolute k path st =
    (case path of
       None \<Rightarrow> fail_with E_INVAL st
     | Some path \<Rightarrow>
         if take 1 path \<noteq> ''/'' then fail_with E_INVAL st
         else if length path > SIZE_MAX64 - 2 then fail_with E_NAMETOOLONG st
         else
           let (copy, st) = sys_alloc k st; (out, st) = sys_alloc k st in
           if copy = None \<or> out = None then fail_with E_NOMEM st
           else (Some (fold normalize_part (strtok_slash path) ''/''), st))"

text \<open>The pieces between slashes, empty ones included, as the loops over \<^verbatim>\<open>strchr\<close> see them.\<close>

function pieces :: "cstr \<Rightarrow> cstr list" where
  "pieces s =
    (if s = [] then []
     else takeWhile (\<lambda>c. c \<noteq> CHR ''/'') s # pieces (drop 1 (dropWhile (\<lambda>c. c \<noteq> CHR ''/'') s)))"
  by pat_completeness auto
termination
proof (relation "measure length")
  fix s :: cstr assume "s \<noteq> []"
  moreover have "length (dropWhile (\<lambda>c. c \<noteq> CHR ''/'') s) \<le> length s" by (rule length_dropWhile_le)
  ultimately show "(drop 1 (dropWhile (\<lambda>c. c \<noteq> CHR ''/'') s), s) \<in> measure length"
    by (cases s) (auto simp: le_imp_less_Suc length_dropWhile_le)
qed simp

declare pieces.simps [simp del]

definition join_piece :: "cstr \<Rightarrow> cstr \<Rightarrow> cstr" where
  "join_piece piece joined = (if piece \<noteq> [] \<and> piece \<noteq> ''.'' then add_name piece joined else joined)"

definition join_relative :: "kernel \<Rightarrow> cstr option \<Rightarrow> cstr option \<Rightarrow> posix \<Rightarrow> cstr option \<times> posix" where
  "join_relative k root relative st =
    (case (root, relative) of
       (Some root, Some relative) \<Rightarrow>
         if take 1 relative = ''/'' then fail_with E_INVAL st
         else if ''..'' \<in> set (pieces relative) then fail_with E_PERM st
         else if length relative > SIZE_MAX64 - 2 \<or> length root > SIZE_MAX64 - length relative - 2 then fail_with E_NAMETOOLONG st
         else
           let (joined, st) = sys_alloc k st in
           if joined = None then fail_with E_NOMEM st
           else (Some (fold join_piece (pieces relative) root), st)
     | _ \<Rightarrow> fail_with E_INVAL st)"

section \<open>Directories\<close>

text \<open>The names \<^verbatim>\<open>mkdir\<close> is called with: the path up to each slash but the first, and the whole.\<close>

definition path_prefixes :: "cstr \<Rightarrow> cstr list" where
  "path_prefixes path = map (\<lambda>i. take i path) (filter (\<lambda>i. i = length path \<or> path ! i = CHR ''/'') [1..<length path + 1])"

text \<open>One directory: made, or there already; only for the last one an entry of another kind is reported as such.\<close>

definition make_one :: "kernel \<Rightarrow> bool \<Rightarrow> cstr \<Rightarrow> posix \<Rightarrow> unit option \<times> posix" where
  "make_one k is_last path st =
    (case sys_mkdir k path st of
       (Some _, st) \<Rightarrow> (Some (), st)
     | (None, st) \<Rightarrow>
         if ps_errno st \<noteq> E_EXIST then (None, st)
         else (case sys_stat k path st of
                 (None, st) \<Rightarrow> (None, if is_last \<and> ps_errno st = E_EXIST then st\<lparr>ps_errno := E_NOTDIR\<rparr> else st)
               | (Some is_dir, st) \<Rightarrow>
                   if is_dir then (Some (), st)
                   else (None, if is_last then st\<lparr>ps_errno := E_NOTDIR\<rparr> else st)))"

fun make_all :: "kernel \<Rightarrow> cstr list \<Rightarrow> posix \<Rightarrow> unit option \<times> posix" where
  "make_all k [] st = (Some (), st)"
| "make_all k (p # ps) st =
    (case make_one k (ps = []) p st of (None, st) \<Rightarrow> (None, st) | (Some _, st) \<Rightarrow> make_all k ps st)"

definition sword3_paths_mkdirs :: "kernel \<Rightarrow> cstr option \<Rightarrow> posix \<Rightarrow> unit option \<times> posix" where
  "sword3_paths_mkdirs k path st =
    (case normalize_absolute k path st of
       (None, st) \<Rightarrow> (None, st)
     | (Some normalized, st) \<Rightarrow> make_all k (path_prefixes normalized) st)"

text \<open>The variables of the environment.\<close>

record path_vars =
  SWORD3_BUNDLE_DIR :: "cstr option"
  SWORD3_DATA_DIR :: "cstr option"
  XDG_DATA_HOME :: "cstr option"
  HOME_DIR :: "cstr option"

abbreviation given :: "cstr option \<Rightarrow> bool" where
  "given v \<equiv> v \<noteq> None \<and> v \<noteq> Some []"

definition suffixed_root :: "kernel \<Rightarrow> cstr \<Rightarrow> cstr \<Rightarrow> posix \<Rightarrow> cstr option \<times> posix" where
  "suffixed_root k dir suffix st =
    (if length dir > SIZE_MAX64 - (length suffix + 1) then fail_with E_NAMETOOLONG st
     else
       let (candidate, st) = sys_alloc k st in
       if candidate = None then fail_with E_NOMEM st
       else normalize_absolute k (Some (dir @ suffix)) st)"

definition make_data_root :: "kernel \<Rightarrow> path_vars \<Rightarrow> posix \<Rightarrow> cstr option \<times> posix" where
  "make_data_root k vars st =
    (if given (SWORD3_DATA_DIR vars) then normalize_absolute k (SWORD3_DATA_DIR vars) st
     else case XDG_DATA_HOME vars of
       Some (c # xdg) \<Rightarrow>
         if c \<noteq> CHR ''/'' then fail_with E_INVAL st else suffixed_root k (c # xdg) ''/sword3'' st
     | _ \<Rightarrow>
         (case HOME_DIR vars of
            Some (c # home) \<Rightarrow>
              if c \<noteq> CHR ''/'' then fail_with E_NOENT st else suffixed_root k (c # home) ''/.local/share/sword3'' st
          | _ \<Rightarrow> fail_with E_NOENT st))"

section \<open>Initialisation\<close>

record Sword3Paths =
  bundle_dir :: "cstr option"
  data_dir :: "cstr option"
  data_dir_fd :: nat

text \<open>Closing a descriptor on the way out keeps the error.\<close>

definition close_keep :: "kernel \<Rightarrow> nat \<Rightarrow> posix \<Rightarrow> posix" where
  "close_keep k fd st = (snd (sys_close k fd st))\<lparr>ps_errno := ps_errno st\<rparr>"

definition sword3_paths_init :: "kernel \<Rightarrow> path_vars \<Rightarrow> posix \<Rightarrow> Sword3Paths option \<times> posix" where
  "sword3_paths_init k vars st =
    (if \<not> given (SWORD3_BUNDLE_DIR vars) then fail_with E_NOENT st
     else case normalize_absolute k (SWORD3_BUNDLE_DIR vars) st of
       (None, st) \<Rightarrow> (None, st)
     | (Some bundle, st) \<Rightarrow>
         (case make_data_root k vars st of
            (None, st) \<Rightarrow> (None, st)
          | (Some data, st) \<Rightarrow>
              (case sword3_paths_mkdirs k (Some data) st of
                 (None, st) \<Rightarrow> (None, st)
               | (Some _, st) \<Rightarrow>
                   (case sys_open_dir k data st of
                      (None, st) \<Rightarrow> (None, st)
                    | (Some fd, st) \<Rightarrow>
                        (case sys_dup3 k fd st of
                           (None, st) \<Rightarrow> (None, close_keep k fd st)
                         | (Some fd', st) \<Rightarrow>
                             (Some \<lparr>bundle_dir = Some bundle, data_dir = Some data, data_dir_fd = fd'\<rparr>, snd (sys_close k fd st)))))))"

definition sword3_paths_destroy :: "kernel \<Rightarrow> Sword3Paths \<Rightarrow> posix \<Rightarrow> Sword3Paths \<times> posix" where
  "sword3_paths_destroy k paths st =
    (\<lparr>bundle_dir = None, data_dir = None, data_dir_fd = 0\<rparr>,
     if data_dir_fd paths > 0 then snd (sys_close k (data_dir_fd paths) st) else st)"

definition sword3_paths_resource :: "kernel \<Rightarrow> Sword3Paths option \<Rightarrow> cstr option \<Rightarrow> posix \<Rightarrow> cstr option \<times> posix" where
  "sword3_paths_resource k paths relative st =
    (case paths of
       None \<Rightarrow> fail_with E_INVAL st
     | Some paths \<Rightarrow> if bundle_dir paths = None then fail_with E_INVAL st else join_relative k (bundle_dir paths) relative st)"

definition sword3_paths_data :: "kernel \<Rightarrow> Sword3Paths option \<Rightarrow> cstr option \<Rightarrow> posix \<Rightarrow> cstr option \<times> posix" where
  "sword3_paths_data k paths relative st =
    (case paths of
       None \<Rightarrow> fail_with E_INVAL st
     | Some paths \<Rightarrow> if data_dir paths = None then fail_with E_INVAL st else join_relative k (data_dir paths) relative st)"

section \<open>Atomic replacement\<close>

text \<open>A write that is interrupted is tried again, for as long as that takes.\<close>

partial_function (option) write_all :: "kernel \<Rightarrow> nat \<Rightarrow> u8 list \<Rightarrow> posix \<Rightarrow> (unit option \<times> posix) option" where
  [code]: "write_all k fd data st =
    (if data = [] then Some (Some (), st)
     else case sys_write k fd data st of
       (None, st) \<Rightarrow> if ps_errno st = E_INTR then write_all k fd data st else Some (None, st)
     | (Some n, st) \<Rightarrow> if n = 0 then Some (fail_with E_IO st) else write_all k fd (drop n data) st)"

text \<open>The directories on the way are made and entered one by one; \<open>pending\<close> is the last name seen.\<close>

fun descend :: "kernel \<Rightarrow> cstr list \<Rightarrow> cstr option \<Rightarrow> nat \<Rightarrow> posix \<Rightarrow> (cstr option \<times> nat) option \<times> posix" where
  "descend k [] pending fd st = (Some (pending, fd), st)"
| "descend k (part # parts) pending fd st =
    (if part = ''..'' then (None, close_keep k fd (st\<lparr>ps_errno := E_PERM\<rparr>))
     else if part = ''.'' then descend k parts pending fd st
     else case pending of
       None \<Rightarrow> descend k parts (Some part) fd st
     | Some name \<Rightarrow>
         let (made, st) = sys_mkdirat k fd name st in
         if made = None \<and> ps_errno st \<noteq> E_EXIST then (None, close_keep k fd st)
         else case sys_openat_dir k fd name st of
           (None, st) \<Rightarrow> (None, close_keep k fd (if ps_errno st = E_LOOP then st\<lparr>ps_errno := E_PERM\<rparr> else st))
         | (Some child, st) \<Rightarrow> descend k parts (Some part) child (snd (sys_close k fd st)))"

definition open_data_parent :: "kernel \<Rightarrow> Sword3Paths option \<Rightarrow> cstr option \<Rightarrow> posix \<Rightarrow> (nat \<times> cstr) option \<times> posix" where
  "open_data_parent k paths relative st =
    (case (paths, relative) of
       (Some paths, Some relative) \<Rightarrow>
         if data_dir_fd paths = 0 \<or> take 1 relative = ''/'' then fail_with E_INVAL st
         else
           let (copy, st) = sys_alloc k st in
           if copy = None then fail_with E_NOMEM st
           else case sys_dup3 k (data_dir_fd paths) st of
             (None, st) \<Rightarrow> (None, st)
           | (Some fd, st) \<Rightarrow>
               (case descend k (strtok_slash relative) None fd st of
                  (None, st) \<Rightarrow> (None, st)
                | (Some (None, fd), st) \<Rightarrow> (None, close_keep k fd (st\<lparr>ps_errno := E_INVAL\<rparr>))
                | (Some (Some pending, fd), st) \<Rightarrow>
                    (case sys_alloc k st of
                       (None, st) \<Rightarrow> (None, close_keep k fd (st\<lparr>ps_errno := E_NOMEM\<rparr>))
                     | (Some _, st) \<Rightarrow> (Some (fd, pending), st)))
     | _ \<Rightarrow> fail_with E_INVAL st)"

definition temp_name :: "nat \<Rightarrow> nat \<Rightarrow> cstr" where
  "temp_name pid attempt = ''.sword3-tmp-'' @ dec_digits pid @ ''-'' @ dec_digits attempt"

text \<open>The attempts to create the temporary file: the last name tried, and the descriptor.\<close>

fun create_temp :: "kernel \<Rightarrow> nat \<Rightarrow> nat \<Rightarrow> nat list \<Rightarrow> cstr \<Rightarrow> posix \<Rightarrow> cstr \<times> nat option \<times> posix" where
  "create_temp k pid parent_fd [] temporary st = (temporary, fail_with E_EXIST st)"
| "create_temp k pid parent_fd (attempt # attempts) _ st =
    (let temporary = temp_name pid attempt in
     if length temporary \<ge> 96 then (take 95 temporary, fail_with E_NAMETOOLONG st)
     else case sys_create k parent_fd temporary 384 st of
       (Some fd, st) \<Rightarrow> (temporary, Some fd, st)
     | (None, st) \<Rightarrow>
         if ps_errno st \<noteq> E_EXIST then (temporary, None, st) else create_temp k pid parent_fd attempts temporary st)"

text \<open>The content: whether all of it is on disk, and the descriptor if it is still open.\<close>

definition fill_temp :: "kernel \<Rightarrow> nat \<Rightarrow> u8 list \<Rightarrow> nat \<Rightarrow> posix \<Rightarrow> (bool \<times> nat option \<times> posix) option" where
  "fill_temp k fd data mode st =
    (case sys_fchmod k fd mode st of
       (None, st) \<Rightarrow> Some (False, Some fd, st)
     | (Some _, st) \<Rightarrow>
         (case write_all k fd data st of
            None \<Rightarrow> None
          | Some (None, st) \<Rightarrow> Some (False, Some fd, st)
          | Some (Some _, st) \<Rightarrow>
              (case sys_fsync k fd st of
                 (None, st) \<Rightarrow> Some (False, Some fd, st)
               | (Some _, st) \<Rightarrow>
                   (case sys_close k fd st of (None, st) \<Rightarrow> Some (False, None, st) | (Some _, st) \<Rightarrow> Some (True, None, st)))))"

text \<open>The label \<^verbatim>\<open>done\<close>: \<open>temporary\<close> is \<^const>\<open>None\<close> once the file has its name.\<close>

definition finish_write :: "kernel \<Rightarrow> bool \<Rightarrow> cstr option \<Rightarrow> nat option \<Rightarrow> nat \<Rightarrow> posix \<Rightarrow> unit option \<times> posix" where
  "finish_write k ok temporary fd parent_fd st =
    (let saved = ps_errno st;
         st = (case fd of None \<Rightarrow> st | Some fd \<Rightarrow> snd (sys_close k fd st));
         st = (case temporary of Some name \<Rightarrow> if ok then st else snd (sys_unlink k parent_fd name st) | None \<Rightarrow> st);
         st = snd (sys_close k parent_fd st)
     in if ok then (Some (), st) else (None, st\<lparr>ps_errno := saved\<rparr>))"

definition publish :: "kernel \<Rightarrow> nat \<Rightarrow> cstr \<Rightarrow> cstr \<Rightarrow> posix \<Rightarrow> unit option \<times> posix" where
  "publish k parent_fd temporary leaf st =
    (case sys_rename k parent_fd temporary leaf st of
       (None, st) \<Rightarrow> finish_write k False (Some temporary) None parent_fd st
     | (Some _, st) \<Rightarrow>
         (case sys_fsync k parent_fd st of
            (None, st) \<Rightarrow> finish_write k False None None parent_fd st
          | (Some _, st) \<Rightarrow> finish_write k True None None parent_fd st))"

text \<open>The outer \<^const>\<open>None\<close> is a write that is interrupted forever.\<close>

definition sword3_paths_atomic_write ::
  "kernel \<Rightarrow> nat \<Rightarrow> Sword3Paths option \<Rightarrow> cstr option \<Rightarrow> u8 list option \<Rightarrow> nat \<Rightarrow> nat \<Rightarrow> posix \<Rightarrow> (unit option \<times> posix) option" where
  "sword3_paths_atomic_write k pid paths relative data nbytes mode st =
    (if data = None \<and> nbytes > 0 then Some (None, st)
     else case open_data_parent k paths relative st of
       (None, st) \<Rightarrow> Some (None, st)
     | (Some (parent_fd, leaf), st) \<Rightarrow>
         (case create_temp k pid parent_fd [0..<128] [] st of
            (temporary, None, st) \<Rightarrow> Some (finish_write k False (Some temporary) None parent_fd st)
          | (temporary, Some fd, st) \<Rightarrow>
              (case fill_temp k fd (case data of None \<Rightarrow> [] | Some bytes \<Rightarrow> take nbytes bytes) mode st of
                 None \<Rightarrow> None
               | Some (False, fd, st) \<Rightarrow> Some (finish_write k False (Some temporary) fd parent_fd st)
               | Some (True, fd, st) \<Rightarrow> Some (publish k parent_fd temporary leaf st))))"

end
