(* ===== verification/Paths_Names.thy ===== *)
theory Paths_Names
  imports Sword3_Paths
begin

text \<open>The routines on names against paths as lists of components: what they build, and that it fits the buffers they ask for.\<close>

section \<open>Components\<close>

abbreviation slash :: "char \<Rightarrow> bool" where "slash c \<equiv> c = CHR ''/''"

definition name_ok :: "cstr \<Rightarrow> bool" where
  "name_ok c \<longleftrightarrow> c \<noteq> [] \<and> CHR ''/'' \<notin> set c"

definition abs_path :: "cstr list \<Rightarrow> cstr" where
  "abs_path cs = (if cs = [] then ''/'' else concat (map (\<lambda>c. CHR ''/'' # c) cs))"

lemma abs_path_snoc: "abs_path (cs @ [c]) = (if cs = [] then ''/'' else abs_path cs @ ''/'') @ c"
  by (simp add: abs_path_def)

lemma length_abs_path: "\<forall>c \<in> set cs. name_ok c \<Longrightarrow> length (abs_path cs) > 1 \<longleftrightarrow> cs \<noteq> []"
  by (cases cs) (auto simp: abs_path_def name_ok_def)

lemma add_name_abs: "\<forall>c \<in> set cs. name_ok c \<Longrightarrow> add_name c (abs_path cs) = abs_path (cs @ [c])"
  using length_abs_path [of cs] by (auto simp: add_name_def abs_path_snoc) (simp_all add: abs_path_def)

lemma drop_name_append: "CHR ''/'' \<notin> set c \<Longrightarrow> drop_name (xs @ ''/'' @ c) = xs @ ''/''"
proof (induction c rule: rev_induct)
  case Nil
  then show ?case by (subst drop_name.simps) simp
next
  case (snoc x c)
  then show ?case by (subst drop_name.simps) (auto simp: butlast_append)
qed

lemma parent_name_abs: "\<forall>c \<in> set cs. name_ok c \<Longrightarrow> cs \<noteq> [] \<Longrightarrow> parent_name (abs_path cs) = abs_path (butlast cs)"
proof (cases cs rule: rev_cases)
  case (snoc ds c)
  assume ok: "\<forall>c \<in> set cs. name_ok c"
  then have "drop_name (abs_path cs) = (if ds = [] then ''/'' else abs_path ds @ ''/'')"
    using drop_name_append [of c "if ds = [] then [] else abs_path ds"] snoc
    by (cases "ds = []") (simp add: abs_path_def name_ok_def, simp add: abs_path_snoc name_ok_def)
  moreover have "length (abs_path ds @ ''/'') > 1" if "ds \<noteq> []" using length_abs_path [of ds] ok snoc that by auto
  ultimately show ?thesis using snoc by (simp add: parent_name_def Let_def) (simp add: abs_path_def)
qed simp

lemma toks_ok: "c \<in> set (strtok_slash s) \<Longrightarrow> name_ok c"
proof (induction s rule: strtok_slash.induct)
  case (1 s)
  define t where "t = dropWhile slash s"
  have eq: "strtok_slash s = (if t = [] then [] else takeWhile (\<lambda>c. \<not> slash c) t # strtok_slash (dropWhile (\<lambda>c. \<not> slash c) t))"
    unfolding t_def by (subst strtok_slash.simps) (simp only: Let_def)
  show ?case
  proof (cases "t = []")
    case True
    then show ?thesis using 1 eq by simp
  next
    case False
    then have hd: "\<not> slash (hd t)" unfolding t_def using hd_dropWhile by blast
    then have "name_ok (takeWhile (\<lambda>c. \<not> slash c) t)" using False by (cases t) (auto simp: name_ok_def dest: set_takeWhileD)
    moreover have "c = takeWhile (\<lambda>c. \<not> slash c) t \<or> c \<in> set (strtok_slash (dropWhile (\<lambda>c. \<not> slash c) t))"
      using "1.prems" False by (simp only: eq) auto
    ultimately show ?thesis using "1.IH" [OF t_def False] by blast
  qed
qed

lemma toks_slash: "strtok_slash (CHR ''/'' # s) = strtok_slash s"
  by (subst strtok_slash.simps, subst (2) strtok_slash.simps) simp

lemma toks_name: "name_ok c \<Longrightarrow> s = [] \<or> slash (hd s) \<Longrightarrow> strtok_slash (c @ s) = c # strtok_slash s"
proof -
  assume c: "name_ok c" and s: "s = [] \<or> slash (hd s)"
  have a: "takeWhile (\<lambda>c. \<not> slash c) (c @ ys) = c @ takeWhile (\<lambda>c. \<not> slash c) ys"
      "dropWhile (\<lambda>c. \<not> slash c) (c @ ys) = dropWhile (\<lambda>c. \<not> slash c) ys" for ys
    by (rule takeWhile_append2 dropWhile_append2, use c in \<open>auto simp: name_ok_def\<close>)+
  have "dropWhile slash (c @ s) = c @ s" using c by (cases c) (auto simp: name_ok_def)
  moreover have "takeWhile (\<lambda>c. \<not> slash c) (c @ s) = c" "dropWhile (\<lambda>c. \<not> slash c) (c @ s) = s"
    unfolding a by (rule disjE [OF s], simp, cases s, simp_all)+
  moreover have "c @ s \<noteq> []" using c by (simp add: name_ok_def)
  ultimately show ?thesis by (subst strtok_slash.simps) (simp only: Let_def if_False)
qed

lemma toks_Nil [simp]: "strtok_slash [] = []"
  by (subst strtok_slash.simps) simp

lemma toks_concat: "\<forall>c \<in> set cs. name_ok c \<Longrightarrow> strtok_slash (concat (map (\<lambda>c. CHR ''/'' # c) cs)) = cs"
proof (induction cs)
  case (Cons c cs)
  have "concat (map (\<lambda>c. CHR ''/'' # c) cs) = [] \<or> slash (hd (concat (map (\<lambda>c. CHR ''/'' # c) cs)))" by (cases cs) auto
  then show ?case using Cons by (simp add: toks_slash toks_name)
qed simp

lemma toks_abs_path: "\<forall>c \<in> set cs. name_ok c \<Longrightarrow> strtok_slash (abs_path cs) = cs"
  using toks_concat [of cs] by (simp add: abs_path_def toks_slash)

section \<open>Normalisation\<close>

definition norm_step :: "cstr \<Rightarrow> cstr list \<Rightarrow> cstr list" where
  "norm_step c cs = (if c = ''.'' then cs else if c = ''..'' then butlast cs else cs @ [c])"

definition norm_names :: "cstr list \<Rightarrow> cstr list" where
  "norm_names cs = fold norm_step cs []"

definition clean_names :: "cstr list \<Rightarrow> bool" where
  "clean_names cs \<longleftrightarrow> (\<forall>c \<in> set cs. name_ok c \<and> c \<noteq> ''.'' \<and> c \<noteq> ''..'')"

lemma norm_step_clean: "name_ok c \<Longrightarrow> clean_names cs \<Longrightarrow> clean_names (norm_step c cs)"
  by (auto simp: norm_step_def clean_names_def dest: in_set_butlastD)

lemma fold_norm_clean: "\<forall>c \<in> set xs. name_ok c \<Longrightarrow> clean_names cs \<Longrightarrow> clean_names (fold norm_step xs cs)"
  by (induction xs arbitrary: cs) (simp_all add: norm_step_clean)

lemma norm_names_clean: "clean_names (norm_names (strtok_slash p))"
  unfolding norm_names_def by (rule fold_norm_clean) (simp_all add: toks_ok clean_names_def)

lemma normalize_part_step: "name_ok c \<Longrightarrow> clean_names cs \<Longrightarrow> normalize_part c (abs_path cs) = abs_path (norm_step c cs)"
  using length_abs_path [of cs] parent_name_abs [of cs] add_name_abs [of cs c]
  by (cases "cs = []") (auto simp: normalize_part_def norm_step_def clean_names_def name_ok_def)

lemma fold_normalize:
  "\<forall>c \<in> set xs. name_ok c \<Longrightarrow> clean_names cs \<Longrightarrow> fold normalize_part xs (abs_path cs) = abs_path (fold norm_step xs cs)"
  by (induction xs arbitrary: cs) (simp_all add: normalize_part_step norm_step_clean)

lemma normalize_toks: "fold normalize_part (strtok_slash p) ''/'' = abs_path (norm_names (strtok_slash p))"
  using fold_normalize [of "strtok_slash p" "[]"] by (simp add: toks_ok clean_names_def norm_names_def abs_path_def)

lemma norm_clean_id: "clean_names cs \<Longrightarrow> norm_names cs = cs"
proof -
  have "clean_names xs \<Longrightarrow> fold norm_step xs cs = cs @ xs" for xs cs
    by (induction xs arbitrary: cs) (simp_all add: clean_names_def norm_step_def)
  then show "clean_names cs \<Longrightarrow> norm_names cs = cs" by (simp add: norm_names_def)
qed

section \<open>Joining\<close>

lemma pieces_toks: "strtok_slash s = filter (\<lambda>c. c \<noteq> []) (pieces s)"
proof (induction s rule: pieces.induct)
  case (1 s)
  show ?case
  proof (cases s)
    case Nil
    then show ?thesis by (subst pieces.simps) simp
  next
    case (Cons x xs)
    define c where "c = takeWhile (\<lambda>c. \<not> slash c) s"
    define r where "r = dropWhile (\<lambda>c. \<not> slash c) s"
    have s: "s = c @ r" by (simp add: c_def r_def)
    have r: "r = [] \<or> slash (hd r)" unfolding r_def using hd_dropWhile by blast
    have c: "CHR ''/'' \<notin> set c" by (auto simp: c_def dest: set_takeWhileD)
    have "strtok_slash (drop 1 r) = strtok_slash r" using r by (cases r) (auto simp: toks_slash)
    moreover have "strtok_slash s = (if c = [] then [] else [c]) @ strtok_slash r" using s r c toks_name [of c r] by (auto simp: name_ok_def)
    moreover have "pieces s = c # pieces (drop 1 r)" using Cons by (subst pieces.simps) (simp add: c_def r_def)
    moreover have "strtok_slash (drop 1 r) = filter (\<lambda>c. c \<noteq> []) (pieces (drop 1 r))" using "1.IH" Cons by (simp add: r_def)
    ultimately show ?thesis by simp
  qed
qed

lemma join_pieces:
  "\<forall>c \<in> set rs. name_ok c \<Longrightarrow> (\<forall>c \<in> set xs. c = [] \<or> name_ok c) \<Longrightarrow>
   fold join_piece xs (abs_path rs) = abs_path (rs @ filter (\<lambda>c. c \<noteq> [] \<and> c \<noteq> ''.'') xs)"
proof (induction xs arbitrary: rs)
  case (Cons x xs)
  then have "join_piece x (abs_path rs) = abs_path (if x \<noteq> [] \<and> x \<noteq> ''.'' then rs @ [x] else rs)"
    by (auto simp: join_piece_def add_name_abs)
  then show ?case using Cons.IH [of "if x \<noteq> [] \<and> x \<noteq> ''.'' then rs @ [x] else rs"] Cons.prems by auto
qed simp

lemma pieces_ok: "c \<in> set (pieces s) \<Longrightarrow> c = [] \<or> name_ok c"
  using toks_ok [of c s] by (auto simp: pieces_toks)

lemma joined: "clean_names rs \<Longrightarrow> fold join_piece (pieces s) (abs_path rs) = abs_path (rs @ filter (\<lambda>c. c \<noteq> ''.'') (strtok_slash s))"
  using join_pieces [of rs "pieces s"] pieces_ok by (simp add: clean_names_def pieces_toks conj_commute)

lemma dotdot_pieces: "''..'' \<in> set (pieces s) \<longleftrightarrow> ''..'' \<in> set (strtok_slash s)"
  by (simp add: pieces_toks)

section \<open>Lengths\<close>

definition spent :: "cstr list \<Rightarrow> nat" where
  "spent cs = sum_list (map (\<lambda>c. length c + 1) cs)"

lemma spent_simps [simp]: "spent [] = 0" "spent (c # cs) = length c + 1 + spent cs" "spent (xs @ ys) = spent xs + spent ys"
  by (simp_all add: spent_def)

lemma abs_path_Nil: "abs_path [] = ''/''"
  by (simp add: abs_path_def)

lemma length_abs: "length (abs_path cs) = (if cs = [] then 1 else spent cs)"
proof -
  have "length (concat (map (\<lambda>c. CHR ''/'' # c) cs)) = spent cs" by (induction cs) simp_all
  then show ?thesis by (simp add: abs_path_def)
qed

lemma spent_butlast: "spent (butlast cs) \<le> spent cs"
  by (cases cs rule: rev_cases) simp_all

lemma spent_filter: "spent (filter P cs) \<le> spent cs"
  by (induction cs) auto

lemma spent_take: "spent (take n cs) \<le> spent cs"
  by (metis append_take_drop_id le_add1 spent_simps(3))

lemma spent_norm: "spent (fold norm_step xs cs) \<le> spent cs + spent xs"
proof (induction xs arbitrary: cs)
  case (Cons x xs)
  have "spent (norm_step x cs) \<le> spent cs + length x + 1" using spent_butlast [of cs] by (simp add: norm_step_def)
  then show ?case using Cons [of "norm_step x cs"] by simp
qed simp

lemma pieces_Nil: "pieces [] = []"
  by (subst pieces.simps) simp

lemma spent_pieces: "spent (pieces s) \<le> length s + 1"
proof (induction s rule: pieces.induct)
  case (1 s)
  have l: "length (takeWhile (\<lambda>c. \<not> slash c) s) + length (dropWhile (\<lambda>c. \<not> slash c) s) = length s"
    by (metis length_append takeWhile_dropWhile_id)
  show ?case
  proof (cases "drop 1 (dropWhile (\<lambda>c. \<not> slash c) s) = []")
    case True
    then have "pieces s = (if s = [] then [] else [takeWhile (\<lambda>c. \<not> slash c) s])" by (subst pieces.simps) (simp add: pieces_Nil)
    then show ?thesis using l by simp
  next
    case False
    then have "length (drop 1 (dropWhile (\<lambda>c. \<not> slash c) s)) + 1 = length (dropWhile (\<lambda>c. \<not> slash c) s)" by (simp add: not_less_eq_eq)
    moreover have "s \<noteq> []" using False by auto
    moreover from this have "pieces s = takeWhile (\<lambda>c. \<not> slash c) s # pieces (drop 1 (dropWhile (\<lambda>c. \<not> slash c) s))" by (subst pieces.simps) simp
    ultimately show ?thesis using 1 l by simp
  qed
qed

lemma spent_toks: "spent (strtok_slash s) \<le> length s + 1"
  unfolding pieces_toks using spent_filter spent_pieces le_trans by blast

lemma spent_toks_abs: "take 1 p = ''/'' \<Longrightarrow> spent (strtok_slash p) \<le> length p"
  using spent_toks by (cases p) (simp_all add: toks_slash)

text \<open>No store of the two routines leaves the buffer they ask for: after any number of components the string and its final zero fit into
  the \<^verbatim>\<open>length + 2\<close> bytes of \<^verbatim>\<open>normalize_absolute\<close>, and into the \<^verbatim>\<open>root_len + relative_len + 2\<close> bytes of
  \<^verbatim>\<open>join_relative\<close>, whose root is a normalised path.\<close>

lemma path_buffers_hold:
  assumes "take 1 path = ''/''" "clean_names rs"
  shows "length (fold normalize_part (take n (strtok_slash path)) ''/'') + 1 \<le> length path + 2 \<and>
    length (fold join_piece (take n (pieces relative)) (abs_path rs)) + 1 \<le> length (abs_path rs) + length relative + 2"
proof
  let ?xs = "take n (strtok_slash path)"
  have "fold normalize_part ?xs ''/'' = abs_path (fold norm_step ?xs [])"
    using fold_normalize [of ?xs "[]"] toks_ok [of _ path] in_set_takeD [of _ n "strtok_slash path"] by (simp add: clean_names_def abs_path_Nil)
  moreover have "spent (fold norm_step ?xs []) \<le> length path"
    using spent_norm [of ?xs "[]"] spent_take [of n "strtok_slash path"] spent_toks_abs [OF assms(1)] by simp
  ultimately show "length (fold normalize_part ?xs ''/'') + 1 \<le> length path + 2"
    by (simp add: length_abs)
  let ?ys = "filter (\<lambda>c. c \<noteq> [] \<and> c \<noteq> ''.'') (take n (pieces relative))"
  have "fold join_piece (take n (pieces relative)) (abs_path rs) = abs_path (rs @ ?ys)"
    by (rule join_pieces) (use assms(2) pieces_ok [of _ relative] in \<open>auto simp: clean_names_def dest: in_set_takeD\<close>)
  moreover have "spent ?ys \<le> length relative + 1"
    using spent_filter [of _ "take n (pieces relative)"] spent_take [of n "pieces relative"] spent_pieces [of relative] le_trans by blast
  ultimately show "length (fold join_piece (take n (pieces relative)) (abs_path rs)) + 1 \<le> length (abs_path rs) + length relative + 2"
    by (simp add: length_abs)
qed

section \<open>Names\<close>

lemma abs_path_slash: "take 1 (abs_path cs) = ''/''"
  by (cases cs) (simp_all add: abs_path_def)

lemma normalize_absolute_result:
  assumes "normalize_absolute k (Some p) st = (Some out, st')"
  shows "take 1 p = ''/'' \<and> out = abs_path (norm_names (strtok_slash p))"
  using assms by (auto simp: normalize_absolute_def fail_with_def normalize_toks Let_def split: if_splits prod.splits)

text \<open>A normalised path is the sequence of the components of the given one, with \<^verbatim>\<open>.\<close> left out and \<^verbatim>\<open>..\<close> taking the
  component before it away, none at the root; each component is a name, and normalising the result again changes nothing.\<close>

lemma normalize_absolute_correct:
  assumes "normalize_absolute k (Some p) st = (Some out, st')"
  shows "out = abs_path (norm_names (strtok_slash p)) \<and> strtok_slash out = norm_names (strtok_slash p) \<and> clean_names (strtok_slash out) \<and>
    fst (normalize_absolute k' (Some out) st2) \<in> {None, Some out}"
proof -
  let ?cs = "norm_names (strtok_slash p)"
  have out: "out = abs_path ?cs" using normalize_absolute_result [OF assms] by blast
  have c: "clean_names ?cs" by (rule norm_names_clean)
  then have t: "strtok_slash out = ?cs" using out toks_abs_path [of ?cs] by (simp add: clean_names_def)
  have "fst (normalize_absolute k' (Some out) st2) \<in> {None, Some out}"
    using normalize_absolute_result [of k' out st2] t norm_clean_id [OF c] out
    by (cases "normalize_absolute k' (Some out) st2"; cases "fst (normalize_absolute k' (Some out) st2)") auto
  then show ?thesis using out t c by simp
qed

lemma toks_clean: "clean_names cs \<Longrightarrow> strtok_slash (abs_path cs) = cs"
  by (simp add: clean_names_def toks_abs_path)

lemma sys_alloc_ok: "k_fail k = (\<lambda>_. None) \<Longrightarrow> fst (sys_alloc k st) = Some ()"
  by (simp add: sys_alloc_def sys_def Let_def)

text \<open>C32: The name of a file of the game below a root: it is granted, when memory is, exactly for a name that is not absolute and has no
  component \<^verbatim>\<open>..\<close>, and it is the root followed by the components that are not \<^verbatim>\<open>.\<close>, so it never leads out of the root by its
  spelling.\<close>

theorem data_names_stay_below:
  assumes "data_dir paths = Some (abs_path rs)" "clean_names rs" "length (abs_path rs) + length relative + 2 \<le> SIZE_MAX64"
  shows "(case fst (sword3_paths_data k (Some paths) (Some relative) st) of
      Some out \<Rightarrow> out = abs_path (rs @ filter (\<lambda>c. c \<noteq> ''.'') (strtok_slash relative)) \<and>
        strtok_slash out = rs @ filter (\<lambda>c. c \<noteq> ''.'') (strtok_slash relative) \<and> clean_names (strtok_slash out)
    | None \<Rightarrow> k_fail k = (\<lambda>_. None) \<longrightarrow> take 1 relative = ''/'' \<or> ''..'' \<in> set (strtok_slash relative)) \<and>
     (take 1 relative = ''/'' \<or> ''..'' \<in> set (strtok_slash relative) \<longrightarrow> sword3_paths_data k (Some paths) (Some relative) st =
      (None, st\<lparr>ps_errno := if take 1 relative = ''/'' then E_INVAL else E_PERM\<rparr>))"
proof
  let ?cs = "rs @ filter (\<lambda>c. c \<noteq> ''.'') (strtok_slash relative)"
  show bad: "take 1 relative = ''/'' \<or> ''..'' \<in> set (strtok_slash relative) \<longrightarrow> sword3_paths_data k (Some paths) (Some relative) st =
      (None, st\<lparr>ps_errno := if take 1 relative = ''/'' then E_INVAL else E_PERM\<rparr>)"
    using assms(1) by (auto simp: sword3_paths_data_def join_relative_def fail_with_def dotdot_pieces)
  show "(case fst (sword3_paths_data k (Some paths) (Some relative) st) of
      Some out \<Rightarrow> out = abs_path ?cs \<and> strtok_slash out = ?cs \<and> clean_names (strtok_slash out)
    | None \<Rightarrow> k_fail k = (\<lambda>_. None) \<longrightarrow> take 1 relative = ''/'' \<or> ''..'' \<in> set (strtok_slash relative))"
  proof (cases "take 1 relative = ''/'' \<or> ''..'' \<in> set (strtok_slash relative)")
    case True
    then show ?thesis using bad by simp
  next
    case False
    then have c: "clean_names ?cs" using assms(2) toks_ok [of _ relative] by (auto simp: clean_names_def)
    have "sword3_paths_data k (Some paths) (Some relative) st = (let (joined, st) = sys_alloc k st in
        if joined = None then fail_with E_NOMEM st else (Some (fold join_piece (pieces relative) (abs_path rs)), st))"
      using False assms by (auto simp: sword3_paths_data_def join_relative_def dotdot_pieces)
    then have "fst (sword3_paths_data k (Some paths) (Some relative) st) = (if fst (sys_alloc k st) = None then None else Some (abs_path ?cs))"
      unfolding joined [OF assms(2)] by (cases "sys_alloc k st") (simp add: fail_with_def)
    moreover have "strtok_slash (abs_path ?cs) = ?cs" by (rule toks_clean [OF c])
    ultimately show ?thesis using c sys_alloc_ok [of k st] by (cases "fst (sys_alloc k st)") auto
  qed
qed

end
