(* ===== verification/Paths_Disk.thy ===== *)
theory Paths_Disk
  imports Paths_Names
begin

text \<open>What each call does to the disk and to the open descriptors, how the disks of one run are related, and the way to the directory a
  file is replaced in.\<close>

section \<open>Effects of calls\<close>

text \<open>A call that changes neither disk nor descriptors.\<close>

definition quiet :: "posix \<Rightarrow> posix \<Rightarrow> bool" where
  "quiet st st' \<longleftrightarrow> ps_nodes st' = ps_nodes st \<and> ps_next st' = ps_next st \<and> ps_fds st' = ps_fds st \<and>
     ps_history st' = ps_history st @ [ps_nodes st]"

lemma sys_cases:
  assumes "sys k f st = (r, st')"
  obtains (refused) "r = None" "quiet st st'"
  | (granted) a st1 where "r = Some a" "f (st\<lparr>ps_calls := ps_calls st + 1\<rparr>) = Inr (a, st1)"
      "st' = st1\<lparr>ps_history := ps_history st1 @ [ps_nodes st1]\<rparr>"
proof (cases "k_fail k (ps_calls st)")
  case None
  show ?thesis
  proof (cases "f (st\<lparr>ps_calls := ps_calls st + 1\<rparr>)")
    case (Inl e)
    then show ?thesis using assms None refused by (auto simp: sys_def Let_def quiet_def)
  next
    case (Inr x)
    then show ?thesis using assms None by (cases x) (auto simp: sys_def Let_def intro: that(2))
  qed
qed (use assms refused in \<open>auto simp: sys_def Let_def quiet_def\<close>)

lemma sys_alloc_quiet: "sys_alloc k st = (r, st') \<Longrightarrow> quiet st st'"
  unfolding sys_alloc_def by (elim sys_cases) (auto simp: quiet_def)

lemma sys_fsync_quiet: "sys_fsync k fd st = (r, st') \<Longrightarrow> quiet st st'"
  unfolding sys_fsync_def by (elim sys_cases) (auto simp: quiet_def split: if_splits)

text \<open>A call that only closes a descriptor.\<close>

definition closed_fd :: "nat \<Rightarrow> posix \<Rightarrow> posix \<Rightarrow> bool" where
  "closed_fd fd st st' \<longleftrightarrow> ps_nodes st' = ps_nodes st \<and> ps_next st' = ps_next st \<and>
     ps_fds st' = filter (\<lambda>p. fst p \<noteq> fd) (ps_fds st) \<and> ps_history st' = ps_history st @ [ps_nodes st]"

lemma sys_close_closed: "sys_close k fd st = (r, st') \<Longrightarrow> closed_fd fd st st'"
proof -
  assume c: "sys_close k fd st = (r, st')"
  obtain s where s: "sys k (\<lambda>st. Inr ((), st)) st = (r, s)" "st' = s\<lparr>ps_fds := filter (\<lambda>p. fst p \<noteq> fd) (ps_fds s)\<rparr>"
    using c by (auto simp: sys_close_def Let_def split: prod.splits)
  from s(1) have "quiet st s" by (elim sys_cases) (auto simp: quiet_def)
  then show ?thesis using s(2) by (simp add: quiet_def closed_fd_def)
qed

lemma close_keep_closed: "closed_fd fd st (close_keep k fd st)"
  using sys_close_closed [of k fd st "fst (sys_close k fd st)" "snd (sys_close k fd st)"] by (simp add: close_keep_def closed_fd_def)

lemma snd_close_closed: "closed_fd fd st (snd (sys_close k fd st))"
  using sys_close_closed [of k fd st "fst (sys_close k fd st)" "snd (sys_close k fd st)"] by simp

lemma lowest_fresh: "lowest n used \<notin> set used \<and> n \<le> lowest n used"
proof (induction n used rule: lowest.induct)
  case (1 n used)
  show ?case
  proof (cases "n \<in> set used")
    case True
    then have "lowest n used = lowest (n + 1) (removeAll n used)" by (subst lowest.simps) simp
    then show ?thesis using 1 [OF True] by auto
  next
    case False
    then have "lowest n used = n" by (subst lowest.simps) simp
    then show ?thesis using False by simp
  qed
qed

text \<open>A call that opens a descriptor of a node.\<close>

definition opened_fd :: "nat \<Rightarrow> nat \<Rightarrow> posix \<Rightarrow> posix \<Rightarrow> bool" where
  "opened_fd fd i st st' \<longleftrightarrow> ps_nodes st' = ps_nodes st \<and> ps_next st' = ps_next st \<and> ps_fds st' = (fd, i) # ps_fds st \<and>
     fd \<notin> fst ` set (ps_fds st) \<and> ps_history st' = ps_history st @ [ps_nodes st]"

lemma new_fd_fresh: "new_fd low i st = (fd, st') \<Longrightarrow> fd \<notin> fst ` set (ps_fds st) \<and> low \<le> fd \<and> st' = st\<lparr>ps_fds := (fd, i) # ps_fds st\<rparr>"
  using lowest_fresh [of low "map fst (ps_fds st)"] by (auto simp: new_fd_def Let_def)

lemma sys_dup3_effect:
  assumes "sys_dup3 k fd st = (r, st')" "map_of (ps_fds st) fd = Some i"
  shows "case r of None \<Rightarrow> quiet st st' | Some fd' \<Rightarrow> opened_fd fd' i st st' \<and> 3 \<le> fd'"
  using assms(1) unfolding sys_dup3_def
proof (cases rule: sys_cases)
  case (granted a st1)
  then show ?thesis using assms(2) new_fd_fresh [of 3 i "st\<lparr>ps_calls := ps_calls st + 1\<rparr>" a st1] by (auto simp: opened_fd_def)
qed simp

text \<open>Calls in an open directory.\<close>

lemma in_dir_cases:
  assumes "in_dir k fd f st = (r, st')" "map_of (ps_fds st) fd = Some d" "ps_nodes st d = Some (Dir up es)"
  obtains (refused) "r = None" "quiet st st'"
  | (granted) a st1 where "r = Some a" "f d up es (st\<lparr>ps_calls := ps_calls st + 1\<rparr>) = Inr (a, st1)"
      "st' = st1\<lparr>ps_history := ps_history st1 @ [ps_nodes st1]\<rparr>"
  using assms(1) unfolding in_dir_def
proof (cases rule: sys_cases)
  case (granted a st1)
  then show ?thesis using assms(2,3) that(2) by simp
qed (use that(1) in simp)

text \<open>A call that replaces the entries of one directory, and may add a node.\<close>

definition entries_set :: "nat \<Rightarrow> nat \<Rightarrow> (cstr \<rightharpoonup> nat) \<Rightarrow> posix \<Rightarrow> posix \<Rightarrow> bool" where
  "entries_set d up es st st' \<longleftrightarrow> ps_nodes st' = (ps_nodes st)(d \<mapsto> Dir up es) \<and> ps_next st' = ps_next st \<and> ps_fds st' = ps_fds st \<and>
     ps_history st' = ps_history st @ [ps_nodes st']"

lemma sys_mkdirat_effect:
  assumes "sys_mkdirat k fd name st = (r, st')" "map_of (ps_fds st) fd = Some d" "ps_nodes st d = Some (Dir up es)"
  shows "case r of None \<Rightarrow> quiet st st'
    | Some _ \<Rightarrow> es name = None \<and> ps_nodes st' = (ps_nodes st)(ps_next st \<mapsto> Dir d Map.empty, d \<mapsto> Dir up (es(name \<mapsto> ps_next st))) \<and>
        ps_next st' = ps_next st + 1 \<and> ps_fds st' = ps_fds st \<and> ps_history st' = ps_history st @ [ps_nodes st']"
  using assms unfolding sys_mkdirat_def
  by (elim in_dir_cases) (auto simp: new_node_def set_node_def split: if_splits)

lemma sys_openat_effect:
  assumes "sys_openat_dir k fd name st = (r, st')" "map_of (ps_fds st) fd = Some d" "ps_nodes st d = Some (Dir up es)"
  shows "case r of None \<Rightarrow> quiet st st'
    | Some c \<Rightarrow> \<exists>i up' es'. es name = Some i \<and> ps_nodes st i = Some (Dir up' es') \<and> opened_fd c i st st'"
  using assms unfolding sys_openat_dir_def
proof (cases rule: in_dir_cases)
  case (granted c st1)
  then obtain i up' es' where "es name = Some i" "ps_nodes st i = Some (Dir up' es')" "new_fd 0 i (st\<lparr>ps_calls := ps_calls st + 1\<rparr>) = (c, st1)"
    by (auto split: option.splits inode.splits)
  then show ?thesis using granted new_fd_fresh [of 0 i "st\<lparr>ps_calls := ps_calls st + 1\<rparr>" c st1] by (auto simp: opened_fd_def)
qed simp

lemma sys_create_effect:
  assumes "sys_create k fd name mode st = (r, st')" "map_of (ps_fds st) fd = Some d" "ps_nodes st d = Some (Dir up es)"
  shows "case r of None \<Rightarrow> quiet st st'
    | Some c \<Rightarrow> es name = None \<and> ps_nodes st' = (ps_nodes st)(ps_next st \<mapsto> Regular [] mode, d \<mapsto> Dir up (es(name \<mapsto> ps_next st))) \<and>
        ps_next st' = ps_next st + 1 \<and> ps_fds st' = (c, ps_next st) # ps_fds st \<and> c \<notin> fst ` set (ps_fds st) \<and>
        ps_history st' = ps_history st @ [ps_nodes st']"
  using assms unfolding sys_create_def
proof (cases rule: in_dir_cases)
  case (granted c st1)
  then obtain s where "es name = None" "s = set_node d (Dir up (es(name \<mapsto> ps_next st))) (snd (new_node (Regular [] mode) (st\<lparr>ps_calls := ps_calls st + 1\<rparr>)))"
      "new_fd 0 (ps_next st) s = (c, st1)"
    by (auto simp: new_node_def split: if_splits)
  then show ?thesis using granted new_fd_fresh [of 0 "ps_next st" s c st1] by (auto simp: new_node_def set_node_def)
qed simp

definition is_dir :: "inodes \<Rightarrow> nat \<Rightarrow> bool" where
  "is_dir N i \<longleftrightarrow> (\<exists>up es. N i = Some (Dir up es))"

lemma sys_rename_effect:
  assumes "sys_rename k fd old new st = (r, st')" "map_of (ps_fds st) fd = Some d" "ps_nodes st d = Some (Dir up es)"
  shows "case r of None \<Rightarrow> quiet st st'
    | Some _ \<Rightarrow> \<exists>i. es old = Some i \<and> (\<forall>j. es new = Some j \<longrightarrow> \<not> is_dir (ps_nodes st) j) \<and>
        entries_set d up ((es(old := None))(new \<mapsto> i)) st st'"
  using assms unfolding sys_rename_def
  by (elim in_dir_cases) (auto simp: set_node_def entries_set_def is_dir_def split: option.splits if_splits inode.splits)

lemma sys_unlink_effect:
  assumes "sys_unlink k fd name st = (r, st')" "map_of (ps_fds st) fd = Some d" "ps_nodes st d = Some (Dir up es)"
  shows "case r of None \<Rightarrow> quiet st st'
    | Some _ \<Rightarrow> \<exists>i. es name = Some i \<and> \<not> is_dir (ps_nodes st) i \<and> entries_set d up (es(name := None)) st st'"
  using assms unfolding sys_unlink_def
  by (elim in_dir_cases) (auto simp: set_node_def entries_set_def is_dir_def split: option.splits inode.splits)

text \<open>Calls on the temporary file.\<close>

definition file_set :: "nat \<Rightarrow> u8 list \<Rightarrow> nat \<Rightarrow> posix \<Rightarrow> posix \<Rightarrow> bool" where
  "file_set i bs mode st st' \<longleftrightarrow> ps_nodes st' = (ps_nodes st)(i \<mapsto> Regular bs mode) \<and> ps_next st' = ps_next st \<and> ps_fds st' = ps_fds st \<and>
     ps_history st' = ps_history st @ [ps_nodes st']"

lemma sys_fchmod_effect:
  assumes "sys_fchmod k fd mode st = (r, st')" "map_of (ps_fds st) fd = Some i" "ps_nodes st i = Some (Regular bs m)"
  shows "case r of None \<Rightarrow> quiet st st' | Some _ \<Rightarrow> file_set i bs mode st st'"
  using assms unfolding sys_fchmod_def on_file_def by (elim sys_cases) (auto simp: set_node_def file_set_def)

lemma sys_write_effect:
  assumes "sys_write k fd data st = (r, st')" "map_of (ps_fds st) fd = Some i" "ps_nodes st i = Some (Regular bs m)"
  shows "case r of None \<Rightarrow> quiet st st' | Some n \<Rightarrow> n \<le> length data \<and> file_set i (bs @ take n data) m st st'"
  using assms unfolding sys_write_def on_file_def by (elim sys_cases) (auto simp: set_node_def file_set_def Let_def)

section \<open>Files by their names\<close>

fun plain_walk :: "inodes \<Rightarrow> nat \<Rightarrow> cstr list \<Rightarrow> nat option" where
  "plain_walk N d [] = Some d"
| "plain_walk N d (c # cs) =
    (case N d of Some (Dir up es) \<Rightarrow> (case es c of Some i \<Rightarrow> plain_walk N i cs | None \<Rightarrow> None) | _ \<Rightarrow> None)"

definition content :: "inodes \<Rightarrow> nat \<Rightarrow> cstr list \<Rightarrow> u8 list option" where
  "content N d q =
    (case plain_walk N d q of Some i \<Rightarrow> (case N i of Some (Regular bs m) \<Rightarrow> Some bs | _ \<Rightarrow> None) | None \<Rightarrow> None)"

lemma plain_walk_append:
  "plain_walk N d (xs @ ys) = (case plain_walk N d xs of Some i \<Rightarrow> plain_walk N i ys | None \<Rightarrow> None)"
  by (induction xs arbitrary: d) (auto split: option.splits inode.splits)

definition files_kept :: "inodes \<Rightarrow> inodes \<Rightarrow> bool" where
  "files_kept N N' \<longleftrightarrow> (\<forall>i bs m. N i = Some (Regular bs m) \<longrightarrow> N' i = Some (Regular bs m))"

definition disk_ok :: "posix \<Rightarrow> bool" where
  "disk_ok st \<longleftrightarrow> (\<forall>i \<ge> ps_next st. ps_nodes st i = None) \<and>
     (\<forall>d up es n i. ps_nodes st d = Some (Dir up es) \<longrightarrow> es n = Some i \<longrightarrow> ps_nodes st i \<noteq> None)"

lemma disk_okD:
  "disk_ok st \<Longrightarrow> ps_nodes st (ps_next st) = None"
  "disk_ok st \<Longrightarrow> ps_nodes st d = Some (Dir up es) \<Longrightarrow> es n = Some i \<Longrightarrow> ps_nodes st i \<noteq> None"
  by (auto simp: disk_ok_def)

lemma disk_ok_cong: "ps_nodes st' = ps_nodes st \<Longrightarrow> ps_next st' = ps_next st \<Longrightarrow> disk_ok st' = disk_ok st"
  by (simp add: disk_ok_def)

section \<open>Disks with more directories\<close>

definition grown :: "inodes \<Rightarrow> inodes \<Rightarrow> bool" where
  "grown N N' \<longleftrightarrow>
    (\<forall>i x. N i = Some x \<longrightarrow> (case x of
       Dir up es \<Rightarrow> \<exists>es'. N' i = Some (Dir up es') \<and> (\<forall>n. es' n = es n \<or> es n = None \<and> (\<exists>j. es' n = Some j \<and> N j = None))
     | _ \<Rightarrow> N' i = Some x)) \<and>
    (\<forall>i x. N i = None \<longrightarrow> N' i = Some x \<longrightarrow> (\<exists>up es. x = Dir up es \<and> (\<forall>n j. es n = Some j \<longrightarrow> N j = None)))"

lemma grown_refl: "grown N N"
  by (auto simp: grown_def split: inode.split)

lemma grownD:
  assumes "grown N N'"
  shows "N i = Some (Dir up es) \<Longrightarrow> \<exists>es'. N' i = Some (Dir up es') \<and> (\<forall>n. es' n = es n \<or> es n = None \<and> (\<exists>j. es' n = Some j \<and> N j = None))"
    "N i = Some (Regular bs m) \<Longrightarrow> N' i = Some (Regular bs m)" "N i = Some (Symlink t) \<Longrightarrow> N' i = Some (Symlink t)"
    "N i = None \<Longrightarrow> N' i = Some x \<Longrightarrow> \<exists>up es. x = Dir up es \<and> (\<forall>n j. es n = Some j \<longrightarrow> N j = None)"
proof -
  have a: "case x of
       Dir up es \<Rightarrow> \<exists>es'. N' i = Some (Dir up es') \<and> (\<forall>n. es' n = es n \<or> es n = None \<and> (\<exists>j. es' n = Some j \<and> N j = None))
     | _ \<Rightarrow> N' i = Some x" if "N i = Some x" for x
    using assms that unfolding grown_def by blast
  show "N i = Some (Dir up es) \<Longrightarrow> \<exists>es'. N' i = Some (Dir up es') \<and> (\<forall>n. es' n = es n \<or> es n = None \<and> (\<exists>j. es' n = Some j \<and> N j = None))"
    "N i = Some (Regular bs m) \<Longrightarrow> N' i = Some (Regular bs m)" "N i = Some (Symlink t) \<Longrightarrow> N' i = Some (Symlink t)"
    by (drule a, simp)+
  show "N i = None \<Longrightarrow> N' i = Some x \<Longrightarrow> \<exists>up es. x = Dir up es \<and> (\<forall>n j. es n = Some j \<longrightarrow> N j = None)"
    using assms unfolding grown_def by blast
qed

lemma grown_dom: "grown N N' \<Longrightarrow> N' i = None \<Longrightarrow> N i = None"
  by (metis grownD(1,2,3) inode.exhaust option.exhaust option.simps(3))

lemma grown_add_dir:
  assumes "grown N N'" "N' d = Some (Dir up es)" "es name = None" "N' i = None"
  shows "grown N (N'(i \<mapsto> Dir d Map.empty, d \<mapsto> Dir up (es(name \<mapsto> i))))"
proof -
  have i: "N i = None" "i \<noteq> d" using grown_dom [OF assms(1,4)] assms(2,4) by auto
  show ?thesis unfolding grown_def
  proof (intro conjI allI impI)
    fix j x assume j: "N j = Some x"
    then have "j \<noteq> i" using i by auto
    show "case x of Dir up' es' \<Rightarrow> \<exists>es''. (N'(i \<mapsto> Dir d Map.empty, d \<mapsto> Dir up (es(name \<mapsto> i)))) j = Some (Dir up' es'') \<and>
        (\<forall>n. es'' n = es' n \<or> es' n = None \<and> (\<exists>j. es'' n = Some j \<and> N j = None))
      | _ \<Rightarrow> (N'(i \<mapsto> Dir d Map.empty, d \<mapsto> Dir up (es(name \<mapsto> i)))) j = Some x"
    proof (cases "j = d")
      case True
      then obtain es0 where "x = Dir up es0" "\<forall>n. es n = es0 n \<or> es0 n = None \<and> (\<exists>j. es n = Some j \<and> N j = None)"
        using j assms(2) grownD [OF assms(1), of d] by (cases x) fastforce+
      moreover from this have "es0 name = None" using assms(3) by (metis option.discI)
      ultimately show ?thesis using True i by (auto intro!: exI [of _ "es(name \<mapsto> i)"])
    next
      case False
      then have eq: "(N'(i \<mapsto> Dir d Map.empty, d \<mapsto> Dir up (es(name \<mapsto> i)))) j = N' j" using \<open>j \<noteq> i\<close> by simp
      show ?thesis unfolding eq using j assms(1) unfolding grown_def by blast
    qed
  next
    fix j x assume j: "N j = None" "(N'(i \<mapsto> Dir d Map.empty, d \<mapsto> Dir up (es(name \<mapsto> i)))) j = Some x"
    show "\<exists>up es. x = Dir up es \<and> (\<forall>n j. es n = Some j \<longrightarrow> N j = None)"
    proof (cases "j = d \<or> j = i")
      case True
      then show ?thesis using j i grownD(4) [OF assms(1), of d "Dir up es"] assms(2) by auto
    next
      case False
      then show ?thesis using j grownD(4) [OF assms(1), of j x] by simp
    qed
  qed
qed

lemma grown_files: "grown N N' \<Longrightarrow> files_kept N N'"
  by (simp add: files_kept_def grownD(2))

lemma grown_new: "grown N N' \<Longrightarrow> N d = None \<Longrightarrow> plain_walk N' d q = Some i \<Longrightarrow> N i = None"
proof (induction q arbitrary: d)
  case (Cons c q)
  then obtain up es j where j: "N' d = Some (Dir up es)" "es c = Some j" "plain_walk N' j q = Some i"
    by (auto split: option.splits inode.splits)
  then have "N j = None" using grownD(4) [OF Cons.prems(1,2)] by auto
  then show ?case using Cons.IH [OF Cons.prems(1)] j(3) by blast
qed simp

lemma content_new: "grown N N' \<Longrightarrow> N d = None \<Longrightarrow> content N' d q = None"
proof (cases "plain_walk N' d q")
  case (Some i)
  assume g: "grown N N'" "N d = None"
  have "N' i \<noteq> Some (Regular bs m)" for bs m using grownD(4) [OF g(1) grown_new [OF g Some]] by blast
  then show ?thesis using Some by (auto simp: content_def split: option.splits inode.splits)
qed (simp add: content_def)

lemma grown_content: "grown N N' \<Longrightarrow> content N' d q = content N d q"
proof (induction q arbitrary: d)
  case Nil
  then show ?case using grownD(1-3) [OF Nil] grownD(4) [OF Nil, of d]
    by (cases "N d"; cases "the (N d)") (fastforce simp: content_def split: option.splits inode.splits)+
next
  case (Cons c q)
  have step: "content M e (c # q) = (case M e of Some (Dir up es) \<Rightarrow> (case es c of Some i \<Rightarrow> content M i q | None \<Rightarrow> None) | _ \<Rightarrow> None)" for M e
    by (auto simp: content_def split: option.splits inode.splits)
  show ?case
  proof (cases "N d")
    case None
    then show ?thesis using content_new [OF Cons.prems None, of "c # q"] by (simp add: step)
  next
    case (Some x)
    show ?thesis
    proof (cases x)
      case (Dir up es)
      then obtain es' where "N' d = Some (Dir up es')" "es' c = es c \<or> es c = None \<and> (\<exists>j. es' c = Some j \<and> N j = None)"
        using grownD(1) [OF Cons.prems, of d up es] Some by blast
      moreover have "content N j q = None" if "N j = None" for j
        using content_new [OF Cons.prems that, of q] Cons.IH [OF Cons.prems, of j] by simp
      ultimately show ?thesis using Some Dir Cons.IH [OF Cons.prems] by (auto simp: step split: option.splits)
    qed (use Some grownD(2,3) [OF Cons.prems] in \<open>simp_all add: step\<close>)
  qed
qed

text \<open>Entries are only added.\<close>

definition entries_le :: "inodes \<Rightarrow> inodes \<Rightarrow> bool" where
  "entries_le N N' \<longleftrightarrow> (\<forall>d up es. N d = Some (Dir up es) \<longrightarrow> (\<exists>es'. N' d = Some (Dir up es') \<and> es \<subseteq>\<^sub>m es'))"

lemma entries_le_refl [simp]: "entries_le N N"
  by (simp add: entries_le_def)

lemma entries_le_trans: "entries_le N N1 \<Longrightarrow> entries_le N1 N' \<Longrightarrow> entries_le N N'"
  unfolding entries_le_def by (meson map_le_trans)

lemma entries_le_walk: "entries_le N N' \<Longrightarrow> plain_walk N d q = Some i \<Longrightarrow> plain_walk N' d q = Some i"
proof (induction q arbitrary: d)
  case (Cons c q)
  then obtain up es j where j: "N d = Some (Dir up es)" "es c = Some j" "plain_walk N j q = Some i"
    by (auto split: option.splits inode.splits)
  then obtain es' where "N' d = Some (Dir up es')" "es \<subseteq>\<^sub>m es'" using Cons.prems(1) unfolding entries_le_def by blast
  then have "es' c = Some j" using j(2) by (metis domI map_le_def)
  then show ?case using Cons.IH [OF Cons.prems(1) j(3)] \<open>N' d = Some (Dir up es')\<close> by simp
qed simp

section \<open>Histories\<close>

definition throughout :: "(inodes \<Rightarrow> bool) \<Rightarrow> posix \<Rightarrow> posix \<Rightarrow> bool" where
  "throughout P st st' \<longleftrightarrow> (\<exists>hs. ps_history st' = ps_history st @ hs \<and> (\<forall>N \<in> set hs. P N))"

lemma throughout_refl: "ps_history st' = ps_history st \<Longrightarrow> throughout P st st'"
  by (simp add: throughout_def)

lemma throughout_one: "ps_history st' = ps_history st @ [N] \<Longrightarrow> P N \<Longrightarrow> throughout P st st'"
  by (simp add: throughout_def)

lemma throughout_trans: "throughout P st st1 \<Longrightarrow> throughout P st1 st' \<Longrightarrow> throughout P st st'"
  unfolding throughout_def by (metis Un_iff append_assoc set_append)

lemma throughout_mono: "throughout P st st' \<Longrightarrow> (\<And>N. P N \<Longrightarrow> Q N) \<Longrightarrow> throughout Q st st'"
  unfolding throughout_def by blast

section \<open>The way to the directory\<close>

text \<open>The state on the way: one descriptor besides those that were open before, for a directory.\<close>

definition at_dir :: "inodes \<Rightarrow> (nat \<times> nat) list \<Rightarrow> nat \<Rightarrow> nat \<Rightarrow> posix \<Rightarrow> bool" where
  "at_dir N0 F fd d st \<longleftrightarrow> disk_ok st \<and> grown N0 (ps_nodes st) \<and> ps_fds st = (fd, d) # F \<and> fd \<notin> fst ` set F \<and> is_dir (ps_nodes st) d"

lemma filter_fds: "fd \<notin> fst ` set F \<Longrightarrow> filter (\<lambda>p. fst p \<noteq> fd) F = F"
  by (auto simp: filter_id_conv)

lemma at_dir_close: "at_dir N0 F fd d st \<Longrightarrow> closed_fd fd st st' \<Longrightarrow> ps_fds st' = F \<and> disk_ok st' \<and> grown N0 (ps_nodes st') \<and> throughout (grown N0) st st'"
  by (auto simp: at_dir_def closed_fd_def filter_fds disk_ok_def intro: throughout_one)

lemma at_dir_quiet: "at_dir N0 F fd d st \<Longrightarrow> quiet st st' \<Longrightarrow> at_dir N0 F fd d st' \<and> throughout (grown N0) st st'"
  by (auto simp: at_dir_def quiet_def disk_ok_def intro: throughout_one)

lemma at_dir_errno: "at_dir N0 F fd d (st\<lparr>ps_errno := e\<rparr>) = at_dir N0 F fd d st"
  by (simp add: at_dir_def disk_ok_def)

lemma at_dir_mkdir:
  assumes "at_dir N0 F fd d st" "sys_mkdirat k fd name st = (r, st')"
  shows "at_dir N0 F fd d st' \<and> entries_le (ps_nodes st) (ps_nodes st') \<and> throughout (grown N0) st st'"
proof -
  obtain up es where d: "map_of (ps_fds st) fd = Some d" "ps_nodes st d = Some (Dir up es)" using assms(1) by (auto simp: at_dir_def is_dir_def)
  note e = sys_mkdirat_effect [OF assms(2) d]
  show ?thesis
  proof (cases r)
    case None
    then have q: "quiet st st'" using e by simp
    then have "ps_nodes st' = ps_nodes st" by (simp add: quiet_def)
    then show ?thesis using at_dir_quiet [OF assms(1) q] by simp
  next
    case (Some u)
    then have m: "es name = None" "ps_nodes st' = (ps_nodes st)(ps_next st \<mapsto> Dir d Map.empty, d \<mapsto> Dir up (es(name \<mapsto> ps_next st)))"
      "ps_next st' = ps_next st + 1" "ps_fds st' = ps_fds st" "ps_history st' = ps_history st @ [ps_nodes st']" using e by auto
    have ok: "disk_ok st" "grown N0 (ps_nodes st)" using assms(1) by (auto simp: at_dir_def)
    have g: "grown N0 (ps_nodes st')" unfolding m(2) by (rule grown_add_dir [OF ok(2) d(2) m(1) disk_okD(1) [OF ok(1)]])
    moreover have "disk_ok st'" using ok(1) d(2) unfolding disk_ok_def m(2,3) by (auto split: if_splits)
    moreover have "entries_le (ps_nodes st) (ps_nodes st')"
      using disk_okD(1) [OF ok(1)] d(2) m(1) unfolding m(2) by (auto simp: entries_le_def map_le_def)
    ultimately show ?thesis using assms(1) m(4,5) by (auto simp: at_dir_def is_dir_def m(2) intro: throughout_one)
  qed
qed

lemma at_dir_enter:
  assumes "at_dir N0 F fd d st" "sys_openat_dir k fd name st = (Some c, st')"
  shows "\<exists>i up es. ps_nodes st d = Some (Dir up es) \<and> es name = Some i \<and> at_dir N0 F c i (snd (sys_close k fd st')) \<and>
    ps_nodes (snd (sys_close k fd st')) = ps_nodes st \<and> throughout (grown N0) st (snd (sys_close k fd st'))"
proof -
  obtain up es where d: "map_of (ps_fds st) fd = Some d" "ps_nodes st d = Some (Dir up es)" using assms(1) by (auto simp: at_dir_def is_dir_def)
  obtain i up' es' where i: "es name = Some i" "ps_nodes st i = Some (Dir up' es')" "opened_fd c i st st'" using sys_openat_effect [OF assms(2) d] by auto
  have c: "closed_fd fd st' (snd (sys_close k fd st'))" by (rule snd_close_closed)
  have "at_dir N0 F c i (snd (sys_close k fd st'))"
    using assms(1) i c by (auto simp: at_dir_def opened_fd_def closed_fd_def filter_fds disk_ok_def is_dir_def)
  moreover have "throughout (grown N0) st (snd (sys_close k fd st'))"
    using i(3) c assms(1) by (auto simp: opened_fd_def closed_fd_def throughout_def at_dir_def)
  ultimately show ?thesis using d(2) i c by (auto simp: opened_fd_def closed_fd_def)
qed

text \<open>The names in order: the one pending, and those that are not \<^verbatim>\<open>.\<close>.\<close>

definition way :: "cstr option \<Rightarrow> cstr list \<Rightarrow> cstr list" where
  "way pending parts = (case pending of None \<Rightarrow> [] | Some n \<Rightarrow> [n]) @ filter (\<lambda>c. c \<noteq> ''.'') parts"

definition arrived :: "inodes \<Rightarrow> (nat \<times> nat) list \<Rightarrow> nat \<Rightarrow> cstr list \<Rightarrow> cstr option \<times> nat \<Rightarrow> posix \<Rightarrow> bool" where
  "arrived N0 F d names r st \<longleftrightarrow> (\<exists>p ds. at_dir N0 F (snd r) p st \<and> plain_walk (ps_nodes st) d ds = Some p \<and>
     names = ds @ (case fst r of None \<Rightarrow> [] | Some leaf \<Rightarrow> [leaf]) \<and> (fst r = None \<longrightarrow> ds = []))"

lemma arrived_step:
  assumes "arrived N0 F i (way (Some part) parts) res st'" "entries_le N (ps_nodes st')" "N d = Some (Dir up es)" "es name = Some i"
  shows "arrived N0 F d (name # way (Some part) parts) res st'"
proof -
  obtain p ds where r: "at_dir N0 F (snd res) p st'" "plain_walk (ps_nodes st') i ds = Some p"
      "way (Some part) parts = ds @ (case fst res of None \<Rightarrow> [] | Some leaf \<Rightarrow> [leaf])" "fst res = None \<longrightarrow> ds = []"
    using assms(1) by (auto simp: arrived_def)
  obtain es' where "ps_nodes st' d = Some (Dir up es')" "es' name = Some i"
    using assms(2-4) by (force simp: entries_le_def map_le_def)
  moreover have "fst res \<noteq> None" using r(3,4) by (auto simp: way_def split: option.splits)
  ultimately show ?thesis using r unfolding arrived_def by (intro exI [of _ p] exI [of _ "name # ds"]) auto
qed

definition descended :: "inodes \<Rightarrow> (nat \<times> nat) list \<Rightarrow> nat \<Rightarrow> cstr list \<Rightarrow> cstr option \<Rightarrow> (cstr option \<times> nat) option \<Rightarrow> posix \<Rightarrow> bool" where
  "descended N0 F d parts pending r st' \<longleftrightarrow>
    (case r of None \<Rightarrow> ps_fds st' = F \<and> disk_ok st' \<and> grown N0 (ps_nodes st')
     | Some res \<Rightarrow> ''..'' \<notin> set parts \<and> arrived N0 F d (way pending parts) res st')"

lemma descend_way:
  assumes "at_dir N0 F fd d st" "descend k parts pending fd st = (r, st')"
  shows "throughout (grown N0) st st' \<and> entries_le (ps_nodes st) (ps_nodes st') \<and> descended N0 F d parts pending r st'"
  using assms
proof (induction k parts pending fd st arbitrary: d rule: descend.induct)
  case (1 k pending fd st)
  then show ?case
    by (auto simp: descended_def arrived_def way_def throughout_refl split: option.splits intro!: exI [of _ d] exI [of _ "[]"])
next
  case (2 k part parts pending fd st)
  have leave: "throughout (grown N0) st st' \<and> entries_le (ps_nodes st) (ps_nodes st') \<and> descended N0 F d (part # parts) pending r st'"
    if "r = None" "st' = close_keep k fd s" "at_dir N0 F fd d s" "throughout (grown N0) st s" "entries_le (ps_nodes st) (ps_nodes s)" for s
    using that at_dir_close [OF that(3) close_keep_closed, of k] throughout_trans [OF that(4)] close_keep_closed [of fd s k]
    by (auto simp: descended_def closed_fd_def)
  consider (up) "part = ''..''" | (dot) "part = ''.''" | (first) "part \<noteq> ''..''" "part \<noteq> ''.''" "pending = None"
    | (later) name where "part \<noteq> ''..''" "part \<noteq> ''.''" "pending = Some name" by (cases pending) auto
  then show ?case
  proof cases
    case up
    then show ?thesis using "2.prems" by (intro leave [of "st\<lparr>ps_errno := E_PERM\<rparr>"]) (auto simp: at_dir_errno throughout_refl)
  next
    case dot
    then show ?thesis using "2.IH"(1) [OF _ dot "2.prems"(1)] "2.prems"(2) by (auto simp: descended_def way_def split: option.splits)
  next
    case first
    then have "descend k parts (Some part) fd st = (r, st')" using "2.prems"(2) by simp
    from "2.IH"(2) [OF first "2.prems"(1) this] show ?thesis using first by (auto simp: descended_def way_def split: option.splits)
  next
    case (later name)
    obtain made st1 where m: "sys_mkdirat k fd name st = (made, st1)" by fastforce
    obtain child st2 where c: "sys_openat_dir k fd name st1 = (child, st2)" by fastforce
    note a1 = at_dir_mkdir [OF "2.prems"(1) m]
    show ?thesis
    proof (cases "made = None \<and> ps_errno st1 \<noteq> E_EXIST")
      case True
      then show ?thesis using "2.prems"(2) later m a1 by (intro leave [of st1]) simp_all
    next
      case False
      show ?thesis
      proof (cases child)
        case None
        obtain up es where d: "map_of (ps_fds st1) fd = Some d" "ps_nodes st1 d = Some (Dir up es)" using a1 by (auto simp: at_dir_def is_dir_def)
        then have q: "quiet st1 st2" using sys_openat_effect [OF c] None by simp
        then have "at_dir N0 F fd d st2" "throughout (grown N0) st st2" "ps_nodes st2 = ps_nodes st1"
          using at_dir_quiet [OF _ q] a1 throughout_trans by (auto simp: quiet_def)
        then show ?thesis using "2.prems"(2) later m c False None a1
          by (intro leave [of "if ps_errno st2 = E_LOOP then st2\<lparr>ps_errno := E_PERM\<rparr> else st2"])
            (auto simp: at_dir_errno throughout_def)
      next
        case (Some ch)
        let ?s = "snd (sys_close k fd st2)"
        obtain i up es where e: "ps_nodes st1 d = Some (Dir up es)" "es name = Some i" "at_dir N0 F ch i ?s" "ps_nodes ?s = ps_nodes st1"
            "throughout (grown N0) st1 ?s"
          using at_dir_enter a1 c Some by blast
        have run: "descend k parts (Some part) ch ?s = (r, st')" using "2.prems"(2) later m c False Some by simp
        have ih: "throughout (grown N0) ?s st' \<and> entries_le (ps_nodes ?s) (ps_nodes st') \<and> descended N0 F i parts (Some part) r st'"
          by (rule "2.IH"(3) [OF later refl m [symmetric] False c [symmetric] Some e(3) run])
        have le: "entries_le (ps_nodes st1) (ps_nodes st')" using ih e(4) by simp
        have "descended N0 F d (part # parts) pending r st'"
        proof (cases r)
          case (Some res)
          then have arr: "arrived N0 F i (way (Some part) parts) res st'" "''..'' \<notin> set parts" using ih by (auto simp: descended_def)
          from arrived_step [OF arr(1) le e(1) e(2)] show ?thesis using later arr(2) Some by (auto simp: descended_def way_def)
        qed (use ih in \<open>simp add: descended_def\<close>)
        then show ?thesis using ih a1 e(4,5) throughout_trans entries_le_trans by metis
      qed
    qed
  qed
qed

end
