(* ===== verification/Paths_Write.thy ===== *)
theory Paths_Write
  imports Paths_Disk
begin

text \<open>The temporary file: its creation, its content, its publication, and what the end of the call does.\<close>

section \<open>The parent directory\<close>

lemma throughout_errno: "throughout P st (st'\<lparr>ps_errno := e\<rparr>) = throughout P st st'" "throughout P (st\<lparr>ps_errno := e\<rparr>) st' = throughout P st st'"
  by (simp_all add: throughout_def)

definition parent_open :: "posix \<Rightarrow> nat \<Rightarrow> cstr \<Rightarrow> (nat \<times> cstr) option \<Rightarrow> posix \<Rightarrow> bool" where
  "parent_open st D relative r st' \<longleftrightarrow>
    (case r of
       None \<Rightarrow> ps_fds st' = ps_fds st \<and> grown (ps_nodes st) (ps_nodes st')
     | Some (fd, leaf) \<Rightarrow> ''..'' \<notin> set (strtok_slash relative) \<and>
         (\<exists>p ds. at_dir (ps_nodes st) (ps_fds st) fd p st' \<and> plain_walk (ps_nodes st') D ds = Some p \<and>
           filter (\<lambda>c. c \<noteq> ''.'') (strtok_slash relative) = ds @ [leaf]))"

lemma open_data_parent_way:
  assumes ok: "disk_ok st" and D: "map_of (ps_fds st) (data_dir_fd paths) = Some D" "is_dir (ps_nodes st) D"
    and run: "open_data_parent k (Some paths) (Some relative) st = (r, st')"
  shows "throughout (grown (ps_nodes st)) st st' \<and> parent_open st D relative r st'"
proof (cases "data_dir_fd paths = 0 \<or> take 1 relative = ''/''")
  case True
  then show ?thesis using run by (auto simp: open_data_parent_def fail_with_def parent_open_def grown_refl throughout_refl)
next
  case False
  let ?N = "ps_nodes st" and ?F = "ps_fds st"
  obtain a st1 where a: "sys_alloc k st = (a, st1)" by fastforce
  note q = sys_alloc_quiet [OF a]
  have t1: "throughout (grown ?N) st st1" using q by (auto simp: quiet_def grown_refl intro: throughout_one)
  obtain b st2 where b: "sys_dup3 k (data_dir_fd paths) st1 = (b, st2)" by fastforce
  have e: "case b of None \<Rightarrow> quiet st1 st2 | Some fd \<Rightarrow> opened_fd fd D st1 st2 \<and> 3 \<le> fd"
    by (rule sys_dup3_effect [OF b]) (use q D in \<open>simp add: quiet_def\<close>)
  consider (none) "a = None" | (nodup) u where "a = Some u" "b = None" | (go) u fd where "a = Some u" "b = Some fd" by (cases a; cases b) auto
  then show ?thesis
  proof cases
    case none
    then show ?thesis using run False a q t1
      by (auto simp: open_data_parent_def fail_with_def parent_open_def quiet_def grown_refl throughout_errno)
  next
    case nodup
    then have "quiet st1 st2" using e by simp
    then have "throughout (grown ?N) st1 st2" "ps_fds st2 = ?F" "ps_nodes st2 = ?N"
      using q by (auto simp: quiet_def grown_refl intro: throughout_one)
    then show ?thesis using run False a b nodup throughout_trans [OF t1]
      by (auto simp: open_data_parent_def parent_open_def grown_refl)
  next
    case go
    then have o: "opened_fd fd D st1 st2" using e by simp
    have at: "at_dir ?N ?F fd D st2"
      using o q ok D by (auto simp: at_dir_def opened_fd_def quiet_def grown_refl disk_ok_def)
    have t2: "throughout (grown ?N) st st2"
      using o q by (auto simp: opened_fd_def quiet_def throughout_def grown_refl)
    obtain res st3 where d: "descend k (strtok_slash relative) None fd st2 = (res, st3)" by fastforce
    have w: "throughout (grown ?N) st st3" "descended ?N ?F D (strtok_slash relative) None res st3"
      using descend_way [OF at d] throughout_trans [OF t2] by auto
    show ?thesis
    proof (cases res)
      case None
      then show ?thesis using run False a b go d w by (auto simp: open_data_parent_def parent_open_def descended_def)
    next
      case (Some x)
      obtain pending fd' where x: "x = (pending, fd')" by (cases x)
      obtain p ds where p: "at_dir ?N ?F fd' p st3" "plain_walk (ps_nodes st3) D ds = Some p" "''..'' \<notin> set (strtok_slash relative)"
          "filter (\<lambda>c. c \<noteq> ''.'') (strtok_slash relative) = ds @ (case pending of None \<Rightarrow> [] | Some leaf \<Rightarrow> [leaf])"
        using w(2) Some x by (auto simp: descended_def arrived_def way_def)
      have leave: "throughout (grown ?N) st st' \<and> parent_open st D relative r st'"
        if "r = None" "st' = close_keep k fd' s" "at_dir ?N ?F fd' p s" "throughout (grown ?N) st s" for s
        using that at_dir_close [OF that(3) close_keep_closed, of k] throughout_trans [OF that(4)] by (auto simp: parent_open_def)
      show ?thesis
      proof (cases pending)
        case None
        then show ?thesis using run False a b go d w(1) Some x p(1)
          by (intro leave [of "st3\<lparr>ps_errno := E_INVAL\<rparr>"]) (simp_all add: open_data_parent_def at_dir_errno throughout_errno)
      next
        case (Some leaf)
        obtain c st4 where c: "sys_alloc k st3 = (c, st4)" by fastforce
        note q4 = sys_alloc_quiet [OF c]
        have a4: "at_dir ?N ?F fd' p st4" "throughout (grown ?N) st st4" "ps_nodes st4 = ps_nodes st3"
          using at_dir_quiet [OF p(1) q4] throughout_trans [OF w(1)] q4 by (auto simp: quiet_def)
        show ?thesis
        proof (cases c)
          case None
          then show ?thesis using run False a b go d \<open>res = Some x\<close> x Some c a4
            by (intro leave [of "st4\<lparr>ps_errno := E_NOMEM\<rparr>"]) (simp_all add: open_data_parent_def at_dir_errno throughout_errno)
        next
          case (Some u)
          then have "r = Some (fd', leaf)" "st' = st4" using run False a b go d \<open>res = Some x\<close> x \<open>pending = Some leaf\<close> c by (simp_all add: open_data_parent_def)
          then show ?thesis using a4 p \<open>pending = Some leaf\<close> by (auto simp: parent_open_def)
        qed
      qed
    qed
  qed
qed

section \<open>Disks that differ beside the target\<close>

text \<open>Directories keep their subdirectories, and one of them an entry; files and links are kept.\<close>

definition beside :: "inodes \<Rightarrow> nat \<Rightarrow> cstr \<Rightarrow> inodes \<Rightarrow> bool" where
  "beside N p leaf N' \<longleftrightarrow>
    (\<forall>d up es. N d = Some (Dir up es) \<longrightarrow> (\<exists>es'. N' d = Some (Dir up es') \<and> (\<forall>c i. es c = Some i \<longrightarrow> is_dir N i \<longrightarrow> es' c = Some i) \<and>
       (d = p \<longrightarrow> es' leaf = es leaf))) \<and>
    (\<forall>i bs m. N i = Some (Regular bs m) \<longrightarrow> N' i = Some (Regular bs m)) \<and> (\<forall>i t. N i = Some (Symlink t) \<longrightarrow> N' i = Some (Symlink t))"

lemma kept_walk:
  assumes "\<And>d up es c i. N d = Some (Dir up es) \<Longrightarrow> es c = Some i \<Longrightarrow> is_dir N i \<Longrightarrow> \<exists>up' es'. N' d = Some (Dir up' es') \<and> es' c = Some i"
  shows "plain_walk N d q = Some p \<Longrightarrow> is_dir N p \<Longrightarrow> plain_walk N' d q = Some p"
proof (induction q arbitrary: d)
  case (Cons c q)
  then obtain up es j where j: "N d = Some (Dir up es)" "es c = Some j" "plain_walk N j q = Some p"
    by (auto split: option.splits inode.splits)
  then have "is_dir N j" using Cons.prems(2) by (cases q) (auto simp: is_dir_def split: option.splits inode.splits)
  then obtain up' es' where "N' d = Some (Dir up' es')" "es' c = Some j" using assms [OF j(1,2)] by blast
  then show ?case using Cons.IH [OF j(3) Cons.prems(2)] by simp
qed simp

lemma content_leaf:
  "plain_walk N D ds = Some p \<Longrightarrow> N p = Some (Dir up es) \<Longrightarrow>
   content N D (ds @ [leaf]) = (case es leaf of Some i \<Rightarrow> (case N i of Some (Regular bs m) \<Rightarrow> Some bs | _ \<Rightarrow> None) | None \<Rightarrow> None)"
  by (simp add: content_def plain_walk_append split: option.splits)

lemma beside_content:
  assumes "beside N p leaf N'" "plain_walk N D ds = Some p" "N p = Some (Dir up es)"
    and "\<And>i. es leaf = Some i \<Longrightarrow> N i \<noteq> None"
  shows "content N' D (ds @ [leaf]) = content N D (ds @ [leaf])"
proof -
  have "\<exists>up' es'. N' d = Some (Dir up' es') \<and> es' c = Some i" if "N d = Some (Dir up es)" "es c = Some i" "is_dir N i" for d up es c i
    using that assms(1) unfolding beside_def by blast
  moreover have "is_dir N p" using assms(3) by (auto simp: is_dir_def)
  ultimately have "plain_walk N' D ds = Some p" by (rule kept_walk [OF _ assms(2)])
  moreover obtain es' where "N' p = Some (Dir up es')" "es' leaf = es leaf" using assms(1,3) unfolding beside_def by blast
  moreover have "N' i = N i \<or> is_dir N i \<and> is_dir N' i" if l: "es leaf = Some i" for i
  proof -
    obtain x where x: "N i = Some x" using assms(4) [OF l] by blast
    show ?thesis
    proof (cases x)
      case (Dir up' es')
      then show ?thesis using x assms(1) unfolding beside_def is_dir_def by blast
    qed (use x assms(1) in \<open>auto simp: beside_def\<close>)
  qed
  ultimately show ?thesis using assms(2,3) by (fastforce simp: content_leaf is_dir_def split: option.splits inode.splits)
qed

lemma beside_files: "beside N p leaf N' \<Longrightarrow> files_kept N N'"
  by (simp add: beside_def files_kept_def)

section \<open>The temporary file\<close>

text \<open>The disk \<open>N\<close> with the directory \<open>p\<close> open; what follows changes this directory and a node that is new to it.\<close>

definition in_parent :: "inodes \<Rightarrow> (nat \<times> nat) list \<Rightarrow> nat \<Rightarrow> nat \<Rightarrow> nat \<Rightarrow> (cstr \<rightharpoonup> nat) \<Rightarrow> posix \<Rightarrow> bool" where
  "in_parent N F fd p up es st \<longleftrightarrow> ps_nodes st = N \<and> disk_ok st \<and> ps_fds st = (fd, p) # F \<and> fd \<notin> fst ` set F \<and> N p = Some (Dir up es)"

lemma beside_refl: "N p = Some (Dir up es) \<Longrightarrow> beside N p leaf N"
  by (simp add: beside_def)

lemma beside_temp:
  assumes "N p = Some (Dir up es)" "N t = None" "es temp = None" "temp \<noteq> leaf"
  shows "beside N p leaf (N(t \<mapsto> x, p \<mapsto> Dir up (es(temp \<mapsto> t))))" "beside N p leaf (N(t \<mapsto> x, p \<mapsto> Dir up es))"
  using assms by (auto simp: beside_def)

lemma beside_unlink:
  assumes "N p = Some (Dir up es)" "temp \<noteq> leaf" "es temp = Some i" "\<not> is_dir N i"
  shows "beside N p leaf (N(p \<mapsto> Dir up (es(temp := None))))"
  using assms by (auto simp: beside_def)

text \<open>The temporary file is in place, with some content.\<close>

definition with_temp :: "inodes \<Rightarrow> nat \<Rightarrow> nat \<Rightarrow> (cstr \<rightharpoonup> nat) \<Rightarrow> cstr \<Rightarrow> nat \<Rightarrow> u8 list \<Rightarrow> nat \<Rightarrow> inodes" where
  "with_temp N p up es temp t bs m = N(t \<mapsto> Regular bs m, p \<mapsto> Dir up (es(temp \<mapsto> t)))"

lemma create_temp_effect:
  assumes "in_parent N F fd p up es st" "create_temp k pid fd attempts temp0 st = (temp, r, st')"
    and "attempts \<noteq> [] \<or> temp0 \<noteq> leaf" "\<forall>a \<in> set attempts. temp_name pid a \<noteq> leaf \<and> length (temp_name pid a) < 96"
  shows "temp \<noteq> leaf \<and> (case r of
      None \<Rightarrow> in_parent N F fd p up es st' \<and> throughout (\<lambda>N'. N' = N) st st'
    | Some c \<Rightarrow> es temp = None \<and> N (ps_next st) = None \<and> ps_nodes st' = with_temp N p up es temp (ps_next st) [] 384 \<and>
        ps_fds st' = (c, ps_next st) # (fd, p) # F \<and> c \<notin> fst ` set ((fd, p) # F) \<and>
        throughout (\<lambda>N'. N' = N \<or> N' = with_temp N p up es temp (ps_next st) [] 384) st st')"
  using assms
proof (induction k pid fd attempts temp0 st rule: create_temp.induct)
  case (1 k pid fd temp0 st)
  then show ?case by (auto simp: fail_with_def in_parent_def disk_ok_def throughout_refl)
next
  case (2 k pid fd a attempts temp0 st)
  let ?temp = "temp_name pid a"
  have d: "map_of (ps_fds st) fd = Some p" "ps_nodes st p = Some (Dir up es)" using "2.prems"(1) by (auto simp: in_parent_def)
  obtain c st1 where c: "sys_create k fd ?temp 384 st = (c, st1)" by fastforce
  note e = sys_create_effect [OF c d]
  have l: "\<not> 96 \<le> length ?temp" "?temp \<noteq> leaf" using "2.prems"(4) by auto
  show ?case
  proof (cases c)
    case (Some x)
    then have "temp = ?temp" "r = Some x" "st' = st1" using "2.prems"(2) c l by (auto simp: Let_def)
    then show ?thesis using e Some l(2) "2.prems"(1)
      by (auto simp: in_parent_def with_temp_def disk_okD(1) image_iff intro!: throughout_one)
  next
    case None
    then have q: "quiet st st1" using e by simp
    then have p1: "in_parent N F fd p up es st1" "throughout (\<lambda>N'. N' = N) st st1" "ps_next st1 = ps_next st"
      using "2.prems"(1) by (auto simp: quiet_def in_parent_def disk_ok_def intro: throughout_one)
    show ?thesis
    proof (cases "ps_errno st1 = E_EXIST")
      case False
      then show ?thesis using "2.prems"(2) c None l p1 by (auto simp: Let_def)
    next
      case True
      then have run: "create_temp k pid fd attempts ?temp st1 = (temp, r, st')" using "2.prems"(2) c None l by (simp add: Let_def)
      have ih: "temp \<noteq> leaf \<and> (case r of
          None \<Rightarrow> in_parent N F fd p up es st' \<and> throughout (\<lambda>N'. N' = N) st1 st'
        | Some c \<Rightarrow> es temp = None \<and> N (ps_next st1) = None \<and> ps_nodes st' = with_temp N p up es temp (ps_next st1) [] 384 \<and>
            ps_fds st' = (c, ps_next st1) # (fd, p) # F \<and> c \<notin> fst ` set ((fd, p) # F) \<and>
            throughout (\<lambda>N'. N' = N \<or> N' = with_temp N p up es temp (ps_next st1) [] 384) st1 st')"
        using "2.IH" [OF refl _ c [symmetric] None _ p1(1) run] True l "2.prems"(4) by (simp add: not_le)
      then show ?thesis using p1(2,3) throughout_trans [OF p1(2)] throughout_trans [OF throughout_mono [OF p1(2)]]
        by (auto split: option.splits)
    qed
  qed
qed

section \<open>Content\<close>

lemma with_temp_at: "t \<noteq> p \<Longrightarrow> with_temp N p up es temp t bs m t = Some (Regular bs m)" "with_temp N p up es temp t bs m p = Some (Dir up (es(temp \<mapsto> t)))"
  by (simp_all add: with_temp_def)

lemma with_temp_set: "t \<noteq> p \<Longrightarrow> (with_temp N p up es temp t bs m)(t \<mapsto> Regular bs' m') = with_temp N p up es temp t bs' m'"
  by (simp add: with_temp_def fun_upd_twist)

text \<open>The temporary file is open and has some content.\<close>

definition filling :: "(u8 list \<Rightarrow> nat \<Rightarrow> inodes) \<Rightarrow> nat \<Rightarrow> nat \<Rightarrow> (nat \<times> nat) list \<Rightarrow> u8 list \<Rightarrow> nat \<Rightarrow> posix \<Rightarrow> bool" where
  "filling W c t G bs m st \<longleftrightarrow> ps_nodes st = W bs m \<and> ps_fds st = (c, t) # G"

lemma write_all_effect:
  assumes W: "\<And>bs m. W bs m t = Some (Regular bs m)" "\<And>bs m bs' m'. (W bs m)(t \<mapsto> Regular bs' m') = W bs' m'"
    and run: "write_all k c data st = Some (r, st')" and f: "filling W c t G bs m st"
  shows "\<exists>bs'. filling W c t G bs' m st' \<and> (r \<noteq> None \<longrightarrow> bs' = bs @ data) \<and> throughout (\<lambda>N. \<exists>bs. N = W bs m) st st'"
proof -
  have "\<forall>bs. c' = c \<longrightarrow> filling W c t G bs m s \<longrightarrow>
      (\<exists>bs'. filling W c t G bs' m (snd y) \<and> (fst y \<noteq> None \<longrightarrow> bs' = bs @ d) \<and> throughout (\<lambda>N. \<exists>bs. N = W bs m) s (snd y))"
    if "write_all k' c' d s = Some y" for k' c' d s y
  proof (rule write_all.raw_induct [OF _ that, of "\<lambda>k' c' d s y. \<forall>bs. c' = c \<longrightarrow> filling W c t G bs m s \<longrightarrow>
      (\<exists>bs'. filling W c t G bs' m (snd y) \<and> (fst y \<noteq> None \<longrightarrow> bs' = bs @ d) \<and> throughout (\<lambda>N. \<exists>bs. N = W bs m) s (snd y))"], intro allI impI)
    fix loop k' c' d s y bs
    assume ih: "\<And>k' c' d s y. loop k' c' d s = Some y \<Longrightarrow> \<forall>bs. c' = c \<longrightarrow> filling W c t G bs m s \<longrightarrow>
        (\<exists>bs'. filling W c t G bs' m (snd y) \<and> (fst y \<noteq> None \<longrightarrow> bs' = bs @ d) \<and> throughout (\<lambda>N. \<exists>bs. N = W bs m) s (snd y))"
      and y: "(if d = [] then Some (Some (), s)
        else case sys_write k' c' d s of
          (None, st) \<Rightarrow> if ps_errno st = E_INTR then loop k' c' d st else Some (None, st)
        | (Some n, st) \<Rightarrow> if n = 0 then Some (fail_with E_IO st) else loop k' c' (drop n d) st) = Some y"
      and c: "c' = c" and f: "filling W c t G bs m s"
    show "\<exists>bs'. filling W c t G bs' m (snd y) \<and> (fst y \<noteq> None \<longrightarrow> bs' = bs @ d) \<and> throughout (\<lambda>N. \<exists>bs. N = W bs m) s (snd y)"
    proof (cases "d = []")
      case True
      then show ?thesis using y f by (auto simp: throughout_refl)
    next
      case False
      obtain n s1 where w: "sys_write k' c d s = (n, s1)" by fastforce
      have i: "map_of (ps_fds s) c = Some t" "ps_nodes s t = Some (Regular bs m)" using f W(1) by (auto simp: filling_def)
      note e = sys_write_effect [OF w i]
      show ?thesis
      proof (cases n)
        case None
        then have q: "filling W c t G bs m s1" "throughout (\<lambda>N. \<exists>bs. N = W bs m) s s1"
          using e f by (auto simp: quiet_def filling_def intro: throughout_one)
        show ?thesis
        proof (cases "ps_errno s1 = E_INTR")
          case True
          then have "loop k' c d s1 = Some y" using y False w None c by simp
          from ih [OF this] show ?thesis using q throughout_trans by blast
        next
          case False
          then show ?thesis using y \<open>d \<noteq> []\<close> w None c q by auto
        qed
      next
        case (Some x)
        then have q: "filling W c t G (bs @ take x d) m s1" "throughout (\<lambda>N. \<exists>bs. N = W bs m) s s1"
          using e f W(2) [of bs m "bs @ take x d" m] by (auto simp: file_set_def filling_def intro: throughout_one)
        show ?thesis
        proof (cases "x = 0")
          case True
          then have "y = (None, s1\<lparr>ps_errno := E_IO\<rparr>)" using y \<open>d \<noteq> []\<close> w Some c by (simp add: fail_with_def)
          then show ?thesis using q by (auto simp: filling_def throughout_errno)
        next
          case False
          then have "loop k' c (drop x d) s1 = Some y" using y \<open>d \<noteq> []\<close> w Some c by simp
          from ih [OF this] q have "\<exists>bs'. filling W c t G bs' m (snd y) \<and> (fst y \<noteq> None \<longrightarrow> bs' = (bs @ take x d) @ drop x d) \<and>
              throughout (\<lambda>N. \<exists>bs. N = W bs m) s1 (snd y)" by blast
          then show ?thesis using throughout_trans [OF q(2)] by auto
        qed
      qed
    qed
  qed
  from this [OF run] f show ?thesis by simp
qed

lemma fill_temp_effect:
  assumes W: "\<And>bs m. W bs m t = Some (Regular bs m)" "\<And>bs m bs' m'. (W bs m)(t \<mapsto> Regular bs' m') = W bs' m'"
    and f: "filling W c t G [] m0 st" "c \<notin> fst ` set G" and run: "fill_temp k c data mode st = Some (ok, fdo, st')"
  shows "(\<exists>bs m. ps_nodes st' = W bs m \<and> (ok \<longrightarrow> bs = data \<and> m = mode)) \<and> ps_fds st' = (if fdo = None then G else (c, t) # G) \<and>
    (ok \<longrightarrow> fdo = None) \<and> (fdo \<noteq> None \<longrightarrow> fdo = Some c) \<and> throughout (\<lambda>N. \<exists>bs m. N = W bs m) st st'"
proof -
  let ?T = "throughout (\<lambda>N. \<exists>bs m. N = W bs m)"
  have i: "map_of (ps_fds st) c = Some t" "ps_nodes st t = Some (Regular [] m0)" using f W(1) by (auto simp: filling_def)
  obtain a st1 where a: "sys_fchmod k c mode st = (a, st1)" by fastforce
  note ea = sys_fchmod_effect [OF a i]
  show ?thesis
  proof (cases a)
    case None
    then show ?thesis using run a ea f by (auto simp: fill_temp_def quiet_def filling_def intro!: throughout_one)
  next
    case (Some u)
    then have f1: "filling W c t G [] mode st1" "?T st st1"
      using ea f W(2) [of "[]" m0 "[]" mode] by (auto simp: file_set_def filling_def intro!: throughout_one)
    obtain r st2 where w: "write_all k c data st1 = Some (r, st2)" using run a Some by (auto simp: fill_temp_def split: option.splits)
    obtain bs where b: "filling W c t G bs mode st2" "r \<noteq> None \<longrightarrow> bs = [] @ data" "throughout (\<lambda>N. \<exists>bs. N = W bs mode) st1 st2"
      using write_all_effect [OF W w f1(1)] by blast
    have t2: "?T st st2" using throughout_trans [OF f1(2) throughout_mono [OF b(3)]] by blast
    show ?thesis
    proof (cases r)
      case None
      then show ?thesis using run a Some w b t2 by (auto simp: fill_temp_def filling_def)
    next
      case (Some v)
      obtain s st3 where s: "sys_fsync k c st2 = (s, st3)" by fastforce
      note q = sys_fsync_quiet [OF s]
      have t3: "?T st2 st3" by (rule throughout_one [where N = "ps_nodes st2"]) (use q b(1) in \<open>auto simp: quiet_def filling_def\<close>)
      have f3: "filling W c t G data mode st3" "?T st st3"
        using q b Some throughout_trans [OF t2 t3] by (auto simp: quiet_def filling_def)
      show ?thesis
      proof (cases s)
        case None
        then show ?thesis using run a \<open>a = Some u\<close> w \<open>r = Some v\<close> s f3 by (auto simp: fill_temp_def filling_def)
      next
        case (Some x)
        obtain z st4 where z: "sys_close k c st3 = (z, st4)" by fastforce
        note cl = sys_close_closed [OF z]
        have "?T st3 st4" by (rule throughout_one [where N = "ps_nodes st3"]) (use cl f3(1) in \<open>auto simp: closed_fd_def filling_def\<close>)
        then have "ps_nodes st4 = W data mode" "ps_fds st4 = G" "?T st st4"
          using cl f3 f(2) throughout_trans [OF f3(2)] by (auto simp: closed_fd_def filling_def filter_fds)
        then show ?thesis using run a \<open>a = Some u\<close> w \<open>r = Some v\<close> s Some z by (cases z) (auto simp: fill_temp_def)
      qed
    qed
  qed
qed

section \<open>The end of the call\<close>

text \<open>What the label \<^verbatim>\<open>done\<close> may do to the directory.\<close>

definition cleaned :: "inodes \<Rightarrow> nat \<Rightarrow> nat \<Rightarrow> (cstr \<rightharpoonup> nat) \<Rightarrow> cstr option \<Rightarrow> inodes \<Rightarrow> bool" where
  "cleaned N p up es temporary N' \<longleftrightarrow>
    N' = N \<or> (\<exists>name i. temporary = Some name \<and> es name = Some i \<and> \<not> is_dir N i \<and> N' = N(p \<mapsto> Dir up (es(name := None))))"

lemma cleaned_None: "cleaned N p up es None = (\<lambda>N'. N' = N)"
  by (simp add: cleaned_def fun_eq_iff)

lemma finish_write_effect:
  assumes fds: "ps_fds st = (case fdo of None \<Rightarrow> [] | Some c \<Rightarrow> [(c, t)]) @ (fd, p) # F" "fd \<notin> fst ` set F"
      "\<forall>c. fdo = Some c \<longrightarrow> c \<notin> fst ` set ((fd, p) # F)"
    and dir: "ps_nodes st p = Some (Dir up es)" and run: "finish_write k ok temporary fdo fd st = (r, st')"
  shows "ps_fds st' = F \<and> cleaned (ps_nodes st) p up es (if ok then None else temporary) (ps_nodes st') \<and>
    throughout (cleaned (ps_nodes st) p up es (if ok then None else temporary)) st st' \<and> (r = None \<longleftrightarrow> \<not> ok)"
proof -
  let ?C = "cleaned (ps_nodes st) p up es (if ok then None else temporary)"
  define st1 where "st1 = (case fdo of None \<Rightarrow> st | Some c \<Rightarrow> snd (sys_close k c st))"
  define st2 where "st2 = (case temporary of Some name \<Rightarrow> if ok then st1 else snd (sys_unlink k fd name st1) | None \<Rightarrow> st1)"
  define st3 where "st3 = snd (sys_close k fd st2)"
  have out: "(r = None \<longleftrightarrow> \<not> ok)" "ps_nodes st' = ps_nodes st3" "ps_fds st' = ps_fds st3" "ps_history st' = ps_history st3"
    using run unfolding finish_write_def Let_def st1_def [symmetric] st2_def [symmetric] st3_def [symmetric] by (auto split: if_splits)
  have s1: "ps_nodes st1 = ps_nodes st" "ps_fds st1 = (fd, p) # F" "throughout ?C st st1"
  proof (atomize (full), cases fdo)
    case (Some c)
    then show "ps_nodes st1 = ps_nodes st \<and> ps_fds st1 = (fd, p) # F \<and> throughout ?C st st1"
      using snd_close_closed [of c st k] fds
      by (auto simp: st1_def closed_fd_def cleaned_def intro!: throughout_one [where N = "ps_nodes st"] filter_True)
  qed (use fds(1) in \<open>simp add: st1_def throughout_refl\<close>)
  have s2: "?C (ps_nodes st2)" "ps_fds st2 = (fd, p) # F" "throughout ?C st1 st2"
  proof (atomize (full), cases "temporary = None \<or> ok")
    case True
    then have "st2 = st1" by (auto simp: st2_def split: option.splits)
    then show "?C (ps_nodes st2) \<and> ps_fds st2 = (fd, p) # F \<and> throughout ?C st1 st2" using s1 by (simp add: cleaned_def throughout_refl)
  next
    case False
    then obtain name where n: "temporary = Some name" "\<not> ok" by auto
    obtain u where u: "sys_unlink k fd name st1 = (u, st2)" using n by (cases "sys_unlink k fd name st1") (simp add: st2_def)
    have "case u of None \<Rightarrow> quiet st1 st2
      | Some _ \<Rightarrow> \<exists>i. es name = Some i \<and> \<not> is_dir (ps_nodes st1) i \<and> entries_set p up (es(name := None)) st1 st2"
      by (rule sys_unlink_effect [OF u]) (use s1 dir in simp_all)
    then have "?C (ps_nodes st2)" "ps_fds st2 = (fd, p) # F" "ps_history st2 = ps_history st1 @ [ps_nodes st2]"
      using s1 n by (auto simp: quiet_def entries_set_def cleaned_def split: option.splits)
    then show "?C (ps_nodes st2) \<and> ps_fds st2 = (fd, p) # F \<and> throughout ?C st1 st2" by (blast intro: throughout_one)
  qed
  have "ps_nodes st3 = ps_nodes st2" "ps_fds st3 = F" "ps_history st3 = ps_history st2 @ [ps_nodes st2]"
    using snd_close_closed [of fd st2 k] s2(2) fds(2) by (auto simp: st3_def closed_fd_def filter_fds)
  moreover from this have "throughout ?C st2 st3" using s2(1) by (blast intro: throughout_one)
  then have "throughout ?C st st3" by (rule throughout_trans [OF s1(3) throughout_trans [OF s2(3)]])
  ultimately show ?thesis using out s2(1) by (simp add: throughout_def)
qed

lemma beside_renamed:
  assumes "N p = Some (Dir up es)" "N t = None" "plain_walk N D ds = Some p" "\<And>j. es leaf = Some j \<Longrightarrow> \<not> is_dir N j"
  shows "content (N(t \<mapsto> Regular bs m, p \<mapsto> Dir up (es(leaf \<mapsto> t)))) D (ds @ [leaf]) = Some bs"
    "files_kept N (N(t \<mapsto> Regular bs m, p \<mapsto> Dir up (es(leaf \<mapsto> t))))"
proof -
  let ?N = "N(t \<mapsto> Regular bs m, p \<mapsto> Dir up (es(leaf \<mapsto> t)))"
  have tp: "t \<noteq> p" using assms(1,2) by auto
  have "\<exists>up' es'. ?N d = Some (Dir up' es') \<and> es' c = Some i" if "N d = Some (Dir up1 es1)" "es1 c = Some i" "is_dir N i" for d up1 es1 c i
    using that assms(1,2,4) by (cases "d = p"; cases "c = leaf") auto
  moreover have "is_dir N p" using assms(1) by (simp add: is_dir_def)
  ultimately have "plain_walk ?N D ds = Some p" by (rule kept_walk [OF _ assms(3)])
  then show "content ?N D (ds @ [leaf]) = Some bs" using content_leaf [of ?N D ds p up "es(leaf \<mapsto> t)" leaf] tp by simp
  show "files_kept N ?N" using assms(1,2) by (auto simp: files_kept_def)
qed

section \<open>Every moment\<close>

text \<open>At a moment of the call: no file that was there is touched, and the name leads to the old content or to the new one.\<close>

definition moment :: "inodes \<Rightarrow> nat \<Rightarrow> cstr list \<Rightarrow> u8 list \<Rightarrow> inodes \<Rightarrow> bool" where
  "moment N0 D q bytes N' \<longleftrightarrow> files_kept N0 N' \<and> (content N' D q = content N0 D q \<or> content N' D q = Some bytes)"

text \<open>The directory is open, and its name leads to it.\<close>

definition ready :: "inodes \<Rightarrow> inodes \<Rightarrow> nat \<Rightarrow> cstr list \<Rightarrow> cstr \<Rightarrow> nat \<Rightarrow> nat \<Rightarrow> (cstr \<rightharpoonup> nat) \<Rightarrow> bool" where
  "ready N0 N D ds leaf p up es \<longleftrightarrow> grown N0 N \<and> plain_walk N D ds = Some p \<and> N p = Some (Dir up es) \<and> (\<forall>i. es leaf = Some i \<longrightarrow> N i \<noteq> None)"

lemma files_kept_trans: "files_kept N N1 \<Longrightarrow> files_kept N1 N' \<Longrightarrow> files_kept N N'"
  by (simp add: files_kept_def)

lemma grown_moment: "grown N0 N \<Longrightarrow> moment N0 D q bytes N"
  by (simp add: moment_def grown_files grown_content)

lemma beside_moment: "ready N0 N D ds leaf p up es \<Longrightarrow> beside N p leaf N' \<Longrightarrow> moment N0 D (ds @ [leaf]) bytes N'"
  using beside_content [of N p leaf N' D ds up es] beside_files [of N p leaf N'] files_kept_trans [OF grown_files]
  by (auto simp: ready_def moment_def grown_content)

lemma renamed_moment:
  assumes "ready N0 N D ds leaf p up es" "N t = None" "\<And>j. es leaf = Some j \<Longrightarrow> \<not> is_dir N j"
  shows "moment N0 D (ds @ [leaf]) bytes (N(t \<mapsto> Regular bytes m, p \<mapsto> Dir up (es(leaf \<mapsto> t))))"
  using assms(1) beside_renamed [OF _ assms(2) _ assms(3)] files_kept_trans [OF grown_files] by (auto simp: ready_def moment_def)

lemma cleaned_before:
  assumes "ready N0 N D ds leaf p up es" "temp \<noteq> leaf" "cleaned N p up es (Some temp) N'"
  shows "moment N0 D (ds @ [leaf]) bytes N'"
  using assms(3) beside_moment [OF assms(1)] assms(1,2) beside_refl beside_unlink by (auto simp: cleaned_def ready_def)

lemma cleaned_temp:
  assumes "ready N0 N D ds leaf p up es" "temp \<noteq> leaf" "N t = None" "es temp = None"
    and "cleaned (with_temp N p up es temp t bs m) p up (es(temp \<mapsto> t)) (Some temp) N'"
  shows "moment N0 D (ds @ [leaf]) bytes N'"
proof (rule beside_moment [OF assms(1)])
  have p: "N p = Some (Dir up es)" "t \<noteq> p" using assms(1,3) by (auto simp: ready_def)
  have e: "es(temp := None) = es" using assms(4) by auto
  from assms(5) show "beside N p leaf N'"
    using beside_temp [OF p(1) assms(3,4,2)] unfolding cleaned_def with_temp_def option.inject by (auto simp: e)
qed

lemma publish_effect:
  assumes nodes: "ps_nodes st = with_temp N p up es temp t bytes m" and fds: "ps_fds st = (fd, p) # F" "fd \<notin> fst ` set F"
    and new: "N t = None" "es temp = None" "temp \<noteq> leaf" and rd: "ready N0 N D ds leaf p up es" and run: "publish k fd temp leaf st = (r, st')"
  shows "ps_fds st' = F \<and> throughout (moment N0 D (ds @ [leaf]) bytes) st st' \<and> moment N0 D (ds @ [leaf]) bytes (ps_nodes st') \<and>
    (r \<noteq> None \<longrightarrow> content (ps_nodes st') D (ds @ [leaf]) = Some bytes)"
proof -
  let ?M = "moment N0 D (ds @ [leaf]) bytes"
  have p: "N p = Some (Dir up es)" "t \<noteq> p" using rd new(1) by (auto simp: ready_def)
  have d: "map_of (ps_fds st) fd = Some p" "ps_nodes st p = Some (Dir up (es(temp \<mapsto> t)))" using nodes fds p(2) by (simp_all add: with_temp_at)
  obtain a st1 where a: "sys_rename k fd temp leaf st = (a, st1)" by fastforce
  note e = sys_rename_effect [OF a d]
  show ?thesis
  proof (cases a)
    case None
    then have q: "quiet st st1" using e by simp
    have f: "finish_write k False (Some temp) None fd st1 = (r, st')" using run a None by (simp add: publish_def)
    have c: "\<And>N'. cleaned (ps_nodes st1) p up (es(temp \<mapsto> t)) (Some temp) N' \<Longrightarrow> ?M N'"
      using cleaned_temp [OF rd new(3,1,2)] q nodes by (simp add: quiet_def)
    have fin: "ps_fds st' = F" "cleaned (ps_nodes st1) p up (es(temp \<mapsto> t)) (Some temp) (ps_nodes st')"
        "throughout (cleaned (ps_nodes st1) p up (es(temp \<mapsto> t)) (Some temp)) st1 st'" "r = None"
      using finish_write_effect [OF _ fds(2) _ _ f, of undefined p up "es(temp \<mapsto> t)"] q fds d by (auto simp: quiet_def)
    have "throughout ?M st st1" by (rule throughout_one [where N = "ps_nodes st"]) (use q c in \<open>auto simp: quiet_def cleaned_def\<close>)
    then show ?thesis using fin c throughout_trans [OF _ throughout_mono [OF fin(3)]] by blast
  next
    case (Some u)
    let ?N = "N(t \<mapsto> Regular bytes m, p \<mapsto> Dir up (es(leaf \<mapsto> t)))"
    have eq: "(with_temp N p up es temp t bytes m)(p \<mapsto> Dir up ((es(temp \<mapsto> t))(temp := None, leaf \<mapsto> t))) = ?N"
      using new(2) by (auto simp: with_temp_def fun_eq_iff)
    have es: "\<not> is_dir N j" if "es leaf = Some j" for j
      using e Some nodes new that p(2) rd by (auto simp: with_temp_def is_dir_def ready_def split: if_splits)
    have s1: "ps_nodes st1 = ?N" "ps_fds st1 = (fd, p) # F" "ps_history st1 = ps_history st @ [?N]"
      using e Some nodes fds eq by (auto simp: entries_set_def)
    have m: "?M ?N" by (rule renamed_moment [OF rd new(1) es])
    obtain b st2 where b: "sys_fsync k fd st1 = (b, st2)" by fastforce
    note q = sys_fsync_quiet [OF b]
    have f: "finish_write k (b \<noteq> None) None None fd st2 = (r, st')" using run a Some b by (cases b) (simp_all add: publish_def)
    have fin: "ps_fds st' = F" "ps_nodes st' = ?N" "throughout (\<lambda>N'. N' = ?N) st2 st'"
      using finish_write_effect [OF _ fds(2) _ _ f, of undefined p up "es(leaf \<mapsto> t)"] q s1 by (auto simp: quiet_def cleaned_None)
    have "throughout ?M st st2" using s1(1,3) q m by (auto simp: throughout_def quiet_def)
    moreover have "throughout ?M st2 st'" by (rule throughout_mono [OF fin(3)]) (simp only: m)
    ultimately show ?thesis
      using fin(1,2) m throughout_trans beside_renamed(1) [OF p(1) new(1) _ es] rd by (auto simp: ready_def)
  qed
qed

end
