(* ===== verification/Paths_Replace.thy ===== *)
theory Paths_Replace
  imports Paths_Write
begin

text \<open>The routines of \<^verbatim>\<open>paths.c\<close> as a whole: initialisation opens one descriptor and destruction closes it, a write ends, a replacement is atomic;
  and a small disk on which the properties are applied.\<close>

section \<open>Calls that open nothing\<close>

definition opens_none :: "posix \<Rightarrow> posix \<Rightarrow> bool" where
  "opens_none st st' \<longleftrightarrow> ps_fds st' = ps_fds st \<and> (disk_ok st \<longrightarrow> disk_ok st')"

lemma opens_none_refl [simp]: "opens_none st st"
  by (simp add: opens_none_def)

lemma opens_none_trans: "opens_none st st1 \<Longrightarrow> opens_none st1 st' \<Longrightarrow> opens_none st st'"
  by (simp add: opens_none_def)

lemma opens_none_errno [simp]: "opens_none st (st'\<lparr>ps_errno := e\<rparr>) = opens_none st st'" "opens_none (st\<lparr>ps_errno := e\<rparr>) st' = opens_none st st'"
  by (simp_all add: opens_none_def disk_ok_def)

lemma quiet_opens_none: "quiet st st' \<Longrightarrow> opens_none st st'"
  by (simp add: quiet_def opens_none_def disk_ok_def)

lemma fail_opens_none: "fail_with e st = (r, st') \<Longrightarrow> opens_none st st'"
  by (auto simp: fail_with_def)

lemma sys_alloc_opens_none: "sys_alloc k st = (r, st') \<Longrightarrow> opens_none st st'"
  by (rule quiet_opens_none [OF sys_alloc_quiet])

lemma sys_stat_opens_none: "sys_stat k path st = (r, st') \<Longrightarrow> opens_none st st'"
  unfolding sys_stat_def by (rule quiet_opens_none, elim sys_cases) (auto simp: quiet_def split: sum.splits)

lemma sys_mkdir_opens_none: "sys_mkdir k path st = (r, st') \<Longrightarrow> opens_none st st'"
  unfolding sys_mkdir_def
proof (elim sys_cases)
  fix a st1
  let ?cs = "strtok_slash path"
  assume m: "(let cs = ?cs in if cs = [] then Inl E_EXIST
      else case resolve (ps_nodes (st\<lparr>ps_calls := ps_calls st + 1\<rparr>)) MAXSYMLINKS 0 (butlast cs) of Inl e \<Rightarrow> Inl e
      | Inr d \<Rightarrow> (case ps_nodes (st\<lparr>ps_calls := ps_calls st + 1\<rparr>) d of
          Some (Dir up es) \<Rightarrow> if es (last cs) \<noteq> None \<or> last cs \<in> {''.'', ''..''} then Inl E_EXIST
            else let (i, st) = new_node (Dir d Map.empty) (st\<lparr>ps_calls := ps_calls st + 1\<rparr>) in Inr ((), set_node d (Dir up (es(last cs \<mapsto> i))) st)
        | _ \<Rightarrow> Inl E_NOTDIR)) = Inr (a, st1)"
    and st': "st' = st1\<lparr>ps_history := ps_history st1 @ [ps_nodes st1]\<rparr>"
  then obtain d up es where d: "ps_nodes st d = Some (Dir up es)" "es (last ?cs) = None"
      "st1 = set_node d (Dir up (es(last ?cs \<mapsto> ps_next st))) (snd (new_node (Dir d Map.empty) (st\<lparr>ps_calls := ps_calls st + 1\<rparr>)))"
    by (auto simp: Let_def new_node_def split: if_splits sum.splits option.splits inode.splits)
  then have n: "ps_nodes st' = (ps_nodes st)(ps_next st \<mapsto> Dir d Map.empty, d \<mapsto> Dir up (es(last ?cs \<mapsto> ps_next st)))" "ps_next st' = ps_next st + 1"
      "ps_fds st' = ps_fds st"
    using st' by (simp_all add: set_node_def new_node_def)
  show "opens_none st st'" using d(1) unfolding opens_none_def disk_ok_def n by (auto split: if_splits)
qed (simp add: quiet_opens_none)

section \<open>Routines that open nothing\<close>

lemma normalize_opens_none: "normalize_absolute k path st = (r, st') \<Longrightarrow> opens_none st st'"
  unfolding normalize_absolute_def
  by (auto simp: Let_def fail_with_def split: option.splits if_splits prod.splits dest!: sys_alloc_opens_none intro: opens_none_trans)

lemma make_one_opens_none: "make_one k l path st = (r, st') \<Longrightarrow> opens_none st st'"
  unfolding make_one_def
  by (auto split: option.splits if_splits prod.splits bool.splits dest!: sys_mkdir_opens_none sys_stat_opens_none intro: opens_none_trans)

lemma make_all_opens_none: "make_all k paths st = (r, st') \<Longrightarrow> opens_none st st'"
  by (induction k paths st rule: make_all.induct) (auto split: prod.splits option.splits dest: make_one_opens_none intro: opens_none_trans)

lemma mkdirs_opens_none: "sword3_paths_mkdirs k path st = (r, st') \<Longrightarrow> opens_none st st'"
  unfolding sword3_paths_mkdirs_def
  by (auto split: option.splits prod.splits dest!: normalize_opens_none make_all_opens_none intro: opens_none_trans)

lemma suffixed_root_opens_none: "suffixed_root k dir suffix st = (r, st') \<Longrightarrow> opens_none st st'"
  unfolding suffixed_root_def
  by (auto simp: fail_with_def split: if_splits prod.splits dest!: sys_alloc_opens_none normalize_opens_none intro: opens_none_trans)

lemma make_data_root_opens_none: "make_data_root k vars st = (r, st') \<Longrightarrow> opens_none st st'"
  unfolding make_data_root_def
  by (auto simp: fail_with_def split: if_splits option.splits list.splits dest!: suffixed_root_opens_none normalize_opens_none)

lemma normalized_clean: "normalize_absolute k path st = (Some out, st') \<Longrightarrow> \<exists>rs. out = abs_path rs \<and> clean_names rs"
proof (cases path)
  case (Some p)
  assume "normalize_absolute k path st = (Some out, st')"
  then have "out = abs_path (norm_names (strtok_slash p))" using Some normalize_absolute_result by blast
  then show ?thesis using norm_names_clean by blast
qed (simp add: normalize_absolute_def fail_with_def)

lemma make_data_root_clean: "make_data_root k vars st = (Some out, st') \<Longrightarrow> \<exists>rs. out = abs_path rs \<and> clean_names rs"
  unfolding make_data_root_def suffixed_root_def
  by (auto simp: fail_with_def Let_def split: if_splits option.splits list.splits prod.splits dest: normalized_clean)

lemma sys_open_dir_effect:
  assumes "sys_open_dir k path st = (r, st')"
  shows "case r of None \<Rightarrow> quiet st st' | Some fd \<Rightarrow> \<exists>i. is_dir (ps_nodes st) i \<and> opened_fd fd i st st'"
  using assms unfolding sys_open_dir_def
proof (cases rule: sys_cases)
  case (granted fd st1)
  then obtain i where "is_dir (ps_nodes st) i" "new_fd 0 i (st\<lparr>ps_calls := ps_calls st + 1\<rparr>) = (fd, st1)"
    by (auto simp: is_dir_def split: sum.splits option.splits inode.splits)
  then show ?thesis using granted new_fd_fresh [of 0 i "st\<lparr>ps_calls := ps_calls st + 1\<rparr>" fd st1] by (auto simp: opened_fd_def)
qed simp

section \<open>Initialisation\<close>

text \<open>The end of initialisation: the directory is opened, and its descriptor moved out of the way of the standard ones.\<close>

definition opened_data :: "posix \<Rightarrow> nat option \<Rightarrow> posix \<Rightarrow> bool" where
  "opened_data st r st' \<longleftrightarrow> (disk_ok st \<longrightarrow> disk_ok st') \<and> (case r of
     None \<Rightarrow> ps_fds st' = ps_fds st
   | Some fd \<Rightarrow> \<exists>D. ps_fds st' = (fd, D) # ps_fds st \<and> fd \<notin> fst ` set (ps_fds st) \<and> 3 \<le> fd \<and> is_dir (ps_nodes st') D)"

lemma opened_data_opens_none: "opens_none st st1 \<Longrightarrow> opened_data st1 r st' \<Longrightarrow> opened_data st r st'"
  by (auto simp: opens_none_def opened_data_def split: option.splits)

lemma opens_none_opened_none: "opens_none st st' \<Longrightarrow> opened_data st None st'"
  by (simp add: opened_data_def opens_none_def)

lemma init_open_effect:
  assumes "(case sys_open_dir k data st of
      (None, st) \<Rightarrow> (None, st)
    | (Some fd, st) \<Rightarrow>
        (case sys_dup3 k fd st of (None, st) \<Rightarrow> (None, close_keep k fd st) | (Some fd', st) \<Rightarrow> (Some fd', snd (sys_close k fd st)))) = (r, st')"
  shows "opened_data st r st'"
proof -
  obtain a st1 where a: "sys_open_dir k data st = (a, st1)" by fastforce
  note e = sys_open_dir_effect [OF a]
  show ?thesis
  proof (cases a)
    case None
    then show ?thesis using assms a e by (auto simp: opened_data_def quiet_def disk_ok_def)
  next
    case (Some fd)
    then obtain D where D: "is_dir (ps_nodes st) D" "opened_fd fd D st st1" using e by auto
    obtain b st2 where b: "sys_dup3 k fd st1 = (b, st2)" by fastforce
    have e2: "case b of None \<Rightarrow> quiet st1 st2 | Some fd' \<Rightarrow> opened_fd fd' D st1 st2 \<and> 3 \<le> fd'"
      by (rule sys_dup3_effect [OF b]) (use D(2) in \<open>simp add: opened_fd_def\<close>)
    show ?thesis
    proof (cases b)
      case None
      then have "r = None" "st' = close_keep k fd st2" "quiet st1 st2" using assms a Some b e2 by simp_all
      then show ?thesis using close_keep_closed [of fd st2 k] D
        by (simp add: opened_data_def closed_fd_def quiet_def opened_fd_def filter_fds disk_ok_def)
    next
      case (Some fd')
      then have "r = Some fd'" "st' = snd (sys_close k fd st2)" "opened_fd fd' D st1 st2" "3 \<le> fd'" using assms a \<open>a = Some fd\<close> b e2 by auto
      then show ?thesis using snd_close_closed [of fd st2 k] D
        by (auto simp: opened_data_def closed_fd_def opened_fd_def filter_fds disk_ok_def)
    qed
  qed
qed

lemma init_effect:
  assumes "sword3_paths_init k vars st = (r, st')"
  shows "opened_data st (map_option data_dir_fd r) st' \<and>
    (\<forall>paths. r = Some paths \<longrightarrow> (\<exists>bs rs. bundle_dir paths = Some (abs_path bs) \<and> clean_names bs \<and> data_dir paths = Some (abs_path rs) \<and> clean_names rs))"
proof -
  obtain a st1 where a: "normalize_absolute k (SWORD3_BUNDLE_DIR vars) st = (a, st1)" by fastforce
  obtain b st2 where b: "make_data_root k vars st1 = (b, st2)" by fastforce
  obtain c st3 where c: "sword3_paths_mkdirs k (Some (the b)) st2 = (c, st3)" by fastforce
  have k1: "opens_none st st1" "opens_none st st2" "opens_none st st3"
    using normalize_opens_none [OF a] make_data_root_opens_none [OF b] mkdirs_opens_none [OF c] opens_none_trans by blast+
  consider "\<not> given (SWORD3_BUNDLE_DIR vars)" | "given (SWORD3_BUNDLE_DIR vars)" "a = None" | "given (SWORD3_BUNDLE_DIR vars)" "a \<noteq> None" "b = None"
    | "given (SWORD3_BUNDLE_DIR vars)" "a \<noteq> None" "b \<noteq> None" "c = None"
    | (go) bd data u where "given (SWORD3_BUNDLE_DIR vars)" "a = Some bd" "b = Some data" "c = Some u" by blast
  then show ?thesis
  proof cases
    case go
    let ?o = "case sys_open_dir k data st3 of
      (None, st) \<Rightarrow> (None, st)
    | (Some fd, st) \<Rightarrow>
        (case sys_dup3 k fd st of (None, st) \<Rightarrow> (None, close_keep k fd st) | (Some fd', st) \<Rightarrow> (Some fd', snd (sys_close k fd st)))"
    have "sword3_paths_init k vars st =
        (map_option (\<lambda>fd. \<lparr>bundle_dir = Some bd, data_dir = Some data, data_dir_fd = fd\<rparr>) (fst ?o), snd ?o)"
      using go a b c by (simp add: sword3_paths_init_def split: prod.split option.split)
    then have r: "r = map_option (\<lambda>fd. \<lparr>bundle_dir = Some bd, data_dir = Some data, data_dir_fd = fd\<rparr>) (fst ?o)" "st' = snd ?o"
      using assms by simp_all
    have "opened_data st3 (fst ?o) st'" by (rule init_open_effect [of k data]) (simp add: r(2))
    then have "opened_data st (fst ?o) st'" by (rule opened_data_opens_none [OF k1(3)])
    moreover have "map_option data_dir_fd r = fst ?o" unfolding r(1) by (cases "fst ?o") simp_all
    moreover have "\<exists>bs rs. bd = abs_path bs \<and> clean_names bs \<and> data = abs_path rs \<and> clean_names rs"
      using normalized_clean [OF a [unfolded go]] make_data_root_clean [OF b [unfolded go]] by blast
    moreover have "bundle_dir paths = Some bd \<and> data_dir paths = Some data" if "r = Some paths" for paths
      using that unfolding r(1) by (cases "fst ?o") auto
    ultimately show ?thesis by auto
  qed (use assms a b c k1 in \<open>auto simp: sword3_paths_init_def fail_with_def intro!: opens_none_opened_none\<close>)
qed


section \<open>The write ends\<close>

lemma sys_write_step:
  assumes "sys_write k fd data st = (r, st')"
  shows "ps_calls st' = ps_calls st + 1 \<and> (case r of None \<Rightarrow> ps_errno st' = E_INTR \<longrightarrow> k_fail k (ps_calls st) = Some E_INTR | Some n \<Rightarrow> n \<le> length data)"
  using assms unfolding sys_write_def on_file_def sys_def Let_def
  by (cases "k_fail k (ps_calls st)") (auto simp: set_node_def Let_def split: option.splits inode.splits)

text \<open>C34: A write returns unless the kernel interrupts it forever: if after every call there is one that is not interrupted, then the
  loop returns, however small the portions are that the kernel accepts.\<close>

theorem write_all_returns:
  assumes fair: "\<forall>n. \<exists>m \<ge> n. k_fail k m \<noteq> Some E_INTR"
  shows "\<exists>r st'. write_all k fd data st = Some (r, st')"
proof -
  define wait where "wait st = (LEAST d. k_fail k (ps_calls st + d) \<noteq> Some E_INTR)" for st :: posix
  have waits: "k_fail k (ps_calls st + wait st) \<noteq> Some E_INTR" for st
    unfolding wait_def by (rule LeastI_ex) (use fair in \<open>metis le_add_diff_inverse\<close>)
  have fewer: "wait st' < wait st" if "ps_calls st' = ps_calls st + 1" "k_fail k (ps_calls st) = Some E_INTR" for st st'
  proof (cases "wait st")
    case 0
    then show ?thesis using waits [of st] that by simp
  next
    case (Suc d)
    then have "k_fail k (ps_calls st' + d) \<noteq> Some E_INTR" using waits [of st] that by simp
    then have "wait st' \<le> d" unfolding wait_def by (rule Least_le)
    then show ?thesis using Suc by simp
  qed
  show ?thesis
  proof (induction "(length data, wait st)" arbitrary: data st rule: wf_induct_rule [OF wf_lex_prod [OF wf_less wf_less]])
    case 1
    show ?case
    proof (cases "data = []")
      case False
      obtain a st1 where a: "sys_write k fd data st = (a, st1)" by fastforce
      note e = sys_write_step [OF a]
      show ?thesis
      proof (cases a)
        case None
        then show ?thesis using False a e fewer [of st1 st] 1 [of data st1] by (subst write_all.simps) auto
      next
        case (Some n)
        then show ?thesis using False a e 1 [of "drop n data" st1] by (subst write_all.simps) (auto simp: fail_with_def)
      qed
    qed (subst write_all.simps, simp)
  qed
qed

section \<open>Temporary names\<close>

lemma length_dec_digits: "n < 10 ^ Suc j \<Longrightarrow> length (dec_digits n) \<le> Suc j"
proof (induction j arbitrary: n)
  case 0
  then show ?case by (subst dec_digits.simps) simp
next
  case (Suc j)
  then have "length (dec_digits (n div 10)) \<le> Suc j" by (intro Suc.IH) (simp add: less_mult_imp_div_less)
  then show ?case by (subst dec_digits.simps) simp
qed

lemma temp_name_short: "pid < 2 ^ 63 \<Longrightarrow> a < 128 \<Longrightarrow> length (temp_name pid a) < 96"
  using length_dec_digits [of pid 18] length_dec_digits [of a 2] by (simp add: temp_name_def)

section \<open>Replacement\<close>

text \<open>The call after the directory has been opened: no temporary file, or one that is filled and published.\<close>

lemma write_without_temp:
  assumes rd: "ready N0 N D ds leaf p up es" and tl: "temp \<noteq> leaf" and par: "in_parent N F fd p up es st"
    and run: "finish_write k False (Some temp) None fd st = (r, st')"
  shows "ps_fds st' = F \<and> throughout (moment N0 D (ds @ [leaf]) bytes) st st' \<and> moment N0 D (ds @ [leaf]) bytes (ps_nodes st') \<and> r = None"
proof -
  let ?C = "cleaned N p up es (Some temp)"
  have "fd \<notin> fst ` set F" using par by (simp add: in_parent_def)
  then have fin: "ps_fds st' = F" "?C (ps_nodes st')" "throughout ?C st st'" "r = None"
    using finish_write_effect [OF _ _ _ _ run, of undefined p F up es] par by (auto simp: in_parent_def)
  then show ?thesis using cleaned_before [OF rd tl] throughout_mono [OF fin(3)] by blast
qed

lemma write_with_temp:
  assumes rd: "ready N0 N D ds leaf p up es" and tl: "temp \<noteq> leaf" "es temp = None" "N t = None"
    and st: "ps_nodes st = with_temp N p up es temp t [] 384" "ps_fds st = (c, t) # (fd, p) # F" "c \<notin> fst ` set ((fd, p) # F)" "fd \<notin> fst ` set F"
    and fl: "fill_temp k c bytes mode st = Some (ok, fdo, st1)"
    and run: "(if ok then publish k fd temp leaf st1 else finish_write k False (Some temp) fdo fd st1) = (r, st')"
  shows "ps_fds st' = F \<and> throughout (moment N0 D (ds @ [leaf]) bytes) st st' \<and> moment N0 D (ds @ [leaf]) bytes (ps_nodes st') \<and>
    (r \<noteq> None \<longrightarrow> content (ps_nodes st') D (ds @ [leaf]) = Some bytes)"
proof -
  let ?M = "moment N0 D (ds @ [leaf]) bytes" and ?G = "(fd, p) # F" and ?W = "with_temp N p up es temp t"
  have tp: "t \<noteq> p" using tl(3) rd by (auto simp: ready_def)
  have mW: "?M (?W bs m)" for bs m
    by (rule cleaned_temp [OF rd tl(1,3,2), where bs = bs and m = m]) (simp add: cleaned_def)
  have ft: "(\<exists>bs m. ps_nodes st1 = ?W bs m \<and> (ok \<longrightarrow> bs = bytes \<and> m = mode)) \<and> ps_fds st1 = (if fdo = None then ?G else (c, t) # ?G) \<and>
      (ok \<longrightarrow> fdo = None) \<and> (fdo \<noteq> None \<longrightarrow> fdo = Some c) \<and> throughout (\<lambda>N. \<exists>bs m. N = ?W bs m) st st1"
    by (rule fill_temp_effect [OF with_temp_at(1) [OF tp] with_temp_set [OF tp] _ st(3) fl]) (use st in \<open>simp add: filling_def\<close>)
  then obtain bs m where b: "ps_nodes st1 = ?W bs m" "ok \<longrightarrow> bs = bytes \<and> m = mode" and w: "throughout (\<lambda>N. \<exists>bs m. N = ?W bs m) st st1" by blast
  have w1: "throughout ?M st st1" by (rule throughout_mono [OF w]) (use mW in blast)
  show ?thesis
  proof (cases ok)
    case True
    then have "publish k fd temp leaf st1 = (r, st')" using run by simp
    from publish_effect [OF _ _ st(4) tl(3,2,1) rd this] show ?thesis
      using b True ft throughout_trans [OF w1] by auto
  next
    case False
    let ?C = "cleaned (?W bs m) p up (es(temp \<mapsto> t)) (Some temp)"
    have f: "finish_write k False (Some temp) fdo fd st1 = (r, st')" using run False by simp
    have fin: "ps_fds st' = F" "?C (ps_nodes st')" "throughout ?C st1 st'" "r = None"
      using finish_write_effect [OF _ st(4) _ _ f, of t p up "es(temp \<mapsto> t)"] ft st(3) b(1) with_temp_at(2) by (auto split: option.splits)
    then show ?thesis using cleaned_temp [OF rd tl(1,3,2)] throughout_trans [OF w1 throughout_mono [OF fin(3)]] by blast
  qed
qed

lemma atomic_write_parent:
  assumes p: "at_dir N0 F fd p st" "plain_walk (ps_nodes st) D ds = Some p" and pid: "pid < 2 ^ 63" "\<forall>a < 128. leaf \<noteq> temp_name pid a"
    and run: "(case create_temp k pid fd [0..<128] [] st of
            (temporary, None, st) \<Rightarrow> Some (finish_write k False (Some temporary) None fd st)
          | (temporary, Some c, st) \<Rightarrow>
              (case fill_temp k c bytes mode st of
                 None \<Rightarrow> None
               | Some (False, fdo, st) \<Rightarrow> Some (finish_write k False (Some temporary) fdo fd st)
               | Some (True, fdo, st) \<Rightarrow> Some (publish k fd temporary leaf st))) = Some (r, st')"
  shows "ps_fds st' = F \<and> throughout (moment N0 D (ds @ [leaf]) bytes) st st' \<and> moment N0 D (ds @ [leaf]) bytes (ps_nodes st') \<and>
    (r \<noteq> None \<longrightarrow> content (ps_nodes st') D (ds @ [leaf]) = Some bytes)"
proof -
  let ?N = "ps_nodes st" and ?M = "moment N0 D (ds @ [leaf]) bytes"
  obtain up es where dir: "?N p = Some (Dir up es)" using p(1) by (auto simp: at_dir_def is_dir_def)
  have par: "in_parent ?N F fd p up es st" using p(1) dir by (auto simp: at_dir_def in_parent_def)
  have rd: "ready N0 ?N D ds leaf p up es" using p dir disk_okD(2) by (auto simp: at_dir_def ready_def)
  have fdF: "fd \<notin> fst ` set F" using par by (simp add: in_parent_def)
  have here: "?M ?N" using rd grown_moment by (simp add: ready_def)
  obtain temp cr st2 where c: "create_temp k pid fd [0..<128] [] st = (temp, cr, st2)" by (cases "create_temp k pid fd [0..<128] [] st")
  have e: "temp \<noteq> leaf \<and> (case cr of
      None \<Rightarrow> in_parent ?N F fd p up es st2 \<and> throughout (\<lambda>N'. N' = ?N) st st2
    | Some c \<Rightarrow> es temp = None \<and> ?N (ps_next st) = None \<and> ps_nodes st2 = with_temp ?N p up es temp (ps_next st) [] 384 \<and>
        ps_fds st2 = (c, ps_next st) # (fd, p) # F \<and> c \<notin> fst ` set ((fd, p) # F) \<and>
        throughout (\<lambda>N'. N' = ?N \<or> N' = with_temp ?N p up es temp (ps_next st) [] 384) st st2)"
    by (rule create_temp_effect [OF par c]) (use pid temp_name_short in auto)
  show ?thesis
  proof (cases cr)
    case None
    then have f: "finish_write k False (Some temp) None fd st2 = (r, st')" "temp \<noteq> leaf" "in_parent ?N F fd p up es st2"
      using run c e by simp_all
    have "throughout ?M st st2" by (rule throughout_mono [where P = "\<lambda>N'. N' = ?N"]) (use e None here in auto)
    then show ?thesis using write_without_temp [OF rd f(2,3,1)] throughout_trans by blast
  next
    case (Some c')
    let ?W = "with_temp ?N p up es temp (ps_next st)"
    have t: "temp \<noteq> leaf" "es temp = None" "?N (ps_next st) = None" "ps_nodes st2 = ?W [] 384" "ps_fds st2 = (c', ps_next st) # (fd, p) # F"
        "c' \<notin> fst ` set ((fd, p) # F)" "throughout (\<lambda>N'. N' = ?N \<or> N' = ?W [] 384) st st2" using e Some by auto
    have "?M (?W [] 384)" by (rule cleaned_temp [OF rd t(1,3,2), where bs = "[]" and m = 384]) (simp add: cleaned_def)
    then have w2: "throughout ?M st st2" using here by (intro throughout_mono [OF t(7)]) metis
    obtain ok fdo st3 where fl: "fill_temp k c' bytes mode st2 = Some (ok, fdo, st3)" using run c Some by (auto split: option.splits)
    have "(if ok then publish k fd temp leaf st3 else finish_write k False (Some temp) fdo fd st3) = (r, st')"
      using run c Some fl by (auto split: bool.splits)
    from write_with_temp [OF rd t(1-6) fdF fl this] show ?thesis using throughout_trans [OF w2] by blast
  qed
qed


definition ex_disk :: posix where
  "ex_disk = \<lparr>ps_nodes = [0 \<mapsto> Dir 0 [''data'' \<mapsto> 1], 1 \<mapsto> Dir 0 [''save'' \<mapsto> 2], 2 \<mapsto> Regular [1, 2] 420], ps_next = 3, ps_fds = [(5, 1)],
     ps_errno = E_INVAL, ps_calls = 0, ps_history = []\<rparr>"

definition ex_kernel :: kernel where
  "ex_kernel = \<lparr>k_fail = (\<lambda>n. if n = 5 then Some E_INTR else None), k_written = (\<lambda>n. 2)\<rparr>"

definition ex_paths :: Sword3Paths where
  "ex_paths = \<lparr>bundle_dir = Some ''/game'', data_dir = Some ''/data'', data_dir_fd = 5\<rparr>"

definition ex_write :: "cstr \<Rightarrow> (unit option \<times> posix) option" where
  "ex_write name = sword3_paths_atomic_write ex_kernel 77 (Some ex_paths) (Some name) (Some [7, 8, 9]) 3 420 ex_disk"

lemma ex_disk_ok: "disk_ok ex_disk" "map_of (ps_fds ex_disk) (data_dir_fd ex_paths) = Some 1" "is_dir (ps_nodes ex_disk) 1"
  by (auto simp: disk_ok_def ex_disk_def ex_paths_def is_dir_def split: if_splits)

lemma ex_write_ok: "map_option fst (ex_write ''./save'') = Some (Some ())"
  by code_simp


theorem write_all_returns_witness: "\<exists>r st'. write_all ex_kernel 5 [7, 8, 9] ex_disk = Some (r, st')"
proof (rule write_all_returns, intro allI)
  fix n :: nat
  show "\<exists>m \<ge> n. k_fail ex_kernel m \<noteq> Some E_INTR" by (rule exI [of _ "n + 6"]) (simp add: ex_kernel_def)
qed

lemma path_buffers_hold_witness:
  "length (fold normalize_part (take 2 (strtok_slash ''/a/../b'')) ''/'') + 1 \<le> length ''/a/../b'' + 2 \<and>
   length (fold join_piece (take 2 (pieces ''x//y'')) (abs_path [''data''])) + 1 \<le> length (abs_path [''data'']) + length ''x//y'' + 2"
  by (rule path_buffers_hold [of "''/a/../b''" "[''data'']" 2 "''x//y''"]) (simp_all add: clean_names_def name_ok_def)

lemma normalize_absolute_correct_witness:
  "\<exists>st'. normalize_absolute ex_kernel (Some ''/a/./b/../../../c'') ex_disk = (Some ''/c'', st') \<and>
    strtok_slash ''/c'' = [''c''] \<and> clean_names (strtok_slash ''/c'') \<and>
    fst (normalize_absolute ex_kernel (Some ''/c'') ex_disk) \<in> {None, Some ''/c''}"
proof -
  have "fold normalize_part (strtok_slash ''/a/./b/../../../c'') ''/'' = ''/c''" by code_simp
  then have "fst (normalize_absolute ex_kernel (Some ''/a/./b/../../../c'') ex_disk) = Some ''/c''"
    by (simp add: normalize_absolute_def SIZE_MAX64_def sys_alloc_def sys_def ex_kernel_def ex_disk_def)
  then obtain st' where run: "normalize_absolute ex_kernel (Some ''/a/./b/../../../c'') ex_disk = (Some ''/c'', st')"
    by (cases "normalize_absolute ex_kernel (Some ''/a/./b/../../../c'') ex_disk") simp
  moreover have "norm_names (strtok_slash ''/a/./b/../../../c'') = [''c'']" by code_simp
  ultimately show ?thesis using normalize_absolute_correct [OF run, of ex_kernel ex_disk] by metis
qed

theorem data_names_stay_below_witness:
  "(case fst (sword3_paths_data ex_kernel (Some ex_paths) (Some ''slot//./1'') ex_disk) of
      Some out \<Rightarrow> out = ''/data/slot/1'' \<and> strtok_slash out = [''data'', ''slot'', ''1''] \<and> clean_names (strtok_slash out)
    | None \<Rightarrow> True) \<and>
   sword3_paths_data ex_kernel (Some ex_paths) (Some ''slot/../1'') ex_disk = (None, ex_disk\<lparr>ps_errno := E_PERM\<rparr>)"
proof -
  have d: "data_dir ex_paths = Some (abs_path [''data''])" "clean_names [''data'']"
      "length (abs_path [''data'']) + length ''slot//./1'' + 2 \<le> SIZE_MAX64" "length (abs_path [''data'']) + length ''slot/../1'' + 2 \<le> SIZE_MAX64"
    by (simp_all add: ex_paths_def abs_path_def clean_names_def name_ok_def SIZE_MAX64_def)
  have n: "[''data''] @ filter (\<lambda>c. c \<noteq> ''.'') (strtok_slash ''slot//./1'') = [''data'', ''slot'', ''1'']"
      "abs_path [''data'', ''slot'', ''1''] = ''/data/slot/1''" "''..'' \<in> set (strtok_slash ''slot/../1'')" by code_simp+
  have a: "case fst (sword3_paths_data ex_kernel (Some ex_paths) (Some ''slot//./1'') ex_disk) of
      Some out \<Rightarrow> out = ''/data/slot/1'' \<and> strtok_slash out = [''data'', ''slot'', ''1''] \<and> clean_names (strtok_slash out) | None \<Rightarrow> True"
    using conjunct1 [OF data_names_stay_below [OF d(1-3), of ex_kernel ex_disk]] unfolding n
    by (cases "fst (sword3_paths_data ex_kernel (Some ex_paths) (Some ''slot//./1'') ex_disk)") (simp, metis option.case(2))
  then show ?thesis using conjunct2 [OF data_names_stay_below [OF d(1,2,4), of ex_kernel ex_disk]] n(3) by simp
qed

definition ex_vars :: path_vars where
  "ex_vars = \<lparr>SWORD3_BUNDLE_DIR = Some ''/game'', SWORD3_DATA_DIR = None, XDG_DATA_HOME = Some ''/data'', HOME_DIR = None\<rparr>"

lemma ex_names: "strtok_slash ''/game'' = [''game'']" "strtok_slash ''/data/sword3'' = [''data'', ''sword3'']" "strtok_slash ''/data'' = [''data'']"
    "normalize_part ''game'' ''/'' = ''/game''" "normalize_part ''data'' ''/'' = ''/data''" "normalize_part ''sword3'' ''/data'' = ''/data/sword3''"
    "path_prefixes ''/data/sword3'' = [''/data'', ''/data/sword3'']"
  by code_simp+

lemma ex_fds: "lowest 0 [5] = 0" "lowest 3 [0, 5] = 3"
  by code_simp+

lemma ex_init_ok: "map_option data_dir_fd (fst (sword3_paths_init (ex_kernel\<lparr>k_fail := \<lambda>_. None\<rparr>) ex_vars ex_disk)) = Some 3"
  by (simp add: sword3_paths_init_def make_data_root_def suffixed_root_def normalize_absolute_def sword3_paths_mkdirs_def ex_vars_def ex_kernel_def ex_disk_def
      SIZE_MAX64_def sys_alloc_def sys_mkdir_def sys_stat_def sys_open_dir_def sys_dup3_def sys_def make_one_def ex_names MAXSYMLINKS_def
      new_fd_def new_node_def set_node_def ex_fds)


text \<open>A file with the name of the first temporary file, and a kernel with no descriptor to give: the call fails, and has removed a file it did
  not make.\<close>

definition ex_foreign :: posix where
  "ex_foreign = set_node 1 (Dir 0 [''save'' \<mapsto> 2, ''.sword3-tmp-77-0'' \<mapsto> 3]) (set_node 3 (Regular [4] 420) (ex_disk\<lparr>ps_next := 4\<rparr>))"

lemma foreign_temp_removed:
  "content (ps_nodes ex_foreign) 1 [''.sword3-tmp-77-0''] = Some [4]"
  "map_option (\<lambda>(r, st'). (r, content (ps_nodes st') 1 [''.sword3-tmp-77-0'']))
     (sword3_paths_atomic_write (ex_kernel\<lparr>k_fail := \<lambda>n. if n = 3 then Some (E_other 24) else None\<rparr>) 77 (Some ex_paths) (Some ''save'')
       (Some [7, 8, 9]) 3 420 ex_foreign) = Some (None, None)"
  by code_simp+

end
