(* ===== verification/Spec2Isabelle.thy ===== *)
theory Spec2Isabelle
  imports Input_Context Native_Menu Isa_Emul_Pass Input_Session Config_Roundtrip Patcher_File Resolver_Example Dylib_Example
    Sgr_Correct Stack_Correct Machismo_Example Eh_Frame_Example Paths_Replace
begin

text \<open>
  Verification of Machismo, a Mach-O loader for aarch64 Linux, and of the Sword3 port on top of it.

  \<^bold>\<open>The program.\<close> Machismo (\<^verbatim>\<open>machismo.c\<close>) maps an arm64 Mach-O executable into a Linux process (\<^verbatim>\<open>loader.c\<close>, \<^verbatim>\<open>stack.c\<close>,
  \<^verbatim>\<open>commpage.c\<close>), binds its imports to Linux libraries (\<^verbatim>\<open>resolver.c\<close>) or to further Mach-O dylibs (\<^verbatim>\<open>dylib_loader.c\<close>), replaces functions of the guest by
  functions of the host (\<^verbatim>\<open>trampoline.c\<close>), patches single instructions from a text file (\<^verbatim>\<open>patcher.c\<close>), rewrites
  instructions the CPU does not have (\<^verbatim>\<open>isa_emul.c\<close>), makes the guest's unwind tables known to the host's unwinder
  (\<^verbatim>\<open>eh_frame.c\<close>), and is steered by a configuration file (\<^verbatim>\<open>config.c\<close>). The
  Sword3 port adds a host input layer (\<^verbatim>\<open>ports/sword3/input.c\<close>), the decision which screen of the game the input
  belongs to (\<^verbatim>\<open>input_context.c\<close>), the focus machine of the game's menus (\<^verbatim>\<open>native_menu_input.c\<close>), and the
  directories of the game with the writing of its saved data (\<^verbatim>\<open>paths.c\<close>); its resource archives are
  taken apart and put together by two tools (\<^verbatim>\<open>tools/\<close>). All paths below, but that one, are relative to \<^verbatim>\<open>src/src\<close>.

  \<^bold>\<open>Shared ground.\<close>
  \<^item> \<open>Machismo_Prelude\<close>: word types, list and option lemmas, and the locale \<open>step_invariant\<close>: an invariant kept by one
    step is kept by every run; each component with a session interprets it on its own step function.
  \<^item> \<open>Guest_Memory\<close>: memory as a function from 64-bit addresses to bytes, little-endian loads and stores, ranges
    that may wrap around, and \<open>same_outside\<close>, the frame of an operation. \<open>Mem_Image\<close> gives concrete memories for
    the examples. \<open>Process_Memory\<close>: what \<^verbatim>\<open>mmap\<close> does to memory; placement and refusal are the environment.
  \<^item> \<open>C_String\<close>: the C library functions the sources use on strings (\<^verbatim>\<open>fgets\<close>, \<^verbatim>\<open>strtoull\<close> and so on).
  \<^item> \<open>Macho\<close>: the structures of \<^verbatim>\<open>macho_defs.h\<close>, read from memory at their offsets.
  \<^item> \<open>Arm64_Enc\<close> (\<^verbatim>\<open>arm64_enc.h\<close>), \<open>Arm64_Machine\<close>, \<open>Abi_Machine\<close>, the first section of \<open>Trampoline_Correct\<close>: the encoders of the repository, and the
    architecture's meaning of the instructions the emitted code consists of. The machines are the yardstick for
    emitted code and model no source.

  \<^bold>\<open>Instruction emulation\<close> (\<^verbatim>\<open>isa_emul.c\<close>). \<open>Isa_Emul\<close> has the decoders of LSE atomics and BCAX, the island generators
  and the patching pass. \<open>Island_Code\<close>, \<open>Island_Rmw\<close>, \<open>Island_Cas\<close> and \<open>Island_Correct\<close> execute the emitted words;
  \<open>Isa_Emul_Correct\<close> shows that an island has exactly the effect of the instruction it replaces, under interference
  of other cores between its instructions; \<open>Isa_Emul_Pass\<close> that the pass replaces only such instructions, and
  never writes behind the pool.

  \<^bold>\<open>Trampolines\<close> (\<^verbatim>\<open>trampoline.c\<close>). \<open>Trampoline\<close> has the island pool, \<^verbatim>\<open>write_trampoline\<close> and the writable text;
  \<open>Trampoline_Symbols\<close> and \<open>Trampoline_Passes\<close> the passes over the symbol table; \<open>Address_Hooks\<close> the hook file, the table of
  function starts and the all-or-nothing application; \<open>Stale_Guard\<close> the page guard. A trampoline is executed: the
  function's entry reaches the host target in three instructions. A failing hook run changes nothing. \<open>Trampoline_Codec\<close>
  has the ULEB128 round trip and the completeness of the mangling search.

  \<^bold>\<open>Resolver\<close> (\<^verbatim>\<open>resolver.c\<close>). \<open>Symbol_Table\<close>: symbol lookup and extent with its cache; the order \<^verbatim>\<open>qsort\<close> gives to equal
  keys is open, so the sort is a parameter under the locale \<open>qsort_contract\<close>. \<open>Resolver_State\<close>, \<open>Resolver_Abi\<close>,
  \<open>Resolver_Bind\<close>: the state of a run, the adapters between the two ABIs, the resolution of one bind.
  \<open>Chained_Fixups\<close>, \<open>Dyld_Info\<close>, \<open>Resolver\<close>: the two fixup formats and the whole run. \<open>Resolver_Frame\<close> shows what a
  resolution may change; \<open>Fixups_Correct\<close> that a chain is walked to its end with every slot fixed;
  \<open>Rebase_Correct\<close> that the rebase interpreter runs the program its bytes encode; \<open>Abi_Adapters\<close> executes the adapters.
  Loops over foreign data that may not end (a chain that comes back on itself, a symbol name over the end of a
  stream) are \<^theory_text>\<open>partial_function (option)\<close>: no result is \<^const>\<open>None\<close>, and the theorems show that there is one.

  \<^bold>\<open>Dylib loader\<close> (\<^verbatim>\<open>dylib_loader.c\<close>). \<open>Dylib_Loader\<close> and \<open>Dylib_Correct\<close>: a loaded dylib holds the bytes of its
  file at its slide, inside the reserved memory.

  \<^bold>\<open>Image, stack and commpage\<close> (\<^verbatim>\<open>loader.c\<close>, \<^verbatim>\<open>stack.c\<close>, \<^verbatim>\<open>commpage.c\<close>). \<open>Image_Loader\<close>: \<^verbatim>\<open>load64\<close> with both passes over the load
  commands, the reservation with its pool, the commpage, and the stack the program starts with.
  \<open>Image_Correct\<close>: a loaded executable holds the bytes of its file at its slide, and the fields of the commpage; \<open>Stack_Correct\<close>: the stack has the layout
  Darwin documents. \<open>Image_Example\<close> has a small executable.

  \<^bold>\<open>Unwind tables\<close> (\<^verbatim>\<open>eh_frame.c\<close>). \<open>Eh_Frame\<close>: compact entries are collected, written as DWARF entries, and indexed
  with the image's own in a sorted table. \<open>Dwarf_Cfi\<close> is the yardstick: what an unwinder reads in a DWARF section; it
  models no source. \<open>Eh_Frame_Emit\<close>, \<open>Eh_Frame_Correct\<close>: every function's FDE says to the unwinder what its compact encoding says;
  \<open>Eh_Frame_Walk\<close>, \<open>Eh_Frame_Native\<close>: both walks over DWARF data find exactly the FDEs, and where the walk over foreign
  data ends; \<open>Eh_Frame_Index\<close>: order, sizes, binary search and the size of the buffer; \<open>Eh_Frame_Register\<close>: a whole
  registration, with the sort under the locale \<open>table_sort\<close>; \<open>Eh_Frame_Example\<close>: the properties and an image of one function.

  \<^bold>\<open>Process start\<close> (\<^verbatim>\<open>machismo.c\<close>). \<open>Machismo_Main\<close>: the command line, fat files, and the stages of \<^verbatim>\<open>main\<close> in their order
  with each way out; the guest's code is an event of a trace, with an effect on memory that the environment gives.
  \<open>Machismo_Safe\<close>: guest code runs only in the documented order and behind the checks, and never in an audit;
  \<open>Machismo_Example\<close> starts a small executable.

  \<^bold>\<open>Resource archives\<close> (\<^verbatim>\<open>tools/sgr_extract.c\<close>, \<^verbatim>\<open>tools/sgr_repack.c\<close>). \<open>Sgr_Codec\<close>: the generator, the encryption and the
  growing buffer; \<open>Sgr_Archive\<close>: both programs over a file system that is a map from names to contents. \<open>Sgr_Correct\<close>:
  extracting what was repacked gives it back, manifests are read within their arrays, and repacking ends. A doubling loop that
  may not end is \<^theory_text>\<open>partial_function (option)\<close>.

  \<^bold>\<open>Patcher\<close> (\<^verbatim>\<open>patcher.c\<close>). \<open>Patcher\<close>, \<open>Patcher_Find\<close>, \<open>Patcher_Correct\<close>, \<open>Patcher_File\<close>: the patch language, the pattern
  search, what a successful and a failing run do to the image, and that a printed file is applied as written.

  \<^bold>\<open>Configuration\<close> (\<^verbatim>\<open>config.c\<close>). \<open>Config\<close>, \<open>Config_Roundtrip\<close>: bounds for any file, and loading a printed configuration
  gives it back.

  \<^bold>\<open>Input of the port\<close> (\<^verbatim>\<open>ports/sword3\<close>). \<open>Input_Queue\<close>, \<open>Input\<close>, \<open>Input_Correct\<close>, \<open>Input_Inv\<close>, \<open>Input_Session\<close>: reference
  counts of keys and the event queue; in every session a key is down exactly while something holds it.
  \<open>Input_Context\<close>: the route and its lifecycle generation. \<open>Native_Menu\<close>: the focus machine.

  \<^bold>\<open>Paths of the port\<close> (\<^verbatim>\<open>ports/sword3/paths.c\<close>). \<open>Posix_Files\<close>: the calls the code makes, on a disk of numbered nodes, with a kernel
  that may refuse any call and split any write; every call leaves the disk behind it in a history. \<open>Sword3_Paths\<close> is the
  code. \<open>Paths_Names\<close>: names against lists of components, and the buffers they are built in; \<open>Paths_Disk\<close>, \<open>Paths_Write\<close>: what each step
  of a replacement does to the disk; \<open>Paths_Replace\<close>: a file is replaced atomically at every moment of the call, a write ends unless it is
  interrupted forever, and the descriptors of initialisation and destruction. Other processes do not change the disk during a call.

  \<^bold>\<open>Bounds.\<close> There is no fuel: loops recur on a measure, or are \<^theory_text>\<open>partial_function (option)\<close> with a theorem that they return.
  Machine integers keep their width; sizes of C lists that are bounded by memory are numbers.

  \<^bold>\<open>Not modelled.\<close> Bodies of the operator new/delete and Lua hooks of the resolver (addresses of the environment). In the
  process start, the calls into the debugger interface, heap trace, crash handler, splash screen and graphics shims and the
  change of directory are left out, and the registration of the unwind tables is modelled on its own; the commpage is that of a build
  without the HWCAP2 constants. The shims of system, graphics and window libraries forward to libraries outside the
  repository; the other bridges and the host menus of the port draw and call SDL, GL and FFmpeg. Heap trace, crash handler and
  debugger interface are input and output around the program. Allocations of the C heap succeed unless a component says
  otherwise, messages are left out, and streams are taken to be written when they are closed.
\<close>

end
